(* ===== verification/Web_Prelude.thy ===== *)
theory Web_Prelude
  imports Complex_Main "HOL-Library.Sublist"
begin

text \<open>
  The vocabulary every component of the model shares: the part of the JavaScript standard
  library the server code uses, as executable functions with the lemmas the component
  proofs rest on.

  \<^item> \<open>('k, 'v) jsmap\<close> is a JavaScript \<open>Map\<close>: an association list in insertion order.
    \<open>jm_set\<close> overwrites in place (the key keeps its position) or appends, \<open>jm_del\<close> removes,
    iteration is list order. The contract is the locale \<open>ordered_map\<close>, interpreted below.
  \<^item> \<open>slice_last n xs\<close> is \<open>xs.slice(-n)\<close>; in JavaScript \<open>slice(-0)\<close> is \<open>slice(0)\<close>, the
    whole array.
  \<^item> \<open>keep_last n xs\<close> is the bounded-log idiom
    \<open>if (xs.length > n) xs.splice(0, xs.length - n)\<close>.
  \<^item> \<open>js_num\<close> is a JavaScript number where the code distinguishes finite numbers from
    \<open>NaN\<close> and the infinities. Everywhere else a number is an \<open>int\<close> (counts, bytes and
    milliseconds, all far below \<open>2 ^ 53\<close>) or a \<open>rat\<close> (fractions and token counts): the
    rounding of IEEE doubles is not modelled.
  \<^item> a thrown error is \<open>Inl\<close>, a normal return \<open>Inr\<close>.
\<close>

named_theorems js_simps \<open>evaluation of the JavaScript helpers\<close>
named_theorems inv_intros \<open>preservation of component invariants\<close>

subsection \<open>Arrays\<close>

definition slice_last :: "nat \<Rightarrow> 'a list \<Rightarrow> 'a list" where
  "slice_last n xs = (if n = 0 then xs else drop (length xs - n) xs)"

definition keep_last :: "nat \<Rightarrow> 'a list \<Rightarrow> 'a list" where
  "keep_last n xs = (if n < length xs then drop (length xs - n) xs else xs)"

lemma length_keep_last [simp]: "length (keep_last n xs) = min n (length xs)"
  by (auto simp: keep_last_def)

lemma set_keep_last: "set (keep_last n xs) \<subseteq> set xs"
  by (auto simp: keep_last_def dest: in_set_dropD)

lemma suffix_keep_last: "suffix (keep_last n xs) xs"
  by (auto simp: keep_last_def suffix_drop)

lemma keep_last_small: "length xs \<le> n \<Longrightarrow> keep_last n xs = xs"
  by (simp add: keep_last_def)

lemma last_keep_last: "xs \<noteq> [] \<Longrightarrow> 0 < n \<Longrightarrow> last (keep_last n xs) = last xs"
  by (auto simp: keep_last_def)

lemma length_slice_last_le: "0 < n \<Longrightarrow> length (slice_last n xs) \<le> n"
  by (simp add: slice_last_def)

lemma suffix_slice_last: "suffix (slice_last n xs) xs"
  by (auto simp: slice_last_def suffix_drop)

text \<open>\<open>findIndex\<close> and \<open>find\<close>.\<close>

fun find_index :: "('a \<Rightarrow> bool) \<Rightarrow> 'a list \<Rightarrow> nat option" where
  "find_index p [] = None"
| "find_index p (x # xs) = (if p x then Some 0 else map_option Suc (find_index p xs))"

lemma find_index_SomeD: "find_index p xs = Some i \<Longrightarrow> i < length xs \<and> p (xs ! i)"
  by (induction xs arbitrary: i) (auto split: if_splits)

lemma find_index_None: "find_index p xs = None \<longleftrightarrow> (\<forall>x \<in> set xs. \<not> p x)"
  by (induction xs) auto

definition splice_out :: "nat \<Rightarrow> 'a list \<Rightarrow> 'a list" where
  "splice_out i xs = take i xs @ drop (Suc i) xs"

lemma length_splice_out: "i < length xs \<Longrightarrow> length (splice_out i xs) = length xs - 1"
  by (simp add: splice_out_def)

lemma set_splice_out: "set (splice_out i xs) \<subseteq> set xs"
  by (auto simp: splice_out_def dest: in_set_takeD in_set_dropD)

lemma splice_out_split:
  "i < length xs \<Longrightarrow> xs = take i xs @ (xs ! i) # drop (Suc i) xs"
  by (rule id_take_nth_drop)

lemma distinct_map_splice_out:
  assumes "distinct (map f xs)"
  shows "distinct (map f (splice_out i xs))"
proof (cases "i < length xs")
  case True
  then have "distinct (map f (take i xs @ (xs ! i) # drop (Suc i) xs))"
    using assms splice_out_split [OF True] by simp
  then show ?thesis by (auto simp: splice_out_def)
next
  case False
  with assms show ?thesis by (simp add: splice_out_def)
qed

lemma splice_out_notin:
  assumes "distinct (map f xs)" and "i < length xs"
  shows "f (xs ! i) \<notin> f ` set (splice_out i xs)"
proof -
  have "distinct (map f (take i xs @ (xs ! i) # drop (Suc i) xs))"
    using assms(1) splice_out_split [OF assms(2)] by simp
  then show ?thesis by (auto simp: splice_out_def)
qed

subsection \<open>JavaScript Set: its elements in insertion order\<close>

type_synonym 'a jsset = "'a list"

definition js_add :: "'a \<Rightarrow> 'a jsset \<Rightarrow> 'a jsset" where
  "js_add x s = (if x \<in> set s then s else s @ [x])"

definition js_remove :: "'a \<Rightarrow> 'a jsset \<Rightarrow> 'a jsset" where
  "js_remove x s = filter (\<lambda>y. y \<noteq> x) s"

lemma set_js_add [simp]: "set (js_add x s) = insert x (set s)"
  by (auto simp: js_add_def)

lemma set_js_remove [simp]: "set (js_remove x s) = set s - {x}"
  by (auto simp: js_remove_def)

lemma distinct_js_add [simp]: "distinct s \<Longrightarrow> distinct (js_add x s)"
  by (simp add: js_add_def)

lemma distinct_js_remove [simp]: "distinct s \<Longrightarrow> distinct (js_remove x s)"
  by (simp add: js_remove_def)

lemma js_add_notNil [simp]: "js_add x s \<noteq> []"
  by (auto simp: js_add_def)

subsection \<open>JavaScript Map: an insertion-ordered association list\<close>

type_synonym ('k, 'v) jsmap = "('k \<times> 'v) list"

abbreviation jm_get :: "('k, 'v) jsmap \<Rightarrow> 'k \<Rightarrow> 'v option" where
  "jm_get \<equiv> map_of"

fun jm_set :: "'k \<Rightarrow> 'v \<Rightarrow> ('k, 'v) jsmap \<Rightarrow> ('k, 'v) jsmap" where
  "jm_set k v [] = [(k, v)]"
| "jm_set k v ((k', v') # m) = (if k = k' then (k, v) # m else (k', v') # jm_set k v m)"

definition jm_del :: "'k \<Rightarrow> ('k, 'v) jsmap \<Rightarrow> ('k, 'v) jsmap" where
  "jm_del k m = filter (\<lambda>kv. fst kv \<noteq> k) m"

abbreviation jm_keys :: "('k, 'v) jsmap \<Rightarrow> 'k list" where
  "jm_keys m \<equiv> map fst m"

abbreviation jm_values :: "('k, 'v) jsmap \<Rightarrow> 'v list" where
  "jm_values m \<equiv> map snd m"

definition jm_has :: "('k, 'v) jsmap \<Rightarrow> 'k \<Rightarrow> bool" where
  "jm_has m k \<longleftrightarrow> map_of m k \<noteq> None"

definition jm_ok :: "('k, 'v) jsmap \<Rightarrow> bool" where
  "jm_ok m \<longleftrightarrow> distinct (jm_keys m)"

lemma jm_get_set [simp]: "jm_get (jm_set k v m) = (jm_get m)(k \<mapsto> v)"
  by (induction m) auto

lemma jm_get_del [simp]: "jm_get (jm_del k m) = (jm_get m)(k := None)"
  unfolding jm_del_def by (induction m) auto

lemma jm_keys_set:
  "jm_keys (jm_set k v m) = (if k \<in> set (jm_keys m) then jm_keys m else jm_keys m @ [k])"
  by (induction m) (simp, case_tac a, force)

lemma jm_keys_del: "jm_keys (jm_del k m) = filter (\<lambda>k'. k' \<noteq> k) (jm_keys m)"
  unfolding jm_del_def by (induction m) auto

lemma set_jm_keys: "set (jm_keys m) = dom (jm_get m)"
  by (simp add: dom_map_of_conv_image_fst)

lemma jm_ok_Nil [simp]: "jm_ok []"
  by (simp add: jm_ok_def)

lemma jm_ok_set [simp]: "jm_ok m \<Longrightarrow> jm_ok (jm_set k v m)"
  by (auto simp: jm_ok_def jm_keys_set)

lemma jm_ok_del [simp]: "jm_ok m \<Longrightarrow> jm_ok (jm_del k m)"
  by (simp add: jm_ok_def jm_keys_del)

lemma jm_has_set [simp]: "jm_has (jm_set k v m) k' \<longleftrightarrow> k' = k \<or> jm_has m k'"
  by (simp add: jm_has_def)

lemma jm_has_del [simp]: "jm_has (jm_del k m) k' \<longleftrightarrow> k' \<noteq> k \<and> jm_has m k'"
  by (simp add: jm_has_def)

lemma jm_set_append_iff: "k \<notin> set (jm_keys m) \<Longrightarrow> jm_set k v m = m @ [(k, v)]"
  by (induction m) auto

lemma jm_set_values:
  "set (jm_values (jm_set k v m)) \<subseteq> insert v (set (jm_values m))"
  by (induction k v m rule: jm_set.induct) auto

lemma jm_get_mem: "jm_ok m \<Longrightarrow> jm_get m k = Some v \<longleftrightarrow> (k, v) \<in> set m"
  by (simp add: jm_ok_def)

lemma jm_set_mem:
  "jm_ok m \<Longrightarrow> (k', v') \<in> set (jm_set k v m) \<longleftrightarrow>
     (k' = k \<and> v' = v) \<or> (k' \<noteq> k \<and> (k', v') \<in> set m)"
  using jm_get_mem [of "jm_set k v m" k' v'] jm_get_mem [of m k' v'] by (auto split: if_splits)

lemma jm_del_subset: "set (jm_del k m) \<subseteq> set m"
  by (auto simp: jm_del_def)

lemma length_jm_del_le: "length (jm_del k m) \<le> length m"
  by (simp add: jm_del_def)

lemma length_jm_del: "jm_ok m \<Longrightarrow> jm_has m k \<Longrightarrow> Suc (length (jm_del k m)) = length m"
proof (induction m)
  case (Cons kv m)
  obtain a b where kv: "kv = (a, b)" by (cases kv)
  show ?case
  proof (cases "a = k")
    case True
    with Cons.prems kv have "jm_del k m = m"
      by (auto simp: jm_ok_def jm_del_def filter_id_conv image_iff)
    with True kv show ?thesis by (simp add: jm_del_def)
  next
    case False
    with Cons kv show ?thesis by (simp add: jm_ok_def jm_has_def jm_del_def)
  qed
qed (simp add: jm_has_def)

text \<open>Every value of the map satisfies a predicate.\<close>

definition jm_all :: "('v \<Rightarrow> bool) \<Rightarrow> ('k, 'v) jsmap \<Rightarrow> bool" where
  "jm_all P m \<longleftrightarrow> list_all (P \<circ> snd) m"

lemma jm_all_Nil [simp]: "jm_all P []"
  by (simp add: jm_all_def)

lemma jm_all_Cons [simp]: "jm_all P (kv # m) \<longleftrightarrow> P (snd kv) \<and> jm_all P m"
  by (simp add: jm_all_def)

lemma jm_all_set [simp, intro]: "jm_all P m \<Longrightarrow> P v \<Longrightarrow> jm_all P (jm_set k v m)"
  by (induction k v m rule: jm_set.induct) (auto simp: jm_all_def)

lemma jm_all_del [simp, intro]: "jm_all P m \<Longrightarrow> jm_all P (jm_del k m)"
  by (auto simp: jm_all_def jm_del_def list_all_iff)

lemma jm_all_get: "jm_all P m \<Longrightarrow> jm_get m k = Some v \<Longrightarrow> P v"
  by (induction m) (auto split: if_splits)

lemma jm_all_values: "jm_all P m \<longleftrightarrow> (\<forall>v \<in> set (jm_values m). P v)"
  by (auto simp: jm_all_def list_all_iff)

text \<open>
  The contract of the container, as the stores that keep their records in a \<open>Map\<close> use it:
  a finite map whose iteration order is the order of first insertion.
\<close>

locale ordered_map =
  fixes empty :: 'm
    and get :: "'m \<Rightarrow> 'k \<Rightarrow> 'v option"
    and put :: "'k \<Rightarrow> 'v \<Rightarrow> 'm \<Rightarrow> 'm"
    and del :: "'k \<Rightarrow> 'm \<Rightarrow> 'm"
    and order :: "'m \<Rightarrow> 'k list"
    and ok :: "'m \<Rightarrow> bool"
  assumes ok_empty: "ok empty"
    and get_empty: "get empty = Map.empty"
    and get_put: "ok m \<Longrightarrow> get (put k v m) = (get m)(k \<mapsto> v)"
    and get_del: "ok m \<Longrightarrow> get (del k m) = (get m)(k := None)"
    and ok_put: "ok m \<Longrightarrow> ok (put k v m)"
    and ok_del: "ok m \<Longrightarrow> ok (del k m)"
    and order_dom: "ok m \<Longrightarrow> set (order m) = dom (get m)"
    and order_distinct: "ok m \<Longrightarrow> distinct (order m)"
    and order_put: "ok m \<Longrightarrow>
          order (put k v m) = (if k \<in> dom (get m) then order m else order m @ [k])"
    and order_del: "ok m \<Longrightarrow> order (del k m) = filter (\<lambda>k'. k' \<noteq> k) (order m)"
begin

lemma finite_dom: "ok m \<Longrightarrow> finite (dom (get m))"
  using order_dom [of m] by (metis finite_set)

lemma put_same_order: "ok m \<Longrightarrow> get m k \<noteq> None \<Longrightarrow> order (put k v m) = order m"
  by (auto simp: order_put)

lemma put_del_get: "ok m \<Longrightarrow> get (del k (put k v m)) = (get m)(k := None)"
  by (simp add: get_del get_put ok_put)

lemma length_order_put_le: "ok m \<Longrightarrow> length (order (put k v m)) \<le> Suc (length (order m))"
  by (simp add: order_put)

lemma length_order_card: "ok m \<Longrightarrow> length (order m) = card (dom (get m))"
  by (metis distinct_card order_distinct order_dom)

text \<open>Re-inserting under a fresh key leaves every older key where it was: first-in order.\<close>

lemma order_put_prefix: "ok m \<Longrightarrow> prefix (order m) (order (put k v m))"
  by (simp add: order_put)

end

interpretation jm: ordered_map "[]" "jm_get :: ('k, 'v) jsmap \<Rightarrow> 'k \<Rightarrow> 'v option" jm_set jm_del
  jm_keys jm_ok
  by unfold_locales
    (simp_all add: jm_keys_set jm_keys_del set_jm_keys dom_map_of_conv_image_fst,
     simp add: jm_ok_def)

subsection \<open>Sums over the values of a map\<close>

definition jm_sum :: "('v \<Rightarrow> int) \<Rightarrow> ('k, 'v) jsmap \<Rightarrow> int" where
  "jm_sum f m = sum_list (map (f \<circ> snd) m)"

definition opt_val :: "('v \<Rightarrow> int) \<Rightarrow> 'v option \<Rightarrow> int" where
  "opt_val f x = (case x of None \<Rightarrow> 0 | Some v \<Rightarrow> f v)"

lemma opt_val_simps [simp]: "opt_val f None = 0" "opt_val f (Some v) = f v"
  by (simp_all add: opt_val_def)

lemma jm_sum_Nil [simp]: "jm_sum f [] = 0"
  by (simp add: jm_sum_def)

lemma jm_sum_Cons [simp]: "jm_sum f (kv # m) = f (snd kv) + jm_sum f m"
  by (simp add: jm_sum_def)

lemma jm_sum_set: "jm_sum f (jm_set k v m) = jm_sum f m - opt_val f (jm_get m k) + f v"
  by (induction m) auto

lemma jm_sum_del:
  "jm_ok m \<Longrightarrow> jm_sum f (jm_del k m) = jm_sum f m - opt_val f (jm_get m k)"
proof (induction m)
  case Nil
  then show ?case by (simp add: jm_del_def)
next
  case (Cons kv m)
  obtain a b where kv: "kv = (a, b)" by (cases kv)
  from Cons.prems have ok: "jm_ok m" by (simp add: jm_ok_def)
  show ?case
  proof (cases "a = k")
    case True
    with Cons.prems kv have "jm_del k m = m"
      by (auto simp: jm_ok_def jm_del_def filter_id_conv image_iff)
    with True kv show ?thesis by (simp add: jm_del_def)
  next
    case False
    with Cons.IH [OF ok] kv show ?thesis by (simp add: jm_del_def)
  qed
qed

lemma jm_sum_nonneg: "(\<And>v. v \<in> set (jm_values m) \<Longrightarrow> 0 \<le> f v) \<Longrightarrow> 0 \<le> jm_sum f m"
  by (induction m) auto

subsection \<open>Numbers\<close>

datatype js_num = Fin rat | NonFinite

text \<open>\<open>Math.floor\<close> on a finite number.\<close>

abbreviation js_floor :: "rat \<Rightarrow> int" where
  "js_floor r \<equiv> floor r"

end
