(* ===== verification/Json_Model.thy ===== *)
theory Json_Model
  imports Web_Prelude
begin

text \<open>
  JSON values as the server holds them, and the three standard-library functions the event
  path measures with: \<open>JSON.stringify\<close>, \<open>Buffer.byteLength\<close> (UTF-8) and string quoting.

  \<^item> A JavaScript string is the list of its UTF-16 code units (\<open>jsstr\<close>), because the byte
    counting code works on code units and surrogates. \<open>js ''abc''\<close> is a literal.
  \<^item> \<open>JUndef\<close> stands for \<open>undefined\<close>, a function or a symbol: omitted from objects, written
    as \<open>null\<close> in arrays.
  \<^item> A finite number is represented by the text \<open>String(n)\<close> prints, \<open>JNonFinite\<close> is
    \<open>NaN\<close> or an infinity (written as \<open>null\<close>).
  \<^item> An object is the list of its properties; objects with a \<open>toJSON\<close> method are not
    represented.
\<close>

type_synonym jsstr = "nat list"

definition js :: "string \<Rightarrow> jsstr" where
  "js s = map of_char s"

lemma js_eq_iff [simp]: "js s = js t \<longleftrightarrow> s = t"
  by (auto simp: js_def inj_map_eq_map [OF inj_of_char])

datatype json =
    JUndef
  | JNull
  | JBool bool
  | JNum jsstr
  | JNonFinite
  | JStr jsstr
  | JArr "json list"
  | JObj "(jsstr \<times> json) list"

type_synonym js_object = "(jsstr, json) jsmap"

subsection \<open>UTF-8 length: \<open>Buffer.byteLength\<close>\<close>

definition is_high :: "nat \<Rightarrow> bool" where
  "is_high c \<longleftrightarrow> 0xD800 \<le> c \<and> c \<le> 0xDBFF"

definition is_low :: "nat \<Rightarrow> bool" where
  "is_low c \<longleftrightarrow> 0xDC00 \<le> c \<and> c \<le> 0xDFFF"

fun byte_length :: "jsstr \<Rightarrow> nat" where
  "byte_length [] = 0"
| "byte_length (c # cs) =
     (if c < 0x80 then 1 + byte_length cs
      else if c < 0x800 then 2 + byte_length cs
      else if is_high c \<and> (case cs of [] \<Rightarrow> False | d # _ \<Rightarrow> is_low d)
      then 4 + byte_length (tl cs)
      else 3 + byte_length cs)"

definition starts_low :: "jsstr \<Rightarrow> bool" where
  "starts_low s \<longleftrightarrow> (case s of [] \<Rightarrow> False | d # _ \<Rightarrow> is_low d)"

lemma starts_low_simps [simp]:
  "starts_low [] = False" "starts_low (c # s) = is_low c"
  by (simp_all add: starts_low_def)

lemma byte_length_append:
  "\<not> starts_low t \<Longrightarrow> byte_length (s @ t) = byte_length s + byte_length t"
proof (induction s rule: byte_length.induct)
  case 1
  then show ?case by simp
next
  case (2 c cs)
  show ?case
  proof (cases cs)
    case Nil
    with 2 show ?thesis by (auto simp: starts_low_def split: list.splits)
  next
    case (Cons d ds)
    with 2 show ?thesis by auto
  qed
qed

lemma byte_length_Cons_ascii [simp]: "c < 0x80 \<Longrightarrow> byte_length (c # s) = 1 + byte_length s"
  by simp

declare byte_length.simps(2) [simp del]

lemma not_low_ascii [simp]: "c < 0x80 \<Longrightarrow> \<not> is_low c"
  by (simp add: is_low_def)

subsection \<open>\<open>JSON.stringify\<close>\<close>

definition hex_digit :: "nat \<Rightarrow> nat" where
  "hex_digit n = (if n < 10 then 48 + n else 87 + n)"

definition unicode_escape :: "nat \<Rightarrow> jsstr" where
  "unicode_escape c =
     [92, 117, hex_digit (c div 4096 mod 16), hex_digit (c div 256 mod 16),
      hex_digit (c div 16 mod 16), hex_digit (c mod 16)]"

definition short_escapes :: "(nat \<times> nat) list" where
  "short_escapes = [(0x08, 98), (0x09, 116), (0x0A, 110), (0x0C, 102), (0x0D, 114),
                    (0x22, 0x22), (0x5C, 0x5C)]"

fun quote_body :: "jsstr \<Rightarrow> jsstr" where
  "quote_body [] = []"
| "quote_body (c # cs) =
     (case map_of short_escapes c of
        Some e \<Rightarrow> 92 # e # quote_body cs
      | None \<Rightarrow>
          if c < 0x20 then unicode_escape c @ quote_body cs
          else if is_high c \<and> (case cs of [] \<Rightarrow> False | d # _ \<Rightarrow> is_low d)
          then c # hd cs # quote_body (tl cs)
          else if is_high c \<or> is_low c then unicode_escape c @ quote_body cs
          else c # quote_body cs)"

definition quote_json :: "jsstr \<Rightarrow> jsstr" where
  "quote_json s = 34 # quote_body s @ [34]"

fun join_with :: "nat \<Rightarrow> jsstr list \<Rightarrow> jsstr" where
  "join_with sep [] = []"
| "join_with sep [s] = s"
| "join_with sep (s # t # ss) = s @ sep # join_with sep (t # ss)"

text \<open>\<open>stringify\<close> of \<open>undefined\<close> is \<open>undefined\<close>: no text, here the empty one.\<close>

fun stringify :: "json \<Rightarrow> jsstr"
  and stringify_items :: "json list \<Rightarrow> jsstr list"
  and stringify_members :: "(jsstr \<times> json) list \<Rightarrow> jsstr list" where
  "stringify JUndef = []"
| "stringify JNull = js ''null''"
| "stringify (JBool b) = (if b then js ''true'' else js ''false'')"
| "stringify (JNum t) = t"
| "stringify JNonFinite = js ''null''"
| "stringify (JStr s) = quote_json s"
| "stringify (JArr vs) = 91 # join_with 44 (stringify_items vs) @ [93]"
| "stringify (JObj ms) = 123 # join_with 44 (stringify_members ms) @ [125]"
| "stringify_items [] = []"
| "stringify_items (v # vs) =
     (if v = JUndef then js ''null'' else stringify v) # stringify_items vs"
| "stringify_members [] = []"
| "stringify_members ((k, v) # ms) =
     (if v = JUndef then stringify_members ms
      else (quote_json k @ 58 # stringify v) # stringify_members ms)"

end
