(* ===== verification/Payload_Budget.thy ===== *)
theory Payload_Budget
  imports Json_Model
begin

text \<open>
  The event byte budget: \<open>internal-api/event-payload-budget.ts\<close> and the one helper it takes
  from \<open>pi/stream-transport.ts\<close>.

  An event larger than the budget is slimmed before it is delivered and retained: message
  updates keep their delta fields and lose the accumulated message, other events have their
  long strings cut, and an event that is still too large keeps only a marker. The size is
  measured without building the text (\<open>json_bytes\<close>) on the hot path; the main results are
  that this counter agrees with \<open>JSON.stringify\<close> followed by \<open>Buffer.byteLength\<close>, so that the
  fast path changes nothing, and that the budget is kept.

  \<open>JUndef\<close> is read as \<open>undefined\<close>; a function or symbol in its place is dropped by the same
  branches. The prototype chain is not modelled.
\<close>

subsection \<open>The byte counter\<close>

fun escape_bytes :: "jsstr \<Rightarrow> nat" where
  "escape_bytes [] = 0"
| "escape_bytes (code # rest) =
     (if code = 0x22 \<or> code = 0x5c
         \<or> code = 0x08 \<or> code = 0x09 \<or> code = 0x0a \<or> code = 0x0c \<or> code = 0x0d
      then 1 + escape_bytes rest
      else if code < 0x20 then 5 + escape_bytes rest
      else if 0xd800 \<le> code \<and> code \<le> 0xdbff then
        (if (case rest of [] \<Rightarrow> False | next # _ \<Rightarrow> 0xdc00 \<le> next \<and> next \<le> 0xdfff)
         then escape_bytes (tl rest)
         else 3 + escape_bytes rest)
      else if 0xdc00 \<le> code \<and> code \<le> 0xdfff then 3 + escape_bytes rest
      else escape_bytes rest)"

definition escapes_or_surrogates :: "jsstr \<Rightarrow> bool" where
  "escapes_or_surrogates s \<longleftrightarrow>
     list_ex (\<lambda>c. c = 0x22 \<or> c = 0x5c \<or> c \<le> 0x1f \<or> (0xD800 \<le> c \<and> c \<le> 0xDFFF)) s"

definition json_string_bytes :: "jsstr \<Rightarrow> nat" where
  "json_string_bytes s =
     (let utf8Bytes = byte_length s in
      if \<not> escapes_or_surrogates s then utf8Bytes + 2
      else utf8Bytes + escape_bytes s + 2)"

fun json_bytes :: "json \<Rightarrow> nat"
  and json_items_bytes :: "json list \<Rightarrow> nat"
  and json_members_bytes :: "nat \<Rightarrow> (jsstr \<times> json) list \<Rightarrow> nat" where
  "json_bytes JNull = 4"
| "json_bytes (JStr s) = json_string_bytes s"
| "json_bytes (JBool b) = (if b then 4 else 5)"
| "json_bytes (JNum t) = byte_length t"
| "json_bytes JNonFinite = 4"
| "json_bytes (JArr vs) = 2 + (length vs - 1) + json_items_bytes vs"
| "json_bytes (JObj ms) = 2 + json_members_bytes 0 ms"
| "json_bytes JUndef = 0"
| "json_items_bytes [] = 0"
| "json_items_bytes (item # rest) =
     (if item = JUndef then 4 else json_bytes item) + json_items_bytes rest"
| "json_members_bytes retained [] = 0"
| "json_members_bytes retained ((key, item) # rest) =
     (if item = JUndef then json_members_bytes retained rest
      else (if retained > 0 then 1 else 0) + json_string_bytes key + 1 + json_bytes item
             + json_members_bytes (retained + 1) rest)"

subsection \<open>Slimming\<close>

definition is_record :: "json \<Rightarrow> bool" where
  "is_record v \<longleftrightarrow> (case v of JObj _ \<Rightarrow> True | _ \<Rightarrow> False)"

text \<open>\<open>value[key]\<close>: a missing property reads as \<open>undefined\<close>.\<close>

definition prop_of :: "js_object \<Rightarrow> jsstr \<Rightarrow> json" where
  "prop_of obj key = (case jm_get obj key of None \<Rightarrow> JUndef | Some v \<Rightarrow> v)"

definition slim_message :: "json \<Rightarrow> js_object option" where
  "slim_message message =
     (case message of
        JObj m \<Rightarrow> Some (map (\<lambda>key. (key, prop_of m key))
                       (filter (\<lambda>key. prop_of m key \<noteq> JUndef)
                          [js ''id'', js ''stopReason'', js ''role'']))
      | _ \<Rightarrow> None)"

definition ellipsis_mark :: jsstr where
  "ellipsis_mark = 0x2026 # js ''[truncated]''"

fun truncate_strings :: "nat \<Rightarrow> json \<Rightarrow> json" where
  "truncate_strings maxLen (JStr s) =
     (if length s > maxLen then JStr (take (maxLen - 12) s @ ellipsis_mark) else JStr s)"
| "truncate_strings maxLen (JArr vs) = JArr (map (truncate_strings maxLen) vs)"
| "truncate_strings maxLen (JObj ms) =
     JObj (map (\<lambda>kv. (fst kv, truncate_strings maxLen (snd kv))) ms)"
| "truncate_strings maxLen v = v"

definition strip_partial :: "json \<Rightarrow> json" where
  "strip_partial ame =
     (case ame of JObj source \<Rightarrow> JObj (filter (\<lambda>kv. fst kv \<noteq> js ''partial'') source)
      | _ \<Rightarrow> ame)"

fun nat_text :: "nat \<Rightarrow> jsstr" where
  "nat_text n = (if n < 10 then [48 + n] else nat_text (n div 10) @ [48 + n mod 10])"

definition int_text :: "int \<Rightarrow> jsstr" where
  "int_text i = (if i < 0 then 45 # nat_text (nat (- i)) else nat_text (nat i))"

record measured_event =
  me_event :: js_object
  me_serialized :: jsstr
  me_bytes :: nat
  me_truncated :: bool
  me_originalBytes :: nat

definition serialize_event :: "js_object \<Rightarrow> bool \<Rightarrow> nat \<Rightarrow> measured_event" where
  "serialize_event ev truncated originalBytes =
     \<lparr> me_event = ev, me_serialized = stringify (JObj ev),
       me_bytes = byte_length (stringify (JObj ev)),
       me_truncated = truncated, me_originalBytes = originalBytes \<rparr>"

definition is_message_update :: "js_object \<Rightarrow> bool" where
  "is_message_update ev \<longleftrightarrow> prop_of ev (js ''type'') = JStr (js ''message_update'')"

definition budget_marker :: "nat \<Rightarrow> int \<Rightarrow> json" where
  "budget_marker originalBytes budgetBytes =
     JObj [(js ''originalBytes'', JNum (nat_text originalBytes)),
           (js ''budgetBytes'', JNum (int_text budgetBytes))]"

definition event_data :: "js_object \<Rightarrow> js_object" where
  "event_data ev = (case prop_of ev (js ''data'') of JObj d \<Rightarrow> d | _ \<Rightarrow> [])"

definition candidate_data :: "js_object \<Rightarrow> json \<Rightarrow> int \<Rightarrow> js_object" where
  "candidate_data ev marker budgetBytes =
     (let data = event_data ev in
      if is_message_update ev then
        (let d1 = (case slim_message (prop_of data (js ''message'')) of
                     None \<Rightarrow> data
                   | Some m \<Rightarrow> jm_set (js ''message'') (JObj m) data);
             ame = prop_of data (js ''assistantMessageEvent'');
             d2 = (if ame \<noteq> JUndef
                   then jm_set (js ''assistantMessageEvent'') (strip_partial ame) d1 else d1)
         in jm_set (js ''payloadTruncated'') marker d2)
      else
        jm_set (js ''payloadTruncated'') marker
          (map (\<lambda>kv. (fst kv,
                 truncate_strings (nat (max 16 (budgetBytes div 4))) (snd kv))) data))"

definition minimal_event :: "js_object \<Rightarrow> json \<Rightarrow> js_object" where
  "minimal_event ev marker =
     jm_set (js ''data'') (JObj [(js ''payloadTruncated'', marker)]) ev"

definition slim_event :: "js_object \<Rightarrow> int \<Rightarrow> nat \<Rightarrow> measured_event" where
  "slim_event ev budgetBytes originalBytes =
     (let marker = budget_marker originalBytes budgetBytes;
          candidate = jm_set (js ''data'') (JObj (candidate_data ev marker budgetBytes)) ev;
          measured = serialize_event candidate True originalBytes
      in if int (me_bytes measured) \<le> budgetBytes then measured
         else serialize_event (minimal_event ev marker) True originalBytes)"

definition measure_and_slim :: "js_object \<Rightarrow> int \<Rightarrow> measured_event" where
  "measure_and_slim ev budgetBytes =
     (if budgetBytes > 0 \<and> is_message_update ev then
        (let originalBytes = json_bytes (JObj ev) in
         if int originalBytes \<le> budgetBytes then serialize_event ev False originalBytes
         else slim_event ev budgetBytes originalBytes)
      else
        (let original = serialize_event ev False (byte_length (stringify (JObj ev)));
             originalBytes = me_bytes original in
         if budgetBytes = 0 \<or> int originalBytes \<le> budgetBytes then original
         else slim_event ev budgetBytes originalBytes))"

subsection \<open>The counter agrees with the text\<close>

text \<open>What \<open>String(n)\<close> prints is ASCII; the values of the model say so of their numbers.\<close>

fun json_ok :: "json \<Rightarrow> bool" where
  "json_ok (JNum t) = list_all (\<lambda>c. c < 0x80) t"
| "json_ok (JArr vs) = list_all json_ok vs"
| "json_ok (JObj ms) = list_all (\<lambda>kv. json_ok (snd kv)) ms"
| "json_ok v = True"

lemma byte_length_ascii: "list_all (\<lambda>c. c < 0x80) s \<Longrightarrow> byte_length s = length s"
  by (induction s) auto

lemma starts_low_ascii: "list_all (\<lambda>c. c < 0x80) s \<Longrightarrow> \<not> starts_low s"
  by (cases s) auto

lemma unicode_escape_ascii: "list_all (\<lambda>c. c < 0x80) (unicode_escape c)"
proof -
  have "hex_digit (n mod 16) < 0x80" for n
    using mod_less_divisor [of 16 n] by (simp add: hex_digit_def del: mod_less_divisor)
  then show ?thesis by (simp add: unicode_escape_def)
qed

lemma length_unicode_escape [simp]: "length (unicode_escape c) = 6"
  by (simp add: unicode_escape_def)

lemma short_escapes_lookup:
  "map_of short_escapes c = None \<longleftrightarrow>
     \<not> (c = 0x22 \<or> c = 0x5c \<or> c = 0x08 \<or> c = 0x09 \<or> c = 0x0a \<or> c = 0x0c \<or> c = 0x0d)"
  by (simp add: short_escapes_def)

lemma short_escapes_ascii:
  "map_of short_escapes c = Some e \<Longrightarrow> e < 0x80 \<and> c < 0x80"
  by (auto simp: short_escapes_def split: if_splits)

lemma not_starts_low_quote_body: "\<not> starts_low (quote_body s)"
  by (cases s)
    (auto simp: unicode_escape_def is_high_def is_low_def split: option.splits list.splits)

lemma byte_length_escape_append:
  "byte_length (unicode_escape c @ quote_body s) = 6 + byte_length (quote_body s)"
  by (simp add: byte_length_append [OF not_starts_low_quote_body]
      byte_length_ascii [OF unicode_escape_ascii])

lemma byte_length_Cons_nohigh:
  "\<not> is_high c \<Longrightarrow> byte_length (c # s) = byte_length [c] + byte_length s"
  by (simp add: byte_length.simps(2))

lemma byte_length_lone:
  "is_high c \<or> is_low c \<Longrightarrow> \<not> (is_high c \<and> starts_low s) \<Longrightarrow>
     byte_length (c # s) = 3 + byte_length s"
  by (auto simp: byte_length.simps(2) is_high_def is_low_def starts_low_def)

lemma byte_length_pair:
  "is_high c \<Longrightarrow> is_low d \<Longrightarrow> byte_length (c # d # s) = 4 + byte_length s"
  by (simp add: byte_length.simps(2) is_high_def)

lemma byte_length_quote_body:
  "byte_length (quote_body s) = byte_length s + escape_bytes s"
proof (induction s rule: quote_body.induct)
  case 1
  then show ?case by simp
next
  case (2 c cs)
  have low: "(case cs of [] \<Rightarrow> False | d # _ \<Rightarrow> is_low d) = starts_low cs"
    by (simp add: starts_low_def)
  have low': "(case cs of [] \<Rightarrow> False | d # _ \<Rightarrow> 0xdc00 \<le> d \<and> d \<le> 0xdfff) = starts_low cs"
    by (simp add: starts_low_def is_low_def cong: list.case_cong)
  consider (short) e where "map_of short_escapes c = Some e"
    | (ctl) "map_of short_escapes c = None" "c < 0x20"
    | (pair) d ds where "map_of short_escapes c = None" "\<not> c < 0x20" "is_high c" "cs = d # ds"
        "is_low d"
    | (lone) "map_of short_escapes c = None" "\<not> c < 0x20" "is_high c \<or> is_low c"
        "\<not> (is_high c \<and> starts_low cs)"
    | (plain) "map_of short_escapes c = None" "\<not> c < 0x20" "\<not> is_high c" "\<not> is_low c"
    by (cases cs) (auto simp: starts_low_def)
  then show ?case
  proof cases
    case short
    with short_escapes_ascii [OF short] short_escapes_lookup [of c] 2 show ?thesis by auto
  next
    case ctl
    with 2 short_escapes_lookup [of c] show ?thesis
      by (simp add: byte_length_escape_append)
  next
    case pair
    then have "escape_bytes (c # cs) = escape_bytes ds"
      using short_escapes_lookup [of c] by (simp add: is_high_def is_low_def)
    with pair 2 show ?thesis by (simp add: byte_length_pair)
  next
    case lone
    then have "escape_bytes (c # cs) = 3 + escape_bytes cs"
      using short_escapes_lookup [of c] low' by (auto simp: is_high_def is_low_def)
    moreover have "byte_length (quote_body cs) = byte_length cs + escape_bytes cs"
      using lone 2 low by auto
    ultimately show ?thesis
      using lone low byte_length_lone [OF lone(3,4)]
      by (auto simp: byte_length_escape_append simp del: escape_bytes.simps)
  next
    case plain
    then have "escape_bytes (c # cs) = escape_bytes cs"
      using short_escapes_lookup [of c] by (auto simp: is_high_def is_low_def)
    with plain 2 show ?thesis
      by (simp add: byte_length_Cons_nohigh [of c cs] byte_length_Cons_nohigh [of c "quote_body cs"])
  qed
qed

lemma escape_bytes_none: "\<not> escapes_or_surrogates s \<Longrightarrow> escape_bytes s = 0"
  by (induction s) (auto simp: escapes_or_surrogates_def)

lemma json_string_bytes_eq: "json_string_bytes s = byte_length s + escape_bytes s + 2"
  by (simp add: json_string_bytes_def Let_def escape_bytes_none)

lemma byte_length_quote_json: "byte_length (quote_json s) = json_string_bytes s"
  by (simp add: quote_json_def json_string_bytes_eq byte_length_append byte_length_quote_body)

lemma not_starts_low_quote_json [simp]: "\<not> starts_low (quote_json s @ t)"
  by (simp add: quote_json_def)

lemma not_starts_low_stringify: "json_ok v \<Longrightarrow> \<not> starts_low (stringify v)"
  by (cases v) (auto simp: js_def quote_json_def starts_low_ascii)

lemma byte_length_join:
  "list_all (\<lambda>s. \<not> starts_low s) ss \<Longrightarrow>
     byte_length (join_with 44 ss) = sum_list (map byte_length ss) + (length ss - 1)"
  by (induction "44 :: nat" ss rule: join_with.induct) (auto simp: byte_length_append)

lemma not_starts_low_items:
  "list_all json_ok vs \<Longrightarrow> list_all (\<lambda>s. \<not> starts_low s) (stringify_items vs)"
  by (induction vs) (auto simp: not_starts_low_stringify js_def)

lemma not_starts_low_members: "list_all (\<lambda>s. \<not> starts_low s) (stringify_members ms)"
  by (induction ms) auto

lemma length_stringify_items: "length (stringify_items vs) = length vs"
  by (induction vs) auto

lemma byte_length_member:
  "json_ok v \<Longrightarrow>
     byte_length (quote_json k @ 58 # stringify v)
       = json_string_bytes k + 1 + byte_length (stringify v)"
  by (simp add: byte_length_append byte_length_quote_json)

text \<open>Counting the members one by one, with a comma before each but the first retained one.\<close>

lemma json_members_sum:
  assumes "list_all (\<lambda>kv. json_ok (snd kv)) ms"
    and "\<And>kv. kv \<in> set ms \<Longrightarrow> snd kv \<noteq> JUndef \<Longrightarrow>
           json_bytes (snd kv) = byte_length (stringify (snd kv))"
  shows "json_members_bytes n ms =
     sum_list (map byte_length (stringify_members ms))
     + (if n > 0 then length (stringify_members ms) else length (stringify_members ms) - 1)"
  using assms
proof (induction ms arbitrary: n)
  case Nil
  then show ?case by simp
next
  case (Cons kv ms)
  obtain k v where kv: "kv = (k, v)" by (cases kv)
  have IH: "json_members_bytes m ms = sum_list (map byte_length (stringify_members ms))
     + (if m > 0 then length (stringify_members ms) else length (stringify_members ms) - 1)" for m
    using Cons by simp
  show ?case
  proof (cases "v = JUndef")
    case True
    with kv IH show ?thesis by simp
  next
    case False
    with Cons.prems(2) [of kv] kv have "json_bytes v = byte_length (stringify v)" by simp
    with False kv Cons.prems(1) IH show ?thesis by (simp add: byte_length_member)
  qed
qed

lemma json_items_sum:
  assumes "list_all json_ok vs"
    and "\<And>v. v \<in> set vs \<Longrightarrow> v \<noteq> JUndef \<Longrightarrow> json_bytes v = byte_length (stringify v)"
  shows "json_items_bytes vs = sum_list (map byte_length (stringify_items vs))"
  using assms by (induction vs) (auto simp: js_def)

lemma json_bytes_eq:
  assumes "json_ok v" and "v \<noteq> JUndef"
  shows "json_bytes v = byte_length (stringify v)"
  using assms
proof (induction v)
  case (JArr vs)
  have "list_all json_ok vs" using JArr.prems by simp
  moreover have "json_bytes v = byte_length (stringify v)"
    if "v \<in> set vs" "v \<noteq> JUndef" for v
    using JArr.IH [OF that(1)] that calculation by (simp add: list_all_iff)
  ultimately show ?case
    using json_items_sum [of vs] byte_length_join [OF not_starts_low_items [of vs]]
    by (simp add: byte_length_append length_stringify_items)
next
  case (JObj ms)
  have ok: "list_all (\<lambda>kv. json_ok (snd kv)) ms" using JObj.prems by simp
  have "json_bytes (snd kv) = byte_length (stringify (snd kv))"
    if "kv \<in> set ms" "snd kv \<noteq> JUndef" for kv
    using JObj.IH [OF that(1), of "snd kv"] that ok by (cases kv) (auto simp: list_all_iff)
  then show ?case
    using json_members_sum [OF ok, of 0] byte_length_join [OF not_starts_low_members [of ms]]
    by (simp add: byte_length_append)
qed (auto simp: js_def byte_length_quote_json)

subsection \<open>The outcomes of slimming\<close>

text \<open>The reading of the same function without the counting fast path.\<close>

definition measure_and_slim_ref :: "js_object \<Rightarrow> int \<Rightarrow> measured_event" where
  "measure_and_slim_ref ev budgetBytes =
     (let size = byte_length (stringify (JObj ev)) in
      if budgetBytes = 0 \<or> int size \<le> budgetBytes then serialize_event ev False size
      else slim_event ev budgetBytes size)"

lemma serialize_event_sel [simp]:
  "me_event (serialize_event ev t ob) = ev"
  "me_serialized (serialize_event ev t ob) = stringify (JObj ev)"
  "me_bytes (serialize_event ev t ob) = byte_length (stringify (JObj ev))"
  "me_truncated (serialize_event ev t ob) = t"
  "me_originalBytes (serialize_event ev t ob) = ob"
  by (simp_all add: serialize_event_def)

lemma slim_event_cases:
  obtains (candidate) "slim_event ev b ob = serialize_event
      (jm_set (js ''data'') (JObj (candidate_data ev (budget_marker ob b) b)) ev) True ob"
      "int (me_bytes (slim_event ev b ob)) \<le> b"
  | (minimal) "slim_event ev b ob = serialize_event (minimal_event ev (budget_marker ob b)) True ob"
proof -
  let ?c = "serialize_event
    (jm_set (js ''data'') (JObj (candidate_data ev (budget_marker ob b) b)) ev) True ob"
  have eq: "slim_event ev b ob = (if int (me_bytes ?c) \<le> b then ?c
      else serialize_event (minimal_event ev (budget_marker ob b)) True ob)"
    by (simp only: slim_event_def Let_def)
  show thesis
  proof (cases "int (me_bytes ?c) \<le> b")
    case True
    with eq have "slim_event ev b ob = ?c" by (simp only: if_True)
    with True show thesis by (intro candidate) (simp_all only:)
  next
    case False
    with eq have "slim_event ev b ob
        = serialize_event (minimal_event ev (budget_marker ob b)) True ob"
      by (simp only: if_False)
    then show thesis by (rule minimal)
  qed
qed

lemma measure_and_slim_eq_ref:
  assumes "json_ok (JObj ev)"
  shows "measure_and_slim ev b = measure_and_slim_ref ev b"
  using json_bytes_eq [OF assms]
  by (auto simp: measure_and_slim_def measure_and_slim_ref_def Let_def serialize_event_def
      simp del: stringify.simps json_bytes.simps)

lemma measure_and_slim_outcome:
  assumes "json_ok (JObj ev)"
  obtains (intact) "measure_and_slim ev b =
        serialize_event ev False (byte_length (stringify (JObj ev)))"
      "b = 0 \<or> int (byte_length (stringify (JObj ev))) \<le> b"
  | (slimmed) "measure_and_slim ev b = slim_event ev b (byte_length (stringify (JObj ev)))"
      "b \<noteq> 0" "b < int (byte_length (stringify (JObj ev)))"
  using measure_and_slim_eq_ref [OF assms, of b]
  by (cases "b = 0 \<or> int (byte_length (stringify (JObj ev))) \<le> b")
    (auto simp: measure_and_slim_ref_def Let_def simp del: stringify.simps)

lemma truncate_strings_length:
  "12 \<le> maxLen \<Longrightarrow> truncate_strings maxLen (JStr s) = JStr t \<Longrightarrow> length t \<le> maxLen"
  by (auto simp: ellipsis_mark_def js_def split: if_splits)

fun strings_of :: "json \<Rightarrow> jsstr list" where
  "strings_of (JStr s) = [s]"
| "strings_of (JArr vs) = concat (map strings_of vs)"
| "strings_of (JObj ms) = concat (map (\<lambda>kv. strings_of (snd kv)) ms)"
| "strings_of v = []"

lemma strings_of_truncate:
  "12 \<le> maxLen \<Longrightarrow> s \<in> set (strings_of (truncate_strings maxLen v)) \<Longrightarrow> length s \<le> maxLen"
proof (induction v)
  case (JObj ms)
  then obtain k v where "(k, v) \<in> set ms" "s \<in> set (strings_of (truncate_strings maxLen v))"
    by auto
  with JObj show ?case by (auto simp: snds.simps)
qed (auto simp: ellipsis_mark_def js_def split: if_splits)

lemma prop_of_set [simp]: "prop_of (jm_set k v m) k' = (if k' = k then v else prop_of m k')"
  by (simp add: prop_of_def)

lemma jm_get_strip_partial:
  "jm_get (filter (\<lambda>kv. fst kv \<noteq> js ''partial'') m) (js ''partial'') = None"
  by (induction m) auto

subsection \<open>A slimmed update, evaluated\<close>

definition sample_update :: js_object where
  "sample_update =
     [(js ''type'', JStr (js ''message_update'')),
      (js ''data'', JObj
        [(js ''message'', JObj [(js ''id'', JStr (js ''m1'')), (js ''content'', JArr [JStr (js ''hello world'')])]),
         (js ''assistantMessageEvent'', JObj
            [(js ''type'', JStr (js ''text_delta'')), (js ''delta'', JStr (js ''d'')),
             (js ''partial'', JObj
               [(js ''text'', JStr (js ''the whole answer so far, repeated with every delta of the stream''))])])])]"

lemma sample_update_ok: "json_ok (JObj sample_update)"
  by (simp add: sample_update_def)

lemma measure_and_slim_candidate:
  assumes "json_ok (JObj ev)" "b \<noteq> 0" "b < int (json_bytes (JObj ev))"
    and "cand = jm_set (js ''data'')
      (JObj (candidate_data ev (budget_marker (json_bytes (JObj ev)) b) b)) ev"
    and "json_ok (JObj cand)" "int (json_bytes (JObj cand)) \<le> b"
  shows "me_event (measure_and_slim ev b) = cand \<and> me_truncated (measure_and_slim ev b)"
  using assms json_bytes_eq [OF assms(1)] json_bytes_eq [OF assms(5)]
  by (simp add: measure_and_slim_eq_ref measure_and_slim_ref_def slim_event_def Let_def
      del: stringify.simps json_bytes.simps json_ok.simps)

lemma sample_update_type: "is_message_update sample_update"
  by (simp add: is_message_update_def sample_update_def prop_of_def)

lemma sample_update_bytes: "json_bytes (JObj sample_update) = 226"
  by (simp add: sample_update_def js_def json_string_bytes_eq byte_length.simps(2) is_high_def)

definition sample_slimmed :: js_object where
  "sample_slimmed =
     [(js ''type'', JStr (js ''message_update'')),
      (js ''data'', JObj
        [(js ''message'', JObj [(js ''id'', JStr (js ''m1''))]),
         (js ''assistantMessageEvent'', JObj
            [(js ''type'', JStr (js ''text_delta'')), (js ''delta'', JStr (js ''d''))]),
         (js ''payloadTruncated'', JObj [(js ''originalBytes'', JNum (js ''226'')),
            (js ''budgetBytes'', JNum (js ''210''))])])]"

lemma sample_slimmed_eq:
  "jm_set (js ''data'') (JObj (candidate_data sample_update (budget_marker 226 210) 210))
     sample_update = sample_slimmed"
  by (simp add: sample_update_def sample_slimmed_def candidate_data_def Let_def event_data_def
      is_message_update_def prop_of_def slim_message_def strip_partial_def budget_marker_def
      int_text_def) (simp add: js_def)

lemma sample_slimmed_bytes: "json_bytes (JObj sample_slimmed) \<le> 210" "json_ok (JObj sample_slimmed)"
  by (simp_all add: sample_slimmed_def js_def json_string_bytes_eq byte_length.simps(2) is_high_def)

lemma sample_update_slims:
  "me_event (measure_and_slim sample_update 210) = sample_slimmed
   \<and> me_truncated (measure_and_slim sample_update 210)"
  using measure_and_slim_candidate [of sample_update 210 sample_slimmed,
      unfolded sample_update_bytes sample_slimmed_eq] sample_update_ok sample_slimmed_bytes
  by (simp del: json_bytes.simps json_ok.simps)

subsection \<open>Properties\<close>

text \<open>C30: the counter used on the streaming path returns exactly the number of UTF-8 bytes of
  the JSON text, escapes, surrogate pairs and lone surrogates included, without building it.\<close>

theorem json_bytes_is_utf8_length_of_json:
  assumes "json_ok v" and "v \<noteq> JUndef"
  shows "json_bytes v = byte_length (stringify v)"
  using assms by (rule json_bytes_eq)

theorem json_bytes_is_utf8_length_of_json_witness:
  "json_bytes (JArr [JStr [0x68, 0xD83D, 0xDE00, 0xD800, 10], JUndef, JNum [49, 50]])
     = byte_length (stringify (JArr [JStr [0x68, 0xD83D, 0xDE00, 0xD800, 10], JUndef, JNum [49, 50]]))"
  by (rule json_bytes_is_utf8_length_of_json) simp_all

text \<open>measuring first and serialising only what fits is not observable: for every event
  and budget the result equals that of the direct reading, which serialises the event, compares
  the length of the text with the budget and slims what is larger.\<close>

theorem measure_fast_path_equivalent:
  assumes "json_ok (JObj ev)"
  shows "measure_and_slim ev b = measure_and_slim_ref ev b"
  using assms by (rule measure_and_slim_eq_ref)

theorem measure_fast_path_equivalent_witness:
  "measure_and_slim sample_update 200 = measure_and_slim_ref sample_update 200"
  by (rule measure_fast_path_equivalent) (rule sample_update_ok)

text \<open>C33: what is delivered is the serialised event with its exact size, and it keeps the
  budget: either the budget is zero (no limit), or the bytes fit, or the event was reduced to
  the marker alone. An event that fits is delivered unchanged, and no event loses a field
  other than its data.\<close>

theorem measured_event_within_budget:
  assumes "json_ok (JObj ev)"
  shows "(let r = measure_and_slim ev b; size = byte_length (stringify (JObj ev)) in
     me_serialized r = stringify (JObj (me_event r))
     \<and> me_bytes r = byte_length (me_serialized r)
     \<and> me_originalBytes r = size
     \<and> (me_truncated r \<longleftrightarrow> b \<noteq> 0 \<and> b < int size)
     \<and> (me_truncated r \<or> me_event r = ev)
     \<and> (b = 0 \<or> int (me_bytes r) \<le> b \<or> me_event r = minimal_event ev (budget_marker size b))
     \<and> (\<forall>k. k = js ''data'' \<or> jm_get (me_event r) k = jm_get ev k))"
proof -
  show ?thesis
    using assms
  proof (cases rule: measure_and_slim_outcome [where b = b])
    case intact
    then show ?thesis by (auto simp: Let_def simp del: stringify.simps)
  next
    case slimmed
    let ?n = "byte_length (stringify (JObj ev))"
    show ?thesis
    proof (cases rule: slim_event_cases [of ev b ?n])
      case candidate
      then show ?thesis using slimmed
        by (auto simp: Let_def simp del: stringify.simps)
    next
      case minimal
      then show ?thesis using slimmed
        by (auto simp: Let_def minimal_event_def simp del: stringify.simps)
    qed
  qed
qed

theorem measured_event_within_budget_witness:
  "int (me_bytes (measure_and_slim sample_update 210)) \<le> 210
   \<or> me_event (measure_and_slim sample_update 210)
       = minimal_event sample_update (budget_marker (byte_length (stringify (JObj sample_update))) 210)"
  using measured_event_within_budget [OF sample_update_ok, of 210]
  by (auto simp: Let_def simp del: stringify.simps)

text \<open>a streaming update that had to be slimmed no longer carries the accumulated
  partial message, keeps the delta fields of the assistant event, and keeps no content of
  the message beyond its identity fields.\<close>

theorem slimmed_update_drops_partial:
  assumes "json_ok (JObj ev)" and "is_message_update ev"
    and "me_truncated (measure_and_slim ev b)"
    and "prop_of (event_data (me_event (measure_and_slim ev b))) (js ''assistantMessageEvent'')
           = JObj ame"
  shows "jm_get ame (js ''partial'') = None
     \<and> (\<exists>source. prop_of (event_data ev) (js ''assistantMessageEvent'') = JObj source
          \<and> ame = filter (\<lambda>kv. fst kv \<noteq> js ''partial'') source)"
proof -
  show ?thesis
    using assms(1)
  proof (cases rule: measure_and_slim_outcome [where b = b])
    case intact
    with assms(3) show ?thesis by simp
  next
    case slimmed
    let ?n = "byte_length (stringify (JObj ev))"
    show ?thesis
    proof (cases rule: slim_event_cases [of ev b ?n])
      case candidate
      then have "prop_of (candidate_data ev (budget_marker ?n b) b) (js ''assistantMessageEvent'')
          = JObj ame"
        using assms(4) slimmed by (simp add: event_data_def)
      then show ?thesis
        using assms(2) jm_get_strip_partial
        by (auto simp: candidate_data_def Let_def strip_partial_def
            split: if_splits option.splits json.splits)
    next
      case minimal
      then show ?thesis
        using assms(4) slimmed
        by (simp add: event_data_def minimal_event_def) (simp add: prop_of_def)
    qed
  qed
qed

theorem slimmed_update_drops_partial_witness:
  "jm_get [(js ''type'', JStr (js ''text_delta'')), (js ''delta'', JStr (js ''d''))]
     (js ''partial'') = None"
  by (rule slimmed_update_drops_partial [of sample_update 210, THEN conjunct1])
    (simp_all add: sample_update_ok sample_update_slims,
     simp_all add: is_message_update_def sample_update_def sample_slimmed_def event_data_def
       prop_of_def)

end
