(* ===== verification/Event_Broker.thy ===== *)
theory Event_Broker
  imports Payload_Budget
begin

text \<open>
  The per-session event broker: \<open>internal-api/event-broker.ts\<close>.

  The state is the record \<open>broker\<close>, one field per private field of the class, plus two logs
  that stand for its outputs: \<open>br_out\<close> (every call of a subscriber callback, in order) and
  \<open>br_tapped\<close> (every call of the observation tap). A subscriber is an identifier, since the
  code compares callbacks by reference; callbacks that call back into the broker are not
  modelled. The clock, the shed monitor and the disposal predicate are read once per
  \<open>publish\<close> and are arguments (\<open>publish_env\<close>). Metrics and the text of log lines are left
  out; the set of sessions already warned about is kept.

  Token counts are rationals, sizes and times integers.
\<close>

subsection \<open>Configuration and state\<close>

record buffered_event =
  be_event :: js_object
  be_bytes :: int

record rate_state =
  rs_tokens :: rat
  rs_lastMs :: int

record pending_update =
  pu_event :: js_object
  pu_coalesced :: int

record broker_options =
  bo_replayBufferSize :: "int option"
  bo_replayBufferMaxBytes :: "int option"
  bo_replayBudgetMaxBytes :: "int option"
  bo_coldKeyLimit :: "int option"
  bo_eventPayloadMaxBytes :: "int option"
  bo_eventRateLimitPerSec :: "rat option"

record broker_config =
  bc_replayBufferSize :: nat
  bc_replayBufferMaxBytes :: int
  bc_replayBudgetMaxBytes :: int
  bc_coldKeyLimit :: nat
  bc_eventPayloadMaxBytes :: int
  bc_rateLimit :: rat
  bc_rateBurst :: rat

definition opt_or :: "'a option \<Rightarrow> 'a \<Rightarrow> 'a" where
  "opt_or x d = (case x of None \<Rightarrow> d | Some v \<Rightarrow> v)"

text \<open>The constructor. The two defaults read from the configuration module are arguments.\<close>

definition broker_config_of :: "int \<Rightarrow> rat \<Rightarrow> broker_options \<Rightarrow> broker_config" where
  "broker_config_of envPayloadMaxBytes envRateLimit opts =
     (let rate = max 1 (opt_or (bo_eventRateLimitPerSec opts) envRateLimit) in
      \<lparr> bc_replayBufferSize = nat (max 0 (opt_or (bo_replayBufferSize opts) 50)),
        bc_replayBufferMaxBytes = max 0 (opt_or (bo_replayBufferMaxBytes opts) (8 * 1024 * 1024)),
        bc_replayBudgetMaxBytes = max 0 (opt_or (bo_replayBudgetMaxBytes opts) (32 * 1024 * 1024)),
        bc_coldKeyLimit = nat (max 1 (opt_or (bo_coldKeyLimit opts) 1000)),
        bc_eventPayloadMaxBytes = max 0 (opt_or (bo_eventPayloadMaxBytes opts) envPayloadMaxBytes),
        bc_rateLimit = rate,
        bc_rateBurst = rate * 2 \<rparr>)"

record broker =
  br_subscribers :: "(string, string jsset) jsmap"
  br_replayBuffers :: "(string, buffered_event list) jsmap"
  br_replayBufferBytes :: "(string, int) jsmap"
  br_warned :: "string jsset"
  br_rateStates :: "(string, rate_state) jsmap"
  br_pending :: "(string, pending_update) jsmap"
  br_retained :: int
  br_evicted :: "(string, int) jsmap"
  br_out :: "(string \<times> string \<times> js_object) list"
  br_tapped :: "(string \<times> js_object) list"

definition broker_init :: broker where
  "broker_init = \<lparr> br_subscribers = [], br_replayBuffers = [], br_replayBufferBytes = [],
     br_warned = [], br_rateStates = [], br_pending = [], br_retained = 0, br_evicted = [],
     br_out = [], br_tapped = [] \<rparr>"

subsection \<open>Shedding and coalescing\<close>

text \<open>\<open>value?.key\<close> and the spread \<open>{...value}\<close> on an arbitrary value.\<close>

definition member_of :: "json \<Rightarrow> jsstr \<Rightarrow> json" where
  "member_of v key = (case v of JObj m \<Rightarrow> prop_of m key | _ \<Rightarrow> JUndef)"

definition spread :: "json \<Rightarrow> js_object" where
  "spread v =
     (case v of JObj m \<Rightarrow> m
      | JArr vs \<Rightarrow> map (\<lambda>i. (nat_text i, vs ! i)) [0..<length vs]
      | JStr s \<Rightarrow> map (\<lambda>i. (nat_text i, JStr [s ! i])) [0..<length s]
      | _ \<Rightarrow> [])"

definition shed_message_update :: "js_object \<Rightarrow> js_object" where
  "shed_message_update ev =
     (let message = member_of (prop_of ev (js ''data'')) (js ''message'');
          ident = member_of message (js ''id'')
      in jm_set (js ''data'')
           (JObj [(js ''message'', JObj (if ident = JUndef then [] else [(js ''id'', ident)]))])
           ev)"

definition coalesced_event :: "pending_update \<Rightarrow> js_object" where
  "coalesced_event p =
     jm_set (js ''data'')
       (JObj (let d = spread (prop_of (pu_event p) (js ''data'')) in
              if pu_coalesced p > 0
              then jm_set (js ''coalescedDeltas'') (JNum (int_text (pu_coalesced p))) d
              else d))
       (pu_event p)"

subsection \<open>Eviction and the global bounds\<close>

text \<open>Forget the oldest markers while there are more than the limit.\<close>

function age_out :: "nat \<Rightarrow> ('k, 'v) jsmap \<Rightarrow> ('k, 'v) jsmap" where
  "age_out bound m =
     (if length m > bound then age_out bound (jm_del (fst (hd m)) m) else m)"
  by pat_completeness auto
termination
proof (relation "measure (\<lambda>(bound, m). length m)")
  fix bound :: nat and m :: "('k, 'v) jsmap"
  assume "bound < length m"
  then obtain k v m' where "m = (k, v) # m'" by (cases m) auto
  then show "((bound, jm_del (fst (hd m)) m), (bound, m)) \<in> measure (\<lambda>(bound, m). length m)"
    using length_jm_del_le [of k m'] by (simp add: jm_del_def less_Suc_eq_le)
qed simp

declare age_out.simps [simp del]

definition mark_evicted ::
  "broker_config \<Rightarrow> string \<Rightarrow> int \<Rightarrow> (string, int) jsmap \<Rightarrow> (string, int) jsmap" where
  "mark_evicted cfg sid events ev =
     age_out (max (bc_coldKeyLimit cfg) 1000) (jm_set sid (opt_or (jm_get ev sid) 0 + events) ev)"

definition drop_session_state :: "broker_config \<Rightarrow> string \<Rightarrow> int \<Rightarrow> broker \<Rightarrow> broker" where
  "drop_session_state cfg sid evictedEvents b =
     (let bytes = opt_or (jm_get (br_replayBufferBytes b) sid) 0;
          count = (if evictedEvents > 0 then evictedEvents
                   else int (length (opt_or (jm_get (br_replayBuffers b) sid) [])));
          b' = b \<lparr> br_replayBuffers := jm_del sid (br_replayBuffers b),
                   br_replayBufferBytes := jm_del sid (br_replayBufferBytes b),
                   br_rateStates := jm_del sid (br_rateStates b),
                   br_pending := jm_del sid (br_pending b),
                   br_warned := js_remove sid (br_warned b),
                   br_retained := max 0 (br_retained b - bytes) \<rparr>
      in if count > 0 then b' \<lparr> br_evicted := mark_evicted cfg sid count (br_evicted b') \<rparr> else b')"

definition first_cold :: "broker \<Rightarrow> string option" where
  "first_cold b = find (\<lambda>sid. \<not> jm_has (br_subscribers b) sid) (jm_keys (br_replayBuffers b))"

definition cold_key_count :: "broker \<Rightarrow> nat" where
  "cold_key_count b =
     length (filter (\<lambda>sid. \<not> jm_has (br_subscribers b) sid) (jm_keys (br_replayBuffers b)))"

definition pending_cold_count :: "broker \<Rightarrow> nat" where
  "pending_cold_count b =
     length (filter (\<lambda>sid. \<not> jm_has (br_subscribers b) sid) (jm_keys (br_pending b)))"

text \<open>One turn of the first loop of \<open>enforceGlobalBounds\<close>, and the loop with its guard.\<close>

definition budget_step :: "broker_config \<Rightarrow> broker \<Rightarrow> broker" where
  "budget_step cfg b =
     (case first_cold b of
        Some sid \<Rightarrow> drop_session_state cfg sid 0 b
      | None \<Rightarrow>
          (case br_replayBuffers b of
             [] \<Rightarrow> b
           | (sid, []) # _ \<Rightarrow> b \<lparr> br_replayBuffers := jm_del sid (br_replayBuffers b) \<rparr>
           | (sid, old # rest) # _ \<Rightarrow>
               b \<lparr> br_replayBuffers := jm_set sid rest (br_replayBuffers b),
                   br_replayBufferBytes :=
                     jm_set sid (max 0 (opt_or (jm_get (br_replayBufferBytes b) sid) 0 - be_bytes old))
                       (br_replayBufferBytes b),
                   br_retained := max 0 (br_retained b - be_bytes old),
                   br_evicted := mark_evicted cfg sid 1 (br_evicted b) \<rparr>))"

fun enforce_budget :: "nat \<Rightarrow> broker_config \<Rightarrow> broker \<Rightarrow> broker" where
  "enforce_budget 0 cfg b = b"
| "enforce_budget (Suc guard) cfg b =
     (if br_retained b > bc_replayBudgetMaxBytes cfg \<and> br_replayBuffers b \<noteq> []
      then enforce_budget guard cfg (budget_step cfg b) else b)"

fun enforce_cold_keys :: "nat \<Rightarrow> broker_config \<Rightarrow> broker \<Rightarrow> broker" where
  "enforce_cold_keys 0 cfg b = b"
| "enforce_cold_keys (Suc guard) cfg b =
     (if cold_key_count b > bc_coldKeyLimit cfg
      then (case first_cold b of
              None \<Rightarrow> b
            | Some sid \<Rightarrow> enforce_cold_keys guard cfg (drop_session_state cfg sid 0 b))
      else b)"

definition guard_limit :: nat where
  "guard_limit = 10000"

definition enforce_global_bounds :: "broker_config \<Rightarrow> broker \<Rightarrow> broker" where
  "enforce_global_bounds cfg b =
     enforce_cold_keys guard_limit cfg (enforce_budget guard_limit cfg b)"

subsection \<open>Delivery\<close>

text \<open>The two trimming loops of \<open>deliver\<close>: by count, then by bytes; each returns the buffer,
  the session's bytes and the retained total, the second also the eviction markers.\<close>

fun trim_count :: "nat \<Rightarrow> buffered_event list \<Rightarrow> int \<Rightarrow> int \<Rightarrow> buffered_event list \<times> int \<times> int" where
  "trim_count bound [] bytes tot = ([], bytes, tot)"
| "trim_count bound (old # rest) bytes tot =
     (if length (old # rest) > bound
      then trim_count bound rest (bytes - be_bytes old) (max 0 (tot - be_bytes old))
      else (old # rest, bytes, tot))"

fun trim_bytes ::
  "broker_config \<Rightarrow> string \<Rightarrow> buffered_event list \<Rightarrow> int \<Rightarrow> int \<Rightarrow> (string, int) jsmap
     \<Rightarrow> buffered_event list \<times> int \<times> int \<times> (string, int) jsmap" where
  "trim_bytes cfg sid [] bytes tot ev = ([], bytes, tot, ev)"
| "trim_bytes cfg sid (old # rest) bytes tot ev =
     (if bytes > bc_replayBufferMaxBytes cfg
      then trim_bytes cfg sid rest (bytes - be_bytes old) (max 0 (tot - be_bytes old))
             (mark_evicted cfg sid 1 ev)
      else (old # rest, bytes, tot, ev))"

definition retain_event :: "broker_config \<Rightarrow> string \<Rightarrow> js_object \<Rightarrow> int \<Rightarrow> broker \<Rightarrow> broker" where
  "retain_event cfg sid ev evBytes b =
     (let buffer = opt_or (jm_get (br_replayBuffers b) sid) [] @ [\<lparr> be_event = ev, be_bytes = evBytes \<rparr>];
          tot = br_retained b + evBytes;
          bytes = opt_or (jm_get (br_replayBufferBytes b) sid) 0 + evBytes;
          (buffer1, bytes1, total1) = trim_count (bc_replayBufferSize cfg) buffer bytes tot;
          (buffer2, bytes2, total2, evicted) =
             trim_bytes cfg sid buffer1 bytes1 total1 (br_evicted b)
      in b \<lparr> br_replayBuffers := jm_set sid buffer2 (br_replayBuffers b),
             br_replayBufferBytes := jm_set sid (max 0 bytes2) (br_replayBufferBytes b),
             br_retained := total2, br_evicted := evicted \<rparr>)"

definition deliver :: "broker_config \<Rightarrow> string \<Rightarrow> js_object \<Rightarrow> broker \<Rightarrow> broker" where
  "deliver cfg sid event b =
     (let measured = measure_and_slim event (bc_eventPayloadMaxBytes cfg);
          ev = me_event measured;
          b1 = (if me_truncated measured then b \<lparr> br_warned := js_add sid (br_warned b) \<rparr> else b);
          b2 = (if bc_replayBufferSize cfg > 0 \<or> bc_replayBufferMaxBytes cfg > 0
                then enforce_global_bounds cfg
                       (retain_event cfg sid ev (int (me_bytes measured)) b1)
                else b1)
      in b2 \<lparr> br_out := br_out b2 @
               map (\<lambda>u. (sid, u, ev)) (opt_or (jm_get (br_subscribers b2) sid) []) \<rparr>)"

subsection \<open>Publishing\<close>

definition refill :: "broker_config \<Rightarrow> int \<Rightarrow> string \<Rightarrow> broker \<Rightarrow> broker" where
  "refill cfg now sid b =
     (let state = opt_or (jm_get (br_rateStates b) sid)
                    \<lparr> rs_tokens = bc_rateBurst cfg, rs_lastMs = now \<rparr>;
          tokens = min (bc_rateBurst cfg)
                     (rs_tokens state + of_int (now - rs_lastMs state) * bc_rateLimit cfg / 1000)
      in b \<lparr> br_rateStates :=
               jm_set sid \<lparr> rs_tokens = tokens, rs_lastMs = now \<rparr> (br_rateStates b) \<rparr>)"

definition available_tokens :: "broker_config \<Rightarrow> string \<Rightarrow> broker \<Rightarrow> rat" where
  "available_tokens cfg sid b =
     (case jm_get (br_rateStates b) sid of None \<Rightarrow> bc_rateBurst cfg | Some s \<Rightarrow> rs_tokens s)"

text \<open>\<open>state.tokens = f(state.tokens)\<close> when the session has a rate state.\<close>

definition with_tokens :: "(rat \<Rightarrow> rat) \<Rightarrow> string \<Rightarrow> broker \<Rightarrow> broker" where
  "with_tokens f sid b =
     (case jm_get (br_rateStates b) sid of
        None \<Rightarrow> b
      | Some s \<Rightarrow> b \<lparr> br_rateStates :=
          jm_set sid (s \<lparr> rs_tokens := f (rs_tokens s) \<rparr>) (br_rateStates b) \<rparr>)"

definition flush_pending :: "broker_config \<Rightarrow> string \<Rightarrow> broker \<Rightarrow> broker" where
  "flush_pending cfg sid b =
     (case jm_get (br_pending b) sid of
        None \<Rightarrow> b
      | Some p \<Rightarrow>
          deliver cfg sid (coalesced_event p)
            (with_tokens (\<lambda>t. max 0 (t - 1)) sid (b \<lparr> br_pending := jm_del sid (br_pending b) \<rparr>)))"

record publish_env =
  pe_now :: int
  pe_shedding :: bool
  pe_disposed :: bool
  pe_enrich :: "js_object \<Rightarrow> js_object option"

text \<open>The message-update branch of \<open>publish\<close>: refill and flush, then deliver or hold back.\<close>

definition refill_and_flush :: "broker_config \<Rightarrow> int \<Rightarrow> string \<Rightarrow> broker \<Rightarrow> broker" where
  "refill_and_flush cfg now sid b =
     (let b1 = refill cfg now sid b in
      if jm_has (br_pending b1) sid \<and> available_tokens cfg sid b1 > 1
      then flush_pending cfg sid b1 else b1)"

definition publish_update :: "broker_config \<Rightarrow> int \<Rightarrow> string \<Rightarrow> js_object \<Rightarrow> broker \<Rightarrow> broker" where
  "publish_update cfg now sid ev b =
     (let b2 = refill_and_flush cfg now sid b
      in if available_tokens cfg sid b2 \<le> 1 then
           b2 \<lparr> br_pending :=
             jm_set sid
               \<lparr> pu_event = ev,
                 pu_coalesced = (case jm_get (br_pending b2) sid of None \<Rightarrow> - 1
                                 | Some p \<Rightarrow> pu_coalesced p) + 1 \<rparr>
               (br_pending b2) \<rparr>
         else deliver cfg sid ev (with_tokens (\<lambda>t. t - 1) sid b2))"

text \<open>The event as the tap, the buffers and the subscribers see it.\<close>

definition enriched :: "publish_env \<Rightarrow> js_object \<Rightarrow> js_object" where
  "enriched env event = (case pe_enrich env event of None \<Rightarrow> event | Some e \<Rightarrow> e)"

definition publish :: "broker_config \<Rightarrow> publish_env \<Rightarrow> string \<Rightarrow> js_object \<Rightarrow> broker \<Rightarrow> broker" where
  "publish cfg env sid event0 b =
     (if pe_disposed env then b
      else
        (let event = enriched env event0;
             b1 = b \<lparr> br_tapped := br_tapped b @ [(sid, event)] \<rparr>;
             ev = (if is_message_update event \<and> pe_shedding env then shed_message_update event
                   else event)
         in if is_message_update ev then publish_update cfg (pe_now env) sid ev b1
            else deliver cfg sid ev (flush_pending cfg sid b1)))"

subsection \<open>Subscribing, reading and clearing\<close>

definition subscribe :: "bool \<Rightarrow> string \<Rightarrow> string \<Rightarrow> bool \<Rightarrow> broker \<Rightarrow> broker" where
  "subscribe disposed sid subscriber replay b =
     (if disposed then b
      else
        (let b1 = b \<lparr> br_subscribers :=
               jm_set sid (js_add subscriber (opt_or (jm_get (br_subscribers b) sid) []))
                 (br_subscribers b) \<rparr>
         in if replay
            then b1 \<lparr> br_out := br_out b1 @
                   map (\<lambda>entry. (sid, subscriber, be_event entry))
                     (opt_or (jm_get (br_replayBuffers b1) sid) []) \<rparr>
            else b1))"

definition unsubscribe :: "string \<Rightarrow> string \<Rightarrow> broker \<Rightarrow> broker" where
  "unsubscribe sid subscriber b =
     (case jm_get (br_subscribers b) sid of
        None \<Rightarrow> b
      | Some s \<Rightarrow>
          (let s' = js_remove subscriber s in
           if s' = [] then b \<lparr> br_subscribers := jm_del sid (br_subscribers b) \<rparr>
           else b \<lparr> br_subscribers := jm_set sid s' (br_subscribers b) \<rparr>))"

definition replay_status :: "string \<Rightarrow> broker \<Rightarrow> bool \<times> int" where
  "replay_status sid b =
     (let evictedEvents = opt_or (jm_get (br_evicted b) sid) 0 in (evictedEvents > 0, evictedEvents))"

definition clear_session :: "broker_config \<Rightarrow> string \<Rightarrow> broker \<Rightarrow> broker" where
  "clear_session cfg sid b =
     (let b1 = drop_session_state cfg sid 0 (b \<lparr> br_subscribers := jm_del sid (br_subscribers b) \<rparr>)
      in b1 \<lparr> br_evicted := jm_del sid (br_evicted b1) \<rparr>)"

definition recent_events :: "string \<Rightarrow> int \<Rightarrow> broker \<Rightarrow> js_object list" where
  "recent_events sid limit b =
     (case jm_get (br_replayBuffers b) sid of
        None \<Rightarrow> []
      | Some buffer \<Rightarrow> map be_event (slice_last (nat (max 0 limit)) buffer))"

definition clear_all :: "broker \<Rightarrow> broker" where
  "clear_all b = b \<lparr> br_subscribers := [], br_replayBuffers := [], br_replayBufferBytes := [],
     br_warned := [], br_rateStates := [], br_pending := [], br_retained := 0 \<rparr>"

definition subscriber_count :: "string \<Rightarrow> broker \<Rightarrow> nat" where
  "subscriber_count sid b = length (opt_or (jm_get (br_subscribers b) sid) [])"

definition has_subscribers :: "broker \<Rightarrow> bool" where
  "has_subscribers b = list_ex (\<lambda>s. s \<noteq> []) (jm_values (br_subscribers b))"

definition buffer_bytes :: "buffered_event list \<Rightarrow> int" where
  "buffer_bytes buf = sum_list (map be_bytes buf)"

definition retained_actual :: "broker \<Rightarrow> int" where
  "retained_actual b = jm_sum buffer_bytes (br_replayBuffers b)"

subsection \<open>Sums and trimming\<close>

lemma opt_or_simps [simp]: "opt_or None d = d" "opt_or (Some v) d = v"
  by (simp_all add: opt_or_def)

lemma opt_or_sum: "opt_val f x = f (opt_or x d)" if "f d = 0"
  using that by (cases x) auto

lemma buffer_bytes_simps [simp]:
  "buffer_bytes [] = 0" "buffer_bytes (e # es) = be_bytes e + buffer_bytes es"
  "buffer_bytes (es @ fs) = buffer_bytes es + buffer_bytes fs"
  by (simp_all add: buffer_bytes_def)

definition buffer_nonneg :: "buffered_event list \<Rightarrow> bool" where
  "buffer_nonneg buf \<longleftrightarrow> list_all (\<lambda>e. 0 \<le> be_bytes e) buf"

lemma buffer_nonneg_simps [simp]:
  "buffer_nonneg []" "buffer_nonneg (e # es) \<longleftrightarrow> 0 \<le> be_bytes e \<and> buffer_nonneg es"
  "buffer_nonneg (es @ fs) \<longleftrightarrow> buffer_nonneg es \<and> buffer_nonneg fs"
  by (simp_all add: buffer_nonneg_def)

lemma buffer_bytes_nonneg: "buffer_nonneg buf \<Longrightarrow> 0 \<le> buffer_bytes buf"
  by (induction buf) auto

lemma keep_last_Cons: "n < Suc (length xs) \<Longrightarrow> keep_last n (x # xs) = keep_last n xs"
  by (auto simp: keep_last_def Suc_diff_le)
lemma trim_count_spec:
  assumes "trim_count n buf bytes tot = (buf', bytes', tot')"
    and "buffer_nonneg buf" and "buffer_bytes buf \<le> tot"
  shows "buf' = keep_last n buf \<and> bytes' = bytes - (buffer_bytes buf - buffer_bytes buf')
    \<and> tot' = tot - (buffer_bytes buf - buffer_bytes buf') \<and> buffer_nonneg buf'"
  using assms
proof (induction buf arbitrary: bytes tot)
  case Nil
  then show ?case by (simp add: keep_last_def)
next
  case (Cons old rest)
  have *: "max 0 (tot - be_bytes old) = tot - be_bytes old" 
      using Cons.prems buffer_bytes_nonneg [of rest] by simp
  show ?case
  proof (cases "length (old # rest) > n")
    case True
    then have "trim_count n rest (bytes - be_bytes old) (tot - be_bytes old) = (buf', bytes', tot')"
      using Cons.prems * by simp
    from Cons.IH [OF this] Cons.prems True show ?thesis
      by (auto simp: keep_last_Cons)
  next
    case False
    with Cons show ?thesis by (auto simp: keep_last_def)
  qed
qed

lemma jm_ok_age_out: "jm_ok m \<Longrightarrow> jm_ok (age_out n m)"
proof (induction n m rule: age_out.induct)
  case (1 n m)
  then show ?case by (subst age_out.simps) auto
qed

lemma length_age_out: "length (age_out n m) \<le> n"
proof (induction n m rule: age_out.induct)
  case (1 n m)
  then show ?case by (subst age_out.simps) auto
qed

lemma jm_ok_mark_evicted [simp]: "jm_ok ev \<Longrightarrow> jm_ok (mark_evicted cfg sid n ev)"
  by (simp add: mark_evicted_def jm_ok_age_out)

lemma length_mark_evicted: "length (mark_evicted cfg sid n ev) \<le> max (bc_coldKeyLimit cfg) 1000"
  by (simp add: mark_evicted_def length_age_out)

lemma trim_bytes_spec:
  assumes "trim_bytes cfg sid buf bytes tot ev = (buf', bytes', tot', ev')"
    and "buffer_nonneg buf" and "buffer_bytes buf \<le> tot" and "bytes = buffer_bytes buf"
    and "0 \<le> bc_replayBufferMaxBytes cfg" and "jm_ok ev"
    and "length ev \<le> max (bc_coldKeyLimit cfg) 1000"
  shows "bytes' = buffer_bytes buf' \<and> tot' = tot - (buffer_bytes buf - buffer_bytes buf')
    \<and> buffer_nonneg buf' \<and> suffix buf' buf
    \<and> bytes' \<le> bc_replayBufferMaxBytes cfg \<and> jm_ok ev'
    \<and> length ev' \<le> max (bc_coldKeyLimit cfg) 1000"
  using assms
proof (induction buf arbitrary: bytes tot ev)
  case Nil
  then show ?case by simp
next
  case (Cons old rest)
  have *: "max 0 (tot - be_bytes old) = tot - be_bytes old"
    using Cons.prems buffer_bytes_nonneg [of rest] by simp
  show ?case
  proof (cases "bytes > bc_replayBufferMaxBytes cfg")
    case True
    then have "trim_bytes cfg sid rest (bytes - be_bytes old) (tot - be_bytes old)
        (mark_evicted cfg sid 1 ev) = (buf', bytes', tot', ev')"
      using Cons.prems * by simp
    from Cons.IH [OF this] Cons.prems show ?thesis
      using length_mark_evicted [of cfg sid 1 ev] by (simp add: suffix_ConsI)
  next
    case False
    with Cons.prems show ?thesis by auto
  qed
qed

subsection \<open>The broker invariant\<close>

definition session_bytes :: "broker \<Rightarrow> string \<Rightarrow> int" where
  "session_bytes b sid = buffer_bytes (opt_or (jm_get (br_replayBuffers b) sid) [])"

definition buffer_ok :: "broker_config \<Rightarrow> buffered_event list \<Rightarrow> bool" where
  "buffer_ok cfg buf \<longleftrightarrow> buffer_nonneg buf \<and> length buf \<le> bc_replayBufferSize cfg
     \<and> buffer_bytes buf \<le> bc_replayBufferMaxBytes cfg"

lemma buffer_ok_nonneg: "buffer_ok cfg buf \<Longrightarrow> 0 \<le> buffer_bytes buf"
  by (simp add: buffer_ok_def buffer_bytes_nonneg)

text \<open>The maps are maps, cached sizes are the true sizes, and every session's buffer keeps its
  two bounds.\<close>

definition broker_wf :: "broker_config \<Rightarrow> broker \<Rightarrow> bool" where
  "broker_wf cfg b \<longleftrightarrow>
     jm_ok (br_subscribers b) \<and> jm_ok (br_replayBuffers b) \<and> jm_ok (br_replayBufferBytes b)
     \<and> jm_ok (br_rateStates b) \<and> jm_ok (br_pending b) \<and> jm_ok (br_evicted b)
     \<and> length (br_evicted b) \<le> max (bc_coldKeyLimit cfg) 1000
     \<and> jm_all (\<lambda>s. s \<noteq> [] \<and> distinct s) (br_subscribers b)
     \<and> jm_all (buffer_ok cfg) (br_replayBuffers b)
     \<and> (\<forall>sid. opt_or (jm_get (br_replayBufferBytes b) sid) 0 = session_bytes b sid)
     \<and> br_retained b = retained_actual b"

definition config_ok :: "broker_config \<Rightarrow> bool" where
  "config_ok cfg \<longleftrightarrow> 0 \<le> bc_replayBufferMaxBytes cfg \<and> 0 \<le> bc_replayBudgetMaxBytes cfg
     \<and> 0 \<le> bc_eventPayloadMaxBytes cfg \<and> 1 \<le> bc_coldKeyLimit cfg
     \<and> 1 \<le> bc_rateLimit cfg \<and> bc_rateBurst cfg = 2 * bc_rateLimit cfg"

lemma config_ok_of: "config_ok (broker_config_of p r opts)"
  by (simp add: config_ok_def broker_config_of_def Let_def)

lemma broker_wf_init [inv_intros]: "broker_wf cfg broker_init"
  by (simp add: broker_wf_def broker_init_def session_bytes_def retained_actual_def)

lemma retained_split:
  assumes "jm_ok m" and "jm_all (buffer_ok cfg) m"
  shows "jm_sum buffer_bytes (jm_del sid m)
      = jm_sum buffer_bytes m - buffer_bytes (opt_or (jm_get m sid) [])"
    and "0 \<le> buffer_bytes (opt_or (jm_get m sid) [])"
    and "buffer_bytes (opt_or (jm_get m sid) []) \<le> jm_sum buffer_bytes m"
proof -
  show eq: "jm_sum buffer_bytes (jm_del sid m)
      = jm_sum buffer_bytes m - buffer_bytes (opt_or (jm_get m sid) [])"
    using jm_sum_del [OF assms(1)] opt_or_sum [of buffer_bytes "[]"] by simp
  have nonneg: "0 \<le> buffer_bytes buf" if "jm_get m sid = Some buf" for buf
    using jm_all_get [OF assms(2) that] by (rule buffer_ok_nonneg)
  then show "0 \<le> buffer_bytes (opt_or (jm_get m sid) [])"
    by (cases "jm_get m sid") auto
  have "jm_all (buffer_ok cfg) (jm_del sid m)" using assms(2) by simp
  then have "0 \<le> jm_sum buffer_bytes (jm_del sid m)"
    by (intro jm_sum_nonneg) (auto simp: jm_all_values intro: buffer_ok_nonneg)
  with eq show "buffer_bytes (opt_or (jm_get m sid) []) \<le> jm_sum buffer_bytes m" by simp
qed

lemma drop_session_state_wf [inv_intros]:
  assumes "broker_wf cfg b"
  shows "broker_wf cfg (drop_session_state cfg sid n b)"
proof -
  have "jm_ok (br_replayBuffers b)" "jm_all (buffer_ok cfg) (br_replayBuffers b)"
    using assms by (simp_all add: broker_wf_def)
  note split = retained_split [OF this, of sid]
  show ?thesis
    using assms split length_mark_evicted
    by (auto simp: broker_wf_def drop_session_state_def Let_def session_bytes_def
        retained_actual_def)
qed

lemma mark_evicted_wf:
  assumes "broker_wf cfg b"
  shows "broker_wf cfg (b \<lparr> br_evicted := mark_evicted cfg sid n (br_evicted b) \<rparr>)"
  using assms length_mark_evicted
  by (auto simp: broker_wf_def session_bytes_def retained_actual_def)

lemma budget_step_wf [inv_intros]:
  assumes "broker_wf cfg b"
  shows "broker_wf cfg (budget_step cfg b)"
proof (cases "first_cold b")
  case None
  show ?thesis
  proof (cases "br_replayBuffers b")
    case Nil
    with None assms show ?thesis by (simp add: budget_step_def)
  next
    case (Cons kv m)
    obtain sid buf where kv: "kv = (sid, buf)" by (cases kv)
    have ok: "jm_ok (br_replayBuffers b)" "jm_all (buffer_ok cfg) (br_replayBuffers b)"
      using assms by (simp_all add: broker_wf_def)
    note split = retained_split [OF this, of sid]
    have get: "jm_get (br_replayBuffers b) sid = Some buf" using Cons kv by simp
    have sum: "jm_sum buffer_bytes (jm_set sid buf' (br_replayBuffers b))
        = jm_sum buffer_bytes (br_replayBuffers b) - buffer_bytes buf + buffer_bytes buf'" for buf'
      by (simp only: jm_sum_set get opt_val_simps)
    have bytes: "opt_or (jm_get (br_replayBufferBytes b) sid) 0 = buffer_bytes buf"
      using assms get by (simp add: broker_wf_def session_bytes_def)
    show ?thesis
    proof (cases buf)
      case Nil
      with None Cons kv have "budget_step cfg b
          = b \<lparr> br_replayBuffers := jm_del sid (br_replayBuffers b) \<rparr>"
        by (simp add: budget_step_def)
      with assms split bytes get Nil show ?thesis
        by (auto simp: broker_wf_def session_bytes_def retained_actual_def)
    next
      case (Cons old rest)
      then have step: "budget_step cfg b =
          b \<lparr> br_replayBuffers := jm_set sid rest (br_replayBuffers b),
              br_replayBufferBytes :=
                jm_set sid (max 0 (opt_or (jm_get (br_replayBufferBytes b) sid) 0 - be_bytes old))
                  (br_replayBufferBytes b),
              br_retained := max 0 (br_retained b - be_bytes old),
              br_evicted := mark_evicted cfg sid 1 (br_evicted b) \<rparr>"
        using None kv \<open>br_replayBuffers b = kv # m\<close> by (simp add: budget_step_def)
      have rest: "buffer_ok cfg rest" "0 \<le> buffer_bytes rest" "0 \<le> be_bytes old"
        using jm_all_get [OF ok(2) get] Cons
        by (auto simp: buffer_ok_def intro: buffer_bytes_nonneg)
      show ?thesis
        unfolding step using assms split rest sum [of rest] bytes get Cons length_mark_evicted
        by (auto simp: broker_wf_def session_bytes_def retained_actual_def)
    qed
  qed
next
  case (Some sid)
  with assms show ?thesis by (simp add: budget_step_def drop_session_state_wf)
qed

lemma enforce_budget_wf [inv_intros]: "broker_wf cfg b \<Longrightarrow> broker_wf cfg (enforce_budget n cfg b)"
  by (induction n cfg b rule: enforce_budget.induct) (auto intro: budget_step_wf)

lemma enforce_cold_keys_wf [inv_intros]:
  "broker_wf cfg b \<Longrightarrow> broker_wf cfg (enforce_cold_keys n cfg b)"
  by (induction n cfg b rule: enforce_cold_keys.induct)
    (auto intro: drop_session_state_wf split: option.splits)

lemma enforce_global_bounds_wf [inv_intros]:
  "broker_wf cfg b \<Longrightarrow> broker_wf cfg (enforce_global_bounds cfg b)"
  by (simp add: enforce_global_bounds_def enforce_budget_wf enforce_cold_keys_wf)

lemma broker_wf_irrelevant [simp]:
  "broker_wf cfg (b \<lparr> br_out := x \<rparr>) = broker_wf cfg b"
  "broker_wf cfg (b \<lparr> br_tapped := y \<rparr>) = broker_wf cfg b"
  "broker_wf cfg (b \<lparr> br_warned := w \<rparr>) = broker_wf cfg b"
  by (simp_all add: broker_wf_def session_bytes_def retained_actual_def)

text \<open>The event sizes the broker caches are those of the stored events.\<close>

lemma retain_event_wf [inv_intros]:
  assumes wf: "broker_wf cfg b" and cfg: "config_ok cfg" and n: "0 \<le> n"
  shows "broker_wf cfg (retain_event cfg sid ev n b)"
proof -
  define buf where "buf = opt_or (jm_get (br_replayBuffers b) sid) []"
  define full where "full = buf @ [\<lparr> be_event = ev, be_bytes = n \<rparr>]"
  obtain buf1 bytes1 tot1 where 1: "trim_count (bc_replayBufferSize cfg) full
      (opt_or (jm_get (br_replayBufferBytes b) sid) 0 + n) (br_retained b + n) = (buf1, bytes1, tot1)"
    by (cases "trim_count (bc_replayBufferSize cfg) full
      (opt_or (jm_get (br_replayBufferBytes b) sid) 0 + n) (br_retained b + n)")
  obtain buf2 bytes2 tot2 ev2 where 2: "trim_bytes cfg sid buf1 bytes1 tot1 (br_evicted b)
      = (buf2, bytes2, tot2, ev2)"
    by (cases "trim_bytes cfg sid buf1 bytes1 tot1 (br_evicted b)")
  have ok: "jm_ok (br_replayBuffers b)" "jm_all (buffer_ok cfg) (br_replayBuffers b)"
    using wf by (simp_all add: broker_wf_def)
  note split = retained_split [OF this, of sid, folded buf_def]
  have bytes: "opt_or (jm_get (br_replayBufferBytes b) sid) 0 = buffer_bytes buf"
    using wf by (simp add: broker_wf_def session_bytes_def buf_def)
  have tot: "br_retained b = jm_sum buffer_bytes (br_replayBuffers b)"
    using wf by (simp add: broker_wf_def retained_actual_def)
  have "buffer_ok cfg buf"
    using jm_all_get [OF ok(2)] cfg
    by (cases "jm_get (br_replayBuffers b) sid") (auto simp: buf_def buffer_ok_def config_ok_def)
  then have full: "buffer_nonneg full" "buffer_bytes full = buffer_bytes buf + n"
    using n by (simp_all add: full_def buffer_ok_def)
  have s1: "buf1 = keep_last (bc_replayBufferSize cfg) full \<and> bytes1 = buffer_bytes buf1
      \<and> tot1 = br_retained b - buffer_bytes buf + buffer_bytes buf1 \<and> buffer_nonneg buf1"
    using trim_count_spec [OF 1] full bytes split tot by auto
  have s2: "bytes2 = buffer_bytes buf2 \<and> tot2 = tot1 - (buffer_bytes buf1 - buffer_bytes buf2)
    \<and> buffer_nonneg buf2 \<and> suffix buf2 buf1 \<and> bytes2 \<le> bc_replayBufferMaxBytes cfg \<and> jm_ok ev2
    \<and> length ev2 \<le> max (bc_coldKeyLimit cfg) 1000"
    using trim_bytes_spec [OF 2] s1 split tot wf cfg by (auto simp: broker_wf_def config_ok_def)
  have "length buf2 \<le> bc_replayBufferSize cfg"
    using s1 s2 suffix_length_le [of buf2 buf1] by simp
  then have buf2: "buffer_ok cfg buf2" using s2 by (simp add: buffer_ok_def)
  have "jm_sum buffer_bytes (jm_set sid buf2 (br_replayBuffers b)) = tot2"
    using s1 s2 tot opt_or_sum [of buffer_bytes "[]" "jm_get (br_replayBuffers b) sid"]
    by (simp add: jm_sum_set buf_def)
  moreover have "retain_event cfg sid ev n b =
     b \<lparr> br_replayBuffers := jm_set sid buf2 (br_replayBuffers b),
         br_replayBufferBytes := jm_set sid (max 0 bytes2) (br_replayBufferBytes b),
         br_retained := tot2, br_evicted := ev2 \<rparr>"
    using 1 2 by (simp add: retain_event_def full_def buf_def)
  ultimately show ?thesis
    using wf buf2 s2 buffer_bytes_nonneg [of buf2]
    by (auto simp: broker_wf_def session_bytes_def retained_actual_def)
qed

lemma deliver_wf [inv_intros]:
  assumes "broker_wf cfg b" and "config_ok cfg"
  shows "broker_wf cfg (deliver cfg sid ev b)"
  using assms by (auto simp: deliver_def Let_def intro!: enforce_global_bounds_wf retain_event_wf)

lemma rate_states_wf:
  "broker_wf cfg b \<Longrightarrow> jm_ok m \<Longrightarrow> broker_wf cfg (b \<lparr> br_rateStates := m \<rparr>)"
  by (simp add: broker_wf_def session_bytes_def retained_actual_def)

lemma pending_wf:
  "broker_wf cfg b \<Longrightarrow> jm_ok m \<Longrightarrow> broker_wf cfg (b \<lparr> br_pending := m \<rparr>)"
  by (simp add: broker_wf_def session_bytes_def retained_actual_def)

lemma broker_wf_maps:
  assumes "broker_wf cfg b"
  shows "jm_ok (br_rateStates b)" "jm_ok (br_pending b)" "jm_ok (br_subscribers b)"
    "jm_ok (br_replayBuffers b)" "jm_ok (br_evicted b)"
  using assms by (simp_all add: broker_wf_def)

lemma refill_wf [inv_intros]: "broker_wf cfg b \<Longrightarrow> broker_wf cfg (refill cfg now sid b)"
  by (simp add: refill_def Let_def rate_states_wf broker_wf_maps)

lemma with_tokens_wf [inv_intros]: "broker_wf cfg b \<Longrightarrow> broker_wf cfg (with_tokens f sid b)"
  by (auto simp: with_tokens_def broker_wf_maps intro!: rate_states_wf split: option.split)

lemma flush_pending_wf [inv_intros]:
  "broker_wf cfg b \<Longrightarrow> config_ok cfg \<Longrightarrow> broker_wf cfg (flush_pending cfg sid b)"
  by (auto simp: flush_pending_def broker_wf_maps intro!: deliver_wf with_tokens_wf pending_wf
      split: option.split)

lemma refill_and_flush_wf [inv_intros]:
  "broker_wf cfg b \<Longrightarrow> config_ok cfg \<Longrightarrow> broker_wf cfg (refill_and_flush cfg now sid b)"
  by (simp add: refill_and_flush_def Let_def refill_wf flush_pending_wf)

lemma publish_update_wf [inv_intros]:
  assumes "broker_wf cfg b" and "config_ok cfg"
  shows "broker_wf cfg (publish_update cfg now sid ev b)"
  using refill_and_flush_wf [OF assms, of now sid] assms(2)
  by (simp add: publish_update_def Let_def deliver_wf with_tokens_wf pending_wf broker_wf_maps)

lemma publish_wf [inv_intros]:
  "broker_wf cfg b \<Longrightarrow> config_ok cfg \<Longrightarrow> broker_wf cfg (publish cfg env sid ev b)"
  by (simp add: publish_def Let_def publish_update_wf deliver_wf flush_pending_wf)

lemma subscribers_wf:
  "broker_wf cfg b \<Longrightarrow> jm_ok m \<Longrightarrow> jm_all (\<lambda>s. s \<noteq> [] \<and> distinct s) m \<Longrightarrow>
     broker_wf cfg (b \<lparr> br_subscribers := m \<rparr>)"
  by (simp add: broker_wf_def session_bytes_def retained_actual_def)

lemma subscriber_set_ok:
  assumes "broker_wf cfg b"
  shows "distinct (opt_or (jm_get (br_subscribers b) sid) [])"
proof -
  have "jm_all (\<lambda>s. s \<noteq> [] \<and> distinct s) (br_subscribers b)"
    using assms by (simp add: broker_wf_def)
  then show ?thesis
    by (cases "jm_get (br_subscribers b) sid") (auto dest: jm_all_get)
qed

lemma subscribe_wf [inv_intros]:
  assumes "broker_wf cfg b"
  shows "broker_wf cfg (subscribe disposed sid u replay b)"
proof -
  have "jm_all (\<lambda>s. s \<noteq> [] \<and> distinct s) (br_subscribers b)"
    using assms by (simp add: broker_wf_def)
  then show ?thesis
    using assms subscriber_set_ok [OF assms, of sid]
    by (simp add: subscribe_def Let_def subscribers_wf broker_wf_maps)
qed

lemma unsubscribe_wf [inv_intros]:
  assumes "broker_wf cfg b"
  shows "broker_wf cfg (unsubscribe sid u b)"
proof -
  have "jm_all (\<lambda>s. s \<noteq> [] \<and> distinct s) (br_subscribers b)"
    using assms by (simp add: broker_wf_def)
  then show ?thesis
    using assms subscriber_set_ok [OF assms, of sid]
    by (auto simp: unsubscribe_def Let_def broker_wf_maps split: option.split
        intro!: subscribers_wf)
qed

lemma clear_session_wf [inv_intros]:
  assumes "broker_wf cfg b"
  shows "broker_wf cfg (clear_session cfg sid b)"
proof -
  define b1 where "b1 = drop_session_state cfg sid 0 (b \<lparr> br_subscribers := jm_del sid (br_subscribers b) \<rparr>)"
  have "jm_all (\<lambda>s. s \<noteq> [] \<and> distinct s) (br_subscribers b)"
    using assms by (simp add: broker_wf_def)
  then have "broker_wf cfg b1"
    using assms by (simp add: b1_def drop_session_state_wf subscribers_wf broker_wf_maps)
  then have "broker_wf cfg (b1 \<lparr> br_evicted := jm_del sid (br_evicted b1) \<rparr>)"
    using length_jm_del_le [of sid "br_evicted b1"]
    by (auto simp: broker_wf_def session_bytes_def retained_actual_def)
  then show ?thesis by (simp add: clear_session_def b1_def Let_def)
qed

lemma clear_all_wf [inv_intros]: "broker_wf cfg b \<Longrightarrow> broker_wf cfg (clear_all b)"
  by (simp add: broker_wf_def clear_all_def session_bytes_def retained_actual_def)

text \<open>A client of the broker: any sequence of its operations.\<close>

datatype broker_op =
    Publish publish_env string js_object
  | Subscribe bool string string bool
  | Unsubscribe string string
  | ClearSession string
  | ClearAll

fun broker_step :: "broker_config \<Rightarrow> broker_op \<Rightarrow> broker \<Rightarrow> broker" where
  "broker_step cfg (Publish env sid ev) b = publish cfg env sid ev b"
| "broker_step cfg (Subscribe disposed sid u replay) b = subscribe disposed sid u replay b"
| "broker_step cfg (Unsubscribe sid u) b = unsubscribe sid u b"
| "broker_step cfg (ClearSession sid) b = clear_session cfg sid b"
| "broker_step cfg ClearAll b = clear_all b"

definition broker_run :: "broker_config \<Rightarrow> broker_op list \<Rightarrow> broker" where
  "broker_run cfg ops = fold (broker_step cfg) ops broker_init"

lemma broker_step_wf: "broker_wf cfg b \<Longrightarrow> config_ok cfg \<Longrightarrow> broker_wf cfg (broker_step cfg opn b)"
  by (cases opn) (simp_all add: inv_intros)

lemma broker_fold_wf:
  "broker_wf cfg b \<Longrightarrow> config_ok cfg \<Longrightarrow> broker_wf cfg (fold (broker_step cfg) ops b)"
  by (induction ops arbitrary: b) (simp_all add: broker_step_wf)

lemma broker_run_wf: "config_ok cfg \<Longrightarrow> broker_wf cfg (broker_run cfg ops)"
  by (simp add: broker_run_def broker_fold_wf broker_wf_init)

subsection \<open>The global bounds\<close>

text \<open>The guard counts: one unit for every buffer and one for every buffered event. A turn of
  either loop removes at least one.\<close>

definition weight :: "(string, buffered_event list) jsmap \<Rightarrow> nat" where
  "weight m = sum_list (map (\<lambda>kv. Suc (length (snd kv))) m)"

lemma weight_simps [simp]:
  "weight [] = 0" "weight (kv # m) = Suc (length (snd kv)) + weight m"
  by (simp_all add: weight_def)

lemma weight_del_le: "weight (jm_del k m) \<le> weight m"
  by (induction m) (auto simp: jm_del_def)

lemma weight_del_less: "k \<in> set (jm_keys m) \<Longrightarrow> weight (jm_del k m) < weight m"
proof (induction m)
  case (Cons kv m)
  show ?case
  proof (cases "fst kv = k")
    case True
    then show ?thesis using weight_del_le [of k m] by (simp add: jm_del_def)
  next
    case False
    with Cons show ?thesis by (auto simp: jm_del_def)
  qed
qed simp

lemma length_le_weight: "length m \<le> weight m"
  by (induction m) auto

lemma weight_set_le:
  "weight (jm_set k v m) + length (opt_or (jm_get m k) []) \<le> weight m + Suc (length v)"
  by (induction m) auto

lemma first_cold_Some:
  "first_cold b = Some sid \<Longrightarrow>
     sid \<in> set (jm_keys (br_replayBuffers b)) \<and> \<not> jm_has (br_subscribers b) sid"
  by (auto simp: first_cold_def find_Some_iff nth_mem)

lemma drop_session_state_sel [simp]:
  "br_replayBuffers (drop_session_state cfg sid n b) = jm_del sid (br_replayBuffers b)"
  "br_subscribers (drop_session_state cfg sid n b) = br_subscribers b"
  "br_out (drop_session_state cfg sid n b) = br_out b"
  "br_tapped (drop_session_state cfg sid n b) = br_tapped b"
  "br_pending (drop_session_state cfg sid n b) = jm_del sid (br_pending b)"
  "br_rateStates (drop_session_state cfg sid n b) = jm_del sid (br_rateStates b)"
  by (simp_all add: drop_session_state_def Let_def)

lemma budget_step_weight:
  "br_replayBuffers b \<noteq> [] \<Longrightarrow> weight (br_replayBuffers (budget_step cfg b)) < weight (br_replayBuffers b)"
  using first_cold_Some [of b] weight_del_less
  by (auto simp: budget_step_def jm_del_def weight_del_le split: option.split list.split
      intro: le_imp_less_Suc weight_del_le [unfolded jm_del_def])

lemma budget_step_frame:
  "br_subscribers (budget_step cfg b) = br_subscribers b"
  "br_out (budget_step cfg b) = br_out b"
  by (auto simp: budget_step_def split: option.split list.split)

lemma enforce_budget_frame:
  "br_subscribers (enforce_budget n cfg b) = br_subscribers b"
  "br_out (enforce_budget n cfg b) = br_out b"
  by (induction n cfg b rule: enforce_budget.induct) (auto simp: budget_step_frame)

lemma enforce_budget_weight:
  "weight (br_replayBuffers (enforce_budget n cfg b)) \<le> weight (br_replayBuffers b)"
proof (induction n cfg b rule: enforce_budget.induct)
  case (2 n cfg b)
  then show ?case using budget_step_weight [of b cfg] by auto
qed simp

lemma enforce_budget_bound:
  assumes "broker_wf cfg b" and "0 \<le> bc_replayBudgetMaxBytes cfg"
    and "weight (br_replayBuffers b) \<le> n"
  shows "br_retained (enforce_budget n cfg b) \<le> bc_replayBudgetMaxBytes cfg"
  using assms
proof (induction n cfg b rule: enforce_budget.induct)
  case (1 cfg b)
  then have "br_replayBuffers b = []" by (cases "br_replayBuffers b") auto
  with 1 show ?case by (simp add: broker_wf_def retained_actual_def)
next
  case (2 n cfg b)
  show ?case
  proof (cases "br_retained b > bc_replayBudgetMaxBytes cfg \<and> br_replayBuffers b \<noteq> []")
    case True
    with 2 budget_step_weight [of b cfg] budget_step_wf show ?thesis by auto
  next
    case False
    with 2 show ?thesis by (auto simp: broker_wf_def retained_actual_def)
  qed
qed

lemma cold_key_count_drop:
  assumes "first_cold b = Some sid"
  shows "cold_key_count (drop_session_state cfg sid n b) < cold_key_count b"
proof -
  let ?P = "\<lambda>sid. \<not> jm_has (br_subscribers b) sid"
  have "length (filter ?P (filter (\<lambda>k'. k' \<noteq> sid) ks)) < length (filter ?P ks)"
    if "sid \<in> set ks" "?P sid" for ks
    using that
  proof (induction ks)
    case (Cons k ks)
    have "length (filter ?P (filter (\<lambda>k'. k' \<noteq> sid) ks)) \<le> length (filter ?P ks)"
      by (induction ks) auto
    with Cons show ?case by (cases "k = sid") auto
  qed simp
  from this [of "jm_keys (br_replayBuffers b)"] first_cold_Some [OF assms] show ?thesis
    unfolding cold_key_count_def jm_keys_del drop_session_state_sel by blast
qed

lemma first_cold_None: "first_cold b = None \<Longrightarrow> cold_key_count b = 0"
  by (auto simp: first_cold_def cold_key_count_def find_None_iff filter_empty_conv)

lemma enforce_cold_keys_bound:
  "cold_key_count b \<le> n + bc_coldKeyLimit cfg \<Longrightarrow>
     cold_key_count (enforce_cold_keys n cfg b) \<le> bc_coldKeyLimit cfg"
proof (induction n cfg b rule: enforce_cold_keys.induct)
  case (2 n cfg b)
  show ?case
  proof (cases "cold_key_count b > bc_coldKeyLimit cfg")
    case True
    then obtain sid where sid: "first_cold b = Some sid"
      using first_cold_None [of b] by (cases "first_cold b") auto
    have "cold_key_count (drop_session_state cfg sid 0 b) \<le> n + bc_coldKeyLimit cfg"
      using cold_key_count_drop [OF sid, of cfg 0] 2(2) by linarith
    with 2(1) [OF True sid] True sid show ?thesis by simp
  qed simp
qed simp

lemma drop_session_state_retained:
  assumes "broker_wf cfg b"
  shows "br_retained (drop_session_state cfg sid n b) \<le> br_retained b"
proof -
  have ok: "jm_ok (br_replayBuffers b)" "jm_all (buffer_ok cfg) (br_replayBuffers b)"
    using assms by (simp_all add: broker_wf_def)
  show ?thesis
    using retained_split [OF ok, of sid] assms
    by (auto simp: drop_session_state_def Let_def broker_wf_def session_bytes_def
        retained_actual_def)
qed

lemma enforce_cold_keys_retained:
  "broker_wf cfg b \<Longrightarrow> br_retained (enforce_cold_keys n cfg b) \<le> br_retained b"
proof (induction n cfg b rule: enforce_cold_keys.induct)
  case (2 n cfg b)
  show ?case
  proof (cases "cold_key_count b > bc_coldKeyLimit cfg")
    case True
    show ?thesis
    proof (cases "first_cold b")
      case (Some sid)
      have "br_retained (enforce_cold_keys n cfg (drop_session_state cfg sid 0 b))
          \<le> br_retained (drop_session_state cfg sid 0 b)"
        using 2(1) [OF True Some] drop_session_state_wf [OF 2(2)] by simp
      with drop_session_state_retained [OF 2(2), of sid 0] True Some show ?thesis by simp
    qed (use True in simp)
  qed simp
qed simp

lemma enforce_cold_keys_frame:
  "br_subscribers (enforce_cold_keys n cfg b) = br_subscribers b"
  "br_out (enforce_cold_keys n cfg b) = br_out b"
  by (induction n cfg b rule: enforce_cold_keys.induct) (auto split: option.split)

lemma cold_key_count_le_weight: "cold_key_count b \<le> weight (br_replayBuffers b)"
proof -
  have "cold_key_count b \<le> length (jm_keys (br_replayBuffers b))"
    unfolding cold_key_count_def by (rule length_filter_le)
  with length_le_weight [of "br_replayBuffers b"] show ?thesis by simp
qed

lemma enforce_global_bounds_bound:
  assumes "broker_wf cfg b" and "config_ok cfg" and "weight (br_replayBuffers b) \<le> guard_limit"
  shows "br_retained (enforce_global_bounds cfg b) \<le> bc_replayBudgetMaxBytes cfg
    \<and> cold_key_count (enforce_global_bounds cfg b) \<le> bc_coldKeyLimit cfg"
proof -
  let ?b1 = "enforce_budget guard_limit cfg b"
  have "br_retained ?b1 \<le> bc_replayBudgetMaxBytes cfg"
    using assms by (intro enforce_budget_bound) (simp_all add: config_ok_def)
  moreover have "br_retained (enforce_cold_keys guard_limit cfg ?b1) \<le> br_retained ?b1"
    using assms by (intro enforce_cold_keys_retained enforce_budget_wf)
  moreover have "cold_key_count ?b1 \<le> guard_limit"
    using cold_key_count_le_weight [of ?b1] enforce_budget_weight [of guard_limit cfg b] assms(3)
    by linarith
  ultimately show ?thesis
    using enforce_cold_keys_bound [of ?b1 guard_limit cfg]
    by (simp add: enforce_global_bounds_def)
qed

lemma trim_count_length: "length (fst (trim_count n buf bytes tot)) \<le> length buf"
  by (induction n buf bytes tot rule: trim_count.induct) auto

lemma trim_bytes_length: "length (fst (trim_bytes cfg sid buf bytes tot ev)) \<le> length buf"
  by (induction cfg sid buf bytes tot ev rule: trim_bytes.induct) auto

lemma retain_event_weight:
  "weight (br_replayBuffers (retain_event cfg sid ev n b)) \<le> weight (br_replayBuffers b) + 2"
proof -
  define buf where "buf = opt_or (jm_get (br_replayBuffers b) sid) []"
  obtain buf1 bytes1 tot1 where 1: "trim_count (bc_replayBufferSize cfg)
      (buf @ [\<lparr> be_event = ev, be_bytes = n \<rparr>])
      (opt_or (jm_get (br_replayBufferBytes b) sid) 0 + n) (br_retained b + n) = (buf1, bytes1, tot1)"
    using prod_cases3 by blast
  obtain buf2 bytes2 tot2 ev2 where 2: "trim_bytes cfg sid buf1 bytes1 tot1 (br_evicted b)
      = (buf2, bytes2, tot2, ev2)"
    using prod_cases4 by blast
  have "length buf2 \<le> Suc (length buf)"
    using trim_count_length [of "bc_replayBufferSize cfg" "buf @ [\<lparr> be_event = ev, be_bytes = n \<rparr>]"]
      trim_bytes_length [of cfg sid buf1 bytes1 tot1 "br_evicted b"] 1 2
    by (metis fst_conv le_trans length_append_singleton)
  moreover have "br_replayBuffers (retain_event cfg sid ev n b) = jm_set sid buf2 (br_replayBuffers b)"
    using 1 2 by (simp add: retain_event_def buf_def)
  ultimately show ?thesis
    using weight_set_le [of sid buf2 "br_replayBuffers b"] by (simp add: buf_def)
qed

subsection \<open>What is delivered\<close>

definition outs :: "string \<Rightarrow> string \<Rightarrow> broker \<Rightarrow> js_object list" where
  "outs sid u b = map (snd \<circ> snd) (filter (\<lambda>d. fst d = sid \<and> fst (snd d) = u) (br_out b))"

definition subscribed :: "string \<Rightarrow> string \<Rightarrow> broker \<Rightarrow> bool" where
  "subscribed sid u b \<longleftrightarrow> u \<in> set (opt_or (jm_get (br_subscribers b) sid) [])"

definition budgeted :: "broker_config \<Rightarrow> js_object \<Rightarrow> js_object" where
  "budgeted cfg ev = me_event (measure_and_slim ev (bc_eventPayloadMaxBytes cfg))"

lemma retain_event_frame:
  "br_subscribers (retain_event cfg sid ev n b) = br_subscribers b"
  "br_out (retain_event cfg sid ev n b) = br_out b"
  "br_rateStates (retain_event cfg sid ev n b) = br_rateStates b"
  "br_pending (retain_event cfg sid ev n b) = br_pending b"
  by (simp_all add: retain_event_def Let_def split: prod.split)

lemma enforce_global_bounds_frame:
  "br_subscribers (enforce_global_bounds cfg b) = br_subscribers b"
  "br_out (enforce_global_bounds cfg b) = br_out b"
  by (simp_all add: enforce_global_bounds_def enforce_budget_frame enforce_cold_keys_frame)

lemma deliver_frame:
  "br_subscribers (deliver cfg sid ev b) = br_subscribers b"
  "br_out (deliver cfg sid ev b) = br_out b @
     map (\<lambda>u. (sid, u, budgeted cfg ev)) (opt_or (jm_get (br_subscribers b) sid) [])"
  by (simp_all add: deliver_def Let_def enforce_global_bounds_frame retain_event_frame budgeted_def)

lemma filter_eq_single: "distinct us \<Longrightarrow> filter (\<lambda>x. x = u) us = (if u \<in> set us then [u] else [])"
  by (induction us) auto

lemma outs_deliver:
  assumes "broker_wf cfg b"
  shows "outs sid u (deliver cfg sid ev b) =
     outs sid u b @ (if subscribed sid u b then [budgeted cfg ev] else [])"
  using filter_eq_single [OF subscriber_set_ok [OF assms, of sid], of u]
  by (simp add: outs_def deliver_frame filter_map o_def subscribed_def)

text \<open>A session with a subscriber is never evicted by the global bounds, so its rate state and
  its pending update stay.\<close>

lemma drop_other:
  assumes "first_cold b = Some sid'" and "jm_has (br_subscribers b) sid"
  shows "jm_get (br_rateStates (drop_session_state cfg sid' n b)) sid = jm_get (br_rateStates b) sid"
    "jm_get (br_pending (drop_session_state cfg sid' n b)) sid = jm_get (br_pending b) sid"
proof -
  have "sid' \<noteq> sid" using first_cold_Some [OF assms(1)] assms(2) by auto
  then show "jm_get (br_rateStates (drop_session_state cfg sid' n b)) sid = jm_get (br_rateStates b) sid"
    "jm_get (br_pending (drop_session_state cfg sid' n b)) sid = jm_get (br_pending b) sid"
    by simp_all
qed

lemma budget_step_hot:
  assumes "jm_has (br_subscribers b) sid"
  shows "jm_get (br_rateStates (budget_step cfg b)) sid = jm_get (br_rateStates b) sid
    \<and> jm_get (br_pending (budget_step cfg b)) sid = jm_get (br_pending b) sid"
proof (cases "first_cold b")
  case None
  then show ?thesis by (auto simp: budget_step_def split: list.split)
next
  case (Some sid')
  then show ?thesis using drop_other [OF Some assms] by (simp add: budget_step_def)
qed

lemma enforce_budget_hot:
  "jm_has (br_subscribers b) sid \<Longrightarrow>
     jm_get (br_rateStates (enforce_budget n cfg b)) sid = jm_get (br_rateStates b) sid
     \<and> jm_get (br_pending (enforce_budget n cfg b)) sid = jm_get (br_pending b) sid"
  by (induction n cfg b rule: enforce_budget.induct)
    (simp_all add: budget_step_hot budget_step_frame)

lemma enforce_cold_keys_hot:
  "jm_has (br_subscribers b) sid \<Longrightarrow>
     jm_get (br_rateStates (enforce_cold_keys n cfg b)) sid = jm_get (br_rateStates b) sid
     \<and> jm_get (br_pending (enforce_cold_keys n cfg b)) sid = jm_get (br_pending b) sid"
proof (induction n cfg b rule: enforce_cold_keys.induct)
  case (2 n cfg b)
  show ?case
  proof (cases "first_cold b")
    case (Some sid')
    with 2(1) [OF _ Some] 2(2) drop_other [OF Some 2(2), of cfg 0] show ?thesis
      by (simp only: enforce_cold_keys.simps option.case if_split drop_session_state_sel) simp
  qed simp
qed simp

lemma deliver_hot:
  assumes "jm_has (br_subscribers b) sid"
  shows "jm_get (br_rateStates (deliver cfg sid' ev b)) sid = jm_get (br_rateStates b) sid
    \<and> jm_get (br_pending (deliver cfg sid' ev b)) sid = jm_get (br_pending b) sid"
proof -
  have "jm_get (br_rateStates (enforce_global_bounds cfg b')) sid = jm_get (br_rateStates b') sid
    \<and> jm_get (br_pending (enforce_global_bounds cfg b')) sid = jm_get (br_pending b') sid"
    if "jm_has (br_subscribers b') sid" for b'
    using that enforce_budget_hot enforce_cold_keys_hot
    by (simp add: enforce_global_bounds_def enforce_budget_frame)
  then show ?thesis
    using assms by (simp add: deliver_def Let_def retain_event_frame)
qed

lemma with_tokens_frame [simp]:
  "br_subscribers (with_tokens f sid b) = br_subscribers b"
  "br_out (with_tokens f sid b) = br_out b"
  "br_pending (with_tokens f sid b) = br_pending b"
  "br_replayBuffers (with_tokens f sid b) = br_replayBuffers b"
  by (simp_all add: with_tokens_def split: option.split)

lemma refill_frame [simp]:
  "br_subscribers (refill cfg now sid b) = br_subscribers b"
  "br_out (refill cfg now sid b) = br_out b"
  "br_pending (refill cfg now sid b) = br_pending b"
  by (simp_all add: refill_def Let_def)

lemma outs_frame: "br_out b' = br_out b \<Longrightarrow> outs sid u b' = outs sid u b"
  by (simp add: outs_def)

lemma subscribed_frame: "br_subscribers b' = br_subscribers b \<Longrightarrow> subscribed sid u b' = subscribed sid u b"
  by (simp add: subscribed_def)

lemma subscribed_has: "subscribed sid u b \<Longrightarrow> jm_has (br_subscribers b) sid"
  by (cases "jm_get (br_subscribers b) sid") (auto simp: subscribed_def jm_has_def)

lemma flush_pending_None: "jm_get (br_pending b) sid = None \<Longrightarrow> flush_pending cfg sid b = b"
  by (simp add: flush_pending_def)

lemma flush_pending_frame: "br_subscribers (flush_pending cfg sid b) = br_subscribers b"
  by (simp add: flush_pending_def deliver_frame split: option.split)

lemma outs_flush_pending:
  assumes "broker_wf cfg b" and "subscribed sid u b"
  shows "outs sid u (flush_pending cfg sid b) = outs sid u b @
    (case jm_get (br_pending b) sid of None \<Rightarrow> [] | Some p \<Rightarrow> [budgeted cfg (coalesced_event p)])"
proof (cases "jm_get (br_pending b) sid")
  case (Some p)
  let ?b = "with_tokens (\<lambda>t. max 0 (t - 1)) sid (b \<lparr> br_pending := jm_del sid (br_pending b) \<rparr>)"
  have "broker_wf cfg ?b" using assms(1) by (simp add: with_tokens_wf pending_wf broker_wf_maps)
  moreover have "subscribed sid u ?b" using assms(2) by (simp add: subscribed_def)
  moreover have "outs sid u ?b = outs sid u b" by (rule outs_frame) simp
  ultimately show ?thesis using Some by (simp add: flush_pending_def outs_deliver)
qed (simp add: flush_pending_def)

lemma flush_pending_empty:
  assumes "subscribed sid u b"
  shows "jm_get (br_pending (flush_pending cfg sid b)) sid = None"
proof (cases "jm_get (br_pending b) sid")
  case (Some p)
  then show ?thesis
    using deliver_hot [of "with_tokens (\<lambda>t. max 0 (t - 1)) sid
        (b \<lparr> br_pending := jm_del sid (br_pending b) \<rparr>)" sid cfg sid "coalesced_event p"]
      subscribed_has [OF assms]
    by (simp add: flush_pending_def)
qed (simp add: flush_pending_def)

subsection \<open>Event types survive the transformations\<close>

lemma is_message_update_set_data [simp]:
  "is_message_update (jm_set (js ''data'') v ev) = is_message_update ev"
  by (simp add: is_message_update_def)

lemma measure_and_slim_update: "is_message_update (me_event (measure_and_slim ev n)) = is_message_update ev"
proof -
  have "is_message_update (me_event (slim_event ev n ob)) = is_message_update ev" for ob
    by (cases rule: slim_event_cases [of ev n ob])
      (simp_all add: minimal_event_def)
  then show ?thesis by (simp add: measure_and_slim_def Let_def del: stringify.simps)
qed

lemma budgeted_update [simp]: "is_message_update (budgeted cfg ev) = is_message_update ev"
  by (simp add: budgeted_def measure_and_slim_update)

lemma coalesced_update [simp]: "is_message_update (coalesced_event p) = is_message_update (pu_event p)"
  by (simp add: coalesced_event_def)

lemma shed_update [simp]: "is_message_update (shed_message_update ev) = is_message_update ev"
  by (simp add: shed_message_update_def Let_def)

text \<open>Only message updates are ever held back.\<close>

definition pending_ok :: "broker \<Rightarrow> bool" where
  "pending_ok b \<longleftrightarrow> jm_all (\<lambda>p. is_message_update (pu_event p)) (br_pending b)"

lemma pending_ok_get: "pending_ok b \<Longrightarrow> jm_get (br_pending b) sid = Some p \<Longrightarrow> is_message_update (pu_event p)"
  unfolding pending_ok_def by (rule jm_all_get)

lemma pending_ok_frame: "br_pending b' = br_pending b \<Longrightarrow> pending_ok b' = pending_ok b"
  by (simp add: pending_ok_def)

lemma drop_session_state_pending: "pending_ok b \<Longrightarrow> pending_ok (drop_session_state cfg sid n b)"
  by (simp add: pending_ok_def)

lemma budget_step_pending: "pending_ok b \<Longrightarrow> pending_ok (budget_step cfg b)"
  by (auto simp: budget_step_def pending_ok_def split: option.split list.split)

lemma enforce_global_bounds_pending: "pending_ok b \<Longrightarrow> pending_ok (enforce_global_bounds cfg b)"
proof -
  have 1: "pending_ok b \<Longrightarrow> pending_ok (enforce_budget n cfg b)" for n b
    by (induction n cfg b rule: enforce_budget.induct) (simp_all add: budget_step_pending)
  have 2: "pending_ok b \<Longrightarrow> pending_ok (enforce_cold_keys n cfg b)" for n b
    by (induction n cfg b rule: enforce_cold_keys.induct)
      (simp_all add: drop_session_state_pending split: option.split)
  show "pending_ok b \<Longrightarrow> pending_ok (enforce_global_bounds cfg b)"
    by (simp add: enforce_global_bounds_def 1 2)
qed

lemma deliver_pending: "pending_ok b \<Longrightarrow> pending_ok (deliver cfg sid ev b)"
proof -
  assume b: "pending_ok b"
  have "pending_ok (retain_event cfg sid ev' n (b \<lparr> br_warned := w \<rparr>))"
    "pending_ok (retain_event cfg sid ev' n b)" for ev' n w
    using b by (simp_all add: pending_ok_def retain_event_frame)
  then have "pending_ok (enforce_global_bounds cfg (retain_event cfg sid ev' n (b \<lparr> br_warned := w \<rparr>)))"
    "pending_ok (enforce_global_bounds cfg (retain_event cfg sid ev' n b))" for ev' n w
    by (simp_all add: enforce_global_bounds_pending)
  with b show ?thesis by (simp add: deliver_def Let_def pending_ok_def)
qed

lemma flush_pending_pending: "pending_ok b \<Longrightarrow> pending_ok (flush_pending cfg sid b)"
  by (auto simp: flush_pending_def pending_ok_def [of "with_tokens _ _ _"] pending_ok_def [of b]
      intro!: deliver_pending split: option.split)

lemma refill_and_flush_pending: "pending_ok b \<Longrightarrow> pending_ok (refill_and_flush cfg now sid b)"
  by (simp add: refill_and_flush_def Let_def flush_pending_pending pending_ok_frame [of "refill _ _ _ _" b])

lemma publish_pending: "pending_ok b \<Longrightarrow> pending_ok (publish cfg env sid ev b)"
proof -
  have upd: "pending_ok b \<Longrightarrow> is_message_update ev \<Longrightarrow>
      pending_ok (publish_update cfg now sid ev b)" for b ev now
    using refill_and_flush_pending [of b cfg now sid]
    by (auto simp: publish_update_def Let_def pending_ok_def [of "br_pending_update _ _"]
        pending_ok_frame [of "with_tokens _ _ _"] intro!: deliver_pending)
      (simp add: pending_ok_def)
  show "pending_ok b \<Longrightarrow> pending_ok (publish cfg env sid ev b)"
    by (auto simp: publish_def Let_def pending_ok_frame [of "b \<lparr> br_tapped := _ \<rparr>" b]
        intro!: upd deliver_pending flush_pending_pending)
qed

lemma broker_step_pending: "pending_ok b \<Longrightarrow> pending_ok (broker_step cfg opn b)"
  by (cases opn)
    (auto simp: publish_pending [unfolded pending_ok_def] pending_ok_def subscribe_def unsubscribe_def clear_session_def
      clear_all_def Let_def split: option.split)

lemma broker_run_pending: "pending_ok (broker_run cfg ops)"
proof -
  have "pending_ok b \<Longrightarrow> pending_ok (fold (broker_step cfg) ops b)" for b
    by (induction ops arbitrary: b) (simp_all add: broker_step_pending)
  then show ?thesis by (simp add: broker_run_def pending_ok_def broker_init_def)
qed

subsection \<open>Sequences of publications\<close>

text \<open>\<open>publish_all\<close> publishes in order; the session is part of each item.\<close>

definition publish_all ::
  "broker_config \<Rightarrow> (publish_env \<times> string \<times> js_object) list \<Rightarrow> broker \<Rightarrow> broker" where
  "publish_all cfg items b = fold (\<lambda>(env, sid, ev). publish cfg env sid ev) items b"

definition accepted_for :: "string \<Rightarrow> (publish_env \<times> string \<times> js_object) list \<Rightarrow> js_object list" where
  "accepted_for sid items =
     map (\<lambda>(env, _, ev). enriched env ev)
       (filter (\<lambda>(env, s, ev). s = sid \<and> \<not> pe_disposed env) items)"

lemma publish_all_simps [simp]:
  "publish_all cfg [] b = b"
  "publish_all cfg ((env, sid, ev) # items) b = publish_all cfg items (publish cfg env sid ev b)"
  by (simp_all add: publish_all_def)

lemma accepted_for_simps [simp]:
  "accepted_for sid [] = []"
  "accepted_for sid ((env, s, ev) # items) =
     (if s = sid \<and> \<not> pe_disposed env then [enriched env ev] else []) @ accepted_for sid items"
  by (simp_all add: accepted_for_def)

lemma refill_and_flush_subs: "br_subscribers (refill_and_flush cfg now sid b) = br_subscribers b"
  by (simp add: refill_and_flush_def Let_def flush_pending_frame)

lemma publish_subs: "br_subscribers (publish cfg env sid ev b) = br_subscribers b"
  by (simp add: publish_def publish_update_def Let_def deliver_frame flush_pending_frame
      refill_and_flush_subs)

lemma outs_deliver_other: "sid' \<noteq> sid \<Longrightarrow> outs sid u (deliver cfg sid' ev b) = outs sid u b"
  by (auto simp: outs_def deliver_frame filter_map o_def)

lemma outs_simps [simp]:
  "outs sid u (with_tokens f sid' b) = outs sid u b"
  "outs sid u (refill cfg now sid' b) = outs sid u b"
  "outs sid u (b \<lparr> br_pending := x \<rparr>) = outs sid u b"
  "outs sid u (b \<lparr> br_tapped := y \<rparr>) = outs sid u b"
  by (simp_all add: outs_def)

lemma subscribed_simps [simp]:
  "subscribed sid u (with_tokens f sid' b) = subscribed sid u b"
  "subscribed sid u (refill cfg now sid' b) = subscribed sid u b"
  "subscribed sid u (b \<lparr> br_pending := x \<rparr>) = subscribed sid u b"
  "subscribed sid u (b \<lparr> br_tapped := y \<rparr>) = subscribed sid u b"
  by (simp_all add: subscribed_def)

lemma outs_flush_other: "sid' \<noteq> sid \<Longrightarrow> outs sid u (flush_pending cfg sid' b) = outs sid u b"
  by (simp add: flush_pending_def outs_deliver_other split: option.split)

lemma outs_publish_other: "sid' \<noteq> sid \<Longrightarrow> outs sid u (publish cfg env sid' ev b) = outs sid u b"
  by (simp add: publish_def publish_update_def refill_and_flush_def Let_def outs_deliver_other
      outs_flush_other)

text \<open>The updates a publication of an update delivers.\<close>

lemma outs_refill_and_flush:
  assumes "broker_wf cfg b" and "subscribed sid u b" and "pending_ok b"
  obtains (unflushed) "outs sid u (refill_and_flush cfg now sid b) = outs sid u b"
      "refill_and_flush cfg now sid b = refill cfg now sid b"
  | (flushed) p where "outs sid u (refill_and_flush cfg now sid b) = outs sid u b @ [budgeted cfg (coalesced_event p)]"
      "is_message_update (pu_event p)" "available_tokens cfg sid (refill cfg now sid b) > 1"
      "refill_and_flush cfg now sid b = flush_pending cfg sid (refill cfg now sid b)"
      "jm_get (br_pending b) sid = Some p"
proof -
  let ?r = "refill cfg now sid b"
  have r: "broker_wf cfg ?r" "subscribed sid u ?r" "outs sid u ?r = outs sid u b"
    using assms by (simp_all add: refill_wf)
  show thesis
  proof (cases "jm_has (br_pending ?r) sid \<and> available_tokens cfg sid ?r > 1")
    case True
    then obtain p where p: "jm_get (br_pending b) sid = Some p" by (auto simp: jm_has_def)
    show thesis
      using True p r outs_flush_pending [OF r(1,2)] pending_ok_get [OF assms(3) p]
      by (intro flushed [of p]) (simp_all add: refill_and_flush_def Let_def)
  next
    case False
    show thesis
      using False r by (intro unflushed) (auto simp: refill_and_flush_def Let_def)
  qed
qed

lemma outs_publish_update:
  assumes "broker_wf cfg b" and "config_ok cfg" and "subscribed sid u b" and "pending_ok b"
    and "is_message_update ev"
  shows "filter (\<lambda>e. \<not> is_message_update e) (outs sid u (publish_update cfg now sid ev b))
    = filter (\<lambda>e. \<not> is_message_update e) (outs sid u b)"
proof -
  let ?r = "refill_and_flush cfg now sid b"
  have r: "broker_wf cfg ?r" "subscribed sid u ?r"
    using assms refill_and_flush_wf by (simp_all add: subscribed_def refill_and_flush_subs)
  have eq: "filter (\<lambda>e. \<not> is_message_update e) (outs sid u ?r)
      = filter (\<lambda>e. \<not> is_message_update e) (outs sid u b)"
    by (rule outs_refill_and_flush [OF assms(1,3,4), of now]) simp_all
  have w: "broker_wf cfg (with_tokens (\<lambda>t. t - 1) sid ?r)" using r by (simp add: with_tokens_wf)
  with eq assms(5) show ?thesis
    by (simp add: publish_update_def Let_def outs_deliver)
qed

lemma outs_publish:
  assumes "broker_wf cfg b" and "config_ok cfg" and "subscribed sid u b" and "pending_ok b"
  shows "filter (\<lambda>e. \<not> is_message_update e) (outs sid u (publish cfg env sid ev b)) =
    filter (\<lambda>e. \<not> is_message_update e)
      (outs sid u b @ (if pe_disposed env then [] else [budgeted cfg (enriched env ev)]))"
proof -
  let ?b = "b \<lparr> br_tapped := br_tapped b @ [(sid, enriched env ev)] \<rparr>"
  have b: "broker_wf cfg ?b" "subscribed sid u ?b" "pending_ok ?b" "outs sid u ?b = outs sid u b"
    using assms by (simp_all add: pending_ok_def)
  have "subscribed sid u (flush_pending cfg sid ?b)" "broker_wf cfg (flush_pending cfg sid ?b)"
    using b assms by (simp_all add: subscribed_def flush_pending_frame flush_pending_wf)
  then have "outs sid u (deliver cfg sid e (flush_pending cfg sid ?b))
      = outs sid u (flush_pending cfg sid ?b) @ [budgeted cfg e]" for e
    by (simp add: outs_deliver)
  moreover have "filter (\<lambda>e. \<not> is_message_update e) (outs sid u (flush_pending cfg sid ?b))
      = filter (\<lambda>e. \<not> is_message_update e) (outs sid u b)"
    using outs_flush_pending [OF b(1,2)] pending_ok_get [OF b(3)] b(4) by (auto split: option.split)
  ultimately show ?thesis
    using outs_publish_update [OF b(1) assms(2) b(2,3)] b(4)
    by (auto simp: publish_def Let_def)
qed

lemma outs_publish_all:
  assumes "broker_wf cfg b" and "config_ok cfg" and "subscribed sid u b" and "pending_ok b"
  shows "filter (\<lambda>e. \<not> is_message_update e) (outs sid u (publish_all cfg items b)) =
    filter (\<lambda>e. \<not> is_message_update e) (outs sid u b)
    @ map (budgeted cfg) (filter (\<lambda>e. \<not> is_message_update e) (accepted_for sid items))"
  using assms
proof (induction items arbitrary: b)
  case (Cons item items)
  obtain env s ev where item: "item = (env, s, ev)" by (cases item)
  let ?b = "publish cfg env s ev b"
  have "broker_wf cfg ?b" "subscribed sid u ?b" "pending_ok ?b"
    using Cons.prems by (simp_all add: publish_wf subscribed_def publish_subs publish_pending)
  from Cons.IH [OF this(1) Cons.prems(2) this(2,3)] show ?case
    using outs_publish [OF Cons.prems, of env ev] outs_publish_other [of s sid u cfg env ev b] item
    by (cases "s = sid") auto
qed simp

subsection \<open>The rate limit\<close>

lemma available_tokens_refill:
  "jm_get (br_rateStates (refill cfg now sid b)) sid
     = Some \<lparr> rs_tokens = available_tokens cfg sid (refill cfg now sid b), rs_lastMs = now \<rparr>"
  by (simp add: refill_def Let_def available_tokens_def)

lemma rate_state_with_tokens:
  "jm_get (br_rateStates b) sid = Some st \<Longrightarrow>
     jm_get (br_rateStates (with_tokens f sid b)) sid = Some (st \<lparr> rs_tokens := f (rs_tokens st) \<rparr>)"
  by (simp add: with_tokens_def)

lemma refill_tokens_le_burst: "available_tokens cfg sid (refill cfg now sid b) \<le> bc_rateBurst cfg"
  by (simp add: refill_def Let_def available_tokens_def)

lemma refill_tokens:
  assumes "jm_get (br_rateStates b) sid = Some \<lparr> rs_tokens = t, rs_lastMs = t0 \<rparr>"
    and "config_ok cfg" and "0 \<le> t" and "t0 \<le> now"
  shows "available_tokens cfg sid (refill cfg now sid b) \<le> t + of_int (now - t0) * bc_rateLimit cfg / 1000"
    and "0 \<le> available_tokens cfg sid (refill cfg now sid b)"
  using assms by (simp_all add: refill_def Let_def available_tokens_def config_ok_def)

lemma rate_state_flush:
  assumes "jm_has (br_subscribers b) sid" and "jm_get (br_rateStates b) sid = Some st"
    and "jm_get (br_pending b) sid = Some p"
  shows "jm_get (br_rateStates (flush_pending cfg sid b)) sid
    = Some (st \<lparr> rs_tokens := max 0 (rs_tokens st - 1) \<rparr>)"
  using assms deliver_hot [of "with_tokens (\<lambda>t. max 0 (t - 1)) sid
      (b \<lparr> br_pending := jm_del sid (br_pending b) \<rparr>)" sid cfg sid "coalesced_event p"]
  by (simp add: flush_pending_def rate_state_with_tokens)

text \<open>Tokens pay for deliveries: what a publication of an update delivers is exactly what it
  takes from the refilled bucket.\<close>

lemma flush_balance:
  assumes "broker_wf cfg b" and "subscribed sid u b" and "pending_ok b"
  shows "\<exists>t. jm_get (br_rateStates (refill_and_flush cfg now sid b)) sid
        = Some \<lparr> rs_tokens = t, rs_lastMs = now \<rparr>
    \<and> of_nat (length (outs sid u (refill_and_flush cfg now sid b))) + t
        = of_nat (length (outs sid u b)) + available_tokens cfg sid (refill cfg now sid b)
    \<and> (0 \<le> available_tokens cfg sid (refill cfg now sid b) \<longrightarrow> 0 \<le> t)"
proof -
  let ?r = "refill cfg now sid b"
  show ?thesis
    using assms
  proof (cases rule: outs_refill_and_flush [where now = now])
    case unflushed
    then show ?thesis using available_tokens_refill [of cfg now sid b] by simp
  next
    case (flushed p)
    have "jm_get (br_rateStates (flush_pending cfg sid ?r)) sid
        = Some \<lparr> rs_tokens = available_tokens cfg sid ?r - 1, rs_lastMs = now \<rparr>"
      using rate_state_flush [of ?r sid "\<lparr> rs_tokens = available_tokens cfg sid ?r, rs_lastMs = now \<rparr>"
          p cfg] available_tokens_refill [of cfg now sid b]
        subscribed_has [OF assms(2)] flushed by simp
    with flushed show ?thesis by simp
  qed
qed

lemma publish_update_balance:
  assumes "broker_wf cfg b" and "config_ok cfg" and "subscribed sid u b" and "pending_ok b"
  shows "\<exists>t. jm_get (br_rateStates (publish_update cfg now sid ev b)) sid
        = Some \<lparr> rs_tokens = t, rs_lastMs = now \<rparr>
    \<and> of_nat (length (outs sid u (publish_update cfg now sid ev b))) + t
        = of_nat (length (outs sid u b)) + available_tokens cfg sid (refill cfg now sid b)
    \<and> (0 \<le> available_tokens cfg sid (refill cfg now sid b) \<longrightarrow> 0 \<le> t)"
proof -
  let ?r = "refill_and_flush cfg now sid b"
  let ?w = "with_tokens (\<lambda>t. t - 1) sid ?r"
  obtain t where t: "jm_get (br_rateStates ?r) sid = Some \<lparr> rs_tokens = t, rs_lastMs = now \<rparr>"
    "of_nat (length (outs sid u ?r)) + t
        = of_nat (length (outs sid u b)) + available_tokens cfg sid (refill cfg now sid b)"
    "0 \<le> available_tokens cfg sid (refill cfg now sid b) \<longrightarrow> 0 \<le> t"
    using flush_balance [OF assms(1,3,4), of now] by blast
  have r: "broker_wf cfg ?r" "subscribed sid u ?r"
    using assms refill_and_flush_wf by (simp_all add: subscribed_def refill_and_flush_subs)
  have av: "available_tokens cfg sid ?r = t" using t by (simp add: available_tokens_def)
  show ?thesis
  proof (cases "t \<le> 1")
    case True
    with t av show ?thesis by (simp add: publish_update_def Let_def)
  next
    case False
    have "jm_get (br_rateStates ?w) sid = Some \<lparr> rs_tokens = t - 1, rs_lastMs = now \<rparr>"
      using rate_state_with_tokens [OF t(1), of "\<lambda>t. t - 1"] by simp
    moreover have "jm_has (br_subscribers ?w) sid" using subscribed_has [OF r(2)] by simp
    ultimately have "jm_get (br_rateStates (deliver cfg sid ev ?w)) sid
        = Some \<lparr> rs_tokens = t - 1, rs_lastMs = now \<rparr>"
      using deliver_hot by metis
    moreover have "outs sid u (deliver cfg sid ev ?w) = outs sid u ?r @ [budgeted cfg ev]"
      using r by (simp add: outs_deliver with_tokens_wf)
    ultimately show ?thesis
      using False t av by (simp add: publish_update_def Let_def)
  qed
qed

lemma publish_balance:
  assumes "broker_wf cfg b" and "config_ok cfg" and "subscribed sid u b" and "pending_ok b"
    and "\<not> pe_disposed env" and "is_message_update (enriched env ev)"
  shows "\<exists>t. jm_get (br_rateStates (publish cfg env sid ev b)) sid
        = Some \<lparr> rs_tokens = t, rs_lastMs = pe_now env \<rparr>
    \<and> of_nat (length (outs sid u (publish cfg env sid ev b))) + t
        = of_nat (length (outs sid u b)) + available_tokens cfg sid (refill cfg (pe_now env) sid b)
    \<and> (0 \<le> available_tokens cfg sid (refill cfg (pe_now env) sid b) \<longrightarrow> 0 \<le> t)"
proof -
  let ?b = "b \<lparr> br_tapped := br_tapped b @ [(sid, enriched env ev)] \<rparr>"
  define e where "e = (if is_message_update (enriched env ev) \<and> pe_shedding env
    then shed_message_update (enriched env ev) else enriched env ev)"
  have e: "is_message_update e" using assms(6) by (simp add: e_def)
  have eq: "publish cfg env sid ev b = publish_update cfg (pe_now env) sid e ?b"
    using assms(5) e by (simp add: publish_def Let_def e_def)
  have "available_tokens cfg sid (refill cfg now sid ?b) = available_tokens cfg sid (refill cfg now sid b)"
    for now by (simp add: refill_def Let_def available_tokens_def)
  then show ?thesis
    unfolding eq
    using publish_update_balance [of cfg ?b sid u "pe_now env" e] assms by (simp add: pending_ok_def)
qed

text \<open>A run of updates: the tokens left never exceed what the bucket held after the first refill
  plus what flowed in since.\<close>

lemma update_run_bound:
  assumes "broker_wf cfg b" and "config_ok cfg" and "subscribed sid u b" and "pending_ok b"
    and "jm_get (br_rateStates b) sid = Some \<lparr> rs_tokens = t, rs_lastMs = t0 \<rparr>" and "0 \<le> t"
    and "list_all (\<lambda>(env, ev). \<not> pe_disposed env \<and> is_message_update (enriched env ev)) evs"
    and "sorted (t0 # map (\<lambda>x. pe_now (fst x)) evs)"
  shows "of_nat (length (outs sid u (publish_all cfg (map (\<lambda>(env, ev). (env, sid, ev)) evs) b)))
    \<le> of_nat (length (outs sid u b)) + t
        + of_int (last (t0 # map (\<lambda>x. pe_now (fst x)) evs) - t0) * bc_rateLimit cfg / 1000"
  using assms
proof (induction evs arbitrary: b t t0)
  case Nil
  then show ?case by simp
next
  case (Cons e evs)
  obtain env ev where e: "e = (env, ev)" by (cases e)
  let ?b = "publish cfg env sid ev b"
  have env: "\<not> pe_disposed env" "is_message_update (enriched env ev)" "t0 \<le> pe_now env"
    using Cons.prems(7,8) e by simp_all
  obtain t' where t': "jm_get (br_rateStates ?b) sid = Some \<lparr> rs_tokens = t', rs_lastMs = pe_now env \<rparr>"
    "of_nat (length (outs sid u ?b)) + t'
        = of_nat (length (outs sid u b)) + available_tokens cfg sid (refill cfg (pe_now env) sid b)"
    "0 \<le> t'"
    using publish_balance [OF Cons.prems(1-4) env(1,2)]
      refill_tokens(2) [OF Cons.prems(5,2,6) env(3)] by blast
  have "broker_wf cfg ?b" "subscribed sid u ?b" "pending_ok ?b"
    using Cons.prems by (simp_all add: publish_wf subscribed_def publish_subs publish_pending)
  note IH = Cons.IH [OF this(1) Cons.prems(2) this(2,3) t'(1,3)]
  have "sorted (pe_now env # map (\<lambda>x. pe_now (fst x)) evs)" using Cons.prems(8) e by simp
  with IH Cons.prems(7) e have "of_nat (length (outs sid u
      (publish_all cfg (map (\<lambda>(env, ev). (env, sid, ev)) evs) ?b)))
    \<le> of_nat (length (outs sid u ?b)) + t' + of_int (last (pe_now env # map (\<lambda>x. pe_now (fst x)) evs)
        - pe_now env) * bc_rateLimit cfg / 1000"
    by simp
  also have "\<dots> \<le> of_nat (length (outs sid u b)) + t
      + of_int (pe_now env - t0) * bc_rateLimit cfg / 1000
      + of_int (last (pe_now env # map (\<lambda>x. pe_now (fst x)) evs) - pe_now env) * bc_rateLimit cfg / 1000"
    using t'(2) refill_tokens(1) [OF Cons.prems(5,2,6) env(3)] by simp
  finally show ?case using e by (simp add: field_simps split: if_splits)
qed

subsection \<open>Properties\<close>

text \<open>C4: after any sequence of broker operations the running counter of retained bytes equals
  the bytes really held (the leak of the 2026-09-12 stall cannot recur), every session's buffer
  is within its two bounds, and the map of eviction markers is bounded.\<close>

theorem broker_retained_tracks_actual:
  "(let cfg = broker_config_of p r opts; b = broker_run cfg ops in
     br_retained b = retained_actual b
     \<and> jm_all (\<lambda>buf. length buf \<le> bc_replayBufferSize cfg
          \<and> buffer_bytes buf \<le> bc_replayBufferMaxBytes cfg) (br_replayBuffers b)
     \<and> length (br_evicted b) \<le> max (bc_coldKeyLimit cfg) 1000)"
  using broker_run_wf [OF config_ok_of, of p r opts ops]
  by (simp add: Let_def broker_wf_def buffer_ok_def jm_all_values)

text \<open>delivering an event leaves the retained history within the global byte budget and the
  number of subscriber-less sessions holding history within its limit, in every reachable state
  whose history is small enough for the guard of the eviction loops (buffers and buffered events
  together at most 9,998).\<close>

theorem deliver_enforces_global_bounds:
  assumes "cfg = broker_config_of p r opts"
    and "bc_replayBufferSize cfg > 0 \<or> bc_replayBufferMaxBytes cfg > 0"
    and "weight (br_replayBuffers (broker_run cfg ops)) + 2 \<le> guard_limit"
  shows "br_retained (deliver cfg sid ev (broker_run cfg ops)) \<le> bc_replayBudgetMaxBytes cfg
    \<and> cold_key_count (deliver cfg sid ev (broker_run cfg ops)) \<le> bc_coldKeyLimit cfg"
proof -
  let ?b = "broker_run cfg ops"
  have ok: "config_ok cfg" "broker_wf cfg ?b" using assms(1) config_ok_of broker_run_wf by blast+
  have main: "br_retained (enforce_global_bounds cfg (retain_event cfg sid e n b'))
      \<le> bc_replayBudgetMaxBytes cfg
    \<and> cold_key_count (enforce_global_bounds cfg (retain_event cfg sid e n b')) \<le> bc_coldKeyLimit cfg"
    if "broker_wf cfg b'" "br_replayBuffers b' = br_replayBuffers ?b" "0 \<le> n" for b' e n
  proof (rule enforce_global_bounds_bound)
    show "broker_wf cfg (retain_event cfg sid e n b')" using that ok by (simp add: retain_event_wf)
    show "weight (br_replayBuffers (retain_event cfg sid e n b')) \<le> guard_limit"
      using retain_event_weight [of cfg sid e n b'] that assms(3) by simp
  qed (rule ok)
  show ?thesis
    using main [of ?b] main [of "?b \<lparr> br_warned := js_add sid (br_warned ?b) \<rparr>"] ok assms(2)
    by (simp add: deliver_def Let_def cold_key_count_def)
qed

definition sample_config :: broker_config where
  "sample_config = broker_config_of 1000 10
     \<lparr> bo_replayBufferSize = Some 3, bo_replayBufferMaxBytes = Some 500,
       bo_replayBudgetMaxBytes = None, bo_coldKeyLimit = Some 2,
       bo_eventPayloadMaxBytes = None, bo_eventRateLimitPerSec = None \<rparr>"

definition sample_env :: "int \<Rightarrow> publish_env" where
  "sample_env now = \<lparr> pe_now = now, pe_shedding = False, pe_disposed = False, pe_enrich = Some \<rparr>"

theorem deliver_enforces_global_bounds_witness:
  "cold_key_count (deliver sample_config ''s'' sample_update
      (broker_run sample_config [Subscribe False ''s'' ''u'' True])) \<le> bc_coldKeyLimit sample_config"
  by (rule deliver_enforces_global_bounds [THEN conjunct2, OF sample_config_def])
    (simp_all add: sample_config_def broker_config_of_def Let_def broker_run_def subscribe_def
      broker_init_def guard_limit_def)

text \<open>C31: coalescing and shedding never lose or reorder anything but message updates: whatever
  is published to a session and to others, a subscriber of the session is called with exactly
  the non-update events accepted for its session, each once, in the order of publication.\<close>

theorem non_updates_delivered_in_order:
  assumes "cfg = broker_config_of p r opts" and "subscribed sid u (broker_run cfg ops)"
  shows "filter (\<lambda>e. \<not> is_message_update e)
           (outs sid u (publish_all cfg items (broker_run cfg ops))) =
         filter (\<lambda>e. \<not> is_message_update e) (outs sid u (broker_run cfg ops))
         @ map (budgeted cfg) (filter (\<lambda>e. \<not> is_message_update e) (accepted_for sid items))"
proof -
  have "config_ok cfg" using assms(1) config_ok_of by simp
  with outs_publish_all [OF broker_run_wf this assms(2) broker_run_pending] show ?thesis by simp
qed

theorem non_updates_delivered_in_order_witness:
  "filter (\<lambda>e. \<not> is_message_update e)
     (outs ''s'' ''u'' (publish_all sample_config
        [(sample_env 0, ''s'', sample_update), (sample_env 1, ''t'', []), (sample_env 2, ''s'', [])]
        (broker_run sample_config [Subscribe False ''s'' ''u'' True])))
   = filter (\<lambda>e. \<not> is_message_update e)
       (outs ''s'' ''u'' (broker_run sample_config [Subscribe False ''s'' ''u'' True]))
     @ map (budgeted sample_config) (filter (\<lambda>e. \<not> is_message_update e)
        (accepted_for ''s'' [(sample_env 0, ''s'', sample_update), (sample_env 1, ''t'', []),
           (sample_env 2, ''s'', [])]))"
  by (rule non_updates_delivered_in_order [OF sample_config_def])
    (simp add: broker_run_def subscribe_def broker_init_def subscribed_def)

text \<open>an event that is not an update is delivered only after the update that was held back
  for its session, which carries the count of those it replaced; afterwards nothing is held
  back for the session.\<close>

theorem pending_update_flushed_first:
  assumes "cfg = broker_config_of p r opts" and "subscribed sid u (broker_run cfg ops)"
    and "\<not> pe_disposed env" and "\<not> is_message_update (enriched env ev)"
    and "jm_get (br_pending (broker_run cfg ops)) sid = Some held"
  shows "outs sid u (publish cfg env sid ev (broker_run cfg ops)) =
           outs sid u (broker_run cfg ops)
           @ [budgeted cfg (coalesced_event held), budgeted cfg (enriched env ev)]
       \<and> jm_get (br_pending (publish cfg env sid ev (broker_run cfg ops))) sid = None"
proof -
  let ?b = "broker_run cfg ops"
  let ?t = "?b \<lparr> br_tapped := br_tapped ?b @ [(sid, enriched env ev)] \<rparr>"
  let ?f = "flush_pending cfg sid ?t"
  have cfg: "config_ok cfg" using assms(1) config_ok_of by simp
  have t: "broker_wf cfg ?t" "subscribed sid u ?t" using broker_run_wf [OF cfg] assms(2) by simp_all
  have f: "broker_wf cfg ?f" "subscribed sid u ?f"
    using t cfg by (simp_all add: flush_pending_wf subscribed_def flush_pending_frame)
  have "publish cfg env sid ev ?b = deliver cfg sid (enriched env ev) ?f"
    using assms(3,4) by (simp add: publish_def Let_def)
  moreover have "jm_get (br_pending (deliver cfg sid (enriched env ev) ?f)) sid = None"
    using deliver_hot [OF subscribed_has [OF f(2)]] flush_pending_empty [OF t(2)] by metis
  ultimately show ?thesis
    using outs_deliver [OF f(1)] outs_flush_pending [OF t] f(2) assms(5) by simp
qed

definition tight_config :: broker_config where
  "tight_config = broker_config_of 0 1
     \<lparr> bo_replayBufferSize = Some 0, bo_replayBufferMaxBytes = Some 0,
       bo_replayBudgetMaxBytes = None, bo_coldKeyLimit = None,
       bo_eventPayloadMaxBytes = None, bo_eventRateLimitPerSec = None \<rparr>"

definition tight_ops :: "broker_op list" where
  "tight_ops = [Subscribe False ''s'' ''u'' True, Publish (sample_env 0) ''s'' sample_update,
     Publish (sample_env 0) ''s'' sample_update]"

lemma tight_run:
  "jm_get (br_pending (broker_run tight_config tight_ops)) ''s''
     = Some \<lparr> pu_event = sample_update, pu_coalesced = 0 \<rparr>
   \<and> subscribed ''s'' ''u'' (broker_run tight_config tight_ops)"
  by (simp add: broker_run_def tight_ops_def tight_config_def broker_config_of_def Let_def
      subscribe_def broker_init_def publish_def enriched_def sample_env_def sample_update_type
      publish_update_def refill_and_flush_def refill_def available_tokens_def with_tokens_def
      deliver_def measure_and_slim_def jm_has_def subscribed_def del: stringify.simps)

theorem pending_update_flushed_first_witness:
  "jm_get (br_pending (publish tight_config (sample_env 2) ''s'' [] (broker_run tight_config tight_ops)))
     ''s'' = None"
  by (rule pending_update_flushed_first
      [THEN conjunct2, OF tight_config_def tight_run [THEN conjunct2] _ _ tight_run [THEN conjunct1]])
    (simp_all add: sample_env_def enriched_def is_message_update_def prop_of_def)

text \<open>the rate limit. During a run of updates on a subscribed session whose bucket is not yet
  in use, with a clock that does not go back, the updates delivered number at most the burst
  (two seconds' worth) plus the rate times the time elapsed.\<close>

theorem update_rate_bounded:
  assumes "cfg = broker_config_of p r opts" and "subscribed sid u (broker_run cfg ops)"
    and "jm_get (br_rateStates (broker_run cfg ops)) sid = None"
    and "list_all (\<lambda>(env, ev). \<not> pe_disposed env \<and> is_message_update (enriched env ev)) (e # evs)"
    and "sorted (map (\<lambda>x. pe_now (fst x)) (e # evs))"
  shows "of_nat (length (outs sid u
            (publish_all cfg (map (\<lambda>(env, ev). (env, sid, ev)) (e # evs)) (broker_run cfg ops))))
       \<le> of_nat (length (outs sid u (broker_run cfg ops))) + bc_rateBurst cfg
           + of_int (pe_now (fst (last (e # evs))) - pe_now (fst e)) * bc_rateLimit cfg / 1000"
proof -
  let ?b = "broker_run cfg ops"
  obtain env ev where e: "e = (env, ev)" by (cases e)
  have cfg: "config_ok cfg" using assms(1) config_ok_of by simp
  let ?p = "publish cfg env sid ev ?b"
  have av: "available_tokens cfg sid (refill cfg (pe_now env) sid ?b) = bc_rateBurst cfg"
    using assms(3) by (simp add: refill_def Let_def available_tokens_def)
  have "0 \<le> bc_rateBurst cfg" using cfg by (simp add: config_ok_def)
  then obtain t where t: "jm_get (br_rateStates ?p) sid = Some \<lparr> rs_tokens = t, rs_lastMs = pe_now env \<rparr>"
    "of_nat (length (outs sid u ?p)) + t = of_nat (length (outs sid u ?b)) + bc_rateBurst cfg" "0 \<le> t"
    using publish_balance [OF broker_run_wf [OF cfg] cfg assms(2) broker_run_pending, of env ev]
      assms(4) e av by auto
  have "broker_wf cfg ?p" "subscribed sid u ?p" "pending_ok ?p"
    using cfg assms(2) by (simp_all add: publish_wf broker_run_wf subscribed_def publish_subs
        publish_pending broker_run_pending)
  note run = update_run_bound [OF this(1) cfg this(2,3) t(1,3), of evs]
  have "last (pe_now env # map (\<lambda>x. pe_now (fst x)) evs) = pe_now (fst (last (e # evs)))"
    using e by (simp add: last_map)
  then show ?thesis using run assms(4,5) e t(2) by simp
qed

theorem update_rate_bounded_witness:
  "of_nat (length (outs ''s'' ''u''
      (publish_all sample_config
        (map (\<lambda>(env, ev). (env, ''s'', ev)) [(sample_env 0, sample_update), (sample_env 500, sample_update)])
        (broker_run sample_config [Subscribe False ''s'' ''u'' True]))))
   \<le> of_nat (length (outs ''s'' ''u'' (broker_run sample_config [Subscribe False ''s'' ''u'' True])))
      + bc_rateBurst sample_config
      + of_int (pe_now (fst (last [(sample_env 0, sample_update), (sample_env 500, sample_update)]))
          - pe_now (fst (sample_env 0, sample_update))) * bc_rateLimit sample_config / 1000"
  by (rule update_rate_bounded [OF sample_config_def])
    (simp_all add: broker_run_def subscribe_def broker_init_def subscribed_def sample_env_def
      enriched_def sample_update_type)

end
