(* ===== verification/Admission.thy ===== *)
theory Admission
  imports Json_Model
begin

text \<open>
  The execution arbiter: \<open>internal-api/admission-controller.ts\<close>.

  \<open>resolve_config\<close> is the resolution of the options, \<open>admission\<close> the mutable state of the
  controller (turn counters, hysteresis latches, the drain flag) together with the leases it
  has handed out: the \<open>released\<close> flag each release closure captures is the third component of
  the lease, and \<open>release n\<close> calls the closure of the \<open>n\<close>-th lease. Every external reader
  (cgroup memory, PIDs, host, V8 heap, clock, validation override, quarantine view) is a field
  of \<open>readings\<close>, the values one operation sees; a heap reader that throws is \<open>None\<close>. A memory or PID
  reader that throws, whose error \<open>acquire\<close> and \<open>snapshot\<close> let through, has no case here.

  Counts, bytes and milliseconds are integers; the heap fractions are rationals. The reserve
  options are finite numbers (a \<open>NaN\<close> reserve is not represented). The text of messages is
  left out, but the figures in a refusal's detail are kept. The validation-only pressure file
  and the cgroup readers are not modelled; what they return is an input.
\<close>

subsection \<open>Reasons, classes, runtimes\<close>

datatype refusal_reason =
    global_limit | runtime_limit | memory_pressure | pid_pressure | host_memory_pressure
  | heap_pressure | event_loop_lag | draining

datatype adm_class = P0 | P1 | P2 | P3

datatype session_runtime = RtPi | RtClaude | RtOpencode | RtAntigravity | RtCommandcode

definition slot_refusals :: "refusal_reason list" where
  "slot_refusals = [global_limit, runtime_limit]"

definition refusal_http_status :: "refusal_reason \<Rightarrow> nat" where
  "refusal_http_status reason = (if reason \<in> set slot_refusals then 429 else 503)"

definition control_classes :: "adm_class list" where
  "control_classes = [P0, P1]"

definition admission_classes :: "adm_class list" where
  "admission_classes = [P0, P1, P2, P3]"

definition runtimes :: "session_runtime list" where
  "runtimes = [RtPi, RtClaude, RtOpencode, RtAntigravity, RtCommandcode]"

record quarantine_debt =
  qd_runs :: int
  qd_oldestAgeMs :: "int option"

datatype refusal_detail =
    NoDetail
  | PidDetail int int int int
  | HeapDetail int int int
  | LagDetail "rat option" int int

record admission_error =
  ae_reason :: refusal_reason
  ae_retryAfter :: int
  ae_detail :: refusal_detail
  ae_quarantine :: "quarantine_debt option"

datatype refusal_label = Reason refusal_reason | QuarantinedDebt

record refusal_fields =
  rf_reason :: refusal_label
  rf_admissionReason :: "refusal_reason option"
  rf_quarantinedRuns :: "int option"
  rf_quarantinedOldestAgeMs :: "int option"

definition admission_refusal_fields :: "admission_error \<Rightarrow> refusal_fields" where
  "admission_refusal_fields err =
     (case ae_quarantine err of
        None \<Rightarrow> \<lparr> rf_reason = Reason (ae_reason err), rf_admissionReason = None,
                  rf_quarantinedRuns = None, rf_quarantinedOldestAgeMs = None \<rparr>
      | Some q \<Rightarrow> \<lparr> rf_reason = QuarantinedDebt, rf_admissionReason = Some (ae_reason err),
                    rf_quarantinedRuns = Some (qd_runs q),
                    rf_quarantinedOldestAgeMs = qd_oldestAgeMs q \<rparr>)"

subsection \<open>Configuration\<close>

record admission_options =
  ao_maxActiveTurns :: "js_num option"
  ao_interactiveReserve :: "rat option"
  ao_controlReserve :: "rat option"
  ao_memoryCriticalBytes :: "js_num option"
  ao_runtimeMaxActiveTurns :: "session_runtime \<Rightarrow> js_num option"
  ao_minimumHeadroomBytes :: "js_num option"
  ao_reservedBytesPerTurn :: "js_num option"
  ao_reservedPidsPerTurn :: "js_num option"
  ao_hostMinimumHeadroomBytes :: "js_num option"
  ao_retryAfterSeconds :: "js_num option"
  ao_heapPressureFraction :: "js_num option"
  ao_heapRecoveryFraction :: "js_num option"
  ao_reservedHeapBytesPerTurn :: "js_num option"
  ao_lagThresholdMs :: "js_num option"
  ao_lagRecoveryMs :: "js_num option"
  ao_lagSustainedReadings :: "js_num option"
  ao_lagReadingStaleMs :: "js_num option"
  ao_heapLagRetryAfterSeconds :: "js_num option"

definition positive_integer :: "js_num option \<Rightarrow> int \<Rightarrow> int" where
  "positive_integer v fallback =
     (case v of Some (Fin r) \<Rightarrow> if r > 0 then js_floor r else fallback | _ \<Rightarrow> fallback)"

definition fraction_of :: "js_num option \<Rightarrow> rat \<Rightarrow> rat" where
  "fraction_of v fallback =
     (case v of Some (Fin r) \<Rightarrow> if r > 0 \<and> r \<le> 1 then r else fallback | _ \<Rightarrow> fallback)"

text \<open>\<open>requested !== resolved\<close> for a knob that was set.\<close>

definition differs :: "js_num option \<Rightarrow> int \<Rightarrow> bool" where
  "differs v n \<longleftrightarrow> (case v of None \<Rightarrow> False | Some (Fin r) \<Rightarrow> r \<noteq> of_int n | Some NonFinite \<Rightarrow> True)"

text \<open>A warning names the knob and the value the message says is used.\<close>

datatype config_warning = LagThresholdWarning int | LagRecoveryWarning int | LagSustainedWarning int

record admission_config =
  ac_maxActiveTurns :: int
  ac_interactiveReserve :: int
  ac_apiTurnLimit :: int
  ac_controlReserve :: int
  ac_executionCapacity :: int
  ac_minimumHeadroomBytes :: int
  ac_memoryCriticalBytes :: int
  ac_reservedBytesPerTurn :: int
  ac_reservedPidsPerTurn :: int
  ac_hostMinimumHeadroomBytes :: int
  ac_retryAfterSeconds :: int
  ac_heapPressureFraction :: rat
  ac_heapRecoveryFraction :: rat
  ac_reservedHeapBytesPerTurn :: int
  ac_lagThresholdMs :: int
  ac_lagRecoveryMs :: int
  ac_lagSustainedReadings :: int
  ac_lagReadingStaleMs :: int
  ac_heapLagRetryAfterSeconds :: int
  ac_warnings :: "config_warning list"
  ac_usingDefaults :: bool
  ac_runtimeLimits :: "session_runtime \<Rightarrow> int"

definition mebibyte :: int where
  "mebibyte = 1024 * 1024"

definition reserve_of :: "rat option \<Rightarrow> rat \<Rightarrow> int \<Rightarrow> int" where
  "reserve_of v fallback maxTurns =
     min (max 0 (js_floor (case v of None \<Rightarrow> fallback | Some r \<Rightarrow> r))) (max 0 (maxTurns - 1))"

definition lag_recovery_of :: "js_num option \<Rightarrow> int \<Rightarrow> int \<times> config_warning list" where
  "lag_recovery_of v thresholdMs =
     (let derived = max 1 (thresholdMs div 2) in
      case v of
        None \<Rightarrow> (derived, [])
      | Some _ \<Rightarrow>
          (let requested = positive_integer v 0 in
           if requested > 0 \<and> \<not> differs v requested \<and> requested < thresholdMs
           then (requested, []) else (derived, [LagRecoveryWarning derived])))"

text \<open>\<open>resolveAdmissionConfig\<close>, with the runtime limits the constructor derives from it. The
  number of processors is an argument.\<close>

definition resolve_config :: "int \<Rightarrow> admission_options \<Rightarrow> admission_config" where
  "resolve_config cpus opts =
     (let maxTurns = positive_integer (ao_maxActiveTurns opts) (max 2 cpus);
          interactive = reserve_of (ao_interactiveReserve opts) 1 maxTurns;
          apiLimit = max 1 (maxTurns - interactive);
          control = reserve_of (ao_controlReserve opts) (of_int interactive) maxTurns;
          minHeadroom = positive_integer (ao_minimumHeadroomBytes opts) (512 * mebibyte);
          pressureFraction = fraction_of (ao_heapPressureFraction opts) (3 / 4);
          threshold = positive_integer (ao_lagThresholdMs opts) 300;
          warn1 = (if differs (ao_lagThresholdMs opts) threshold then [LagThresholdWarning 300] else []);
          (recovery, warn2) = lag_recovery_of (ao_lagRecoveryMs opts) threshold;
          sustained = positive_integer (ao_lagSustainedReadings opts) 2;
          warn3 = (if differs (ao_lagSustainedReadings opts) sustained then [LagSustainedWarning 2] else [])
      in \<lparr> ac_maxActiveTurns = maxTurns,
           ac_interactiveReserve = interactive,
           ac_apiTurnLimit = apiLimit,
           ac_controlReserve = control,
           ac_executionCapacity = max 0 (maxTurns - control),
           ac_minimumHeadroomBytes = minHeadroom,
           ac_memoryCriticalBytes =
             positive_integer (ao_memoryCriticalBytes opts) (max 1 (minHeadroom div 4)),
           ac_reservedBytesPerTurn =
             positive_integer (ao_reservedBytesPerTurn opts) (512 * mebibyte),
           ac_reservedPidsPerTurn = positive_integer (ao_reservedPidsPerTurn opts) 96,
           ac_hostMinimumHeadroomBytes =
             positive_integer (ao_hostMinimumHeadroomBytes opts) (512 * mebibyte),
           ac_retryAfterSeconds = positive_integer (ao_retryAfterSeconds opts) 2,
           ac_heapPressureFraction = pressureFraction,
           ac_heapRecoveryFraction =
             min pressureFraction (fraction_of (ao_heapRecoveryFraction opts) (13 / 20)),
           ac_reservedHeapBytesPerTurn =
             positive_integer (ao_reservedHeapBytesPerTurn opts) (64 * mebibyte),
           ac_lagThresholdMs = threshold,
           ac_lagRecoveryMs = recovery,
           ac_lagSustainedReadings = sustained,
           ac_lagReadingStaleMs = positive_integer (ao_lagReadingStaleMs opts) 180000,
           ac_heapLagRetryAfterSeconds = positive_integer (ao_heapLagRetryAfterSeconds opts) 30,
           ac_warnings = warn1 @ warn2 @ warn3,
           ac_usingDefaults = (ao_maxActiveTurns opts = None),
           ac_runtimeLimits =
             (\<lambda>rt. positive_integer (ao_runtimeMaxActiveTurns opts rt) apiLimit) \<rparr>)"

subsection \<open>Production defaults\<close>

datatype safety_knob =
    KMaxActiveTurns | KInteractiveReserve | KMinimumHeadroomBytes | KReservedBytesPerTurn
  | KReservedPidsPerTurn | KHostMinimumHeadroomBytes

definition safety_knobs :: "safety_knob list" where
  "safety_knobs = [KMaxActiveTurns, KInteractiveReserve, KMinimumHeadroomBytes,
     KReservedBytesPerTurn, KReservedPidsPerTurn, KHostMinimumHeadroomBytes]"

fun knob_explicit :: "admission_options \<Rightarrow> safety_knob \<Rightarrow> bool" where
  "knob_explicit opts KMaxActiveTurns = (ao_maxActiveTurns opts \<noteq> None)"
| "knob_explicit opts KInteractiveReserve = (ao_interactiveReserve opts \<noteq> None)"
| "knob_explicit opts KMinimumHeadroomBytes = (ao_minimumHeadroomBytes opts \<noteq> None)"
| "knob_explicit opts KReservedBytesPerTurn = (ao_reservedBytesPerTurn opts \<noteq> None)"
| "knob_explicit opts KReservedPidsPerTurn = (ao_reservedPidsPerTurn opts \<noteq> None)"
| "knob_explicit opts KHostMinimumHeadroomBytes = (ao_hostMinimumHeadroomBytes opts \<noteq> None)"

fun production_default :: "safety_knob \<Rightarrow> admission_options \<Rightarrow> admission_options" where
  "production_default KMaxActiveTurns opts = opts \<lparr> ao_maxActiveTurns := Some (Fin 6) \<rparr>"
| "production_default KInteractiveReserve opts = opts \<lparr> ao_interactiveReserve := Some 1 \<rparr>"
| "production_default KMinimumHeadroomBytes opts =
     opts \<lparr> ao_minimumHeadroomBytes := Some (Fin (of_int (1536 * mebibyte))) \<rparr>"
| "production_default KReservedBytesPerTurn opts =
     opts \<lparr> ao_reservedBytesPerTurn := Some (Fin (of_int (512 * mebibyte))) \<rparr>"
| "production_default KReservedPidsPerTurn opts = opts \<lparr> ao_reservedPidsPerTurn := Some (Fin 96) \<rparr>"
| "production_default KHostMinimumHeadroomBytes opts =
     opts \<lparr> ao_hostMinimumHeadroomBytes := Some (Fin (of_int (512 * mebibyte))) \<rparr>"

record startup_status =
  ss_resolved :: admission_config
  ss_options :: admission_options
  ss_explicitKnobs :: "safety_knob list"
  ss_prodFallbackKnobs :: "safety_knob list"
  ss_usingDefaults :: bool
  ss_warning :: "safety_knob list option"

definition startup_step ::
  "admission_options \<Rightarrow> bool \<Rightarrow> safety_knob \<Rightarrow>
     admission_options \<times> safety_knob list \<times> safety_knob list \<Rightarrow>
     admission_options \<times> safety_knob list \<times> safety_knob list" where
  "startup_step opts isProduction key acc =
     (case acc of (resolved, explicit, fallbacks) \<Rightarrow>
        if knob_explicit opts key then (resolved, explicit @ [key], fallbacks)
        else if isProduction then (production_default key resolved, explicit, fallbacks @ [key])
        else (resolved, explicit, fallbacks))"

definition admission_startup_status :: "int \<Rightarrow> bool \<Rightarrow> admission_options \<Rightarrow> startup_status" where
  "admission_startup_status cpus isProduction opts =
     (case fold (startup_step opts isProduction) safety_knobs (opts, [], []) of
        (resolvedOptions, explicit, fallbacks) \<Rightarrow>
          \<lparr> ss_resolved = resolve_config cpus resolvedOptions,
            ss_options = resolvedOptions,
            ss_explicitKnobs = explicit,
            ss_prodFallbackKnobs = fallbacks,
            ss_usingDefaults = (\<not> isProduction \<and> ao_maxActiveTurns opts = None),
            ss_warning = (if isProduction \<and> fallbacks \<noteq> [] then Some fallbacks else None) \<rparr>)"

subsection \<open>The controller\<close>

record memory_capacity =
  mc_currentBytes :: int
  mc_limitBytes :: int
  mc_highBytes :: "int option"

record pids_capacity =
  pc_current :: "int option"
  pc_max :: "int option"

record heap_reading =
  hr_usedBytes :: int
  hr_limitBytes :: int

record quarantine_view =
  qv_byRuntime :: "session_runtime \<Rightarrow> int option"
  qv_oldestAgeMs :: "int option"

text \<open>What the injected readers return while one operation runs.\<close>

record readings =
  rd_now :: int
  rd_memory :: memory_capacity
  rd_pids :: pids_capacity
  rd_hostAvailable :: "int option"
  rd_heap :: "heap_reading option"
  rd_overrideHeapUsed :: "int option"
  rd_overrideLag :: "js_num option"
  rd_quarantine :: "quarantine_view option"

datatype lag_source = A2 | ValidationOverride

record last_lag =
  ll_p99Ms :: rat
  ll_atMs :: int
  ll_source :: lag_source

record lag_reading =
  lr_p99Ms :: js_num
  lr_atMs :: int
  lr_sampleCount :: "int option"

record lease =
  le_runtime :: session_runtime
  le_class :: adm_class
  le_released :: bool

record admission =
  ad_activeTurns :: int
  ad_byRuntime :: "session_runtime \<Rightarrow> int"
  ad_byClass :: "adm_class \<Rightarrow> int"
  ad_heapLatched :: bool
  ad_lagLatched :: bool
  ad_lagHigh :: int
  ad_lastLag :: "last_lag option"
  ad_draining :: "(int \<times> jsstr) option"
  ad_leases :: "lease list"

definition admission_init :: admission where
  "admission_init = \<lparr> ad_activeTurns = 0, ad_byRuntime = (\<lambda>_. 0), ad_byClass = (\<lambda>_. 0),
     ad_heapLatched = False, ad_lagLatched = False, ad_lagHigh = 0, ad_lastLag = None,
     ad_draining = None, ad_leases = [] \<rparr>"

definition set_draining :: "(int \<times> jsstr) option \<Rightarrow> admission \<Rightarrow> admission" where
  "set_draining d a = a \<lparr> ad_draining := d \<rparr>"

definition get_draining :: "admission \<Rightarrow> (int \<times> jsstr) option" where
  "get_draining a = ad_draining a"

definition reset_lag :: "admission \<Rightarrow> admission" where
  "reset_lag a = a \<lparr> ad_lagLatched := False, ad_lagHigh := 0 \<rparr>"

definition observe_lag_reading ::
  "admission_config \<Rightarrow> js_num option \<Rightarrow> lag_reading \<Rightarrow> admission \<Rightarrow> admission" where
  "observe_lag_reading cfg override reading a =
     (if (case lr_sampleCount reading of None \<Rightarrow> False | Some n \<Rightarrow> n \<le> 0) then a
      else
        (case (case override of None \<Rightarrow> lr_p99Ms reading | Some v \<Rightarrow> v) of
           NonFinite \<Rightarrow> a
         | Fin p99 \<Rightarrow>
             (let a1 = (case ad_lastLag a of
                          None \<Rightarrow> a
                        | Some l \<Rightarrow> if lr_atMs reading - ll_atMs l > ac_lagReadingStaleMs cfg
                                   then reset_lag a else a);
                  high = (if p99 \<ge> of_int (ac_lagThresholdMs cfg) then ad_lagHigh a1 + 1 else 0);
                  latched = (if \<not> ad_lagLatched a1 \<and> high \<ge> ac_lagSustainedReadings cfg then True
                             else if ad_lagLatched a1 \<and> p99 < of_int (ac_lagRecoveryMs cfg) then False
                             else ad_lagLatched a1)
              in a1 \<lparr> ad_lastLag := Some \<lparr> ll_p99Ms = p99, ll_atMs = lr_atMs reading,
                        ll_source = (if override = None then A2 else ValidationOverride) \<rparr>,
                      ad_lagHigh := high, ad_lagLatched := latched \<rparr>)))"

text \<open>\<open>lagState\<close>: the pressure flag and the staleness flag; staleness clears the latch.\<close>

definition lag_state :: "admission_config \<Rightarrow> int \<Rightarrow> admission \<Rightarrow> (bool \<times> bool) \<times> admission" where
  "lag_state cfg now a =
     (let stale = (case ad_lastLag a of None \<Rightarrow> False
                   | Some l \<Rightarrow> now - ll_atMs l > ac_lagReadingStaleMs cfg);
          a' = (if stale then reset_lag a else a)
      in ((ad_lagLatched a', stale), a'))"

definition execution_active :: "admission \<Rightarrow> int" where
  "execution_active a = ad_byClass a P2 + ad_byClass a P3"

record heap_state =
  hs_usedBytes :: int
  hs_limitBytes :: int
  hs_projectedBytes :: int
  hs_pressureBytes :: int
  hs_recoveryBytes :: int
  hs_pressure :: bool
  hs_override :: bool

definition evaluate_heap :: "admission_config \<Rightarrow> readings \<Rightarrow> admission \<Rightarrow> heap_state \<times> admission" where
  "evaluate_heap cfg rd a =
     (let reading = (case rd_heap rd of None \<Rightarrow> \<lparr> hr_usedBytes = 0, hr_limitBytes = 0 \<rparr> | Some r \<Rightarrow> r);
          used = (case rd_overrideHeapUsed rd of None \<Rightarrow> hr_usedBytes reading | Some u \<Rightarrow> u);
          bytesLimit = (if hr_limitBytes reading > 0 then hr_limitBytes reading else 0);
          projected = used + (execution_active a + 1) * ac_reservedHeapBytesPerTurn cfg;
          pressure = js_floor (of_int bytesLimit * ac_heapPressureFraction cfg);
          recovery = js_floor (of_int bytesLimit * ac_heapRecoveryFraction cfg);
          latched = (if bytesLimit = 0 then False
                     else if \<not> ad_heapLatched a \<and> projected \<ge> pressure then True
                     else if ad_heapLatched a \<and> projected < recovery then False
                     else ad_heapLatched a)
      in (\<lparr> hs_usedBytes = used, hs_limitBytes = bytesLimit, hs_projectedBytes = projected,
            hs_pressureBytes = pressure, hs_recoveryBytes = recovery, hs_pressure = latched,
            hs_override = (rd_overrideHeapUsed rd \<noteq> None) \<rparr>,
          a \<lparr> ad_heapLatched := latched \<rparr>))"

record pressure =
  pr_headroomBytes :: int
  pr_projectedHeadroomBytes :: int
  pr_memoryPressure :: bool
  pr_memoryCritical :: bool
  pr_pidPressure :: bool
  pr_hostPressure :: "bool option"
  pr_heap :: heap_state
  pr_lagPressure :: bool
  pr_lagStale :: bool

definition high_pressure :: "memory_capacity \<Rightarrow> bool" where
  "high_pressure m \<longleftrightarrow> (case mc_highBytes m of None \<Rightarrow> False | Some h \<Rightarrow> mc_currentBytes m \<ge> h)"

definition evaluate_pressure :: "admission_config \<Rightarrow> readings \<Rightarrow> admission \<Rightarrow> pressure \<times> admission" where
  "evaluate_pressure cfg rd a0 =
     (let (heap, a1) = evaluate_heap cfg rd a0;
          ((lagPressure, lagStale), a) = lag_state cfg (rd_now rd) a1;
          mem = rd_memory rd;
          executionTurns = execution_active a;
          headroom = max 0 (mc_limitBytes mem - mc_currentBytes mem);
          projected = max 0 (headroom - (ad_activeTurns a + 1) * ac_reservedBytesPerTurn cfg)
      in (\<lparr> pr_headroomBytes = headroom,
            pr_projectedHeadroomBytes = projected,
            pr_memoryPressure = (projected < ac_minimumHeadroomBytes cfg \<or> high_pressure mem),
            pr_memoryCritical = (projected < ac_memoryCriticalBytes cfg),
            pr_pidPressure =
              (case (pc_max (rd_pids rd), pc_current (rd_pids rd)) of
                 (Some pidMax, Some cur) \<Rightarrow>
                   cur + (executionTurns + 1) * ac_reservedPidsPerTurn cfg \<ge> pidMax
               | _ \<Rightarrow> False),
            pr_hostPressure =
              map_option (\<lambda>avail. avail - (executionTurns + 1) * ac_reservedBytesPerTurn cfg
                                    < ac_hostMinimumHeadroomBytes cfg) (rd_hostAvailable rd),
            pr_heap = heap, pr_lagPressure = lagPressure, pr_lagStale = lagStale \<rparr>, a))"

definition refusal_reason_for ::
  "admission_config \<Rightarrow> session_runtime \<Rightarrow> adm_class \<Rightarrow> pressure \<Rightarrow> admission \<Rightarrow> refusal_reason option" where
  "refusal_reason_for cfg rt cls p a =
     (if cls \<in> set control_classes then
        (if pr_memoryCritical p then Some memory_pressure
         else if ad_activeTurns a \<ge> ac_maxActiveTurns cfg then Some global_limit
         else None)
      else
        (if ad_draining a \<noteq> None then Some draining
         else if pr_memoryPressure p then Some memory_pressure
         else if pr_hostPressure p = Some True then Some host_memory_pressure
         else if pr_pidPressure p then Some pid_pressure
         else if hs_pressure (pr_heap p) then Some heap_pressure
         else if pr_lagPressure p then Some event_loop_lag
         else if execution_active a \<ge> ac_executionCapacity cfg then Some global_limit
         else if ad_byRuntime a rt \<ge> ac_runtimeLimits cfg rt then Some runtime_limit
         else None))"

definition quarantine_attribution ::
  "admission_config \<Rightarrow> readings \<Rightarrow> refusal_reason \<Rightarrow> session_runtime \<Rightarrow> adm_class \<Rightarrow> admission
     \<Rightarrow> quarantine_debt option" where
  "quarantine_attribution cfg rd reason rt cls a =
     (case rd_quarantine rd of
        None \<Rightarrow> None
      | Some source \<Rightarrow>
          (let q = (\<lambda>r. max 0 (case qv_byRuntime source r of None \<Rightarrow> 0 | Some n \<Rightarrow> n));
               debt = sum_list (map q runtimes)
           in if debt \<le> 0 \<or> cls \<in> set control_classes then None
              else
                (let executionActive = execution_active a;
                     runtimeFree = (ad_byRuntime a rt - q rt < ac_runtimeLimits cfg rt);
                     mem = rd_memory rd;
                     projected = max 0 (max 0 (mc_limitBytes mem - mc_currentBytes mem)
                       - (max 0 (ad_activeTurns a - debt) + 1) * ac_reservedBytesPerTurn cfg);
                     clears =
                       (if reason = global_limit then
                          executionActive - debt < ac_executionCapacity cfg \<and> runtimeFree
                        else if reason = runtime_limit then q rt > 0 \<and> runtimeFree
                        else if reason = memory_pressure then
                          \<not> high_pressure mem \<and> projected \<ge> ac_minimumHeadroomBytes cfg
                          \<and> executionActive - debt < ac_executionCapacity cfg \<and> runtimeFree
                        else False)
                 in if clears
                    then Some \<lparr> qd_runs = debt, qd_oldestAgeMs = qv_oldestAgeMs source \<rparr>
                    else None)))"

definition refusal ::
  "admission_config \<Rightarrow> readings \<Rightarrow> refusal_reason \<Rightarrow> refusal_detail \<Rightarrow> session_runtime \<Rightarrow> adm_class
     \<Rightarrow> admission \<Rightarrow> admission_error" where
  "refusal cfg rd reason detail rt cls a =
     \<lparr> ae_reason = reason,
       ae_retryAfter = (if reason = heap_pressure \<or> reason = event_loop_lag
                        then ac_heapLagRetryAfterSeconds cfg else ac_retryAfterSeconds cfg),
       ae_detail = detail,
       ae_quarantine = quarantine_attribution cfg rd reason rt cls a \<rparr>"

definition assert_create_admissible ::
  "admission_config \<Rightarrow> readings \<Rightarrow> session_runtime \<Rightarrow> adm_class \<Rightarrow> admission
     \<Rightarrow> (admission_error + unit) \<times> admission" where
  "assert_create_admissible cfg rd rt cls a0 =
     (let (p, a) = evaluate_pressure cfg rd a0 in
      case refusal_reason_for cfg rt cls p a of
        None \<Rightarrow> (Inr (), a)
      | Some reason \<Rightarrow>
          if reason \<in> set slot_refusals then (Inr (), a)
          else (Inl (refusal cfg rd reason NoDetail rt cls a), a))"

definition acquire_detail :: "admission_config \<Rightarrow> readings \<Rightarrow> pressure \<Rightarrow> refusal_reason \<Rightarrow> admission \<Rightarrow> refusal_detail" where
  "acquire_detail cfg rd p reason a =
     (let reservedTasks = (execution_active a + 1) * ac_reservedPidsPerTurn cfg in
      if reason = pid_pressure then
        (case (pc_current (rd_pids rd), pc_max (rd_pids rd)) of
           (Some cur, Some pidMax) \<Rightarrow> PidDetail cur reservedTasks (cur + reservedTasks) pidMax
         | _ \<Rightarrow> NoDetail)
      else if reason = heap_pressure then
        HeapDetail (hs_projectedBytes (pr_heap p)) (hs_pressureBytes (pr_heap p))
          (hs_limitBytes (pr_heap p))
      else if reason = event_loop_lag then
        LagDetail (map_option ll_p99Ms (ad_lastLag a)) (ac_lagThresholdMs cfg) (ac_lagRecoveryMs cfg)
      else NoDetail)"

text \<open>A successful \<open>acquire\<close> returns the number of the lease.\<close>

definition acquire ::
  "admission_config \<Rightarrow> readings \<Rightarrow> session_runtime \<Rightarrow> adm_class \<Rightarrow> admission
     \<Rightarrow> (admission_error + nat) \<times> admission" where
  "acquire cfg rd rt cls a0 =
     (let (p, a) = evaluate_pressure cfg rd a0 in
      case refusal_reason_for cfg rt cls p a of
        Some reason \<Rightarrow> (Inl (refusal cfg rd reason (acquire_detail cfg rd p reason a) rt cls a), a)
      | None \<Rightarrow>
          (Inr (length (ad_leases a)),
           a \<lparr> ad_activeTurns := ad_activeTurns a + 1,
               ad_byRuntime := (ad_byRuntime a)(rt := ad_byRuntime a rt + 1),
               ad_byClass := (ad_byClass a)(cls := ad_byClass a cls + 1),
               ad_leases := ad_leases a @ [\<lparr> le_runtime = rt, le_class = cls, le_released = False \<rparr>] \<rparr>))"

definition release :: "nat \<Rightarrow> admission \<Rightarrow> admission" where
  "release n a =
     (if n < length (ad_leases a) \<and> \<not> le_released (ad_leases a ! n) then
        (let l = ad_leases a ! n; rt = le_runtime l; cls = le_class l in
         a \<lparr> ad_activeTurns := max 0 (ad_activeTurns a - 1),
             ad_byRuntime := (ad_byRuntime a)(rt := max 0 (ad_byRuntime a rt - 1)),
             ad_byClass := (ad_byClass a)(cls := max 0 (ad_byClass a cls - 1)),
             ad_leases := (ad_leases a)[n := l \<lparr> le_released := True \<rparr>] \<rparr>)
      else a)"

record active_counts =
  cn_activeTurns :: int
  cn_classes :: "(adm_class \<times> int) list"
  cn_runtimes :: "(session_runtime \<times> int) list"

definition active_counts_of :: "admission \<Rightarrow> active_counts" where
  "active_counts_of a =
     \<lparr> cn_activeTurns = ad_activeTurns a,
       cn_classes = map (\<lambda>c. (c, ad_byClass a c)) admission_classes,
       cn_runtimes = map (\<lambda>rt. (rt, ad_byRuntime a rt)) runtimes \<rparr>"

record admission_snapshot =
  sn_available :: bool
  sn_reason :: "refusal_reason option"
  sn_activeTurns :: int
  sn_maxActiveTurns :: int
  sn_interactiveReserve :: int
  sn_apiTurnLimit :: int
  sn_controlReserve :: int
  sn_executionCapacity :: int
  sn_classes :: "(adm_class \<times> int) list"
  sn_controlAvailable :: bool
  sn_emergencyMode :: bool
  sn_headroomBytes :: int
  sn_projectedHeadroomBytes :: int
  sn_pidPressure :: bool
  sn_hostPressure :: "bool option"
  sn_heap :: heap_state
  sn_lagHigh :: int
  sn_lagPressure :: bool
  sn_lagStale :: bool
  sn_lastLag :: "last_lag option"
  sn_draining :: "(int \<times> jsstr) option"
  sn_runtimes :: "(session_runtime \<times> int \<times> int) list"
  sn_retryAfterSeconds :: int

definition snapshot :: "admission_config \<Rightarrow> readings \<Rightarrow> admission \<Rightarrow> admission_snapshot \<times> admission" where
  "snapshot cfg rd a0 =
     (let (p, a) = evaluate_pressure cfg rd a0;
          refused = refusal_reason_for cfg RtPi P2 p a;
          reason = (if refused = Some runtime_limit then None else refused)
      in (\<lparr> sn_available = (reason = None), sn_reason = reason,
            sn_activeTurns = ad_activeTurns a,
            sn_maxActiveTurns = ac_maxActiveTurns cfg,
            sn_interactiveReserve = ac_interactiveReserve cfg,
            sn_apiTurnLimit = ac_apiTurnLimit cfg,
            sn_controlReserve = ac_controlReserve cfg,
            sn_executionCapacity = ac_executionCapacity cfg,
            sn_classes = map (\<lambda>c. (c, ad_byClass a c)) admission_classes,
            sn_controlAvailable = (\<not> pr_memoryCritical p),
            sn_emergencyMode = (pr_memoryPressure p \<and> \<not> pr_memoryCritical p),
            sn_headroomBytes = pr_headroomBytes p,
            sn_projectedHeadroomBytes = pr_projectedHeadroomBytes p,
            sn_pidPressure = pr_pidPressure p,
            sn_hostPressure = pr_hostPressure p,
            sn_heap = pr_heap p,
            sn_lagHigh = ad_lagHigh a,
            sn_lagPressure = pr_lagPressure p,
            sn_lagStale = pr_lagStale p,
            sn_lastLag = ad_lastLag a,
            sn_draining = ad_draining a,
            sn_runtimes = map (\<lambda>rt. (rt, ad_byRuntime a rt, ac_runtimeLimits cfg rt)) runtimes,
            sn_retryAfterSeconds = ac_retryAfterSeconds cfg \<rparr>, a))"

subsection \<open>Turn accounting\<close>

definition live :: "admission \<Rightarrow> (lease \<Rightarrow> bool) \<Rightarrow> int" where
  "live a P = int (length (filter (\<lambda>l. \<not> le_released l \<and> P l) (ad_leases a)))"

definition accounted :: "admission \<Rightarrow> bool" where
  "accounted a \<longleftrightarrow> ad_activeTurns a = live a (\<lambda>_. True)
     \<and> (\<forall>rt. ad_byRuntime a rt = live a (\<lambda>l. le_runtime l = rt))
     \<and> (\<forall>c. ad_byClass a c = live a (\<lambda>l. le_class l = c))"

lemma live_nonneg [simp]: "0 \<le> live a P"
  by (simp add: live_def)

lemma live_frame: "ad_leases a' = ad_leases a \<Longrightarrow> live a' P = live a P"
  by (simp add: live_def)

lemma live_append:
  "live (a \<lparr> ad_leases := ad_leases a @ [l] \<rparr>) P = live a P + (if \<not> le_released l \<and> P l then 1 else 0)"
  by (simp add: live_def)

lemma length_filter_update:
  assumes "n < length xs" and "Q (xs ! n)"
  shows "length (filter Q (xs[n := x])) = length (filter Q xs) - 1 + (if Q x then 1 else 0)"
proof -
  have "xs = take n xs @ xs ! n # drop (Suc n) xs" using assms(1) by (rule id_take_nth_drop)
  then have "length (filter Q xs) = length (filter Q (take n xs @ xs ! n # drop (Suc n) xs))" by simp
  then show ?thesis using assms by (simp add: upd_conv_take_nth_drop)
qed

lemma length_filter_update_same:
  assumes "n < length xs" and "\<not> Q (xs ! n)" and "\<not> Q x"
  shows "length (filter Q (xs[n := x])) = length (filter Q xs)"
proof -
  have "xs = take n xs @ xs ! n # drop (Suc n) xs" using assms(1) by (rule id_take_nth_drop)
  then have "length (filter Q xs) = length (filter Q (take n xs @ xs ! n # drop (Suc n) xs))" by simp
  then show ?thesis using assms by (simp add: upd_conv_take_nth_drop)
qed

lemma live_release:
  assumes "n < length (ad_leases a)" and "\<not> le_released (ad_leases a ! n)"
  shows "live (a \<lparr> ad_leases := (ad_leases a)[n := (ad_leases a ! n) \<lparr> le_released := True \<rparr>] \<rparr>) P
    = live a P - (if P (ad_leases a ! n) then 1 else 0)"
proof (cases "P (ad_leases a ! n)")
  case True
  let ?Q = "\<lambda>l. \<not> le_released l \<and> P l"
  have "ad_leases a ! n \<in> set (filter ?Q (ad_leases a))" using assms True by simp
  then have "0 < length (filter ?Q (ad_leases a))" by (rule length_pos_if_in_set)
  then obtain m where "length (filter ?Q (ad_leases a)) = Suc m" using gr0_conv_Suc by blast
  then show ?thesis
    using assms True length_filter_update [of n "ad_leases a" ?Q "(ad_leases a ! n) \<lparr> le_released := True \<rparr>"]
    by (simp add: live_def)
next
  case False
  then show ?thesis
    using assms length_filter_update_same [of n "ad_leases a" "\<lambda>l. \<not> le_released l \<and> P l"]
    by (simp add: live_def)
qed

lemma live_pos:
  assumes "n < length (ad_leases a)" and "\<not> le_released (ad_leases a ! n)" and "P (ad_leases a ! n)"
  shows "0 < live a P"
proof -
  have "ad_leases a ! n \<in> set (filter (\<lambda>l. \<not> le_released l \<and> P l) (ad_leases a))" using assms by simp
  then have "0 < length (filter (\<lambda>l. \<not> le_released l \<and> P l) (ad_leases a))"
    by (rule length_pos_if_in_set)
  then show ?thesis by (simp add: live_def)
qed

text \<open>The part of the state an evaluation of the pressure leaves alone.\<close>

definition same_books :: "admission \<Rightarrow> admission \<Rightarrow> bool" where
  "same_books a b \<longleftrightarrow> ad_activeTurns a = ad_activeTurns b \<and> ad_byRuntime a = ad_byRuntime b
     \<and> ad_byClass a = ad_byClass b \<and> ad_leases a = ad_leases b \<and> ad_draining a = ad_draining b"

lemma same_books_refl [simp]: "same_books a a"
  by (simp add: same_books_def)

lemma accounted_same: "same_books a b \<Longrightarrow> accounted a = accounted b"
  by (simp add: accounted_def same_books_def live_def)

lemma reset_lag_same: "same_books (reset_lag a) a"
  by (simp add: reset_lag_def same_books_def)

lemma observe_lag_same: "same_books (observe_lag_reading cfg ov r a) a"
  by (simp add: observe_lag_reading_def Let_def reset_lag_def same_books_def
      split: option.split js_num.split)

lemma lag_state_same: "lag_state cfg now a = (x, b) \<Longrightarrow> same_books b a"
  by (auto simp: lag_state_def Let_def reset_lag_same split: if_splits)

lemma evaluate_heap_same: "evaluate_heap cfg rd a = (h, b) \<Longrightarrow> same_books b a"
  by (auto simp: evaluate_heap_def Let_def same_books_def)

lemma evaluate_pressure_same: "evaluate_pressure cfg rd a = (p, b) \<Longrightarrow> same_books b a"
proof -
  assume ev: "evaluate_pressure cfg rd a = (p, b)"
  obtain h a1 where h: "evaluate_heap cfg rd a = (h, a1)" by force
  obtain x a2 where x: "lag_state cfg (rd_now rd) a1 = (x, a2)" by (metis surj_pair)
  have "b = a2" using ev h x by (cases x) (auto simp: evaluate_pressure_def Let_def)
  then show ?thesis
    using evaluate_heap_same [OF h] lag_state_same [OF x] by (simp add: same_books_def)
qed

lemma execution_active_same: "same_books a b \<Longrightarrow> execution_active a = execution_active b"
  by (simp add: same_books_def execution_active_def)

text \<open>The two outcomes of \<open>acquire\<close>.\<close>

lemma acquire_cases:
  obtains (refused) p b err where "evaluate_pressure cfg rd a = (p, b)" "same_books b a"
      "acquire cfg rd rt cls a = (Inl err, b)"
      "refusal_reason_for cfg rt cls p b = Some (ae_reason err)"
  | (granted) p b where "evaluate_pressure cfg rd a = (p, b)" "same_books b a"
      "refusal_reason_for cfg rt cls p b = None"
      "acquire cfg rd rt cls a =
        (Inr (length (ad_leases b)),
         b \<lparr> ad_activeTurns := ad_activeTurns b + 1,
             ad_byRuntime := (ad_byRuntime b)(rt := ad_byRuntime b rt + 1),
             ad_byClass := (ad_byClass b)(cls := ad_byClass b cls + 1),
             ad_leases := ad_leases b @ [\<lparr> le_runtime = rt, le_class = cls, le_released = False \<rparr>] \<rparr>)"
proof -
  obtain p b where ev: "evaluate_pressure cfg rd a = (p, b)" by force
  show thesis
  proof (cases "refusal_reason_for cfg rt cls p b")
    case None
    with ev granted evaluate_pressure_same [OF ev] show thesis by (simp add: acquire_def)
  next
    case (Some reason)
    show thesis
      by (rule refused [OF ev evaluate_pressure_same [OF ev],
            of "refusal cfg rd reason (acquire_detail cfg rd p reason b) rt cls b"])
        (simp_all add: acquire_def ev Some refusal_def)
  qed
qed

lemma accounted_init [inv_intros]: "accounted admission_init"
  by (simp add: accounted_def admission_init_def live_def)

lemma accounted_acquire [inv_intros]:
  assumes "accounted a"
  shows "accounted (snd (acquire cfg rd rt cls a))"
proof (cases rule: acquire_cases [of cfg rd a rt cls])
  case refused
  with assms accounted_same show ?thesis by simp
next
  case (granted p b)
  then have "accounted b" using assms accounted_same by blast
  with granted show ?thesis by (simp add: accounted_def live_def)
qed

lemma accounted_release [inv_intros]:
  assumes "accounted a"
  shows "accounted (release n a)"
proof (cases "n < length (ad_leases a) \<and> \<not> le_released (ad_leases a ! n)")
  case True
  then have n: "n < length (ad_leases a)" "\<not> le_released (ad_leases a ! n)" by simp_all
  let ?ls = "(ad_leases a)[n := (ad_leases a ! n) \<lparr> le_released := True \<rparr>]"
  have "live (release n a) P = live (a \<lparr> ad_leases := ?ls \<rparr>) P" for P
    using n by (simp add: release_def Let_def live_def)
  then have live: "live (release n a) P = live a P - (if P (ad_leases a ! n) then 1 else 0)" for P
    using live_release [OF n] by simp
  have "0 < live a (\<lambda>_. True)" "0 < live a (\<lambda>l. le_runtime l = le_runtime (ad_leases a ! n))"
    "0 < live a (\<lambda>l. le_class l = le_class (ad_leases a ! n))"
    by (rule live_pos [OF n], simp)+
  with assms n live show ?thesis
    by (auto simp: accounted_def release_def Let_def)
next
  case False
  then have "release n a = a" by (auto simp: release_def)
  with assms show ?thesis by simp
qed

text \<open>Any sequence of operations on the controller.\<close>

datatype adm_op =
    Acquire readings session_runtime adm_class
  | Release nat
  | ObserveLag "js_num option" lag_reading
  | SetDraining "(int \<times> jsstr) option"
  | Snapshot readings
  | CreateCheck readings session_runtime adm_class

fun adm_step :: "admission_config \<Rightarrow> adm_op \<Rightarrow> admission \<Rightarrow> admission" where
  "adm_step cfg (Acquire rd rt cls) a = snd (acquire cfg rd rt cls a)"
| "adm_step cfg (Release n) a = release n a"
| "adm_step cfg (ObserveLag ov r) a = observe_lag_reading cfg ov r a"
| "adm_step cfg (SetDraining d) a = set_draining d a"
| "adm_step cfg (Snapshot rd) a = snd (snapshot cfg rd a)"
| "adm_step cfg (CreateCheck rd rt cls) a = snd (assert_create_admissible cfg rd rt cls a)"

definition adm_run :: "admission_config \<Rightarrow> adm_op list \<Rightarrow> admission" where
  "adm_run cfg ops = fold (adm_step cfg) ops admission_init"

lemma snapshot_same: "same_books (snd (snapshot cfg rd a)) a"
  using evaluate_pressure_same [of cfg rd a] by (auto simp: snapshot_def Let_def split: prod.split)

lemma assert_create_same: "same_books (snd (assert_create_admissible cfg rd rt cls a)) a"
  using evaluate_pressure_same [of cfg rd a]
  by (auto simp: assert_create_admissible_def Let_def split: prod.split option.split)

lemma accounted_set_draining [simp]: "accounted (set_draining d a) = accounted a"
  by (simp add: accounted_def set_draining_def live_def)

lemma accounted_step: "accounted a \<Longrightarrow> accounted (adm_step cfg opn a)"
  using accounted_same [OF observe_lag_same] accounted_same [OF snapshot_same]
    accounted_same [OF assert_create_same]
  by (cases opn) (simp_all add: inv_intros)

text \<open>The bounds the arbiter keeps.\<close>

definition within_capacity :: "admission_config \<Rightarrow> admission \<Rightarrow> bool" where
  "within_capacity cfg a \<longleftrightarrow> execution_active a \<le> ac_executionCapacity cfg
     \<and> ad_byClass a P0 + ad_byClass a P1 \<le> ac_maxActiveTurns cfg"

lemma within_capacity_same: "same_books a b \<Longrightarrow> within_capacity cfg a = within_capacity cfg b"
  by (simp add: within_capacity_def same_books_def execution_active_def)

lemma accounted_split:
  assumes "accounted a"
  shows "ad_activeTurns a = ad_byClass a P0 + ad_byClass a P1 + execution_active a"
    and "ad_activeTurns a = sum_list (map (ad_byClass a) admission_classes)"
    and "ad_activeTurns a = sum_list (map (ad_byRuntime a) runtimes)"
    and "0 \<le> ad_byClass a c" and "0 \<le> execution_active a"
proof -
  have cls: "length (filter (\<lambda>l. \<not> le_released l) ls) =
      length (filter (\<lambda>l. \<not> le_released l \<and> le_class l = P0) ls)
    + length (filter (\<lambda>l. \<not> le_released l \<and> le_class l = P1) ls)
    + length (filter (\<lambda>l. \<not> le_released l \<and> le_class l = P2) ls)
    + length (filter (\<lambda>l. \<not> le_released l \<and> le_class l = P3) ls)" for ls
  proof (induction ls)
    case (Cons l ls)
    then show ?case by (cases "le_class l") auto
  qed simp
  have rts: "length (filter (\<lambda>l. \<not> le_released l) ls) =
      length (filter (\<lambda>l. \<not> le_released l \<and> le_runtime l = RtPi) ls)
    + length (filter (\<lambda>l. \<not> le_released l \<and> le_runtime l = RtClaude) ls)
    + length (filter (\<lambda>l. \<not> le_released l \<and> le_runtime l = RtOpencode) ls)
    + length (filter (\<lambda>l. \<not> le_released l \<and> le_runtime l = RtAntigravity) ls)
    + length (filter (\<lambda>l. \<not> le_released l \<and> le_runtime l = RtCommandcode) ls)" for ls
  proof (induction ls)
    case (Cons l ls)
    then show ?case by (cases "le_runtime l") auto
  qed simp
  show "ad_activeTurns a = ad_byClass a P0 + ad_byClass a P1 + execution_active a"
    using assms cls [of "ad_leases a"] by (simp add: accounted_def live_def execution_active_def)
  then show "ad_activeTurns a = sum_list (map (ad_byClass a) admission_classes)"
    by (simp add: admission_classes_def execution_active_def)
  show "ad_activeTurns a = sum_list (map (ad_byRuntime a) runtimes)"
    using assms rts [of "ad_leases a"] by (simp add: accounted_def live_def runtimes_def)
  show "0 \<le> ad_byClass a c" "0 \<le> execution_active a"
    using assms by (simp_all add: accounted_def execution_active_def)
qed

lemma within_capacity_acquire:
  assumes "accounted a" and "within_capacity cfg a"
  shows "within_capacity cfg (snd (acquire cfg rd rt cls a))"
proof (cases rule: acquire_cases [of cfg rd a rt cls])
  case refused
  with assms within_capacity_same show ?thesis by simp
next
  case (granted p b)
  have b: "accounted b" "within_capacity cfg b"
    using granted assms accounted_same within_capacity_same by blast+
  have "cls \<in> set control_classes \<Longrightarrow> ad_activeTurns b < ac_maxActiveTurns cfg"
    "cls \<notin> set control_classes \<Longrightarrow> execution_active b < ac_executionCapacity cfg"
    using granted(3) by (auto simp: refusal_reason_for_def split: if_splits)
  moreover have "ad_activeTurns b = ad_byClass b P0 + ad_byClass b P1 + execution_active b"
    "0 \<le> execution_active b"
    using accounted_split [OF b(1)] by blast+
  ultimately show ?thesis
    using granted(4) b(2)
    by (cases cls) (auto simp: within_capacity_def execution_active_def control_classes_def)
qed

lemma within_capacity_release:
  assumes "accounted a" and "within_capacity cfg a"
  shows "within_capacity cfg (release n a)"
proof -
  have "0 \<le> ad_byClass a c" for c using accounted_split(4) [OF assms(1)] .
  then have "ad_byClass (release n a) c \<le> ad_byClass a c" for c
    by (auto simp: release_def Let_def)
  from this [of P0] this [of P1] this [of P2] this [of P3] show ?thesis
    using assms(2) by (simp add: within_capacity_def execution_active_def)
qed

lemma within_capacity_step:
  "accounted a \<Longrightarrow> within_capacity cfg a \<Longrightarrow> within_capacity cfg (adm_step cfg opn a)"
  using within_capacity_same [OF observe_lag_same] within_capacity_same [OF snapshot_same]
    within_capacity_same [OF assert_create_same]
  by (cases opn)
    (simp_all add: within_capacity_acquire within_capacity_release,
     simp add: within_capacity_def set_draining_def execution_active_def)

lemma adm_run_invariant:
  assumes "0 \<le> ac_executionCapacity cfg" and "0 \<le> ac_maxActiveTurns cfg"
  shows "accounted (adm_run cfg ops) \<and> within_capacity cfg (adm_run cfg ops)"
proof -
  have "accounted a \<and> within_capacity cfg a \<Longrightarrow>
      accounted (fold (adm_step cfg) ops a) \<and> within_capacity cfg (fold (adm_step cfg) ops a)" for a
    by (induction ops arbitrary: a) (simp_all add: accounted_step within_capacity_step)
  moreover have "within_capacity cfg admission_init"
    using assms by (simp add: within_capacity_def execution_active_def admission_init_def)
  ultimately show ?thesis by (simp add: adm_run_def accounted_init)
qed

subsection \<open>The resolved configuration\<close>

lemma positive_integer_nonneg: "0 \<le> d \<Longrightarrow> 0 \<le> positive_integer v d"
  by (auto simp: positive_integer_def split: option.split js_num.split)

text \<open>A knob is sound when it is absent, not a positive number, or at least one.\<close>

definition sound_knob :: "js_num option \<Rightarrow> bool" where
  "sound_knob v \<longleftrightarrow> (case v of Some (Fin r) \<Rightarrow> r \<le> 0 \<or> 1 \<le> r | _ \<Rightarrow> True)"

lemma positive_integer_pos: "sound_knob v \<Longrightarrow> 1 \<le> d \<Longrightarrow> 1 \<le> positive_integer v d"
  by (auto simp: positive_integer_def sound_knob_def le_floor_iff
      split: option.split option.split_asm js_num.split js_num.split_asm)

lemma fraction_of_bounds: "0 < d \<Longrightarrow> d \<le> 1 \<Longrightarrow> 0 < fraction_of v d \<and> fraction_of v d \<le> 1"
  by (auto simp: fraction_of_def split: option.split js_num.split)

lemma reserve_of_bounds:
  "0 \<le> m \<Longrightarrow> 0 \<le> reserve_of v d m \<and> (1 \<le> m \<longrightarrow> reserve_of v d m \<le> m - 1) \<and> reserve_of v d m \<le> m"
  by (auto simp: reserve_of_def min_def)

lemma resolve_config_sel:
  "ac_maxActiveTurns (resolve_config cpus opts) = positive_integer (ao_maxActiveTurns opts) (max 2 cpus)"
  "ac_interactiveReserve (resolve_config cpus opts) =
     reserve_of (ao_interactiveReserve opts) 1 (positive_integer (ao_maxActiveTurns opts) (max 2 cpus))"
  "ac_controlReserve (resolve_config cpus opts) =
     reserve_of (ao_controlReserve opts) (of_int (ac_interactiveReserve (resolve_config cpus opts)))
       (positive_integer (ao_maxActiveTurns opts) (max 2 cpus))"
  "ac_apiTurnLimit (resolve_config cpus opts) =
     max 1 (ac_maxActiveTurns (resolve_config cpus opts) - ac_interactiveReserve (resolve_config cpus opts))"
  "ac_lagThresholdMs (resolve_config cpus opts) = positive_integer (ao_lagThresholdMs opts) 300"
  "ac_lagRecoveryMs (resolve_config cpus opts) =
     fst (lag_recovery_of (ao_lagRecoveryMs opts) (positive_integer (ao_lagThresholdMs opts) 300))"
  "ac_heapPressureFraction (resolve_config cpus opts) = fraction_of (ao_heapPressureFraction opts) (3 / 4)"
  "ac_heapRecoveryFraction (resolve_config cpus opts) =
     min (fraction_of (ao_heapPressureFraction opts) (3 / 4)) (fraction_of (ao_heapRecoveryFraction opts) (13 / 20))"
  "ac_lagSustainedReadings (resolve_config cpus opts) = positive_integer (ao_lagSustainedReadings opts) 2"
  by (simp_all only: resolve_config_def Let_def split_beta admission_config.select_convs)

lemma resolve_config_capacity:
  "ac_executionCapacity (resolve_config cpus opts)
     = max 0 (ac_maxActiveTurns (resolve_config cpus opts) - ac_controlReserve (resolve_config cpus opts))"
  "0 \<le> ac_maxActiveTurns (resolve_config cpus opts)"
  "0 \<le> ac_controlReserve (resolve_config cpus opts)"
  "ac_controlReserve (resolve_config cpus opts) \<le> ac_maxActiveTurns (resolve_config cpus opts)"
proof -
  show "ac_executionCapacity (resolve_config cpus opts)
     = max 0 (ac_maxActiveTurns (resolve_config cpus opts) - ac_controlReserve (resolve_config cpus opts))"
    by (simp only: resolve_config_def Let_def split_beta admission_config.select_convs)
  have "0 \<le> positive_integer (ao_maxActiveTurns opts) (max 2 cpus)"
    by (rule positive_integer_nonneg) simp
  then show "0 \<le> ac_maxActiveTurns (resolve_config cpus opts)"
    "0 \<le> ac_controlReserve (resolve_config cpus opts)"
    "ac_controlReserve (resolve_config cpus opts) \<le> ac_maxActiveTurns (resolve_config cpus opts)"
    using reserve_of_bounds by (simp_all add: resolve_config_sel)
qed

lemma resolved_run_invariant:
  "accounted (adm_run (resolve_config cpus opts) ops)
   \<and> within_capacity (resolve_config cpus opts) (adm_run (resolve_config cpus opts) ops)"
  by (rule adm_run_invariant) (simp_all add: resolve_config_capacity)

subsection \<open>Evaluating the pressure\<close>

lemma resolve_config_fractions:
  "ac_heapRecoveryFraction (resolve_config cpus opts) \<le> ac_heapPressureFraction (resolve_config cpus opts)"
  by (simp add: resolve_config_sel)

lemma heap_marks_ordered:
  assumes "0 \<le> n"
  shows "js_floor (of_int n * ac_heapRecoveryFraction (resolve_config cpus opts))
    \<le> js_floor (of_int n * ac_heapPressureFraction (resolve_config cpus opts))"
  using assms resolve_config_fractions by (intro floor_mono mult_left_mono) simp_all

lemma evaluate_heap_latch:
  assumes "hr_limitBytes r > 0" and "rd_heap rd = Some r" and "cfg = resolve_config cpus opts"
  shows "(let (h, a') = evaluate_heap cfg rd a in
     hs_pressure h = (hs_projectedBytes h \<ge> hs_pressureBytes h
        \<or> (ad_heapLatched a \<and> hs_projectedBytes h \<ge> hs_recoveryBytes h))
     \<and> ad_heapLatched a' = hs_pressure h)"
  using heap_marks_ordered [of "hr_limitBytes r" cpus opts] assms
  by (auto simp: evaluate_heap_def Let_def)

lemma evaluate_heap_frame:
  assumes "evaluate_heap cfg rd a = (h, b)"
  shows "b = a \<lparr> ad_heapLatched := hs_pressure h \<rparr>"
  using assms by (auto simp: evaluate_heap_def Let_def)

lemma evaluate_heap_depends:
  "execution_active b = execution_active a \<Longrightarrow> ad_heapLatched b = ad_heapLatched a \<Longrightarrow>
     fst (evaluate_heap cfg rd b) = fst (evaluate_heap cfg rd a)"
  by (simp add: evaluate_heap_def Let_def)

lemma evaluate_heap_again:
  assumes "cfg = resolve_config cpus opts"
  shows "fst (evaluate_heap cfg rd (a \<lparr> ad_heapLatched := hs_pressure (fst (evaluate_heap cfg rd a)) \<rparr>))
    = fst (evaluate_heap cfg rd a)"
proof -
  define lb where "lb = (let r = (case rd_heap rd of None \<Rightarrow> \<lparr> hr_usedBytes = 0, hr_limitBytes = 0 \<rparr> | Some r \<Rightarrow> r)
    in if hr_limitBytes r > 0 then hr_limitBytes r else 0)"
  have "0 \<le> lb" by (simp add: lb_def Let_def)
  then show ?thesis
    using heap_marks_ordered [of lb cpus opts] assms
    by (auto simp: evaluate_heap_def Let_def lb_def execution_active_def)
qed

lemma lag_state_again:
  assumes "lag_state cfg now a = (x, b)"
  shows "lag_state cfg now b = (x, b)"
  using assms by (auto simp: lag_state_def Let_def reset_lag_def split: if_splits)

lemma lag_state_frame:
  assumes "lag_state cfg now a = (x, b)"
  shows "ad_heapLatched b = ad_heapLatched a" "ad_lastLag b = ad_lastLag a"
    "lag_state cfg now (a \<lparr> ad_heapLatched := h \<rparr>) = (x, b \<lparr> ad_heapLatched := h \<rparr>)"
  using assms by (auto simp: lag_state_def Let_def reset_lag_def split: if_splits)

text \<open>Evaluating twice on the same readings changes nothing: polling the capacity never moves
  the latches by itself.\<close>

lemma evaluate_pressure_again:
  assumes cfg: "cfg = resolve_config cpus opts" and ev: "evaluate_pressure cfg rd a = (p, b)"
  shows "evaluate_pressure cfg rd b = (p, b)"
proof -
  obtain h a1 where h: "evaluate_heap cfg rd a = (h, a1)" by force
  obtain x a2 where x: "lag_state cfg (rd_now rd) a1 = (x, a2)" by (metis surj_pair)
  have b: "b = a2" using ev h x by (cases x) (auto simp: evaluate_pressure_def Let_def)
  have a1: "a1 = a \<lparr> ad_heapLatched := hs_pressure h \<rparr>" by (rule evaluate_heap_frame [OF h])
  have lb: "ad_heapLatched b = hs_pressure h" using lag_state_frame(1) [OF x] a1 b by simp
  have "same_books b a1" using lag_state_same [OF x] b by simp
  then have "execution_active b = execution_active a1" by (rule execution_active_same)
  then have "fst (evaluate_heap cfg rd b) = fst (evaluate_heap cfg rd a1)"
    using lb a1 by (intro evaluate_heap_depends) simp_all
  also have "\<dots> = h" using evaluate_heap_again [OF cfg, of rd a] h a1 by simp
  finally have "fst (evaluate_heap cfg rd b) = h" .
  then have "evaluate_heap cfg rd b = (h, b \<lparr> ad_heapLatched := hs_pressure h \<rparr>)"
    using evaluate_heap_frame [of cfg rd b] by (metis prod.collapse)
  moreover have "b \<lparr> ad_heapLatched := hs_pressure h \<rparr> = b" using lb by simp
  ultimately have hb: "evaluate_heap cfg rd b = (h, b)" by simp
  have lagb: "lag_state cfg (rd_now rd) b = (x, b)" using lag_state_again [OF x] b by simp
  have "ad_activeTurns b = ad_activeTurns a" "ad_byClass b = ad_byClass a"
    using evaluate_pressure_same [OF ev] by (simp_all add: same_books_def)
  then show ?thesis
    using ev h x hb lagb b by (cases x) (auto simp: evaluate_pressure_def Let_def)
qed

lemma evaluate_pressure_draining:
  "evaluate_pressure cfg rd (set_draining d a)
     = (fst (evaluate_pressure cfg rd a), set_draining d (snd (evaluate_pressure cfg rd a)))"
  by (simp add: evaluate_pressure_def evaluate_heap_def lag_state_def set_draining_def reset_lag_def
      execution_active_def Let_def split: option.split)

subsection \<open>The interface the drain uses\<close>

text \<open>
  \<open>DrainAdmission\<close> of \<open>drain-controller.ts\<close>: a gate that can be closed and reopened, and a
  reading of the turns in flight. The reading may move the controller's latches; it never moves
  the gate, and closing the gate does not change what is read.
\<close>

locale drain_admission =
  fixes gate_set :: "(int \<times> jsstr) option \<Rightarrow> 'a \<Rightarrow> 'a"
    and gate_get :: "'a \<Rightarrow> (int \<times> jsstr) option"
    and turns :: "'r \<Rightarrow> 'a \<Rightarrow> int \<times> 'a"
  assumes gate_get_set: "gate_get (gate_set d a) = d"
    and gate_set_set: "gate_set d (gate_set e a) = gate_set d a"
    and turns_gate: "gate_get (snd (turns r a)) = gate_get a"
    and turns_set: "turns r (gate_set d a) = (fst (turns r a), gate_set d (snd (turns r a)))"
begin

lemma reopen: "gate_get (gate_set None (gate_set (Some d) a)) = None"
  by (simp add: gate_get_set)

lemma turns_unaffected: "fst (turns r (gate_set d a)) = fst (turns r a)"
  by (simp add: turns_set)

lemma gate_after_turns: "gate_get (snd (turns r (gate_set d a))) = d"
  by (simp add: turns_gate gate_get_set)

lemma close_turns_reopen:
  "gate_set None (snd (turns r (gate_set (Some d) a))) = gate_set None (snd (turns r a))"
  by (simp add: turns_set gate_set_set)

end

definition snapshot_turns :: "admission_config \<Rightarrow> readings \<Rightarrow> admission \<Rightarrow> int \<times> admission" where
  "snapshot_turns cfg rd a = (let (sn, a') = snapshot cfg rd a in (sn_activeTurns sn, a'))"

lemma snapshot_turns_eq:
  "snapshot_turns cfg rd a = (ad_activeTurns (snd (evaluate_pressure cfg rd a)), snd (evaluate_pressure cfg rd a))"
  by (simp add: snapshot_turns_def snapshot_def Let_def split: prod.split)

interpretation adm: drain_admission set_draining get_draining "snapshot_turns cfg"
proof unfold_locales
  show "get_draining (set_draining d a) = d" for d a
    by (simp add: get_draining_def set_draining_def)
  show "set_draining d (set_draining e a) = set_draining d a" for d e a
    by (simp add: set_draining_def)
  show "get_draining (snd (snapshot_turns cfg r a)) = get_draining a" for r a
    using evaluate_pressure_same [of cfg r a "fst (evaluate_pressure cfg r a)" "snd (evaluate_pressure cfg r a)"]
    by (simp add: snapshot_turns_eq get_draining_def same_books_def)
  show "snapshot_turns cfg r (set_draining d a)
      = (fst (snapshot_turns cfg r a), set_draining d (snd (snapshot_turns cfg r a)))" for r d a
    by (simp add: snapshot_turns_eq evaluate_pressure_draining)
      (simp add: set_draining_def)
qed

subsection \<open>Sequences of lag readings\<close>

definition informative :: "lag_reading \<Rightarrow> bool" where
  "informative r \<longleftrightarrow> \<not> (case lr_sampleCount r of None \<Rightarrow> False | Some n \<Rightarrow> n \<le> 0)
     \<and> lr_p99Ms r \<noteq> NonFinite"

definition high_reading :: "admission_config \<Rightarrow> lag_reading \<Rightarrow> bool" where
  "high_reading cfg r \<longleftrightarrow>
     (case lr_p99Ms r of NonFinite \<Rightarrow> False | Fin p \<Rightarrow> p \<ge> of_int (ac_lagThresholdMs cfg))"

definition observe_all :: "admission_config \<Rightarrow> lag_reading list \<Rightarrow> admission" where
  "observe_all cfg rs = fold (observe_lag_reading cfg None) rs admission_init"

lemma observe_uninformative: "\<not> informative r \<Longrightarrow> observe_lag_reading cfg None r a = a"
  by (auto simp: observe_lag_reading_def informative_def)

lemma observe_high:
  assumes "informative r"
  shows "ad_lagHigh (observe_lag_reading cfg None r a) \<le> (if high_reading cfg r then max 0 (ad_lagHigh a) + 1 else 0)"
    and "0 \<le> ad_lagHigh a \<Longrightarrow> 0 \<le> ad_lagHigh (observe_lag_reading cfg None r a)"
    and "\<not> ad_lagLatched a \<Longrightarrow> ad_lagLatched (observe_lag_reading cfg None r a) \<Longrightarrow>
      ac_lagSustainedReadings cfg \<le> ad_lagHigh (observe_lag_reading cfg None r a)"
  using assms
  by (auto simp: observe_lag_reading_def informative_def high_reading_def reset_lag_def Let_def
      split: option.split js_num.split option.split_asm js_num.split_asm if_splits)

lemma observe_all_streak:
  "(let xs = filter informative rs; n = nat (ad_lagHigh (observe_all cfg rs)) in
     0 \<le> ad_lagHigh (observe_all cfg rs) \<and> n \<le> length xs \<and> list_all (high_reading cfg) (take n (rev xs)))"
proof (induction rs rule: rev_induct)
  case Nil
  then show ?case by (simp add: observe_all_def admission_init_def)
next
  case (snoc r rs)
  let ?a = "observe_all cfg rs" and ?b = "observe_lag_reading cfg None r (observe_all cfg rs)"
  have eq: "observe_all cfg (rs @ [r]) = ?b" by (simp add: observe_all_def)
  show ?case
  proof (cases "informative r")
    case False
    with snoc show ?thesis by (simp add: eq observe_uninformative)
  next
    case True
    have IH: "0 \<le> ad_lagHigh ?a" "nat (ad_lagHigh ?a) \<le> length (filter informative rs)"
      "list_all (high_reading cfg) (take (nat (ad_lagHigh ?a)) (rev (filter informative rs)))"
      using snoc by (simp_all add: Let_def)
    have nonneg: "0 \<le> ad_lagHigh ?b" by (rule observe_high(2) [OF True IH(1)])
    show ?thesis
    proof (cases "high_reading cfg r")
      case high: True
      then have le: "nat (ad_lagHigh ?b) \<le> Suc (nat (ad_lagHigh ?a))"
        using observe_high(1) [OF True, of cfg ?a] IH(1) by simp
      have "list_all (high_reading cfg) (take (Suc (nat (ad_lagHigh ?a))) (rev (filter informative (rs @ [r]))))"
        using IH(3) high True by simp
      then have "list_all (high_reading cfg) (take (nat (ad_lagHigh ?b)) (rev (filter informative (rs @ [r]))))"
        using le by (metis (no_types, lifting) list_all_iff set_take_subset_set_take subsetD)
      with le IH(2) nonneg True show ?thesis by (simp add: eq Let_def)
    next
      case False
      then have "ad_lagHigh ?b = 0" using observe_high(1) [OF True, of cfg ?a] nonneg by simp
      then show ?thesis by (simp add: eq)
    qed
  qed
qed

subsection \<open>Properties\<close>

lemma quarantine_control: "cls \<in> set control_classes \<Longrightarrow> quarantine_attribution cfg rd r rt cls a = None"
  by (simp add: quarantine_attribution_def Let_def split: option.split)

text \<open>C14: after any sequence of operations the turn counter is the number of leases not yet
  released and the sum of the per-class and of the per-runtime counters; execution (P2 and P3)
  is within the execution capacity, control (P0 and P1) within the turn ceiling, and the total
  within their sum.\<close>

theorem turns_accounted_and_bounded:
  "(let cfg = resolve_config cpus opts; a = adm_run cfg ops in
     ad_activeTurns a = live a (\<lambda>_. True)
     \<and> ad_activeTurns a = sum_list (map (ad_byClass a) admission_classes)
     \<and> ad_activeTurns a = sum_list (map (ad_byRuntime a) runtimes)
     \<and> execution_active a \<le> ac_executionCapacity cfg
     \<and> ad_byClass a P0 + ad_byClass a P1 \<le> ac_maxActiveTurns cfg
     \<and> ad_activeTurns a \<le> ac_maxActiveTurns cfg + ac_executionCapacity cfg)"
proof -
  let ?cfg = "resolve_config cpus opts"
  let ?a = "adm_run ?cfg ops"
  have inv: "accounted ?a" "within_capacity ?cfg ?a" using resolved_run_invariant by blast+
  have "ad_activeTurns ?a = live ?a (\<lambda>_. True)" using inv(1) by (simp add: accounted_def)
  moreover have "ad_activeTurns ?a \<le> ac_maxActiveTurns ?cfg + ac_executionCapacity ?cfg"
    using accounted_split(1) [OF inv(1)] inv(2) by (simp add: within_capacity_def)
  ultimately show ?thesis
    using accounted_split(2,3) [OF inv(1)] inv(2) by (simp only: within_capacity_def Let_def)
qed

text \<open>C15: the control reserve. In every reachable state a browser or control request is admitted
  while fewer control turns than the reserve are active and memory is above the critical floor,
  however many execution turns there are and whatever other pressure or drain is in force.\<close>

theorem control_reserve_guaranteed:
  assumes "cfg = resolve_config cpus opts" and "a = adm_run cfg ops" and "cls = P0 \<or> cls = P1"
    and "ad_byClass a P0 + ad_byClass a P1 < ac_controlReserve cfg"
    and "\<not> pr_memoryCritical (fst (evaluate_pressure cfg rd a))"
  shows "fst (acquire cfg rd rt cls a) = Inr (length (ad_leases a))"
proof -
  have inv: "accounted a" "within_capacity cfg a" using resolved_run_invariant assms(1,2) by blast+
  obtain p b where ev: "evaluate_pressure cfg rd a = (p, b)" by force
  have same: "same_books b a" by (rule evaluate_pressure_same [OF ev])
  have "execution_active a \<le> ac_maxActiveTurns cfg - ac_controlReserve cfg"
    using inv(2) resolve_config_capacity [of cpus opts] assms(1) by (simp add: within_capacity_def)
  then have "ad_activeTurns b < ac_maxActiveTurns cfg"
    using accounted_split(1) [OF inv(1)] assms(4) same by (simp add: same_books_def)
  then have "refusal_reason_for cfg rt cls p b = None"
    using assms(3,5) ev by (auto simp: refusal_reason_for_def control_classes_def)
  then show ?thesis using ev same by (simp add: acquire_def same_books_def)
qed

definition sample_options :: admission_options where
  "sample_options = \<lparr> ao_maxActiveTurns = Some (Fin 2), ao_interactiveReserve = None,
     ao_controlReserve = None, ao_memoryCriticalBytes = None,
     ao_runtimeMaxActiveTurns = (\<lambda>_. None), ao_minimumHeadroomBytes = Some (Fin 8),
     ao_reservedBytesPerTurn = Some (Fin 4), ao_reservedPidsPerTurn = None,
     ao_hostMinimumHeadroomBytes = None, ao_retryAfterSeconds = None,
     ao_heapPressureFraction = None, ao_heapRecoveryFraction = None,
     ao_reservedHeapBytesPerTurn = Some (Fin 10), ao_lagThresholdMs = None, ao_lagRecoveryMs = None,
     ao_lagSustainedReadings = None, ao_lagReadingStaleMs = None,
     ao_heapLagRetryAfterSeconds = None \<rparr>"

definition sample_readings :: readings where
  "sample_readings = \<lparr> rd_now = 0,
     rd_memory = \<lparr> mc_currentBytes = 10, mc_limitBytes = 1000, mc_highBytes = None \<rparr>,
     rd_pids = \<lparr> pc_current = None, pc_max = None \<rparr>, rd_hostAvailable = None,
     rd_heap = Some \<lparr> hr_usedBytes = 5, hr_limitBytes = 100 \<rparr>, rd_overrideHeapUsed = None,
     rd_overrideLag = None, rd_quarantine = None \<rparr>"

abbreviation sample_admission_config :: admission_config where
  "sample_admission_config \<equiv> resolve_config 4 sample_options"

lemmas admission_eval = resolve_config_def sample_options_def sample_readings_def
  positive_integer_def reserve_of_def fraction_of_def differs_def lag_recovery_of_def
  adm_run_def admission_init_def evaluate_pressure_def evaluate_heap_def lag_state_def
  execution_active_def high_pressure_def refusal_reason_for_def control_classes_def Let_def

theorem control_reserve_guaranteed_witness:
  "fst (acquire sample_admission_config sample_readings RtPi P0
      (adm_run sample_admission_config [Acquire sample_readings RtPi P2])) = Inr (1 :: nat)"
proof -
  have "length (ad_leases (adm_run sample_admission_config [Acquire sample_readings RtPi P2])) = 1"
    by (simp add: acquire_def admission_eval)
  moreover have "fst (acquire sample_admission_config sample_readings RtPi P0
      (adm_run sample_admission_config [Acquire sample_readings RtPi P2]))
    = Inr (length (ad_leases (adm_run sample_admission_config [Acquire sample_readings RtPi P2])))"
    by (rule control_reserve_guaranteed [OF refl refl]) (simp_all add: acquire_def admission_eval)
  ultimately show ?thesis by simp
qed

text \<open>a lease is returned exactly once. Releasing it again changes nothing, and releasing
  what was just acquired restores every counter.\<close>

theorem release_exactly_once:
  assumes "cfg = resolve_config cpus opts" and "acquire cfg rd rt cls (adm_run cfg ops) = (Inr n, a')"
  shows "release n (release n a') = release n a'
    \<and> ad_activeTurns (release n a') = ad_activeTurns (adm_run cfg ops)
    \<and> ad_byRuntime (release n a') = ad_byRuntime (adm_run cfg ops)
    \<and> ad_byClass (release n a') = ad_byClass (adm_run cfg ops)"
proof -
  let ?a = "adm_run cfg ops"
  have inv: "accounted ?a" using resolved_run_invariant assms(1) by blast
  show ?thesis
  proof (cases rule: acquire_cases [of cfg rd ?a rt cls])
    case (refused p b err)
    with assms(2) show ?thesis by simp
  next
    case (granted p b)
    then have acc: "accounted b" using inv accounted_same by blast
    then have "0 \<le> ad_activeTurns b" "0 \<le> ad_byRuntime b rt" "0 \<le> ad_byClass b cls"
      by (simp_all add: accounted_def)
    with granted assms(2) show ?thesis
      by (auto simp: release_def Let_def same_books_def)
  qed
qed

theorem release_exactly_once_witness:
  "ad_activeTurns (release 0 (snd (acquire sample_admission_config sample_readings RtPi P2
      (adm_run sample_admission_config [])))) = ad_activeTurns (adm_run sample_admission_config [])"
  by (rule release_exactly_once [where rd = sample_readings and rt = RtPi and cls = P2,
        THEN conjunct2, THEN conjunct1, OF refl])
    (simp add: acquire_def admission_eval)

text \<open>while the server drains, every new execution turn is refused with the reason
  \<open>draining\<close> and without touching the books, and control requests get exactly the answer they
  would get without the drain.\<close>

theorem draining_refuses_execution_only:
  assumes "ad_draining a \<noteq> None"
  shows "(\<exists>err b. acquire cfg rd rt P2 a = (Inl err, b) \<and> ae_reason err = draining \<and> same_books b a)
    \<and> (\<exists>err b. acquire cfg rd rt P3 a = (Inl err, b) \<and> ae_reason err = draining \<and> same_books b a)
    \<and> fst (acquire cfg rd rt P0 a) = fst (acquire cfg rd rt P0 (set_draining None a))
    \<and> fst (acquire cfg rd rt P1 a) = fst (acquire cfg rd rt P1 (set_draining None a))"
proof -
  have exec: "\<exists>err b. acquire cfg rd rt cls a = (Inl err, b) \<and> ae_reason err = draining \<and> same_books b a"
    if "cls \<notin> set control_classes" for cls
  proof (cases rule: acquire_cases [of cfg rd a rt cls])
    case (refused p b err)
    then have "ad_draining b \<noteq> None" using assms by (simp add: same_books_def)
    then have "ae_reason err = draining" using refused(4) that by (simp add: refusal_reason_for_def)
    with refused show ?thesis by blast
  next
    case (granted p b)
    then have "ad_draining b \<noteq> None" using assms by (simp add: same_books_def)
    with granted(3) that show ?thesis by (simp add: refusal_reason_for_def)
  qed
  have control: "fst (acquire cfg rd rt cls a) = fst (acquire cfg rd rt cls (set_draining None a))"
    if "cls \<in> set control_classes" for cls
  proof -
    obtain p b where ev: "evaluate_pressure cfg rd a = (p, b)" by force
    have ev': "evaluate_pressure cfg rd (set_draining None a) = (p, set_draining None b)"
      by (simp add: evaluate_pressure_draining ev)
    have "refusal_reason_for cfg rt cls p (set_draining None b) = refusal_reason_for cfg rt cls p b"
      using that by (simp add: refusal_reason_for_def set_draining_def)
    moreover have "refusal cfg rd r (acquire_detail cfg rd p r (set_draining None b)) rt cls (set_draining None b)
        = refusal cfg rd r (acquire_detail cfg rd p r b) rt cls b" for r
      using that by (simp add: refusal_def quarantine_control acquire_detail_def set_draining_def
          execution_active_def)
    ultimately show ?thesis
      by (simp add: acquire_def ev ev' split: option.split) (simp add: set_draining_def)
  qed
  show ?thesis using exec [of P2] exec [of P3] control [of P0] control [of P1]
    by (simp add: control_classes_def)
qed

theorem draining_refuses_execution_only_witness:
  "fst (acquire sample_admission_config sample_readings RtPi P0 (set_draining (Some (0, js ''deploy'')) admission_init))
   = fst (acquire sample_admission_config sample_readings RtPi P0
       (set_draining None (set_draining (Some (0, js ''deploy'')) admission_init)))"
  by (rule draining_refuses_execution_only [THEN conjunct2, THEN conjunct2, THEN conjunct1])
    (simp add: set_draining_def)

text \<open>hysteresis of the heap gate. With a known heap limit the gate is closed exactly when the
  projected heap reaches the pressure mark, or when it was closed and the projection has not
  fallen below the recovery mark; the recovery mark never exceeds the pressure mark.\<close>

theorem heap_gate_hysteresis:
  assumes "cfg = resolve_config cpus opts" and "rd_heap rd = Some r" and "hr_limitBytes r > 0"
  shows "(let (h, a') = evaluate_heap cfg rd a in
     hs_pressure h = (hs_projectedBytes h \<ge> hs_pressureBytes h
        \<or> (ad_heapLatched a \<and> hs_projectedBytes h \<ge> hs_recoveryBytes h))
     \<and> ad_heapLatched a' = hs_pressure h
     \<and> hs_recoveryBytes h \<le> hs_pressureBytes h
     \<and> hs_projectedBytes h = (case rd_overrideHeapUsed rd of None \<Rightarrow> hr_usedBytes r | Some u \<Rightarrow> u)
          + (execution_active a + 1) * ac_reservedHeapBytesPerTurn cfg)"
  using evaluate_heap_latch [OF assms(3,2,1), of a] heap_marks_ordered [of "hr_limitBytes r" cpus opts] assms
  by (auto simp: evaluate_heap_def Let_def)

theorem heap_gate_hysteresis_witness:
  "ad_heapLatched (snd (evaluate_heap sample_admission_config sample_readings admission_init)) = False"
  using heap_gate_hysteresis [of sample_admission_config 4 sample_options sample_readings
      "\<lparr> hr_usedBytes = 5, hr_limitBytes = 100 \<rparr>" admission_init]
  by (simp add: admission_eval)

text \<open>the capacity report is what the next request meets. When a snapshot says an execution
  turn is available, an acquire on the same readings is granted or refused for the ceiling of
  its own runtime only; when it gives a reason, the acquire is refused for that reason. A second
  snapshot on the same readings is identical.\<close>

theorem snapshot_predicts_acquire:
  assumes "cfg = resolve_config cpus opts" and "snapshot cfg rd a = (sn, b)"
  shows "(case sn_reason sn of
            None \<Rightarrow> sn_available sn \<and>
              (case fst (acquire cfg rd rt P2 b) of Inr n \<Rightarrow> True | Inl err \<Rightarrow> ae_reason err = runtime_limit)
          | Some reason \<Rightarrow> \<not> sn_available sn \<and>
              (case fst (acquire cfg rd rt P2 b) of Inr n \<Rightarrow> False | Inl err \<Rightarrow> ae_reason err = reason))
       \<and> snapshot cfg rd b = (sn, b)"
proof -
  obtain p c where ev: "evaluate_pressure cfg rd a = (p, c)" by force
  have c: "c = b" using assms(2) ev by (simp add: snapshot_def Let_def)
  have again: "evaluate_pressure cfg rd b = (p, b)"
    using evaluate_pressure_again [OF assms(1) ev] c by simp
  have reason: "sn_reason sn = (if refusal_reason_for cfg RtPi P2 p b = Some runtime_limit then None
      else refusal_reason_for cfg RtPi P2 p b)" "sn_available sn = (sn_reason sn = None)"
    using assms(2) ev c by (auto simp: snapshot_def Let_def)
  have "snapshot cfg rd b = (sn, b)"
    using assms(2) ev c again by (simp add: snapshot_def Let_def)
  moreover have "fst (acquire cfg rd rt P2 b) = (case refusal_reason_for cfg rt P2 p b of
      None \<Rightarrow> Inr (length (ad_leases b))
    | Some r \<Rightarrow> Inl (refusal cfg rd r (acquire_detail cfg rd p r b) rt P2 b))"
    by (simp add: acquire_def again split: option.split)
  moreover have "refusal_reason_for cfg rt P2 p b = refusal_reason_for cfg RtPi P2 p b
    \<or> (refusal_reason_for cfg RtPi P2 p b \<in> {None, Some runtime_limit}
        \<and> refusal_reason_for cfg rt P2 p b \<in> {None, Some runtime_limit})"
    by (simp add: refusal_reason_for_def control_classes_def)
  ultimately show ?thesis
    using reason by (auto simp: refusal_def split: option.split)
qed

theorem snapshot_predicts_acquire_witness:
  "(case sn_reason (fst (snapshot sample_admission_config sample_readings admission_init)) of
      None \<Rightarrow> (case fst (acquire sample_admission_config sample_readings RtClaude P2
                    (snd (snapshot sample_admission_config sample_readings admission_init))) of
                 Inr n \<Rightarrow> True | Inl err \<Rightarrow> ae_reason err = runtime_limit)
    | Some reason \<Rightarrow> (case fst (acquire sample_admission_config sample_readings RtClaude P2
                    (snd (snapshot sample_admission_config sample_readings admission_init))) of
                 Inr n \<Rightarrow> False | Inl err \<Rightarrow> ae_reason err = reason))"
  using snapshot_predicts_acquire [OF refl prod.collapse [symmetric],
      of 4 sample_options sample_readings admission_init RtClaude]
  by (auto split: option.splits)

text \<open>the attribution of a refusal to quarantined leases is sound: when a slot refusal is
  blamed on them, the same request in the state where exactly those leases have been returned
  is not refused.\<close>

theorem quarantine_blame_is_sound:
  assumes "refusal_reason_for cfg rt cls p a = Some reason" and "reason \<in> set slot_refusals"
    and "rd_quarantine rd = Some source"
    and "quarantine_attribution cfg rd reason rt cls a = Some q"
    and "execution_active a' = execution_active a - qd_runs q"
    and "ad_byRuntime a' rt = ad_byRuntime a rt - max 0 (opt_val id (qv_byRuntime source rt))"
    and "ad_draining a' = ad_draining a"
  shows "refusal_reason_for cfg rt cls p a' = None"
proof -
  have q0: "max 0 (case qv_byRuntime source rt of None \<Rightarrow> 0 | Some n \<Rightarrow> n)
      = max 0 (opt_val id (qv_byRuntime source rt))"
    by (simp add: opt_val_def split: option.split)
  have cls: "cls \<notin> set control_classes"
    using assms(4) quarantine_control by fastforce
  have slot: "reason = global_limit \<or> reason = runtime_limit"
    using assms(2) by (simp add: slot_refusals_def)
  have free: "ad_byRuntime a' rt < ac_runtimeLimits cfg rt \<and> 0 < qd_runs q
      \<and> (reason = global_limit \<longrightarrow> execution_active a' < ac_executionCapacity cfg)"
    using assms(3-6) slot unfolding quarantine_attribution_def Let_def q0 [symmetric]
    by (auto split: if_splits option.splits)
  have "execution_active a' < ac_executionCapacity cfg"
    using free slot assms(1,5) cls by (auto simp: refusal_reason_for_def split: if_splits)
  then show ?thesis
    using assms(1,7) free cls slot by (auto simp: refusal_reason_for_def split: if_splits)
qed

definition quarantined_readings :: readings where
  "quarantined_readings = sample_readings \<lparr> rd_quarantine :=
     Some \<lparr> qv_byRuntime = (\<lambda>rt. if rt = RtPi then Some 1 else None), qv_oldestAgeMs = Some 9 \<rparr> \<rparr>"

theorem quarantine_blame_is_sound_witness:
  "refusal_reason_for sample_admission_config RtPi P2
     (fst (evaluate_pressure sample_admission_config quarantined_readings
        (adm_run sample_admission_config [Acquire sample_readings RtPi P2]))) admission_init = None"
  by (rule quarantine_blame_is_sound [where rd = quarantined_readings and reason = global_limit
        and a = "adm_run sample_admission_config [Acquire sample_readings RtPi P2]"
        and source = "\<lparr> qv_byRuntime = (\<lambda>rt. if rt = RtPi then Some 1 else None), qv_oldestAgeMs = Some 9 \<rparr>"
        and q = "\<lparr> qd_runs = 1, qd_oldestAgeMs = Some 9 \<rparr>"])
    (simp_all add: acquire_def admission_eval quarantined_readings_def slot_refusals_def
      quarantine_attribution_def runtimes_def)

text \<open>the event-loop lag gate closes only on sustained lag: when it is closed after a sequence
  of readings and was open before the last one, the last readings that carry information, as
  many as the configuration asks for, were all at or above the threshold.\<close>

theorem lag_gate_needs_sustained_lag:
  assumes "\<not> ad_lagLatched (observe_all cfg rs)" and "ad_lagLatched (observe_all cfg (rs @ [r]))"
  shows "list_all (high_reading cfg)
      (take (nat (ac_lagSustainedReadings cfg)) (rev (filter informative (rs @ [r]))))
    \<and> nat (ac_lagSustainedReadings cfg) \<le> length (filter informative (rs @ [r]))"
proof -
  let ?n = "nat (ac_lagSustainedReadings cfg)" and ?b = "observe_all cfg (rs @ [r])"
  let ?xs = "filter informative (rs @ [r])"
  have eq: "?b = observe_lag_reading cfg None r (observe_all cfg rs)" by (simp add: observe_all_def)
  have r: "informative r" using assms eq observe_uninformative by metis
  have le: "ac_lagSustainedReadings cfg \<le> ad_lagHigh ?b"
    using observe_high(3) [OF r assms(1)] assms(2) eq by simp
  have streak: "nat (ad_lagHigh ?b) \<le> length ?xs"
    "list_all (high_reading cfg) (take (nat (ad_lagHigh ?b)) (rev ?xs))"
    using observe_all_streak [of "rs @ [r]" cfg] by (simp_all only: Let_def)
  have "?n \<le> nat (ad_lagHigh ?b)" using le by simp
  then have "set (take ?n (rev ?xs)) \<subseteq> set (take (nat (ad_lagHigh ?b)) (rev ?xs))"
    by (rule set_take_subset_set_take)
  then have "list_all (high_reading cfg) (take ?n (rev ?xs))"
    using streak(2) by (auto simp: list_all_iff)
  with streak(1) \<open>?n \<le> nat (ad_lagHigh ?b)\<close> show ?thesis by simp
qed

definition lag_sample :: "rat \<Rightarrow> int \<Rightarrow> lag_reading" where
  "lag_sample p t = \<lparr> lr_p99Ms = Fin p, lr_atMs = t, lr_sampleCount = Some 5 \<rparr>"

theorem lag_gate_needs_sustained_lag_witness:
  "list_all (high_reading sample_admission_config)
     (take (nat (ac_lagSustainedReadings sample_admission_config))
        (rev (filter informative ([lag_sample 900 0] @ [lag_sample 301 30000]))))"
  by (rule lag_gate_needs_sustained_lag [THEN conjunct1])
    (simp_all add: observe_all_def observe_lag_reading_def lag_sample_def admission_eval)

text \<open>the resolved configuration. Unless the turn ceiling or the lag threshold is given as a
  positive number below one, there is room for at least one execution turn, the reserves leave
  at least one turn, and the recovery marks do not exceed the marks they release.\<close>

theorem resolved_config_bounds:
  assumes "sound_knob (ao_maxActiveTurns opts)" and "sound_knob (ao_lagThresholdMs opts)"
  shows "(let c = resolve_config cpus opts in
     1 \<le> ac_maxActiveTurns c
     \<and> 0 \<le> ac_interactiveReserve c \<and> ac_interactiveReserve c \<le> ac_maxActiveTurns c - 1
     \<and> 1 \<le> ac_apiTurnLimit c \<and> ac_apiTurnLimit c \<le> ac_maxActiveTurns c
     \<and> 0 \<le> ac_controlReserve c
     \<and> ac_executionCapacity c + ac_controlReserve c = ac_maxActiveTurns c
     \<and> 1 \<le> ac_executionCapacity c
     \<and> 0 < ac_heapRecoveryFraction c
     \<and> ac_heapRecoveryFraction c \<le> ac_heapPressureFraction c \<and> ac_heapPressureFraction c \<le> 1
     \<and> 1 \<le> ac_lagRecoveryMs c \<and> ac_lagRecoveryMs c \<le> ac_lagThresholdMs c)"
proof -
  let ?c = "resolve_config cpus opts"
  have m: "1 \<le> ac_maxActiveTurns ?c"
    using positive_integer_pos [OF assms(1), of "max 2 cpus"] by (simp add: resolve_config_sel)
  have t: "1 \<le> positive_integer (ao_lagThresholdMs opts) 300"
    using positive_integer_pos [OF assms(2)] by simp
  have reserve: "1 \<le> n \<Longrightarrow> 0 \<le> reserve_of v d n \<and> reserve_of v d n \<le> n - 1" for v d n
    using reserve_of_bounds [of n v d] by simp
  have reserves: "0 \<le> ac_interactiveReserve ?c \<and> ac_interactiveReserve ?c \<le> ac_maxActiveTurns ?c - 1"
    "0 \<le> ac_controlReserve ?c \<and> ac_controlReserve ?c \<le> ac_maxActiveTurns ?c - 1"
    using m unfolding resolve_config_sel by (rule reserve)+
  have api: "ac_apiTurnLimit ?c = max 1 (ac_maxActiveTurns ?c - ac_interactiveReserve ?c)"
    by (rule resolve_config_sel)
  have fr: "0 < ac_heapRecoveryFraction ?c" "ac_heapRecoveryFraction ?c \<le> ac_heapPressureFraction ?c"
    "ac_heapPressureFraction ?c \<le> 1"
    using fraction_of_bounds [of "3 / 4" "ao_heapPressureFraction opts"]
      fraction_of_bounds [of "13 / 20" "ao_heapRecoveryFraction opts"]
    by (simp_all add: resolve_config_sel)
  have "1 \<le> fst (lag_recovery_of v n) \<and> fst (lag_recovery_of v n) \<le> n" if "1 \<le> n" for v n
    using that by (auto simp: lag_recovery_of_def Let_def split: option.split)
  from this [OF t] have lag: "1 \<le> ac_lagRecoveryMs ?c" "ac_lagRecoveryMs ?c \<le> ac_lagThresholdMs ?c"
    by (simp_all add: resolve_config_sel)
  show ?thesis
    unfolding Let_def using m reserves api fr lag resolve_config_capacity(1) [of cpus opts] by simp
qed

theorem resolved_config_bounds_witness:
  "1 \<le> ac_executionCapacity (resolve_config 4 sample_options)"
  using resolved_config_bounds [of sample_options 4]
  by (simp add: sample_options_def sound_knob_def Let_def)

text \<open>a turn ceiling given as a positive number below one is not replaced by the default: it
  resolves to zero, and then every request of every class is refused.\<close>

theorem fractional_ceiling_refuses_everything:
  assumes "ao_maxActiveTurns opts = Some (Fin r)" and "0 < r" and "r < 1"
    and "cfg = resolve_config cpus opts"
  shows "isl (fst (acquire cfg rd rt cls (adm_run cfg ops)))"
proof -
  let ?a = "adm_run cfg ops"
  have inv: "accounted ?a" using resolved_run_invariant assms(4) by blast
  have fl: "js_floor r = 0" using assms(2,3) by (simp add: floor_eq_iff)
  have zero: "ac_maxActiveTurns cfg = 0"
    using assms(1,2,4) fl by (simp add: resolve_config_sel positive_integer_def)
  have "ac_executionCapacity cfg = 0"
    using resolve_config_capacity [of cpus opts] zero assms(4) by simp
  note limits = zero this
  obtain p b where ev: "evaluate_pressure cfg rd ?a = (p, b)" by force
  have "accounted b" using inv accounted_same [OF evaluate_pressure_same [OF ev]] by simp
  then have "0 \<le> ad_activeTurns b" "0 \<le> execution_active b"
    by (simp_all add: accounted_def execution_active_def)
  with limits have "refusal_reason_for cfg rt cls p b \<noteq> None"
    by (simp add: refusal_reason_for_def)
  then obtain reason where "refusal_reason_for cfg rt cls p b = Some reason" by blast
  then show ?thesis using ev by (simp add: acquire_def)
qed

theorem fractional_ceiling_refuses_everything_witness:
  "isl (fst (acquire (resolve_config 8 (sample_options \<lparr> ao_maxActiveTurns := Some (Fin (1 / 2)) \<rparr>))
     sample_readings RtPi P0
     (adm_run (resolve_config 8 (sample_options \<lparr> ao_maxActiveTurns := Some (Fin (1 / 2)) \<rparr>)) [])))"
  by (rule fractional_ceiling_refuses_everything [where r = "1 / 2", OF _ _ _ refl]) simp_all

text \<open>the turn ceiling bounds control turns but not the total: execution is admitted by its
  own capacity without looking at the ceiling, so a full set of control turns and an execution
  turn can be active together.\<close>

theorem ceiling_can_be_exceeded:
  "ad_activeTurns (adm_run sample_admission_config
     [Acquire sample_readings RtPi P0, Acquire sample_readings RtPi P0,
      Acquire sample_readings RtClaude P2]) = 3
   \<and> ac_maxActiveTurns sample_admission_config = 2"
  by (simp add: acquire_def admission_eval)

end
