(* ===== verification/Drain.thy ===== *)
theory Drain
  imports Admission
begin

text \<open>
  The restart drain: \<open>internal-api/drain-controller.ts\<close>.

  \<open>drain\<close> is the state of a \<open>DrainController\<close>, one field per private field; the durable record
  file is \<open>dr_file\<close>, the statuses handed to waiting callers are logged in \<open>dr_resolved\<close>, the
  calls of \<open>onTimedOut\<close> in \<open>dr_timedOutCalls\<close>. The admission controller is a separate value of
  type \<open>'a\<close> that the operations take and return together with the drain; they use it only
  through the three operations of the interface \<open>drain_admission\<close>, which are arguments here.

  An evaluation is asynchronous: \<open>evaluate_begin\<close> is the part before the awaited busy refresh,
  \<open>evaluate_resume\<close> the part after it, and any other operation may run in between. What the
  injected sources return during one measurement is \<open>measurement\<close>; a list or a quarantine count
  that throws is \<open>None\<close>, and \<open>ms_unlinks\<close> tells whether an unlink of the record in that step
  succeeds. An admission snapshot that throws (its memory or PID reader does) counts as no active
  turn in the code and has no case here: \<open>turns\<close> always answers. The poll and hold timers are the events \<open>evaluate_begin\<close> and \<open>hold_expired\<close>.
\<close>

subsection \<open>Data\<close>

datatype drain_state = Idle | Draining | Settled | TimedOut

record drain_run_ref =
  rr_runId :: jsstr
  rr_sessionId :: jsstr
  rr_runtime :: jsstr
  rr_status :: jsstr

record busy_session =
  bz_sessionId :: jsstr
  bz_runtime :: jsstr
  bz_busyReason :: jsstr
  bz_runIds :: "jsstr list"

record drain_remaining =
  rm_activeTurns :: int
  rm_quarantinedTurns :: int
  rm_nonterminalRuns :: nat
  rm_runs :: "drain_run_ref list"
  rm_busySessions :: nat
  rm_sessions :: "busy_session list"

definition remaining_zero :: drain_remaining where
  "remaining_zero = \<lparr> rm_activeTurns = 0, rm_quarantinedTurns = 0, rm_nonterminalRuns = 0,
     rm_runs = [], rm_busySessions = 0, rm_sessions = [] \<rparr>"

record drain_initial =
  in_activeTurns :: int
  in_nonterminalRuns :: nat
  in_busySessions :: nat

record drain_outcome =
  oc_state :: drain_state
  oc_endedBy :: jsstr
  oc_endedAt :: int
  oc_cutOffRunIds :: "jsstr list"
  oc_cutOffSessionIds :: "jsstr list"

record drain_deps =
  dd_hasRefresh :: bool
  dd_busyRefreshTimeoutMs :: "js_num option"
  dd_hasRecordPath :: bool
  dd_pollIntervalMs :: "js_num option"
  dd_defaultTimeoutMs :: "js_num option"
  dd_maxTimeoutMs :: "js_num option"
  dd_holdMs :: "js_num option"
  dd_retryAfterSeconds :: "js_num option"
  dd_hasOnTimedOut :: bool

record drain_config =
  dc_hasRefresh :: bool
  dc_busyRefreshTimeoutMs :: int
  dc_hasRecordPath :: bool
  dc_pollIntervalMs :: int
  dc_maxTimeoutMs :: int
  dc_defaultTimeoutMs :: int
  dc_defaultHoldMs :: int
  dc_retryAfterSeconds :: int
  dc_hasOnTimedOut :: bool

definition clamp_int :: "js_num option \<Rightarrow> int \<Rightarrow> int \<Rightarrow> int \<Rightarrow> int" where
  "clamp_int v fallback lo hi =
     (case v of Some (Fin r) \<Rightarrow> min hi (max lo (js_floor r)) | _ \<Rightarrow> fallback)"

definition max_drain_timeout_ms :: int where
  "max_drain_timeout_ms = 3600000"

definition drain_config_of :: "drain_deps \<Rightarrow> drain_config" where
  "drain_config_of deps =
     (let maxTimeout = clamp_int (dd_maxTimeoutMs deps) max_drain_timeout_ms 0 max_drain_timeout_ms in
      \<lparr> dc_hasRefresh = dd_hasRefresh deps,
        dc_busyRefreshTimeoutMs = clamp_int (dd_busyRefreshTimeoutMs deps) 2000 1 60000,
        dc_hasRecordPath = dd_hasRecordPath deps,
        dc_pollIntervalMs = clamp_int (dd_pollIntervalMs deps) 500 1 60000,
        dc_maxTimeoutMs = maxTimeout,
        dc_defaultTimeoutMs = clamp_int (dd_defaultTimeoutMs deps) 600000 0 maxTimeout,
        dc_defaultHoldMs = clamp_int (dd_holdMs deps) 300000 1 max_drain_timeout_ms,
        dc_retryAfterSeconds = clamp_int (dd_retryAfterSeconds deps) 30 1 3600,
        dc_hasOnTimedOut = dd_hasOnTimedOut deps \<rparr>)"

subsection \<open>The durable record\<close>

record drain_record =
  dx_settled :: bool
  dx_reason :: jsstr
  dx_startedAt :: jsstr
  dx_finishedAt :: jsstr
  dx_cutOffRunIds :: "jsstr list"
  dx_cutOffSessions :: "busy_session list"
  dx_busyRefreshFresh :: bool

definition busy_session_json :: "busy_session \<Rightarrow> json" where
  "busy_session_json s =
     JObj [(js ''sessionId'', JStr (bz_sessionId s)), (js ''runtime'', JStr (bz_runtime s)),
           (js ''busyReason'', JStr (bz_busyReason s)), (js ''runIds'', JArr (map JStr (bz_runIds s)))]"

text \<open>The value \<open>writeRecord\<close> serialises.\<close>

definition drain_record_json :: "drain_record \<Rightarrow> json" where
  "drain_record_json r =
     JObj [(js ''version'', JNum (js ''2'')),
           (js ''state'', JStr (if dx_settled r then js ''settled'' else js ''timed_out'')),
           (js ''reason'', JStr (dx_reason r)),
           (js ''startedAt'', JStr (dx_startedAt r)),
           (js ''finishedAt'', JStr (dx_finishedAt r)),
           (js ''cutOffRunIds'', JArr (map JStr (dx_cutOffRunIds r))),
           (js ''cutOffSessions'', JArr (map busy_session_json (dx_cutOffSessions r))),
           (js ''busyRefresh'', JStr (if dx_busyRefreshFresh r then js ''fresh'' else js ''unavailable''))]"

definition safe_char :: "nat \<Rightarrow> bool" where
  "safe_char c \<longleftrightarrow> (97 \<le> c \<and> c \<le> 122) \<or> (65 \<le> c \<and> c \<le> 90) \<or> (48 \<le> c \<and> c \<le> 57) \<or> c = 95 \<or> c = 45"

definition safe_run_id :: "jsstr \<Rightarrow> bool" where
  "safe_run_id s \<longleftrightarrow> 1 \<le> length s \<and> length s \<le> 128 \<and> list_all safe_char s"

fun safe_ids :: "json list \<Rightarrow> jsstr list" where
  "safe_ids [] = []"
| "safe_ids (JStr s # vs) = (if safe_run_id s then s # safe_ids vs else safe_ids vs)"
| "safe_ids (_ # vs) = safe_ids vs"

definition id_list_of :: "json \<Rightarrow> jsstr list" where
  "id_list_of v = (case v of JArr vs \<Rightarrow> safe_ids vs | _ \<Rightarrow> [])"

definition text_of :: "json \<Rightarrow> jsstr" where
  "text_of v = (case v of JStr s \<Rightarrow> s | _ \<Rightarrow> [])"

fun prop_json :: "json \<Rightarrow> jsstr \<Rightarrow> json" where
  "prop_json (JObj m) key = (case jm_get m key of None \<Rightarrow> JUndef | Some v \<Rightarrow> v)"
| "prop_json _ key = JUndef"

definition read_busy_session :: "json \<Rightarrow> busy_session option" where
  "read_busy_session v =
     (case v of
        JObj _ \<Rightarrow>
          (case (prop_json v (js ''sessionId''), prop_json v (js ''runtime''), prop_json v (js ''busyReason'')) of
             (JStr sid, JStr runtime, JStr busyReason) \<Rightarrow>
               if safe_run_id sid
               then Some \<lparr> bz_sessionId = sid, bz_runtime = take 32 runtime,
                           bz_busyReason = take 64 busyReason,
                           bz_runIds = id_list_of (prop_json v (js ''runIds'')) \<rparr>
               else None
           | _ \<Rightarrow> None)
      | _ \<Rightarrow> None)"

definition read_busy_sessions :: "json \<Rightarrow> busy_session list" where
  "read_busy_sessions v = (case v of JArr vs \<Rightarrow> List.map_filter read_busy_session vs | _ \<Rightarrow> [])"

text \<open>\<open>readDrainRecord\<close> on the parsed file; \<open>None\<close> is an absent or unparsable file.\<close>

definition read_drain_record :: "json option \<Rightarrow> drain_record option" where
  "read_drain_record file =
     (case file of
        None \<Rightarrow> None
      | Some raw \<Rightarrow>
          (let state = prop_json raw (js ''state'') in
           if prop_json raw (js ''version'') \<notin> {JNum (js ''1''), JNum (js ''2'')}
              \<or> state \<notin> {JStr (js ''settled''), JStr (js ''timed_out'')}
           then None
           else Some \<lparr> dx_settled = (state = JStr (js ''settled'')),
                       dx_reason = take 500 (text_of (prop_json raw (js ''reason''))),
                       dx_startedAt = text_of (prop_json raw (js ''startedAt'')),
                       dx_finishedAt = text_of (prop_json raw (js ''finishedAt'')),
                       dx_cutOffRunIds = id_list_of (prop_json raw (js ''cutOffRunIds'')),
                       dx_cutOffSessions = read_busy_sessions (prop_json raw (js ''cutOffSessions'')),
                       dx_busyRefreshFresh =
                         (prop_json raw (js ''busyRefresh'') \<noteq> JStr (js ''unavailable'')) \<rparr>))"

text \<open>\<open>consumeDrainRecord\<close>: the record file and its consumed copy, before and after. Renaming
  may fail, and then the unlink may fail too.\<close>

definition consume_drain_record ::
  "bool \<Rightarrow> bool \<Rightarrow> json option \<times> json option \<Rightarrow> drain_record option \<times> (json option \<times> json option)" where
  "consume_drain_record renameOk unlinkOk files =
     (case files of (file, consumed) \<Rightarrow>
        (read_drain_record file,
         (if file = None then (None, consumed)
          else if renameOk then (None, file)
          else if unlinkOk then (None, consumed)
          else (file, consumed))))"

subsection \<open>The controller\<close>

record drain =
  dr_state :: drain_state
  dr_reason :: jsstr
  dr_startedAt :: "int option"
  dr_finishedAt :: "int option"
  dr_timeoutMs :: "int option"
  dr_holdMs :: "int option"
  dr_holdUntil :: "int option"
  dr_initial :: "drain_initial option"
  dr_initialRunIds :: "jsstr jsset"
  dr_remaining :: drain_remaining
  dr_cutOffRunIds :: "jsstr list"
  dr_cutOffSessionIds :: "jsstr list"
  dr_excluded :: "jsstr jsset"
  dr_refreshFresh :: bool
  dr_evaluating :: bool
  dr_lastOutcome :: "drain_outcome option"
  dr_pollTimer :: bool
  dr_holdTimer :: bool
  dr_waiters :: nat
  dr_file :: "json option"
  dr_resolved :: "drain_state list"
  dr_timedOutCalls :: "(jsstr list \<times> jsstr list) list"

definition drain_init :: drain where
  "drain_init = \<lparr> dr_state = Idle, dr_reason = [], dr_startedAt = None, dr_finishedAt = None,
     dr_timeoutMs = None, dr_holdMs = None, dr_holdUntil = None, dr_initial = None,
     dr_initialRunIds = [], dr_remaining = remaining_zero, dr_cutOffRunIds = [],
     dr_cutOffSessionIds = [], dr_excluded = [], dr_refreshFresh = True, dr_evaluating = False,
     dr_lastOutcome = None, dr_pollTimer = False, dr_holdTimer = False, dr_waiters = 0,
     dr_file = None, dr_resolved = [], dr_timedOutCalls = [] \<rparr>"

record 'r measurement =
  ms_runs :: "drain_run_ref list option"
  ms_readings :: 'r
  ms_quarantined :: "int option"
  ms_busy :: "busy_session list option"
  ms_unlinks :: bool

record drain_input =
  di_reason :: jsstr
  di_timeoutMs :: "js_num option"
  di_holdMs :: "js_num option"
  di_excludeSessionIds :: "jsstr list option"

definition js_set_of :: "'a list \<Rightarrow> 'a jsset" where
  "js_set_of xs = fold js_add xs []"

definition run_ids_of :: "drain_run_ref list \<Rightarrow> jsstr \<Rightarrow> jsstr list" where
  "run_ids_of runs sid = map rr_runId (filter (\<lambda>r. rr_sessionId r = sid) runs)"

definition list_or_empty :: "'b list option \<Rightarrow> 'b list" where
  "list_or_empty x = (case x of None \<Rightarrow> [] | Some xs \<Rightarrow> xs)"

definition measure_drain ::
  "('r \<Rightarrow> 'a \<Rightarrow> int \<times> 'a) \<Rightarrow> 'r measurement \<Rightarrow> drain \<times> 'a \<Rightarrow> drain \<times> 'a" where
  "measure_drain turns m s =
     (case s of (d, a) \<Rightarrow>
        (let runs = list_or_empty (ms_runs m);
             (active, a') = turns (ms_readings m) a;
             quarantined = (case ms_quarantined m of None \<Rightarrow> 0 | Some q \<Rightarrow> q);
             busy = filter (\<lambda>b. bz_sessionId b \<notin> set (dr_excluded d)) (list_or_empty (ms_busy m))
         in (d \<lparr> dr_remaining :=
               \<lparr> rm_activeTurns = max 0 (active - quarantined),
                 rm_quarantinedTurns = quarantined,
                 rm_nonterminalRuns = length runs,
                 rm_runs = runs,
                 rm_busySessions = length busy,
                 rm_sessions = map (\<lambda>b. b \<lparr> bz_runIds := run_ids_of runs (bz_sessionId b) \<rparr>) busy \<rparr> \<rparr>,
             a')))"

definition completed_count :: "drain \<Rightarrow> nat" where
  "completed_count d =
     length (filter (\<lambda>rid. rid \<notin> set (map rr_runId (rm_runs (dr_remaining d)))) (dr_initialRunIds d))"

record drain_status =
  st_state :: drain_state
  st_draining :: bool
  st_reason :: "jsstr option"
  st_startedAt :: "int option"
  st_finishedAt :: "int option"
  st_timeoutMs :: "int option"
  st_holdUntil :: "int option"
  st_waitedMs :: "int option"
  st_initial :: "drain_initial option"
  st_remaining :: drain_remaining
  st_completedDuringDrain :: nat
  st_cutOffRunIds :: "jsstr list"
  st_cutOffSessionIds :: "jsstr list"
  st_excludedSessionIds :: "jsstr list"
  st_retryAfterSeconds :: int
  st_lastOutcome :: "drain_outcome option"

definition status_of ::
  "drain_config \<Rightarrow> ('a \<Rightarrow> (int \<times> jsstr) option) \<Rightarrow> int \<Rightarrow> drain \<times> 'a \<Rightarrow> drain_status" where
  "status_of cfg gate_get now s =
     (case s of (d, a) \<Rightarrow>
        (let idle = (dr_state d = Idle);
             endMs = (case dr_finishedAt d of
                        Some t \<Rightarrow> Some t
                      | None \<Rightarrow> if dr_state d = Draining then Some now else None)
         in \<lparr> st_state = dr_state d,
              st_draining = (gate_get a \<noteq> None \<and> \<not> idle),
              st_reason = (if idle then None else Some (dr_reason d)),
              st_startedAt = (if idle then None else dr_startedAt d),
              st_finishedAt = (if idle then None else dr_finishedAt d),
              st_timeoutMs = (if idle then None else dr_timeoutMs d),
              st_holdUntil = (if idle then None else dr_holdUntil d),
              st_waitedMs = (if idle then None
                             else (case (dr_startedAt d, endMs) of
                                     (Some t0, Some t1) \<Rightarrow> Some (t1 - t0) | _ \<Rightarrow> None)),
              st_initial = (if idle then None else dr_initial d),
              st_remaining = (if idle then remaining_zero else dr_remaining d),
              st_completedDuringDrain = (if idle then 0 else completed_count d),
              st_cutOffRunIds = (if idle then [] else dr_cutOffRunIds d),
              st_cutOffSessionIds = (if idle then [] else dr_cutOffSessionIds d),
              st_excludedSessionIds = (if idle then [] else dr_excluded d),
              st_retryAfterSeconds = dc_retryAfterSeconds cfg,
              st_lastOutcome = dr_lastOutcome d \<rparr>))"

definition clear_timers :: "drain \<Rightarrow> drain" where
  "clear_timers d = d \<lparr> dr_pollTimer := False, dr_holdTimer := False \<rparr>"

definition flush_waiters :: "drain \<Rightarrow> drain" where
  "flush_waiters d =
     d \<lparr> dr_resolved := dr_resolved d @ replicate (dr_waiters d) (dr_state d), dr_waiters := 0 \<rparr>"

text \<open>\<open>evaluate\<close> up to the await: nothing happens unless a drain is running and no evaluation is.\<close>

definition evaluate_begin :: "drain \<Rightarrow> drain" where
  "evaluate_begin d =
     (if dr_state d \<noteq> Draining \<or> dr_startedAt d = None \<or> dr_evaluating d then d
      else d \<lparr> dr_evaluating := True \<rparr>)"

text \<open>The fields \<open>start\<close> sets before it measures.\<close>

definition open_drain :: "drain_config \<Rightarrow> int \<Rightarrow> drain_input \<Rightarrow> drain \<Rightarrow> drain" where
  "open_drain cfg now input d =
     (clear_timers d)
       \<lparr> dr_state := Draining, dr_reason := di_reason input, dr_startedAt := Some now,
         dr_finishedAt := None, dr_holdUntil := None,
         dr_timeoutMs := Some (clamp_int (di_timeoutMs input) (dc_defaultTimeoutMs cfg) 0
                                 (dc_maxTimeoutMs cfg)),
         dr_holdMs := Some (clamp_int (di_holdMs input) (dc_defaultHoldMs cfg) 1
                              max_drain_timeout_ms),
         dr_cutOffRunIds := [], dr_cutOffSessionIds := [],
         dr_excluded := js_set_of (take 8 (list_or_empty (di_excludeSessionIds input))),
         dr_refreshFresh := True \<rparr>"

text \<open>The first measurement becomes the initial one.\<close>

definition note_initial :: "drain \<Rightarrow> drain" where
  "note_initial d =
     (let r = dr_remaining d in
      d \<lparr> dr_initial := Some \<lparr> in_activeTurns = rm_activeTurns r,
                               in_nonterminalRuns = rm_nonterminalRuns r,
                               in_busySessions = rm_busySessions r \<rparr>,
          dr_initialRunIds := js_set_of (map rr_runId (rm_runs r)) \<rparr>)"

definition start_drain ::
  "((int \<times> jsstr) option \<Rightarrow> 'a \<Rightarrow> 'a) \<Rightarrow> ('r \<Rightarrow> 'a \<Rightarrow> int \<times> 'a) \<Rightarrow> drain_config \<Rightarrow> int
     \<Rightarrow> drain_input \<Rightarrow> 'r measurement \<Rightarrow> drain \<times> 'a \<Rightarrow> bool \<times> drain \<times> 'a" where
  "start_drain gate_set turns cfg now input m s =
     (case s of (d, a) \<Rightarrow>
        if dr_state d \<noteq> Idle then (True, s)
        else
          (let s' = measure_drain turns m
                      (open_drain cfg now input d, gate_set (Some (now, di_reason input)) a)
           in (False, evaluate_begin ((note_initial (fst s')) \<lparr> dr_pollTimer := True \<rparr>), snd s')))"

definition record_of :: "(int \<Rightarrow> jsstr) \<Rightarrow> bool \<Rightarrow> int \<Rightarrow> drain \<Rightarrow> drain_record" where
  "record_of isoText settled now d =
     \<lparr> dx_settled = settled, dx_reason = dr_reason d,
       dx_startedAt = isoText (case dr_startedAt d of None \<Rightarrow> now | Some t \<Rightarrow> t),
       dx_finishedAt = isoText (case dr_finishedAt d of None \<Rightarrow> now | Some t \<Rightarrow> t),
       dx_cutOffRunIds = dr_cutOffRunIds d,
       dx_cutOffSessions = rm_sessions (dr_remaining d),
       dx_busyRefreshFresh = (settled \<or> dr_refreshFresh d) \<rparr>"

text \<open>\<open>writeRecord\<close>: a failing write leaves the file as it was.\<close>

definition write_record ::
  "drain_config \<Rightarrow> (int \<Rightarrow> jsstr) \<Rightarrow> bool \<Rightarrow> bool \<Rightarrow> int \<Rightarrow> drain \<Rightarrow> drain" where
  "write_record cfg isoText writeOk settled now d =
     (if dc_hasRecordPath cfg \<and> writeOk
      then d \<lparr> dr_file := Some (drain_record_json (record_of isoText settled now d)) \<rparr> else d)"

definition finish_drain ::
  "drain_config \<Rightarrow> (int \<Rightarrow> jsstr) \<Rightarrow> bool \<Rightarrow> bool \<Rightarrow> int \<Rightarrow> drain \<Rightarrow> drain" where
  "finish_drain cfg isoText writeOk settled now d =
     (let d1 = d \<lparr> dr_pollTimer := False,
                   dr_state := (if settled then Settled else TimedOut),
                   dr_finishedAt := Some now,
                   dr_holdUntil := Some (now + (case dr_holdMs d of None \<Rightarrow> dc_defaultHoldMs cfg
                                                | Some h \<Rightarrow> h)) \<rparr>;
          d2 = (write_record cfg isoText writeOk settled now d1) \<lparr> dr_holdTimer := True \<rparr>;
          d3 = flush_waiters d2
      in if \<not> settled \<and> dc_hasOnTimedOut cfg
         then d3 \<lparr> dr_timedOutCalls := dr_timedOutCalls d3 @ [(dr_cutOffRunIds d3, dr_cutOffSessionIds d3)] \<rparr>
         else d3)"

text \<open>The decision of \<open>evaluate\<close>, taken on a fresh measurement.\<close>

definition decide_drain ::
  "('r \<Rightarrow> 'a \<Rightarrow> int \<times> 'a) \<Rightarrow> drain_config \<Rightarrow> (int \<Rightarrow> jsstr) \<Rightarrow> bool \<Rightarrow> int
     \<Rightarrow> 'r measurement \<Rightarrow> drain \<times> 'a \<Rightarrow> drain \<times> 'a" where
  "decide_drain turns cfg isoText writeOk now m s =
     (let s' = measure_drain turns m s; d = fst s'; r = dr_remaining d in
      if rm_activeTurns r = 0 \<and> rm_nonterminalRuns r = 0 \<and> rm_busySessions r = 0 \<and> dr_refreshFresh d
      then (finish_drain cfg isoText writeOk True now d, snd s')
      else if now - the (dr_startedAt d) \<ge> (case dr_timeoutMs d of None \<Rightarrow> 0 | Some t \<Rightarrow> t)
      then (finish_drain cfg isoText writeOk False now
              (d \<lparr> dr_cutOffRunIds := map rr_runId (rm_runs r),
                   dr_cutOffSessionIds := map bz_sessionId (rm_sessions r) \<rparr>), snd s')
      else s')"

text \<open>\<open>evaluate\<close> after the await: the state is checked again. \<open>refreshed\<close> says whether the
  awaited refresh resolved within its bound; without a refresh function the snapshot counts as
  fresh.\<close>

definition evaluate_resume ::
  "('r \<Rightarrow> 'a \<Rightarrow> int \<times> 'a) \<Rightarrow> drain_config \<Rightarrow> (int \<Rightarrow> jsstr) \<Rightarrow> bool \<Rightarrow> bool \<Rightarrow> int
     \<Rightarrow> 'r measurement \<Rightarrow> drain \<times> 'a \<Rightarrow> drain \<times> 'a" where
  "evaluate_resume turns cfg isoText writeOk refreshed now m s =
     (case s of (d, a) \<Rightarrow>
        if \<not> dr_evaluating d then s
        else
          (let d1 = d \<lparr> dr_refreshFresh := (\<not> dc_hasRefresh cfg \<or> refreshed), dr_evaluating := False \<rparr> in
           if dr_state d1 \<noteq> Draining \<or> dr_startedAt d1 = None then (d1, a)
           else decide_drain turns cfg isoText writeOk now m (d1, a)))"

definition cancel_drain ::
  "((int \<times> jsstr) option \<Rightarrow> 'a \<Rightarrow> 'a) \<Rightarrow> ('r \<Rightarrow> 'a \<Rightarrow> int \<times> 'a) \<Rightarrow> drain_config \<Rightarrow> int \<Rightarrow> jsstr
     \<Rightarrow> 'r measurement \<Rightarrow> drain \<times> 'a \<Rightarrow> drain \<times> 'a" where
  "cancel_drain gate_set turns cfg now endedBy m s =
     (case s of (d, a) \<Rightarrow>
        if dr_state d = Idle then s
        else
          (let s' = measure_drain turns m (d, a); d1 = fst s';
               d2 = (clear_timers (d1 \<lparr> dr_lastOutcome := Some
                       \<lparr> oc_state = dr_state d1, oc_endedBy = endedBy, oc_endedAt = now,
                         oc_cutOffRunIds = dr_cutOffRunIds d1,
                         oc_cutOffSessionIds = dr_cutOffSessionIds d1 \<rparr> \<rparr>)) \<lparr> dr_state := Idle \<rparr>;
               d3 = (if dc_hasRecordPath cfg \<and> ms_unlinks m then d2 \<lparr> dr_file := None \<rparr> else d2)
           in (flush_waiters d3, gate_set None (snd s'))))"

definition wait_for_outcome :: "drain \<Rightarrow> drain" where
  "wait_for_outcome d =
     (if dr_state d \<noteq> Draining then d \<lparr> dr_resolved := dr_resolved d @ [dr_state d] \<rparr>
      else d \<lparr> dr_waiters := dr_waiters d + 1 \<rparr>)"

definition shutdown_drain :: "drain \<Rightarrow> drain" where
  "shutdown_drain d = flush_waiters (clear_timers d)"

subsection \<open>Boot: interrupted busy sessions\<close>

record interrupted_ref =
  ir_sessionId :: jsstr
  ir_runtime :: jsstr
  ir_runId :: jsstr
  ir_errorCode :: jsstr
  ir_interruptionReason :: jsstr

definition nonterminal_receipt_statuses :: "jsstr list" where
  "nonterminal_receipt_statuses = [js ''accepted'', js ''queued'', js ''started'']"

definition all_finished :: "(jsstr \<Rightarrow> jsstr option) \<Rightarrow> busy_session \<Rightarrow> bool" where
  "all_finished receiptStatus session \<longleftrightarrow>
     bz_runIds session \<noteq> []
     \<and> list_all (\<lambda>runId. case receiptStatus runId of
                             None \<Rightarrow> False
                           | Some status \<Rightarrow> status \<notin> set nonterminal_receipt_statuses)
         (bz_runIds session)"

definition interrupted_ref_of :: "busy_session \<Rightarrow> interrupted_ref" where
  "interrupted_ref_of session =
     \<lparr> ir_sessionId = bz_sessionId session, ir_runtime = bz_runtime session,
       ir_runId = js ''busy-'' @ bz_sessionId session,
       ir_errorCode = js ''SERVER_RESTART'', ir_interruptionReason = js ''drain_timeout'' \<rparr>"

fun compose_interrupted :: "jsstr set \<Rightarrow> (jsstr \<Rightarrow> jsstr option) \<Rightarrow> busy_session list \<Rightarrow> interrupted_ref list" where
  "compose_interrupted recovered receiptStatus [] = []"
| "compose_interrupted recovered receiptStatus (session # rest) =
     (if bz_sessionId session \<in> recovered then compose_interrupted recovered receiptStatus rest
      else if all_finished receiptStatus session then compose_interrupted recovered receiptStatus rest
      else interrupted_ref_of session # compose_interrupted recovered receiptStatus rest)"

definition compose_interrupted_busy_sessions ::
  "drain_record option \<Rightarrow> jsstr set \<Rightarrow> (jsstr \<Rightarrow> jsstr option) \<Rightarrow> interrupted_ref list" where
  "compose_interrupted_busy_sessions rec recovered receiptStatus =
     (case rec of
        None \<Rightarrow> []
      | Some r \<Rightarrow> if dx_settled r then []
                  else compose_interrupted recovered receiptStatus (dx_cutOffSessions r))"

subsection \<open>The busy-session source\<close>

record registry_entry =
  re_id :: jsstr
  re_sdkType :: jsstr

text \<open>The snapshot of the last successful registry listing, and whether a listing is in flight.\<close>

record busy_source =
  bs_snapshot :: "registry_entry list"
  bs_inFlight :: bool

definition busy_source_init :: busy_source where
  "busy_source_init = \<lparr> bs_snapshot = [], bs_inFlight = False \<rparr>"

definition source_refresh_begin :: "busy_source \<Rightarrow> busy_source" where
  "source_refresh_begin b = b \<lparr> bs_inFlight := True \<rparr>"

text \<open>The shared promise settles. A failed listing is caught inside the source, so the promise
  the callers await resolves in both cases: the first component says so.\<close>

definition source_refresh_end :: "registry_entry list option \<Rightarrow> busy_source \<Rightarrow> bool \<times> busy_source" where
  "source_refresh_end listing b =
     (case listing of
        Some entries \<Rightarrow> (True, \<lparr> bs_snapshot = entries, bs_inFlight = False \<rparr>)
      | None \<Rightarrow> (True, b \<lparr> bs_inFlight := False \<rparr>))"

text \<open>\<open>piBusy\<close> is \<open>None\<close> when the accessor throws; \<open>running\<close> is \<open>None\<close> when the lookup throws.\<close>

definition list_busy_sessions ::
  "busy_session list option \<Rightarrow> (jsstr \<Rightarrow> jsstr \<Rightarrow> bool option) \<Rightarrow> busy_source \<Rightarrow> busy_session list" where
  "list_busy_sessions piBusy running b =
     map (\<lambda>s. s \<lparr> bz_runIds := [] \<rparr>) (list_or_empty piBusy)
     @ map (\<lambda>e. \<lparr> bz_sessionId = re_id e, bz_runtime = re_sdkType e,
                    bz_busyReason = js ''runtime-running'', bz_runIds = [] \<rparr>)
         (filter (\<lambda>e. running (re_sdkType e) (re_id e) = Some True) (bs_snapshot b))"

subsection \<open>Operations in sequence\<close>

datatype 'r drain_op =
    Start int drain_input "'r measurement"
  | Poll
  | Resume bool bool int "'r measurement"
  | Cancel int jsstr "'r measurement"
  | HoldExpired int "'r measurement"
  | WaitOutcome
  | Shutdown

fun drain_step ::
  "((int \<times> jsstr) option \<Rightarrow> 'a \<Rightarrow> 'a) \<Rightarrow> ('r \<Rightarrow> 'a \<Rightarrow> int \<times> 'a) \<Rightarrow> drain_config \<Rightarrow> (int \<Rightarrow> jsstr)
     \<Rightarrow> 'r drain_op \<Rightarrow> drain \<times> 'a \<Rightarrow> drain \<times> 'a" where
  "drain_step gate_set turns cfg isoText (Start now input m) s = snd (start_drain gate_set turns cfg now input m s)"
| "drain_step gate_set turns cfg isoText Poll (d, a) = (if dr_pollTimer d then evaluate_begin d else d, a)"
| "drain_step gate_set turns cfg isoText (Resume writeOk refreshed now m) s =
     evaluate_resume turns cfg isoText writeOk refreshed now m s"
| "drain_step gate_set turns cfg isoText (Cancel now endedBy m) s = cancel_drain gate_set turns cfg now endedBy m s"
| "drain_step gate_set turns cfg isoText (HoldExpired now m) (d, a) =
     (if dr_holdTimer d then cancel_drain gate_set turns cfg now (js ''hold_expired'') m (d, a) else (d, a))"
| "drain_step gate_set turns cfg isoText WaitOutcome (d, a) = (wait_for_outcome d, a)"
| "drain_step gate_set turns cfg isoText Shutdown (d, a) = (shutdown_drain d, a)"

subsection \<open>The drain invariant, over the interface\<close>

definition nothing_left :: "drain_remaining \<Rightarrow> bool" where
  "nothing_left r \<longleftrightarrow> rm_activeTurns r = 0 \<and> rm_nonterminalRuns r = 0 \<and> rm_busySessions r = 0
     \<and> rm_runs r = [] \<and> rm_sessions r = []"

definition verdict_ok :: "drain \<Rightarrow> bool" where
  "verdict_ok d \<longleftrightarrow>
     (case dr_state d of
        Idle \<Rightarrow> dr_waiters d = 0
      | Draining \<Rightarrow> dr_startedAt d \<noteq> None \<and> dr_timeoutMs d \<noteq> None \<and> dr_holdMs d \<noteq> None
          \<and> dr_cutOffRunIds d = [] \<and> dr_cutOffSessionIds d = []
      | Settled \<Rightarrow> dr_waiters d = 0 \<and> nothing_left (dr_remaining d)
          \<and> dr_cutOffRunIds d = [] \<and> dr_cutOffSessionIds d = []
      | TimedOut \<Rightarrow> dr_waiters d = 0
          \<and> dr_cutOffRunIds d = map rr_runId (rm_runs (dr_remaining d))
          \<and> dr_cutOffSessionIds d = map bz_sessionId (rm_sessions (dr_remaining d)))"

lemma measure_drain_state [simp]:
  "dr_state (fst (measure_drain turns m s)) = dr_state (fst s)"
  "dr_startedAt (fst (measure_drain turns m s)) = dr_startedAt (fst s)"
  "dr_timeoutMs (fst (measure_drain turns m s)) = dr_timeoutMs (fst s)"
  "dr_holdMs (fst (measure_drain turns m s)) = dr_holdMs (fst s)"
  "dr_cutOffRunIds (fst (measure_drain turns m s)) = dr_cutOffRunIds (fst s)"
  "dr_cutOffSessionIds (fst (measure_drain turns m s)) = dr_cutOffSessionIds (fst s)"
  "dr_waiters (fst (measure_drain turns m s)) = dr_waiters (fst s)"
  "dr_evaluating (fst (measure_drain turns m s)) = dr_evaluating (fst s)"
  "dr_refreshFresh (fst (measure_drain turns m s)) = dr_refreshFresh (fst s)"
  "dr_excluded (fst (measure_drain turns m s)) = dr_excluded (fst s)"
  by (cases s; simp add: measure_drain_def Let_def split: prod.split)+

lemma measure_drain_counts:
  "rm_nonterminalRuns (dr_remaining (fst (measure_drain turns m s)))
     = length (rm_runs (dr_remaining (fst (measure_drain turns m s))))"
  "rm_busySessions (dr_remaining (fst (measure_drain turns m s)))
     = length (rm_sessions (dr_remaining (fst (measure_drain turns m s))))"
  by (cases s; simp add: measure_drain_def Let_def split: prod.split)+

lemma write_record_sel [simp]:
  "dr_state (write_record cfg isoText w settled now d) = dr_state d"
  "dr_waiters (write_record cfg isoText w settled now d) = dr_waiters d"
  "dr_remaining (write_record cfg isoText w settled now d) = dr_remaining d"
  "dr_cutOffRunIds (write_record cfg isoText w settled now d) = dr_cutOffRunIds d"
  "dr_cutOffSessionIds (write_record cfg isoText w settled now d) = dr_cutOffSessionIds d"
  "dr_resolved (write_record cfg isoText w settled now d) = dr_resolved d"
  "dr_evaluating (write_record cfg isoText w settled now d) = dr_evaluating d"
  "dr_holdUntil (write_record cfg isoText w settled now d) = dr_holdUntil d"
  "dr_finishedAt (write_record cfg isoText w settled now d) = dr_finishedAt d"
  by (simp_all add: write_record_def)

lemma finish_drain_sel:
  "dr_state (finish_drain cfg isoText w settled now d) = (if settled then Settled else TimedOut)"
  "dr_waiters (finish_drain cfg isoText w settled now d) = 0"
  "dr_remaining (finish_drain cfg isoText w settled now d) = dr_remaining d"
  "dr_cutOffRunIds (finish_drain cfg isoText w settled now d) = dr_cutOffRunIds d"
  "dr_cutOffSessionIds (finish_drain cfg isoText w settled now d) = dr_cutOffSessionIds d"
  "dr_holdTimer (finish_drain cfg isoText w settled now d)"
  "dr_resolved (finish_drain cfg isoText w settled now d)
     = dr_resolved d @ replicate (dr_waiters d) (if settled then Settled else TimedOut)"
  by (simp_all add: finish_drain_def flush_waiters_def Let_def)

lemma verdict_ok_evaluate_begin [simp]: "verdict_ok (evaluate_begin d) = verdict_ok d"
  by (simp add: evaluate_begin_def verdict_ok_def split: drain_state.split)

text \<open>The three outcomes of a decision.\<close>

lemma decide_drain_cases:
  obtains (settled) d2 where "d2 = fst (measure_drain turns m s)" "nothing_left (dr_remaining d2)"
      "dr_refreshFresh d2"
      "decide_drain turns cfg isoText w now m s = (finish_drain cfg isoText w True now d2, snd (measure_drain turns m s))"
  | (timed_out) d2 where "d2 = fst (measure_drain turns m s)"
      "opt_val id (dr_timeoutMs d2) \<le> now - the (dr_startedAt d2)"
      "decide_drain turns cfg isoText w now m s = (finish_drain cfg isoText w False now
         (d2 \<lparr> dr_cutOffRunIds := map rr_runId (rm_runs (dr_remaining d2)),
               dr_cutOffSessionIds := map bz_sessionId (rm_sessions (dr_remaining d2)) \<rparr>),
         snd (measure_drain turns m s))"
  | (waiting) "decide_drain turns cfg isoText w now m s = measure_drain turns m s"
      "now - the (dr_startedAt (fst s)) < opt_val id (dr_timeoutMs (fst s))"
proof -
  define d2 where "d2 = fst (measure_drain turns m s)"
  let ?r = "dr_remaining d2"
  have left: "rm_activeTurns ?r = 0 \<and> rm_nonterminalRuns ?r = 0 \<and> rm_busySessions ?r = 0 \<longleftrightarrow> nothing_left ?r"
    using measure_drain_counts [of turns m s] by (auto simp: nothing_left_def d2_def)
  have eq: "decide_drain turns cfg isoText w now m s =
    (if nothing_left ?r \<and> dr_refreshFresh d2
     then (finish_drain cfg isoText w True now d2, snd (measure_drain turns m s))
     else if opt_val id (dr_timeoutMs d2) \<le> now - the (dr_startedAt d2)
     then (finish_drain cfg isoText w False now
            (d2 \<lparr> dr_cutOffRunIds := map rr_runId (rm_runs ?r),
                  dr_cutOffSessionIds := map bz_sessionId (rm_sessions ?r) \<rparr>), snd (measure_drain turns m s))
     else measure_drain turns m s)"
    unfolding decide_drain_def Let_def d2_def [symmetric] left [symmetric]
    by (cases "dr_timeoutMs d2") simp_all
  show thesis
  proof (cases "nothing_left ?r \<and> dr_refreshFresh d2")
    case True
    then show thesis by (intro settled [OF d2_def]) (simp_all add: eq)
  next
    case False
    show thesis
    proof (cases "opt_val id (dr_timeoutMs d2) \<le> now - the (dr_startedAt d2)")
      case True
      with False show thesis by (intro timed_out [OF d2_def]) (auto simp: eq)
    next
      case late: False
      show thesis
      proof (rule waiting)
        show "decide_drain turns cfg isoText w now m s = measure_drain turns m s"
          using False late by (auto simp: eq)
        show "now - the (dr_startedAt (fst s)) < opt_val id (dr_timeoutMs (fst s))"
          using late by (simp add: d2_def)
      qed
    qed
  qed
qed

lemma verdict_ok_decide:
  assumes "verdict_ok d" and "dr_state d = Draining"
  shows "verdict_ok (fst (decide_drain turns cfg isoText w now m (d, a)))"
proof (cases rule: decide_drain_cases [of turns m "(d, a)" cfg isoText w now])
  case (settled d2)
  then show ?thesis using assms by (simp add: verdict_ok_def finish_drain_sel)
next
  case (timed_out d2)
  then show ?thesis by (simp add: verdict_ok_def finish_drain_sel)
next
  case waiting
  then show ?thesis using assms by (simp add: verdict_ok_def)
qed

lemma verdict_ok_resume:
  assumes "verdict_ok d"
  shows "verdict_ok (fst (evaluate_resume turns cfg isoText w refreshed now m (d, a)))"
proof -
  define d1 where "d1 = d \<lparr> dr_refreshFresh := (\<not> dc_hasRefresh cfg \<or> refreshed), dr_evaluating := False \<rparr>"
  have "verdict_ok d1" using assms by (cases "dr_state d") (simp_all add: d1_def verdict_ok_def)
  then show ?thesis
    using assms verdict_ok_decide [of d1]
    unfolding evaluate_resume_def Let_def split d1_def [symmetric] by auto
qed

lemma verdict_ok_cancel:
  assumes "verdict_ok d"
  shows "verdict_ok (fst (cancel_drain gate_set turns cfg now endedBy m (d, a)))"
  using assms
  by (cases "dr_state d")
    (simp_all add: cancel_drain_def Let_def verdict_ok_def flush_waiters_def)

lemma verdict_ok_start:
  assumes "verdict_ok d"
  shows "verdict_ok (fst (snd (start_drain gate_set turns cfg now input m (d, a))))"
proof (cases "dr_state d = Idle")
  case True
  let ?d = "fst (measure_drain turns m (open_drain cfg now input d, gate_set (Some (now, di_reason input)) a))"
  have "verdict_ok ((note_initial ?d) \<lparr> dr_pollTimer := True \<rparr>)"
    by (simp add: note_initial_def Let_def verdict_ok_def open_drain_def)
  then show ?thesis using True by (simp add: start_drain_def Let_def)
next
  case False
  with assms show ?thesis by (simp add: start_drain_def)
qed

lemma verdict_ok_step:
  assumes "verdict_ok d"
  shows "verdict_ok (fst (drain_step gate_set turns cfg isoText opn (d, a)))"
proof (cases opn)
  case WaitOutcome
  with assms show ?thesis by (cases "dr_state d") (simp_all add: wait_for_outcome_def verdict_ok_def)
next
  case Shutdown
  with assms show ?thesis
    by (cases "dr_state d") (simp_all add: shutdown_drain_def flush_waiters_def clear_timers_def verdict_ok_def)
qed (use assms in \<open>simp_all add: verdict_ok_start verdict_ok_resume verdict_ok_cancel\<close>)

text \<open>The gate is closed exactly while the controller is not idle.\<close>

definition gate_ok :: "('a \<Rightarrow> (int \<times> jsstr) option) \<Rightarrow> drain \<times> 'a \<Rightarrow> bool" where
  "gate_ok gate_get s \<longleftrightarrow> (dr_state (fst s) = Idle \<longleftrightarrow> gate_get (snd s) = None)"

lemma evaluate_begin_state [simp]: "dr_state (evaluate_begin d) = dr_state d"
  by (simp add: evaluate_begin_def)

lemma start_drain_state:
  "dr_state (fst (snd (start_drain gate_set turns cfg now input m (d, a))))
     = (if dr_state d = Idle then Draining else dr_state d)"
  by (simp add: start_drain_def Let_def note_initial_def open_drain_def)

lemma cancel_drain_state:
  "dr_state (fst (cancel_drain gate_set turns cfg now endedBy m (d, a))) = Idle"
  by (simp add: cancel_drain_def Let_def flush_waiters_def)

lemma decide_state_idle:
  assumes "dr_state d \<noteq> Idle"
  shows "dr_state (fst (decide_drain turns cfg isoText w now m (d, a))) \<noteq> Idle"
  by (cases rule: decide_drain_cases [of turns m "(d, a)" cfg isoText w now])
    (use assms in \<open>simp_all add: finish_drain_sel\<close>)

lemma resume_state_idle:
  "dr_state (fst (evaluate_resume turns cfg isoText w refreshed now m (d, a))) = Idle \<longleftrightarrow> dr_state d = Idle"
  by (auto simp: evaluate_resume_def Let_def decide_state_idle)

lemma decide_snd: "snd (decide_drain turns cfg isoText w now m s) = snd (measure_drain turns m s)"
  by (cases rule: decide_drain_cases [of turns m s cfg isoText w now]) simp_all

context drain_admission
begin

lemma measure_gate: "gate_get (snd (measure_drain turns m (d, a))) = gate_get a"
  using turns_gate [of "ms_readings m" a]
  by (cases "turns (ms_readings m) a") (simp add: measure_drain_def Let_def)

lemma start_gate:
  "gate_get (snd (snd (start_drain gate_set turns cfg now input m (d, a))))
     = (if dr_state d = Idle then Some (now, di_reason input) else gate_get a)"
  by (simp add: start_drain_def Let_def measure_gate gate_get_set)

lemma cancel_gate:
  "gate_get (snd (cancel_drain gate_set turns cfg now endedBy m (d, a)))
     = (if dr_state d = Idle then gate_get a else None)"
  by (simp add: cancel_drain_def Let_def gate_get_set)

lemma resume_gate:
  "gate_get (snd (evaluate_resume turns cfg isoText w refreshed now m (d, a))) = gate_get a"
  by (simp add: evaluate_resume_def Let_def decide_snd measure_gate)

lemma step_gate:
  assumes "gate_ok gate_get (d, a)"
  shows "gate_ok gate_get (drain_step gate_set turns cfg isoText opn (d, a))"
  using assms
  by (cases opn)
    (auto simp: gate_ok_def start_gate start_drain_state cancel_gate cancel_drain_state resume_gate
      resume_state_idle wait_for_outcome_def shutdown_drain_def flush_waiters_def clear_timers_def)

text \<open>Joining a drain in progress changes nothing.\<close>

lemma start_joins: "dr_state d \<noteq> Idle \<Longrightarrow> start_drain gate_set turns cfg now input m (d, a) = (True, d, a)"
  by (simp add: start_drain_def)

end

subsection \<open>The drain and the admission controller together\<close>

text \<open>Drain operations interleaved with every operation of the admission controller except the
  one the drain owns.\<close>

datatype world_op = DrainOp "readings drain_op" | AdmOp adm_op

fun foreign :: "world_op \<Rightarrow> bool" where
  "foreign (AdmOp (SetDraining _)) = True"
| "foreign _ = False"

fun world_step ::
  "admission_config \<Rightarrow> drain_config \<Rightarrow> (int \<Rightarrow> jsstr) \<Rightarrow> world_op \<Rightarrow> drain \<times> admission \<Rightarrow> drain \<times> admission" where
  "world_step acfg cfg isoText (DrainOp opn) s =
     drain_step set_draining (snapshot_turns acfg) cfg isoText opn s"
| "world_step acfg cfg isoText (AdmOp opn) (d, a) = (d, adm_step acfg opn a)"

definition world_run ::
  "admission_config \<Rightarrow> drain_config \<Rightarrow> (int \<Rightarrow> jsstr) \<Rightarrow> world_op list \<Rightarrow> drain \<times> admission" where
  "world_run acfg cfg isoText ops = fold (world_step acfg cfg isoText) ops (drain_init, admission_init)"

lemma acquire_draining: "ad_draining (snd (acquire cfg rd rt cls a)) = ad_draining a"
  by (cases rule: acquire_cases [of cfg rd a rt cls]) (simp_all add: same_books_def)

lemma adm_step_gate:
  "\<not> foreign (AdmOp opn) \<Longrightarrow> get_draining (adm_step cfg opn a) = get_draining a"
  using observe_lag_same snapshot_same assert_create_same
  by (cases opn) (auto simp: get_draining_def acquire_draining release_def Let_def same_books_def)

definition world_ok :: "drain \<times> admission \<Rightarrow> bool" where
  "world_ok s \<longleftrightarrow> verdict_ok (fst s) \<and> gate_ok get_draining s"

lemma world_step_ok:
  assumes "world_ok s" and "\<not> foreign opn"
  shows "world_ok (world_step acfg cfg isoText opn s)"
proof (cases s)
  case (Pair d a)
  show ?thesis
  proof (cases opn)
    case (DrainOp dop)
    then show ?thesis
      using assms Pair adm.step_gate [of d a acfg cfg isoText dop]
      by (simp add: world_ok_def verdict_ok_step)
  next
    case (AdmOp aop)
    then show ?thesis
      using assms Pair adm_step_gate [of aop acfg a] by (simp add: world_ok_def gate_ok_def)
  qed
qed

lemma world_run_ok:
  assumes "list_all (\<lambda>opn. \<not> foreign opn) ops"
  shows "world_ok (world_run acfg cfg isoText ops)"
proof -
  have "world_ok s \<Longrightarrow> list_all (\<lambda>opn. \<not> foreign opn) ops \<Longrightarrow>
      world_ok (fold (world_step acfg cfg isoText) ops s)" for s
    by (induction ops arbitrary: s) (simp_all add: world_step_ok)
  moreover have "world_ok (drain_init, admission_init)"
    by (simp add: world_ok_def verdict_ok_def gate_ok_def drain_init_def admission_init_def get_draining_def)
  ultimately show ?thesis using assms by (simp add: world_run_def)
qed

subsection \<open>Reading back the record\<close>

lemma safe_ids_map: "safe_ids (map JStr ids) = filter safe_run_id ids"
  by (induction ids) auto

definition record_safe :: "drain_record \<Rightarrow> bool" where
  "record_safe r \<longleftrightarrow> length (dx_reason r) \<le> 500 \<and> list_all safe_run_id (dx_cutOffRunIds r)
     \<and> list_all (\<lambda>s. safe_run_id (bz_sessionId s) \<and> length (bz_runtime s) \<le> 32
          \<and> length (bz_busyReason s) \<le> 64 \<and> list_all safe_run_id (bz_runIds s)) (dx_cutOffSessions r)"

lemma read_busy_session_json:
  assumes "safe_run_id (bz_sessionId s)" "length (bz_runtime s) \<le> 32" "length (bz_busyReason s) \<le> 64"
    "list_all safe_run_id (bz_runIds s)"
  shows "read_busy_session (busy_session_json s) = Some s"
  using assms
  by (simp add: read_busy_session_def busy_session_json_def id_list_of_def safe_ids_map list_all_iff)

lemma read_record_json:
  assumes "record_safe r"
  shows "read_drain_record (Some (drain_record_json r)) = Some r"
proof -
  have "List.map_filter read_busy_session (map busy_session_json ss) = ss"
    if "list_all (\<lambda>s. safe_run_id (bz_sessionId s) \<and> length (bz_runtime s) \<le> 32
          \<and> length (bz_busyReason s) \<le> 64 \<and> list_all safe_run_id (bz_runIds s)) ss" for ss
    using that by (induction ss) (simp_all add: map_filter_simps read_busy_session_json)
  then show ?thesis
    using assms
    by (simp add: read_drain_record_def drain_record_json_def Let_def record_safe_def text_of_def
        id_list_of_def safe_ids_map read_busy_sessions_def list_all_iff)
qed

subsection \<open>Properties\<close>

lemma resume_pending:
  assumes "dr_state d = Draining" and "dr_startedAt d \<noteq> None" and "dr_evaluating d"
  shows "evaluate_resume turns cfg isoText w refreshed now m (d, a) =
    decide_drain turns cfg isoText w now m
      (d \<lparr> dr_refreshFresh := (\<not> dc_hasRefresh cfg \<or> refreshed), dr_evaluating := False \<rparr>, a)"
  using assms by (auto simp: evaluate_resume_def Let_def)

lemma measure_remaining_ext:
  "dr_excluded d' = dr_excluded d \<Longrightarrow>
     dr_remaining (fst (measure_drain turns m (d', a))) = dr_remaining (fst (measure_drain turns m (d, a)))"
  by (simp add: measure_drain_def Let_def split: prod.split)

lemma measure_drain_resolved [simp]:
  "dr_resolved (fst (measure_drain turns m s)) = dr_resolved (fst s)"
  by (cases s) (simp add: measure_drain_def Let_def split: prod.split)

lemma verdict_ok_draining: "verdict_ok d \<Longrightarrow> dr_state d = Draining \<Longrightarrow> dr_startedAt d \<noteq> None"
  by (simp add: verdict_ok_def)

text \<open>C17: whatever is interleaved with it, the drain keeps the admission gate closed exactly
  while it is not idle: no new execution is admitted from the start of a drain until it is
  cancelled or its hold expires, and admission is open at every other time.\<close>

theorem gate_closed_iff_draining:
  assumes "list_all (\<lambda>opn. \<not> foreign opn) ops" and "world_run acfg cfg isoText ops = (d, a)"
  shows "(get_draining a \<noteq> None \<longleftrightarrow> dr_state d \<noteq> Idle)
    \<and> st_draining (status_of cfg get_draining now (d, a)) = (dr_state d \<noteq> Idle)
    \<and> (dr_state d = Idle \<or>
        (\<exists>err b. acquire acfg rd rt P2 a = (Inl err, b) \<and> ae_reason err = draining))"
proof -
  have gate: "dr_state d = Idle \<longleftrightarrow> get_draining a = None"
    using world_run_ok [OF assms(1), of acfg cfg isoText] assms(2) by (simp add: world_ok_def gate_ok_def)
  have "\<exists>err b. acquire acfg rd rt P2 a = (Inl err, b) \<and> ae_reason err = draining"
    if "dr_state d \<noteq> Idle"
  proof (cases rule: acquire_cases [of acfg rd a rt P2])
    case (refused p b err)
    have "ad_draining b \<noteq> None"
      using refused(2) gate that by (simp add: same_books_def get_draining_def)
    with refused(4) have "ae_reason err = draining"
      by (simp add: refusal_reason_for_def control_classes_def)
    with refused(3) show ?thesis by blast
  next
    case (granted p b)
    have "ad_draining b \<noteq> None"
      using granted(2) gate that by (simp add: same_books_def get_draining_def)
    with granted(3) show ?thesis by (simp add: refusal_reason_for_def control_classes_def)
  qed
  with gate show ?thesis by (auto simp: status_of_def Let_def)
qed

definition sample_deps :: drain_deps where
  "sample_deps = \<lparr> dd_hasRefresh = True, dd_busyRefreshTimeoutMs = None, dd_hasRecordPath = True,
     dd_pollIntervalMs = None, dd_defaultTimeoutMs = None, dd_maxTimeoutMs = None, dd_holdMs = None,
     dd_retryAfterSeconds = None, dd_hasOnTimedOut = False \<rparr>"

definition sample_input :: drain_input where
  "sample_input = \<lparr> di_reason = js ''deploy'', di_timeoutMs = Some (Fin 1000), di_holdMs = None,
     di_excludeSessionIds = None \<rparr>"

definition sample_measurement :: "drain_run_ref list \<Rightarrow> readings measurement" where
  "sample_measurement runs = \<lparr> ms_runs = Some runs, ms_readings = sample_readings,
     ms_quarantined = Some 0, ms_busy = Some [], ms_unlinks = True \<rparr>"

definition sample_run :: drain_run_ref where
  "sample_run = \<lparr> rr_runId = js ''r1'', rr_sessionId = js ''s1'', rr_runtime = js ''pi'',
     rr_status = js ''started'' \<rparr>"

definition sample_world :: "drain \<times> admission" where
  "sample_world = world_run sample_admission_config (drain_config_of sample_deps) (\<lambda>t. [])
     [DrainOp (Start 0 sample_input (sample_measurement [sample_run])), DrainOp WaitOutcome]"

lemma sample_world_run:
  "world_run sample_admission_config (drain_config_of sample_deps) (\<lambda>t. [])
     [DrainOp (Start 0 sample_input (sample_measurement [sample_run])), DrainOp WaitOutcome]
   = (fst sample_world, snd sample_world)"
  by (simp add: sample_world_def)

lemmas drain_eval = world_run_def drain_config_of_def sample_deps_def sample_input_def
  sample_measurement_def start_drain_def open_drain_def measure_drain_def note_initial_def
  evaluate_begin_def clear_timers_def wait_for_outcome_def drain_init_def list_or_empty_def
  js_set_of_def run_ids_of_def clamp_int_def max_drain_timeout_ms_def snapshot_turns_eq

lemma sample_world_draining:
  "dr_state (fst sample_world) = Draining \<and> dr_startedAt (fst sample_world) = Some 0
   \<and> dr_timeoutMs (fst sample_world) = Some 1000 \<and> dr_evaluating (fst sample_world)
   \<and> dr_waiters (fst sample_world) = 1 \<and> dr_excluded (fst sample_world) = []"
  by (simp add: sample_world_def drain_eval Let_def)

theorem gate_closed_iff_draining_witness:
  "get_draining (snd sample_world) \<noteq> None"
proof -
  have "get_draining (snd sample_world) \<noteq> None \<longleftrightarrow> dr_state (fst sample_world) \<noteq> Idle"
    by (rule gate_closed_iff_draining [THEN conjunct1, OF _
          sample_world_run])
      simp
  then show ?thesis using sample_world_draining by simp
qed

text \<open>C16: the recorded verdict is true of the measurement it was taken on. A settled drain had
  no active turn, no nonterminal run and no busy session left and cuts nothing off; a drain that
  timed out cuts off exactly the runs and the sessions then remaining; and nobody is left waiting
  once a verdict is reached.\<close>

theorem drain_verdict_sound:
  assumes "list_all (\<lambda>opn. \<not> foreign opn) ops" and "world_run acfg cfg isoText ops = (d, a)"
  shows "case dr_state d of
      Idle \<Rightarrow> dr_waiters d = 0
    | Draining \<Rightarrow> dr_cutOffRunIds d = [] \<and> dr_cutOffSessionIds d = []
    | Settled \<Rightarrow> dr_waiters d = 0 \<and> nothing_left (dr_remaining d)
        \<and> dr_cutOffRunIds d = [] \<and> dr_cutOffSessionIds d = []
    | TimedOut \<Rightarrow> dr_waiters d = 0
        \<and> dr_cutOffRunIds d = map rr_runId (rm_runs (dr_remaining d))
        \<and> dr_cutOffSessionIds d = map bz_sessionId (rm_sessions (dr_remaining d))"
  using world_run_ok [OF assms(1), of acfg cfg isoText] assms(2)
  by (cases "dr_state d") (simp_all add: world_ok_def verdict_ok_def)

theorem drain_verdict_sound_witness:
  "(case dr_state (fst sample_world) of
      Idle \<Rightarrow> dr_waiters (fst sample_world) = 0
    | Draining \<Rightarrow> dr_cutOffRunIds (fst sample_world) = [] \<and> dr_cutOffSessionIds (fst sample_world) = []
    | Settled \<Rightarrow> dr_waiters (fst sample_world) = 0 \<and> nothing_left (dr_remaining (fst sample_world))
        \<and> dr_cutOffRunIds (fst sample_world) = [] \<and> dr_cutOffSessionIds (fst sample_world) = []
    | TimedOut \<Rightarrow> dr_waiters (fst sample_world) = 0
        \<and> dr_cutOffRunIds (fst sample_world) = map rr_runId (rm_runs (dr_remaining (fst sample_world)))
        \<and> dr_cutOffSessionIds (fst sample_world)
            = map bz_sessionId (rm_sessions (dr_remaining (fst sample_world))))"
  by (rule drain_verdict_sound [OF _ sample_world_run])
    simp

text \<open>a pending evaluation decides. It settles exactly when the busy refresh succeeded and
  nothing is left; at or after the timeout it always reaches a verdict, whatever the refresh did;
  and when it reaches one every waiting caller is answered with it.\<close>

theorem evaluation_decides:
  assumes "dr_state d = Draining" and "dr_startedAt d = Some t0" and "dr_timeoutMs d = Some limit"
    and "dr_evaluating d" and "dc_hasRefresh cfg"
    and "d' = fst (evaluate_resume turns cfg isoText w refreshed now m (d, a))"
  shows "(dr_state d' = Settled \<longleftrightarrow>
            refreshed \<and> nothing_left (dr_remaining (fst (measure_drain turns m (d, a)))))
    \<and> (now - t0 < limit \<or> dr_state d' = Settled \<or> dr_state d' = TimedOut)
    \<and> (dr_state d' = Draining \<or>
        dr_resolved d' = dr_resolved d @ replicate (dr_waiters d) (dr_state d') \<and> dr_waiters d' = 0
        \<and> dr_holdTimer d')"
proof -
  define d1 where "d1 = d \<lparr> dr_refreshFresh := (\<not> dc_hasRefresh cfg \<or> refreshed), dr_evaluating := False \<rparr>"
  have d': "d' = fst (decide_drain turns cfg isoText w now m (d1, a))"
    using assms(1-4,6) resume_pending [of d turns cfg isoText w refreshed now m a]
    by (simp add: d1_def)
  have fresh: "dr_refreshFresh d1 = refreshed" using assms(5) by (simp add: d1_def)
  have rem: "dr_remaining (fst (measure_drain turns m (d1, a))) = dr_remaining (fst (measure_drain turns m (d, a)))"
    by (rule measure_remaining_ext) (simp add: d1_def)
  have fields: "dr_state d1 = Draining" "dr_startedAt d1 = Some t0" "dr_timeoutMs d1 = Some limit"
    "dr_resolved d1 = dr_resolved d" "dr_waiters d1 = dr_waiters d"
    using assms(1-3) by (simp_all add: d1_def)
  show ?thesis
  proof (cases rule: decide_drain_cases [of turns m "(d1, a)" cfg isoText w now])
    case (settled d2)
    then show ?thesis using d' fresh rem fields by (simp add: finish_drain_sel)
  next
    case (timed_out d2)
    have "\<not> (refreshed \<and> nothing_left (dr_remaining (fst (measure_drain turns m (d, a)))))"
    proof
      assume *: "refreshed \<and> nothing_left (dr_remaining (fst (measure_drain turns m (d, a))))"
      then have "dr_state (fst (decide_drain turns cfg isoText w now m (d1, a))) = Settled"
        using rem fresh by (simp add: decide_drain_def Let_def nothing_left_def finish_drain_sel)
      then show False using timed_out(3) by (simp add: finish_drain_sel)
    qed
    then show ?thesis using timed_out d' fields by (simp add: finish_drain_sel)
  next
    case waiting
    have "\<not> (refreshed \<and> nothing_left (dr_remaining (fst (measure_drain turns m (d, a)))))"
    proof
      assume *: "refreshed \<and> nothing_left (dr_remaining (fst (measure_drain turns m (d, a))))"
      then have "dr_state (fst (decide_drain turns cfg isoText w now m (d1, a))) = Settled"
        using rem fresh by (simp add: decide_drain_def Let_def nothing_left_def finish_drain_sel)
      then show False using waiting(1) fields by simp
    qed
    then show ?thesis using waiting d' fields by simp
  qed
qed

theorem evaluation_decides_witness:
  "dr_state (fst (evaluate_resume (snapshot_turns sample_admission_config) (drain_config_of sample_deps)
      (\<lambda>t. []) True False 5000 (sample_measurement [sample_run]) (fst sample_world, snd sample_world)))
     = TimedOut"
proof -
  have *: "dc_hasRefresh (drain_config_of sample_deps)" by (simp add: drain_config_of_def sample_deps_def Let_def)
  show ?thesis
    using evaluation_decides [OF _ _ _ _ * refl, of "fst sample_world" 0 1000
        "snapshot_turns sample_admission_config" "\<lambda>t. []" True False 5000
        "sample_measurement [sample_run]" "snd sample_world"] sample_world_draining
    by auto
qed

lemma measure_drain_file [simp]: "dr_file (fst (measure_drain turns m (d, a))) = dr_file d"
  by (cases "turns (ms_readings m) a") (simp add: measure_drain_def Let_def)

text \<open>No drain closes the gate for ever. When the hold timer of a finished drain fires, admission is
  reopened, the durable record is removed (where the unlink succeeds; else it stays for the next boot),
  every waiting caller is answered, and the verdict is kept as the last outcome.\<close>

theorem hold_expiry_reopens:
  assumes "dr_state d \<noteq> Idle" and "dr_holdTimer d" and "dc_hasRecordPath cfg"
  shows "(let (d', a') = drain_step set_draining (snapshot_turns acfg) cfg isoText (HoldExpired now m) (d, a) in
     dr_state d' = Idle \<and> get_draining a' = None \<and> dr_file d' = (if ms_unlinks m then None else dr_file d) \<and> dr_waiters d' = 0
     \<and> dr_pollTimer d' = False \<and> dr_holdTimer d' = False
     \<and> map_option oc_state (dr_lastOutcome d') = Some (dr_state d)
     \<and> map_option oc_cutOffRunIds (dr_lastOutcome d') = Some (dr_cutOffRunIds d))"
  using assms
  by (simp add: cancel_drain_def Let_def flush_waiters_def clear_timers_def adm.gate_get_set)

theorem hold_expiry_reopens_witness:
  "get_draining (snd (drain_step set_draining (snapshot_turns sample_admission_config)
     (drain_config_of sample_deps) (\<lambda>t. []) (HoldExpired 9 (sample_measurement []))
     (drain_init \<lparr> dr_state := Settled, dr_holdTimer := True \<rparr>, admission_init))) = None"
proof -
  have *: "dc_hasRecordPath (drain_config_of sample_deps)"
    by (simp add: drain_config_of_def sample_deps_def Let_def)
  show ?thesis
    using hold_expiry_reopens [OF _ _ *, of "drain_init \<lparr> dr_state := Settled, dr_holdTimer := True \<rparr>"
        sample_admission_config "\<lambda>t. []" 9 "sample_measurement []" admission_init]
    by (simp add: case_prod_unfold Let_def)
qed

text \<open>C37: the verdict survives the restart. What a drain writes reads back unchanged when its
  identifiers are safe and its texts within their bounds, and it is consumed once: the record is
  returned at the first boot and is absent at the next.\<close>

theorem drain_record_roundtrip:
  assumes "record_safe r" and "renameOk \<or> unlinkOk"
  shows "read_drain_record (Some (drain_record_json r)) = Some r
    \<and> fst (consume_drain_record renameOk unlinkOk (Some (drain_record_json r), kept)) = Some r
    \<and> fst (consume_drain_record renameOk' unlinkOk'
         (snd (consume_drain_record renameOk unlinkOk (Some (drain_record_json r), kept)))) = None"
  using read_record_json [OF assms(1)] assms(2)
  by (auto simp: consume_drain_record_def) (simp_all add: read_drain_record_def)

definition sample_record :: drain_record where
  "sample_record = \<lparr> dx_settled = False, dx_reason = js ''deploy'', dx_startedAt = js ''t0'',
     dx_finishedAt = js ''t1'', dx_cutOffRunIds = [js ''run_1''],
     dx_cutOffSessions = [\<lparr> bz_sessionId = js ''s-1'', bz_runtime = js ''pi'',
        bz_busyReason = js ''sdk_streaming'', bz_runIds = [js ''run_1''] \<rparr>],
     dx_busyRefreshFresh = False \<rparr>"

theorem drain_record_roundtrip_witness:
  "read_drain_record (Some (drain_record_json sample_record)) = Some sample_record"
  by (rule drain_record_roundtrip [where renameOk = True and unlinkOk = True, THEN conjunct1])
    (simp_all add: record_safe_def sample_record_def safe_run_id_def safe_char_def js_def)

text \<open>at boot exactly the cut-off sessions that nothing else accounts for are reported as
  interrupted: not after a settled drain, not those whose runs were recovered, and not those
  whose every recorded run finished before the restart.\<close>

theorem interrupted_sessions_exact:
  "map ir_sessionId (compose_interrupted_busy_sessions (Some r) recovered receiptStatus) =
     (if dx_settled r then []
      else map bz_sessionId (filter (\<lambda>s. bz_sessionId s \<notin> recovered \<and> \<not> all_finished receiptStatus s)
             (dx_cutOffSessions r)))
   \<and> compose_interrupted_busy_sessions None recovered receiptStatus = []"
proof -
  have "map ir_sessionId (compose_interrupted recovered receiptStatus ss)
      = map bz_sessionId (filter (\<lambda>s. bz_sessionId s \<notin> recovered \<and> \<not> all_finished receiptStatus s) ss)" for ss
    by (induction ss) (simp_all add: interrupted_ref_of_def)
  then show ?thesis by (simp add: compose_interrupted_busy_sessions_def)
qed

text \<open>a failed registry listing is taken for a fresh snapshot. The busy source resolves its
  promise also when the listing failed, so an evaluation after such a refresh settles the drain
  even though a session that only the registry knows of is running.\<close>

theorem failed_listing_settles:
  assumes "dr_state d = Draining" and "dr_startedAt d \<noteq> None" and "dr_evaluating d"
    and "source_refresh_end None (source_refresh_begin busy_source_init) = (refreshed, b)"
    and "ms_busy m = Some (list_busy_sessions (Some []) running b)"
    and "ms_runs m = Some []" and "ms_quarantined m = Some 0" and "fst (turns (ms_readings m) a) = 0"
  shows "dr_state (fst (evaluate_resume turns cfg isoText w refreshed now m (d, a))) = Settled"
proof -
  have "refreshed" "b = busy_source_init"
    using assms(4) by (simp_all add: source_refresh_end_def source_refresh_begin_def busy_source_init_def)
  then have "list_busy_sessions (Some []) running b = []"
    by (simp add: list_busy_sessions_def busy_source_init_def list_or_empty_def)
  with assms \<open>refreshed\<close> show ?thesis
    by (cases "turns (ms_readings m) a")
      (simp add: resume_pending decide_drain_def Let_def measure_drain_def list_or_empty_def
        finish_drain_sel)
qed

theorem failed_listing_settles_witness:
  "dr_state (fst (evaluate_resume (snapshot_turns sample_admission_config) (drain_config_of sample_deps)
     (\<lambda>t. []) True True 10 (sample_measurement []) (fst sample_world, admission_init))) = Settled"
  by (rule failed_listing_settles [where b = busy_source_init and running = "\<lambda>_ _. Some True"])
    (simp_all add: sample_world_draining source_refresh_end_def source_refresh_begin_def
      busy_source_init_def sample_measurement_def list_busy_sessions_def list_or_empty_def
      snapshot_turns_eq admission_eval)

end
