(* ===== verification/Receipt_Schema.thy ===== *)
theory Receipt_Schema
  imports Drain Payload_Budget
begin

text \<open>
  What a stored run receipt may look like: \<open>RunReceiptStore.validate\<close> and the validators it
  calls, in \<open>internal-api/run-receipts/run-receipt-store.ts\<close>.

  A receipt is the JavaScript object itself (\<open>js_object\<close>: its properties in insertion order),
  because the code validates values it has parsed from disk. A validator is the list of its
  checks in the order of the source; \<open>first_error\<close> is the message of the first one that fails
  (\<open>None\<close>: it returns), and reading a property of \<open>undefined\<close>, a \<open>TypeError\<close> in JavaScript,
  is the failing check of the test that reads it. \<open>Date.parse\<close> is the argument \<open>dp\<close>: its
  result outside the ISO format is implementation defined (\<open>None\<close> is \<open>NaN\<close>).

  \<open>json_clone v\<close> is \<open>JSON.parse (JSON.stringify v)\<close>: what a write to disk and a read back
  leave of a value. The last section shows that a valid receipt is still valid after it.
\<close>

subsection \<open>Reading dynamic values\<close>

definition getp :: "js_object \<Rightarrow> string \<Rightarrow> json" where
  "getp r k = (case jm_get r (js k) of None \<Rightarrow> JUndef | Some v \<Rightarrow> v)"

definition prp :: "json \<Rightarrow> string \<Rightarrow> json" where
  "prp v k = prop_json v (js k)"

fun is_obj :: "json \<Rightarrow> bool" where
  "is_obj (JObj m) = True"
| "is_obj _ = False"

fun is_str :: "json \<Rightarrow> bool" where
  "is_str (JStr s) = True"
| "is_str _ = False"

fun is_bool :: "json \<Rightarrow> bool" where
  "is_bool (JBool b) = True"
| "is_bool _ = False"

fun is_number :: "json \<Rightarrow> bool" where
  "is_number (JNum t) = True"
| "is_number JNonFinite = True"
| "is_number _ = False"

text \<open>A condition on a string or array that a value of another type does not meet.\<close>

fun str_meets :: "(jsstr \<Rightarrow> bool) \<Rightarrow> json \<Rightarrow> bool" where
  "str_meets p (JStr s) = p s"
| "str_meets p _ = False"

fun arr_meets :: "(json list \<Rightarrow> bool) \<Rightarrow> json \<Rightarrow> bool" where
  "arr_meets p (JArr vs) = p vs"
| "arr_meets p _ = False"

definition one_of :: "string list \<Rightarrow> json \<Rightarrow> bool" where
  "one_of L = str_meets (\<lambda>s. s \<in> js ` set L)"

definition is_text :: "string \<Rightarrow> json \<Rightarrow> bool" where
  "is_text s v \<longleftrightarrow> v = JStr (js s)"

fun truthy :: "json \<Rightarrow> bool" where
  "truthy JUndef = False"
| "truthy JNull = False"
| "truthy (JBool b) = b"
| "truthy (JNum t) = (t \<noteq> js ''0'')"
| "truthy JNonFinite = False"
| "truthy (JStr s) = (s \<noteq> [])"
| "truthy _ = True"

text \<open>\<open>===\<close>: two objects read from different places are never the same.\<close>

fun strict_eq :: "json \<Rightarrow> json \<Rightarrow> bool" where
  "strict_eq (JObj _) _ = False"
| "strict_eq (JArr _) _ = False"
| "strict_eq JNonFinite _ = False"
| "strict_eq a b = (a = b)"

text \<open>\<open>String(v)\<close>, which \<open>RegExp.test\<close> applies to its argument.\<close>

fun js_string :: "json \<Rightarrow> jsstr" where
  "js_string JUndef = js ''undefined''"
| "js_string JNull = js ''null''"
| "js_string (JBool b) = (if b then js ''true'' else js ''false'')"
| "js_string (JNum t) = t"
| "js_string JNonFinite = js ''NaN''"
| "js_string (JStr s) = s"
| "js_string (JArr vs) =
     join_with 44 (map (\<lambda>v. case v of JUndef \<Rightarrow> [] | JNull \<Rightarrow> [] | _ \<Rightarrow> js_string v) vs)"
| "js_string (JObj m) = js ''[object Object]''"

text \<open>\<open>Object.keys\<close>; \<open>None\<close> is its \<open>TypeError\<close>.\<close>

fun object_keys :: "json \<Rightarrow> jsstr list option" where
  "object_keys JUndef = None"
| "object_keys JNull = None"
| "object_keys (JObj m) = Some (map fst m)"
| "object_keys (JArr vs) = Some (map nat_text [0..<length vs])"
| "object_keys (JStr s) = Some (map nat_text [0..<length s])"
| "object_keys _ = Some []"

text \<open>
  Numbers are the text \<open>String(n)\<close> prints: an integer below \<open>2 ^ 53\<close> is printed as its plain
  decimal digits, a positive number is one that starts with neither a minus sign nor is zero.
\<close>

definition is_digit :: "nat \<Rightarrow> bool" where
  "is_digit c \<longleftrightarrow> 48 \<le> c \<and> c \<le> 57"

definition digits_value :: "jsstr \<Rightarrow> int" where
  "digits_value = foldl (\<lambda>a c. 10 * a + (int c - 48)) 0"

definition integer_of_text :: "jsstr \<Rightarrow> int option" where
  "integer_of_text t =
     (case t of
        [] \<Rightarrow> None
      | c # cs \<Rightarrow> if c = 45 \<and> cs \<noteq> [] \<and> list_all is_digit cs then Some (- digits_value cs)
                  else if list_all is_digit t then Some (digits_value t) else None)"

fun safe_int :: "json \<Rightarrow> int option" where
  "safe_int (JNum t) =
     (case integer_of_text t of
        Some n \<Rightarrow> if \<bar>n\<bar> \<le> 2 ^ 53 - 1 then Some n else None
      | None \<Rightarrow> None)"
| "safe_int _ = None"

definition count_upto :: "int \<Rightarrow> json \<Rightarrow> bool" where
  "count_upto hi v = (case safe_int v of Some n \<Rightarrow> 0 \<le> n \<and> n \<le> hi | None \<Rightarrow> False)"

fun positive_number :: "json \<Rightarrow> bool" where
  "positive_number (JNum t) = (t \<noteq> [] \<and> hd t \<noteq> 45 \<and> t \<noteq> js ''0'')"
| "positive_number _ = False"

subsection \<open>Checks\<close>

definition check :: "bool \<Rightarrow> string \<Rightarrow> string option" where
  "check c msg = (if c then None else Some msg)"

fun first_error :: "string option list \<Rightarrow> string option" where
  "first_error [] = None"
| "first_error (None # es) = first_error es"
| "first_error (Some e # es) = Some e"

lemma check_None [simp]: "check c msg = None \<longleftrightarrow> c"
  by (simp add: check_def)

lemma first_error_None [simp]: "first_error es = None \<longleftrightarrow> list_all (\<lambda>e. e = None) es"
  by (induction es rule: first_error.induct) auto

definition assert_only_keys :: "json \<Rightarrow> string list \<Rightarrow> string \<Rightarrow> string option" where
  "assert_only_keys v allowed label =
     (case object_keys v of
        None \<Rightarrow> Some ''TypeError''
      | Some ks \<Rightarrow> check (list_all (\<lambda>k. k \<in> js ` set allowed) ks)
                     (''Unsupported or unsafe field of '' @ label))"

definition assert_iso_timestamp :: "(jsstr \<Rightarrow> int option) \<Rightarrow> json \<Rightarrow> string \<Rightarrow> string option" where
  "assert_iso_timestamp dp v label = check (str_meets (\<lambda>s. dp s \<noteq> None) v) (''Invalid '' @ label)"

definition safe_digest :: "jsstr \<Rightarrow> bool" where
  "safe_digest s \<longleftrightarrow> length s = 64 \<and> list_all (\<lambda>c. is_digit c \<or> (97 \<le> c \<and> c \<le> 102)) s"

definition safe_error_code :: "jsstr \<Rightarrow> bool" where
  "safe_error_code s \<longleftrightarrow> 1 \<le> length s \<and> length s \<le> 100
     \<and> list_all (\<lambda>c. is_digit c \<or> (65 \<le> c \<and> c \<le> 90) \<or> c = 95) s"

definition safe_event_type :: "jsstr \<Rightarrow> bool" where
  "safe_event_type s \<longleftrightarrow>
     (case s of [] \<Rightarrow> False
      | c # cs \<Rightarrow> 97 \<le> c \<and> c \<le> 122 \<and> length cs \<le> 63
          \<and> list_all (\<lambda>c. is_digit c \<or> (97 \<le> c \<and> c \<le> 122) \<or> c = 95) cs)"

subsection \<open>The nested validators\<close>

definition phase7_reason_codes :: "string list" where
  "phase7_reason_codes =
     [''default_standard'', ''message_tool_signal'', ''message_fork_or_memory_signal'',
      ''prompt_size_threshold'', ''tool_event_threshold'', ''turn_duration_threshold'']"

definition phase7_shadow_keys :: "string list" where
  "phase7_shadow_keys = [''policyVersion'', ''mode'', ''profile'', ''reasonCodes'', ''affinity'',
     ''resourceIdentity'', ''evidence'']"

definition validate_phase7_shadow :: "json \<Rightarrow> string option" where
  "validate_phase7_shadow v =
     (let affinity = prp v ''affinity'';
          resource = prp v ''resourceIdentity'';
          evidence = prp v ''evidence'';
          reasons = prp v ''reasonCodes'' in
      first_error
        [check (is_obj v) ''Invalid Phase 7 shadow evidence'',
         assert_only_keys v phase7_shadow_keys ''Phase 7 shadow'',
         check (is_text ''phase7-pi-shadow/v1'' (prp v ''policyVersion'')) ''Invalid Phase 7 shadow policy version'',
         check (is_text ''shadow'' (prp v ''mode'')) ''Invalid Phase 7 shadow mode'',
         check (one_of [''standard'', ''heavy'', ''long-horizon''] (prp v ''profile'')) ''Invalid Phase 7 shadow profile'',
         check (arr_meets (\<lambda>vs. 1 \<le> length vs \<and> length vs \<le> 8) reasons) ''Invalid Phase 7 shadow reason codes'',
         check (arr_meets (list_all (one_of phase7_reason_codes)) reasons) ''Invalid Phase 7 shadow reason code'',
         check (arr_meets distinct reasons) ''Duplicate Phase 7 shadow reason code'',
         check (is_obj affinity) ''Invalid Phase 7 shadow affinity'',
         assert_only_keys affinity [''kind'', ''sessionId'', ''ownership''] ''Phase 7 shadow affinity'',
         check (is_text ''session'' (prp affinity ''kind'') \<and> truthy (prp affinity ''sessionId'')
             \<and> is_text ''server-owned'' (prp affinity ''ownership'')) ''Invalid Phase 7 shadow affinity identity'',
         check (is_obj resource) ''Invalid Phase 7 shadow resource identity'',
         assert_only_keys resource [''kind'', ''boundary'', ''ownership'', ''sessionScoped'']
           ''Phase 7 shadow resource identity'',
         check (is_text ''shared-service'' (prp resource ''kind'')
             \<and> is_text ''pi-control-process'' (prp resource ''boundary'')
             \<and> is_text ''server-owned'' (prp resource ''ownership'')
             \<and> prp resource ''sessionScoped'' = JBool False) ''Invalid Phase 7 shadow resource identity'',
         check (is_obj evidence) ''Invalid Phase 7 shadow evidence metrics'',
         assert_only_keys evidence [''promptBytes'', ''toolEventCount'', ''durationMs'']
           ''Phase 7 shadow evidence metrics'',
         check (count_upto 10000000 (prp evidence ''promptBytes'')) ''Invalid Phase 7 shadow prompt byte count'',
         check (count_upto 10000 (prp evidence ''toolEventCount'')) ''Invalid Phase 7 shadow tool event count'',
         check (prp evidence ''durationMs'' = JUndef \<or> count_upto 604800000 (prp evidence ''durationMs''))
           ''Invalid Phase 7 shadow duration''])"

definition optional_text :: "nat \<Rightarrow> json \<Rightarrow> bool" where
  "optional_text hi v \<longleftrightarrow> v = JUndef \<or> str_meets (\<lambda>s. length s \<le> hi) v"

text \<open>One entry of \<open>commands\<close>, \<open>tests\<close> or \<open>commits\<close>, and the local function \<open>boundedArray\<close>.\<close>

definition item_value_ok :: "nat \<Rightarrow> json \<Rightarrow> bool" where
  "item_value_ok item_max iv \<longleftrightarrow>
     iv = JUndef \<or> is_number iv \<or> str_meets (\<lambda>s. length s \<le> item_max) iv"

definition item_ok :: "string list \<Rightarrow> nat \<Rightarrow> json \<Rightarrow> bool" where
  "item_ok item_keys item_max item \<longleftrightarrow>
     is_obj item \<and> assert_only_keys item item_keys [] = None
     \<and> list_all (\<lambda>ik. item_value_ok item_max (prp item ik)) item_keys"

definition bounded_array :: "json \<Rightarrow> string \<Rightarrow> nat \<Rightarrow> string list \<Rightarrow> nat \<Rightarrow> string option" where
  "bounded_array v key hi item_keys item_max =
     check (prp v key = JUndef
         \<or> arr_meets (\<lambda>vs. length vs \<le> hi \<and> list_all (item_ok item_keys item_max) vs) (prp v key))
       (''Invalid completion block '' @ key)"

definition bounded_texts :: "json \<Rightarrow> string \<Rightarrow> nat \<Rightarrow> string option" where
  "bounded_texts v key hi =
     check (prp v key = JUndef
         \<or> arr_meets (\<lambda>vs. length vs \<le> hi
             \<and> list_all (str_meets (\<lambda>s. s \<noteq> [] \<and> length s \<le> 2000)) vs) (prp v key))
       (''Invalid completion block '' @ key)"

definition completion_block_max_chars :: nat where
  "completion_block_max_chars = 16384"

definition validate_stored_completion :: "json \<Rightarrow> string option" where
  "validate_stored_completion v =
     first_error
       [check (is_obj v) ''Invalid completion block'',
        assert_only_keys v [''schema'', ''status'', ''summary'', ''commands'', ''tests'', ''commits'',
          ''filesChanged'', ''openIssues'', ''blockedReason''] ''completion block'',
        check (is_text ''pi-completion/v1'' (prp v ''schema'')) ''Invalid completion block schema name'',
        check (one_of [''done'', ''blocked'', ''partial''] (prp v ''status'')) ''Invalid completion block status'',
        check (optional_text 2000 (prp v ''summary'')) ''Invalid completion block summary'',
        check (optional_text 4000 (prp v ''blockedReason'')) ''Invalid completion block blockedReason'',
        check (is_text ''blocked'' (prp v ''status'')
            \<longrightarrow> str_meets (\<lambda>s. s \<noteq> []) (prp v ''blockedReason''))
          ''Completion block with status blocked requires blockedReason'',
        bounded_array v ''commands'' 50 [''command'', ''exitCode'', ''note''] 2000,
        bounded_array v ''tests'' 100 [''name'', ''result'', ''note''] 2000,
        bounded_array v ''commits'' 50 [''sha'', ''repo'', ''subject''] 1024,
        bounded_texts v ''filesChanged'' 200,
        bounded_texts v ''openIssues'' 50,
        check (length (stringify v) \<le> completion_block_max_chars * 4)
          ''Completion block exceeds the storage bound'']"

definition validate_stored_completion_error :: "json \<Rightarrow> string option" where
  "validate_stored_completion_error v =
     first_error
       [check (is_obj v) ''Invalid completionError'',
        assert_only_keys v [''code'', ''message'', ''fieldPath''] ''completionError'',
        check (one_of [''NO_BLOCK'', ''UNCLOSED_FENCE'', ''OVERSIZED_BLOCK'', ''MALFORMED_JSON'',
          ''SCHEMA_VIOLATION''] (prp v ''code'')) ''Invalid completionError code'',
        check (str_meets (\<lambda>s. s \<noteq> [] \<and> length s \<le> 2000) (prp v ''message'')) ''Invalid completionError message'',
        check (optional_text 500 (prp v ''fieldPath'')) ''Invalid completionError fieldPath'']"

definition token_sum_ok :: "json \<Rightarrow> bool" where
  "token_sum_ok v =
     (case (safe_int (prp v ''input''), safe_int (prp v ''output''), safe_int (prp v ''total'')) of
        (Some i, Some j, Some t) \<Rightarrow> t = i + j \<and> i + j \<le> 2 ^ 53 - 1
      | _ \<Rightarrow> False)"

definition validate_token_usage :: "json \<Rightarrow> json \<Rightarrow> string option" where
  "validate_token_usage v runtime =
     first_error
       [check (is_text ''commandcode'' runtime) ''Run token usage requires the Command Code runtime'',
        check (is_obj v) ''Invalid run token usage'',
        assert_only_keys v [''scope'', ''source'', ''input'', ''output'', ''total''] ''run token usage'',
        check (is_text ''run'' (prp v ''scope'') \<and> is_text ''commandcode-terminal-result-v1'' (prp v ''source''))
          ''Invalid run token usage provenance'',
        check (list_all (count_upto (2 ^ 53 - 1)) [prp v ''input'', prp v ''output'', prp v ''total''])
          ''Invalid run token usage count'',
        check (token_sum_ok v) ''Run token usage total must equal input plus output'']"

definition output_evidence_keys :: "string list" where
  "output_evidence_keys = [''policyVersion'', ''source'', ''assistantMessages'', ''assistantTextBlocks'',
     ''assistantTextChars'', ''toolCalls'', ''disposition'']"

definition validate_output_evidence :: "json \<Rightarrow> string option" where
  "validate_output_evidence v =
     first_error
       [check (is_obj v) ''Invalid output evidence'',
        assert_only_keys v output_evidence_keys ''output evidence'',
        check (is_text ''run-output-v1'' (prp v ''policyVersion'')
            \<and> is_text ''normalized-events-v1'' (prp v ''source'')) ''Invalid output evidence provenance'',
        check (one_of [''text'', ''no-text'', ''unknown''] (prp v ''disposition'')) ''Invalid output evidence disposition'',
        check (count_upto 100000 (prp v ''assistantMessages'')) ''Invalid output evidence assistant message count'',
        check (count_upto 1000000 (prp v ''assistantTextBlocks'')) ''Invalid output evidence assistant text block count'',
        check (count_upto 10000000 (prp v ''assistantTextChars'')) ''Invalid output evidence assistant text character count'',
        check (count_upto 100000 (prp v ''toolCalls'')) ''Invalid output evidence tool call count'',
        check (is_text ''text'' (prp v ''disposition'') \<longrightarrow> safe_int (prp v ''assistantTextChars'') \<noteq> Some 0)
          ''Text output evidence requires text characters'',
        check (is_text ''no-text'' (prp v ''disposition'') \<longrightarrow> safe_int (prp v ''assistantTextChars'') = Some 0)
          ''No-text output evidence cannot carry text characters'']"

definition liveness_keys :: "string list" where
  "liveness_keys = [''activityPolicyVersion'', ''idleTimeoutMs'', ''absoluteTimeoutMs'',
     ''lastEligibleActivity'', ''watchdog'', ''terminalObservations'', ''cessation'']"

definition activity_error :: "(jsstr \<Rightarrow> int option) \<Rightarrow> json \<Rightarrow> string option" where
  "activity_error dp a =
     (if \<not> truthy a then None else
      first_error
        [assert_only_keys a [''eventType'', ''occurredAt'', ''observedAt''] ''activity'',
         check (safe_event_type (js_string (prp a ''eventType''))) ''Invalid activity event type'',
         assert_iso_timestamp dp (prp a ''occurredAt'') ''activity occurredAt'',
         assert_iso_timestamp dp (prp a ''observedAt'') ''activity observedAt''])"

definition watchdog_error :: "(jsstr \<Rightarrow> int option) \<Rightarrow> json \<Rightarrow> string option" where
  "watchdog_error dp w =
     (if \<not> truthy w then None else
      first_error
        [assert_only_keys w [''reason'', ''decidedAt'', ''idleTimeoutMs'', ''absoluteTimeoutMs'', ''startWindowMs''] ''watchdog'',
         check (one_of [''idle'', ''absolute'', ''no_activity''] (prp w ''reason'')) ''Invalid watchdog reason'',
         assert_iso_timestamp dp (prp w ''decidedAt'') ''watchdog decidedAt'',
         check (positive_number (prp w ''idleTimeoutMs'')) ''Invalid watchdog idle timeout'',
         check (positive_number (prp w ''absoluteTimeoutMs'')) ''Invalid watchdog absolute timeout'',
         check (prp w ''startWindowMs'' = JUndef \<or> positive_number (prp w ''startWindowMs''))
           ''Invalid watchdog start window''])"

definition observation_error :: "(jsstr \<Rightarrow> int option) \<Rightarrow> json \<Rightarrow> string option" where
  "observation_error dp b =
     first_error
       [assert_only_keys b [''type'', ''occurredAt'', ''observedAt'', ''origin'', ''reason'', ''late''] ''terminal observation'',
        check (is_text ''agent_end'' (prp b ''type'')) ''Invalid terminal observation type'',
        check (one_of [''runtime_or_adapter'', ''synthetic''] (prp b ''origin'')) ''Invalid terminal observation origin'',
        check (prp b ''reason'' = JUndef \<or> one_of [''api_error_grace''] (prp b ''reason''))
          ''Invalid terminal observation reason'',
        check (is_bool (prp b ''late'')) ''Invalid terminal observation late flag'',
        assert_iso_timestamp dp (prp b ''occurredAt'') ''terminal observation occurredAt'',
        assert_iso_timestamp dp (prp b ''observedAt'') ''terminal observation observedAt'']"

definition observations_error :: "(jsstr \<Rightarrow> int option) \<Rightarrow> json \<Rightarrow> string option" where
  "observations_error dp obs =
     (if \<not> truthy obs then None else
      case obs of
        JArr vs \<Rightarrow> if 4 < length vs then Some ''Invalid terminal observations''
                   else first_error (map (observation_error dp) vs)
      | _ \<Rightarrow> Some ''Invalid terminal observations'')"

definition cessation_error :: "(jsstr \<Rightarrow> int option) \<Rightarrow> json \<Rightarrow> string option" where
  "cessation_error dp c =
     first_error
       [assert_only_keys c [''state'', ''basis'', ''observedAt''] ''cessation'',
        check (one_of [''confirmed'', ''unconfirmed'', ''unknown''] (prp c ''state'')) ''Invalid cessation state'',
        check (one_of [''terminal_signal'', ''synthetic_terminal_signal'', ''documented_handler_return'',
          ''resource_quiescence'', ''watchdog'', ''server_restart'', ''no_terminal_signal''] (prp c ''basis''))
          ''Invalid cessation basis'',
        assert_iso_timestamp dp (prp c ''observedAt'') ''cessation observedAt'']"

definition validate_liveness :: "(jsstr \<Rightarrow> int option) \<Rightarrow> json \<Rightarrow> string option" where
  "validate_liveness dp v =
     first_error
       [check (is_obj v) ''Invalid liveness evidence'',
        assert_only_keys v liveness_keys ''liveness'',
        check (is_text ''run-activity-v1'' (prp v ''activityPolicyVersion'')) ''Invalid activity policy version'',
        check (positive_number (prp v ''idleTimeoutMs'')) ''Invalid liveness idle timeout'',
        check (positive_number (prp v ''absoluteTimeoutMs'')) ''Invalid liveness absolute timeout'',
        activity_error dp (prp v ''lastEligibleActivity''),
        watchdog_error dp (prp v ''watchdog''),
        observations_error dp (prp v ''terminalObservations''),
        cessation_error dp (prp v ''cessation'')]"

subsection \<open>\<open>validate\<close>\<close>

definition allowed_keys :: "string list" where
  "allowed_keys =
     [''runId'', ''sessionId'', ''runtime'', ''executionInstanceId'', ''model'', ''modelSelector'',
      ''servedModel'', ''modelRebound'', ''effort'', ''defaultEffort'', ''tokenUsage'', ''outputEvidence'',
      ''finalText'', ''finalTextTruncated'', ''completion'', ''completionDelimiter'', ''completionError'',
      ''mode'', ''dispatchMode'', ''status'', ''acceptedAt'', ''startedAt'', ''agentEndAt'', ''terminalAt'',
      ''errorCode'', ''interruptionReason'', ''liveness'', ''phase7Shadow'', ''idempotencyExpiresAt'',
      ''idempotencyKeyDigest'', ''requestFingerprint'']"

definition final_text_max_chars :: nat where
  "final_text_max_chars = 4096"

definition nullish :: "json \<Rightarrow> json \<Rightarrow> json" where
  "nullish a b = (if a = JUndef \<or> a = JNull then b else a)"

definition when_set :: "json \<Rightarrow> string option \<Rightarrow> string option" where
  "when_set v e = (if v = JUndef then None else e)"

lemma when_set_None [simp]: "when_set v e = None \<longleftrightarrow> v = JUndef \<or> e = None"
  by (simp add: when_set_def)

definition prompt_modes :: "string list" where
  "prompt_modes = [''prompt'', ''follow_up'', ''steer'']"

definition identity_checks :: "js_object \<Rightarrow> string option list" where
  "identity_checks r =
     (let commandcode = is_text ''commandcode'' (getp r ''runtime'');
          model = getp r ''model''; selector = getp r ''modelSelector'' in
      [check (list_all (\<lambda>k. k \<in> js ` set allowed_keys) (jm_keys r)) ''Unsupported or unsafe receipt field'',
       check (safe_run_id (js_string (getp r ''runId''))) ''Invalid runId'',
       check (truthy (getp r ''sessionId'') \<and> truthy (getp r ''runtime'')
           \<and> truthy (getp r ''executionInstanceId'')) ''Receipt identity fields are required'',
       check (one_of [''pi'', ''claude'', ''opencode'', ''antigravity'', ''commandcode''] (getp r ''runtime''))
         ''Invalid receipt runtime'',
       check (commandcode \<longrightarrow> is_text ''commandcode-default'' (getp r ''executionInstanceId''))
         ''Command Code receipts require the commandcode-default execution instance'',
       check (one_of [''accepted'', ''queued'', ''started'', ''completed'', ''failed'', ''cancelled'', ''interrupted'']
           (getp r ''status'')) ''Invalid receipt status'',
       check (getp r ''effort'' = JUndef
           \<or> one_of [''low'', ''medium'', ''high'', ''xhigh'', ''max''] (getp r ''effort'')) ''Invalid Command Code effort'',
       check (commandcode \<longrightarrow> truthy (nullish model selector)) ''Command Code receipts require a model binding'',
       check (commandcode \<and> model \<noteq> JUndef \<and> selector \<noteq> JUndef \<longrightarrow> strict_eq model selector)
         ''Command Code receipt model and modelSelector bindings differ''])"

definition evidence_checks :: "js_object \<Rightarrow> string option list" where
  "evidence_checks r =
     (let commandcode = is_text ''commandcode'' (getp r ''runtime'');
          text = getp r ''finalText''; cut = getp r ''finalTextTruncated'' in
      [when_set (getp r ''tokenUsage'') (validate_token_usage (getp r ''tokenUsage'') (getp r ''runtime'')),
       when_set (getp r ''outputEvidence'') (validate_output_evidence (getp r ''outputEvidence'')),
       check ((text \<noteq> JUndef \<or> cut \<noteq> JUndef) \<longrightarrow> str_meets (\<lambda>s. length s \<le> final_text_max_chars) text) ''Invalid finalText'',
       check ((text \<noteq> JUndef \<or> cut \<noteq> JUndef) \<longrightarrow> is_bool cut) ''Invalid finalTextTruncated'',
       when_set (getp r ''completion'') (validate_stored_completion (getp r ''completion'')),
       when_set (getp r ''completionDelimiter'')
         (check (getp r ''completion'' \<noteq> JUndef) ''completionDelimiter requires completion''),
       when_set (getp r ''completionDelimiter'')
         (check (one_of [''completion'', ''json-tagged''] (getp r ''completionDelimiter'')) ''Invalid completionDelimiter''),
       when_set (getp r ''completionError'') (validate_stored_completion_error (getp r ''completionError'')),
       check (\<not> commandcode \<longrightarrow> getp r ''effort'' = JUndef \<and> getp r ''tokenUsage'' = JUndef)
         ''Native effort/token usage fields require the Command Code runtime''])"

definition field_checks :: "(jsstr \<Rightarrow> int option) \<Rightarrow> js_object \<Rightarrow> string option list" where
  "field_checks dp r =
     (let shadow = getp r ''phase7Shadow'' in
      [when_set (getp r ''mode'') (check (one_of prompt_modes (getp r ''mode'')) ''Invalid receipt mode''),
       when_set (getp r ''dispatchMode'')
         (check (one_of prompt_modes (getp r ''dispatchMode'')) ''Invalid receipt dispatch mode''),
       when_set (getp r ''servedModel'')
         (check (str_meets (\<lambda>s. s \<noteq> [] \<and> length s \<le> 200) (getp r ''servedModel'')) ''Invalid servedModel''),
       when_set (getp r ''modelRebound'') (check (is_bool (getp r ''modelRebound'')) ''Invalid modelRebound''),
       when_set (getp r ''idempotencyKeyDigest'')
         (check (safe_digest (js_string (getp r ''idempotencyKeyDigest''))) ''Invalid idempotency key digest''),
       when_set (getp r ''requestFingerprint'')
         (check (safe_digest (js_string (getp r ''requestFingerprint''))) ''Invalid request fingerprint''),
       when_set (getp r ''errorCode'')
         (check (safe_error_code (js_string (getp r ''errorCode''))) ''Invalid receipt error code''),
       when_set (getp r ''interruptionReason'')
         (check (one_of [''server_restart'', ''drain_timeout''] (getp r ''interruptionReason'')) ''Invalid interruption reason''),
       when_set (getp r ''liveness'') (validate_liveness dp (getp r ''liveness'')),
       when_set shadow (check (is_text ''pi'' (getp r ''runtime'')) ''Phase 7 shadow evidence requires the Pi runtime''),
       when_set shadow (validate_phase7_shadow shadow),
       when_set shadow (check (strict_eq (prp (prp shadow ''affinity'') ''sessionId'') (getp r ''sessionId''))
         ''Phase 7 shadow affinity does not match receipt session'')])"

definition validate_receipt :: "(jsstr \<Rightarrow> int option) \<Rightarrow> js_object \<Rightarrow> string option" where
  "validate_receipt dp r = first_error (identity_checks r @ evidence_checks r @ field_checks dp r)"

definition receipt_ok :: "(jsstr \<Rightarrow> int option) \<Rightarrow> js_object \<Rightarrow> bool" where
  "receipt_ok dp r \<longleftrightarrow> validate_receipt dp r = None"

text \<open>\<open>validate\<close> as the loader calls it, on whatever the file parsed to. (An array has no
  allowed property but may have no property at all; it then lacks a session.)\<close>

fun validate_parsed :: "(jsstr \<Rightarrow> int option) \<Rightarrow> json \<Rightarrow> string option" where
  "validate_parsed dp (JObj r) = validate_receipt dp r"
| "validate_parsed dp (JArr vs) =
     (if vs = [] then Some ''Receipt identity fields are required'' else Some ''Unsupported or unsafe receipt field'')"
| "validate_parsed dp _ = Some ''Receipt must be an object''"

subsection \<open>Written to disk and read back\<close>

fun json_clone :: "json \<Rightarrow> json"
  and clone_items :: "json list \<Rightarrow> json list"
  and clone_members :: "(jsstr \<times> json) list \<Rightarrow> (jsstr \<times> json) list" where
  "json_clone (JArr vs) = JArr (clone_items vs)"
| "json_clone (JObj ms) = JObj (clone_members ms)"
| "json_clone JNonFinite = JNull"
| "json_clone JUndef = JUndef"
| "json_clone JNull = JNull"
| "json_clone (JBool b) = JBool b"
| "json_clone (JNum t) = JNum t"
| "json_clone (JStr s) = JStr s"
| "clone_items [] = []"
| "clone_items (v # vs) = (if v = JUndef then JNull else json_clone v) # clone_items vs"
| "clone_members [] = []"
| "clone_members ((k, v) # ms) =
     (if v = JUndef then clone_members ms else (k, json_clone v) # clone_members ms)"

text \<open>The values the server builds: no \<open>NaN\<close> or infinity, and an object has each property once.\<close>

fun json_wf :: "json \<Rightarrow> bool" where
  "json_wf (JArr vs) = list_all json_wf vs"
| "json_wf (JObj ms) = (distinct (map fst ms) \<and> list_all (\<lambda>kv. json_wf (snd kv)) ms)"
| "json_wf JNonFinite = False"
| "json_wf _ = True"

lemma clone_items_eq: "clone_items vs = map (\<lambda>v. if v = JUndef then JNull else json_clone v) vs"
  by (induction vs) auto

lemma clone_members_eq:
  "clone_members ms = map (\<lambda>kv. (fst kv, json_clone (snd kv))) (filter (\<lambda>kv. snd kv \<noteq> JUndef) ms)"
proof (induction ms)
  case (Cons kv ms)
  then show ?case by (cases kv) simp
qed simp

lemma json_clone_eq_iff [simp]:
  "json_clone v = JUndef \<longleftrightarrow> v = JUndef"
  "json_clone v = JBool b \<longleftrightarrow> v = JBool b"
  "json_clone v = JStr s \<longleftrightarrow> v = JStr s"
  "json_clone v = JNum t \<longleftrightarrow> v = JNum t"
  by (cases v; simp)+

lemma filter_fst_distinct: "distinct (map fst ms) \<Longrightarrow> distinct (map fst (filter P ms))"
  by (induction ms) (auto simp: image_iff)

lemma prop_clone_members:
  "distinct (map fst ms) \<Longrightarrow>
   (case jm_get (clone_members ms) k of None \<Rightarrow> JUndef | Some v \<Rightarrow> v)
     = json_clone (case jm_get ms k of None \<Rightarrow> JUndef | Some v \<Rightarrow> v)"
proof (induction ms)
  case (Cons kv ms)
  obtain a v where kv: "kv = (a, v)" by (cases kv)
  show ?case
  proof (cases "v = JUndef \<and> a = k")
    case True
    with Cons.prems kv have "jm_get ms k = None" by (simp add: map_of_eq_None_iff)
    with True Cons kv show ?thesis by simp
  next
    case False
    with Cons kv show ?thesis by auto
  qed
qed simp

lemma prp_clone: "json_wf v \<Longrightarrow> prp (json_clone v) k = json_clone (prp v k)"
  by (cases v) (auto simp: prp_def prop_clone_members)

lemma json_wf_prp: "json_wf v \<Longrightarrow> json_wf (prp v k)"
  by (cases v) (auto simp: prp_def list_all_iff dest!: map_of_SomeD split: option.splits)

lemma prop_JObj_getp: "prp (JObj r) k = getp r k"
  by (simp add: prp_def getp_def)

lemma clone_observed [simp]:
  "is_obj (json_clone v) = is_obj v"
  "is_bool (json_clone v) = is_bool v"
  "str_meets p (json_clone v) = str_meets p v"
  "one_of L (json_clone v) = one_of L v"
  "is_text s (json_clone v) = is_text s v"
  "safe_int (json_clone v) = safe_int v"
  "count_upto hi (json_clone v) = count_upto hi v"
  "positive_number (json_clone v) = positive_number v"
  "optional_text n (json_clone v) = optional_text n v"
  "truthy (json_clone v) = truthy v"
  by (cases v; simp add: one_of_def is_text_def count_upto_def optional_text_def)+

lemma is_number_clone: "json_wf v \<Longrightarrow> is_number (json_clone v) = is_number v"
  by (cases v) auto

lemma strict_eq_clone: "json_wf a \<Longrightarrow> json_wf b \<Longrightarrow> strict_eq (json_clone a) (json_clone b) = strict_eq a b"
  by (cases a; cases b) auto

lemma nullish_clone: "json_wf a \<Longrightarrow> nullish (json_clone a) (json_clone b) = json_clone (nullish a b)"
  by (cases a) (auto simp: nullish_def)

definition element_text :: "json \<Rightarrow> jsstr" where
  "element_text v = (if v = JUndef \<or> v = JNull then [] else js_string v)"

lemma js_string_JArr: "js_string (JArr vs) = join_with 44 (map element_text vs)"
proof -
  have "(case v of JUndef \<Rightarrow> [] | JNull \<Rightarrow> [] | _ \<Rightarrow> js_string v) = element_text v" for v
    by (cases v) (simp_all add: element_text_def del: js_string.simps)
  then show ?thesis by simp
qed

lemma json_clone_JNull: "json_wf v \<Longrightarrow> json_clone v = JNull \<longleftrightarrow> v = JNull"
  by (cases v) auto

lemma js_string_clone: "json_wf v \<Longrightarrow> js_string (json_clone v) = js_string v"
proof (induction v)
  case (JArr vs)
  have "element_text (if v = JUndef then JNull else json_clone v) = element_text v"
    if "v \<in> set vs" for v
    using JArr that by (auto simp: element_text_def json_clone_JNull list_all_iff)
  then have "map element_text (clone_items vs) = map element_text vs"
    by (simp add: clone_items_eq)
  then show ?case by (simp only: json_clone.simps js_string_JArr)
qed auto

lemma stringify_members_clone:
  "(\<And>kv. kv \<in> set ms \<Longrightarrow> stringify (json_clone (snd kv)) = stringify (snd kv))
   \<Longrightarrow> stringify_members (clone_members ms) = stringify_members ms"
proof (induction ms)
  case (Cons kv ms)
  obtain k v where kv: "kv = (k, v)" by (cases kv)
  from Cons.prems have v: "stringify (json_clone v) = stringify v" using kv by force
  from Cons.prems have "stringify_members (clone_members ms) = stringify_members ms"
    by (intro Cons.IH) simp
  with v kv show ?case by simp
qed simp

lemma stringify_clone: "json_wf v \<Longrightarrow> stringify (json_clone v) = stringify v"
proof (induction v)
  case (JArr vs)
  then have "stringify_items (clone_items vs) = stringify_items vs"
    by (induction vs) (auto simp: clone_items_eq)
  then show ?case by simp
next
  case (JObj ms)
  have "stringify (json_clone (snd kv)) = stringify (snd kv)" if "kv \<in> set ms" for kv
    using JObj.prems that by (cases kv) (auto intro!: JObj.IH simp: list_all_iff)
  then show ?case by (simp add: stringify_members_clone)
qed auto

text \<open>Every validator accepts the copy of what it accepts.\<close>

lemma clone_member_keys: "set (map fst (clone_members ms)) \<subseteq> set (map fst ms)"
  by (auto simp: clone_members_eq)

lemma list_all_keys_clone: "list_all P (map fst ms) \<Longrightarrow> list_all P (map fst (clone_members ms))"
  unfolding list_all_iff using clone_member_keys [of ms] by blast

lemma assert_only_keys_clone:
  "json_wf v \<Longrightarrow> assert_only_keys v ks l = None \<Longrightarrow> assert_only_keys (json_clone v) ks l = None"
proof (cases v)
  case (JObj ms)
  then show "assert_only_keys v ks l = None \<Longrightarrow> assert_only_keys (json_clone v) ks l = None"
    using list_all_keys_clone [of "\<lambda>k. k \<in> js ` set ks" ms]
    by (simp only: assert_only_keys_def json_clone.simps object_keys.simps option.case check_None)
qed (simp_all add: assert_only_keys_def clone_items_eq)

lemma assert_iso_timestamp_clone [simp]:
  "assert_iso_timestamp dp (json_clone v) l = assert_iso_timestamp dp v l"
  by (simp add: assert_iso_timestamp_def)

lemma arr_meets_clone:
  assumes "arr_meets P v" and "\<And>vs. v = JArr vs \<Longrightarrow> P vs \<Longrightarrow> Q (clone_items vs)"
  shows "arr_meets Q (json_clone v)"
  using assms by (cases v) auto

lemma clone_items_same: "(\<And>v. v \<in> set vs \<Longrightarrow> is_str v) \<Longrightarrow> clone_items vs = vs"
proof -
  have "is_str v \<Longrightarrow> (if v = JUndef then JNull else json_clone v) = v" for v
    by (cases v) auto
  then show "(\<And>v. v \<in> set vs \<Longrightarrow> is_str v) \<Longrightarrow> clone_items vs = vs"
    by (simp add: clone_items_eq map_idI)
qed

lemma str_meets_is_str: "str_meets p v \<Longrightarrow> is_str v"
  by (cases v) auto

lemma length_clone_items [simp]: "length (clone_items vs) = length vs"
  by (simp add: clone_items_eq)

lemmas clone_simps = prp_clone json_wf_prp strict_eq_clone js_string_clone stringify_clone
  nullish_clone

lemma clone_text_array:
  "arr_meets (list_all (str_meets p)) v \<Longrightarrow> json_clone v = v"
  by (cases v) (auto simp: list_all_iff intro!: clone_items_same intro: str_meets_is_str)

lemma validate_phase7_shadow_clone:
  assumes wf: "json_wf v" and ok: "validate_phase7_shadow v = None"
  shows "validate_phase7_shadow (json_clone v) = None"
proof -
  have "arr_meets (list_all (one_of phase7_reason_codes)) (prp v ''reasonCodes'')"
    using ok by (simp add: validate_phase7_shadow_def Let_def)
  then have "json_clone (prp v ''reasonCodes'') = prp v ''reasonCodes''"
    unfolding one_of_def by (rule clone_text_array)
  with ok show ?thesis
    by (simp add: validate_phase7_shadow_def Let_def prp_clone [OF wf] prp_clone json_wf_prp wf
        strict_eq_clone assert_only_keys_clone)
qed

lemma item_ok_clone: "json_wf v \<Longrightarrow> item_ok ks n v \<Longrightarrow> item_ok ks n (json_clone v)"
  by (auto simp: item_ok_def item_value_ok_def assert_only_keys_clone clone_simps is_number_clone
      list_all_iff)

lemma json_wf_item: "json_wf (JArr vs) \<Longrightarrow> v \<in> set vs \<Longrightarrow> json_wf v"
  by (simp add: list_all_iff)

lemma bounded_array_clone:
  assumes wf: "json_wf v" and ok: "bounded_array v key hi ks n = None"
  shows "bounded_array (json_clone v) key hi ks n = None"
proof (cases "prp v key")
  case (JArr vs)
  have "list_all (item_ok ks n) (clone_items vs)"
    using json_wf_prp [OF wf, of key] ok JArr
    by (auto simp: clone_items_eq list_all_iff item_ok_clone bounded_array_def item_ok_def [of _ _ JUndef])
  with ok JArr show ?thesis by (simp add: bounded_array_def prp_clone [OF wf])
qed (use ok in \<open>simp_all add: bounded_array_def prp_clone [OF wf]\<close>)

lemma bounded_texts_clone:
  assumes wf: "json_wf v" and ok: "bounded_texts v key hi = None"
  shows "bounded_texts (json_clone v) key hi = None"
proof (cases "prp v key")
  case (JArr vs)
  have "clone_items vs = vs"
    using ok JArr by (auto simp: bounded_texts_def list_all_iff intro!: clone_items_same
        intro: str_meets_is_str)
  with ok JArr show ?thesis by (simp add: bounded_texts_def prp_clone [OF wf])
qed (use ok in \<open>simp_all add: bounded_texts_def prp_clone [OF wf]\<close>)

lemma validate_stored_completion_clone:
  "json_wf v \<Longrightarrow> validate_stored_completion v = None
   \<Longrightarrow> validate_stored_completion (json_clone v) = None"
  by (auto simp: validate_stored_completion_def clone_simps assert_only_keys_clone
      bounded_array_clone bounded_texts_clone)

lemma validate_stored_completion_error_clone:
  "json_wf v \<Longrightarrow> validate_stored_completion_error v = None
   \<Longrightarrow> validate_stored_completion_error (json_clone v) = None"
  by (auto simp: validate_stored_completion_error_def clone_simps assert_only_keys_clone)

lemma validate_token_usage_clone:
  "json_wf v \<Longrightarrow> validate_token_usage v rt = None
   \<Longrightarrow> validate_token_usage (json_clone v) (json_clone rt) = None"
  by (auto simp: validate_token_usage_def token_sum_ok_def clone_simps assert_only_keys_clone)

lemma validate_output_evidence_clone:
  "json_wf v \<Longrightarrow> validate_output_evidence v = None
   \<Longrightarrow> validate_output_evidence (json_clone v) = None"
  by (auto simp: validate_output_evidence_def clone_simps assert_only_keys_clone)

lemma activity_error_clone:
  "json_wf v \<Longrightarrow> activity_error dp v = None \<Longrightarrow> activity_error dp (json_clone v) = None"
  by (auto simp: activity_error_def clone_simps assert_only_keys_clone split: if_splits)

lemma watchdog_error_clone:
  "json_wf v \<Longrightarrow> watchdog_error dp v = None \<Longrightarrow> watchdog_error dp (json_clone v) = None"
  by (auto simp: watchdog_error_def clone_simps assert_only_keys_clone split: if_splits)

lemma observation_error_clone:
  "json_wf v \<Longrightarrow> observation_error dp v = None \<Longrightarrow> observation_error dp (json_clone v) = None"
  by (auto simp: observation_error_def clone_simps assert_only_keys_clone)

lemma observation_error_undef: "observation_error dp JUndef \<noteq> None"
  by (simp add: observation_error_def assert_only_keys_def)

lemma observations_error_clone:
  "json_wf v \<Longrightarrow> observations_error dp v = None \<Longrightarrow> observations_error dp (json_clone v) = None"
  using observation_error_undef [of dp]
  by (cases v) (auto simp: observations_error_def clone_items_eq list_all_iff observation_error_clone
      split: if_splits)

lemma cessation_error_clone:
  "json_wf v \<Longrightarrow> cessation_error dp v = None \<Longrightarrow> cessation_error dp (json_clone v) = None"
  by (auto simp: cessation_error_def clone_simps assert_only_keys_clone)

lemma validate_liveness_clone:
  "json_wf v \<Longrightarrow> validate_liveness dp v = None \<Longrightarrow> validate_liveness dp (json_clone v) = None"
  by (auto simp: validate_liveness_def clone_simps assert_only_keys_clone activity_error_clone
      watchdog_error_clone observations_error_clone cessation_error_clone)

text \<open>The receipt as the next process reads it.\<close>

definition receipt_clone :: "js_object \<Rightarrow> js_object" where
  "receipt_clone r = clone_members r"

definition receipt_wf :: "js_object \<Rightarrow> bool" where
  "receipt_wf r \<longleftrightarrow> json_wf (JObj r)"

lemma getp_clone: "receipt_wf r \<Longrightarrow> getp (receipt_clone r) k = json_clone (getp r k)"
  using prp_clone [of "JObj r" k] by (simp add: receipt_wf_def receipt_clone_def prop_JObj_getp)

lemma json_wf_getp: "receipt_wf r \<Longrightarrow> json_wf (getp r k)"
  using json_wf_prp [of "JObj r" k] by (simp add: receipt_wf_def prop_JObj_getp)

definition no_error :: "string option list \<Rightarrow> bool" where
  "no_error es \<longleftrightarrow> list_all (\<lambda>e. e = None) es"

lemma no_error_simps [simp]:
  "no_error []" "no_error (e # es) \<longleftrightarrow> e = None \<and> no_error es"
  "no_error (es @ fs) \<longleftrightarrow> no_error es \<and> no_error fs"
  by (simp_all add: no_error_def)

lemma receipt_ok_checks:
  "receipt_ok dp r \<longleftrightarrow> no_error (identity_checks r) \<and> no_error (evidence_checks r)
     \<and> no_error (field_checks dp r)"
  by (simp add: receipt_ok_def validate_receipt_def no_error_def)

lemma identity_checks_clone:
  assumes wf: "receipt_wf r" and ok: "no_error (identity_checks r)"
  shows "no_error (identity_checks (receipt_clone r))"
proof -
  have "list_all (\<lambda>k. k \<in> js ` set allowed_keys) (jm_keys (receipt_clone r))"
    using ok unfolding receipt_clone_def
    by (intro list_all_keys_clone) (simp add: identity_checks_def Let_def)
  with ok show ?thesis
    by (simp add: identity_checks_def Let_def getp_clone wf json_wf_getp clone_simps)
qed

lemma when_set_clone:
  "when_set v e = None \<Longrightarrow> (e = None \<Longrightarrow> e' = None) \<Longrightarrow> when_set (json_clone v) e' = None"
  by auto

lemma check_clone: "check c m = None \<Longrightarrow> (c \<Longrightarrow> c') \<Longrightarrow> check c' m = None"
  by simp

lemma evidence_checks_clone:
  assumes wf: "receipt_wf r" and ok: "no_error (evidence_checks r)"
  shows "no_error (evidence_checks (receipt_clone r))"
  using ok unfolding evidence_checks_def Let_def no_error_simps(2) getp_clone [OF wf]
  by (elim conjE, intro conjI)
    ((rule refl | (erule when_set_clone | erule check_clone); simp add: json_wf_getp [OF wf]
        validate_token_usage_clone validate_output_evidence_clone validate_stored_completion_clone
        validate_stored_completion_error_clone)+)

lemma field_checks_clone:
  assumes wf: "receipt_wf r" and ok: "no_error (field_checks dp r)"
  shows "no_error (field_checks dp (receipt_clone r))"
  using ok unfolding field_checks_def Let_def no_error_simps(2) getp_clone [OF wf]
  by (elim conjE, intro conjI)
    ((rule refl | erule when_set_clone; simp add: json_wf_getp [OF wf] json_wf_prp prp_clone
        strict_eq_clone js_string_clone validate_liveness_clone validate_phase7_shadow_clone)+)

lemma receipt_ok_clone: "receipt_wf r \<Longrightarrow> receipt_ok dp r \<Longrightarrow> receipt_ok dp (receipt_clone r)"
  by (simp add: receipt_ok_checks identity_checks_clone evidence_checks_clone field_checks_clone)

end
