(* ===== verification/Run_Receipts.thy ===== *)
theory Run_Receipts
  imports Receipt_Schema Event_Broker
begin

text \<open>
  The durable run receipts: the class \<open>RunReceiptStore\<close> of
  \<open>internal-api/run-receipts/run-receipt-store.ts\<close>.

  \<open>receipt_store\<close> is the state of the class together with its directory: \<open>rs_cache\<close> is the
  \<open>Map\<close> by run id, \<open>rs_disk\<close> the files by name (\<open>None\<close>: unreadable or not JSON). A file holds
  what a later \<open>JSON.parse\<close> returns, \<open>receipt_clone\<close> of the record. Every operation returns
  its result or the message it throws, and the store. \<open>receipt_io\<close> says which file writes and
  removals succeed (a missing file is not an error). Operations on one run are serialised by
  the manager's per-run lock, so each is one step. \<open>store_reachable\<close> are the states of a
  directory served by one process after another, each killed at any point between two steps.
\<close>

subsection \<open>Receipts\<close>

record receipt_env =
  ev_dp :: "jsstr \<Rightarrow> int option"
  ev_iso :: "int \<Rightarrow> jsstr"
  ev_hasDir :: bool
  ev_maxAgeMs :: int
  ev_maxCount :: nat
  ev_classify :: "js_object \<Rightarrow> bool"

definition receipt_env_of ::
  "(jsstr \<Rightarrow> int option) \<Rightarrow> (int \<Rightarrow> jsstr) \<Rightarrow> bool \<Rightarrow> int option \<Rightarrow> nat option
     \<Rightarrow> (js_object \<Rightarrow> bool) option \<Rightarrow> receipt_env" where
  "receipt_env_of dp isoText has_dir max_age max_count classify =
     \<lparr> ev_dp = dp, ev_iso = isoText, ev_hasDir = has_dir,
       ev_maxAgeMs = (case max_age of Some n \<Rightarrow> n | None \<Rightarrow> 2592000000),
       ev_maxCount = (case max_count of Some n \<Rightarrow> n | None \<Rightarrow> 1000),
       ev_classify = (case classify of Some f \<Rightarrow> f | None \<Rightarrow> (\<lambda>_. False)) \<rparr>"

record receipt_io =
  io_write :: "json \<Rightarrow> bool"
  io_unlink :: "json \<Rightarrow> bool"

record recovered_run =
  rv_runId :: json
  rv_sessionId :: json
  rv_runtime :: json
  rv_terminalAt :: jsstr
  rv_drainTimeout :: bool

record receipt_store =
  rs_cache :: "(json, js_object) jsmap"
  rs_disk :: "(jsstr, json option) jsmap"
  rs_protected :: "json jsset"
  rs_recovered :: "recovered_run list"
  rs_ready :: bool

type_synonym 'a outcome = "(string + 'a) \<times> receipt_store"

definition and_then :: "'a outcome \<Rightarrow> ('a \<Rightarrow> receipt_store \<Rightarrow> 'b outcome) \<Rightarrow> 'b outcome" where
  "and_then m f = (case m of (Inl e, s) \<Rightarrow> (Inl e, s) | (Inr x, s) \<Rightarrow> f x s)"

definition receipt_store_init :: "(jsstr, json option) jsmap \<Rightarrow> receipt_store" where
  "receipt_store_init disk = \<lparr> rs_cache = [], rs_disk = disk, rs_protected = [], rs_recovered = [],
     rs_ready = False \<rparr>"

definition text_json :: "string \<Rightarrow> json" where
  "text_json s = JStr (js s)"

definition putp :: "string \<Rightarrow> json \<Rightarrow> js_object \<Rightarrow> js_object" where
  "putp k v r = jm_set (js k) v r"

definition delp :: "string \<Rightarrow> js_object \<Rightarrow> js_object" where
  "delp k r = jm_del (js k) r"

text \<open>\<open>{ ...current, ...patch }\<close>.\<close>

definition merge_props :: "js_object \<Rightarrow> js_object \<Rightarrow> js_object" where
  "merge_props r patch = foldl (\<lambda>m kv. jm_set (fst kv) (snd kv) m) r patch"

definition run_id :: "js_object \<Rightarrow> json" where
  "run_id r = getp r ''runId''"

definition terminal_statuses :: "string list" where
  "terminal_statuses = [''completed'', ''failed'', ''cancelled'', ''interrupted'']"

definition is_terminal :: "js_object \<Rightarrow> bool" where
  "is_terminal r = one_of terminal_statuses (getp r ''status'')"

definition nonterminal_statuses :: "string list" where
  "nonterminal_statuses = [''accepted'', ''queued'', ''started'']"

definition is_nonterminal :: "js_object \<Rightarrow> bool" where
  "is_nonterminal r = one_of nonterminal_statuses (getp r ''status'')"

definition is_legal_transition :: "json \<Rightarrow> string \<Rightarrow> bool" where
  "is_legal_transition from to =
     (if is_text ''accepted'' from then to \<in> {''queued'', ''started'', ''failed'', ''cancelled''}
      else if is_text ''queued'' from then to \<in> {''started'', ''failed'', ''cancelled''}
      else if is_text ''started'' from then to \<in> {''completed'', ''failed'', ''cancelled''}
      else False)"

definition receipt_time :: "receipt_env \<Rightarrow> js_object \<Rightarrow> int option" where
  "receipt_time env r = ev_dp env (js_string (nullish (getp r ''terminalAt'') (getp r ''acceptedAt'')))"

definition is_idempotency_protected :: "receipt_env \<Rightarrow> int \<Rightarrow> js_object \<Rightarrow> bool" where
  "is_idempotency_protected env now r \<longleftrightarrow>
     truthy (getp r ''idempotencyExpiresAt'')
     \<and> (case ev_dp env (js_string (getp r ''idempotencyExpiresAt'')) of Some t \<Rightarrow> now < t | None \<Rightarrow> False)"

subsection \<open>Persistence\<close>

definition file_of :: "json \<Rightarrow> jsstr" where
  "file_of k = js_string k @ js ''.json''"

definition persist :: "receipt_env \<Rightarrow> receipt_io \<Rightarrow> js_object \<Rightarrow> receipt_store \<Rightarrow> unit outcome" where
  "persist env io r s =
     (if \<not> ev_hasDir env then (Inr (), s)
      else if io_write io (run_id r)
      then (Inr (), s \<lparr> rs_disk := jm_set (file_of (run_id r)) (Some (JObj (receipt_clone r))) (rs_disk s) \<rparr>)
      else (Inl ''write failed'', s))"

definition delete_receipt :: "receipt_env \<Rightarrow> receipt_io \<Rightarrow> json \<Rightarrow> receipt_store \<Rightarrow> unit outcome" where
  "delete_receipt env io k s =
     (let s1 = s \<lparr> rs_cache := jm_del k (rs_cache s) \<rparr> in
      if \<not> ev_hasDir env then (Inr (), s1)
      else if io_unlink io k then (Inr (), s1 \<lparr> rs_disk := jm_del (file_of k) (rs_disk s1) \<rparr>)
      else (Inl ''unlink failed'', s1))"

fun delete_all :: "receipt_env \<Rightarrow> receipt_io \<Rightarrow> json list \<Rightarrow> receipt_store \<Rightarrow> unit outcome" where
  "delete_all env io [] s = (Inr (), s)"
| "delete_all env io (k # ks) s = and_then (delete_receipt env io k s) (\<lambda>_. delete_all env io ks)"

subsection \<open>Pruning\<close>

text \<open>
  Newest first. The order ECMAScript gives to records whose time does not parse is
  implementation defined; here they sort as time 0.
\<close>

definition newest_first :: "receipt_env \<Rightarrow> js_object list \<Rightarrow> js_object list" where
  "newest_first env rs = sort_key (\<lambda>r. - opt_val (\<lambda>t. t) (receipt_time env r)) rs"

definition terminal_receipts :: "receipt_env \<Rightarrow> receipt_store \<Rightarrow> js_object list" where
  "terminal_receipts env s = newest_first env (filter is_terminal (jm_values (rs_cache s)))"

definition prune_exempt :: "receipt_env \<Rightarrow> int \<Rightarrow> receipt_store \<Rightarrow> js_object \<Rightarrow> bool" where
  "prune_exempt env now s r \<longleftrightarrow>
     run_id r \<in> set (rs_protected s) \<or> is_idempotency_protected env now r"

definition receipt_young :: "receipt_env \<Rightarrow> int \<Rightarrow> js_object \<Rightarrow> bool" where
  "receipt_young env now r \<longleftrightarrow>
     (case receipt_time env r of Some t \<Rightarrow> now - t \<le> ev_maxAgeMs env | None \<Rightarrow> False)"

definition too_old :: "receipt_env \<Rightarrow> int \<Rightarrow> receipt_store \<Rightarrow> js_object list" where
  "too_old env now s =
     filter (\<lambda>r. \<not> prune_exempt env now s r \<and> \<not> receipt_young env now r) (terminal_receipts env s)"

definition too_many :: "receipt_env \<Rightarrow> int \<Rightarrow> receipt_store \<Rightarrow> js_object list" where
  "too_many env now s =
     filter (\<lambda>r. \<not> prune_exempt env now s r) (drop (ev_maxCount env) (terminal_receipts env s))"

definition prune :: "receipt_env \<Rightarrow> receipt_io \<Rightarrow> int \<Rightarrow> receipt_store \<Rightarrow> unit outcome" where
  "prune env io now s =
     and_then (delete_all env io (map run_id (too_old env now s)) s)
       (\<lambda>_ s1. delete_all env io (map run_id (too_many env now s1)) s1)"

subsection \<open>Start-up\<close>

definition ends_with :: "jsstr \<Rightarrow> jsstr \<Rightarrow> bool" where
  "ends_with suf s \<longleftrightarrow> length suf \<le> length s \<and> drop (length s - length suf) s = suf"

definition load_file ::
  "receipt_env \<Rightarrow> (json, js_object) jsmap \<Rightarrow> jsstr \<times> json option \<Rightarrow> (json, js_object) jsmap" where
  "load_file env cache f =
     (if \<not> ends_with (js ''.json'') (fst f) then cache
      else case snd f of
        Some (JObj r) \<Rightarrow> if validate_parsed (ev_dp env) (JObj r) = None
                        then jm_set (run_id r) r cache else cache
      | _ \<Rightarrow> cache)"

definition cessation_json :: "string \<Rightarrow> string \<Rightarrow> jsstr \<Rightarrow> json" where
  "cessation_json state basis observedAt =
     JObj [(js ''state'', text_json state), (js ''basis'', text_json basis), (js ''observedAt'', JStr observedAt)]"

definition with_cessation :: "json \<Rightarrow> js_object \<Rightarrow> js_object" where
  "with_cessation c r =
     putp ''liveness'' (JObj (putp ''cessation'' c (spread (getp r ''liveness'')))) r"

definition recover_receipt :: "receipt_env \<Rightarrow> jsstr \<Rightarrow> js_object \<Rightarrow> js_object" where
  "recover_receipt env recoveryAt r =
     (let reason = if ev_classify env r then ''drain_timeout'' else ''server_restart'';
          r1 = putp ''interruptionReason'' (text_json reason)
                 (putp ''errorCode'' (text_json ''SERVER_RESTART'')
                   (putp ''terminalAt'' (JStr recoveryAt) (putp ''status'' (text_json ''interrupted'') r))) in
      if truthy (getp r1 ''liveness'')
      then with_cessation (cessation_json ''unknown'' ''server_restart'' recoveryAt) r1 else r1)"

definition recovered_entry :: "receipt_env \<Rightarrow> jsstr \<Rightarrow> js_object \<Rightarrow> recovered_run" where
  "recovered_entry env recoveryAt r =
     \<lparr> rv_runId = run_id r, rv_sessionId = getp r ''sessionId'', rv_runtime = getp r ''runtime'',
       rv_terminalAt = recoveryAt, rv_drainTimeout = ev_classify env r \<rparr>"

fun recover_loop ::
  "receipt_env \<Rightarrow> receipt_io \<Rightarrow> jsstr \<Rightarrow> (json \<times> js_object) list \<Rightarrow> receipt_store \<Rightarrow> unit outcome" where
  "recover_loop env io recoveryAt [] s = (Inr (), s)"
| "recover_loop env io recoveryAt ((k, r) # es) s =
     (if \<not> is_nonterminal r then recover_loop env io recoveryAt es s
      else
        let r' = recover_receipt env recoveryAt r;
            s1 = s \<lparr> rs_cache := jm_set k r' (rs_cache s),
                     rs_recovered := rs_recovered s @ [recovered_entry env recoveryAt r],
                     rs_protected := js_add (run_id r) (rs_protected s) \<rparr> in
        and_then (persist env io r' s1) (\<lambda>_. recover_loop env io recoveryAt es))"

definition load_all :: "receipt_env \<Rightarrow> receipt_store \<Rightarrow> receipt_store" where
  "load_all env s = s \<lparr> rs_cache := foldl (load_file env) (rs_cache s) (rs_disk s), rs_ready := True \<rparr>"

definition init_store :: "receipt_env \<Rightarrow> receipt_io \<Rightarrow> int \<Rightarrow> receipt_store \<Rightarrow> unit outcome" where
  "init_store env io now s =
     (if rs_ready s then (Inr (), s)
      else if \<not> ev_hasDir env then (Inr (), s \<lparr> rs_ready := True \<rparr>)
      else
        let s1 = load_all env s in
        and_then (recover_loop env io (ev_iso env now) (rs_cache s1) s1)
          (\<lambda>_ s2. and_then (prune env io now s2)
             (\<lambda>_ s3. (Inr (), s3 \<lparr> rs_protected := [] \<rparr>))))"

subsection \<open>Operations\<close>

definition get_receipt :: "json \<Rightarrow> receipt_store \<Rightarrow> js_object option" where
  "get_receipt k s = jm_get (rs_cache s) k"

definition find_by_idempotency :: "receipt_env \<Rightarrow> jsstr \<Rightarrow> int \<Rightarrow> receipt_store \<Rightarrow> js_object option" where
  "find_by_idempotency env digest now s =
     (let matches = filter (\<lambda>r. getp r ''idempotencyKeyDigest'' = JStr digest
            \<and> (let expires = getp r ''idempotencyExpiresAt'' in
               case (if truthy expires then ev_dp env (js_string expires) else Some 0) of
                 Some t \<Rightarrow> now < t | None \<Rightarrow> False)) (jm_values (rs_cache s));
          sorted = sort_key (\<lambda>r. - opt_val (\<lambda>t. t) (ev_dp env (js_string (getp r ''acceptedAt'')))) matches in
      case sorted of [] \<Rightarrow> None | r # _ \<Rightarrow> Some r)"

text \<open>\<open>validate\<close>, \<open>persist\<close>, then the cache: the end of every update.\<close>

definition commit :: "receipt_env \<Rightarrow> receipt_io \<Rightarrow> json \<Rightarrow> js_object \<Rightarrow> receipt_store \<Rightarrow> unit outcome" where
  "commit env io k next s =
     (case validate_receipt (ev_dp env) next of
        Some e \<Rightarrow> (Inl e, s)
      | None \<Rightarrow> and_then (persist env io next s)
                  (\<lambda>_ s1. (Inr (), s1 \<lparr> rs_cache := jm_set k next (rs_cache s1) \<rparr>)))"

definition create_receipt :: "receipt_env \<Rightarrow> receipt_io \<Rightarrow> int \<Rightarrow> js_object \<Rightarrow> receipt_store \<Rightarrow> unit outcome" where
  "create_receipt env io now r s0 =
     and_then (init_store env io now s0) (\<lambda>_ s.
       case validate_receipt (ev_dp env) r of
         Some e \<Rightarrow> (Inl e, s)
       | None \<Rightarrow>
           if jm_has (rs_cache s) (run_id r) then (Inl ''Run receipt already exists'', s)
           else and_then (commit env io (run_id r) r s) (\<lambda>_. prune env io now))"

definition clear_idempotency :: "js_object \<Rightarrow> js_object" where
  "clear_idempotency r = delp ''idempotencyExpiresAt'' (delp ''requestFingerprint'' (delp ''idempotencyKeyDigest'' r))"

definition transition_next ::
  "receipt_env \<Rightarrow> int \<Rightarrow> string \<Rightarrow> js_object \<Rightarrow> bool \<Rightarrow> js_object \<Rightarrow> js_object" where
  "transition_next env now status patch clear current =
     (let n1 = putp ''status'' (text_json status) (merge_props current patch);
          n2 = if clear then clear_idempotency n1 else n1 in
      if status \<in> set terminal_statuses \<and> \<not> truthy (getp n2 ''terminalAt'')
      then putp ''terminalAt'' (JStr (ev_iso env now)) n2 else n2)"

definition transition ::
  "receipt_env \<Rightarrow> receipt_io \<Rightarrow> int \<Rightarrow> json \<Rightarrow> string \<Rightarrow> js_object \<Rightarrow> bool \<Rightarrow> receipt_store \<Rightarrow> js_object outcome" where
  "transition env io now k status patch clear s0 =
     and_then (init_store env io now s0) (\<lambda>_ s.
       case jm_get (rs_cache s) k of
         None \<Rightarrow> (Inl ''Run receipt not found'', s)
       | Some current \<Rightarrow>
           if \<not> is_legal_transition (getp current ''status'') status
           then (Inl ''Invalid transition'', s)
           else
             let next = transition_next env now status patch clear current in
             and_then (commit env io k next s)
               (\<lambda>_ s1. and_then (prune env io now s1) (\<lambda>_ s2. (Inr next, s2))))"

definition patch_receipt ::
  "receipt_env \<Rightarrow> receipt_io \<Rightarrow> int \<Rightarrow> json \<Rightarrow> js_object \<Rightarrow> receipt_store \<Rightarrow> js_object option outcome" where
  "patch_receipt env io now k patch s0 =
     and_then (init_store env io now s0) (\<lambda>_ s.
       case jm_get (rs_cache s) k of
         None \<Rightarrow> (Inr None, s)
       | Some current \<Rightarrow>
           if is_terminal current then (Inr (Some current), s)
           else let next = merge_props current patch in
                and_then (commit env io k next s) (\<lambda>_ s1. (Inr (Some next), s1)))"

definition mark_resource_quiescent ::
  "receipt_env \<Rightarrow> receipt_io \<Rightarrow> int \<Rightarrow> json \<Rightarrow> jsstr \<Rightarrow> receipt_store \<Rightarrow> js_object option outcome" where
  "mark_resource_quiescent env io now k observedAt s0 =
     and_then (init_store env io now s0) (\<lambda>_ s.
       case jm_get (rs_cache s) k of
         None \<Rightarrow> (Inr None, s)
       | Some current \<Rightarrow>
           if \<not> truthy (getp current ''liveness'') then (Inr (Some current), s)
           else let next = with_cessation (cessation_json ''confirmed'' ''resource_quiescence'' observedAt) current in
                and_then (commit env io k next s) (\<lambda>_ s1. (Inr (Some next), s1)))"

definition release_idempotency ::
  "receipt_env \<Rightarrow> receipt_io \<Rightarrow> int \<Rightarrow> json \<Rightarrow> receipt_store \<Rightarrow> js_object option outcome" where
  "release_idempotency env io now k s0 =
     and_then (init_store env io now s0) (\<lambda>_ s.
       case jm_get (rs_cache s) k of
         None \<Rightarrow> (Inr None, s)
       | Some current \<Rightarrow>
           if \<not> truthy (getp current ''idempotencyKeyDigest'')
              \<and> \<not> truthy (getp current ''requestFingerprint'')
              \<and> \<not> truthy (getp current ''idempotencyExpiresAt'')
           then (Inr (Some current), s)
           else let next = clear_idempotency current in
                and_then (commit env io k next s) (\<lambda>_ s1. (Inr (Some next), s1)))"

subsection \<open>\<open>markAgentEnd\<close>\<close>

record agent_end =
  ae_timestamp :: jsstr
  ae_observation :: json
  ae_tokenUsage :: json
  ae_outputEvidence :: json
  ae_finalText :: "(jsstr \<times> bool) option"
  ae_completion :: json

definition put_first :: "string \<Rightarrow> json \<Rightarrow> js_object \<Rightarrow> js_object \<Rightarrow> js_object" where
  "put_first k v current r = (if truthy v \<and> getp current k = JUndef then putp k v r else r)"

definition same_observation :: "json \<Rightarrow> json \<Rightarrow> bool" where
  "same_observation a b \<longleftrightarrow>
     list_all (\<lambda>k. strict_eq (prp a k) (prp b k)) [''type'', ''occurredAt'', ''origin'', ''reason'']"

definition observations_of :: "json \<Rightarrow> json list" where
  "observations_of liveness =
     (case prp liveness ''terminalObservations'' of JArr vs \<Rightarrow> vs | _ \<Rightarrow> [])"

definition observed_liveness :: "js_object \<Rightarrow> json \<Rightarrow> json" where
  "observed_liveness current observation =
     (let liveness = getp current ''liveness'';
          terminal_observation = JObj (putp ''late'' (JBool (is_terminal current)) (spread observation));
          seen = observations_of liveness;
          observations = (if list_ex (\<lambda>c. same_observation c terminal_observation) seen then seen
                          else seen @ [terminal_observation]);
          cessation = prp liveness ''cessation'';
          preserve = is_terminal current
            \<and> (is_text ''watchdog'' (prp cessation ''basis'') \<or> is_text ''server_restart'' (prp cessation ''basis''));
          activity = JObj [(js ''eventType'', text_json ''agent_end''),
            (js ''occurredAt'', prp observation ''occurredAt''), (js ''observedAt'', prp observation ''observedAt'')];
          basis = if is_text ''synthetic'' (prp observation ''origin'') then ''synthetic_terminal_signal''
                  else ''terminal_signal'' in
      JObj (putp ''cessation''
              (if preserve then cessation
               else JObj [(js ''state'', text_json ''unconfirmed''), (js ''basis'', text_json basis),
                          (js ''observedAt'', prp observation ''observedAt'')])
           (putp ''terminalObservations'' (JArr (slice_last 4 observations))
             (putp ''lastEligibleActivity'' activity (spread liveness)))))"

definition final_text_next :: "(jsstr \<times> bool) option \<Rightarrow> js_object \<Rightarrow> js_object \<Rightarrow> js_object" where
  "final_text_next ft current r =
     (case ft of
        Some (text, truncated) \<Rightarrow>
          if getp current ''finalText'' = JUndef
          then putp ''finalTextTruncated'' (JBool truncated) (putp ''finalText'' (JStr text) r) else r
      | None \<Rightarrow> r)"

definition completion_next :: "json \<Rightarrow> js_object \<Rightarrow> js_object \<Rightarrow> js_object" where
  "completion_next c current r =
     (let r1 = (if truthy (prp c ''completion'') \<and> getp current ''completion'' = JUndef
                then let r' = putp ''completion'' (prp c ''completion'') r in
                     if truthy (prp c ''completionDelimiter'')
                     then putp ''completionDelimiter'' (prp c ''completionDelimiter'') r' else r'
                else r) in
      put_first ''completionError'' (prp c ''completionError'') current r1)"

definition agent_end_next :: "agent_end \<Rightarrow> js_object \<Rightarrow> js_object" where
  "agent_end_next a current =
     (let n1 = putp ''agentEndAt'' (nullish (getp current ''agentEndAt'') (JStr (ae_timestamp a))) current;
          n2 = put_first ''outputEvidence'' (ae_outputEvidence a) current
                 (put_first ''tokenUsage'' (ae_tokenUsage a) current n1);
          n3 = completion_next (ae_completion a) current (final_text_next (ae_finalText a) current n2) in
      if truthy (ae_observation a) \<and> truthy (getp current ''liveness'')
      then putp ''liveness'' (observed_liveness current (ae_observation a)) n3 else n3)"

definition mark_agent_end ::
  "receipt_env \<Rightarrow> receipt_io \<Rightarrow> int \<Rightarrow> json \<Rightarrow> agent_end \<Rightarrow> receipt_store \<Rightarrow> js_object option outcome" where
  "mark_agent_end env io now k a s0 =
     and_then (init_store env io now s0) (\<lambda>_ s.
       case jm_get (rs_cache s) k of
         None \<Rightarrow> (Inr None, s)
       | Some current \<Rightarrow>
           let next = agent_end_next a current in
           and_then (commit env io k next s) (\<lambda>_ s1. (Inr (Some next), s1)))"

subsection \<open>Steps and reachable states\<close>

datatype receipt_op =
    OpCreate js_object
  | OpTransition json string js_object bool
  | OpPatch json js_object
  | OpQuiescent json jsstr
  | OpRelease json
  | OpAgentEnd json agent_end
  | OpPrune

fun receipt_step :: "receipt_env \<Rightarrow> receipt_io \<Rightarrow> int \<Rightarrow> receipt_op \<Rightarrow> receipt_store \<Rightarrow> receipt_store" where
  "receipt_step env io now (OpCreate r) s = snd (create_receipt env io now r s)"
| "receipt_step env io now (OpTransition k status patch clear) s = snd (transition env io now k status patch clear s)"
| "receipt_step env io now (OpPatch k patch) s = snd (patch_receipt env io now k patch s)"
| "receipt_step env io now (OpQuiescent k t) s = snd (mark_resource_quiescent env io now k t s)"
| "receipt_step env io now (OpRelease k) s = snd (release_idempotency env io now k s)"
| "receipt_step env io now (OpAgentEnd k a) s = snd (mark_agent_end env io now k a s)"
| "receipt_step env io now OpPrune s = snd (prune env io now s)"

text \<open>The fields the parameter types of \<open>transition\<close> and \<open>patch\<close> pick, and the types of the
  other arguments.\<close>

definition transition_fields :: "string list" where
  "transition_fields = [''startedAt'', ''agentEndAt'', ''terminalAt'', ''errorCode'', ''interruptionReason'',
     ''liveness'', ''phase7Shadow'', ''outputEvidence'', ''finalText'', ''finalTextTruncated'', ''completion'',
     ''completionDelimiter'', ''completionError'']"

definition patch_fields :: "string list" where
  "patch_fields = [''dispatchMode'', ''liveness'', ''phase7Shadow'', ''outputEvidence'', ''servedModel'', ''modelRebound'']"

fun op_typed :: "receipt_op \<Rightarrow> bool" where
  "op_typed (OpCreate r) \<longleftrightarrow> receipt_wf r \<and> is_str (run_id r)"
| "op_typed (OpTransition k status patch clear) \<longleftrightarrow>
     receipt_wf patch \<and> list_all (\<lambda>key. key \<in> js ` set transition_fields) (jm_keys patch)"
| "op_typed (OpPatch k patch) \<longleftrightarrow>
     receipt_wf patch \<and> list_all (\<lambda>key. key \<in> js ` set patch_fields) (jm_keys patch)"
| "op_typed (OpAgentEnd k a) \<longleftrightarrow>
     json_wf (ae_observation a) \<and> json_wf (ae_tokenUsage a) \<and> json_wf (ae_outputEvidence a)
     \<and> json_wf (ae_completion a) \<and> (ae_observation a = JUndef \<or> is_obj (ae_observation a))"
| "op_typed _ \<longleftrightarrow> True"

text \<open>A process that starts, serves operations and dies leaves its directory to the next one.\<close>

inductive store_reachable :: "receipt_env \<Rightarrow> receipt_store \<Rightarrow> bool" for env where
  first_boot: "init_store env io now (receipt_store_init []) = (Inr (), s) \<Longrightarrow> store_reachable env s"
| operation: "store_reachable env s \<Longrightarrow> op_typed op \<Longrightarrow> (\<And>k. io_unlink io k)
     \<Longrightarrow> store_reachable env (receipt_step env io now op s)"
| restart: "store_reachable env s \<Longrightarrow> (\<And>k. io_unlink io k)
     \<Longrightarrow> init_store env io now (receipt_store_init (rs_disk s)) = (Inr (), s')
     \<Longrightarrow> store_reachable env s'"

subsection \<open>Properties of objects\<close>

lemma getp_putp [simp]: "getp (putp k v r) k' = (if k' = k then v else getp r k')"
  by (simp add: getp_def putp_def)

lemma getp_delp [simp]: "getp (delp k r) k' = (if k' = k then JUndef else getp r k')"
  by (simp add: getp_def delp_def)

lemma receipt_wf_iff:
  "receipt_wf r \<longleftrightarrow> jm_ok r \<and> (\<forall>kv \<in> set r. json_wf (snd kv))"
  by (simp add: receipt_wf_def jm_ok_def list_all_iff)

lemma receipt_wf_jm_set: "receipt_wf r \<Longrightarrow> json_wf v \<Longrightarrow> receipt_wf (jm_set k v r)"
  using jm_set_values [of k v r] by (fastforce simp: receipt_wf_iff)

lemma receipt_wf_putp [intro]: "receipt_wf r \<Longrightarrow> json_wf v \<Longrightarrow> receipt_wf (putp k v r)"
  by (simp add: putp_def receipt_wf_jm_set)

lemma receipt_wf_delp [intro]: "receipt_wf r \<Longrightarrow> receipt_wf (delp k r)"
  using jm_del_subset [of "js k" r] by (auto simp: delp_def receipt_wf_iff)

lemma merge_props_get:
  "jm_ok patch \<Longrightarrow> jm_get (merge_props r patch) k
     = (case jm_get patch k of Some v \<Rightarrow> Some v | None \<Rightarrow> jm_get r k)"
  unfolding merge_props_def
proof (induction patch arbitrary: r)
  case (Cons kv patch)
  obtain a b where kv: "kv = (a, b)" by (cases kv)
  from Cons.prems kv have ok: "jm_ok patch" and new: "jm_get patch a = None"
    by (auto simp: jm_ok_def map_of_eq_None_iff)
  from Cons.IH [OF ok, of "jm_set a b r"] kv new show ?case
    by (cases "a = k") (simp_all split: option.split)
qed simp

lemma getp_merge_other:
  assumes "receipt_wf patch" and "list_all (\<lambda>key. key \<in> js ` set L) (jm_keys patch)" and "k \<notin> set L"
  shows "getp (merge_props r patch) k = getp r k"
proof -
  have "jm_get patch (js k) = None"
    using assms(2,3) by (auto simp: map_of_eq_None_iff list_all_iff)
  then show ?thesis
    using assms(1) by (simp add: getp_def merge_props_get receipt_wf_iff)
qed

lemma receipt_wf_merge:
  assumes "receipt_wf r" and "receipt_wf patch"
  shows "receipt_wf (merge_props r patch)"
proof -
  have "\<forall>kv \<in> set patch. json_wf (snd kv)" using assms(2) by (simp add: receipt_wf_iff)
  then show ?thesis
    using assms(1) unfolding merge_props_def
    by (induction patch arbitrary: r) (auto simp: receipt_wf_jm_set)
qed

lemma clear_idempotency_getp [simp]:
  "getp (clear_idempotency r) k =
     (if k \<in> {''idempotencyExpiresAt'', ''requestFingerprint'', ''idempotencyKeyDigest''} then JUndef else getp r k)"
  by (simp add: clear_idempotency_def)

lemma receipt_wf_clear: "receipt_wf r \<Longrightarrow> receipt_wf (clear_idempotency r)"
  by (auto simp: clear_idempotency_def)

lemma is_obj_of_valid:
  "receipt_ok dp r \<Longrightarrow> getp r ''liveness'' = JUndef \<or> is_obj (getp r ''liveness'')"
  by (simp add: receipt_ok_checks field_checks_def Let_def validate_liveness_def)
    (metis)

subsection \<open>Valid updates\<close>

definition clock_ok :: "receipt_env \<Rightarrow> bool" where
  "clock_ok env \<longleftrightarrow> (\<forall>t. ev_dp env (ev_iso env t) \<noteq> None)"

definition keys_allowed :: "string list \<Rightarrow> js_object \<Rightarrow> bool" where
  "keys_allowed L r \<longleftrightarrow> set (jm_keys r) \<subseteq> js ` set L"

lemma keys_allowed_list_all: "list_all (\<lambda>k. k \<in> js ` set L) (jm_keys r) \<longleftrightarrow> keys_allowed L r"
  by (auto simp: keys_allowed_def list_all_iff)

lemma keys_allowed_putp: "k \<in> set L \<Longrightarrow> keys_allowed L r \<Longrightarrow> keys_allowed L (putp k v r)"
  by (auto simp: keys_allowed_def putp_def jm_keys_set simp del: set_map)

lemma assert_only_keys_JObj: "assert_only_keys (JObj m) L l = None \<longleftrightarrow> keys_allowed L m"
  by (simp only: assert_only_keys_def object_keys.simps option.case check_None keys_allowed_list_all)

lemma valid_cessation:
  assumes "one_of [''confirmed'', ''unconfirmed'', ''unknown''] (text_json st)"
    and "one_of [''terminal_signal'', ''synthetic_terminal_signal'', ''documented_handler_return'',
          ''resource_quiescence'', ''watchdog'', ''server_restart'', ''no_terminal_signal''] (text_json b)"
    and "dp t \<noteq> None"
  shows "cessation_error dp (cessation_json st b t) = None"
  using assms
  by (simp add: cessation_error_def cessation_json_def assert_only_keys_JObj keys_allowed_def
      prp_def assert_iso_timestamp_def)

lemma valid_liveness_cessation:
  assumes "validate_liveness dp (JObj m) = None" and "cessation_error dp c = None"
  shows "validate_liveness dp (JObj (putp ''cessation'' c m)) = None"
  using assms
  by (simp add: validate_liveness_def prop_JObj_getp assert_only_keys_JObj keys_allowed_putp liveness_keys_def)

lemma spread_JObj [simp]: "spread (JObj m) = m"
  by (simp add: spread_def)

lemma valid_recover:
  assumes "clock_ok env" and "receipt_ok (ev_dp env) r"
  shows "receipt_ok (ev_dp env) (recover_receipt env (ev_iso env t) r)"
proof -
  define r1 where "r1 = putp ''interruptionReason''
      (text_json (if ev_classify env r then ''drain_timeout'' else ''server_restart''))
      (putp ''errorCode'' (text_json ''SERVER_RESTART'')
        (putp ''terminalAt'' (JStr (ev_iso env t)) (putp ''status'' (text_json ''interrupted'') r)))"
  define c where "c = cessation_json ''unknown'' ''server_restart'' (ev_iso env t)"
  have keys: "keys_allowed allowed_keys r"
    using assms(2) by (simp add: receipt_ok_checks identity_checks_def Let_def keys_allowed_list_all)
  have r1_status: "one_of [''accepted'', ''queued'', ''started'', ''completed'', ''failed'', ''cancelled'', ''interrupted'']
      (text_json ''interrupted'')"
    by (simp add: one_of_def text_json_def)
  have r1_fields: "safe_error_code (js_string (text_json ''SERVER_RESTART''))"
      "one_of [''server_restart'', ''drain_timeout''] (text_json ''server_restart'')"
      "one_of [''server_restart'', ''drain_timeout''] (text_json ''drain_timeout'')"
    by (simp_all add: one_of_def text_json_def js_def safe_error_code_def is_digit_def)
  have keys1: "keys_allowed allowed_keys r1"
    unfolding r1_def by (intro keys_allowed_putp keys) (simp_all add: allowed_keys_def)
  have parts: "no_error (identity_checks r)" "no_error (evidence_checks r)"
    "no_error (field_checks (ev_dp env) r)"
    using assms(2) by (simp_all add: receipt_ok_checks)
  have ok1: "receipt_ok (ev_dp env) r1"
    unfolding receipt_ok_checks
  proof (intro conjI)
    show "no_error (identity_checks r1)"
      using parts(1) keys1 r1_status by (simp add: identity_checks_def Let_def keys_allowed_list_all r1_def)
    show "no_error (evidence_checks r1)"
      using parts(2) by (simp add: evidence_checks_def Let_def r1_def)
    show "no_error (field_checks (ev_dp env) r1)"
      using parts(3) r1_fields by (simp add: field_checks_def Let_def r1_def)
  qed
  have c_ok: "cessation_error (ev_dp env) c = None"
    unfolding c_def using assms(1)
    by (intro valid_cessation) (auto simp: one_of_def text_json_def clock_ok_def)
  show ?thesis
  proof (cases "truthy (getp r1 ''liveness'')")
    case False
    then show ?thesis using ok1 by (simp add: recover_receipt_def Let_def r1_def)
  next
    case True
    then obtain m where m: "getp r1 ''liveness'' = JObj m"
      using is_obj_of_valid [OF ok1] by (cases "getp r1 ''liveness''") auto
    have live: "validate_liveness (ev_dp env) (JObj m) = None"
      using ok1 m by (simp add: receipt_ok_checks field_checks_def Let_def)
    have "keys_allowed allowed_keys (with_cessation c r1)"
      unfolding with_cessation_def by (intro keys_allowed_putp keys1) (simp add: allowed_keys_def)
    moreover have "validate_liveness (ev_dp env) (JObj (putp ''cessation'' c m)) = None"
      by (rule valid_liveness_cessation [OF live c_ok])
    ultimately have "receipt_ok (ev_dp env) (with_cessation c r1)"
      using ok1 unfolding receipt_ok_checks identity_checks_def evidence_checks_def field_checks_def
        Let_def with_cessation_def keys_allowed_list_all m spread_JObj
      by simp
    with True show ?thesis by (simp add: recover_receipt_def Let_def r1_def c_def)
  qed
qed

lemma json_clone_idem: "json_clone (json_clone v) = json_clone v"
proof (induction v)
  case (JArr vs)
  then show ?case by (auto simp: clone_items_eq)
next
  case (JObj ms)
  have "json_clone (json_clone (snd kv)) = json_clone (snd kv)" if "kv \<in> set ms" for kv
    using JObj that by (cases kv) auto
  then show ?case by (auto simp: clone_members_eq filter_map o_def)
qed auto

lemma receipt_clone_idem [simp]: "receipt_clone (receipt_clone r) = receipt_clone r"
  using json_clone_idem [of "JObj r"] by (simp add: receipt_clone_def)

lemma json_wf_clone: "json_wf v \<Longrightarrow> json_wf (json_clone v)"
proof (induction v)
  case (JArr vs)
  then show ?case by (auto simp: clone_items_eq list_all_iff)
next
  case (JObj ms)
  have "json_wf (json_clone (snd kv))" if "kv \<in> set ms" for kv
    using JObj that by (cases kv) (auto simp: list_all_iff)
  moreover have "distinct (map fst (clone_members ms))"
    using JObj.prems by (auto simp: clone_members_eq o_def intro: filter_fst_distinct)
  ultimately show ?case by (auto simp: clone_members_eq list_all_iff)
qed auto

lemma receipt_wf_clone: "receipt_wf r \<Longrightarrow> receipt_wf (receipt_clone r)"
  using json_wf_clone [of "JObj r"] by (simp add: receipt_wf_def receipt_clone_def)

definition receipt_good :: "receipt_env \<Rightarrow> json \<Rightarrow> js_object \<Rightarrow> bool" where
  "receipt_good env k r \<longleftrightarrow> run_id r = k \<and> is_str k \<and> receipt_ok (ev_dp env) r \<and> receipt_wf r"

lemma run_id_clone: "receipt_wf r \<Longrightarrow> is_str (run_id r) \<Longrightarrow> run_id (receipt_clone r) = run_id r"
  by (cases "run_id r") (auto simp: run_id_def getp_clone)

lemma receipt_good_clone: "receipt_good env k r \<Longrightarrow> receipt_good env k (receipt_clone r)"
  using run_id_clone [of r] by (auto simp: receipt_good_def receipt_ok_clone receipt_wf_clone)

lemma json_wf_JObj: "json_wf (JObj m) \<longleftrightarrow> receipt_wf m"
  by (simp add: receipt_wf_def)

lemma receipt_wf_Nil [simp]: "receipt_wf []"
  by (simp add: receipt_wf_def)

lemma json_wf_text [simp]: "json_wf (text_json s)"
  by (simp add: text_json_def)

lemma json_wf_cessation [simp]: "json_wf (cessation_json st b t)"
  by (simp add: cessation_json_def)

lemma receipt_wf_cessation:
  assumes "receipt_wf r" and "is_obj (getp r ''liveness'')" and "json_wf c"
  shows "receipt_wf (with_cessation c r)"
proof -
  obtain m where m: "getp r ''liveness'' = JObj m" using assms(2) by (cases "getp r ''liveness''") auto
  have "receipt_wf m" using json_wf_getp [OF assms(1), of "''liveness''"] m by (simp add: receipt_wf_def)
  then show ?thesis
    unfolding with_cessation_def m spread_JObj
    by (intro receipt_wf_putp assms) (simp only: json_wf_JObj receipt_wf_putp assms)
qed

lemma receipt_wf_recover:
  assumes "receipt_wf r" and "getp r ''liveness'' = JUndef \<or> is_obj (getp r ''liveness'')"
  shows "receipt_wf (recover_receipt env t r)"
proof -
  have "is_obj (getp r ''liveness'')" if "truthy (getp r ''liveness'')"
    using assms(2) that by auto
  then show ?thesis
    using assms(1) unfolding recover_receipt_def Let_def
    by (auto intro!: receipt_wf_cessation receipt_wf_putp)
qed

lemma run_id_recover [simp]: "run_id (recover_receipt env t r) = run_id r"
  by (simp add: recover_receipt_def Let_def with_cessation_def run_id_def)

lemma receipt_good_recover:
  "clock_ok env \<Longrightarrow> receipt_good env k r \<Longrightarrow> receipt_good env k (recover_receipt env (ev_iso env t) r)"
  by (auto simp: receipt_good_def valid_recover intro!: receipt_wf_recover dest: is_obj_of_valid)

subsection \<open>The store invariant\<close>

definition cache_ok :: "receipt_env \<Rightarrow> receipt_store \<Rightarrow> bool" where
  "cache_ok env s \<longleftrightarrow> jm_ok (rs_cache s)
     \<and> (\<forall>k r. jm_get (rs_cache s) k = Some r \<longrightarrow> receipt_good env k r)"

definition file_entry :: "(json \<Rightarrow> js_object option) \<Rightarrow> jsstr \<Rightarrow> json option \<Rightarrow> bool" where
  "file_entry m f v \<longleftrightarrow> (\<exists>k r. m k = Some r \<and> f = file_of k \<and> v = Some (JObj (receipt_clone r)))"

definition disk_ok :: "receipt_store \<Rightarrow> bool" where
  "disk_ok s \<longleftrightarrow> jm_ok (rs_disk s)
     \<and> (\<forall>f v. jm_get (rs_disk s) f = Some v \<longleftrightarrow> file_entry (jm_get (rs_cache s)) f v)"

definition store_inv :: "receipt_env \<Rightarrow> receipt_store \<Rightarrow> bool" where
  "store_inv env s \<longleftrightarrow> cache_ok env s \<and> (ev_hasDir env \<longrightarrow> disk_ok s)"

lemma cache_okD: "cache_ok env s \<Longrightarrow> jm_get (rs_cache s) k = Some r \<Longrightarrow> receipt_good env k r"
  by (simp add: cache_ok_def)

lemma store_inv_cong:
  "rs_cache s = rs_cache t \<Longrightarrow> rs_disk s = rs_disk t \<Longrightarrow> store_inv env s = store_inv env t"
  by (simp add: store_inv_def cache_ok_def disk_ok_def)

lemma file_of_inj: "is_str k \<Longrightarrow> is_str k' \<Longrightarrow> file_of k = file_of k' \<longleftrightarrow> k = k'"
  by (cases k; cases k') (simp_all add: file_of_def)

lemma file_entry_put:
  assumes "\<And>k' r'. m k' = Some r' \<Longrightarrow> is_str k'" and "is_str k"
  shows "file_entry (m(k \<mapsto> r)) f v \<longleftrightarrow>
    (if f = file_of k then v = Some (JObj (receipt_clone r)) else file_entry m f v)"
  using assms file_of_inj by (auto simp: file_entry_def split: if_splits; metis)

lemma file_entry_del:
  assumes "\<And>k' r'. m k' = Some r' \<Longrightarrow> is_str k'" and "is_str k"
  shows "file_entry (m(k := None)) f v \<longleftrightarrow> f \<noteq> file_of k \<and> file_entry m f v"
  using assms file_of_inj by (auto simp: file_entry_def split: if_splits; metis)

definition written :: "receipt_env \<Rightarrow> json \<Rightarrow> js_object \<Rightarrow> receipt_store \<Rightarrow> receipt_store" where
  "written env k r s = s \<lparr> rs_cache := jm_set k r (rs_cache s),
     rs_disk := (if ev_hasDir env then jm_set (file_of k) (Some (JObj (receipt_clone r))) (rs_disk s)
                 else rs_disk s) \<rparr>"

lemma store_inv_written:
  assumes inv: "store_inv env s" and good: "receipt_good env k r"
  shows "store_inv env (written env k r s)"
proof -
  have c: "cache_ok env s" using inv by (simp add: store_inv_def)
  have k: "is_str k" using good by (simp add: receipt_good_def)
  have strs: "is_str k'" if "jm_get (rs_cache s) k' = Some r'" for k' r'
    using cache_okD [OF c that] by (simp add: receipt_good_def)
  have "cache_ok env (written env k r s)"
    using c good by (simp add: cache_ok_def written_def)
  moreover have "disk_ok (written env k r s)" if "ev_hasDir env"
  proof -
    have d: "disk_ok s" using inv that by (simp add: store_inv_def)
    then show ?thesis
      using that file_entry_put [of "jm_get (rs_cache s)", OF strs k]
      by (auto simp: disk_ok_def written_def)
  qed
  ultimately show ?thesis by (simp add: store_inv_def)
qed

lemma commit_cases:
  assumes "run_id next = k"
  shows "(\<exists>e. commit env io k next s = (Inl e, s))
    \<or> (commit env io k next s = (Inr (), written env k next s) \<and> receipt_ok (ev_dp env) next)"
  using assms
  by (auto simp: commit_def persist_def and_then_def written_def receipt_ok_def split: option.split)

lemma store_inv_commit:
  assumes "store_inv env s" and "receipt_wf next" and "run_id next = k" and "is_str k"
  shows "store_inv env (snd (commit env io k next s))"
  using commit_cases [OF assms(3), of env io s] store_inv_written [OF assms(1), of k "next"] assms
  by (auto simp: receipt_good_def)

lemma store_inv_delete:
  assumes inv: "store_inv env s" and io: "\<And>k. io_unlink io k" and k: "is_str k"
  shows "store_inv env (snd (delete_receipt env io k s))"
proof -
  have c: "cache_ok env s" using inv by (simp add: store_inv_def)
  have strs: "is_str k'" if "jm_get (rs_cache s) k' = Some r'" for k' r'
    using cache_okD [OF c that] by (simp add: receipt_good_def)
  define s1 where "s1 = snd (delete_receipt env io k s)"
  have cache: "rs_cache s1 = jm_del k (rs_cache s)"
    by (simp add: s1_def delete_receipt_def Let_def)
  have "cache_ok env s1"
    using c by (simp add: cache_ok_def cache)
  moreover have "disk_ok s1" if dir: "ev_hasDir env"
  proof -
    have d: "disk_ok s" using inv dir by (simp add: store_inv_def)
    have disk: "rs_disk s1 = jm_del (file_of k) (rs_disk s)"
      using dir io by (simp add: s1_def delete_receipt_def Let_def)
    show ?thesis
      using d file_entry_del [of "jm_get (rs_cache s)", OF strs k]
      by (auto simp: disk_ok_def cache disk)
  qed
  ultimately show ?thesis by (simp add: store_inv_def s1_def)
qed

subsection \<open>Pruning\<close>

lemma and_then_simps [simp]:
  "and_then (Inl e, s) f = (Inl e, s)"
  "and_then (Inr x, s) f = f x s"
  by (simp_all add: and_then_def)

text \<open>What a sequence of deletions leaves, whether it ends early or not.\<close>

definition shrinks :: "json set \<Rightarrow> receipt_store \<Rightarrow> receipt_store \<Rightarrow> bool" where
  "shrinks K s t \<longleftrightarrow> rs_protected t = rs_protected s \<and> rs_ready t = rs_ready s
     \<and> (jm_ok (rs_cache s) \<longrightarrow> jm_ok (rs_cache t))
     \<and> (\<forall>k. jm_get (rs_cache t) k = jm_get (rs_cache s) k
          \<or> jm_get (rs_cache t) k = None \<and> k \<in> K)"

lemma shrinks_refl: "shrinks K s s"
  by (simp add: shrinks_def)

lemma shrinks_trans: "shrinks K s t \<Longrightarrow> shrinks L t u \<Longrightarrow> shrinks (K \<union> L) s u"
  unfolding shrinks_def by (metis UnI1 UnI2)

lemma shrinks_mono: "shrinks K s t \<Longrightarrow> K \<subseteq> L \<Longrightarrow> shrinks L s t"
  unfolding shrinks_def by blast

lemma shrinks_delete: "shrinks {k} s (snd (delete_receipt env io k s))"
  by (simp add: shrinks_def delete_receipt_def Let_def)

lemma shrinks_delete_all: "shrinks (set ks) s (snd (delete_all env io ks s))"
proof (induction ks arbitrary: s)
  case (Cons k ks)
  obtain res t where d: "delete_receipt env io k s = (res, t)" by force
  have t: "shrinks {k} s t" using shrinks_delete [of k s env io] d by simp
  show ?case
  proof (cases res)
    case (Inl e)
    then show ?thesis using t d by (auto intro: shrinks_mono)
  next
    case (Inr u)
    have "shrinks ({k} \<union> set ks) s (snd (delete_all env io ks t))"
      by (rule shrinks_trans [OF t Cons.IH])
    then show ?thesis using d Inr by simp
  qed
qed (simp add: shrinks_refl)

lemma delete_all_done:
  "delete_all env io ks s = (Inr u, t) \<Longrightarrow> rs_cache t = filter (\<lambda>kv. fst kv \<notin> set ks) (rs_cache s)"
proof (induction ks arbitrary: s)
  case (Cons k ks)
  obtain res s1 where d: "delete_receipt env io k s = (res, s1)" by force
  from Cons.prems d obtain v where res: "res = Inr v" by (cases res) auto
  have "rs_cache s1 = jm_del k (rs_cache s)"
    using d by (auto simp: delete_receipt_def Let_def split: if_splits)
  moreover have "rs_cache t = filter (\<lambda>kv. fst kv \<notin> set ks) (rs_cache s1)"
    using Cons d res by simp
  ultimately show ?case by (auto simp: jm_del_def filter_filter intro!: filter_cong)
qed simp

lemma cache_ok_shrinks: "cache_ok env s \<Longrightarrow> shrinks K s t \<Longrightarrow> cache_ok env t"
  unfolding cache_ok_def shrinks_def by (metis option.distinct(1))

lemma cache_values:
  assumes "cache_ok env s" and "r \<in> set (jm_values (rs_cache s))"
  shows "jm_get (rs_cache s) (run_id r) = Some r"
proof -
  obtain k where k: "(k, r) \<in> set (rs_cache s)" using assms(2) by auto
  then have "jm_get (rs_cache s) k = Some r"
    using assms(1) by (simp add: cache_ok_def jm_get_mem)
  then show ?thesis using cache_okD [OF assms(1)] by (simp add: receipt_good_def)
qed

lemma set_terminal_receipts:
  "set (terminal_receipts env s) = {r \<in> set (jm_values (rs_cache s)). is_terminal r}"
  by (auto simp: terminal_receipts_def newest_first_def)

definition prunable :: "receipt_env \<Rightarrow> int \<Rightarrow> receipt_store \<Rightarrow> json set" where
  "prunable env now s =
     {k. \<exists>r. jm_get (rs_cache s) k = Some r \<and> is_terminal r \<and> \<not> prune_exempt env now s r}"

lemma prune_exempt_shrinks: "shrinks K s t \<Longrightarrow> prune_exempt env now t r = prune_exempt env now s r"
  by (simp add: prune_exempt_def shrinks_def)

lemma prunableI:
  assumes "cache_ok env s" and "r \<in> set (terminal_receipts env s)" and "\<not> prune_exempt env now s r"
  shows "run_id r \<in> prunable env now s"
  using assms cache_values [of env s r] by (simp add: prunable_def set_terminal_receipts)

lemma too_old_prunable:
  "cache_ok env s \<Longrightarrow> run_id ` set (too_old env now s) \<subseteq> prunable env now s"
  by (auto simp: too_old_def intro: prunableI)

lemma too_many_prunable:
  "cache_ok env s \<Longrightarrow> run_id ` set (too_many env now s) \<subseteq> prunable env now s"
  by (auto simp: too_many_def intro: prunableI in_set_dropD)

lemma prunable_shrinks: "shrinks K s t \<Longrightarrow> prunable env now t \<subseteq> prunable env now s"
proof -
  assume sh: "shrinks K s t"
  have "jm_get (rs_cache t) k = Some r \<Longrightarrow> jm_get (rs_cache s) k = Some r" for k r
    using sh unfolding shrinks_def by (metis option.distinct(1))
  then show ?thesis using prune_exempt_shrinks [OF sh] by (auto simp: prunable_def)
qed

lemma shrinks_prune:
  assumes c: "cache_ok env s"
  shows "shrinks (prunable env now s) s (snd (prune env io now s))"
proof -
  obtain res t where d: "delete_all env io (map run_id (too_old env now s)) s = (res, t)" by force
  have t: "shrinks (prunable env now s) s t"
    using shrinks_delete_all [of "map run_id (too_old env now s)" s env io] d too_old_prunable [OF c]
    by (auto intro: shrinks_mono)
  show ?thesis
  proof (cases res)
    case (Inl e)
    then show ?thesis using t d by (simp add: prune_def)
  next
    case (Inr u)
    have ct: "cache_ok env t" by (rule cache_ok_shrinks [OF c t])
    have "shrinks (prunable env now t) t (snd (delete_all env io (map run_id (too_many env now t)) t))"
      using shrinks_delete_all [of "map run_id (too_many env now t)" t env io] too_many_prunable [OF ct]
      by (auto intro: shrinks_mono)
    then have "shrinks (prunable env now s) s (snd (delete_all env io (map run_id (too_many env now t)) t))"
      using shrinks_trans [OF t] prunable_shrinks [OF t] by (metis sup.absorb1)
    then show ?thesis using d Inr by (simp add: prune_def)
  qed
qed

lemma store_inv_delete_all:
  assumes "store_inv env s" and io: "\<And>k. io_unlink io k" and "\<forall>k \<in> set ks. is_str k"
  shows "store_inv env (snd (delete_all env io ks s))"
  using assms(1,3)
proof (induction ks arbitrary: s)
  case (Cons k ks)
  obtain res t where d: "delete_receipt env io k s = (res, t)" by force
  have "store_inv env t" using store_inv_delete [of env s io k] Cons.prems io d by simp
  then show ?case using Cons d by (cases res) simp_all
qed simp

lemma prunable_str: "cache_ok env s \<Longrightarrow> k \<in> prunable env now s \<Longrightarrow> is_str k"
  by (auto simp: prunable_def dest!: cache_okD simp: receipt_good_def)

lemma store_inv_prune:
  assumes inv: "store_inv env s" and io: "\<And>k. io_unlink io k"
  shows "store_inv env (snd (prune env io now s))"
proof -
  obtain res t where d: "delete_all env io (map run_id (too_old env now s)) s = (res, t)" by force
  have c: "cache_ok env s" using inv by (simp add: store_inv_def)
  have "\<forall>k \<in> set (map run_id (too_old env now s)). is_str k"
    using too_old_prunable [OF c] prunable_str [OF c] by auto
  then have t: "store_inv env t" using store_inv_delete_all [OF inv io] d by (metis snd_conv)
  then have ct: "cache_ok env t" by (simp add: store_inv_def)
  have "\<forall>k \<in> set (map run_id (too_many env now t)). is_str k"
    using too_many_prunable [OF ct] prunable_str [OF ct] by auto
  then have "store_inv env (snd (delete_all env io (map run_id (too_many env now t)) t))"
    by (rule store_inv_delete_all [OF t io])
  then show ?thesis using d t by (cases res) (simp_all add: prune_def)
qed

subsection \<open>Every operation is at most one validated write, then possibly a prune\<close>

definition served :: "receipt_env \<Rightarrow> receipt_store \<Rightarrow> bool" where
  "served env s \<longleftrightarrow> store_inv env s \<and> rs_ready s \<and> rs_protected s = []"

lemma init_ready [simp]: "rs_ready s \<Longrightarrow> init_store env io now s = (Inr (), s)"
  by (simp add: init_store_def)

fun step_next :: "receipt_env \<Rightarrow> int \<Rightarrow> receipt_op \<Rightarrow> json \<Rightarrow> js_object option \<Rightarrow> js_object option" where
  "step_next env now (OpCreate r) k None = (if k = run_id r then Some r else None)"
| "step_next env now (OpTransition k' status patch clear) k (Some cur) =
     (if k = k' \<and> is_legal_transition (getp cur ''status'') status
      then Some (transition_next env now status patch clear cur) else None)"
| "step_next env now (OpPatch k' patch) k (Some cur) =
     (if k = k' \<and> \<not> is_terminal cur then Some (merge_props cur patch) else None)"
| "step_next env now (OpQuiescent k' t) k (Some cur) =
     (if k = k' \<and> truthy (getp cur ''liveness'')
      then Some (with_cessation (cessation_json ''confirmed'' ''resource_quiescence'' t) cur) else None)"
| "step_next env now (OpRelease k') k (Some cur) = (if k = k' then Some (clear_idempotency cur) else None)"
| "step_next env now (OpAgentEnd k' a) k (Some cur) = (if k = k' then Some (agent_end_next a cur) else None)"
| "step_next env now _ k _ = None"

lemma getp_agent_end_other:
  "k \<notin> {''agentEndAt'', ''tokenUsage'', ''outputEvidence'', ''finalText'', ''finalTextTruncated'',
        ''completion'', ''completionDelimiter'', ''completionError'', ''liveness''}
   \<Longrightarrow> getp (agent_end_next a cur) k = getp cur k"
  by (simp add: agent_end_next_def Let_def put_first_def completion_next_def final_text_next_def
      split: option.split)

lemma getp_with_cessation_other: "k \<noteq> ''liveness'' \<Longrightarrow> getp (with_cessation c r) k = getp r k"
  by (simp add: with_cessation_def)

definition fixed_fields :: "string list" where
  "fixed_fields = [''runId'', ''sessionId'', ''runtime'', ''executionInstanceId'', ''model'', ''modelSelector'',
     ''mode'', ''acceptedAt'']"

lemma fixed_fields_apart:
  assumes "f \<in> set fixed_fields"
  shows "f \<notin> set transition_fields" "f \<notin> set patch_fields" "f \<noteq> ''status''" "f \<noteq> ''terminalAt''" "f \<noteq> ''liveness''"
    "f \<notin> {''idempotencyExpiresAt'', ''requestFingerprint'', ''idempotencyKeyDigest''}"
    "f \<notin> {''agentEndAt'', ''tokenUsage'', ''outputEvidence'', ''finalText'', ''finalTextTruncated'',
        ''completion'', ''completionDelimiter'', ''completionError'', ''liveness''}"
  using assms unfolding fixed_fields_def transition_fields_def patch_fields_def
  by (simp; elim disjE; simp)+

lemma step_next_fixed:
  assumes "step_next env now op k (Some cur) = Some next" and "op_typed op" and "f \<in> set fixed_fields"
  shows "getp next f = getp cur f"
  using assms(1,2) fixed_fields_apart [OF assms(3)]
  by (cases op) (auto simp: transition_next_def Let_def getp_agent_end_other
      getp_with_cessation_other getp_merge_other [where L = transition_fields] getp_merge_other [where L = patch_fields]
      split: if_splits)

lemma step_next_status:
  assumes "step_next env now op k (Some cur) = Some next" and "op_typed op"
  shows "getp next ''status'' = getp cur ''status'' \<or>
    (\<exists>st p c. op = OpTransition k st p c \<and> is_legal_transition (getp cur ''status'') st
       \<and> getp next ''status'' = text_json st)"
  using assms
  by (cases op) (auto simp: transition_next_def Let_def getp_agent_end_other getp_with_cessation_other
      getp_merge_other [where L = patch_fields] patch_fields_def split: if_splits)

lemma receipt_wf_put_first: "receipt_wf r \<Longrightarrow> json_wf v \<Longrightarrow> receipt_wf (put_first k v cur r)"
  by (auto simp: put_first_def)

lemma json_wf_observed:
  assumes cur: "receipt_wf cur" and live: "is_obj (getp cur ''liveness'')"
    and wf: "json_wf b" and obj: "is_obj b"
  shows "json_wf (observed_liveness cur b)"
proof -
  obtain m where m: "getp cur ''liveness'' = JObj m" using live by (cases "getp cur ''liveness''") auto
  obtain n where n: "b = JObj n" using obj by (cases b) auto
  have wm: "receipt_wf m" using json_wf_getp [OF cur, of "''liveness''"] m by (simp add: receipt_wf_def)
  have wn: "receipt_wf n" using wf n by (simp add: receipt_wf_def)
  have obs: "json_wf (JObj (putp ''late'' (JBool l) n))" for l
    by (simp only: json_wf_JObj) (intro receipt_wf_putp wn, simp)
  have "json_wf (prp (JObj m) ''terminalObservations'')"
    using wm by (intro json_wf_prp) (simp add: json_wf_JObj del: json_wf.simps)
  then have seen: "\<forall>v \<in> set (observations_of (JObj m)). json_wf v"
    unfolding observations_of_def
    by (cases "prp (JObj m) ''terminalObservations''") (simp_all add: list_all_iff)
  have sub: "set (slice_last 4 vs) \<subseteq> set vs" for vs :: "json list"
    by (auto simp: slice_last_def dest: in_set_dropD)
  have slice: "json_wf (JArr (slice_last 4 vs))" if "\<forall>v \<in> set vs. json_wf v" for vs
    using that sub [of vs] by (auto simp: list_all_iff)
  have arr: "json_wf (JArr (slice_last 4
      (if list_ex P (observations_of (JObj m)) then observations_of (JObj m)
       else observations_of (JObj m) @ [JObj (putp ''late'' (JBool l) n)])))" for P l
    by (intro slice) (use seen obs [of l] in \<open>simp del: json_wf.simps\<close>)
  have p: "json_wf (prp b k)" for k using wf by (rule json_wf_prp)
  have c: "json_wf (prp (JObj m) k)" for k using wm by (intro json_wf_prp) (simp add: json_wf_JObj del: json_wf.simps)
  show ?thesis
    unfolding observed_liveness_def Let_def m spread_JObj n json_wf_JObj
    using p [unfolded n] c
    by (intro receipt_wf_putp wm arr) (simp_all)
qed

lemma receipt_wf_agent_end:
  assumes cur: "receipt_wf cur" and live: "getp cur ''liveness'' = JUndef \<or> is_obj (getp cur ''liveness'')"
    and a: "op_typed (OpAgentEnd k a)"
  shows "receipt_wf (agent_end_next a cur)"
proof -
  have at: "json_wf (nullish (getp cur ''agentEndAt'') (JStr t))" for t
    using json_wf_getp [OF cur] by (simp add: nullish_def)
  have p: "json_wf (prp (ae_completion a) k)" for k
    using a by (intro json_wf_prp) simp
  have comp: "receipt_wf (completion_next (ae_completion a) cur r)" if "receipt_wf r" for r
    using that p by (auto simp: completion_next_def Let_def intro!: receipt_wf_put_first receipt_wf_putp)
  have final: "receipt_wf (final_text_next ft cur r)" if "receipt_wf r" for ft r
    using that by (auto simp: final_text_next_def intro!: receipt_wf_putp split: option.split)
  have obs: "json_wf (observed_liveness cur (ae_observation a))"
    if "truthy (ae_observation a)" and "truthy (getp cur ''liveness'')"
    using that live a by (intro json_wf_observed cur) auto
  show ?thesis
    unfolding agent_end_next_def Let_def
    using a obs by (auto intro!: receipt_wf_putp comp final receipt_wf_put_first at cur)
qed

lemma step_next_good:
  assumes nx: "step_next env now op k cur = Some next" and typed: "op_typed op"
    and cur: "\<And>c. cur = Some c \<Longrightarrow> receipt_good env k c" and ok: "receipt_ok (ev_dp env) next"
  shows "receipt_good env k next"
proof (cases cur)
  case None
  with nx typed ok show ?thesis by (cases op) (auto simp: receipt_good_def split: if_splits)
next
  case (Some c)
  have g: "receipt_wf c" "run_id c = k" "is_str k" "receipt_ok (ev_dp env) c"
    using cur [OF Some] by (simp_all add: receipt_good_def)
  have id: "run_id next = k"
    using step_next_fixed [OF nx [unfolded Some] typed, of "''runId''"] g(2)
    by (simp add: run_id_def fixed_fields_def)
  have live: "getp c ''liveness'' = JUndef \<or> is_obj (getp c ''liveness'')"
    by (rule is_obj_of_valid [OF g(4)])
  have "receipt_wf next"
  proof (cases op)
    case (OpAgentEnd k' a)
    then show ?thesis
      using nx [unfolded Some] typed g live receipt_wf_agent_end [of c k' a] by (auto split: if_splits)
  next
    case (OpQuiescent k' t)
    then show ?thesis
      using nx [unfolded Some] g live by (auto intro!: receipt_wf_cessation split: if_splits)
  qed (use nx [unfolded Some] typed g in \<open>auto simp: transition_next_def Let_def
      intro!: receipt_wf_clear receipt_wf_putp receipt_wf_merge split: if_splits\<close>)
  with id g ok show ?thesis by (simp add: receipt_good_def)
qed

definition step_effect ::
  "receipt_env \<Rightarrow> receipt_io \<Rightarrow> int \<Rightarrow> receipt_op \<Rightarrow> receipt_store \<Rightarrow> receipt_store \<Rightarrow> bool" where
  "step_effect env io now op s t \<longleftrightarrow>
     t = s \<or> (op = OpPrune \<and> t = snd (prune env io now s))
     \<or> (\<exists>k next. step_next env now op k (jm_get (rs_cache s) k) = Some next
          \<and> receipt_ok (ev_dp env) next
          \<and> (t = written env k next s \<or> t = snd (prune env io now (written env k next s))))"

lemma update_effect:
  assumes "step_next env now op k (jm_get (rs_cache s) k) = Some next" and "run_id next = k"
    and "\<And>u. f () u = (Inr x, u) \<or> f () u = and_then (prune env io now u) (\<lambda>_ v. (Inr x, v))"
  shows "step_effect env io now op s (snd (and_then (commit env io k next s) f))"
proof -
  consider e where "commit env io k next s = (Inl e, s)"
    | "commit env io k next s = (Inr (), written env k next s)" "receipt_ok (ev_dp env) next"
    using commit_cases [OF assms(2), of env io s] by blast
  then show ?thesis
  proof cases
    case 2
    have "snd (f () u) = u \<or> snd (f () u) = snd (prune env io now u)" for u
      using assms(3) [of u] by (auto simp: and_then_def split: prod.split sum.split)
    then show ?thesis using 2 assms(1) unfolding step_effect_def by fastforce
  qed (simp add: step_effect_def)
qed

lemma step_decompose:
  assumes sv: "served env s" and typed: "op_typed op"
  shows "step_effect env io now op s (receipt_step env io now op s)"
proof -
  have ready: "rs_ready s" and c: "cache_ok env s" using sv by (simp_all add: served_def store_inv_def)
  have id: "run_id next = k"
    if "step_next env now op k (Some cur) = Some next" and "jm_get (rs_cache s) k = Some cur" for k cur "next"
    using step_next_fixed [OF that(1) typed, of "''runId''"] cache_okD [OF c that(2)]
    by (simp add: fixed_fields_def run_id_def receipt_good_def)
  show ?thesis
  proof (cases op)
    case (OpCreate r)
    have "step_effect env io now op s (snd (and_then (commit env io (run_id r) r s) (\<lambda>_. prune env io now)))"
      if "jm_get (rs_cache s) (run_id r) = None"
    proof (rule update_effect)
      show "step_next env now op (run_id r) (jm_get (rs_cache s) (run_id r)) = Some r"
        using that OpCreate by simp
    qed (auto simp: and_then_def split: prod.split sum.split)
    then show ?thesis
      using OpCreate ready
      by (auto simp: create_receipt_def jm_has_def step_effect_def split: option.split)
  next
    case (OpTransition k st p cl)
    show ?thesis
    proof (cases "jm_get (rs_cache s) k")
      case (Some cur)
      have "step_effect env io now op s (snd (and_then (commit env io k (transition_next env now st p cl cur) s)
          (\<lambda>_ s1. and_then (prune env io now s1) (\<lambda>_ s2. (Inr (transition_next env now st p cl cur), s2)))))"
        if "is_legal_transition (getp cur ''status'') st"
        by (rule update_effect) (use OpTransition Some that id [OF _ Some] in auto)
      then show ?thesis using OpTransition ready Some
        by (auto simp: transition_def Let_def step_effect_def)
    qed (use OpTransition ready in \<open>simp add: transition_def step_effect_def\<close>)
  next
    case (OpPatch k p)
    show ?thesis
    proof (cases "jm_get (rs_cache s) k")
      case (Some cur)
      have "step_effect env io now op s (snd (and_then (commit env io k (merge_props cur p) s)
          (\<lambda>_ s1. (Inr (Some (merge_props cur p)), s1))))" if "\<not> is_terminal cur"
        by (rule update_effect) (use OpPatch Some that id [OF _ Some] in auto)
      then show ?thesis using OpPatch ready Some
        by (auto simp: patch_receipt_def Let_def step_effect_def)
    qed (use OpPatch ready in \<open>simp add: patch_receipt_def step_effect_def\<close>)
  next
    case (OpQuiescent k tm)
    define n where "n = with_cessation (cessation_json ''confirmed'' ''resource_quiescence'' tm)"
    show ?thesis
    proof (cases "jm_get (rs_cache s) k")
      case (Some cur)
      have "step_effect env io now op s (snd (and_then (commit env io k (n cur) s)
          (\<lambda>_ s1. (Inr (Some (n cur)), s1))))" if "truthy (getp cur ''liveness'')"
        by (rule update_effect) (use OpQuiescent Some that id [OF _ Some] in \<open>auto simp: n_def\<close>)
      then show ?thesis using OpQuiescent ready Some
        by (auto simp: mark_resource_quiescent_def Let_def step_effect_def n_def)
    qed (use OpQuiescent ready in \<open>simp add: mark_resource_quiescent_def step_effect_def\<close>)
  next
    case (OpRelease k)
    show ?thesis
    proof (cases "jm_get (rs_cache s) k")
      case (Some cur)
      have "step_effect env io now op s (snd (and_then (commit env io k (clear_idempotency cur) s)
          (\<lambda>_ s1. (Inr (Some (clear_idempotency cur)), s1))))"
        by (rule update_effect) (use OpRelease Some id [OF _ Some] in auto)
      then show ?thesis using OpRelease ready Some
        by (auto simp: release_idempotency_def Let_def step_effect_def)
    qed (use OpRelease ready in \<open>simp add: release_idempotency_def step_effect_def\<close>)
  next
    case (OpAgentEnd k a)
    show ?thesis
    proof (cases "jm_get (rs_cache s) k")
      case (Some cur)
      have "step_effect env io now op s (snd (and_then (commit env io k (agent_end_next a cur) s)
          (\<lambda>_ s1. (Inr (Some (agent_end_next a cur)), s1))))"
        by (rule update_effect) (use OpAgentEnd Some id [OF _ Some] in auto)
      then show ?thesis using OpAgentEnd ready Some
        by (auto simp: mark_agent_end_def Let_def)
    qed (use OpAgentEnd ready in \<open>simp add: mark_agent_end_def step_effect_def\<close>)
  qed (simp add: step_effect_def)
qed

lemma written_sel [simp]:
  "rs_ready (written env k r s) = rs_ready s" "rs_protected (written env k r s) = rs_protected s"
  "jm_get (rs_cache (written env k r s)) = (jm_get (rs_cache s))(k \<mapsto> r)"
  by (simp_all add: written_def)

lemma served_step:
  assumes sv: "served env s" and typed: "op_typed op" and io: "\<And>k. io_unlink io k"
  shows "served env (receipt_step env io now op s)"
proof -
  have inv: "store_inv env s" using sv by (simp add: served_def)
  have pruned: "served env (snd (prune env io now u))" if "served env u" for u
    using that store_inv_prune [OF _ io, of env u now] shrinks_prune [of env u now io]
    by (auto simp: served_def shrinks_def store_inv_def)
  have wr: "served env (written env k next s)"
    if "step_next env now op k (jm_get (rs_cache s) k) = Some next" and "receipt_ok (ev_dp env) next" for k "next"
    using store_inv_written [OF inv step_next_good [OF that(1) typed _ that(2)]] cache_okD inv sv
    by (auto simp: served_def store_inv_def)
  show ?thesis
    using step_decompose [OF sv typed, of io now] sv wr pruned unfolding step_effect_def by auto
qed

end
