(* ===== verification/Receipt_Durability.thy ===== *)
theory Receipt_Durability
  imports Run_Receipts
begin

text \<open>
  What the run receipts guarantee: the life cycle of a run, what pruning may remove, what a
  restart brings back, and the first-observation rule of \<open>markAgentEnd\<close>. The definitions are
  those of \<open>Run_Receipts\<close>; this theory first lifts its invariant to the reachable states.
\<close>

subsection \<open>Loading the directory\<close>

lemma ends_with_file_of [simp]: "ends_with (js ''.json'') (file_of k)"
  by (simp add: ends_with_def file_of_def)

lemma load_file_good:
  "receipt_good env k r \<Longrightarrow> load_file env c (file_of k, Some (JObj r)) = jm_set k r c"
  by (simp add: load_file_def receipt_good_def receipt_ok_def)

definition files_good :: "receipt_env \<Rightarrow> (jsstr, json option) jsmap \<Rightarrow> bool" where
  "files_good env d \<longleftrightarrow>
     jm_ok d \<and> (\<forall>f v. (f, v) \<in> set d \<longrightarrow> (\<exists>k r. f = file_of k \<and> v = Some (JObj r) \<and> receipt_good env k r))"

lemma files_good_Cons:
  assumes "files_good env (fv # d)"
  obtains k r where "fv = (file_of k, Some (JObj r))" and "receipt_good env k r"
    and "files_good env d" and "jm_get d (file_of k) = None"
proof -
  obtain f v where fv: "fv = (f, v)" by (cases fv)
  from assms fv obtain k r where kr: "f = file_of k" "v = Some (JObj r)" "receipt_good env k r"
    unfolding files_good_def by (metis list.set_intros(1))
  have "files_good env d" using assms by (auto simp: files_good_def jm_ok_def)
  moreover have "jm_get d (file_of k) = None"
    using assms fv kr by (auto simp: files_good_def jm_ok_def map_of_eq_None_iff)
  ultimately show ?thesis using that fv kr by blast
qed

lemma load_files:
  "files_good env d \<Longrightarrow> jm_ok c \<Longrightarrow> jm_ok (foldl (load_file env) c d)"
proof (induction d arbitrary: c)
  case (Cons fv d)
  from Cons.prems(1) obtain k r where "fv = (file_of k, Some (JObj r))" "receipt_good env k r"
    "files_good env d" "jm_get d (file_of k) = None" by (rule files_good_Cons)
  with Cons show ?case by (simp add: load_file_good)
qed simp

lemma load_files_get:
  "files_good env d \<Longrightarrow> jm_get (foldl (load_file env) c d) k =
     (if is_str k then (case jm_get d (file_of k) of Some (Some (JObj r)) \<Rightarrow> Some r | _ \<Rightarrow> jm_get c k)
      else jm_get c k)"
proof (induction d arbitrary: c)
  case (Cons fv d)
  from Cons.prems obtain k0 r0 where e: "fv = (file_of k0, Some (JObj r0))" "receipt_good env k0 r0"
    "files_good env d" "jm_get d (file_of k0) = None" by (rule files_good_Cons)
  have str: "is_str k0" using e(2) by (simp add: receipt_good_def)
  have step: "jm_get (foldl (load_file env) c (fv # d)) k
      = jm_get (foldl (load_file env) (jm_set k0 r0 c) d) k"
    using e by (simp add: load_file_good)
  show ?case
  proof (cases "k = k0")
    case True
    then show ?thesis using step Cons.IH [OF e(3), of "jm_set k0 r0 c"] e str by simp
  next
    case False
    then have "is_str k \<Longrightarrow> file_of k \<noteq> file_of k0" using file_of_inj str by blast
    with step Cons.IH [OF e(3), of "jm_set k0 r0 c"] e(1) False show ?thesis
      by (auto split: option.split json.split)
  qed
qed simp

lemma load_of_disk:
  assumes inv: "store_inv env s" and dir: "ev_hasDir env"
  shows "jm_ok (foldl (load_file env) [] (rs_disk s))"
    and "jm_get (foldl (load_file env) [] (rs_disk s)) k = map_option receipt_clone (jm_get (rs_cache s) k)"
proof -
  have c: "cache_ok env s" and d: "disk_ok s" using inv dir by (simp_all add: store_inv_def)
  have entry: "jm_get (rs_disk s) f = Some v \<longleftrightarrow> file_entry (jm_get (rs_cache s)) f v" for f v
    using d by (simp add: disk_ok_def)
  have good: "files_good env (rs_disk s)"
    using d entry receipt_good_clone cache_okD [OF c]
    by (fastforce simp: files_good_def disk_ok_def file_entry_def jm_get_mem [symmetric])
  then show "jm_ok (foldl (load_file env) [] (rs_disk s))" by (simp add: load_files)
  have strs: "is_str k" if "jm_get (rs_cache s) k = Some r" for k r
    using cache_okD [OF c that] by (simp add: receipt_good_def)
  show "jm_get (foldl (load_file env) [] (rs_disk s)) k = map_option receipt_clone (jm_get (rs_cache s) k)"
  proof (cases "jm_get (rs_cache s) k")
    case None
    have "jm_get (rs_disk s) (file_of k) = None" if "is_str k"
    proof (rule ccontr)
      assume "\<not> ?thesis"
      then obtain v where "jm_get (rs_disk s) (file_of k) = Some v" by auto
      then obtain k' r where "jm_get (rs_cache s) k' = Some r" "file_of k = file_of k'"
        by (auto simp: entry file_entry_def)
      with strs file_of_inj [OF that] None show False by fastforce
    qed
    then show ?thesis using None by (simp add: load_files_get [OF good])
  next
    case (Some r)
    have "jm_get (rs_disk s) (file_of k) = Some (Some (JObj (receipt_clone r)))"
      using Some by (auto simp: entry file_entry_def)
    then show ?thesis using Some strs [OF Some] by (simp add: load_files_get [OF good])
  qed
qed

subsection \<open>Recovery\<close>

lemma persist_cases:
  "run_id r = k \<Longrightarrow> (\<exists>e. persist env io r s = (Inl e, s))
     \<or> persist env io r (s \<lparr> rs_cache := jm_set k r (rs_cache s) \<rparr>) = (Inr (), written env k r s)
     \<or> (ev_hasDir env \<and> \<not> io_write io k)"
  by (auto simp: persist_def written_def)

lemma recover_loop_done:
  assumes clock: "clock_ok env"
  shows "recover_loop env io (ev_iso env now) es s = (Inr u, t) \<Longrightarrow> store_inv env s
    \<Longrightarrow> distinct (map fst es) \<Longrightarrow> \<forall>(k, r) \<in> set es. receipt_good env k r
    \<Longrightarrow> store_inv env t \<and> rs_ready t = rs_ready s
      \<and> (\<forall>k. jm_get (rs_cache t) k =
           (case jm_get es k of
              Some r \<Rightarrow> if is_nonterminal r then Some (recover_receipt env (ev_iso env now) r) else jm_get (rs_cache s) k
            | None \<Rightarrow> jm_get (rs_cache s) k))
      \<and> rs_recovered t = rs_recovered s
          @ map (recovered_entry env (ev_iso env now)) (filter is_nonterminal (map snd es))
      \<and> set (rs_protected t) = set (rs_protected s) \<union> run_id ` {r \<in> set (map snd es). is_nonterminal r}"
proof (induction es arbitrary: s)
  case Nil
  then show ?case by simp
next
  case (Cons e es)
  obtain k r where e: "e = (k, r)" by (cases e)
  have new: "jm_get es k = None" using Cons.prems(3) e by (auto simp: map_of_eq_None_iff)
  have dist: "distinct (map fst es)" and good: "\<forall>(k, r) \<in> set es. receipt_good env k r"
    using Cons.prems e by auto
  show ?case
  proof (cases "is_nonterminal r")
    case False
    then show ?thesis
      using Cons.IH [OF _ Cons.prems(2) dist good] Cons.prems(1) e new
      by (auto split: option.splits)
  next
    case True
    define r' where "r' = recover_receipt env (ev_iso env now) r"
    define s1 where "s1 = s \<lparr> rs_cache := jm_set k r' (rs_cache s),
        rs_recovered := rs_recovered s @ [recovered_entry env (ev_iso env now) r],
        rs_protected := js_add (run_id r) (rs_protected s) \<rparr>"
    have gr: "receipt_good env k r" using Cons.prems(4) e by simp
    have gr': "receipt_good env k r'" unfolding r'_def by (rule receipt_good_recover [OF clock gr])
    have id: "run_id r' = k" using gr' by (simp add: receipt_good_def)
    have loop: "and_then (persist env io r' s1) (\<lambda>_. recover_loop env io (ev_iso env now) es) = (Inr u, t)"
      using Cons.prems(1) e True by (simp add: Let_def r'_def s1_def)
    obtain s2 where p: "persist env io r' s1 = (Inr (), s2)"
      using loop by (cases "persist env io r' s1"; cases "fst (persist env io r' s1)") auto
    have s2: "rs_cache s2 = rs_cache (written env k r' s)" "rs_disk s2 = rs_disk (written env k r' s)"
      "rs_ready s2 = rs_ready s" "rs_recovered s2 = rs_recovered s1" "rs_protected s2 = rs_protected s1"
      using p id by (auto simp: persist_def s1_def written_def split: if_splits)
    have inv2: "store_inv env s2"
      using store_inv_written [OF Cons.prems(2) gr'] store_inv_cong [OF s2(1,2)] by simp
    have "recover_loop env io (ev_iso env now) es s2 = (Inr u, t)" using loop p by simp
    from Cons.IH [OF this inv2 dist good] new True e show ?thesis
      by (auto simp: s2 s1_def r'_def written_def split: option.splits)
  qed
qed

lemma cache_ok_load:
  assumes "store_inv env s" and "ev_hasDir env"
  defines "s1 \<equiv> load_all env (receipt_store_init (rs_disk s))"
  shows "store_inv env s1" and "jm_ok (rs_cache s1)"
    and "jm_get (rs_cache s1) k = map_option receipt_clone (jm_get (rs_cache s) k)"
    and "rs_ready s1" "rs_protected s1 = []" "rs_recovered s1 = []"
proof -
  have get: "jm_get (rs_cache s1) k = map_option receipt_clone (jm_get (rs_cache s) k)" for k
    using load_of_disk(2) [OF assms(1,2)] by (simp add: s1_def load_all_def receipt_store_init_def)
  have ok: "jm_ok (rs_cache s1)"
    using load_of_disk(1) [OF assms(1,2)] by (simp add: s1_def load_all_def receipt_store_init_def)
  have c: "cache_ok env s" and d: "disk_ok s" using assms by (simp_all add: store_inv_def)
  have "cache_ok env s1"
    using ok get receipt_good_clone cache_okD [OF c] by (auto simp: cache_ok_def)
  moreover have "disk_ok s1"
  proof -
    have "file_entry (jm_get (rs_cache s1)) f v = file_entry (jm_get (rs_cache s)) f v" for f v
      by (fastforce simp: file_entry_def get)
    then show ?thesis using d by (simp add: disk_ok_def s1_def load_all_def receipt_store_init_def)
  qed
  ultimately show "store_inv env s1" by (simp add: store_inv_def)
  show "jm_ok (rs_cache s1)" by (rule ok)
  show "jm_get (rs_cache s1) k = map_option receipt_clone (jm_get (rs_cache s) k)" by (rule get)
qed (simp_all add: s1_def load_all_def receipt_store_init_def)

lemma init_store_fresh:
  assumes "ev_hasDir env" and "init_store env io now (receipt_store_init d) = (Inr (), t)"
  obtains t1 t2 where
    "recover_loop env io (ev_iso env now) (rs_cache (load_all env (receipt_store_init d)))
       (load_all env (receipt_store_init d)) = (Inr (), t1)"
    "prune env io now t1 = (Inr (), t2)" "t = t2 \<lparr> rs_protected := [] \<rparr>"
proof -
  define s1 where "s1 = load_all env (receipt_store_init d)"
  have i: "and_then (recover_loop env io (ev_iso env now) (rs_cache s1) s1)
      (\<lambda>_ s2. and_then (prune env io now s2) (\<lambda>_ s3. (Inr (), s3 \<lparr> rs_protected := [] \<rparr>))) = (Inr (), t)"
    using assms by (simp add: init_store_def s1_def Let_def receipt_store_init_def)
  obtain res t1 where r: "recover_loop env io (ev_iso env now) (rs_cache s1) s1 = (res, t1)" by force
  obtain res2 t2 where p: "prune env io now t1 = (res2, t2)" by force
  from i r p show ?thesis
    by (cases res; cases res2) (auto intro: that simp: s1_def)
qed

lemma is_terminal_clone: "receipt_wf r \<Longrightarrow> is_terminal (receipt_clone r) = is_terminal r"
  by (simp add: is_terminal_def getp_clone)

lemma is_nonterminal_clone: "receipt_wf r \<Longrightarrow> is_nonterminal (receipt_clone r) = is_nonterminal r"
  by (simp add: is_nonterminal_def getp_clone)

lemma status_partition:
  assumes "receipt_ok dp r"
  shows "is_terminal r \<longleftrightarrow> \<not> is_nonterminal r"
proof -
  have "one_of [''accepted'', ''queued'', ''started'', ''completed'', ''failed'', ''cancelled'', ''interrupted'']
      (getp r ''status'')"
    using assms by (simp add: receipt_ok_checks identity_checks_def Let_def)
  then show ?thesis
    by (cases "getp r ''status''")
      (auto simp: is_terminal_def is_nonterminal_def one_of_def terminal_statuses_def nonterminal_statuses_def)
qed

lemma is_terminal_recover: "is_terminal (recover_receipt env t r)"
  by (simp add: is_terminal_def recover_receipt_def Let_def with_cessation_def one_of_def
      terminal_statuses_def text_json_def)

text \<open>What the next process holds for a receipt: the copy read back from disk, interrupted
  when the run was still going.\<close>

definition after_restart :: "receipt_env \<Rightarrow> int \<Rightarrow> js_object \<Rightarrow> js_object" where
  "after_restart env now r =
     (if is_nonterminal r then recover_receipt env (ev_iso env now) (receipt_clone r) else receipt_clone r)"

lemma delete_all_recovered: "rs_recovered (snd (delete_all env io ks s)) = rs_recovered s"
proof (induction ks arbitrary: s)
  case (Cons k ks)
  obtain res t where d: "delete_receipt env io k s = (res, t)" by force
  then have "rs_recovered t = rs_recovered s" by (auto simp: delete_receipt_def Let_def split: if_splits)
  with d Cons show ?case by (cases res) simp_all
qed simp

lemma prune_recovered:
  assumes "prune env io now s = (res, t)"
  shows "rs_recovered t = rs_recovered s"
proof -
  obtain res1 s1 where d: "delete_all env io (map run_id (too_old env now s)) s = (res1, s1)" by force
  have s1: "rs_recovered s1 = rs_recovered s" using delete_all_recovered [of env io _ s] d by (metis snd_conv)
  with assms d delete_all_recovered [of env io "map run_id (too_many env now s1)" s1]
  show ?thesis by (cases res1) (simp_all add: prune_def)
qed

text \<open>The reached state of a start over the directory of a served store.\<close>

lemma restart_state:
  assumes clock: "clock_ok env" and inv: "store_inv env s" and dir: "ev_hasDir env"
    and start: "init_store env io now (receipt_store_init (rs_disk s)) = (Inr (), t)"
  shows "\<exists>u. store_inv env u \<and> rs_ready u
    \<and> (\<forall>k. jm_get (rs_cache u) k = map_option (after_restart env now) (jm_get (rs_cache s) k))
    \<and> rv_runId ` set (rs_recovered t) = {k. \<exists>r. jm_get (rs_cache s) k = Some r \<and> is_nonterminal r}
    \<and> set (rs_protected u) = {k. \<exists>r. jm_get (rs_cache s) k = Some r \<and> is_nonterminal r}
    \<and> prune env io now u = (Inr (), t \<lparr> rs_protected := rs_protected u \<rparr>) \<and> rs_protected t = []"
proof -
  define s1 where "s1 = load_all env (receipt_store_init (rs_disk s))"
  note L = cache_ok_load [OF inv dir, folded s1_def]
  from dir start obtain t1 t2 where
    loop: "recover_loop env io (ev_iso env now) (rs_cache s1) s1 = (Inr (), t1)"
    and p: "prune env io now t1 = (Inr (), t2)" and t: "t = t2 \<lparr> rs_protected := [] \<rparr>"
    unfolding s1_def by (rule init_store_fresh)
  have c: "cache_ok env s" using inv by (simp add: store_inv_def)
  have wf: "receipt_wf r" if "jm_get (rs_cache s) k = Some r" for k r
    using cache_okD [OF c that] by (simp add: receipt_good_def)
  have c1: "cache_ok env s1" using L(1) by (simp add: store_inv_def)
  have dist: "distinct (map fst (rs_cache s1))" using L(2) by (simp add: jm_ok_def)
  have good: "\<forall>(k, r) \<in> set (rs_cache s1). receipt_good env k r"
    using c1 L(2) by (auto simp: jm_get_mem [symmetric] dest: cache_okD)
  note R = recover_loop_done [OF clock loop L(1) dist good]
  have get: "jm_get (rs_cache t1) k = map_option (after_restart env now) (jm_get (rs_cache s) k)" for k
    using R L(3) wf is_nonterminal_clone by (cases "jm_get (rs_cache s) k") (auto simp: after_restart_def)
  have mem: "r \<in> set (jm_values (rs_cache s1)) \<longleftrightarrow> jm_get (rs_cache s1) (run_id r) = Some r" for r
    using cache_values [OF c1] jm_get_mem [OF L(2)] by (metis image_eqI list.set_map snd_conv)
  have ids: "run_id r = k" if "jm_get (rs_cache s1) k = Some r" for k r
    using cache_okD [OF c1 that] by (simp add: receipt_good_def)
  have going: "run_id ` {r \<in> set (jm_values (rs_cache s1)). is_nonterminal r}
      = {k. \<exists>r. jm_get (rs_cache s) k = Some r \<and> is_nonterminal r}"
  proof (rule set_eqI)
    fix k
    have "k \<in> run_id ` {r \<in> set (jm_values (rs_cache s1)). is_nonterminal r}
        \<longleftrightarrow> (\<exists>q. jm_get (rs_cache s1) k = Some q \<and> is_nonterminal q)"
      using mem ids by blast
    also have "\<dots> \<longleftrightarrow> (\<exists>r. jm_get (rs_cache s) k = Some r \<and> is_nonterminal r)"
      using L(3) wf is_nonterminal_clone by auto
    finally show "k \<in> run_id ` {r \<in> set (jm_values (rs_cache s1)). is_nonterminal r}
        \<longleftrightarrow> k \<in> {k. \<exists>r. jm_get (rs_cache s) k = Some r \<and> is_nonterminal r}" by simp
  qed
  have prot: "set (rs_protected t1) = {k. \<exists>r. jm_get (rs_cache s) k = Some r \<and> is_nonterminal r}"
    using R L(5) going by simp
  have "rv_runId ` set (rs_recovered t1) = run_id ` {r \<in> set (jm_values (rs_cache s1)). is_nonterminal r}"
    using R L(6) by (simp add: image_image recovered_entry_def)
  then have recs: "rv_runId ` set (rs_recovered t) = {k. \<exists>r. jm_get (rs_cache s) k = Some r \<and> is_nonterminal r}"
    using going t prune_recovered [OF p] by simp
  have "rs_protected t2 = rs_protected t1"
    using shrinks_prune [of env t1 now io] R p by (simp add: shrinks_def store_inv_def)
  then have t2: "t2 = t \<lparr> rs_protected := rs_protected t1 \<rparr>" and t0: "rs_protected t = []"
    using t by simp_all
  have p': "prune env io now t1 = (Inr (), t \<lparr> rs_protected := rs_protected t1 \<rparr>)" using p t2 by simp
  have rdy: "rs_ready t1" "store_inv env t1" using R L(4) by simp_all
  show ?thesis
    by (rule exI [of _ t1]) (intro conjI allI rdy get recs prot p' t0)
qed

lemma served_reachable:
  assumes clock: "clock_ok env" and reach: "store_reachable env s"
  shows "served env s"
  using reach
proof (induction rule: store_reachable.induct)
  case (first_boot io now s)
  have "store_inv env s"
  proof (cases "ev_hasDir env")
    case True
    with first_boot show ?thesis
      by (elim init_store_fresh)
        (auto simp: load_all_def receipt_store_init_def prune_def too_old_def too_many_def terminal_receipts_def
          newest_first_def store_inv_def cache_ok_def disk_ok_def file_entry_def)
  next
    case False
    with first_boot show ?thesis
      by (auto simp: init_store_def receipt_store_init_def store_inv_def cache_ok_def)
  qed
  moreover have "rs_ready s \<and> rs_protected s = []"
  proof (cases "ev_hasDir env")
    case True
    with first_boot show ?thesis
      by (elim init_store_fresh)
        (auto simp: load_all_def receipt_store_init_def prune_def too_old_def too_many_def terminal_receipts_def
          newest_first_def)
  next
    case False
    with first_boot show ?thesis by (auto simp: init_store_def receipt_store_init_def)
  qed
  ultimately show ?case by (simp add: served_def)
next
  case (operation s op io now)
  then show ?case by (intro served_step)
next
  case (restart s io now s')
  have inv: "store_inv env s" using restart.IH by (simp add: served_def)
  show ?case
  proof (cases "ev_hasDir env")
    case False
    with restart show ?thesis
      by (auto simp: init_store_def receipt_store_init_def served_def store_inv_def cache_ok_def)
  next
    case True
    obtain u where u: "store_inv env u" "rs_ready u"
      "prune env io now u = (Inr (), s' \<lparr> rs_protected := rs_protected u \<rparr>)" "rs_protected s' = []"
      using restart_state [OF clock inv True restart.hyps(3)] by blast
    have "store_inv env (s' \<lparr> rs_protected := rs_protected u \<rparr>)"
      using store_inv_prune [OF u(1) restart.hyps(2), of now] u(3) by simp
    then have "store_inv env s'" using store_inv_cong [of s' "s' \<lparr> rs_protected := rs_protected u \<rparr>"] by simp
    moreover have "rs_ready s'"
      using shrinks_prune [of env u now io] u by (simp add: shrinks_def store_inv_def)
    ultimately show ?thesis using u(4) by (simp add: served_def)
  qed
qed

subsection \<open>Properties\<close>

lemma not_legal_terminal: "is_terminal r \<Longrightarrow> \<not> is_legal_transition (getp r ''status'') st"
  by (cases "getp r ''status''")
    (auto simp: is_terminal_def is_legal_transition_def one_of_def is_text_def terminal_statuses_def)

lemma legal_target_terminal:
  "getp next ''status'' = text_json st \<Longrightarrow> is_terminal next \<longleftrightarrow> st \<in> set terminal_statuses"
  by (auto simp: is_terminal_def one_of_def text_json_def)

definition status_evolves :: "receipt_op \<Rightarrow> js_object \<Rightarrow> js_object option \<Rightarrow> bool" where
  "status_evolves op r r' =
     (case r' of
        Some n \<Rightarrow>
          (\<forall>f \<in> set fixed_fields. getp n f = getp r f)
          \<and> (getp n ''status'' = getp r ''status''
             \<or> (\<exists>st p c. op = OpTransition (run_id r) st p c \<and> is_legal_transition (getp r ''status'') st
                  \<and> getp n ''status'' = text_json st))
      | None \<Rightarrow>
          is_terminal r
          \<or> (\<exists>st p c. op = OpTransition (run_id r) st p c \<and> is_legal_transition (getp r ''status'') st
               \<and> st \<in> set terminal_statuses))"

lemma status_evolves_refl: "status_evolves op r (Some r)"
  by (simp add: status_evolves_def)

lemma status_evolves_next:
  assumes "step_next env now op k (Some r) = Some n" and "op_typed op" and "run_id r = k"
  shows "status_evolves op r (Some n)" and "is_terminal n \<Longrightarrow> status_evolves op r None"
proof -
  have fixed: "\<forall>f \<in> set fixed_fields. getp n f = getp r f"
    using step_next_fixed [OF assms(1,2)] by blast
  have key: "k' = run_id r" if "op = OpTransition k' st p c" for k' st p c
    using assms(1,3) that by (auto split: if_splits)
  note st = step_next_status [OF assms(1,2)]
  show "status_evolves op r (Some n)"
    using st fixed key by (auto simp: status_evolves_def)
  show "status_evolves op r None" if "is_terminal n"
    using st key that legal_target_terminal [of n] by (auto simp: status_evolves_def is_terminal_def)
qed

text \<open>C5: A run's status only moves along the legal transitions, a terminal status never changes,
  and its identity fields never change. A receipt disappears from the store only once it is
  terminal, whatever operation runs and whichever of its writes fail.\<close>
theorem run_status_machine:
  assumes "clock_ok env" and "store_reachable env s" and typed: "op_typed op"
    and r: "jm_get (rs_cache s) k = Some r"
  shows "status_evolves op r (jm_get (rs_cache (receipt_step env io now op s)) k)
    \<and> (\<forall>r'. is_terminal r \<and> jm_get (rs_cache (receipt_step env io now op s)) k = Some r'
         \<longrightarrow> getp r' ''status'' = getp r ''status'')"
proof -
  have sv: "served env s" by (rule served_reachable [OF assms(1,2)])
  then have c: "cache_ok env s" by (simp add: served_def store_inv_def)
  have id: "run_id r = k" using cache_okD [OF c r] by (simp add: receipt_good_def)
  have pruned: "jm_get (rs_cache (snd (prune env io now u))) k = jm_get (rs_cache u) k
      \<or> jm_get (rs_cache (snd (prune env io now u))) k = None
         \<and> (\<exists>q. jm_get (rs_cache u) k = Some q \<and> is_terminal q)" if "cache_ok env u" for u
    using shrinks_prune [OF that, of now io] by (auto simp: shrinks_def prunable_def)
  have wr: "cache_ok env (written env k' n s)"
    if "step_next env now op k' (jm_get (rs_cache s) k') = Some n" and "receipt_ok (ev_dp env) n" for k' n
    using store_inv_written [of env s k' n] step_next_good [OF that(1) typed _ that(2)] cache_okD [OF c] sv
    by (auto simp: served_def store_inv_def)
  have evolves: "status_evolves op r (jm_get (rs_cache (written env k' n s)) k)
      \<and> (\<forall>q. jm_get (rs_cache (written env k' n s)) k = Some q \<and> is_terminal q \<longrightarrow> status_evolves op r None)"
    if "step_next env now op k' (jm_get (rs_cache s) k') = Some n" for k' n
  proof (cases "k' = k")
    case True
    then show ?thesis using status_evolves_next [OF _ typed id] that r by simp
  next
    case False
    then show ?thesis using r by (auto simp: status_evolves_refl) (simp add: status_evolves_def)
  qed
  have main: "status_evolves op r (jm_get (rs_cache (receipt_step env io now op s)) k)"
    using step_decompose [OF sv typed, of io now] unfolding step_effect_def
  proof (elim disjE conjE exE)
    assume "receipt_step env io now op s = s"
    then show ?thesis using r by (simp add: status_evolves_refl)
  next
    assume "op = OpPrune" and t: "receipt_step env io now op s = snd (prune env io now s)"
    show ?thesis using pruned [OF c] r
      by (simp only: t) (auto simp: status_evolves_refl, simp add: status_evolves_def)
  next
    fix k' n
    assume "step_next env now op k' (jm_get (rs_cache s) k') = Some n"
      and "receipt_step env io now op s = written env k' n s"
    then show ?thesis using evolves by metis
  next
    fix k' n
    assume n: "step_next env now op k' (jm_get (rs_cache s) k') = Some n" "receipt_ok (ev_dp env) n"
      and t: "receipt_step env io now op s = snd (prune env io now (written env k' n s))"
    show ?thesis using pruned [OF wr [OF n]] evolves [OF n(1)] unfolding t by metis
  qed
  moreover have "getp r' ''status'' = getp r ''status''"
    if "is_terminal r" and "jm_get (rs_cache (receipt_step env io now op s)) k = Some r'" for r'
    using main that not_legal_terminal [OF that(1)] by (auto simp: status_evolves_def)
  ultimately show ?thesis by blast
qed

lemma values_ids:
  assumes "cache_ok env s"
  shows "map run_id (jm_values (rs_cache s)) = jm_keys (rs_cache s)"
proof -
  have "fst kv = run_id (snd kv)" if "kv \<in> set (rs_cache s)" for kv
  proof -
    have "jm_get (rs_cache s) (fst kv) = Some (snd kv)" using assms that by (simp add: cache_ok_def jm_get_mem)
    then show ?thesis using cache_okD [OF assms] by (simp add: receipt_good_def)
  qed
  then show ?thesis by simp
qed

definition receipt_rank :: "receipt_env \<Rightarrow> js_object \<Rightarrow> int" where
  "receipt_rank env r = opt_val (\<lambda>t. t) (receipt_time env r)"

text \<open>Where a receipt falls behind the count limit, that many others are at least as new.\<close>

lemma behind_limit:
  assumes c: "cache_ok env s" and r: "r \<in> set (drop n (terminal_receipts env s))"
  shows "n \<le> card {k. k \<noteq> run_id r \<and> (\<exists>q. jm_get (rs_cache s) k = Some q \<and> receipt_rank env r \<le> receipt_rank env q)}"
proof -
  let ?L = "terminal_receipts env s"
  let ?A = "{k. k \<noteq> run_id r \<and> (\<exists>q. jm_get (rs_cache s) k = Some q \<and> receipt_rank env r \<le> receipt_rank env q)}"
  have "distinct (map run_id (jm_values (rs_cache s)))"
    using c by (simp only: values_ids [OF c]) (simp add: cache_ok_def jm_ok_def)
  then have d: "distinct (map run_id ?L)"
    by (auto simp: terminal_receipts_def newest_first_def distinct_map inj_on_def)
  have len: "n < length ?L" using r by (metis drop_all empty_iff leI list.set(1))
  have sorted: "sorted (map (\<lambda>q. - receipt_rank env q) ?L)"
    by (simp add: terminal_receipts_def newest_first_def receipt_rank_def)
  have split: "?L = take n ?L @ drop n ?L" by simp
  have "q \<in> set (jm_values (rs_cache s))" if "q \<in> set (take n ?L)" for q
    using that by (auto simp: terminal_receipts_def newest_first_def dest: in_set_takeD)
  moreover have "receipt_rank env r \<le> receipt_rank env q" if "q \<in> set (take n ?L)" for q
  proof -
    have "sorted (map (\<lambda>q. - receipt_rank env q) (take n ?L @ drop n ?L))" using sorted by simp
    then have "\<forall>x \<in> set (take n ?L). \<forall>y \<in> set (drop n ?L). - receipt_rank env x \<le> - receipt_rank env y"
      by (simp only: map_append sorted_append set_map ball_simps) blast
    then show ?thesis using that r by force
  qed
  moreover have "run_id q \<noteq> run_id r" if "q \<in> set (take n ?L)" for q
  proof -
    have "distinct (map run_id (take n ?L @ drop n ?L))" using d by simp
    then show ?thesis using that r by (simp only: map_append distinct_append) (metis disjoint_iff image_eqI list.set_map)
  qed
  ultimately have sub: "run_id ` set (take n ?L) \<subseteq> ?A" using cache_values [OF c] by fastforce
  have "finite {k. \<exists>q. jm_get (rs_cache s) k = Some q}" using finite_dom_map_of [of "rs_cache s"] by (simp add: dom_def)
  then have "finite ?A" by (rule rev_finite_subset) auto
  moreover have "card (run_id ` set (take n ?L)) = n"
  proof -
    have "distinct (map run_id (take n ?L))" using d by (simp only: take_map [symmetric] distinct_take)
    then have "card (set (map run_id (take n ?L))) = length (map run_id (take n ?L))" by (rule distinct_card)
    then show ?thesis using len by simp
  qed
  ultimately show ?thesis using card_mono [OF _ sub] by simp
qed

text \<open>Exactly why pruning removes a receipt, and what the ones it leaves are.\<close>

lemma pruned_receipts:
  assumes c: "cache_ok env s" and ended: "prune env io now s = (Inr (), t)" and r: "jm_get (rs_cache s) k = Some r"
  shows "jm_get (rs_cache t) k = None \<Longrightarrow> \<not> receipt_young env now r
      \<or> ev_maxCount env \<le> card {k'. k' \<noteq> k \<and> (\<exists>q. jm_get (rs_cache s) k' = Some q \<and> receipt_rank env r \<le> receipt_rank env q)}"
    and "jm_get (rs_cache t) k \<noteq> None \<Longrightarrow> is_terminal r \<Longrightarrow> prune_exempt env now s r \<or> receipt_young env now r"
proof -
  have id: "run_id r = k" using cache_okD [OF c r] by (simp add: receipt_good_def)
  have mem: "r \<in> set (jm_values (rs_cache s))" using map_of_SomeD [OF r] by force
  define K1 where "K1 = set (map run_id (too_old env now s))"
  obtain res s1 where d1: "delete_all env io (map run_id (too_old env now s)) s = (res, s1)" by force
  obtain u where res: "res = Inr u" using ended d1 by (cases res) (auto simp: prune_def)
  have c1: "rs_cache s1 = filter (\<lambda>kv. fst kv \<notin> K1) (rs_cache s)"
    using delete_all_done d1 res unfolding K1_def by blast
  have sh1: "shrinks K1 s s1"
    using shrinks_delete_all [of "map run_id (too_old env now s)" s env io] d1 by (simp add: K1_def)
  have ok1: "cache_ok env s1" by (rule cache_ok_shrinks [OF c sh1])
  define K2 where "K2 = set (map run_id (too_many env now s1))"
  have "delete_all env io (map run_id (too_many env now s1)) s1 = (Inr (), t)" using ended d1 res by (simp add: prune_def)
  then have c2: "rs_cache t = filter (\<lambda>kv. fst kv \<notin> K2) (rs_cache s1)" unfolding K2_def by (rule delete_all_done)
  have get: "jm_get (filter (\<lambda>kv. P (fst kv)) m) x = (if P x then jm_get m x else None)" for P m x
    by (induction m) auto
  have inj: "q = r" if "q \<in> set (jm_values (rs_cache s))" "run_id q = k" for q
    using cache_values [OF c that(1)] that(2) r by simp
  show "\<not> receipt_young env now r \<or> ev_maxCount env \<le> card {k'. k' \<noteq> k
      \<and> (\<exists>q. jm_get (rs_cache s) k' = Some q \<and> receipt_rank env r \<le> receipt_rank env q)}"
    if gone: "jm_get (rs_cache t) k = None"
  proof (cases "k \<in> K1")
    case True
    then obtain q where q: "q \<in> set (too_old env now s)" "run_id q = k" by (auto simp: K1_def)
    then have "q = r" using inj by (auto simp: too_old_def terminal_receipts_def newest_first_def)
    then show ?thesis using q(1) by (simp add: too_old_def)
  next
    case False
    then have "k \<in> K2" using gone r by (simp add: c1 c2 get [of "\<lambda>x. x \<notin> K1 \<and> x \<notin> K2"] split: if_splits)
    then obtain q where q: "q \<in> set (drop (ev_maxCount env) (terminal_receipts env s1))" "run_id q = k"
      by (auto simp: K2_def too_many_def)
    have "q \<in> set (jm_values (rs_cache s1))"
      using q(1) by (auto simp: terminal_receipts_def newest_first_def dest: in_set_dropD)
    then have "q \<in> set (jm_values (rs_cache s))" by (auto simp: c1)
    then have "q = r" using inj q(2) by simp
    let ?B = "\<lambda>m. {k'. k' \<noteq> k \<and> (\<exists>q. jm_get m k' = Some q \<and> receipt_rank env r \<le> receipt_rank env q)}"
    have "ev_maxCount env \<le> card (?B (rs_cache s1))"
      using behind_limit [OF ok1 q(1)] q(2) \<open>q = r\<close> by simp
    also have "\<dots> \<le> card (?B (rs_cache s))"
    proof (rule card_mono)
      have "finite {k. \<exists>q. jm_get (rs_cache s) k = Some q}" using finite_dom_map_of [of "rs_cache s"] by (simp add: dom_def)
      then show "finite (?B (rs_cache s))" by (rule rev_finite_subset) auto
      show "?B (rs_cache s1) \<subseteq> ?B (rs_cache s)" by (auto simp: c1 get [of "\<lambda>x. x \<notin> K1"] split: if_splits)
    qed
    finally show ?thesis ..
  qed
  show "prune_exempt env now s r \<or> receipt_young env now r" if "jm_get (rs_cache t) k \<noteq> None" and "is_terminal r"
  proof (rule ccontr)
    assume n: "\<not> ?thesis"
    with that mem id have "k \<in> K1" by (auto simp: K1_def too_old_def set_terminal_receipts)
    then show False using that(1) by (simp add: c1 c2 get [of "\<lambda>x. x \<notin> K1 \<and> x \<notin> K2"])
  qed
qed

text \<open>C6: A restart loses nothing that it should keep. When the start succeeds, over the directory of a reachable store (one in
  whose life no unlink failed), the new process holds every run that was not finished, turned into an interrupted one and
  reported as recovered, and every receipt inside its idempotency window, as it was written. Any other receipt is held as it
  was written and is young, or it is gone and was past the age limit or behind the count limit, with as many others at least
  as new as it. Nothing else appears, and no run is left in a non-terminal status.\<close>
theorem restart_recovers_exactly:
  assumes clock: "clock_ok env" and dir: "ev_hasDir env" and reach: "store_reachable env s"
    and start: "init_store env io now (receipt_store_init (rs_disk s)) = (Inr (), t)"
  shows "(\<forall>k r. jm_get (rs_cache s) k = Some r \<longrightarrow>
      (let r' = after_restart env now r;
           young = (\<exists>u. receipt_time env r' = Some u \<and> now - u \<le> ev_maxAgeMs env);
           newer = {k'. k' \<noteq> k \<and> (\<exists>q. jm_get (rs_cache s) k' = Some q
                          \<and> receipt_rank env r' \<le> receipt_rank env (after_restart env now q))}
       in if is_nonterminal r \<or> is_idempotency_protected env now (receipt_clone r)
          then jm_get (rs_cache t) k = Some r'
          else jm_get (rs_cache t) k = Some r' \<and> young
            \<or> jm_get (rs_cache t) k = None \<and> (\<not> young \<or> ev_maxCount env \<le> card newer)))
    \<and> (\<forall>k r. jm_get (rs_cache t) k = Some r \<longrightarrow> is_terminal r \<and> jm_get (rs_cache s) k \<noteq> None)
    \<and> rv_runId ` set (rs_recovered t) = {k. \<exists>r. jm_get (rs_cache s) k = Some r \<and> is_nonterminal r}"
proof -
  have inv: "store_inv env s" using served_reachable [OF clock reach] by (simp add: served_def)
  then have c: "cache_ok env s" by (simp add: store_inv_def)
  have g: "receipt_wf r" "receipt_ok (ev_dp env) r" if "jm_get (rs_cache s) k = Some r" for k r
    using cache_okD [OF c that] by (simp_all add: receipt_good_def)
  obtain u where u: "store_inv env u"
    "\<And>k. jm_get (rs_cache u) k = map_option (after_restart env now) (jm_get (rs_cache s) k)"
    "set (rs_protected u) = {k. \<exists>r. jm_get (rs_cache s) k = Some r \<and> is_nonterminal r}"
    "prune env io now u = (Inr (), t \<lparr> rs_protected := rs_protected u \<rparr>)"
    and recs: "rv_runId ` set (rs_recovered t) = {k. \<exists>r. jm_get (rs_cache s) k = Some r \<and> is_nonterminal r}"
    using restart_state [OF clock inv dir start] by blast
  have cu: "cache_ok env u" using u(1) by (simp add: store_inv_def)
  have sh: "jm_get (rs_cache t) k = jm_get (rs_cache u) k \<or> jm_get (rs_cache t) k = None \<and> k \<in> prunable env now u" for k
    using shrinks_prune [OF cu, of now io] u(4) by (simp add: shrinks_def)
  have fin: "is_terminal (after_restart env now r)" if "jm_get (rs_cache s) k = Some r" for k r
    using is_terminal_recover status_partition [OF g(2) [OF that]] is_terminal_clone [OF g(1) [OF that]]
    by (simp add: after_restart_def)
  have held: "if is_nonterminal r \<or> is_idempotency_protected env now (receipt_clone r)
      then jm_get (rs_cache t) k = Some (after_restart env now r)
      else (jm_get (rs_cache t) k = Some (after_restart env now r) \<and> receipt_young env now (after_restart env now r))
        \<or> (jm_get (rs_cache t) k = None
           \<and> (\<not> receipt_young env now (after_restart env now r)
              \<or> ev_maxCount env \<le> card {k'. k' \<noteq> k \<and> (\<exists>q. jm_get (rs_cache s) k' = Some q
                   \<and> receipt_rank env (after_restart env now r) \<le> receipt_rank env (after_restart env now q))}))"
    if r: "jm_get (rs_cache s) k = Some r" for k r
  proof -
    have got: "jm_get (rs_cache u) k = Some (after_restart env now r)" using u(2) [of k] r by simp
    have id: "run_id (after_restart env now r) = k" using cache_okD [OF cu got] by (simp add: receipt_good_def)
    have ex: "prune_exempt env now u (after_restart env now r) \<longleftrightarrow> is_nonterminal r \<or> is_idempotency_protected env now (receipt_clone r)"
      if "k \<notin> prunable env now u \<or> \<not> is_nonterminal r"
      using that got id u(3) r fin [OF r] by (auto simp: prune_exempt_def prunable_def after_restart_def)
    have np: "k \<notin> prunable env now u" if "is_nonterminal r \<or> is_idempotency_protected env now (receipt_clone r)"
      using that got id u(3) r by (auto simp: prunable_def prune_exempt_def after_restart_def)
    have others: "{k'. k' \<noteq> k \<and> (\<exists>q. jm_get (rs_cache u) k' = Some q \<and> receipt_rank env (after_restart env now r) \<le> receipt_rank env q)}
        = {k'. k' \<noteq> k \<and> (\<exists>q. jm_get (rs_cache s) k' = Some q \<and> receipt_rank env (after_restart env now r) \<le> receipt_rank env (after_restart env now q))}"
      using u(2) by (auto simp: map_option_case split: option.splits)
    note pr = pruned_receipts [OF cu u(4) got, unfolded others]
    show ?thesis
    proof (cases "is_nonterminal r \<or> is_idempotency_protected env now (receipt_clone r)")
      case True
      then show ?thesis using np sh [of k] got by auto
    next
      case False
      then have "\<not> prune_exempt env now u (after_restart env now r)" using ex by blast
      then show ?thesis using False pr fin [OF r] sh [of k] got by (cases "jm_get (rs_cache t) k") auto
    qed
  qed
  have was: "is_terminal r \<and> jm_get (rs_cache s) k \<noteq> None" if "jm_get (rs_cache t) k = Some r" for k r
    using that sh [of k] u(2) [of k] fin [of k] by (cases "jm_get (rs_cache s) k") auto
  have young: "(\<exists>u. receipt_time env r = Some u \<and> now - u \<le> ev_maxAgeMs env) \<longleftrightarrow> receipt_young env now r" for r
    by (simp add: receipt_young_def split: option.splits)
  show ?thesis unfolding Let_def young using held was recs by blast
qed

lemma newest_first_filter: "newest_first env (filter P rs) = filter P (newest_first env rs)"
  by (simp add: newest_first_def filter_sort)

lemma values_without_keys:
  assumes "cache_ok env s"
  shows "jm_values (filter (\<lambda>kv. fst kv \<notin> K) (rs_cache s)) = filter (\<lambda>r. run_id r \<notin> K) (jm_values (rs_cache s))"
proof -
  have "fst kv = run_id (snd kv)" if "kv \<in> set (rs_cache s)" for kv
  proof -
    have "jm_get (rs_cache s) (fst kv) = Some (snd kv)"
      using assms that by (simp add: cache_ok_def jm_get_mem)
    then show ?thesis using cache_okD [OF assms] by (simp add: receipt_good_def)
  qed
  then have "filter (\<lambda>kv. fst kv \<notin> K) (rs_cache s) = filter (\<lambda>kv. run_id (snd kv) \<notin> K) (rs_cache s)"
    by (intro filter_cong) simp_all
  then show ?thesis by (simp add: filter_map o_def)
qed

lemma terminal_receipts_without:
  assumes "cache_ok env s" and "rs_cache t = filter (\<lambda>kv. fst kv \<notin> K) (rs_cache s)"
  shows "terminal_receipts env t = filter (\<lambda>r. run_id r \<notin> K) (terminal_receipts env s)"
  using values_without_keys [OF assms(1), of K] assms(2)
  by (simp add: terminal_receipts_def newest_first_filter [symmetric] conj_commute)

text \<open>Pruning removes finished receipts only, never one inside its idempotency window or one
  recovered at this start; afterwards every finished receipt that is not exempt is younger than the
  age limit, and at most the configured number of non-exempt finished receipts is left.\<close>
theorem prune_keeps_what_matters:
  assumes "clock_ok env" and "store_reachable env s" and ended: "prune env io now s = (Inr (), t)"
  shows "(\<forall>k r. jm_get (rs_cache s) k = Some r \<and> (is_nonterminal r \<or> prune_exempt env now s r)
             \<longrightarrow> jm_get (rs_cache t) k = Some r)
    \<and> (\<forall>k r. jm_get (rs_cache t) k = Some r \<longrightarrow> jm_get (rs_cache s) k = Some r
          \<and> (is_terminal r \<longrightarrow> prune_exempt env now s r \<or> receipt_young env now r))
    \<and> length (filter (\<lambda>r. \<not> prune_exempt env now s r) (terminal_receipts env t)) \<le> ev_maxCount env"
proof -
  have c: "cache_ok env s" using served_reachable [OF assms(1,2)] by (simp add: served_def store_inv_def)
  define K1 where "K1 = set (map run_id (too_old env now s))"
  obtain res s1 where d1: "delete_all env io (map run_id (too_old env now s)) s = (res, s1)" by force
  obtain u where res: "res = Inr u" using ended d1 by (cases res) (auto simp: prune_def)
  define K2 where "K2 = set (map run_id (too_many env now s1))"
  have c1: "rs_cache s1 = filter (\<lambda>kv. fst kv \<notin> K1) (rs_cache s)"
    using delete_all_done d1 res unfolding K1_def by blast
  have sh1: "shrinks K1 s s1"
    using shrinks_delete_all [of "map run_id (too_old env now s)" s env io] d1 by (simp add: K1_def)
  have ok1: "cache_ok env s1" by (rule cache_ok_shrinks [OF c sh1])
  have "delete_all env io (map run_id (too_many env now s1)) s1 = (Inr (), t)"
    using ended d1 res by (simp add: prune_def)
  then have c2: "rs_cache t = filter (\<lambda>kv. fst kv \<notin> K2) (rs_cache s1)"
    unfolding K2_def by (rule delete_all_done)
  have sh: "jm_get (rs_cache t) k = jm_get (rs_cache s) k \<or> jm_get (rs_cache t) k = None \<and> k \<in> prunable env now s" for k
    using shrinks_prune [OF c, of now io] ended by (simp add: shrinks_def)
  have kept: "jm_get (rs_cache t) k = Some r"
    if "jm_get (rs_cache s) k = Some r" and "is_nonterminal r \<or> prune_exempt env now s r" for k r
    using sh [of k] that cache_okD [OF c that(1)] status_partition [of "ev_dp env" r]
    by (auto simp: prunable_def receipt_good_def)
  have young: "prune_exempt env now s r \<or> receipt_young env now r"
    if t: "jm_get (rs_cache t) k = Some r" and "is_terminal r" for k r
  proof (rule ccontr)
    assume n: "\<not> ?thesis"
    have sk: "jm_get (rs_cache s) k = Some r" using sh [of k] t by auto
    then have "r \<in> set (jm_values (rs_cache s))" and id: "run_id r = k"
      using cache_okD [OF c sk] map_of_SomeD [OF sk] by (force simp: receipt_good_def)+
    with n \<open>is_terminal r\<close> have "k \<in> K1" by (auto simp: K1_def too_old_def set_terminal_receipts)
    moreover have "k \<in> fst ` set (rs_cache t)" using map_of_SomeD [OF t] by force
    ultimately show False by (auto simp: c1 c2)
  qed
  have "filter (\<lambda>r. \<not> prune_exempt env now s r) (terminal_receipts env t)
      = filter (\<lambda>r. run_id r \<notin> K2 \<and> \<not> prune_exempt env now s r) (terminal_receipts env s1)"
    by (simp add: terminal_receipts_without [OF ok1 c2] conj_commute)
  also have "\<dots> = filter (\<lambda>r. run_id r \<notin> K2 \<and> \<not> prune_exempt env now s r)
        (take (ev_maxCount env) (terminal_receipts env s1) @ drop (ev_maxCount env) (terminal_receipts env s1))"
    by simp
  also have "\<dots> = filter (\<lambda>r. run_id r \<notin> K2 \<and> \<not> prune_exempt env now s r)
        (take (ev_maxCount env) (terminal_receipts env s1))"
    by (auto simp only: filter_append append_self_conv filter_empty_conv K2_def set_map too_many_def
        set_filter prune_exempt_shrinks [OF sh1])
  also have "length \<dots> \<le> ev_maxCount env"
    by (rule order_trans [OF length_filter_le]) simp
  finally have "length (filter (\<lambda>r. \<not> prune_exempt env now s r) (terminal_receipts env t)) \<le> ev_maxCount env" .
  moreover have "jm_get (rs_cache s) k = Some r" if "jm_get (rs_cache t) k = Some r" for k r
    using sh [of k] that by auto
  ultimately show ?thesis using kept young by blast
qed

lemma hd_sort_key_least:
  "sort_key f xs = y # ys \<Longrightarrow> y \<in> set xs \<and> (\<forall>x \<in> set xs. f y \<le> f x)"
  using sorted_sort_key [of f xs] set_sort [of f xs] by (auto simp: sorted_wrt_map)

definition holds_key :: "receipt_env \<Rightarrow> jsstr \<Rightarrow> int \<Rightarrow> js_object \<Rightarrow> bool" where
  "holds_key env digest now r \<longleftrightarrow> getp r ''idempotencyKeyDigest'' = JStr digest
     \<and> (let expires = getp r ''idempotencyExpiresAt'' in
        case (if truthy expires then ev_dp env (js_string expires) else Some 0) of
          Some t \<Rightarrow> now < t | None \<Rightarrow> False)"

definition accepted_time :: "receipt_env \<Rightarrow> js_object \<Rightarrow> int" where
  "accepted_time env r = opt_val (\<lambda>t. t) (ev_dp env (js_string (getp r ''acceptedAt'')))"

lemma holds_key_protected: "0 \<le> now \<Longrightarrow> holds_key env d now r \<Longrightarrow> is_idempotency_protected env now r"
  by (auto simp: holds_key_def is_idempotency_protected_def Let_def split: if_splits option.splits)

definition without :: "json set \<Rightarrow> receipt_store \<Rightarrow> receipt_store \<Rightarrow> bool" where
  "without K s t \<longleftrightarrow> rs_cache t = filter (\<lambda>kv. fst kv \<notin> K) (rs_cache s)"

lemma without_trans: "without K s t \<Longrightarrow> without L t u \<Longrightarrow> without (K \<union> L) s u"
  by (auto simp: without_def intro!: filter_cong)

lemma delete_all_without: "\<exists>K \<subseteq> set ks. without K s (snd (delete_all env io ks s))"
proof (induction ks arbitrary: s)
  case Nil
  show ?case by (simp add: without_def)
next
  case (Cons k ks)
  obtain res t where d: "delete_receipt env io k s = (res, t)" by force
  have t: "without {k} s t"
    using d by (auto simp: without_def delete_receipt_def jm_del_def Let_def split: if_splits)
  show ?case
  proof (cases res)
    case (Inl e)
    then show ?thesis using t d by (intro exI [of _ "{k}"]) simp
  next
    case (Inr u)
    obtain K where K: "K \<subseteq> set ks" "without K t (snd (delete_all env io ks t))"
      using Cons.IH [of t] by blast
    have "without ({k} \<union> K) s (snd (delete_all env io (k # ks) s))"
      using without_trans [OF t K(2)] d Inr by simp
    then show ?thesis using K(1) by (intro exI [of _ "{k} \<union> K"]) auto
  qed
qed

lemma prune_without:
  assumes "cache_ok env s"
  shows "\<exists>K \<subseteq> prunable env now s. without K s (snd (prune env io now s))"
proof -
  obtain res t where d: "delete_all env io (map run_id (too_old env now s)) s = (res, t)" by force
  have "\<exists>K \<subseteq> set (map run_id (too_old env now s)). without K s t"
    using delete_all_without [of "map run_id (too_old env now s)" s env io] unfolding d snd_conv .
  then obtain K where K0: "K \<subseteq> set (map run_id (too_old env now s))" and K2: "without K s t" by blast
  have "K \<subseteq> prunable env now s" using K0 too_old_prunable [OF assms, of now] unfolding set_map by (rule order_trans)
  note K = this K2
  show ?thesis
  proof (cases res)
    case (Inl e)
    then show ?thesis using K d by (intro exI [of _ K]) (simp add: prune_def)
  next
    case (Inr u)
    have sh: "shrinks (prunable env now s) s t"
      using shrinks_delete_all [of "map run_id (too_old env now s)" s env io] d too_old_prunable [OF assms]
      by (auto intro: shrinks_mono)
    have ct: "cache_ok env t" by (rule cache_ok_shrinks [OF assms sh])
    obtain L where L0: "L \<subseteq> set (map run_id (too_many env now t))"
      and L2: "without L t (snd (delete_all env io (map run_id (too_many env now t)) t))"
      using delete_all_without [of "map run_id (too_many env now t)" t env io] by blast
    have "L \<subseteq> prunable env now t" using L0 too_many_prunable [OF ct, of now] unfolding set_map by (rule order_trans)
    note L = this L2
    have "L \<subseteq> prunable env now s" using L(1) prunable_shrinks [OF sh] by blast
    moreover have "without (K \<union> L) s (snd (prune env io now s))"
      using without_trans [OF K(2) L(2)] d Inr by (simp add: prune_def)
    ultimately show ?thesis using K(1) by (intro exI [of _ "K \<union> L"]) simp
  qed
qed

lemma find_by_idempotency_alt:
  "find_by_idempotency env d now s =
     (case sort_key (\<lambda>r. - accepted_time env r) (filter (holds_key env d now) (jm_values (rs_cache s))) of
        [] \<Rightarrow> None | r # _ \<Rightarrow> Some r)"
  unfolding find_by_idempotency_def holds_key_def [abs_def] accepted_time_def [abs_def] Let_def ..

lemma matches_without:
  assumes c: "cache_ok env s" and w: "without K s t" and K: "K \<subseteq> prunable env now s" and "0 \<le> now"
  shows "filter (holds_key env d now) (jm_values (rs_cache t)) = filter (holds_key env d now) (jm_values (rs_cache s))"
proof -
  have "jm_values (rs_cache t) = filter (\<lambda>r. run_id r \<notin> K) (jm_values (rs_cache s))"
    using w values_without_keys [OF c, of K] by (simp add: without_def)
  moreover have "run_id r \<notin> K" if "r \<in> set (jm_values (rs_cache s))" and "holds_key env d now r" for r
    using K cache_values [OF c that(1)] holds_key_protected [OF assms(4) that(2)]
    by (auto simp: prunable_def prune_exempt_def)
  ultimately show ?thesis by (auto intro!: filter_cong)
qed

text \<open>A repeated idempotency key finds the newest receipt that still holds it, and nothing when
  none does; pruning never changes the answer.\<close>
theorem idempotency_lookup:
  assumes "clock_ok env" and "store_reachable env s" and "0 \<le> now"
  shows "(case find_by_idempotency env digest now s of
            Some r \<Rightarrow> jm_get (rs_cache s) (run_id r) = Some r \<and> holds_key env digest now r
              \<and> (\<forall>k q. jm_get (rs_cache s) k = Some q \<and> holds_key env digest now q
                   \<longrightarrow> accepted_time env q \<le> accepted_time env r)
          | None \<Rightarrow> \<forall>k q. jm_get (rs_cache s) k = Some q \<longrightarrow> \<not> holds_key env digest now q)
    \<and> find_by_idempotency env digest now (snd (prune env io now s)) = find_by_idempotency env digest now s"
proof -
  have c: "cache_ok env s" using served_reachable [OF assms(1,2)] by (simp add: served_def store_inv_def)
  define ms where "ms = filter (holds_key env digest now) (jm_values (rs_cache s))"
  have in_ms: "q \<in> set ms" if "jm_get (rs_cache s) k = Some q" and "holds_key env digest now q" for k q
    using map_of_SomeD [OF that(1)] that(2) by (force simp: ms_def)
  have found: "jm_get (rs_cache s) (run_id r) = Some r \<and> holds_key env digest now r" if "r \<in> set ms" for r
    using cache_values [OF c] that by (simp add: ms_def)
  have spec: "case find_by_idempotency env digest now s of
            Some r \<Rightarrow> jm_get (rs_cache s) (run_id r) = Some r \<and> holds_key env digest now r
              \<and> (\<forall>k q. jm_get (rs_cache s) k = Some q \<and> holds_key env digest now q
                   \<longrightarrow> accepted_time env q \<le> accepted_time env r)
          | None \<Rightarrow> \<forall>k q. jm_get (rs_cache s) k = Some q \<longrightarrow> \<not> holds_key env digest now q"
  proof (cases "sort_key (\<lambda>r. - accepted_time env r) ms")
    case Nil
    then have "ms = []" by (metis length_0_conv length_sort)
    then show ?thesis using in_ms by (auto simp: find_by_idempotency_alt ms_def [symmetric])
  next
    case (Cons y ys)
    have y: "y \<in> set ms" "\<forall>q \<in> set ms. - accepted_time env y \<le> - accepted_time env q"
      using hd_sort_key_least [OF Cons] by simp_all
    then show ?thesis
      using found [OF y(1)] in_ms Cons by (fastforce simp: find_by_idempotency_alt ms_def [symmetric])
  qed
  obtain K where "K \<subseteq> prunable env now s" "without K s (snd (prune env io now s))"
    using prune_without [OF c] by blast
  from matches_without [OF c this(2,1) assms(3)]
  have "find_by_idempotency env digest now (snd (prune env io now s)) = find_by_idempotency env digest now s"
    by (simp only: find_by_idempotency_alt)
  with spec show ?thesis by blast
qed

lemma strict_eq_text: "is_str v \<Longrightarrow> strict_eq v v"
  by (cases v) auto

lemma same_observation_refl:
  assumes "observation_error dp b = None"
  shows "same_observation b b"
proof -
  have "is_str (prp b ''type'')" "is_str (prp b ''occurredAt'')" "is_str (prp b ''origin'')"
    "prp b ''reason'' = JUndef \<or> is_str (prp b ''reason'')"
    using assms by (auto simp: observation_error_def assert_iso_timestamp_def one_of_def is_text_def
        intro: str_meets_is_str)
  then show ?thesis by (auto simp: same_observation_def strict_eq_text)
qed

lemma valid_observations:
  assumes "receipt_ok dp r" and "is_obj (getp r ''liveness'')"
  shows "length (observations_of (getp r ''liveness'')) \<le> 4"
    and "\<forall>b \<in> set (observations_of (getp r ''liveness'')). observation_error dp b = None"
proof -
  have "getp r ''liveness'' \<noteq> JUndef" using assms(2) by auto
  then have "validate_liveness dp (getp r ''liveness'') = None"
    using assms(1) by (simp add: receipt_ok_checks field_checks_def Let_def)
  then have e: "observations_error dp (prp (getp r ''liveness'') ''terminalObservations'') = None"
    by (simp add: validate_liveness_def)
  show "length (observations_of (getp r ''liveness'')) \<le> 4"
    using e unfolding observations_of_def
    by (cases "prp (getp r ''liveness'') ''terminalObservations''") (auto simp: observations_error_def split: if_splits)
  show "\<forall>b \<in> set (observations_of (getp r ''liveness'')). observation_error dp b = None"
    using e unfolding observations_of_def
    by (cases "prp (getp r ''liveness'') ''terminalObservations''")
      (auto simp: observations_error_def list_all_iff split: if_splits)
qed

lemma observations_of_observed:
  "observations_of (observed_liveness cur b) =
     slice_last 4 (let o' = JObj (putp ''late'' (JBool (is_terminal cur)) (spread b));
                       seen = observations_of (getp cur ''liveness'') in
       if list_ex (\<lambda>c. same_observation c o') seen then seen else seen @ [o'])"
  by (simp add: observed_liveness_def observations_of_def Let_def prop_JObj_getp)

lemma cessation_of_observed:
  "is_terminal cur \<Longrightarrow> is_text ''watchdog'' (prp (prp (getp cur ''liveness'') ''cessation'') ''basis'')
   \<Longrightarrow> prp (observed_liveness cur b) ''cessation'' = prp (getp cur ''liveness'') ''cessation''"
  by (simp add: observed_liveness_def Let_def prop_JObj_getp)

lemma last_slice_last: "x \<in> set (slice_last 4 (xs @ [x]))"
  by (simp add: slice_last_def)

lemma mark_agent_end_result:
  assumes sv: "served env s" and cur: "jm_get (rs_cache s) k = Some cur"
    and ended: "mark_agent_end env io now k a s = (Inr (Some n), t)"
  shows "n = agent_end_next a cur \<and> receipt_ok (ev_dp env) n \<and> jm_get (rs_cache t) k = Some n"
proof -
  have ready: "rs_ready s" and c: "cache_ok env s" using sv by (simp_all add: served_def store_inv_def)
  have id: "run_id (agent_end_next a cur) = k"
    using cache_okD [OF c cur] by (simp add: run_id_def getp_agent_end_other receipt_good_def)
  show ?thesis
    using commit_cases [OF id, of env io s] ended cur ready
    by (auto simp: mark_agent_end_def Let_def)
qed

lemma agent_end_keeps_first:
  "f \<in> {''tokenUsage'', ''outputEvidence'', ''finalText'', ''completion'', ''completionError''}
   \<Longrightarrow> getp cur f \<noteq> JUndef \<Longrightarrow> getp (agent_end_next a cur) f = getp cur f"
  by (elim insertE emptyE; simp add: agent_end_next_def Let_def put_first_def completion_next_def
      final_text_next_def split: option.split)

lemma agent_end_liveness:
  "getp (agent_end_next a cur) ''liveness'' =
     (if truthy (ae_observation a) \<and> truthy (getp cur ''liveness'')
      then observed_liveness cur (ae_observation a) else getp cur ''liveness'')"
  by (auto simp: agent_end_next_def Let_def put_first_def completion_next_def final_text_next_def
      split: option.split)

text \<open>The end-of-run event never reopens or overwrites: the status stays as it is, the first
  recorded evidence of each kind wins, at most four observations are kept, a new one is kept as the
  last, a repeated one is not added, and the cessation a watchdog or a restart recorded on a finished
  run survives.\<close>
theorem agent_end_first_wins:
  assumes "clock_ok env" and "store_reachable env s" and cur: "jm_get (rs_cache s) k = Some cur"
    and ended: "mark_agent_end env io now k a s = (Inr (Some n), t)"
  shows "jm_get (rs_cache t) k = Some n
    \<and> getp n ''status'' = getp cur ''status'' \<and> getp n ''terminalAt'' = getp cur ''terminalAt''
    \<and> (\<forall>f \<in> {''tokenUsage'', ''outputEvidence'', ''finalText'', ''completion'', ''completionError''}.
          getp cur f \<noteq> JUndef \<longrightarrow> getp n f = getp cur f)
    \<and> length (observations_of (getp n ''liveness'')) \<le> 4
    \<and> (truthy (ae_observation a) \<and> truthy (getp cur ''liveness'') \<longrightarrow>
         (\<exists>obs. obs \<in> set (observations_of (getp n ''liveness''))
            \<and> same_observation obs (JObj (putp ''late'' (JBool (is_terminal cur)) (spread (ae_observation a)))))
         \<and> (is_terminal cur \<and> is_text ''watchdog'' (prp (prp (getp cur ''liveness'') ''cessation'') ''basis'')
             \<longrightarrow> prp (getp n ''liveness'') ''cessation'' = prp (getp cur ''liveness'') ''cessation''))"
proof -
  have sv: "served env s" by (rule served_reachable [OF assms(1,2)])
  then have c: "cache_ok env s" by (simp add: served_def store_inv_def)
  have valid: "receipt_ok (ev_dp env) cur" using cache_okD [OF c cur] by (simp add: receipt_good_def)
  note res = mark_agent_end_result [OF sv cur ended]
  have n: "n = agent_end_next a cur" and ok: "receipt_ok (ev_dp env) n" and t: "jm_get (rs_cache t) k = Some n"
    using res by blast+
  have live: "getp n ''liveness'' = JUndef \<or> is_obj (getp n ''liveness'')" by (rule is_obj_of_valid [OF ok])
  have four: "length (observations_of (getp n ''liveness'')) \<le> 4"
    using live valid_observations(1) [OF ok] by (auto simp: observations_of_def prp_def)
  have recorded: "\<exists>obs. obs \<in> set (observations_of (getp n ''liveness''))
      \<and> same_observation obs (JObj (putp ''late'' (JBool (is_terminal cur)) (spread (ae_observation a))))"
    if tr: "truthy (ae_observation a)" "truthy (getp cur ''liveness'')"
  proof -
    define w where "w = JObj (putp ''late'' (JBool (is_terminal cur)) (spread (ae_observation a)))"
    define seen where "seen = observations_of (getp cur ''liveness'')"
    have lo: "getp n ''liveness'' = observed_liveness cur (ae_observation a)"
      using tr n agent_end_liveness by simp
    have obs: "observations_of (getp n ''liveness'')
        = slice_last 4 (if list_ex (\<lambda>c. same_observation c w) seen then seen else seen @ [w])"
      by (simp add: lo observations_of_observed Let_def w_def seen_def)
    show ?thesis
    proof (cases "list_ex (\<lambda>c. same_observation c w) seen")
      case True
      have "is_obj (getp cur ''liveness'')" using is_obj_of_valid [OF valid] tr(2) by auto
      then have "length seen \<le> 4" using valid_observations(1) [OF valid] by (simp add: seen_def)
      then have "slice_last 4 seen = seen" by (simp add: slice_last_def)
      then show ?thesis using True obs by (auto simp: w_def list_ex_iff)
    next
      case False
      have "w \<in> set (observations_of (getp n ''liveness''))" using False obs last_slice_last by simp
      moreover have "is_obj (getp n ''liveness'')" using live lo by (auto simp: observed_liveness_def Let_def)
      ultimately have "same_observation w w"
        using valid_observations(2) [OF ok] same_observation_refl by blast
      then show ?thesis using \<open>w \<in> _\<close> by (auto simp: w_def)
    qed
  qed
  show ?thesis
    using t four recorded n agent_end_keeps_first [of _ cur a] agent_end_liveness [of a cur]
      cessation_of_observed [of cur "ae_observation a"] getp_agent_end_other
    by auto
qed

lemma recover_loop_skip:
  "\<forall>(k, r) \<in> set es. \<not> is_nonterminal r \<Longrightarrow>
   recover_loop env io t (es @ fs) s = recover_loop env io t fs s"
  by (induction es) auto

text \<open>A write that fails while a start recovers interrupted runs is final: the start fails, but
  the store already counts as ready, so a retry returns at once and every later unfinished receipt
  stays in its old, non-terminal status.\<close>
theorem failed_recovery_is_final:
  assumes "ev_hasDir env" and "\<not> rs_ready s" and "jm_ok (rs_cache (load_all env s))"
    and loaded: "rs_cache (load_all env s) = es @ (k, r) # fs"
    and first: "\<forall>(k, r) \<in> set es. \<not> is_nonterminal r" and r: "is_nonterminal r" "\<not> io_write io (run_id r)"
  shows "\<exists>e t. init_store env io now s = (Inl e, t)
    \<and> (\<forall>io' now'. init_store env io' now' t = (Inr (), t))
    \<and> (\<forall>(k', r') \<in> set fs. jm_get (rs_cache t) k' = Some r')"
proof -
  define s1 where "s1 = load_all env s"
  define r' where "r' = recover_receipt env (ev_iso env now) r"
  define t where "t = s1 \<lparr> rs_cache := jm_set k r' (rs_cache s1),
      rs_recovered := rs_recovered s1 @ [recovered_entry env (ev_iso env now) r],
      rs_protected := js_add (run_id r) (rs_protected s1) \<rparr>"
  have "recover_loop env io (ev_iso env now) (rs_cache s1) s1 = (Inl ''write failed'', t)"
    using assms unfolding s1_def [symmetric] loaded [folded s1_def] recover_loop_skip [OF first]
    by (simp add: Let_def persist_def t_def r'_def)
  then have "init_store env io now s = (Inl ''write failed'', t)"
    using assms(1,2) by (simp add: init_store_def Let_def s1_def)
  moreover have "init_store env io' now' t = (Inr (), t)" for io' now'
    by (rule init_ready) (simp add: t_def s1_def load_all_def)
  moreover have "jm_get (rs_cache t) k' = Some q" if "(k', q) \<in> set fs" for k' q
  proof -
    have "jm_ok (es @ (k, r) # fs)" using assms(3) loaded by simp
    then have "k' \<noteq> k" and "jm_get (es @ (k, r) # fs) k' = Some q"
      using that jm_get_mem [of "es @ (k, r) # fs" k' q] by (force simp: jm_ok_def, simp)
    then show ?thesis using loaded by (simp add: t_def s1_def)
  qed
  ultimately show ?thesis by blast
qed

subsection \<open>Witnesses\<close>

text \<open>A clock that writes the time in unary.\<close>

definition unary :: "int \<Rightarrow> jsstr" where
  "unary t = replicate (nat t) 49"

definition unary_parse :: "jsstr \<Rightarrow> int option" where
  "unary_parse s = (if list_all (\<lambda>c. c = 49) s then Some (int (length s)) else None)"

definition demo_env :: "nat \<Rightarrow> receipt_env" where
  "demo_env n = receipt_env_of unary_parse unary True (Some 20) (Some n) None"

definition demo_io :: "bool \<Rightarrow> receipt_io" where
  "demo_io w = \<lparr> io_write = (\<lambda>_. w), io_unlink = (\<lambda>_. True) \<rparr>"

lemma demo_clock: "clock_ok (demo_env n)"
  by (simp add: clock_ok_def demo_env_def receipt_env_of_def unary_def unary_parse_def list_all_iff)

lemma demo_unlink [simp]: "io_unlink (demo_io w) k"
  by (simp add: demo_io_def)

definition demo_receipt :: "string \<Rightarrow> int \<Rightarrow> js_object" where
  "demo_receipt rid tm =
     [(js ''runId'', text_json rid), (js ''sessionId'', text_json ''s1''), (js ''runtime'', text_json ''pi''),
      (js ''executionInstanceId'', text_json ''pi-default''), (js ''status'', text_json ''accepted''),
      (js ''acceptedAt'', JStr (unary tm)),
      (js ''liveness'', JObj [(js ''activityPolicyVersion'', text_json ''run-activity-v1''),
         (js ''idleTimeoutMs'', JNum (js ''5'')), (js ''absoluteTimeoutMs'', JNum (js ''9'')),
         (js ''cessation'', cessation_json ''unknown'' ''no_terminal_signal'' (unary tm))]),
      (js ''mode'', JUndef)]"

definition demo_boot :: "nat \<Rightarrow> receipt_store" where
  "demo_boot n = snd (init_store (demo_env n) (demo_io True) 1 (receipt_store_init []))"

definition demo_running :: "nat \<Rightarrow> receipt_store" where
  "demo_running n = receipt_step (demo_env n) (demo_io True) 2 (OpCreate (demo_receipt ''r1'' 2)) (demo_boot n)"

lemma demo_boot_reachable: "store_reachable (demo_env n) (demo_boot n)"
  by (rule store_reachable.first_boot [where io = "demo_io True" and now = 1])
    (simp add: demo_boot_def init_store_def receipt_store_init_def demo_env_def receipt_env_of_def Let_def
      load_all_def prune_def too_old_def too_many_def terminal_receipts_def newest_first_def)

lemma demo_typed: "op_typed (OpCreate (demo_receipt rid tm))"
  by (simp add: demo_receipt_def receipt_wf_def text_json_def cessation_json_def run_id_def getp_def)

lemma demo_running_reachable: "store_reachable (demo_env n) (demo_running n)"
  unfolding demo_running_def
  by (rule store_reachable.operation [OF demo_boot_reachable demo_typed]) simp

lemma demo_getp [simp]:
  "getp (demo_receipt rid tm) ''runId'' = text_json rid"
  "getp (demo_receipt rid tm) ''sessionId'' = text_json ''s1''"
  "getp (demo_receipt rid tm) ''runtime'' = text_json ''pi''"
  "getp (demo_receipt rid tm) ''executionInstanceId'' = text_json ''pi-default''"
  "getp (demo_receipt rid tm) ''status'' = text_json ''accepted''"
  "getp (demo_receipt rid tm) ''acceptedAt'' = JStr (unary tm)"
  "getp (demo_receipt rid tm) ''terminalAt'' = JUndef"
  "getp (demo_receipt rid tm) ''idempotencyExpiresAt'' = JUndef"
  by (simp_all add: demo_receipt_def getp_def)

lemma demo_liveness:
  "getp (demo_receipt rid tm) ''liveness'' =
     JObj [(js ''activityPolicyVersion'', text_json ''run-activity-v1''),
         (js ''idleTimeoutMs'', JNum (js ''5'')), (js ''absoluteTimeoutMs'', JNum (js ''9'')),
         (js ''cessation'', cessation_json ''unknown'' ''no_terminal_signal'' (unary tm))]"
  by (simp add: demo_receipt_def getp_def)

lemma text_tests [simp]:
  "truthy (text_json s) \<longleftrightarrow> s \<noteq> []"
  "one_of L (text_json s) \<longleftrightarrow> s \<in> set L"
  "is_text u (text_json s) \<longleftrightarrow> s = u"
  "js_string (text_json s) = js s"
  by (auto simp: text_json_def one_of_def is_text_def) (simp_all add: js_def)

lemma unary_parse_unary [simp]: "unary_parse (unary t) = Some (int (nat t))"
  by (simp add: unary_parse_def unary_def list_all_iff)

lemma demo_liveness_valid: "validate_liveness unary_parse (getp (demo_receipt rid tm) ''liveness'') = None"
proof -
  have "cessation_error unary_parse (cessation_json ''unknown'' ''no_terminal_signal'' (unary tm)) = None"
    by (rule valid_cessation) simp_all
  moreover have "positive_number (JNum (js ''5''))" "positive_number (JNum (js ''9''))"
    by (simp_all add: js_def)
  ultimately show ?thesis
    unfolding demo_liveness
    by (simp add: validate_liveness_def assert_only_keys_JObj keys_allowed_def liveness_keys_def
        prop_JObj_getp getp_def activity_error_def watchdog_error_def observations_error_def del: positive_number.simps)
qed

lemma demo_rest:
  "f \<in> {''effort'', ''tokenUsage'', ''outputEvidence'', ''finalText'', ''finalTextTruncated'', ''completion'',
     ''completionDelimiter'', ''completionError'', ''mode'', ''dispatchMode'', ''servedModel'', ''modelRebound'',
     ''idempotencyKeyDigest'', ''requestFingerprint'', ''errorCode'', ''interruptionReason'', ''phase7Shadow''}
   \<Longrightarrow> getp (demo_receipt rid tm) f = JUndef"
  by (elim insertE emptyE; simp add: demo_receipt_def getp_def)

lemma demo_valid:
  assumes "safe_run_id (js rid)"
  shows "validate_receipt unary_parse (demo_receipt rid tm) = None"
proof -
  have "keys_allowed allowed_keys (demo_receipt rid tm)"
    by (simp add: keys_allowed_def demo_receipt_def allowed_keys_def)
  then have "receipt_ok unary_parse (demo_receipt rid tm)"
    using assms demo_rest [of _ rid tm] demo_liveness_valid [of rid tm]
    unfolding receipt_ok_checks identity_checks_def evidence_checks_def field_checks_def Let_def keys_allowed_list_all
    by simp
  then show ?thesis by (simp add: receipt_ok_def)
qed

lemma demo_running_id [simp]: "run_id (demo_receipt rid tm) = text_json rid"
  by (simp add: run_id_def)

lemma demo_nonterminal: "is_nonterminal (demo_receipt rid tm)" "\<not> is_terminal (demo_receipt rid tm)"
  by (simp_all add: is_nonterminal_def nonterminal_statuses_def is_terminal_def terminal_statuses_def)

lemma demo_env_sel [simp]:
  "ev_dp (demo_env n) = unary_parse" "ev_iso (demo_env n) = unary" "ev_hasDir (demo_env n)"
  "ev_maxAgeMs (demo_env n) = 20" "ev_maxCount (demo_env n) = n" "\<not> ev_classify (demo_env n) r"
  by (simp_all add: demo_env_def receipt_env_of_def)

lemma demo_boot_eq: "demo_boot n = \<lparr> rs_cache = [], rs_disk = [], rs_protected = [], rs_recovered = [], rs_ready = True \<rparr>"
  by (simp add: demo_boot_def init_store_def receipt_store_init_def Let_def
      load_all_def prune_def too_old_def too_many_def terminal_receipts_def newest_first_def)

lemma demo_running_eq:
  "demo_running n = written (demo_env n) (text_json ''r1'') (demo_receipt ''r1'' 2) (demo_boot n)"
proof -
  have "safe_run_id (js ''r1'')" by (simp add: safe_run_id_def safe_char_def js_def)
  then have v: "validate_receipt unary_parse (demo_receipt ''r1'' 2) = None" by (rule demo_valid)
  have "commit (demo_env n) (demo_io True) (text_json ''r1'') (demo_receipt ''r1'' 2) (demo_boot n)
      = (Inr (), written (demo_env n) (text_json ''r1'') (demo_receipt ''r1'' 2) (demo_boot n))"
    using v by (simp add: commit_def persist_def written_def demo_io_def)
  moreover have "prune (demo_env n) (demo_io True) 2 (written (demo_env n) (text_json ''r1'') (demo_receipt ''r1'' 2) (demo_boot n))
      = (Inr (), written (demo_env n) (text_json ''r1'') (demo_receipt ''r1'' 2) (demo_boot n))"
    by (simp add: prune_def too_old_def too_many_def terminal_receipts_def newest_first_def written_def
        demo_boot_eq demo_nonterminal)
  ultimately show ?thesis
    using v by (simp add: demo_running_def create_receipt_def demo_boot_eq jm_has_def)
qed

lemma demo_running_cache [simp]: "rs_cache (demo_running n) = [(text_json ''r1'', demo_receipt ''r1'' 2)]"
  by (simp add: demo_running_eq written_def demo_boot_eq)

lemma run_status_machine_witness:
  "status_evolves (OpRelease (text_json ''r1'')) (demo_receipt ''r1'' 2)
     (jm_get (rs_cache (receipt_step (demo_env 5) (demo_io True) 3 (OpRelease (text_json ''r1'')) (demo_running 5)))
        (text_json ''r1''))"
  using run_status_machine [OF demo_clock demo_running_reachable [of 5], of "OpRelease (text_json ''r1'')"
      "text_json ''r1''" "demo_receipt ''r1'' 2" "demo_io True" 3]
  by simp

lemma prune_keeps_what_matters_witness:
  "jm_get (rs_cache (demo_running 5)) (text_json ''r1'') = Some (demo_receipt ''r1'' 2)
   \<and> length (filter (\<lambda>r. \<not> prune_exempt (demo_env 5) 9 (demo_running 5) r)
       (terminal_receipts (demo_env 5) (demo_running 5))) \<le> 5"
proof -
  have "prune (demo_env 5) (demo_io True) 9 (demo_running 5) = (Inr (), demo_running 5)"
    by (simp add: prune_def too_old_def too_many_def terminal_receipts_def newest_first_def demo_nonterminal)
  from prune_keeps_what_matters [OF demo_clock demo_running_reachable this] show ?thesis
    by simp
qed

lemma idempotency_lookup_witness:
  "find_by_idempotency (demo_env 5) (js ''d'') 3 (snd (prune (demo_env 5) (demo_io True) 3 (demo_running 5)))
     = find_by_idempotency (demo_env 5) (js ''d'') 3 (demo_running 5)"
  using idempotency_lookup [OF demo_clock demo_running_reachable [of 5], of 3 "js ''d''" "demo_io True"] by simp

lemma demo_good: "receipt_good (demo_env n) (text_json ''r1'') (demo_receipt ''r1'' 2)"
  using served_reachable [OF demo_clock demo_running_reachable [of n]]
  by (auto simp: served_def store_inv_def dest!: cache_okD [of _ _ "text_json ''r1''"])

definition demo_restarted :: "nat \<Rightarrow> receipt_store" where
  "demo_restarted n =
     snd (init_store (demo_env n) (demo_io True) 7 (receipt_store_init (rs_disk (demo_running n))))"

lemma demo_restart:
  "init_store (demo_env n) (demo_io True) 7 (receipt_store_init (rs_disk (demo_running n)))
     = (Inr (), demo_restarted n)"
proof -
  define c where "c = receipt_clone (demo_receipt ''r1'' 2)"
  define r' where "r' = recover_receipt (demo_env n) (unary 7) c"
  have g: "receipt_good (demo_env n) (text_json ''r1'') c"
    unfolding c_def by (rule receipt_good_clone [OF demo_good])
  then have id: "run_id c = text_json ''r1''" by (simp add: receipt_good_def)
  have non: "is_nonterminal c"
    using demo_good [of n] demo_nonterminal is_nonterminal_clone unfolding c_def receipt_good_def by blast
  have disk: "rs_disk (demo_running n) = [(file_of (text_json ''r1''), Some (JObj c))]"
    by (simp add: demo_running_eq written_def demo_boot_eq c_def)
  define s1 where "s1 = load_all (demo_env n) (receipt_store_init (rs_disk (demo_running n)))"
  have s1: "s1 = \<lparr> rs_cache = [(text_json ''r1'', c)], rs_disk = rs_disk (demo_running n), rs_protected = [],
      rs_recovered = [], rs_ready = True \<rparr>"
    unfolding s1_def load_all_def receipt_store_init_def using load_file_good [OF g, of "[]"] by (simp add: disk)
  obtain t1 where loop: "recover_loop (demo_env n) (demo_io True) (unary 7) (rs_cache s1) s1 = (Inr (), t1)"
    and t1: "rs_cache t1 = [(text_json ''r1'', r')]" "rs_protected t1 = [text_json ''r1'']"
    using non id by (simp add: s1 persist_def demo_io_def r'_def js_add_def Let_def)
  have "prune_exempt (demo_env n) 7 t1 r'"
    using t1 id by (simp add: prune_exempt_def r'_def)
  then have "too_old (demo_env n) 7 t1 = []" "too_many (demo_env n) 7 t1 = []"
    using t1 by (simp_all add: too_old_def too_many_def terminal_receipts_def newest_first_def)
      (cases n; simp)
  then have "prune (demo_env n) (demo_io True) 7 t1 = (Inr (), t1)" by (simp add: prune_def)
  with loop have "fst (init_store (demo_env n) (demo_io True) 7 (receipt_store_init (rs_disk (demo_running n)))) = Inr ()"
    unfolding init_store_def Let_def s1_def [symmetric] by (simp add: receipt_store_init_def)
  then show ?thesis by (simp add: demo_restarted_def prod_eq_iff)
qed

lemma restart_recovers_exactly_witness:
  "rv_runId ` set (rs_recovered (demo_restarted 5)) = {text_json ''r1''}
   \<and> rs_disk (demo_running 5) \<noteq> []"
  using restart_recovers_exactly [OF demo_clock _ demo_running_reachable [of 5] demo_restart]
  by (auto simp: demo_nonterminal demo_running_eq written_def demo_boot_eq split: if_splits)

definition demo_end :: agent_end where
  "demo_end = \<lparr> ae_timestamp = unary 4, ae_observation = JUndef, ae_tokenUsage = JUndef,
     ae_outputEvidence = JUndef, ae_finalText = None, ae_completion = JUndef \<rparr>"

lemma demo_agent_end:
  "mark_agent_end (demo_env 5) (demo_io True) 4 (text_json ''r1'') demo_end (demo_running 5)
     = (Inr (Some (agent_end_next demo_end (demo_receipt ''r1'' 2))),
        written (demo_env 5) (text_json ''r1'') (agent_end_next demo_end (demo_receipt ''r1'' 2)) (demo_running 5))"
proof -
  define n where "n = agent_end_next demo_end (demo_receipt ''r1'' 2)"
  have n: "n = putp ''agentEndAt'' (JStr (unary 4)) (demo_receipt ''r1'' 2)"
    by (simp add: n_def agent_end_next_def demo_end_def put_first_def completion_next_def final_text_next_def
        prp_def Let_def nullish_def demo_receipt_def getp_def)
  have keys: "keys_allowed allowed_keys n"
    unfolding n by (intro keys_allowed_putp) (simp_all add: allowed_keys_def keys_allowed_def demo_receipt_def)
  have "receipt_ok unary_parse (demo_receipt ''r1'' 2)"
    using demo_good [of 5] by (simp add: receipt_good_def)
  with keys have "receipt_ok unary_parse n"
    unfolding receipt_ok_checks identity_checks_def evidence_checks_def field_checks_def Let_def
      keys_allowed_list_all n getp_putp
    by simp
  then have "commit (demo_env 5) (demo_io True) (text_json ''r1'') n (demo_running 5)
      = (Inr (), written (demo_env 5) (text_json ''r1'') n (demo_running 5))"
    by (simp add: commit_def persist_def receipt_ok_def written_def demo_io_def n run_id_def [of "putp _ _ _"])
  then show ?thesis
    by (simp add: mark_agent_end_def demo_running_eq demo_boot_eq n_def Let_def)
qed

lemma agent_end_first_wins_witness:
  "getp (agent_end_next demo_end (demo_receipt ''r1'' 2)) ''status'' = text_json ''accepted''"
  using agent_end_first_wins [OF demo_clock demo_running_reachable [of 5] _ demo_agent_end]
  by simp

definition demo_cold :: receipt_store where
  "demo_cold = receipt_store_init
     [(file_of (text_json ''r1''), Some (JObj (demo_receipt ''r1'' 2))),
      (file_of (text_json ''r2''), Some (JObj (demo_receipt ''r2'' 3)))]"

lemma failed_recovery_is_final_witness:
  "\<exists>t. init_store (demo_env 5) (demo_io True) 9 (snd (init_store (demo_env 5) (demo_io False) 7 demo_cold)) = (Inr (), t)
     \<and> jm_get (rs_cache t) (text_json ''r2'') = Some (demo_receipt ''r2'' 3)"
proof -
  have v: "validate_receipt unary_parse (demo_receipt ''r1'' 2) = None" "validate_receipt unary_parse (demo_receipt ''r2'' 3) = None"
    by (intro demo_valid; simp add: safe_run_id_def safe_char_def js_def)+
  have loaded: "rs_cache (load_all (demo_env 5) demo_cold)
      = [] @ (text_json ''r1'', demo_receipt ''r1'' 2) # [(text_json ''r2'', demo_receipt ''r2'' 3)]"
    using v by (simp add: load_all_def demo_cold_def receipt_store_init_def load_file_def) (simp add: text_json_def)
  have ok: "jm_ok (rs_cache (load_all (demo_env 5) demo_cold))"
    unfolding loaded by (simp add: jm_ok_def text_json_def)
  obtain e t where "init_store (demo_env 5) (demo_io False) 7 demo_cold = (Inl e, t)"
    "init_store (demo_env 5) (demo_io True) 9 t = (Inr (), t)"
    "jm_get (rs_cache t) (text_json ''r2'') = Some (demo_receipt ''r2'' 3)"
    using failed_recovery_is_final [OF _ _ ok loaded, of "demo_io False" 7]
    by (auto simp: demo_nonterminal demo_io_def demo_cold_def receipt_store_init_def)
  then show ?thesis by simp
qed

end
