(* ===== verification/Final_Text.thy ===== *)
theory Final_Text
  imports Receipt_Schema
begin

text \<open>
  The final assistant text of a run: \<open>FinalTextTracker\<close> of \<open>internal-api/run-receipts/final-text.ts\<close>.

  A tracker follows the events of a run and keeps, of the last segment of assistant text, the last
  \<open>maxChars\<close> characters. \<open>segment_text\<close> follows the same events without a bound; the tracker is its
  tail, and says that it was cut exactly when it was.
\<close>

subsection \<open>The tracker\<close>

datatype speaker = Assistant_Speaker | User_Speaker | Unknown_Speaker

record final_text =
  ft_maxChars :: nat
  ft_role :: speaker
  ft_current :: jsstr
  ft_currentTruncated :: bool
  ft_previous :: "(jsstr \<times> bool) option"

definition final_text_init :: "nat option \<Rightarrow> final_text" where
  "final_text_init maxChars =
     \<lparr> ft_maxChars = (case maxChars of Some n \<Rightarrow> if 0 < n then n else final_text_max_chars | None \<Rightarrow> final_text_max_chars),
       ft_role = Unknown_Speaker, ft_current = [], ft_currentTruncated = False, ft_previous = None \<rparr>"

text \<open>\<open>record(value)\<close>: the value when it is an object, else \<open>undefined\<close>.\<close>

definition as_record :: "json \<Rightarrow> json" where
  "as_record v = (if is_obj v then v else JUndef)"

definition role_of :: "json \<Rightarrow> speaker" where
  "role_of data =
     (let direct = prp data ''role'';
          nested = prp (as_record (prp data ''message'')) ''role'';
          role = (if is_str direct then direct else if is_str nested then nested else JUndef) in
      if is_text ''user'' role then User_Speaker
      else if is_text ''assistant'' role then Assistant_Speaker
      else Unknown_Speaker)"

definition text_of_block :: "json \<Rightarrow> jsstr option" where
  "text_of_block block =
     (let b = as_record block in
      if is_text ''text'' (prp b ''type'') then (case prp b ''text'' of JStr t \<Rightarrow> Some t | _ \<Rightarrow> None) else None)"

definition text_of_content :: "json \<Rightarrow> jsstr option" where
  "text_of_content content =
     (case content of
        JArr blocks \<Rightarrow>
          (case List.map_filter text_of_block blocks of [] \<Rightarrow> None | ts \<Rightarrow> Some (concat ts))
      | _ \<Rightarrow> None)"

definition set_bounded :: "jsstr \<Rightarrow> bool \<Rightarrow> final_text \<Rightarrow> final_text" where
  "set_bounded t alreadyTruncated f =
     (if length t > ft_maxChars f
      then f \<lparr> ft_current := drop (length t - ft_maxChars f) t, ft_currentTruncated := True \<rparr>
      else f \<lparr> ft_current := t, ft_currentTruncated := alreadyTruncated \<rparr>)"

definition append_text :: "jsstr \<Rightarrow> final_text \<Rightarrow> final_text" where
  "append_text t f = (if t = [] then f else set_bounded (ft_current f @ t) (ft_currentTruncated f) f)"

definition replace_text :: "jsstr \<Rightarrow> final_text \<Rightarrow> final_text" where
  "replace_text t f = set_bounded t False f"

definition start_segment :: "final_text \<Rightarrow> final_text" where
  "start_segment f =
     (let f1 = (if ft_current f \<noteq> [] then f \<lparr> ft_previous := Some (ft_current f, ft_currentTruncated f) \<rparr> else f) in
      f1 \<lparr> ft_current := [], ft_currentTruncated := False \<rparr>)"

definition final_text_snapshot :: "final_text \<Rightarrow> (jsstr \<times> bool) option" where
  "final_text_snapshot f =
     (if ft_current f \<noteq> [] then Some (ft_current f, ft_currentTruncated f) else ft_previous f)"

text \<open>What an event asks of a tracker, given the role of the message it belongs to.\<close>

datatype text_action = Set_Role speaker | New_Segment | Replace jsstr | Append_Text jsstr

definition text_actions :: "speaker \<Rightarrow> js_object \<Rightarrow> text_action list" where
  "text_actions role event =
     (let data = as_record (getp event ''data'');
          type = getp event ''type'' in
      if is_text ''message_start'' type
      then Set_Role (role_of data) # (if role_of data \<noteq> User_Speaker then [New_Segment] else [])
      else if is_text ''message_update'' type
      then
        if role = User_Speaker then []
        else
          let ame = as_record (prp data ''assistantMessageEvent'') in
          if ame = JUndef then []
          else
            (case text_of_content (prp ame ''content'') of
               Some whole \<Rightarrow> [Replace whole]
             | None \<Rightarrow>
                 if is_text ''text_delta'' (prp ame ''type'')
                 then (case prp ame ''delta'' of JStr d \<Rightarrow> [Append_Text d] | _ \<Rightarrow> [])
                 else [])
      else if is_text ''message_end'' type
      then
        let message = as_record (prp data ''message'') in
        (if is_text ''assistant'' (prp message ''role'')
         then (case text_of_content (prp message ''content'') of
                 Some full \<Rightarrow> if full \<noteq> [] then [Replace full] else []
               | None \<Rightarrow> [])
         else []) @ [Set_Role Unknown_Speaker]
      else if is_text ''tool_execution_start'' type then [New_Segment]
      else [])"

fun text_act :: "text_action \<Rightarrow> final_text \<Rightarrow> final_text" where
  "text_act (Set_Role r) f = f \<lparr> ft_role := r \<rparr>"
| "text_act New_Segment f = start_segment f"
| "text_act (Replace t) f = replace_text t f"
| "text_act (Append_Text t) f = append_text t f"

definition final_text_observe :: "js_object \<Rightarrow> final_text \<Rightarrow> final_text" where
  "final_text_observe event f = foldl (\<lambda>f a. text_act a f) f (text_actions (ft_role f) event)"

definition final_text_run :: "js_object list \<Rightarrow> final_text \<Rightarrow> final_text" where
  "final_text_run events f = foldl (\<lambda>f e. final_text_observe e f) f events"

subsection \<open>The tracker is the tail of the segment\<close>

text \<open>The same events without a bound: the text of the running segment and of the last one that had text.\<close>

record segments =
  sg_role :: speaker
  sg_current :: jsstr
  sg_previous :: "jsstr option"

definition segments_init :: segments where
  "segments_init = \<lparr> sg_role = Unknown_Speaker, sg_current = [], sg_previous = None \<rparr>"

fun segment_act :: "text_action \<Rightarrow> segments \<Rightarrow> segments" where
  "segment_act (Set_Role r) g = g \<lparr> sg_role := r \<rparr>"
| "segment_act New_Segment g =
     g \<lparr> sg_current := [], sg_previous := (if sg_current g \<noteq> [] then Some (sg_current g) else sg_previous g) \<rparr>"
| "segment_act (Replace t) g = g \<lparr> sg_current := t \<rparr>"
| "segment_act (Append_Text t) g = g \<lparr> sg_current := sg_current g @ t \<rparr>"

definition segments_run :: "js_object list \<Rightarrow> segments" where
  "segments_run events =
     foldl (\<lambda>g e. foldl (\<lambda>g a. segment_act a g) g (text_actions (sg_role g) e)) segments_init events"

definition segment_text :: "js_object list \<Rightarrow> jsstr option" where
  "segment_text events =
     (let g = segments_run events in if sg_current g \<noteq> [] then Some (sg_current g) else sg_previous g)"

definition tail_of :: "nat \<Rightarrow> jsstr \<Rightarrow> jsstr \<times> bool" where
  "tail_of n t = (keep_last n t, n < length t)"

definition tracks :: "nat \<Rightarrow> segments \<Rightarrow> final_text \<Rightarrow> bool" where
  "tracks n g f \<longleftrightarrow> ft_maxChars f = n \<and> ft_role f = sg_role g
     \<and> (ft_current f, ft_currentTruncated f) = tail_of n (sg_current g)
     \<and> ft_previous f = map_option (tail_of n) (sg_previous g)"

lemma keep_last_append: "keep_last n (keep_last n s @ t) = keep_last n (s @ t)"
  by (auto simp: keep_last_def add.commute)

lemma set_bounded_tail:
  "ft_maxChars f = n \<Longrightarrow> set_bounded t b f =
     f \<lparr> ft_current := keep_last n t, ft_currentTruncated := (n < length t \<or> b) \<rparr>"
  by (simp add: set_bounded_def keep_last_def)

lemma tracks_act:
  assumes n: "0 < n" and t: "tracks n g f"
  shows "tracks n (segment_act a g) (text_act a f)"
proof (cases a)
  case New_Segment
  have "ft_current f = [] \<longleftrightarrow> sg_current g = []"
    using n t by (auto simp: tracks_def tail_of_def keep_last_def split: if_splits)
  with New_Segment t show ?thesis by (auto simp: tracks_def start_segment_def tail_of_def keep_last_def)
next
  case (Replace w)
  then show ?thesis using t by (simp add: tracks_def replace_text_def set_bounded_tail tail_of_def)
next
  case (Append_Text w)
  have "n < length (keep_last n (sg_current g) @ w) \<or> n < length (sg_current g) \<longleftrightarrow> n < length (sg_current g @ w)"
    if "w \<noteq> []" using that by auto
  then show ?thesis using t Append_Text
    by (auto simp: tracks_def append_text_def set_bounded_tail tail_of_def keep_last_append)
qed (use t in \<open>simp add: tracks_def\<close>)

lemma tracks_actions:
  "0 < n \<Longrightarrow> tracks n g f \<Longrightarrow> tracks n (foldl (\<lambda>g a. segment_act a g) g as) (foldl (\<lambda>f a. text_act a f) f as)"
  by (induction as arbitrary: g f) (simp_all add: tracks_act)

lemma tracks_run:
  assumes "0 < n"
  shows "tracks n (segments_run events) (final_text_run events (final_text_init (Some n)))"
proof (induction events rule: rev_induct)
  case Nil
  show ?case using assms by (simp add: segments_run_def final_text_run_def tracks_def final_text_init_def
      segments_init_def tail_of_def keep_last_def)
next
  case (snoc e events)
  then have "ft_role (final_text_run events (final_text_init (Some n))) = sg_role (segments_run events)"
    by (simp add: tracks_def)
  with tracks_actions [OF assms snoc, of "text_actions (sg_role (segments_run events)) e"] show ?case
    by (simp add: segments_run_def final_text_run_def final_text_observe_def)
qed

lemma snapshot_is_tail:
  assumes "0 < n"
  shows "final_text_snapshot (final_text_run events (final_text_init (Some n)))
       = map_option (tail_of n) (segment_text events)"
proof -
  have "ft_current (final_text_run events (final_text_init (Some n))) = [] \<longleftrightarrow> sg_current (segments_run events) = []"
    using tracks_run [OF assms, of events] assms by (auto simp: tracks_def tail_of_def keep_last_def split: if_splits)
  then show ?thesis using tracks_run [OF assms, of events]
    by (auto simp: tracks_def final_text_snapshot_def segment_text_def Let_def)
qed

text \<open>C39: The final text of a receipt is the end of what the assistant said: whatever events a run produced, the
  tracker holds the last 4096 characters of the last segment of assistant text, and its flag says
  whether anything was cut.\<close>
theorem final_text_is_tail:
  "final_text_snapshot (final_text_run events (final_text_init None)) = map_option (tail_of 4096) (segment_text events)"
proof -
  have "final_text_init None = final_text_init (Some 4096)"
    by (simp add: final_text_init_def final_text_max_chars_def)
  then show ?thesis using snapshot_is_tail [of 4096] by simp
qed

end
