(* ===== verification/Js_Regex.thy ===== *)
theory Js_Regex
  imports Json_Model
begin

text \<open>
  JavaScript regular expressions, the part of the standard library the talker is written in:
  character classes, sequence, alternation, greedy repetition, \<open>\b\<close>, \<open>^\<close>, \<open>$\<close>, lookahead, one capture
  group and its back-reference, without the \<open>u\<close>, \<open>m\<close> and \<open>s\<close> flags.

  \<^item> \<open>ends r s st\<close> lists, in the order of the backtracking search, the states in which a match of \<open>r\<close>
    that starts in state \<open>st\<close> can stop; a state is a position and the capture. The head of the list is
    the match JavaScript reports. Repetition rejects an iteration that consumes nothing, as
    the ECMAScript \<open>RepeatMatcher\<close> does, so the fuel (the characters left) always suffices.
  \<^item> \<open>exec\<close>, \<open>test\<close>, \<open>all_matches\<close> (the successive matches of a \<open>g\<close> regular expression), \<open>replace_with\<close>
    and \<open>replace_all\<close> (with a recording replacement function) and \<open>split_words\<close> are the methods used.
  \<^item> \<open>lit\<close> is a literal under the \<open>i\<close> flag: without \<open>u\<close>, case folding never maps a character outside ASCII
    to an ASCII one, so an ASCII letter matches itself and its other case only.

  The lemmas bound every match by the string, show that an anchored match ends the
  string, and cut a string into the matched text and the rest.
\<close>

subsection \<open>Characters and trimming\<close>

definition is_js_space :: "nat \<Rightarrow> bool" where
  "is_js_space c \<longleftrightarrow>
     (9 \<le> c \<and> c \<le> 13) \<or> c = 32 \<or> c = 160 \<or> c = 0x1680 \<or> (0x2000 \<le> c \<and> c \<le> 0x200A) \<or>
     c = 0x2028 \<or> c = 0x2029 \<or> c = 0x202F \<or> c = 0x205F \<or> c = 0x3000 \<or> c = 0xFEFF"

definition js_trim :: "jsstr \<Rightarrow> jsstr" where
  "js_trim s = rev (dropWhile is_js_space (rev (dropWhile is_js_space s)))"

definition is_word_char :: "nat \<Rightarrow> bool" where
  "is_word_char c \<longleftrightarrow> (48 \<le> c \<and> c \<le> 57) \<or> (65 \<le> c \<and> c \<le> 90) \<or> (97 \<le> c \<and> c \<le> 122) \<or> c = 95"

definition ascii_lower :: "nat \<Rightarrow> nat" where
  "ascii_lower c = (if 65 \<le> c \<and> c \<le> 90 then c + 32 else c)"

subsection \<open>Syntax\<close>

datatype re =
    Eps
  | Chr "nat \<Rightarrow> bool"
  | Seq re re
  | Alt re re
  | Star re
  | Bound
  | Start
  | End
  | Ahead bool re
  | Grp re
  | Ref

fun seqs :: "re list \<Rightarrow> re" where
  "seqs [] = Eps"
| "seqs [r] = r"
| "seqs (r # rs) = Seq r (seqs rs)"

fun alts :: "re list \<Rightarrow> re" where
  "alts [] = Eps"
| "alts [r] = r"
| "alts (r # rs) = Alt r (alts rs)"

definition opt :: "re \<Rightarrow> re" where
  "opt r = Alt r Eps"

definition rep1 :: "re \<Rightarrow> re" where
  "rep1 r = Seq r (Star r)"

definition ws :: re where
  "ws = Chr is_js_space"

definition non_ws :: re where
  "non_ws = Chr (\<lambda>c. \<not> is_js_space c)"

definition blank :: re where
  "blank = Chr (\<lambda>c. c = 32 \<or> c = 9)"

definition one_of :: "jsstr \<Rightarrow> re" where
  "one_of cs = Chr (\<lambda>c. c \<in> set cs)"

definition ws_or :: "jsstr \<Rightarrow> re" where
  "ws_or cs = Chr (\<lambda>c. is_js_space c \<or> c \<in> set cs)"

definition lit :: "string \<Rightarrow> re" where
  "lit w = seqs (map (\<lambda>d. Chr (\<lambda>c. ascii_lower c = ascii_lower d)) (js w))"

definition lits :: "string list \<Rightarrow> re" where
  "lits words = alts (map lit words)"

subsection \<open>Matching\<close>

type_synonym mstate = "nat \<times> (nat \<times> nat) option"

definition slice :: "nat \<Rightarrow> nat \<Rightarrow> jsstr \<Rightarrow> jsstr" where
  "slice i j s = take (j - i) (drop i s)"

definition word_boundary :: "jsstr \<Rightarrow> nat \<Rightarrow> bool" where
  "word_boundary s i \<longleftrightarrow>
     (0 < i \<and> i \<le> length s \<and> is_word_char (s ! (i - 1))) \<noteq> (i < length s \<and> is_word_char (s ! i))"

primrec iterate :: "nat \<Rightarrow> (mstate \<Rightarrow> mstate list) \<Rightarrow> mstate \<Rightarrow> mstate list" where
  "iterate 0 m st = [st]"
| "iterate (Suc n) m st = concat (map (iterate n m) (filter (\<lambda>st'. fst st < fst st') (m st))) @ [st]"

primrec ends :: "re \<Rightarrow> jsstr \<Rightarrow> mstate \<Rightarrow> mstate list" where
  "ends Eps s st = [st]"
| "ends (Chr p) s st = (if fst st < length s \<and> p (s ! fst st) then [(fst st + 1, snd st)] else [])"
| "ends (Seq q r) s st = concat (map (ends r s) (ends q s st))"
| "ends (Alt q r) s st = ends q s st @ ends r s st"
| "ends (Star r) s st = iterate (length s - fst st) (ends r s) st"
| "ends Bound s st = (if word_boundary s (fst st) then [st] else [])"
| "ends Start s st = (if fst st = 0 then [st] else [])"
| "ends End s st = (if fst st = length s then [st] else [])"
| "ends (Ahead b r) s st = (if (ends r s st \<noteq> []) = b then [st] else [])"
| "ends (Grp r) s st = map (\<lambda>e. (fst e, Some (fst st, fst e))) (ends r s st)"
| "ends Ref s st =
     (case snd st of
        None \<Rightarrow> [st]
      | Some (a, b) \<Rightarrow>
          let e = fst st + (b - a) in
          if e \<le> length s \<and> map ascii_lower (slice (fst st) e s) = map ascii_lower (slice a b s)
          then [(e, snd st)] else [])"

text \<open>A match: where it starts, where it ends, and the capture.\<close>

type_synonym re_match = "nat \<times> mstate"

definition match_at :: "re \<Rightarrow> jsstr \<Rightarrow> nat \<Rightarrow> re_match option" where
  "match_at r s i = (case ends r s (i, None) of [] \<Rightarrow> None | e # _ \<Rightarrow> Some (i, e))"

definition exec_from :: "re \<Rightarrow> jsstr \<Rightarrow> nat \<Rightarrow> re_match option" where
  "exec_from r s k = (case filter (\<lambda>i. match_at r s i \<noteq> None) [k..<length s + 1] of
                         [] \<Rightarrow> None | i # _ \<Rightarrow> match_at r s i)"

definition exec :: "re \<Rightarrow> jsstr \<Rightarrow> re_match option" where
  "exec r s = exec_from r s 0"

definition test :: "re \<Rightarrow> jsstr \<Rightarrow> bool" where
  "test r s \<longleftrightarrow> exec r s \<noteq> None"

abbreviation m_start :: "re_match \<Rightarrow> nat" where
  "m_start m \<equiv> fst m"

abbreviation m_end :: "re_match \<Rightarrow> nat" where
  "m_end m \<equiv> fst (snd m)"

definition m_text :: "jsstr \<Rightarrow> re_match \<Rightarrow> jsstr" where
  "m_text s m = slice (m_start m) (m_end m) s"

definition m_group :: "jsstr \<Rightarrow> re_match \<Rightarrow> jsstr option" where
  "m_group s m = map_option (\<lambda>(a, b). slice a b s) (snd (snd m))"

lemma iterate_bounds:
  assumes "\<And>st st'. st' \<in> set (m st) \<Longrightarrow> fst st \<le> N \<Longrightarrow> fst st' \<le> N"
    and "st' \<in> set (iterate n m st)" and "fst st \<le> N"
  shows "fst st \<le> fst st' \<and> fst st' \<le> N"
  using assms(2,3)
proof (induction n arbitrary: st)
  case 0
  then show ?case by simp
next
  case (Suc n)
  show ?case
  proof (cases "st' = st")
    case True
    with Suc.prems show ?thesis by simp
  next
    case False
    then obtain u where u: "u \<in> set (m st)" "fst st < fst u" "st' \<in> set (iterate n m u)"
      using Suc.prems(1) by auto
    have "fst u \<le> N" using assms(1) [OF u(1)] Suc.prems(2) by simp
    from Suc.IH [OF u(3) this] u(2) show ?thesis by simp
  qed
qed

lemma ends_bounds:
  "st' \<in> set (ends r s st) \<Longrightarrow> fst st \<le> length s \<Longrightarrow> fst st \<le> fst st' \<and> fst st' \<le> length s"
proof (induction r arbitrary: st st')
  case (Seq q r)
  then show ?case by simp (meson order_trans)
next
  case (Star r)
  show ?case
    using iterate_bounds [of "ends r s" "length s" st' "length s - fst st" st] Star by simp
qed (auto split: if_splits option.splits simp: Let_def)

lemma match_at_bounds:
  assumes "match_at r s i = Some m" and "i \<le> length s"
  shows "m_start m = i \<and> i \<le> m_end m \<and> m_end m \<le> length s"
  using assms ends_bounds [of _ r s "(i, None)"]
  by (fastforce simp: match_at_def split: list.splits)

lemma exec_from_cases:
  assumes "exec_from r s k = Some m"
  shows "\<exists>i. k \<le> i \<and> i \<le> length s \<and> match_at r s i = Some m"
proof -
  obtain i ks where "filter (\<lambda>i. match_at r s i \<noteq> None) [k..<length s + 1] = i # ks" and m: "match_at r s i = Some m"
    using assms by (auto simp: exec_from_def split: list.splits)
  then have "i \<in> set (filter (\<lambda>i. match_at r s i \<noteq> None) [k..<length s + 1])" by simp
  with m show ?thesis by auto
qed

lemma exec_from_ok:
  "exec_from r s k = Some m \<Longrightarrow> k \<le> m_start m \<and> m_start m \<le> m_end m \<and> m_end m \<le> length s"
  using exec_from_cases [of r s k m] match_at_bounds by blast

lemma exec_from_bounds:
  assumes "exec_from r s k = Some m"
  shows "k \<le> m_start m" "m_start m \<le> m_end m" "m_end m \<le> length s"
  using exec_from_ok [OF assms] by simp_all

lemma no_progress:
  fixes N :: nat
  assumes "\<And>st'. st' \<in> set (m st) \<Longrightarrow> fst st' \<le> N" and "N \<le> fst st"
  shows "filter (\<lambda>st'. fst st < fst st') (m st) = []"
  unfolding filter_empty_conv
proof
  fix u assume "u \<in> set (m st)"
  then have "fst u \<le> N" by (rule assms(1))
  with assms(2) show "\<not> fst st < fst u" by simp
qed

text \<open>Repetition consumes at most what is left: more fuel changes nothing.\<close>

lemma iterate_fuel:
  fixes N :: nat
  assumes bound: "\<And>st st'. st' \<in> set (m st) \<Longrightarrow> fst st \<le> N \<Longrightarrow> fst st' \<le> N"
  shows "fst st \<le> N \<Longrightarrow> N - fst st \<le> n \<Longrightarrow> N - fst st \<le> k \<Longrightarrow> iterate n m st = iterate k m st"
proof (induction n arbitrary: k st)
  case 0
  have stuck: "filter (\<lambda>st'. fst st < fst st') (m st) = []"
    by (rule no_progress [where N = N, OF bound]) (use 0 in auto)
  then show ?case by (cases k) simp_all
next
  case (Suc n)
  show ?case
  proof (cases k)
    case 0
    have "filter (\<lambda>st'. fst st < fst st') (m st) = []"
      by (rule no_progress [where N = N, OF bound]) (use 0 Suc.prems in auto)
    then show ?thesis using 0 by simp
  next
    case (Suc l)
    have "iterate n m u = iterate l m u" if u: "u \<in> set (m st)" and lt: "fst st < fst u" for u
    proof (rule Suc.IH)
      show "fst u \<le> N" using bound [OF u] Suc.prems(1) by simp
      show "N - fst u \<le> n" using lt Suc.prems(2) by simp
      show "N - fst u \<le> l" using lt Suc.prems(3) \<open>k = Suc l\<close> by simp
    qed
    then have eq: "map (iterate n m) (filter (\<lambda>st'. fst st < fst st') (m st))
             = map (iterate l m) (filter (\<lambda>st'. fst st < fst st') (m st))"
      by (intro map_cong refl) auto
    show ?thesis by (simp only: \<open>k = Suc l\<close> iterate.simps eq)
  qed
qed

lemma star_unfold:
  assumes "fst st \<le> length s"
  shows "ends (Star r) s st =
           concat (map (ends (Star r) s) (filter (\<lambda>st'. fst st < fst st') (ends r s st))) @ [st]"
proof -
  let ?m = "ends r s"
  have b: "\<And>u u'. u' \<in> set (?m u) \<Longrightarrow> fst u \<le> length s \<Longrightarrow> fst u' \<le> length s"
    subgoal for u u' using ends_bounds [of u' r s u] by simp done
  have "iterate (length s - fst st) ?m st = iterate (Suc (length s - fst st)) ?m st"
    by (rule iterate_fuel [where N = "length s"], erule (1) b) (use assms in auto)
  also have "\<dots> = concat (map (iterate (length s - fst st) ?m)
                      (filter (\<lambda>st'. fst st < fst st') (?m st))) @ [st]" by simp
  also have "map (iterate (length s - fst st) ?m) (filter (\<lambda>st'. fst st < fst st') (?m st))
           = map (ends (Star r) s) (filter (\<lambda>st'. fst st < fst st') (?m st))"
  proof (rule map_cong [OF refl])
    fix u assume "u \<in> set (filter (\<lambda>st'. fst st < fst st') (?m st))"
    then have "u \<in> set (?m st)" and "fst st < fst u" by simp_all
    then have "fst st < fst u" and "fst u \<le> length s" using b [OF _ assms] by blast+
    then show "iterate (length s - fst st) ?m u = ends (Star r) s u"
      unfolding ends.simps by (intro iterate_fuel [where N = "length s"], elim b) auto
  qed
  finally show ?thesis by simp
qed

subsection \<open>Replacement and splitting\<close>

function all_from :: "re \<Rightarrow> jsstr \<Rightarrow> nat \<Rightarrow> re_match list" where
  "all_from r s k =
     (case exec_from r s k of
        None \<Rightarrow> []
      | Some m \<Rightarrow> m # all_from r s (if m_end m = m_start m then m_end m + 1 else m_end m))"
  by pat_completeness auto
termination
  by (relation "measure (\<lambda>(r, s, k). length s + 1 - k)") (auto dest!: exec_from_ok)

declare all_from.simps [simp del]

definition all_matches :: "re \<Rightarrow> jsstr \<Rightarrow> re_match list" where
  "all_matches r s = all_from r s 0"

text \<open>A replacement function returns the replacement and the pieces it records.\<close>

fun replace_with :: "(re_match \<Rightarrow> jsstr \<times> jsstr list) \<Rightarrow> jsstr \<Rightarrow> nat \<Rightarrow> re_match list \<Rightarrow> jsstr \<times> jsstr list" where
  "replace_with f s k [] = (drop k s, [])"
| "replace_with f s k (m # ms) =
     (let new = f m; rest = replace_with f s (m_end m) ms in
      (slice k (m_start m) s @ fst new @ fst rest, snd new @ snd rest))"

definition replace_all :: "re \<Rightarrow> (jsstr \<Rightarrow> re_match \<Rightarrow> jsstr \<times> jsstr list) \<Rightarrow> jsstr \<Rightarrow> jsstr \<times> jsstr list" where
  "replace_all r f s = replace_with (f s) s 0 (all_matches r s)"

definition strip_all :: "re \<Rightarrow> jsstr \<Rightarrow> jsstr" where
  "strip_all r s = fst (replace_all r (\<lambda>_ _. ([], [])) s)"

text \<open>\<open>split(/[...]+/).filter(Boolean)\<close>: the maximal runs of characters outside the class.\<close>

fun split_words :: "(nat \<Rightarrow> bool) \<Rightarrow> jsstr \<Rightarrow> jsstr \<Rightarrow> jsstr list" where
  "split_words sep w [] = (if w = [] then [] else [w])"
| "split_words sep w (c # cs) =
     (if sep c then (if w = [] then [] else [w]) @ split_words sep [] cs
      else split_words sep (w @ [c]) cs)"

text \<open>\<open>split\<close> at a one-character string returns at least one piece.\<close>

fun js_split :: "nat \<Rightarrow> jsstr \<Rightarrow> jsstr list" where
  "js_split sep [] = [[]]"
| "js_split sep (c # cs) =
     (if c = sep then [] # js_split sep cs
      else case js_split sep cs of [] \<Rightarrow> [[c]] | w # rest \<Rightarrow> (c # w) # rest)"

lemma js_split_nonempty: "js_split sep s \<noteq> []"
  by (induction sep s rule: js_split.induct) (auto split: list.splits)

subsection \<open>Cutting a string at a match\<close>

lemma slice_split: "k \<le> i \<Longrightarrow> i \<le> j \<Longrightarrow> j \<le> length s \<Longrightarrow> drop k s = slice k i s @ slice i j s @ drop j s"
proof -
  assume a: "k \<le> i" "i \<le> j" "j \<le> length s"
  have cut: "drop a s = slice a b s @ drop b s" if "a \<le> b" for a b
    using append_take_drop_id [of "b - a" "drop a s"] that by (simp add: slice_def)
  have i: "drop i s = slice i j s @ drop j s" using cut a by blast
  have "drop k s = slice k i s @ drop i s" using cut a by blast
  with i show ?thesis by simp
qed

lemma slice_0_take: "slice 0 j s = take j s"
  by (simp add: slice_def)

lemma all_from_unfold:
  "exec_from r s k = None \<Longrightarrow> all_from r s k = []"
  "exec_from r s k = Some m \<Longrightarrow>
     all_from r s k = m # all_from r s (if m_end m = m_start m then m_end m + 1 else m_end m)"
  by (simp_all add: all_from.simps)

text \<open>
  What a replacement changes: if each matched piece is replaced by something that agrees with it, for
  a relation closed under concatenation, the results agree. The three consequences the
  relay transform needs are instances.
\<close>

fun chained :: "jsstr \<Rightarrow> nat \<Rightarrow> re_match list \<Rightarrow> bool" where
  "chained s k [] \<longleftrightarrow> True"
| "chained s k (m # ms) \<longleftrightarrow>
     k \<le> m_start m \<and> m_start m \<le> m_end m \<and> m_end m \<le> length s \<and> chained s (m_end m) ms"

lemma chained_mono: "chained s k ms \<Longrightarrow> k' \<le> k \<Longrightarrow> chained s k' ms"
  by (cases ms) auto

lemma chained_all_from: "chained s k (all_from r s k)"
proof (induction r s k rule: all_from.induct)
  case (1 r s k)
  show ?case
  proof (cases "exec_from r s k")
    case None
    then show ?thesis by (simp add: all_from_unfold)
  next
    case (Some m)
    have "chained s (if m_end m = m_start m then m_end m + 1 else m_end m)
            (all_from r s (if m_end m = m_start m then m_end m + 1 else m_end m))"
      using 1 [OF Some] .
    then have "chained s (m_end m) (all_from r s (if m_end m = m_start m then m_end m + 1 else m_end m))"
      by (rule chained_mono) simp
    then show ?thesis
      using exec_from_bounds [OF Some] unfolding all_from_unfold(2) [OF Some] chained.simps by blast
  qed
qed

lemma all_from_matches: "m \<in> set (all_from r s k) \<Longrightarrow> \<exists>k'. exec_from r s k' = Some m"
proof (induction r s k rule: all_from.induct)
  case (1 r s k)
  then show ?case by (cases "exec_from r s k") (auto simp: all_from_unfold)
qed

lemma replace_with_relates:
  assumes refl: "\<And>x. R x x []"
    and app: "\<And>x y p x' y' p'. R x y p \<Longrightarrow> R x' y' p' \<Longrightarrow> R (x @ x') (y @ y') (p @ p')"
    and step: "\<And>m. m \<in> set ms \<Longrightarrow> R (m_text s m) (fst (f m)) (snd (f m))"
    and "chained s k ms"
  shows "R (drop k s) (fst (replace_with f s k ms)) (snd (replace_with f s k ms))"
  using step \<open>chained s k ms\<close>
proof (induction ms arbitrary: k)
  case Nil
  then show ?case using refl by simp
next
  case (Cons m ms)
  have "R (slice k (m_start m) s @ m_text s m @ drop (m_end m) s)
          (slice k (m_start m) s @ fst (f m) @ fst (replace_with f s (m_end m) ms))
          ([] @ snd (f m) @ snd (replace_with f s (m_end m) ms))"
    using Cons by (intro app refl) auto
  then show ?case
    using Cons.prems(2) slice_split [of k "m_start m" "m_end m" s] by (simp add: m_text_def Let_def)
qed

lemma replace_all_relates:
  assumes "\<And>x. R x x []"
    and "\<And>x y p x' y' p'. R x y p \<Longrightarrow> R x' y' p' \<Longrightarrow> R (x @ x') (y @ y') (p @ p')"
    and "\<And>m k. exec_from r s k = Some m \<Longrightarrow> R (m_text s m) (fst (f s m)) (snd (f s m))"
  shows "R s (fst (replace_all r f s)) (snd (replace_all r f s))"
proof -
  have "R (drop 0 s) (fst (replace_with (f s) s 0 (all_matches r s))) (snd (replace_with (f s) s 0 (all_matches r s)))"
  proof (rule replace_with_relates [where R = R])
    fix m assume "m \<in> set (all_matches r s)"
    then obtain k where "exec_from r s k = Some m" unfolding all_matches_def by (blast dest: all_from_matches)
    then show "R (m_text s m) (fst (f s m)) (snd (f s m))" by (rule assms(3))
  qed (use assms(1,2) chained_all_from in \<open>simp_all add: all_matches_def\<close>)
  then show ?thesis by (simp add: replace_all_def)
qed

text \<open>Matches of patterns anchored at the start or at the end.\<close>

fun starts_anchored :: "re \<Rightarrow> bool" where
  "starts_anchored Start \<longleftrightarrow> True"
| "starts_anchored (Seq q r) \<longleftrightarrow> starts_anchored q"
| "starts_anchored _ \<longleftrightarrow> False"

fun ends_anchored :: "re \<Rightarrow> bool" where
  "ends_anchored End \<longleftrightarrow> True"
| "ends_anchored (Seq q r) \<longleftrightarrow> ends_anchored r"
| "ends_anchored _ \<longleftrightarrow> False"

lemma ends_starts_anchored: "starts_anchored r \<Longrightarrow> e \<in> set (ends r s st) \<Longrightarrow> fst st = 0"
  by (induction r arbitrary: e st) (auto split: if_splits)

lemma ends_ends_anchored: "ends_anchored r \<Longrightarrow> e \<in> set (ends r s st) \<Longrightarrow> fst e = length s"
  by (induction r arbitrary: e st) (auto split: if_splits)

lemma exec_start:
  assumes "starts_anchored r" and "exec r s = Some m"
  shows "m_start m = 0" and "m_text s m = take (m_end m) s"
proof -
  obtain i where i: "i \<le> length s" "match_at r s i = Some m"
    using exec_from_cases assms(2) unfolding exec_def by blast
  then obtain e where "e \<in> set (ends r s (i, None))" by (auto simp: match_at_def split: list.splits)
  then have "i = 0" using ends_starts_anchored [OF assms(1)] by fastforce
  with match_at_bounds [OF i(2,1)] show "m_start m = 0" by simp
  then show "m_text s m = take (m_end m) s" by (simp add: m_text_def slice_0_take)
qed

lemma exec_end:
  assumes "ends_anchored r" and "exec r s = Some m"
  shows "m_end m = length s" and "m_text s m = drop (m_start m) s"
proof -
  obtain i where i: "i \<le> length s" "match_at r s i = Some m"
    using exec_from_cases assms(2) unfolding exec_def by blast
  then have "snd m \<in> set (ends r s (i, None))" by (auto simp: match_at_def split: list.splits)
  then show "m_end m = length s" by (rule ends_ends_anchored [OF assms(1)])
  then show "m_text s m = drop (m_start m) s"
    using exec_from_bounds assms(2) by (simp add: m_text_def slice_def exec_def)
qed

subsection \<open>What a match consists of\<close>

lemma iterate_induct:
  assumes "st' \<in> set (iterate n m st)"
    and "\<And>st. P st st" and "\<And>a b c. P a b \<Longrightarrow> P b c \<Longrightarrow> P a c"
    and "\<And>st st'. st' \<in> set (m st) \<Longrightarrow> fst st < fst st' \<Longrightarrow> P st st'"
  shows "P st st'"
  using assms(1)
proof (induction n arbitrary: st)
  case 0
  with assms(2) show ?case by simp
next
  case (Suc n)
  show ?case
  proof (cases "st' = st")
    case True
    with assms(2) show ?thesis by simp
  next
    case False
    then obtain u where u: "u \<in> set (m st)" "fst st < fst u" "st' \<in> set (iterate n m u)"
      using Suc.prems by auto
    with Suc.IH assms(3,4) show ?thesis by blast
  qed
qed

lemma ends_mono: "e \<in> set (ends r s st) \<Longrightarrow> fst st \<le> fst e"
proof (induction r arbitrary: st e)
  case (Seq q r)
  then show ?case by simp (meson order_trans)
next
  case (Star r)
  then show ?case
    by simp (erule iterate_induct [where P = "\<lambda>a b. fst a \<le> fst b"], auto)
qed (auto split: if_splits option.splits simp: Let_def)

lemma ends_SeqE:
  assumes "e \<in> set (ends (Seq q r) s st)"
  obtains u where "u \<in> set (ends q s st)" and "e \<in> set (ends r s u)"
  using assms unfolding ends.simps set_concat set_map by blast

lemma slice_append: "i \<le> j \<Longrightarrow> j \<le> k \<Longrightarrow> slice i k s = slice i j s @ slice j k s"
  using take_add [of "j - i" "k - j" "drop i s"] by (simp add: slice_def)

lemma slice_Suc: "i < length s \<Longrightarrow> slice i (Suc i) s = [s ! i]"
  by (simp add: slice_def take_Suc_conv_app_nth)

lemma slice_same [simp]: "slice i i s = []"
  by (simp add: slice_def)

lemma length_slice: "j \<le> length s \<Longrightarrow> length (slice i j s) = j - i"
  by (simp add: slice_def)

lemma slice_prefix: "i \<le> j \<Longrightarrow> j \<le> k \<Longrightarrow> k \<le> length s \<Longrightarrow> slice i j s = take (j - i) (slice i k s)"
  by (simp add: slice_def)

primrec only :: "(nat \<Rightarrow> bool) \<Rightarrow> re \<Rightarrow> bool" where
  "only p Eps \<longleftrightarrow> True"
| "only p (Chr q) \<longleftrightarrow> (\<forall>c. q c \<longrightarrow> p c)"
| "only p (Seq q r) \<longleftrightarrow> only p q \<and> only p r"
| "only p (Alt q r) \<longleftrightarrow> only p q \<and> only p r"
| "only p (Star r) \<longleftrightarrow> only p r"
| "only p Bound \<longleftrightarrow> True"
| "only p Start \<longleftrightarrow> True"
| "only p End \<longleftrightarrow> True"
| "only p (Ahead b r) \<longleftrightarrow> True"
| "only p (Grp r) \<longleftrightarrow> only p r"
| "only p Ref \<longleftrightarrow> False"

lemma ends_only: "only p r \<Longrightarrow> e \<in> set (ends r s st) \<Longrightarrow> list_all p (slice (fst st) (fst e) s)"
proof (induction r arbitrary: st e)
  case (Seq q r)
  then obtain u where u: "u \<in> set (ends q s st)" "e \<in> set (ends r s u)" by auto
  have "slice (fst st) (fst e) s = slice (fst st) (fst u) s @ slice (fst u) (fst e) s"
    using u ends_mono by (intro slice_append) blast+
  with Seq u show ?case by simp
next
  case (Star r)
  have "e \<in> set (iterate (length s - fst st) (ends r s) st)" using Star.prems by simp
  then have "fst st \<le> fst e \<and> list_all p (slice (fst st) (fst e) s)"
  proof (rule iterate_induct)
    fix a b c :: mstate
    assume "fst a \<le> fst b \<and> list_all p (slice (fst a) (fst b) s)" "fst b \<le> fst c \<and> list_all p (slice (fst b) (fst c) s)"
    then show "fst a \<le> fst c \<and> list_all p (slice (fst a) (fst c) s)"
      using slice_append [of "fst a" "fst b" "fst c" s] by simp
  qed (use Star in auto)
  then show ?case by simp
qed (auto split: if_splits simp: slice_Suc)

primrec no_group :: "re \<Rightarrow> bool" where
  "no_group Eps \<longleftrightarrow> True"
| "no_group (Chr q) \<longleftrightarrow> True"
| "no_group (Seq q r) \<longleftrightarrow> no_group q \<and> no_group r"
| "no_group (Alt q r) \<longleftrightarrow> no_group q \<and> no_group r"
| "no_group (Star r) \<longleftrightarrow> no_group r"
| "no_group Bound \<longleftrightarrow> True"
| "no_group Start \<longleftrightarrow> True"
| "no_group End \<longleftrightarrow> True"
| "no_group (Ahead b r) \<longleftrightarrow> True"
| "no_group (Grp r) \<longleftrightarrow> False"
| "no_group Ref \<longleftrightarrow> True"

lemma ends_no_group: "no_group r \<Longrightarrow> e \<in> set (ends r s st) \<Longrightarrow> snd e = snd st"
proof (induction r arbitrary: st e)
  case (Seq q r)
  then obtain u where "u \<in> set (ends q s st)" "e \<in> set (ends r s u)" by (elim ends_SeqE)
  with Seq show ?case by (metis no_group.simps(3))
next
  case (Star r)
  have "e \<in> set (iterate (length s - fst st) (ends r s) st)" using Star.prems by simp
  then show ?case
    by (rule iterate_induct [where P = "\<lambda>a b. snd b = snd a"]) (use Star in auto)
qed (auto split: if_splits option.splits simp: Let_def)

lemma match_state:
  "exec_from r s k = Some m \<Longrightarrow> snd m \<in> set (ends r s (m_start m, None))"
proof -
  assume "exec_from r s k = Some m"
  then obtain i where i: "i \<le> length s" "match_at r s i = Some m" using exec_from_cases by blast
  then have "snd m \<in> set (ends r s (i, None))" by (auto simp: match_at_def split: list.splits)
  then show ?thesis using match_at_bounds [OF i(2,1)] by simp
qed

text \<open>The captured text of a leading, and of a trailing, group.\<close>

lemma leading_group:
  assumes "exec_from (Seq q (Seq (Grp r) t)) s k = Some m" and "only (\<lambda>_. False) q" and "no_group t"
  shows "\<exists>w. m_group s m = Some w \<and> w = take (length w) (m_text s m)"
proof -
  obtain a b where a: "a \<in> set (ends q s (m_start m, None))" and b: "b \<in> set (ends (Grp r) s a)"
    and t: "snd m \<in> set (ends t s b)"
    using match_state [OF assms(1)] by (elim ends_SeqE)
  have bounds: "m_start m \<le> m_end m" "m_end m \<le> length s" using exec_from_ok [OF assms(1)] by auto
  have "slice (m_start m) (fst a) s = []"
    using ends_only [OF assms(2) a] by (cases "slice (m_start m) (fst a) s") auto
  moreover have "m_start m \<le> fst a" "fst a \<le> fst b" "fst b \<le> m_end m"
    using ends_mono a b t by fastforce+
  ultimately have fa: "fst a = m_start m"
    using length_slice [of "fst a" s "m_start m"] bounds by simp
  have "snd (snd m) = Some (fst a, fst b)"
    using ends_no_group [OF assms(3) t] b by auto
  moreover have "slice (m_start m) (fst b) s = take (fst b - m_start m) (m_text s m)"
    unfolding m_text_def using \<open>fst a \<le> fst b\<close> \<open>fst b \<le> m_end m\<close> bounds fa by (intro slice_prefix) auto
  moreover have "length (slice (m_start m) (fst b) s) = fst b - m_start m"
    using \<open>fst b \<le> m_end m\<close> bounds by (intro length_slice) simp
  ultimately show ?thesis using fa by (simp add: m_group_def)
qed

lemma trailing_group:
  assumes "exec_from (Seq q (Grp r)) s k = Some m" and "only p q"
  shows "\<exists>v w. m_group s m = Some w \<and> m_text s m = v @ w \<and> list_all p v"
proof -
  obtain a where a: "a \<in> set (ends q s (m_start m, None))" and b: "snd m \<in> set (ends (Grp r) s a)"
    using match_state [OF assms(1)] by (elim ends_SeqE)
  have "m_start m \<le> fst a" "fst a \<le> m_end m" using ends_mono a b by fastforce+
  then have "m_text s m = slice (m_start m) (fst a) s @ slice (fst a) (m_end m) s"
    unfolding m_text_def by (rule slice_append)
  moreover have "m_group s m = Some (slice (fst a) (m_end m) s)"
    using b by (auto simp: m_group_def)
  moreover have "list_all p (slice (m_start m) (fst a) s)" using ends_only [OF assms(2) a] by simp
  ultimately show ?thesis by blast
qed

subsection \<open>Evaluating a pattern on a concrete text\<close>

lemmas regex_eval = match_at_def exec_from_def exec_def test_def m_text_def m_group_def slice_def rep1_def ws_or_def
  one_of_def ws_def non_ws_def opt_def blank_def lit_def lits_def js_def is_js_space_def ascii_lower_def
  word_boundary_def is_word_char_def upt_rec

end
