(* ===== verification/Completion_Parser.thy ===== *)
theory Completion_Parser
  imports Receipt_Schema Js_Regex
begin

text \<open>
  The completion-block parser, \<open>internal-api/completion/completion-parser.ts\<close>, with the bounds of
  \<open>completion-schema.ts\<close>.

  \<^item> \<open>scan_blocks\<close> is the line scanner: a fold of \<open>scan_line\<close> over the lines, with the open candidate as its
    state. The regular expressions are those of the code; a capture group is read by the same
    pattern with that group marked.
  \<^item> \<open>JSON.parse\<close> and the \<open>zod\<close> schema are arguments: the first answers a value or an error text, the second
    the typed block or the message and field path of its first issue.
  \<^item> \<open>parse_completion_block\<close> is the loop of the code. \<open>reading\<close> says directly which block decides:
    the last decisive one, and only without any the error fallbacks.
\<close>

subsection \<open>Fences\<close>

datatype fence_class = Completion_Fence | Json_Fence | Plain_Fence

record raw_block =
  rb_class :: fence_class
  rb_content :: jsstr
  rb_complete :: bool

definition completion_parse_window_chars :: nat where
  "completion_parse_window_chars = 65536"

definition backtick :: re where
  "backtick = Chr (\<lambda>c. c = 96)"

definition up_to_three_spaces :: re where
  "up_to_three_spaces = (let sp = Chr (\<lambda>c. c = 32) in opt (Seq sp (opt (Seq sp (opt sp)))))"

definition info_char :: re where
  "info_char = Chr (\<lambda>c. 97 \<le> c \<and> c \<le> 122 \<or> 48 \<le> c \<and> c \<le> 57 \<or> c = 95 \<or> c = 45)"

definition opening_fence :: "(re \<Rightarrow> re) \<Rightarrow> (re \<Rightarrow> re) \<Rightarrow> re" where
  "opening_fence run info =
     seqs [Start, up_to_three_spaces, run (seqs [backtick, backtick, backtick, Star backtick]), Star blank,
           info (Star info_char), Star blank, End]"

definition closing_fence :: "nat \<Rightarrow> re" where
  "closing_fence minLength =
     seqs ([Start, up_to_three_spaces] @ replicate minLength backtick @ [Star backtick, Star blank, End])"

definition fence_class_of :: "jsstr \<Rightarrow> fence_class option" where
  "fence_class_of info =
     (if info = js ''completion'' then Some Completion_Fence
      else if info = js ''json'' then Some Json_Fence
      else if info = [] then Some Plain_Fence
      else None)"

text \<open>The class and the length of an opening fence.\<close>

definition opening_of :: "jsstr \<Rightarrow> (fence_class \<times> nat) option" where
  "opening_of line =
     (case (exec (opening_fence Grp (\<lambda>r. r)) line, exec (opening_fence (\<lambda>r. r) Grp) line) of
        (Some m, Some m') \<Rightarrow>
          (case (m_group line m, m_group line m') of
             (Some run, Some info) \<Rightarrow> map_option (\<lambda>c. (c, length run)) (fence_class_of info)
           | _ \<Rightarrow> None)
      | _ \<Rightarrow> None)"

record block_scan =
  bs_open :: "(fence_class \<times> nat \<times> jsstr list) option"
  bs_blocks :: "raw_block list"

definition block_of :: "fence_class \<Rightarrow> jsstr list \<Rightarrow> bool \<Rightarrow> raw_block" where
  "block_of c lines ended = \<lparr> rb_class = c, rb_content = join_with 10 lines, rb_complete = ended \<rparr>"

definition scan_line :: "block_scan \<Rightarrow> jsstr \<Rightarrow> block_scan" where
  "scan_line s line =
     (case bs_open s of
        None \<Rightarrow>
          (case opening_of line of
             Some (c, n) \<Rightarrow> s \<lparr> bs_open := Some (c, n, []) \<rparr>
           | None \<Rightarrow> s)
      | Some (c, n, current) \<Rightarrow>
          if test (closing_fence n) line
          then \<lparr> bs_open = None, bs_blocks = bs_blocks s @ [block_of c current True] \<rparr>
          else
            (case opening_of line of
               Some (c', n') \<Rightarrow> \<lparr> bs_open = Some (c', n', []), bs_blocks = bs_blocks s @ [block_of c current False] \<rparr>
             | None \<Rightarrow>
                 let current' = current @ [line] in
                 if length (join_with 10 current') > completion_block_max_chars
                 then \<lparr> bs_open = None, bs_blocks = bs_blocks s @ [block_of c current' True] \<rparr>
                 else s \<lparr> bs_open := Some (c, n, current') \<rparr>))"

definition scan_blocks :: "jsstr \<Rightarrow> raw_block list" where
  "scan_blocks text_in =
     (let s = foldl scan_line \<lparr> bs_open = None, bs_blocks = [] \<rparr> (js_split 10 text_in) in
      case bs_open s of
        None \<Rightarrow> bs_blocks s
      | Some (c, _, current) \<Rightarrow> bs_blocks s @ [block_of c current False])"

subsection \<open>Verdicts\<close>

datatype delimiter = By_Completion | By_Json_Tag

datatype completion_result =
    Parsed json delimiter
  | Failed string jsstr "jsstr option"

record completion_env =
  ce_parse :: "jsstr \<Rightarrow> jsstr + json"
  ce_validate :: "json \<Rightarrow> (jsstr \<times> jsstr option) + json"

definition carries_schema_tag :: "json \<Rightarrow> bool" where
  "carries_schema_tag v \<longleftrightarrow> is_obj v \<and> is_text ''pi-completion/v1'' (prp v ''schema'')"

definition no_block :: completion_result where
  "no_block = Failed ''NO_BLOCK'' (js ''No ```completion block found'') None"

definition malformed :: "jsstr \<Rightarrow> completion_result" where
  "malformed reason = Failed ''MALFORMED_JSON'' (js ''Completion block is not valid JSON: '' @ reason) None"

definition completion_outcome :: "completion_env \<Rightarrow> raw_block \<Rightarrow> completion_result" where
  "completion_outcome env candidate =
     (if length (rb_content candidate) > completion_block_max_chars
      then Failed ''OVERSIZED_BLOCK''
             (js ''Completion block exceeds the '' @ nat_text completion_block_max_chars @ js ''-character cap'') None
      else
        (case ce_parse env (rb_content candidate) of
           Inl reason \<Rightarrow> malformed reason
         | Inr v \<Rightarrow>
             if \<not> is_obj v then Failed ''MALFORMED_JSON'' (js ''Completion block JSON must be an object'') None
             else
               (case ce_validate env v of
                  Inr block \<Rightarrow> Parsed block By_Completion
                | Inl (message, path) \<Rightarrow> Failed ''SCHEMA_VIOLATION'' message path)))"

record parse_state =
  px_outcome :: "completion_result option"
  px_jsonError :: "raw_block option"
  px_complete :: bool
  px_unclosed :: bool

definition parse_step :: "completion_env \<Rightarrow> parse_state \<Rightarrow> raw_block \<Rightarrow> parse_state" where
  "parse_step env p candidate =
     (if \<not> rb_complete candidate
      then if rb_class candidate = Completion_Fence then p \<lparr> px_unclosed := True \<rparr> else p
      else if rb_class candidate = Completion_Fence
      then p \<lparr> px_complete := True, px_outcome := Some (completion_outcome env candidate) \<rparr>
      else if length (rb_content candidate) > completion_block_max_chars then p
      else
        (case ce_parse env (rb_content candidate) of
           Inl _ \<Rightarrow> if rb_class candidate = Json_Fence then p \<lparr> px_jsonError := Some candidate \<rparr> else p
         | Inr v \<Rightarrow>
             if \<not> carries_schema_tag v then p
             else
               (case ce_validate env v of
                  Inr block \<Rightarrow> p \<lparr> px_outcome := Some (Parsed block By_Json_Tag) \<rparr>
                | Inl _ \<Rightarrow> p \<lparr> px_jsonError := Some candidate \<rparr>)))"

definition json_error :: "completion_env \<Rightarrow> raw_block \<Rightarrow> completion_result option" where
  "json_error env candidate =
     (case ce_parse env (rb_content candidate) of
        Inl reason \<Rightarrow> Some (malformed reason)
      | Inr v \<Rightarrow>
          (case ce_validate env v of
             Inl (message, path) \<Rightarrow> Some (Failed ''SCHEMA_VIOLATION'' message path)
           | Inr _ \<Rightarrow> None))"

definition parse_verdict :: "completion_env \<Rightarrow> parse_state \<Rightarrow> completion_result" where
  "parse_verdict env p =
     (case px_outcome p of
        Some r \<Rightarrow> r
      | None \<Rightarrow>
          let fallback = (if px_complete p then None
                          else case px_jsonError p of Some c \<Rightarrow> json_error env c | None \<Rightarrow> None) in
          (case fallback of
             Some r \<Rightarrow> r
           | None \<Rightarrow>
               if px_unclosed p
               then Failed ''UNCLOSED_FENCE'' (js ''The last ```completion block was never closed'') None
               else no_block))"

definition parse_completion_block :: "completion_env \<Rightarrow> jsstr \<Rightarrow> completion_result" where
  "parse_completion_block env text_in =
     (if text_in = [] then no_block
      else
        let start = (if length text_in > completion_parse_window_chars
                     then length text_in - completion_parse_window_chars else 0);
            blocks = scan_blocks (drop start text_in) in
        if blocks = [] then no_block
        else parse_verdict env
               (foldl (parse_step env)
                  \<lparr> px_outcome = None, px_jsonError = None, px_complete = False, px_unclosed = False \<rparr> blocks))"

subsection \<open>The last decisive block\<close>

text \<open>What a block decides on its own, and whether it is an attempt that can only fail.\<close>

definition decides :: "completion_env \<Rightarrow> raw_block \<Rightarrow> completion_result option" where
  "decides env b =
     (if \<not> rb_complete b then None
      else if rb_class b = Completion_Fence then Some (completion_outcome env b)
      else if length (rb_content b) > completion_block_max_chars then None
      else
        (case ce_parse env (rb_content b) of
           Inl _ \<Rightarrow> None
         | Inr v \<Rightarrow>
             if \<not> carries_schema_tag v then None
             else (case ce_validate env v of Inr block \<Rightarrow> Some (Parsed block By_Json_Tag) | Inl _ \<Rightarrow> None)))"

definition bad_attempt :: "completion_env \<Rightarrow> raw_block \<Rightarrow> bool" where
  "bad_attempt env b \<longleftrightarrow> rb_complete b \<and> rb_class b \<noteq> Completion_Fence
     \<and> length (rb_content b) \<le> completion_block_max_chars
     \<and> (case ce_parse env (rb_content b) of
          Inl _ \<Rightarrow> rb_class b = Json_Fence
        | Inr v \<Rightarrow> carries_schema_tag v \<and> (case ce_validate env v of Inl _ \<Rightarrow> True | Inr _ \<Rightarrow> False))"

definition last_of :: "'a list \<Rightarrow> 'a option" where
  "last_of xs = (if xs = [] then None else Some (last xs))"

definition reading :: "completion_env \<Rightarrow> raw_block list \<Rightarrow> completion_result" where
  "reading env blocks =
     (case last_of (List.map_filter (decides env) blocks) of
        Some r \<Rightarrow> r
      | None \<Rightarrow>
          (case last_of (filter (bad_attempt env) blocks) of
             Some b \<Rightarrow> the (json_error env b)
           | None \<Rightarrow>
               if \<exists>b \<in> set blocks. \<not> rb_complete b \<and> rb_class b = Completion_Fence
               then Failed ''UNCLOSED_FENCE'' (js ''The last ```completion block was never closed'') None
               else no_block))"

lemma last_of_snoc [simp]: "last_of (xs @ [x]) = Some x" "last_of [] = None"
  by (simp_all add: last_of_def)

lemma map_filter_snoc: "List.map_filter f (xs @ [x]) = List.map_filter f xs @ (case f x of None \<Rightarrow> [] | Some y \<Rightarrow> [y])"
  by (induction xs) (auto simp: List.map_filter_simps split: option.split)

lemma parse_fold:
  "foldl (parse_step env)
     \<lparr> px_outcome = None, px_jsonError = None, px_complete = False, px_unclosed = False \<rparr> blocks
   = \<lparr> px_outcome = last_of (List.map_filter (decides env) blocks),
       px_jsonError = last_of (filter (bad_attempt env) blocks),
       px_complete = (\<exists>b \<in> set blocks. rb_complete b \<and> rb_class b = Completion_Fence),
       px_unclosed = (\<exists>b \<in> set blocks. \<not> rb_complete b \<and> rb_class b = Completion_Fence) \<rparr>"
proof (induction blocks rule: rev_induct)
  case (snoc b blocks)
  show ?case
    by (simp add: snoc, cases "rb_complete b"; cases "rb_class b"; cases "ce_parse env (rb_content b)")
      (auto simp: parse_step_def decides_def [of env b] bad_attempt_def [of env b] map_filter_snoc split: sum.splits)
qed (simp add: List.map_filter_simps)

lemma bad_attempt_error: "bad_attempt env b \<Longrightarrow> json_error env b \<noteq> None"
  by (auto simp: bad_attempt_def json_error_def split: sum.splits)

lemma complete_decides:
  assumes "b \<in> set blocks" and "rb_complete b" and "rb_class b = Completion_Fence"
  shows "last_of (List.map_filter (decides env) blocks) \<noteq> None"
proof -
  have "completion_outcome env b \<in> set (List.map_filter (decides env) blocks)"
    using assms by (force simp: List.map_filter_def decides_def)
  then show ?thesis by (auto simp: last_of_def)
qed

lemma verdict_reading:
  "parse_verdict env (foldl (parse_step env)
     \<lparr> px_outcome = None, px_jsonError = None, px_complete = False, px_unclosed = False \<rparr> blocks) = reading env blocks"
proof (cases "last_of (List.map_filter (decides env) blocks)")
  case None
  then have "\<not> (\<exists>b \<in> set blocks. rb_complete b \<and> rb_class b = Completion_Fence)"
    using complete_decides by blast
  moreover have "json_error env b \<noteq> None" if "last_of (filter (bad_attempt env) blocks) = Some b" for b
    using that bad_attempt_error last_in_set [of "filter (bad_attempt env) blocks"] by (auto simp: last_of_def split: if_splits)
  ultimately show ?thesis using None
    by (auto simp: parse_fold parse_verdict_def reading_def split: option.splits)
qed (simp add: parse_fold parse_verdict_def reading_def)

lemma reading_Nil [simp]: "reading env [] = no_block"
  by (simp add: reading_def List.map_filter_simps)

definition parse_window :: "jsstr \<Rightarrow> jsstr" where
  "parse_window t = drop (length t - completion_parse_window_chars) t"

text \<open>C38: The last block that decides anything decides the result: the loop of the parser, on any text, answers what the
  blocks of its last 65536 characters say when read from the back: the last complete \<open>completion\<close> fence or valid
  tagged fence, else the last failed attempt, else an unclosed fence, else no block.\<close>
theorem last_block_decides:
  "parse_completion_block env reply = reading env (if reply = [] then [] else scan_blocks (parse_window reply))"
proof -
  have w: "drop (if length reply > completion_parse_window_chars
                 then length reply - completion_parse_window_chars else 0) reply = parse_window reply"
    by (auto simp: parse_window_def)
  show ?thesis
    unfolding parse_completion_block_def w Let_def verdict_reading by simp
qed

end
