(* ===== verification/Phase7_Shadow.thy ===== *)
theory Phase7_Shadow
  imports Run_Receipts Js_Regex
begin

text \<open>
  The shadow classification of Pi runs, \<open>internal-api/phase7-pi-shadow.ts\<close>: payload-free evidence that a run
  carries from its acceptance to its end. A classification is the JSON object of the code; the
  patterns are its regular expressions, the byte length is \<open>Buffer.byteLength\<close>.
\<close>

subsection \<open>Classification\<close>

definition alt_words :: "re list \<Rightarrow> re" where
  "alt_words rs = seqs [Bound, alts rs, Bound]"

definition sep_of :: "string \<Rightarrow> re" where
  "sep_of s = opt (Js_Regex.one_of (js s))"

definition tool_signal :: re where
  "tool_signal = Alt
     (seqs [Bound, lits [''npm'', ''pnpm'', ''yarn'', ''bun''], rep1 ws, opt (seqs [lit ''run'', rep1 ws]),
            lits [''test'', ''build'', ''lint'', ''typecheck'']])
     (alt_words [lit ''pytest'', lit ''vitest'', lit ''jest'', seqs [lit ''cargo'', rep1 ws, lit ''test''],
        seqs [lit ''go'', rep1 ws, lit ''test''], lit ''make'', lit ''cmake'', lit ''tsc'', lit ''esbuild''])"

definition fork_or_memory_signal :: re where
  "fork_or_memory_signal = alt_words
     [seqs [lit ''fork'', opt (seqs [Js_Regex.one_of (js ''- ''), lit ''bomb''])],
      seqs [lit ''child'', sep_of ''_ -'', lit ''process''],
      seqs [lit ''worker'', sep_of ''_ -'', lit ''thread'', opt (lit ''s'')],
      seqs [lit ''memory'', opt (Alt (seqs [Js_Regex.one_of (js ''- ''), lit ''pressure''])
                                     (seqs [Js_Regex.one_of (js ''- ''), lit ''bound'']))],
      seqs [lit ''out'', Js_Regex.one_of (js ''- ''), lit ''of'', Js_Regex.one_of (js ''- ''), lit ''memory''],
      lit ''oom'', lit ''heap'', seqs [lit ''pid'', opt (lit ''s'')],
      seqs [lit ''process'', opt (seqs [Js_Regex.one_of (js ''- ''), lit ''fan'', Js_Regex.one_of (js ''- ''), lit ''out''])],
      seqs [lit ''stress'', opt (seqs [Js_Regex.one_of (js ''- ''), lit ''ng''])]]"

definition shadow_prompt_bytes :: nat where "shadow_prompt_bytes = 4096"
definition shadow_tool_event_count :: nat where "shadow_tool_event_count = 8"
definition shadow_long_turn_ms :: int where "shadow_long_turn_ms = 60000"
definition shadow_max_tool_event_count :: nat where "shadow_max_tool_event_count = 10000"

definition shadow_reason :: "bool \<Rightarrow> string \<Rightarrow> json list" where
  "shadow_reason b code = (if b then [text_json code] else [])"

definition classify_shadow :: "jsstr \<Rightarrow> jsstr \<Rightarrow> js_object" where
  "classify_shadow sessionId message =
     (let promptBytes = byte_length message;
          hasFork = test fork_or_memory_signal message;
          hasTool = test tool_signal message;
          large = (promptBytes \<ge> shadow_prompt_bytes);
          found = shadow_reason hasFork ''message_fork_or_memory_signal'' @ shadow_reason hasTool ''message_tool_signal''
                  @ shadow_reason large ''prompt_size_threshold'' in
      [(js ''policyVersion'', text_json ''phase7-pi-shadow/v1''),
       (js ''mode'', text_json ''shadow''),
       (js ''profile'', text_json (if hasFork \<or> hasTool \<or> large then ''heavy'' else ''standard'')),
       (js ''reasonCodes'', JArr (if found = [] then [text_json ''default_standard''] else found)),
       (js ''affinity'', JObj [(js ''kind'', text_json ''session''), (js ''sessionId'', JStr sessionId),
          (js ''ownership'', text_json ''server-owned'')]),
       (js ''resourceIdentity'', JObj [(js ''kind'', text_json ''shared-service''),
          (js ''boundary'', text_json ''pi-control-process''), (js ''ownership'', text_json ''server-owned''),
          (js ''sessionScoped'', JBool False)]),
       (js ''evidence'', JObj [(js ''promptBytes'', JNum (nat_text promptBytes)), (js ''toolEventCount'', JNum (nat_text 0))])])"

subsection \<open>Observation and the final projection\<close>

record shadow_state =
  sh_classification :: js_object
  sh_acceptedAtMs :: int
  sh_toolEventCount :: nat

definition shadow_count :: "js_object \<Rightarrow> nat" where
  "shadow_count c = (case safe_int (prp (getp c ''evidence'') ''toolEventCount'') of Some n \<Rightarrow> nat n | None \<Rightarrow> 0)"

definition create_shadow :: "js_object \<Rightarrow> int \<Rightarrow> shadow_state" where
  "create_shadow c acceptedAtMs =
     \<lparr> sh_classification = c, sh_acceptedAtMs = acceptedAtMs, sh_toolEventCount = shadow_count c \<rparr>"

definition observe_shadow :: "js_object \<Rightarrow> shadow_state \<Rightarrow> shadow_state" where
  "observe_shadow event s =
     (let sid = getp event ''sessionId'' in
      if \<not> is_text ''tool_execution_start'' (getp event ''type'')
         \<or> sid \<noteq> JUndef \<and> \<not> strict_eq sid (prp (getp (sh_classification s) ''affinity'') ''sessionId'')
      then s
      else s \<lparr> sh_toolEventCount := min shadow_max_tool_event_count (sh_toolEventCount s + 1) \<rparr>)"

definition int_json :: "int \<Rightarrow> json" where
  "int_json n = JNum (int_text n)"

definition reason_list :: "json \<Rightarrow> json list" where
  "reason_list v = (case v of JArr vs \<Rightarrow> vs | _ \<Rightarrow> [])"

definition add_reason :: "bool \<Rightarrow> string \<Rightarrow> json list \<Rightarrow> json list" where
  "add_reason b code codes = (if b \<and> text_json code \<notin> set codes then codes @ [text_json code] else codes)"

definition final_reason_codes :: "bool \<Rightarrow> bool \<Rightarrow> json list \<Rightarrow> json list" where
  "final_reason_codes many long given =
     (let initial = filter (\<lambda>r. \<not> is_text ''default_standard'' r) given;
          codes = add_reason long ''turn_duration_threshold'' (add_reason many ''tool_event_threshold'' initial) in
      if codes = [] then [text_json ''default_standard''] else codes)"

definition finalize_shadow :: "shadow_state \<Rightarrow> int \<Rightarrow> js_object" where
  "finalize_shadow s terminalAtMs =
     (let c = sh_classification s;
          durationMs = max 0 (terminalAtMs - sh_acceptedAtMs s);
          many = (sh_toolEventCount s \<ge> shadow_tool_event_count);
          long = (durationMs \<ge> shadow_long_turn_ms);
          profile = (if is_text ''heavy'' (getp c ''profile'') \<or> many then ''heavy''
                     else if long then ''long-horizon'' else ''standard'');
          evidence = putp ''toolEventCount'' (JNum (nat_text (sh_toolEventCount s))) (spread (getp c ''evidence''));
          evidence' = (if durationMs > 0 then putp ''durationMs'' (int_json durationMs) evidence else evidence) in
      putp ''evidence'' (JObj evidence')
        (putp ''reasonCodes'' (JArr (final_reason_codes many long (reason_list (getp c ''reasonCodes''))))
          (putp ''profile'' (text_json profile) c)))"

subsection \<open>Decimal text\<close>

lemma digits_value_snoc: "digits_value (t @ [48 + d]) = 10 * digits_value t + int d"
  by (simp add: digits_value_def)

lemma digits_of_nat: "list_all is_digit (nat_text n) \<and> nat_text n \<noteq> [] \<and> digits_value (nat_text n) = int n"
proof (induction n rule: nat_text.induct)
  case (1 n)
  show ?case
  proof (cases "n < 10")
    case True
    then show ?thesis by (simp add: is_digit_def digits_value_def)
  next
    case False
    have "int (n div 10) * 10 + int (n mod 10) = int n" by presburger
    with False 1 show ?thesis
      by (simp add: digits_value_snoc is_digit_def del: nat_text.simps)
         (simp add: nat_text.simps [of n] digits_value_snoc is_digit_def del: nat_text.simps)
  qed
qed

lemma nat_text_not_Nil [simp]: "nat_text n \<noteq> []"
  using digits_of_nat by blast

lemma hd_nat_text: "is_digit (hd (nat_text n))"
  using digits_of_nat [of n] by (cases "nat_text n") (simp_all del: nat_text.simps)

lemma integer_of_nat_text [simp]: "integer_of_text (nat_text n) = Some (int n)"
  using digits_of_nat [of n] hd_nat_text [of n]
  by (cases "nat_text n") (auto simp: integer_of_text_def is_digit_def simp del: nat_text.simps)

lemma safe_int_nat_text [simp]:
  "safe_int (JNum (nat_text n)) = (if int n \<le> 2 ^ 53 - 1 then Some (int n) else None)"
  by (simp del: nat_text.simps)

lemma count_upto_nat_text:
  "hi \<le> 2 ^ 53 - 1 \<Longrightarrow> count_upto hi (JNum (nat_text n)) \<longleftrightarrow> int n \<le> hi"
  by (auto simp: count_upto_def simp del: nat_text.simps safe_int.simps)

lemma nat_text_zero_iff: "nat_text n = js ''0'' \<longleftrightarrow> n = 0"
proof
  assume "nat_text n = js ''0''"
  then have "integer_of_text (nat_text n) = Some 0" by (simp only:) code_simp
  then show "n = 0" by (simp del: nat_text.simps)
qed (simp add: js_def)

lemma int_json_nat: "0 \<le> n \<Longrightarrow> int_json n = JNum (nat_text (nat n))"
  by (simp add: int_json_def int_text_def del: nat_text.simps)

lemma positive_int_json [simp]: "positive_number (int_json n) \<longleftrightarrow> 0 < n"
proof (cases "n < 0")
  case True
  then show ?thesis by (simp add: int_json_def int_text_def del: nat_text.simps)
next
  case False
  then show ?thesis
    using hd_nat_text [of "nat n"] nat_text_zero_iff [of "nat n"]
    by (auto simp: int_json_nat is_digit_def simp del: nat_text.simps)
qed

subsection \<open>What is kept can be stored\<close>

definition shadow_run :: "js_object list \<Rightarrow> shadow_state \<Rightarrow> shadow_state" where
  "shadow_run events s = foldl (\<lambda>s e. observe_shadow e s) s events"

lemma shadow_run_keeps:
  "sh_classification (shadow_run events s) = sh_classification s
   \<and> sh_acceptedAtMs (shadow_run events s) = sh_acceptedAtMs s
   \<and> (sh_toolEventCount s \<le> shadow_max_tool_event_count
      \<longrightarrow> sh_toolEventCount (shadow_run events s) \<le> shadow_max_tool_event_count)"
  by (induction events arbitrary: s)
     (auto simp: shadow_run_def observe_shadow_def Let_def shadow_max_tool_event_count_def)

lemma getp_Cons: "getp ((k, v) # r) n = (if k = js n then v else getp r n)"
  by (simp add: getp_def)

lemma putp_Cons: "putp n v ((k, w) # r) = (if k = js n then (k, v) # r else (k, w) # putp n v r)"
  by (auto simp: putp_def)

lemma putp_Nil: "putp n v [] = [(js n, v)]"
  by (simp add: putp_def)

lemma getp_Nil: "getp [] n = JUndef"
  by (simp add: getp_def)

lemma classified:
  "getp (classify_shadow sid msg) ''policyVersion'' = text_json ''phase7-pi-shadow/v1''"
  "getp (classify_shadow sid msg) ''mode'' = text_json ''shadow''"
  "getp (classify_shadow sid msg) ''affinity'' = JObj [(js ''kind'', text_json ''session''),
     (js ''sessionId'', JStr sid), (js ''ownership'', text_json ''server-owned'')]"
  "getp (classify_shadow sid msg) ''resourceIdentity'' = JObj [(js ''kind'', text_json ''shared-service''),
     (js ''boundary'', text_json ''pi-control-process''), (js ''ownership'', text_json ''server-owned''),
     (js ''sessionScoped'', JBool False)]"
  "getp (classify_shadow sid msg) ''evidence'' =
     JObj [(js ''promptBytes'', JNum (nat_text (byte_length msg))), (js ''toolEventCount'', JNum (nat_text 0))]"
  by (simp_all add: classify_shadow_def Let_def getp_Cons del: nat_text.simps)

definition message_reasons :: "json list set" where
  "message_reasons =
     {shadow_reason a ''message_fork_or_memory_signal'' @ shadow_reason b ''message_tool_signal''
        @ shadow_reason c ''prompt_size_threshold'' | a b c. True}"

lemma classified_reasons:
  "\<exists>rs \<in> message_reasons. getp (classify_shadow sid msg) ''reasonCodes''
     = JArr (if rs = [] then [text_json ''default_standard''] else rs)"
proof -
  have "shadow_reason a ''message_fork_or_memory_signal'' @ shadow_reason b ''message_tool_signal''
      @ shadow_reason c ''prompt_size_threshold'' \<in> message_reasons" for a b c
    unfolding message_reasons_def by blast
  from this [of "test fork_or_memory_signal msg" "test tool_signal msg" "shadow_prompt_bytes \<le> byte_length msg"]
  show ?thesis
    by (rule bexI [rotated]) (simp add: classify_shadow_def Let_def getp_Cons)
qed

definition final_reasons :: "json list \<Rightarrow> bool" where
  "final_reasons rs \<longleftrightarrow> 1 \<le> length rs \<and> length rs \<le> 8 \<and> list_all (Receipt_Schema.one_of phase7_reason_codes) rs \<and> distinct rs"

lemma finalized_reasons:
  assumes "rs \<in> message_reasons"
  shows "final_reasons (final_reason_codes many long (if rs = [] then [text_json ''default_standard''] else rs))"
proof -
  obtain a b c where "rs = shadow_reason a ''message_fork_or_memory_signal'' @ shadow_reason b ''message_tool_signal''
      @ shadow_reason c ''prompt_size_threshold''"
    using assms by (auto simp: message_reasons_def)
  then show ?thesis
    unfolding final_reason_codes_def Let_def
    by (cases a; cases b; cases c; cases many; cases long)
       (simp_all add: shadow_reason_def add_reason_def final_reasons_def is_text_def text_json_def
          Receipt_Schema.one_of_def phase7_reason_codes_def)
qed

lemma finalized:
  assumes "sh_classification s = classify_shadow sid msg"
  shows "\<exists>rs. final_reasons rs \<and> getp (finalize_shadow s t) ''reasonCodes'' = JArr rs"
    and "\<exists>p \<in> {''heavy'', ''long-horizon'', ''standard''}. getp (finalize_shadow s t) ''profile'' = text_json p"
    and "getp (finalize_shadow s t) ''policyVersion'' = text_json ''phase7-pi-shadow/v1''"
    and "getp (finalize_shadow s t) ''mode'' = text_json ''shadow''"
    and "getp (finalize_shadow s t) ''affinity'' = getp (classify_shadow sid msg) ''affinity''"
    and "getp (finalize_shadow s t) ''resourceIdentity'' = getp (classify_shadow sid msg) ''resourceIdentity''"
    and "getp (finalize_shadow s t) ''evidence'' =
      JObj ([(js ''promptBytes'', JNum (nat_text (byte_length msg))),
             (js ''toolEventCount'', JNum (nat_text (sh_toolEventCount s)))]
            @ (let d = max 0 (t - sh_acceptedAtMs s) in if d > 0 then [(js ''durationMs'', int_json d)] else []))"
    and "set (jm_keys (finalize_shadow s t)) = js ` set phase7_shadow_keys"
proof -
  obtain rs where rs: "rs \<in> message_reasons"
    "getp (classify_shadow sid msg) ''reasonCodes'' = JArr (if rs = [] then [text_json ''default_standard''] else rs)"
    using classified_reasons by blast
  note f = finalize_shadow_def assms Let_def
  show "\<exists>rs. final_reasons rs \<and> getp (finalize_shadow s t) ''reasonCodes'' = JArr rs"
    using finalized_reasons [OF rs(1)] by (simp add: f rs(2) reason_list_def)
  show "\<exists>p \<in> {''heavy'', ''long-horizon'', ''standard''}. getp (finalize_shadow s t) ''profile'' = text_json p"
    by (simp add: f)
  show "getp (finalize_shadow s t) ''evidence'' =
      JObj ([(js ''promptBytes'', JNum (nat_text (byte_length msg))),
             (js ''toolEventCount'', JNum (nat_text (sh_toolEventCount s)))]
            @ (let d = max 0 (t - sh_acceptedAtMs s) in if d > 0 then [(js ''durationMs'', int_json d)] else []))"
  proof -
    have "putp ''toolEventCount'' v (spread (getp (classify_shadow sid msg) ''evidence'')) =
        [(js ''promptBytes'', JNum (nat_text (byte_length msg))), (js ''toolEventCount'', v)]" for v
      by (simp add: classified putp_Cons del: nat_text.simps)
    note ev = this
    have "getp (finalize_shadow s t) ''evidence'' =
        JObj (let e = [(js ''promptBytes'', JNum (nat_text (byte_length msg))),
                (js ''toolEventCount'', JNum (nat_text (sh_toolEventCount s)))];
              d = max 0 (t - sh_acceptedAtMs s) in if d > 0 then putp ''durationMs'' (int_json d) e else e)"
      unfolding finalize_shadow_def assms Let_def ev getp_putp by simp
    then show ?thesis by (simp add: Let_def putp_Cons putp_Nil del: nat_text.simps)
  qed
  show "set (jm_keys (finalize_shadow s t)) = js ` set phase7_shadow_keys"
    by (simp add: f putp_def classify_shadow_def phase7_shadow_keys_def del: nat_text.simps)
qed (simp_all add: finalize_shadow_def assms Let_def classified del: nat_text.simps)

lemma shadow_validates:
  assumes "sid \<noteq> []" and "byte_length msg \<le> 10000000"
  shows "validate_phase7_shadow
       (JObj (finalize_shadow (shadow_run events (create_shadow (classify_shadow sid msg) acceptedAtMs)) terminalAtMs)) = None
     \<longleftrightarrow> terminalAtMs - acceptedAtMs \<le> 604800000"
proof -
  let ?s = "shadow_run events (create_shadow (classify_shadow sid msg) acceptedAtMs)"
  have c: "sh_classification ?s = classify_shadow sid msg" and a: "sh_acceptedAtMs ?s = acceptedAtMs"
    and n: "sh_toolEventCount ?s \<le> 10000"
    using shadow_run_keeps [of events "create_shadow (classify_shadow sid msg) acceptedAtMs"]
    by (simp_all add: create_shadow_def shadow_count_def classified prp_def shadow_max_tool_event_count_def
          del: nat_text.simps safe_int.simps)
  obtain rs where rs: "final_reasons rs" "getp (finalize_shadow ?s terminalAtMs) ''reasonCodes'' = JArr rs"
    using finalized(1) [OF c] by blast
  obtain p where p: "p \<in> {''heavy'', ''long-horizon'', ''standard''}"
    "getp (finalize_shadow ?s terminalAtMs) ''profile'' = text_json p"
    using finalized(2) [OF c] by blast
  have keys: "list_all (\<lambda>k. k \<in> js ` set phase7_shadow_keys) (jm_keys (finalize_shadow ?s terminalAtMs))"
    using finalized(8) [OF c, of terminalAtMs] by (simp add: list_all_iff del: set_map)
  have d: "(int_json d = JUndef \<or> count_upto 604800000 (int_json d)) \<longleftrightarrow> d \<le> 604800000" if "0 < d" for d
    using that by (simp add: int_json_nat count_upto_nat_text del: nat_text.simps)
  note look = prop_JObj_getp getp_Cons getp_Nil finalized(3-7) [OF c] classified rs(2) p(2) keys
  show ?thesis
  proof (cases "terminalAtMs - acceptedAtMs > 0")
    case True
    with rs(1) p(1) n assms show ?thesis
      by (auto simp: validate_phase7_shadow_def Let_def look a final_reasons_def is_text_def text_json_def
            Receipt_Schema.one_of_def assert_only_keys_def count_upto_nat_text d
            simp del: nat_text.simps safe_int.simps)
  next
    case False
    with rs(1) p(1) n assms show ?thesis
      by (auto simp: validate_phase7_shadow_def Let_def look a final_reasons_def is_text_def text_json_def
            Receipt_Schema.one_of_def assert_only_keys_def count_upto_nat_text
            simp del: nat_text.simps safe_int.simps)
  qed
qed

text \<open>The shadow evidence that a run carries from its acceptance to its end passes the receipt store's
  validation exactly when the run lasted at most seven days (the prompt under ten million bytes, the
  session named): with a longer run \<open>finish\<close> writes evidence that its own store refuses.\<close>

theorem shadow_evidence_storable:
  assumes "sid \<noteq> []" and "byte_length msg \<le> 10000000"
  shows "validate_phase7_shadow
       (JObj (finalize_shadow (shadow_run events (create_shadow (classify_shadow sid msg) acceptedAtMs)) terminalAtMs)) = None
     \<longleftrightarrow> terminalAtMs - acceptedAtMs \<le> 604800000"
  by (rule shadow_validates [OF assms])

lemma shadow_evidence_storable_witness:
  "validate_phase7_shadow
     (JObj (finalize_shadow (shadow_run [] (create_shadow (classify_shadow (js ''s1'') (js ''hi'')) 0)) 604800001)) \<noteq> None"
  using shadow_evidence_storable [of "js ''s1''" "js ''hi''" "[]" 0 604800001]
  by (simp add: js_def byte_length.simps(2))

end
