(* ===== verification/Completion_Schema.thy ===== *)
theory Completion_Schema
  imports Completion_Parser Run_Receipts
begin

text \<open>
  The completion-block schema of \<open>internal-api/completion/completion-schema.ts\<close>. The \<open>zod\<close>
  combinators it is written with are predicates on JSON values, by their documentation: \<open>z.string()\<close>
  bounds count UTF-16 units, a \<open>strict()\<close> object has no other key, an \<open>optional()\<close> field may be
  \<open>undefined\<close>, and the data of a successful parse has the keys of the schema in the schema's order. The
  message and path of a failed parse are \<open>zod\<close>'s own and stay an argument.

  The result is compared with what the receipt store accepts of it
  (\<open>run-receipt-store.ts\<close>, \<open>validateStoredCompletion\<close>).
\<close>

subsection \<open>Combinators\<close>

definition zod_string :: "nat \<Rightarrow> nat \<Rightarrow> json \<Rightarrow> bool" where
  "zod_string lo hi = str_meets (\<lambda>s. lo \<le> length s \<and> length s \<le> hi)"

definition zod_int :: "int \<Rightarrow> int \<Rightarrow> json \<Rightarrow> bool" where
  "zod_int lo hi v = (case safe_int v of Some n \<Rightarrow> lo \<le> n \<and> n \<le> hi | None \<Rightarrow> False)"

definition zod_optional :: "(json \<Rightarrow> bool) \<Rightarrow> json \<Rightarrow> bool" where
  "zod_optional p v \<longleftrightarrow> v = JUndef \<or> p v"

definition zod_array :: "nat \<Rightarrow> (json \<Rightarrow> bool) \<Rightarrow> json \<Rightarrow> bool" where
  "zod_array hi p = arr_meets (\<lambda>vs. length vs \<le> hi \<and> list_all p vs)"

definition zod_strict :: "(string \<times> (json \<Rightarrow> bool)) list \<Rightarrow> json \<Rightarrow> bool" where
  "zod_strict shape v \<longleftrightarrow> is_obj v \<and> list_all (\<lambda>(k, p). p (prp v k)) shape
     \<and> list_all (\<lambda>k. k \<in> js ` set (map fst shape)) (jm_keys (spread v))"

text \<open>The data of a successful parse.\<close>

definition zod_data :: "(string \<times> (json \<Rightarrow> json)) list \<Rightarrow> json \<Rightarrow> json" where
  "zod_data shape v =
     JObj (List.map_filter (\<lambda>(k, f). if prp v k = JUndef then None else Some (js k, f (prp v k))) shape)"

definition zod_items :: "(json \<Rightarrow> json) \<Rightarrow> json \<Rightarrow> json" where
  "zod_items f v = (case v of JArr vs \<Rightarrow> JArr (map f vs) | _ \<Rightarrow> v)"

subsection \<open>The schema\<close>

definition safe_sha :: "jsstr \<Rightarrow> bool" where
  "safe_sha s \<longleftrightarrow> 7 \<le> length s \<and> length s \<le> 64
     \<and> list_all (\<lambda>c. is_digit c \<or> 97 \<le> c \<and> c \<le> 102 \<or> 65 \<le> c \<and> c \<le> 70) s"

definition command_schema :: "(string \<times> (json \<Rightarrow> bool)) list" where
  "command_schema =
     [(''command'', zod_string 1 2000), (''exitCode'', zod_int 0 255),
      (''note'', zod_optional (zod_string 0 2000))]"

definition test_schema :: "(string \<times> (json \<Rightarrow> bool)) list" where
  "test_schema =
     [(''name'', zod_string 1 500), (''result'', Receipt_Schema.one_of [''pass'', ''fail'', ''skip'']),
      (''note'', zod_optional (zod_string 0 2000))]"

definition commit_schema :: "(string \<times> (json \<Rightarrow> bool)) list" where
  "commit_schema =
     [(''sha'', str_meets safe_sha), (''repo'', zod_string 1 1024),
      (''subject'', zod_optional (zod_string 0 2000))]"

definition block_schema :: "(string \<times> (json \<Rightarrow> bool)) list" where
  "block_schema =
     [(''schema'', is_text ''pi-completion/v1''),
      (''status'', Receipt_Schema.one_of [''done'', ''blocked'', ''partial'']),
      (''summary'', zod_optional (zod_string 0 2000)),
      (''commands'', zod_optional (zod_array 50 (zod_strict command_schema))),
      (''tests'', zod_optional (zod_array 100 (zod_strict test_schema))),
      (''commits'', zod_optional (zod_array 50 (zod_strict commit_schema))),
      (''filesChanged'', zod_optional (zod_array 200 (zod_string 1 1024))),
      (''openIssues'', zod_optional (zod_array 50 (zod_string 1 2000))),
      (''blockedReason'', zod_optional (zod_string 1 4000))]"

definition block_accepted :: "json \<Rightarrow> bool" where
  "block_accepted v \<longleftrightarrow> zod_strict block_schema v
     \<and> (\<not> is_text ''blocked'' (prp v ''status'') \<or> str_meets (\<lambda>s. s \<noteq> []) (prp v ''blockedReason''))"

definition plain_fields :: "string list \<Rightarrow> (string \<times> (json \<Rightarrow> json)) list" where
  "plain_fields = map (\<lambda>k. (k, \<lambda>v. v))"

definition block_data :: "json \<Rightarrow> json" where
  "block_data =
     zod_data
       (plain_fields [''schema'', ''status'', ''summary'']
        @ [(''commands'', zod_items (zod_data (plain_fields (map fst command_schema)))),
           (''tests'', zod_items (zod_data (plain_fields (map fst test_schema)))),
           (''commits'', zod_items (zod_data (plain_fields (map fst commit_schema))))]
        @ plain_fields [''filesChanged'', ''openIssues'', ''blockedReason''])"

text \<open>\<open>validateCompletionBlock\<close>: the block, or the message and path of the first issue.\<close>

definition validate_block :: "(json \<Rightarrow> jsstr \<times> jsstr option) \<Rightarrow> json \<Rightarrow> (jsstr \<times> jsstr option) + json" where
  "validate_block issue v = (if block_accepted v then Inr (block_data v) else Inl (issue v))"

subsection \<open>What is accepted and what can be stored\<close>

lemma prp_zod_data [simp]:
  "prp (zod_data shape v) k =
     (case map_of shape k of Some f \<Rightarrow> (if prp v k = JUndef then JUndef else f (prp v k)) | None \<Rightarrow> JUndef)"
  by (induction shape) (auto simp: zod_data_def prp_def List.map_filter_simps split: option.splits if_splits)

lemma map_of_plain [simp]: "map_of (plain_fields ks) k = (if k \<in> set ks then Some (\<lambda>v. v) else None)"
  by (induction ks) (auto simp: plain_fields_def)

lemma keys_zod_data: "list_all (\<lambda>k. k \<in> js ` set (map fst shape)) (jm_keys (spread (zod_data shape v)))"
  by (induction shape) (auto simp: zod_data_def List.map_filter_simps list_all_iff split: option.splits if_splits)

lemma zod_data_obj [simp]: "is_obj (zod_data shape v)"
  by (simp add: zod_data_def)

lemma only_keys_zod_data [simp]: "assert_only_keys (zod_data shape v) (map fst shape) l = None"
  using keys_zod_data [of shape v] by (simp add: assert_only_keys_def zod_data_def)

lemma fst_plain [simp]: "map fst (plain_fields ks) = ks"
  by (simp add: plain_fields_def comp_def)

lemma number_of_safe_int: "safe_int v = Some n \<Longrightarrow> is_number v"
  by (cases v) auto

lemma zod_int_number: "zod_int lo hi v \<Longrightarrow> is_number v"
  by (auto simp: zod_int_def number_of_safe_int split: option.splits)

lemma str_meets_mono: "str_meets p v \<Longrightarrow> (\<And>s. p s \<Longrightarrow> q s) \<Longrightarrow> str_meets q v"
  by (cases v) auto

lemma item_value_cases:
  "item_value_ok hi v \<longleftrightarrow> v = JUndef \<or> is_number v \<or> str_meets (\<lambda>s. length s \<le> hi) v"
  by (simp add: item_value_ok_def)

lemma item_ok_plain:
  "item_ok ks hi (zod_data (plain_fields ks) v) \<longleftrightarrow> list_all (\<lambda>k. item_value_ok hi (prp v k)) ks"
  using only_keys_zod_data [of "plain_fields ks" v "[]"]
  by (auto simp: item_ok_def list_all_iff item_value_ok_def)

lemma zod_string_item: "zod_string lo hi v \<Longrightarrow> hi \<le> n \<Longrightarrow> item_value_ok n v"
  by (cases v) (auto simp: zod_string_def item_value_ok_def)

lemma zod_enum_item:
  "Receipt_Schema.one_of L v \<Longrightarrow> list_all (\<lambda>s. length s \<le> n) L \<Longrightarrow> item_value_ok n v"
  by (cases v) (auto simp: Receipt_Schema.one_of_def item_value_ok_def list_all_iff js_def)

lemma item_value_JUndef [simp]: "item_value_ok n JUndef"
  by (simp add: item_value_ok_def)

lemma zod_optional_item: "zod_optional (zod_string lo hi) v \<Longrightarrow> hi \<le> n \<Longrightarrow> item_value_ok n v"
  by (auto simp: zod_optional_def dest: zod_string_item)

lemma command_storable:
  "zod_strict command_schema v \<Longrightarrow> item_ok (map fst command_schema) 2000 (zod_data (plain_fields (map fst command_schema)) v)"
  unfolding item_ok_plain
  by (auto simp: zod_strict_def command_schema_def item_value_ok_def [of _ "prp v ''exitCode''"]
           dest: zod_int_number zod_string_item [where n = 2000] zod_optional_item [where n = 2000])

lemma test_storable:
  "zod_strict test_schema v \<Longrightarrow> item_ok (map fst test_schema) 2000 (zod_data (plain_fields (map fst test_schema)) v)"
  unfolding item_ok_plain
  by (auto simp: zod_strict_def test_schema_def
           dest: zod_enum_item [where n = 2000] zod_string_item [where n = 2000] zod_optional_item [where n = 2000])

lemma commit_storable:
  assumes "zod_strict commit_schema v"
  shows "item_ok (map fst commit_schema) 1024 (zod_data (plain_fields (map fst commit_schema)) v)
    \<longleftrightarrow> optional_text 1024 (prp v ''subject'')"
proof -
  have sha: "str_meets safe_sha w \<Longrightarrow> item_value_ok 1024 w" for w
    by (cases w) (auto simp: item_value_ok_def safe_sha_def)
  have subject: "zod_optional (zod_string 0 2000) w \<Longrightarrow> item_value_ok 1024 w \<longleftrightarrow> optional_text 1024 w" for w
    by (cases w) (auto simp: item_value_ok_def optional_text_def zod_optional_def zod_string_def)
  from assms have "str_meets safe_sha (prp v ''sha'')" "zod_string 1 1024 (prp v ''repo'')"
      "zod_optional (zod_string 0 2000) (prp v ''subject'')"
    by (simp_all add: zod_strict_def commit_schema_def)
  then show ?thesis
    unfolding item_ok_plain by (simp add: commit_schema_def sha subject zod_string_item [where n = 1024])
qed

definition subjects_fit :: "json \<Rightarrow> bool" where
  "subjects_fit v \<longleftrightarrow>
     (case prp v ''commits'' of JArr cs \<Rightarrow> list_all (\<lambda>c. optional_text 1024 (prp c ''subject'')) cs | _ \<Rightarrow> True)"

lemma bounded_array_items:
  assumes "zod_optional (zod_array hi p) w" and "prp v k = (if w = JUndef then JUndef else zod_items f w)"
    and "\<And>x. p x \<Longrightarrow> item_ok ks n (f x) \<longleftrightarrow> q x"
  shows "bounded_array v k hi ks n = None \<longleftrightarrow> (case w of JArr xs \<Rightarrow> list_all q xs | _ \<Rightarrow> True)"
  using assms
  by (cases w) (auto simp: bounded_array_def zod_optional_def zod_array_def zod_items_def list_all_iff)

lemma bounded_texts_items:
  "zod_optional (zod_array hi (zod_string 1 m)) (prp v k) \<Longrightarrow> m \<le> 2000 \<Longrightarrow> bounded_texts v k hi = None"
  by (cases "prp v k")
     (auto simp: bounded_texts_def zod_optional_def zod_array_def zod_string_def list_all_iff elim!: str_meets_mono ballE)

lemma block_storable:
  assumes "block_accepted v"
  shows "validate_stored_completion (block_data v) = None
    \<longleftrightarrow> subjects_fit v \<and> length (stringify (block_data v)) \<le> completion_block_max_chars * 4"
proof -
  from assms have shape: "is_obj v" "is_text ''pi-completion/v1'' (prp v ''schema'')"
      "Receipt_Schema.one_of [''done'', ''blocked'', ''partial''] (prp v ''status'')"
      "zod_optional (zod_string 0 2000) (prp v ''summary'')"
      "zod_optional (zod_array 50 (zod_strict command_schema)) (prp v ''commands'')"
      "zod_optional (zod_array 100 (zod_strict test_schema)) (prp v ''tests'')"
      "zod_optional (zod_array 50 (zod_strict commit_schema)) (prp v ''commits'')"
      "zod_optional (zod_array 200 (zod_string 1 1024)) (prp v ''filesChanged'')"
      "zod_optional (zod_array 50 (zod_string 1 2000)) (prp v ''openIssues'')"
      "zod_optional (zod_string 1 4000) (prp v ''blockedReason'')"
      "is_text ''blocked'' (prp v ''status'') \<longrightarrow> str_meets (\<lambda>s. s \<noteq> []) (prp v ''blockedReason'')"
    by (simp_all add: block_accepted_def zod_strict_def block_schema_def)
  have data: "prp (block_data v) k = (if prp v k = JUndef then JUndef else
      zod_items (zod_data (plain_fields (map fst fs))) (prp v k))"
    if "(k, fs) \<in> {(''commands'', command_schema), (''tests'', test_schema), (''commits'', commit_schema)}" for k fs
    using that unfolding block_data_def by (elim insertE emptyE) (simp_all add: map_add_def)
  have same: "prp (block_data v) k = prp v k"
    if "k \<in> {''schema'', ''status'', ''summary'', ''filesChanged'', ''openIssues'', ''blockedReason''}" for k
    using that unfolding block_data_def by (elim insertE emptyE) (simp_all add: map_add_def)
  have keys: "assert_only_keys (block_data v) [''schema'', ''status'', ''summary'', ''commands'', ''tests'', ''commits'',
      ''filesChanged'', ''openIssues'', ''blockedReason''] l = None" for l
    using only_keys_zod_data [of "plain_fields [''schema'', ''status'', ''summary'']
        @ [(''commands'', zod_items (zod_data (plain_fields (map fst command_schema)))),
           (''tests'', zod_items (zod_data (plain_fields (map fst test_schema)))),
           (''commits'', zod_items (zod_data (plain_fields (map fst commit_schema))))]
        @ plain_fields [''filesChanged'', ''openIssues'', ''blockedReason'']" v l]
    by (simp add: block_data_def)
  have opt: "optional_text n w" if "zod_optional (zod_string m n) w" for m n w
    using that by (cases w) (auto simp: optional_text_def zod_optional_def zod_string_def)
  have "bounded_array (block_data v) ''commands'' 50 [''command'', ''exitCode'', ''note''] 2000 = None"
    using bounded_array_items [OF shape(5) data, of command_schema "[''command'', ''exitCode'', ''note'']" 2000 "\<lambda>_. True"]
      command_storable by (simp add: command_schema_def list_all_iff split: json.splits)
  moreover have "bounded_array (block_data v) ''tests'' 100 [''name'', ''result'', ''note''] 2000 = None"
    using bounded_array_items [OF shape(6) data, of test_schema "[''name'', ''result'', ''note'']" 2000 "\<lambda>_. True"]
      test_storable by (simp add: test_schema_def list_all_iff split: json.splits)
  moreover have "bounded_array (block_data v) ''commits'' 50 [''sha'', ''repo'', ''subject''] 1024 = None \<longleftrightarrow> subjects_fit v"
    using bounded_array_items [OF shape(7) data, of commit_schema "[''sha'', ''repo'', ''subject'']" 1024
        "\<lambda>c. optional_text 1024 (prp c ''subject'')"] commit_storable
    by (simp add: commit_schema_def subjects_fit_def)
  moreover have "bounded_texts (block_data v) ''filesChanged'' 200 = None" "bounded_texts (block_data v) ''openIssues'' 50 = None"
    using bounded_texts_items [of 200 1024 "block_data v" "''filesChanged''"] bounded_texts_items [of 50 2000 "block_data v" "''openIssues''"]
      shape(8,9) by (simp_all add: same)
  ultimately show ?thesis
    using shape opt [OF shape(4)] opt [OF shape(10)] keys [of "''completion block''"]
    by (simp add: validate_stored_completion_def same) (auto simp: block_data_def)
qed

text \<open>C40: A completion block that the schema accepts can be stored on the receipt exactly when no commit subject
  is longer than 1024 characters and the block, written out again, has at most four times the block limit: the
  schema lets subjects of up to 2000 characters through, and with such a block the run can not be finished.\<close>

theorem accepted_block_storable:
  assumes "block_accepted v"
  shows "validate_stored_completion (block_data v) = None
    \<longleftrightarrow> subjects_fit v \<and> length (stringify (block_data v)) \<le> completion_block_max_chars * 4"
  by (rule block_storable [OF assms])

text \<open>A block with one commit, whose subject has \<open>n\<close> characters.\<close>

definition commit_block :: "nat \<Rightarrow> json" where
  "commit_block n =
     JObj [(js ''schema'', text_json ''pi-completion/v1''), (js ''status'', text_json ''done''),
           (js ''commits'', JArr [JObj [(js ''sha'', text_json ''0123abc''), (js ''repo'', text_json ''pi''),
              (js ''subject'', JStr (replicate n 97))]])]"

lemma commit_block_accepted: "n \<le> 2000 \<Longrightarrow> block_accepted (commit_block n)"
  by (simp add: commit_block_def block_accepted_def zod_strict_def block_schema_def commit_schema_def zod_optional_def
        zod_array_def zod_string_def safe_sha_def is_digit_def is_text_def text_json_def Receipt_Schema.one_of_def
        prp_def) (simp add: js_def)

lemma commit_block_fits: "subjects_fit (commit_block n) \<longleftrightarrow> n \<le> 1024"
  by (simp add: subjects_fit_def commit_block_def prp_def optional_text_def)

lemma accepted_block_storable_witness: "validate_stored_completion (block_data (commit_block 1500)) \<noteq> None"
  using accepted_block_storable [OF commit_block_accepted, of 1500] by (simp add: commit_block_fits)

end
