(* ===== verification/Run_Manager.thy ===== *)
theory Run_Manager
  imports Final_Text Completion_Parser Phase7_Shadow
begin

text \<open>
  The run receipt manager, class \<open>RunReceiptManager\<close> of \<open>internal-api/run-receipts/run-receipt-manager.ts\<close>: the
  identity of every accepted run, its watchdog, and the admission lease it holds until the runtime
  is known to have stopped.

  \<^item> \<open>run_manager\<close> is the state of the class with its store. Run ids and session ids are JSON
    strings, an admission lease is a number (its \<open>release\<close> is the effect \<open>Release\<close>), a waiter too.
  \<^item> An operation returns its result or the message it throws, what it does outside
    (\<open>manager_effect\<close>: leases released, waiters resolved, listeners called, metrics) and the new state.
  \<^item> Operations on one run are queued by \<open>withRunLock\<close>, so each is one step. \<open>observeEvent\<close> is two: what it
    does at once, and the write it queues behind the lock (\<open>pending_write\<close>). A watchdog tick is cut at
    each \<open>await\<close>: a verdict on one run, and the \<open>finish\<close> that follows it. The answer of
    \<open>isRuntimeQuiescent\<close> is an argument of the step that receives it.
  \<^item> \<open>sha256\<close> (\<open>node:crypto\<close>), \<open>JSON.parse\<close> and \<open>zod\<close> are arguments.
\<close>

subsection \<open>Options\<close>

record moment =
  at_now :: int
  at_wall :: int

record manager_env =
  me_store :: receipt_env
  me_sha :: "jsstr \<Rightarrow> jsstr"
  me_completion :: completion_env
  me_ttlMs :: int
  me_idleMs :: int
  me_maxMs :: int
  me_startWindowMs :: int
  me_fence :: bool
  me_drainTimeoutMs :: int

text \<open>An option is absent, not a finite number, or a number of milliseconds.\<close>

definition positive_timeout :: "int option option \<Rightarrow> int option option \<Rightarrow> int \<Rightarrow> int" where
  "positive_timeout explicit env_value fallback =
     (case (case explicit of Some c \<Rightarrow> c | None \<Rightarrow> (case env_value of Some c \<Rightarrow> c | None \<Rightarrow> None)) of
        Some n \<Rightarrow> if 0 < n then n else fallback
      | None \<Rightarrow> fallback)"

definition default_idempotency_ttl_ms :: int where "default_idempotency_ttl_ms = 86400000"
definition default_turn_idle_timeout_ms :: int where "default_turn_idle_timeout_ms = 900000"
definition default_turn_max_ms :: int where "default_turn_max_ms = 21600000"
definition default_run_start_window_ms :: int where "default_run_start_window_ms = 120000"
definition default_drain_timeout_ms :: int where "default_drain_timeout_ms = 30000"
definition max_idempotency_key_length :: nat where "max_idempotency_key_length = 128"
definition activity_persist_interval_ms :: int where "activity_persist_interval_ms = 1000"

record manager_deps =
  md_idempotencyTtlMs :: "int option option"
  md_turnIdleTimeoutMs :: "int option option"
  md_turnMaxMs :: "int option option"
  md_runStartWindowMs :: "int option"
  md_hasQuiescence :: bool
  md_drainTimeoutMs :: "int option option"
  md_envIdle :: "int option option"
  md_envMax :: "int option option"

definition manager_env_of ::
  "receipt_env \<Rightarrow> (jsstr \<Rightarrow> jsstr) \<Rightarrow> completion_env \<Rightarrow> manager_deps \<Rightarrow> manager_env" where
  "manager_env_of store sha completion d =
     \<lparr> me_store = store, me_sha = sha, me_completion = completion,
       me_ttlMs = positive_timeout (md_idempotencyTtlMs d) None default_idempotency_ttl_ms,
       me_idleMs = positive_timeout (md_turnIdleTimeoutMs d) (md_envIdle d) default_turn_idle_timeout_ms,
       me_maxMs = positive_timeout (md_turnMaxMs d) (md_envMax d) default_turn_max_ms,
       me_startWindowMs = (case md_runStartWindowMs d of
          Some n \<Rightarrow> if 0 \<le> n then n else default_run_start_window_ms | None \<Rightarrow> default_run_start_window_ms),
       me_fence = md_hasQuiescence d,
       me_drainTimeoutMs = positive_timeout (md_drainTimeoutMs d) None default_drain_timeout_ms \<rparr>"

subsection \<open>State\<close>

record output_counts =
  oc_messages :: nat
  oc_blocks :: nat
  oc_chars :: nat
  oc_tools :: nat

record active_run =
  ar_sessionId :: json
  ar_runtime :: json
  ar_acceptedAtMs :: int
  ar_startedAtMs :: "int option"
  ar_lastActivityAtMs :: int
  ar_lastEligible :: "json option"
  ar_lastPersistedAtMs :: "int option"
  ar_lease :: "nat option"
  ar_shadow :: "shadow_state option"
  ar_output :: output_counts
  ar_finalText :: final_text
  ar_completionText :: final_text

record drain_entry =
  de_lease :: nat
  de_deadline :: int
  de_quarantined :: bool
  de_quarantinedAtMs :: "int option"
  de_sessionId :: json
  de_runtime :: json

datatype init_state = Not_Initialised | Init_Failed string | Initialised

text \<open>\<open>rm_retired\<close> keeps the records removed from \<open>activeRuns\<close>: a write queued before still sees them.\<close>

record run_manager =
  rm_store :: receipt_store
  rm_init :: init_state
  rm_active :: "(json, active_run) jsmap"
  rm_retired :: "(json, active_run) jsmap"
  rm_bySession :: "(json, json jsset) jsmap"
  rm_waiters :: "(json, nat jsset) jsmap"
  rm_draining :: "(json, drain_entry) jsmap"
  rm_stalled :: nat
  rm_watchdog :: bool
  rm_reconciler :: bool

definition run_manager_init :: "receipt_store \<Rightarrow> run_manager" where
  "run_manager_init s = \<lparr> rm_store = s, rm_init = Not_Initialised, rm_active = [], rm_retired = [], rm_bySession = [],
     rm_waiters = [], rm_draining = [], rm_stalled = 0, rm_watchdog = False, rm_reconciler = False \<rparr>"

datatype manager_effect =
    Accepted json
  | Finished json json "int option"
  | Release nat
  | Resolve nat js_object
  | Completion_Seen json js_object
  | Stalled js_object
  | Never_Started js_object

type_synonym 'a managed = "run_manager \<Rightarrow> (string + 'a) \<times> manager_effect list \<times> run_manager"

definition mret :: "'a \<Rightarrow> 'a managed" where
  "mret x m = (Inr x, [], m)"

definition mfail :: "string \<Rightarrow> 'a managed" where
  "mfail e m = (Inl e, [], m)"

definition mdo :: "manager_effect list \<Rightarrow> unit managed" where
  "mdo fx m = (Inr (), fx, m)"

definition mbind :: "'a managed \<Rightarrow> ('a \<Rightarrow> 'b managed) \<Rightarrow> 'b managed" where
  "mbind f g m =
     (case f m of
        (Inl e, fx, m1) \<Rightarrow> (Inl e, fx, m1)
      | (Inr x, fx, m1) \<Rightarrow> (case g x m1 of (r, fy, m2) \<Rightarrow> (r, fx @ fy, m2)))"

definition on_store :: "(receipt_store \<Rightarrow> 'a outcome) \<Rightarrow> 'a managed" where
  "on_store f m = (case f (rm_store m) of (r, s) \<Rightarrow> (r, [], m \<lparr> rm_store := s \<rparr>))"

definition manager_init :: "manager_env \<Rightarrow> receipt_io \<Rightarrow> int \<Rightarrow> unit managed" where
  "manager_init env io now m =
     (case rm_init m of
        Initialised \<Rightarrow> (Inr (), [], m \<lparr> rm_watchdog := True \<rparr>)
      | Init_Failed e \<Rightarrow> (Inl e, [], m)
      | Not_Initialised \<Rightarrow>
          (case init_store (me_store env) io now (rm_store m) of
             (Inr _, s) \<Rightarrow> (Inr (), [], m \<lparr> rm_store := s, rm_init := Initialised, rm_watchdog := True \<rparr>)
           | (Inl e, s) \<Rightarrow> (Inl e, [], m \<lparr> rm_store := s, rm_init := Init_Failed e \<rparr>)))"

abbreviation receipt_in :: "run_manager \<Rightarrow> json \<Rightarrow> js_object option" where
  "receipt_in m k \<equiv> get_receipt k (rm_store m)"

abbreviation iso_of :: "manager_env \<Rightarrow> int \<Rightarrow> json" where
  "iso_of env t \<equiv> JStr (ev_iso (me_store env) t)"

definition update_active :: "json \<Rightarrow> (active_run \<Rightarrow> active_run) \<Rightarrow> run_manager \<Rightarrow> run_manager" where
  "update_active k f m =
     (case jm_get (rm_active m) k of
        Some a \<Rightarrow> m \<lparr> rm_active := jm_set k (f a) (rm_active m) \<rparr>
      | None \<Rightarrow> m)"

subsection \<open>What a client sees\<close>

definition derive_work_state :: "json \<Rightarrow> json \<Rightarrow> string" where
  "derive_work_state status cessation =
     (if is_text ''failed'' status then ''failed''
      else if is_text ''cancelled'' status then ''cancelled''
      else if is_text ''interrupted'' status then ''interrupted''
      else if \<not> Receipt_Schema.one_of terminal_statuses status then ''running''
      else if is_text ''completed'' status \<and> is_text ''confirmed'' (prp cessation ''state'') then ''completed''
      else ''turn_ended_unconfirmed'')"

definition public_receipt :: "js_object \<Rightarrow> js_object" where
  "public_receipt r =
     (let p = delp ''requestFingerprint'' (delp ''idempotencyKeyDigest'' r);
          cessation = prp (getp p ''liveness'') ''cessation'';
          p1 = (if truthy cessation then putp ''cessation'' (JObj (spread cessation)) p else p) in
      putp ''workState'' (text_json (derive_work_state (getp p1 ''status'') cessation)) p1)"

subsection \<open>Identity of a request\<close>

record begin_input =
  bi_sessionId :: jsstr
  bi_runtime :: jsstr
  bi_executionInstanceId :: jsstr
  bi_model :: json
  bi_modelSelector :: json
  bi_message :: jsstr
  bi_mode :: jsstr
  bi_dispatchMode :: json
  bi_verbosity :: jsstr
  bi_detach :: bool
  bi_requireActiveTurn :: json
  bi_effort :: json
  bi_idempotencyKey :: json
  bi_shadow :: "js_object option"

definition validate_idempotency_key :: "json \<Rightarrow> string + jsstr" where
  "validate_idempotency_key value =
     (case value of
        JStr s \<Rightarrow>
          (let normalized = js_trim s in
           if normalized = [] then Inl ''idempotencyKey must not be empty''
           else if length normalized > max_idempotency_key_length then Inl ''idempotencyKey is too long''
           else if list_ex (\<lambda>c. c < 0x20 \<or> c = 0x7F) normalized then Inl ''idempotencyKey must not contain control characters''
           else Inr normalized)
      | _ \<Rightarrow> Inl ''idempotencyKey must be a string'')"

definition request_fingerprint :: "manager_env \<Rightarrow> begin_input \<Rightarrow> jsstr" where
  "request_fingerprint env input =
     me_sha env (stringify (JObj
       [(js ''message'', JStr (bi_message input)), (js ''mode'', JStr (bi_mode input)),
        (js ''verbosity'', JStr (bi_verbosity input)), (js ''effort'', bi_effort input),
        (js ''detach'', JBool (bi_detach input)),
        (js ''requireActiveTurn'', JBool (bi_requireActiveTurn input = JBool True))]))"

definition key_digest :: "manager_env \<Rightarrow> begin_input \<Rightarrow> jsstr \<Rightarrow> jsstr" where
  "key_digest env input key = me_sha env (bi_sessionId input @ [0] @ key)"

datatype begin_result = Created js_object | Duplicate js_object | Conflict js_object

definition find_existing_by_key :: "manager_env \<Rightarrow> int \<Rightarrow> jsstr \<Rightarrow> jsstr \<Rightarrow> run_manager \<Rightarrow> begin_result option" where
  "find_existing_by_key env now digest fingerprint m =
     (case find_by_idempotency (me_store env) digest now (rm_store m) of
        None \<Rightarrow> None
      | Some existing \<Rightarrow>
          Some (if getp existing ''requestFingerprint'' = JStr fingerprint
                then Duplicate (public_receipt existing) else Conflict (public_receipt existing)))"

definition optional_key :: "begin_input \<Rightarrow> string + jsstr option" where
  "optional_key input =
     (if bi_idempotencyKey input = JUndef then Inr None
      else case validate_idempotency_key (bi_idempotencyKey input) of Inl e \<Rightarrow> Inl e | Inr k \<Rightarrow> Inr (Some k))"

definition find_existing_run :: "manager_env \<Rightarrow> receipt_io \<Rightarrow> int \<Rightarrow> begin_input \<Rightarrow> begin_result option managed" where
  "find_existing_run env io now input =
     mbind (manager_init env io now) (\<lambda>_.
       case optional_key input of
         Inl e \<Rightarrow> mfail e
       | Inr None \<Rightarrow> mret None
       | Inr (Some key) \<Rightarrow>
           (\<lambda>m. mret (find_existing_by_key env now (key_digest env input key) (request_fingerprint env input) m) m))"

subsection \<open>\<open>beginRun\<close>\<close>

definition shadow_refusal :: "begin_input \<Rightarrow> string option" where
  "shadow_refusal input =
     (case bi_shadow input of
        None \<Rightarrow> None
      | Some shadow \<Rightarrow>
          if bi_runtime input \<noteq> js ''pi'' then Some ''Phase 7 shadow evidence is limited to Pi Internal API runs''
          else if prp (getp shadow ''affinity'') ''sessionId'' \<noteq> JStr (bi_sessionId input)
          then Some ''Phase 7 shadow affinity must match the run session''
          else if stringify (JObj shadow) \<noteq> stringify (JObj (classify_shadow (bi_sessionId input) (bi_message input)))
          then Some ''Phase 7 shadow evidence does not match the server classifier''
          else None)"

definition accepted_record :: "manager_env \<Rightarrow> int \<Rightarrow> begin_input \<Rightarrow> jsstr option \<Rightarrow> jsstr \<Rightarrow> js_object" where
  "accepted_record env now input keyDigest runId =
     [(js ''runId'', JStr runId), (js ''sessionId'', JStr (bi_sessionId input)), (js ''runtime'', JStr (bi_runtime input)),
      (js ''executionInstanceId'', JStr (bi_executionInstanceId input)), (js ''model'', bi_model input),
      (js ''modelSelector'', bi_modelSelector input), (js ''effort'', bi_effort input), (js ''mode'', JStr (bi_mode input)),
      (js ''dispatchMode'', nullish (bi_dispatchMode input) (JStr (bi_mode input))), (js ''status'', text_json ''accepted''),
      (js ''acceptedAt'', iso_of env now),
      (js ''liveness'', JObj [(js ''activityPolicyVersion'', text_json ''run-activity-v1''),
         (js ''idleTimeoutMs'', int_json (me_idleMs env)), (js ''absoluteTimeoutMs'', int_json (me_maxMs env)),
         (js ''cessation'', cessation_json ''unknown'' ''no_terminal_signal'' (ev_iso (me_store env) now))]),
      (js ''idempotencyExpiresAt'', case keyDigest of Some _ \<Rightarrow> iso_of env (now + me_ttlMs env) | None \<Rightarrow> JUndef),
      (js ''idempotencyKeyDigest'', case keyDigest of Some d \<Rightarrow> JStr d | None \<Rightarrow> JUndef),
      (js ''requestFingerprint'', case keyDigest of Some _ \<Rightarrow> JStr (request_fingerprint env input) | None \<Rightarrow> JUndef)]
     @ (case bi_shadow input of Some shadow \<Rightarrow> [(js ''phase7Shadow'', JObj shadow)] | None \<Rightarrow> [])"

definition stored_count :: "json \<Rightarrow> string \<Rightarrow> nat" where
  "stored_count v k = (case safe_int (prp v k) of Some n \<Rightarrow> nat n | None \<Rightarrow> 0)"

definition mutable_output_evidence :: "json \<Rightarrow> output_counts" where
  "mutable_output_evidence v =
     \<lparr> oc_messages = stored_count v ''assistantMessages'', oc_blocks = stored_count v ''assistantTextBlocks'',
       oc_chars = stored_count v ''assistantTextChars'', oc_tools = stored_count v ''toolCalls'' \<rparr>"

definition active_of :: "manager_env \<Rightarrow> js_object \<Rightarrow> int \<Rightarrow> active_run" where
  "active_of env r acceptedAtMs =
     \<lparr> ar_sessionId = getp r ''sessionId'', ar_runtime = getp r ''runtime'', ar_acceptedAtMs = acceptedAtMs,
       ar_startedAtMs = (if truthy (getp r ''startedAt'') then ev_dp (me_store env) (js_string (getp r ''startedAt'')) else None),
       ar_lastActivityAtMs = acceptedAtMs, ar_lastEligible = None, ar_lastPersistedAtMs = None, ar_lease = None,
       ar_shadow = (if truthy (getp r ''phase7Shadow'')
                    then Some (create_shadow (spread (getp r ''phase7Shadow'')) acceptedAtMs) else None),
       ar_output = mutable_output_evidence (getp r ''outputEvidence''),
       ar_finalText = final_text_init None, ar_completionText = final_text_init (Some completion_parse_window_chars) \<rparr>"

definition add_active :: "manager_env \<Rightarrow> js_object \<Rightarrow> int \<Rightarrow> run_manager \<Rightarrow> run_manager" where
  "add_active env r acceptedAtMs m =
     (let sid = getp r ''sessionId'';
          runs = (case jm_get (rm_bySession m) sid of Some s \<Rightarrow> s | None \<Rightarrow> []) in
      m \<lparr> rm_bySession := jm_set sid (js_add (run_id r) runs) (rm_bySession m),
          rm_active := jm_set (run_id r) (active_of env r acceptedAtMs) (rm_active m) \<rparr>)"

definition create_or_replay ::
  "manager_env \<Rightarrow> receipt_io \<Rightarrow> int \<Rightarrow> begin_input \<Rightarrow> jsstr option \<Rightarrow> jsstr \<Rightarrow> begin_result managed" where
  "create_or_replay env io now input keyDigest runId m =
     (case (case keyDigest of
              Some d \<Rightarrow> find_existing_by_key env now d (request_fingerprint env input) m | None \<Rightarrow> None) of
        Some existing \<Rightarrow> mret existing m
      | None \<Rightarrow>
          (let r = accepted_record env now input keyDigest runId in
           mbind (on_store (create_receipt (me_store env) io now r)) (\<lambda>_.
             mbind (mdo [Accepted (getp r ''runtime'')]) (\<lambda>_ m1.
               mret (Created (public_receipt r)) (add_active env r now m1))) m))"

definition begin_run :: "manager_env \<Rightarrow> receipt_io \<Rightarrow> int \<Rightarrow> begin_input \<Rightarrow> jsstr \<Rightarrow> begin_result managed" where
  "begin_run env io now input runId =
     (case shadow_refusal input of
        Some e \<Rightarrow> mfail e
      | None \<Rightarrow>
          mbind (manager_init env io now) (\<lambda>_.
            case optional_key input of
              Inl e \<Rightarrow> mfail e
            | Inr key \<Rightarrow> create_or_replay env io now input (map_option (key_digest env input) key) runId))"

definition attach_lease :: "json \<Rightarrow> nat \<Rightarrow> run_manager \<Rightarrow> run_manager" where
  "attach_lease k l = update_active k (\<lambda>a. a \<lparr> ar_lease := Some l \<rparr>)"

subsection \<open>Status updates\<close>

definition public_option :: "js_object option \<Rightarrow> js_object option" where
  "public_option = map_option public_receipt"

definition patch_run :: "manager_env \<Rightarrow> receipt_io \<Rightarrow> int \<Rightarrow> json \<Rightarrow> js_object \<Rightarrow> js_object option managed" where
  "patch_run env io now k patch =
     mbind (manager_init env io now) (\<lambda>_.
       mbind (on_store (patch_receipt (me_store env) io now k patch)) (\<lambda>r. mret (public_option r)))"

definition set_dispatch_mode :: "manager_env \<Rightarrow> receipt_io \<Rightarrow> int \<Rightarrow> json \<Rightarrow> jsstr \<Rightarrow> js_object option managed" where
  "set_dispatch_mode env io now k mode = patch_run env io now k [(js ''dispatchMode'', JStr mode)]"

definition record_served_model ::
  "manager_env \<Rightarrow> receipt_io \<Rightarrow> int \<Rightarrow> json \<Rightarrow> json \<Rightarrow> bool \<Rightarrow> js_object option managed" where
  "record_served_model env io now k servedModel rebound =
     patch_run env io now k [(js ''servedModel'', servedModel), (js ''modelRebound'', JBool rebound)]"

definition mark_queued :: "manager_env \<Rightarrow> receipt_io \<Rightarrow> int \<Rightarrow> json \<Rightarrow> js_object option managed" where
  "mark_queued env io now k =
     mbind (manager_init env io now) (\<lambda>_.
       mbind (on_store (transition (me_store env) io now k ''queued'' [] False)) (\<lambda>r. mret (Some (public_receipt r))))"

definition mark_started_unlocked :: "manager_env \<Rightarrow> receipt_io \<Rightarrow> int \<Rightarrow> json \<Rightarrow> js_object option managed" where
  "mark_started_unlocked env io now k m =
     (case receipt_in m k of
        None \<Rightarrow> mret None m
      | Some current \<Rightarrow>
          if is_terminal current \<or> is_text ''started'' (getp current ''status'')
          then mret (Some (public_receipt current)) m
          else
            mbind (on_store (transition (me_store env) io now k ''started''
                [(js ''startedAt'', nullish (getp current ''startedAt'') (iso_of env now))] False))
              (\<lambda>r m1. mret (Some (public_receipt r))
                 (update_active k (\<lambda>a. a \<lparr> ar_startedAtMs := Some now, ar_lastActivityAtMs := now \<rparr>) m1)) m)"

definition mark_started :: "manager_env \<Rightarrow> receipt_io \<Rightarrow> int \<Rightarrow> json \<Rightarrow> js_object option managed" where
  "mark_started env io now k = mbind (manager_init env io now) (\<lambda>_. mark_started_unlocked env io now k)"

subsection \<open>Output evidence\<close>

definition bounded_add :: "nat \<Rightarrow> nat \<Rightarrow> nat \<Rightarrow> nat" where
  "bounded_add current increment maximum = (if increment = 0 then current else min maximum (current + increment))"

definition observe_text :: "jsstr \<Rightarrow> output_counts \<Rightarrow> output_counts" where
  "observe_text t oc =
     (if t = [] then oc
      else oc \<lparr> oc_blocks := bounded_add (oc_blocks oc) 1 1000000, oc_chars := bounded_add (oc_chars oc) (length t) 10000000 \<rparr>)"

definition observe_output :: "js_object \<Rightarrow> output_counts \<Rightarrow> output_counts" where
  "observe_output event oc =
     (let data = as_record (getp event ''data'');
          type = getp event ''type'' in
      if is_text ''message_start'' type
      then
        if is_text ''assistant'' (prp (as_record (prp data ''message'')) ''role'')
        then oc \<lparr> oc_messages := bounded_add (oc_messages oc) 1 100000 \<rparr> else oc
      else if is_text ''tool_execution_start'' type
      then oc \<lparr> oc_tools := bounded_add (oc_tools oc) 1 100000 \<rparr>
      else if \<not> is_text ''message_update'' type then oc
      else
        let ame = as_record (prp data ''assistantMessageEvent'') in
        if ame = JUndef then oc
        else
          (case prp ame ''content'' of
             JArr blocks \<Rightarrow>
               foldl (\<lambda>oc b. case text_of_block b of Some t \<Rightarrow> observe_text t oc | None \<Rightarrow> oc) oc blocks
           | _ \<Rightarrow>
               if is_text ''text_delta'' (prp ame ''type'')
               then (case prp ame ''delta'' of JStr d \<Rightarrow> observe_text d oc | _ \<Rightarrow> oc) else oc))"

definition finalize_output_evidence :: "output_counts \<Rightarrow> bool \<Rightarrow> js_object" where
  "finalize_output_evidence oc terminalSignal =
     [(js ''policyVersion'', text_json ''run-output-v1''), (js ''source'', text_json ''normalized-events-v1''),
      (js ''assistantMessages'', JNum (nat_text (oc_messages oc))), (js ''assistantTextBlocks'', JNum (nat_text (oc_blocks oc))),
      (js ''assistantTextChars'', JNum (nat_text (oc_chars oc))), (js ''toolCalls'', JNum (nat_text (oc_tools oc))),
      (js ''disposition'', text_json (if terminalSignal then (if 0 < oc_chars oc then ''text'' else ''no-text'') else ''unknown''))]"

definition never_produced_work :: "active_run \<Rightarrow> bool" where
  "never_produced_work a \<longleftrightarrow> ar_lastEligible a = None
     \<and> oc_messages (ar_output a) = 0 \<and> oc_blocks (ar_output a) = 0
     \<and> oc_chars (ar_output a) = 0 \<and> oc_tools (ar_output a) = 0"

text \<open>The sorted keys are the five expected ones: there are five, and each expected one is among them.\<close>

definition usage_keys :: "string list" where
  "usage_keys = [''input'', ''output'', ''scope'', ''source'', ''total'']"

definition command_code_token_usage :: "js_object \<Rightarrow> json" where
  "command_code_token_usage event =
     (let v = as_record (prp (as_record (getp event ''data'')) ''tokenUsage'');
          ks = jm_keys (spread v) in
      if is_text ''agent_end'' (getp event ''type'') \<and> is_obj v
         \<and> length ks = length usage_keys \<and> list_all (\<lambda>k. js k \<in> set ks) usage_keys
         \<and> is_text ''run'' (prp v ''scope'') \<and> is_text ''commandcode-terminal-result-v1'' (prp v ''source'')
         \<and> list_all (count_upto (2 ^ 53 - 1)) [prp v ''input'', prp v ''output'', prp v ''total'']
         \<and> token_sum_ok v
      then JObj [(js ''scope'', text_json ''run''), (js ''source'', text_json ''commandcode-terminal-result-v1''),
                 (js ''input'', prp v ''input''), (js ''output'', prp v ''output''), (js ''total'', prp v ''total'')]
      else JUndef)"

definition terminal_provenance :: "js_object \<Rightarrow> js_object" where
  "terminal_provenance event =
     (let data = as_record (getp event ''data'');
          origin = (if prp data ''synthetic'' = JBool True then ''synthetic'' else ''runtime_or_adapter'') in
      [(js ''origin'', text_json origin)]
      @ (if is_text ''api_error_grace'' (prp data ''reason'') then [(js ''reason'', text_json ''api_error_grace'')] else []))"

subsection \<open>\<open>observeEvent\<close>\<close>

definition eligible_run_activity_types :: "string list" where
  "eligible_run_activity_types =
     [''agent_start'', ''agent_end'', ''turn_start'', ''turn_end'', ''message_start'', ''message_update'', ''message_end'',
      ''tool_execution_start'', ''tool_execution_update'', ''tool_execution_end'', ''error'', ''session_compaction'',
      ''permission_request'', ''extension_ui_request'', ''ask_user_question_request'', ''ask_user_question_closed'', ''api_error'']"

definition force_persist_activity_types :: "string list" where
  "force_persist_activity_types = [''extension_ui_request'', ''permission_request'', ''ask_user_question_request'']"

text \<open>\<open>new Date(t).toISOString()\<close> throws a \<open>RangeError\<close> outside the range of dates.\<close>

definition date_iso :: "manager_env \<Rightarrow> int \<Rightarrow> jsstr option" where
  "date_iso env t = (if \<bar>t\<bar> \<le> 8640000000000000 then Some (ev_iso (me_store env) t) else None)"

text \<open>The integer part of a finite number, from the text that \<open>String(n)\<close> prints.\<close>

definition int_part :: "jsstr \<Rightarrow> int" where
  "int_part t =
     (case integer_of_text t of
        Some n \<Rightarrow> n
      | None \<Rightarrow>
          if 101 \<notin> set t
          then (case integer_of_text (takeWhile (\<lambda>c. c \<noteq> 46) t) of Some n \<Rightarrow> n | None \<Rightarrow> 0)
          else if (case dropWhile (\<lambda>c. c \<noteq> 101) t of _ # c # _ \<Rightarrow> c = 45 | _ \<Rightarrow> False) then 0
          else if hd t = 45 then - (10 ^ 21) else 10 ^ 21)"

definition occurred_at :: "js_object \<Rightarrow> int \<Rightarrow> int" where
  "occurred_at event observedAtMs =
     (case getp event ''timestamp'' of JNum t \<Rightarrow> int_part t | _ \<Rightarrow> observedAtMs)"

datatype pending_write =
    Write_Activity json "json option" "js_object option" int
  | Write_Agent_End json "js_object option" int int js_object json bool

definition activity_json :: "json \<Rightarrow> jsstr \<Rightarrow> json \<Rightarrow> json" where
  "activity_json type occurredAt observedAt =
     JObj [(js ''eventType'', type), (js ''occurredAt'', JStr occurredAt), (js ''observedAt'', observedAt)]"

definition seen_by :: "js_object \<Rightarrow> active_run \<Rightarrow> active_run" where
  "seen_by event a =
     a \<lparr> ar_output := observe_output event (ar_output a),
         ar_finalText := final_text_observe event (ar_finalText a),
         ar_completionText := final_text_observe event (ar_completionText a),
         ar_shadow := map_option (observe_shadow event) (ar_shadow a) \<rparr>"

definition persistence_due :: "int \<Rightarrow> json \<Rightarrow> active_run \<Rightarrow> bool" where
  "persistence_due observedAtMs type a \<longleftrightarrow>
     (case ar_lastPersistedAtMs a of
        None \<Rightarrow> True
      | Some t \<Rightarrow> observedAtMs - t \<ge> activity_persist_interval_ms)
     \<or> Receipt_Schema.one_of force_persist_activity_types type"

definition shadow_to_persist :: "json \<Rightarrow> int \<Rightarrow> active_run \<Rightarrow> js_object option" where
  "shadow_to_persist type observedAtMs a =
     (if is_text ''tool_execution_start'' type \<or> is_text ''agent_end'' type
      then map_option (\<lambda>s. finalize_shadow s observedAtMs) (ar_shadow a) else None)"

text \<open>What \<open>observeEvent\<close> does to the run's record: the record, and the activity to write, or the \<open>RangeError\<close>.\<close>

definition note_activity ::
  "manager_env \<Rightarrow> int \<Rightarrow> js_object \<Rightarrow> active_run \<Rightarrow> (string + json option) \<times> active_run" where
  "note_activity env observedAtMs event a =
     (let type = getp event ''type'' in
      if \<not> Receipt_Schema.one_of eligible_run_activity_types type then (Inr None, a)
      else
        let a1 = a \<lparr> ar_lastActivityAtMs := observedAtMs \<rparr> in
        (case date_iso env (occurred_at event observedAtMs) of
           None \<Rightarrow> (Inl ''RangeError'', a1)
         | Some occurredAt \<Rightarrow>
             let act = activity_json type occurredAt (iso_of env observedAtMs);
                 a2 = a1 \<lparr> ar_lastEligible := Some act \<rparr> in
             (Inr (if persistence_due observedAtMs type a2 then Some act else None), a2)))"

definition put_active :: "json \<Rightarrow> active_run \<Rightarrow> run_manager \<Rightarrow> run_manager" where
  "put_active k a m = m \<lparr> rm_active := jm_set k a (rm_active m) \<rparr>"

definition usage_of_run :: "run_manager \<Rightarrow> json \<Rightarrow> js_object \<Rightarrow> json" where
  "usage_of_run m k event =
     (let commandcode = (case jm_get (rm_active m) k of Some a \<Rightarrow> is_text ''commandcode'' (ar_runtime a) | None \<Rightarrow> False)
            \<or> (case receipt_in m k of Some r \<Rightarrow> is_text ''commandcode'' (getp r ''runtime'') | None \<Rightarrow> False) in
      if commandcode then command_code_token_usage event else JUndef)"

definition observe_event ::
  "manager_env \<Rightarrow> int \<Rightarrow> json \<Rightarrow> js_object \<Rightarrow> run_manager \<Rightarrow> (string + pending_write option) \<times> run_manager" where
  "observe_event env now k event m =
     (let type = getp event ''type'';
          ending = is_text ''agent_end'' type;
          agent_end = (\<lambda>shadow hadActive. Some (Write_Agent_End k shadow (occurred_at event now) now
                        (terminal_provenance event) (usage_of_run m k event) hadActive)) in
      case jm_get (rm_active m) k of
        None \<Rightarrow> (Inr (if ending then agent_end None False else None), m)
      | Some a \<Rightarrow>
          (let a1 = seen_by event a;
               shadow = shadow_to_persist type now a1 in
           case note_activity env now event a1 of
             (Inl e, a2) \<Rightarrow> (Inl e, put_active k a2 m)
           | (Inr activity, a2) \<Rightarrow>
               if ending then (Inr (agent_end shadow True), put_active k a2 m)
               else if activity = None \<and> shadow = None then (Inr None, put_active k a2 m)
               else (Inr (Some (Write_Activity k activity shadow now)),
                     put_active k (if activity = None then a2 else a2 \<lparr> ar_lastPersistedAtMs := Some now \<rparr>) m)))"

definition completion_capture :: "manager_env \<Rightarrow> active_run \<Rightarrow> js_object" where
  "completion_capture env a =
     (case final_text_snapshot (ar_completionText a) of
        None \<Rightarrow> []
      | Some (txt, _) \<Rightarrow>
          if txt = [] then []
          else
            (case parse_completion_block (me_completion env) txt of
               Parsed block d \<Rightarrow>
                 [(js ''completion'', block),
                  (js ''completionDelimiter'', text_json (case d of By_Completion \<Rightarrow> ''completion'' | By_Json_Tag \<Rightarrow> ''json-tagged''))]
             | Failed code message path \<Rightarrow>
                 if code = ''NO_BLOCK'' then []
                 else [(js ''completionError'',
                        JObj ([(js ''code'', text_json code), (js ''message'', JStr message)]
                              @ (case path of Some p \<Rightarrow> [(js ''fieldPath'', JStr p)] | None \<Rightarrow> [])))]))"

text \<open>The writes behind the lock. An error is logged; an activity that was not written is due again.\<close>

definition activity_patch :: "js_object \<Rightarrow> json option \<Rightarrow> js_object option \<Rightarrow> js_object" where
  "activity_patch current activity shadow =
     (case activity of
        Some act \<Rightarrow> if truthy (getp current ''liveness'')
                    then [(js ''liveness'', JObj (putp ''lastEligibleActivity'' act (spread (getp current ''liveness''))))] else []
      | None \<Rightarrow> [])
     @ (case shadow of Some sh \<Rightarrow> [(js ''phase7Shadow'', JObj sh)] | None \<Rightarrow> [])"

definition forget_persisted :: "json \<Rightarrow> int \<Rightarrow> run_manager \<Rightarrow> run_manager" where
  "forget_persisted k t =
     update_active k (\<lambda>a. if ar_lastPersistedAtMs a = Some t then a \<lparr> ar_lastPersistedAtMs := None \<rparr> else a)"

definition write_activity ::
  "manager_env \<Rightarrow> receipt_io \<Rightarrow> int \<Rightarrow> json \<Rightarrow> json option \<Rightarrow> js_object option \<Rightarrow> int \<Rightarrow> run_manager \<Rightarrow> run_manager" where
  "write_activity env io now k activity shadow observedAtMs m =
     (case receipt_in m k of
        None \<Rightarrow> m
      | Some current \<Rightarrow>
          if is_terminal current \<or> activity_patch current activity shadow = [] then m
          else
            (case patch_receipt (me_store env) io now k (activity_patch current activity shadow) (rm_store m) of
               (Inr _, s) \<Rightarrow> m \<lparr> rm_store := s \<rparr>
             | (Inl _, s) \<Rightarrow>
                 if activity = None then m \<lparr> rm_store := s \<rparr> else forget_persisted k observedAtMs (m \<lparr> rm_store := s \<rparr>)))"

definition known_run :: "run_manager \<Rightarrow> json \<Rightarrow> active_run option" where
  "known_run m k = (case jm_get (rm_active m) k of Some a \<Rightarrow> Some a | None \<Rightarrow> jm_get (rm_retired m) k)"

definition agent_end_of ::
  "manager_env \<Rightarrow> jsstr \<Rightarrow> int \<Rightarrow> js_object \<Rightarrow> json \<Rightarrow> active_run option \<Rightarrow> agent_end" where
  "agent_end_of env occurredAt observedAtMs provenance usage run =
     \<lparr> ae_timestamp = occurredAt,
       ae_observation = JObj ([(js ''type'', text_json ''agent_end''), (js ''occurredAt'', JStr occurredAt),
         (js ''observedAt'', iso_of env observedAtMs)] @ provenance),
       ae_tokenUsage = usage,
       ae_outputEvidence = (case run of Some a \<Rightarrow> JObj (finalize_output_evidence (ar_output a) True) | None \<Rightarrow> JUndef),
       ae_finalText = (case run of Some a \<Rightarrow> final_text_snapshot (ar_finalText a) | None \<Rightarrow> None),
       ae_completion = (case run of Some a \<Rightarrow> JObj (completion_capture env a) | None \<Rightarrow> JUndef) \<rparr>"

definition write_agent_end ::
  "manager_env \<Rightarrow> receipt_io \<Rightarrow> int \<Rightarrow> json \<Rightarrow> js_object option \<Rightarrow> int \<Rightarrow> int \<Rightarrow> js_object \<Rightarrow> json \<Rightarrow> bool
     \<Rightarrow> run_manager \<Rightarrow> run_manager" where
  "write_agent_end env io now k shadow occurredAtMs observedAtMs provenance usage hadActive m =
     (let first = (case shadow of
              Some sh \<Rightarrow> patch_receipt (me_store env) io now k [(js ''phase7Shadow'', JObj sh)] (rm_store m)
            | None \<Rightarrow> (Inr None, rm_store m)) in
      case first of
        (Inl _, s) \<Rightarrow> m \<lparr> rm_store := s \<rparr>
      | (Inr _, s) \<Rightarrow>
          (case date_iso env occurredAtMs of
             None \<Rightarrow> m \<lparr> rm_store := s \<rparr>
           | Some occurredAt \<Rightarrow>
               m \<lparr> rm_store := snd (mark_agent_end (me_store env) io now k
                     (agent_end_of env occurredAt observedAtMs provenance usage (if hadActive then known_run m k else None)) s) \<rparr>))"

fun perform_write :: "manager_env \<Rightarrow> receipt_io \<Rightarrow> int \<Rightarrow> pending_write \<Rightarrow> run_manager \<Rightarrow> run_manager" where
  "perform_write env io now (Write_Activity k activity shadow t) m = write_activity env io now k activity shadow t m"
| "perform_write env io now (Write_Agent_End k shadow occurredAtMs t provenance usage hadActive) m =
     write_agent_end env io now k shadow occurredAtMs t provenance usage hadActive m"

subsection \<open>The end of a run\<close>

record finish_outcome =
  fo_status :: "string option"
  fo_errorCode :: "jsstr option"
  fo_outputEvidence :: json
  fo_stallReason :: "string option"
  fo_cessationBasis :: "string option"

definition plain_outcome :: finish_outcome where
  "plain_outcome = \<lparr> fo_status = None, fo_errorCode = None, fo_outputEvidence = JUndef, fo_stallReason = None,
     fo_cessationBasis = None \<rparr>"

definition error_json :: "jsstr option \<Rightarrow> json" where
  "error_json e = (case e of Some c \<Rightarrow> JStr c | None \<Rightarrow> JUndef)"

definition finish_status :: "finish_outcome \<Rightarrow> string" where
  "finish_status out =
     (case fo_status out of
        Some s \<Rightarrow> s
      | None \<Rightarrow> if truthy (error_json (fo_errorCode out)) then ''failed'' else ''completed'')"

definition watchdog_json :: "manager_env \<Rightarrow> string \<Rightarrow> jsstr option \<Rightarrow> json \<Rightarrow> json" where
  "watchdog_json env stallReason errorCode terminalAt =
     JObj ([(js ''reason'', text_json stallReason), (js ''decidedAt'', terminalAt),
            (js ''idleTimeoutMs'', int_json (me_idleMs env)), (js ''absoluteTimeoutMs'', int_json (me_maxMs env))]
           @ (if errorCode = Some (js ''NEVER_STARTED'')
              then [(js ''startWindowMs'', int_json (me_startWindowMs env))] else []))"

definition final_liveness ::
  "manager_env \<Rightarrow> int \<Rightarrow> finish_outcome \<Rightarrow> active_run option \<Rightarrow> json \<Rightarrow> json" where
  "final_liveness env now out run liveness =
     (let base = (case run of
              Some a \<Rightarrow> (case ar_lastEligible a of
                  Some act \<Rightarrow> putp ''lastEligibleActivity'' act (spread liveness) | None \<Rightarrow> spread liveness)
            | None \<Rightarrow> spread liveness) in
      JObj (case fo_stallReason out of
              Some stall \<Rightarrow>
                putp ''cessation'' (cessation_json ''unknown'' ''watchdog'' (ev_iso (me_store env) now))
                  (putp ''watchdog'' (watchdog_json env stall (fo_errorCode out) (iso_of env now)) base)
            | None \<Rightarrow>
                (case fo_cessationBasis out of
                   Some basis \<Rightarrow> putp ''cessation'' (cessation_json ''confirmed'' basis (ev_iso (me_store env) now)) base
                 | None \<Rightarrow> base)))"

definition when_truthy :: "string \<Rightarrow> json \<Rightarrow> js_object" where
  "when_truthy k v = (if truthy v then [(js k, v)] else [])"

definition final_shadow :: "int \<Rightarrow> active_run option \<Rightarrow> js_object \<Rightarrow> json" where
  "final_shadow now run current =
     (case run of
        Some a \<Rightarrow> (case ar_shadow a of Some s \<Rightarrow> JObj (finalize_shadow s now) | None \<Rightarrow> getp current ''phase7Shadow'')
      | None \<Rightarrow> getp current ''phase7Shadow'')"

definition final_evidence :: "finish_outcome \<Rightarrow> active_run option \<Rightarrow> js_object \<Rightarrow> json" where
  "final_evidence out run current =
     nullish (fo_outputEvidence out)
       (case run of
          Some a \<Rightarrow> JObj (finalize_output_evidence (ar_output a) (truthy (getp current ''agentEndAt'')))
        | None \<Rightarrow> getp current ''outputEvidence'')"

definition finish_patch ::
  "manager_env \<Rightarrow> int \<Rightarrow> finish_outcome \<Rightarrow> active_run option \<Rightarrow> js_object \<Rightarrow> js_object" where
  "finish_patch env now out run current =
     [(js ''errorCode'', error_json (fo_errorCode out)), (js ''terminalAt'', iso_of env now)]
     @ (case run of
          Some a \<Rightarrow> (case final_text_snapshot (ar_finalText a) of
              Some (txt, truncated) \<Rightarrow> [(js ''finalText'', JStr txt), (js ''finalTextTruncated'', JBool truncated)]
            | None \<Rightarrow> [])
        | None \<Rightarrow> [])
     @ (case run of Some a \<Rightarrow> completion_capture env a | None \<Rightarrow> [])
     @ (if truthy (getp current ''liveness'')
        then [(js ''liveness'', final_liveness env now out run (getp current ''liveness''))] else [])
     @ when_truthy ''outputEvidence'' (final_evidence out run current)
     @ when_truthy ''phase7Shadow'' (final_shadow now run current)"

definition elapsed_ms :: "manager_env \<Rightarrow> js_object \<Rightarrow> int option" where
  "elapsed_ms env r =
     (if \<not> truthy (getp r ''terminalAt'') then None
      else case (ev_dp (me_store env) (js_string (getp r ''acceptedAt'')), ev_dp (me_store env) (js_string (getp r ''terminalAt''))) of
             (Some s, Some e) \<Rightarrow> Some (max 0 (e - s))
           | _ \<Rightarrow> None)"

definition resolve_waiters :: "json \<Rightarrow> js_object \<Rightarrow> unit managed" where
  "resolve_waiters k receipt m =
     (case jm_get (rm_waiters m) k of
        None \<Rightarrow> (Inr (), [], m)
      | Some waiting \<Rightarrow> (Inr (), map (\<lambda>w. Resolve w receipt) waiting, m \<lparr> rm_waiters := jm_del k (rm_waiters m) \<rparr>))"

definition drain_and_release :: "manager_env \<Rightarrow> moment \<Rightarrow> json \<Rightarrow> json \<Rightarrow> nat \<Rightarrow> json \<Rightarrow> unit managed" where
  "drain_and_release env mo k sessionId lease runtime m =
     (Inr (), [], m \<lparr> rm_draining := jm_set k
        \<lparr> de_lease = lease, de_deadline = at_wall mo + me_drainTimeoutMs env, de_quarantined = False,
          de_quarantinedAtMs = None, de_sessionId = sessionId, de_runtime = runtime \<rparr> (rm_draining m) \<rparr>)"

definition forget_active :: "json \<Rightarrow> json \<Rightarrow> active_run \<Rightarrow> run_manager \<Rightarrow> run_manager" where
  "forget_active k sessionId a m =
     (let runs = map_option (js_remove k) (jm_get (rm_bySession m) sessionId) in
      m \<lparr> rm_active := jm_del k (rm_active m), rm_retired := jm_set k a (rm_retired m),
          rm_bySession := (case runs of
              None \<Rightarrow> rm_bySession m
            | Some [] \<Rightarrow> jm_del sessionId (rm_bySession m)
            | Some rs \<Rightarrow> jm_set sessionId rs (rm_bySession m)) \<rparr>)"

definition cessation_unconfirmed :: "js_object \<Rightarrow> bool" where
  "cessation_unconfirmed r \<longleftrightarrow> \<not> is_text ''confirmed'' (prp (prp (getp r ''liveness'') ''cessation'') ''state'')"

definition drains :: "manager_env \<Rightarrow> js_object \<Rightarrow> bool" where
  "drains env r \<longleftrightarrow> me_fence env \<and> cessation_unconfirmed r
     \<and> (is_text ''cancelled'' (getp r ''status'') \<or> is_text ''failed'' (getp r ''status''))"

definition let_go :: "manager_env \<Rightarrow> moment \<Rightarrow> js_object \<Rightarrow> nat option \<Rightarrow> unit managed" where
  "let_go env mo r lease =
     (case lease of
        None \<Rightarrow> mret ()
      | Some l \<Rightarrow>
          if drains env r then drain_and_release env mo (run_id r) (getp r ''sessionId'') l (getp r ''runtime'')
          else mdo [Release l])"

definition terminalize :: "manager_env \<Rightarrow> moment \<Rightarrow> js_object \<Rightarrow> unit managed" where
  "terminalize env mo r m =
     (case jm_get (rm_active m) (run_id r) of
        None \<Rightarrow> mret () m
      | Some a \<Rightarrow>
          mbind (mdo [Finished (getp r ''runtime'') (getp r ''status'') (elapsed_ms env r)]) (\<lambda>_.
            mbind (resolve_waiters (run_id r) (public_receipt r)) (\<lambda>_. let_go env mo r (ar_lease a)))
            (forget_active (run_id r) (getp r ''sessionId'') a m))"

definition fire_completion_listeners :: "json \<Rightarrow> js_object \<Rightarrow> unit managed" where
  "fire_completion_listeners k r =
     (if getp r ''completion'' = JUndef \<and> getp r ''completionError'' = JUndef then mret ()
      else mdo [Completion_Seen k (public_receipt r)])"

definition finish_started :: "manager_env \<Rightarrow> receipt_io \<Rightarrow> moment \<Rightarrow> json \<Rightarrow> finish_outcome \<Rightarrow> js_object option managed" where
  "finish_started env io mo k out m =
     (case receipt_in m k of
        None \<Rightarrow> mret None m
      | Some current \<Rightarrow>
          mbind (on_store (transition (me_store env) io (at_now mo) k (finish_status out)
                  (finish_patch env (at_now mo) out (jm_get (rm_active m) k) current) False)) (\<lambda>terminal.
            mbind (terminalize env mo terminal) (\<lambda>_.
              mbind (fire_completion_listeners k terminal) (\<lambda>_. mret (Some (public_receipt terminal))))) m)"

definition finish_unlocked :: "manager_env \<Rightarrow> receipt_io \<Rightarrow> moment \<Rightarrow> json \<Rightarrow> finish_outcome \<Rightarrow> js_object option managed" where
  "finish_unlocked env io mo k out m =
     (case receipt_in m k of
        None \<Rightarrow> mret None m
      | Some current \<Rightarrow>
          if is_terminal current then mret (Some (public_receipt current)) m
          else if finish_status out = ''completed'' \<and> \<not> is_text ''started'' (getp current ''status'')
          then mbind (mark_started_unlocked env io (at_now mo) k) (\<lambda>_. finish_started env io mo k out) m
          else finish_started env io mo k out m)"

definition finish :: "manager_env \<Rightarrow> receipt_io \<Rightarrow> moment \<Rightarrow> json \<Rightarrow> finish_outcome \<Rightarrow> js_object option managed" where
  "finish env io mo k out = mbind (manager_init env io (at_now mo)) (\<lambda>_. finish_unlocked env io mo k out)"

definition cancel_run :: "manager_env \<Rightarrow> receipt_io \<Rightarrow> moment \<Rightarrow> json \<Rightarrow> js_object option managed" where
  "cancel_run env io mo k = finish env io mo k (plain_outcome \<lparr> fo_status := Some ''cancelled'' \<rparr>)"

text \<open>The runs that \<open>cancelSession\<close> finishes, each under its own lock.\<close>

definition cancel_session_runs :: "json \<Rightarrow> run_manager \<Rightarrow> json list" where
  "cancel_session_runs sessionId m = (case jm_get (rm_bySession m) sessionId of Some rs \<Rightarrow> rs | None \<Rightarrow> [])"

definition reject_before_dispatch ::
  "manager_env \<Rightarrow> receipt_io \<Rightarrow> moment \<Rightarrow> json \<Rightarrow> string \<Rightarrow> jsstr \<Rightarrow> js_object option managed" where
  "reject_before_dispatch env io mo k status errorCode =
     mbind (manager_init env io (at_now mo)) (\<lambda>_ m.
       case receipt_in m k of
         None \<Rightarrow> mret None m
       | Some current \<Rightarrow>
           if is_terminal current
           then mbind (on_store (release_idempotency (me_store env) io (at_now mo) k)) (\<lambda>r. mret (public_option r)) m
           else
             let now = at_now mo;
                 patch = [(js ''errorCode'', JStr errorCode), (js ''terminalAt'', iso_of env now)]
                   @ (if truthy (getp current ''liveness'')
                      then [(js ''liveness'', JObj (putp ''cessation''
                              (cessation_json ''confirmed'' ''documented_handler_return'' (ev_iso (me_store env) now))
                              (spread (getp current ''liveness''))))] else []) in
             mbind (on_store (transition (me_store env) io now k status patch True)) (\<lambda>terminal.
               mbind (terminalize env mo terminal) (\<lambda>_. mret (Some (public_receipt terminal)))) m)"

definition wait_for_terminal :: "manager_env \<Rightarrow> receipt_io \<Rightarrow> int \<Rightarrow> json \<Rightarrow> nat \<Rightarrow> js_object option managed" where
  "wait_for_terminal env io now k w =
     mbind (manager_init env io now) (\<lambda>_ m.
       case receipt_in m k of
         None \<Rightarrow> mfail ''Run receipt not found'' m
       | Some current \<Rightarrow>
           if is_terminal current then mret (Some (public_receipt current)) m
           else
             let waiting = (case jm_get (rm_waiters m) k of Some waiting \<Rightarrow> waiting | None \<Rightarrow> []) in
             mret None (m \<lparr> rm_waiters := jm_set k (js_add w waiting) (rm_waiters m) \<rparr>))"

subsection \<open>Draining and quarantine\<close>

definition finish_run_drain :: "json \<Rightarrow> unit managed" where
  "finish_run_drain k m =
     (case jm_get (rm_draining m) k of
        None \<Rightarrow> mret () m
      | Some e \<Rightarrow> (Inr (), [Release (de_lease e)], m \<lparr> rm_draining := jm_del k (rm_draining m) \<rparr>))"

definition quarantine :: "int \<Rightarrow> json \<Rightarrow> run_manager \<Rightarrow> run_manager" where
  "quarantine now k m =
     (case jm_get (rm_draining m) k of
        None \<Rightarrow> m
      | Some e \<Rightarrow>
          if de_quarantined e then m
          else m \<lparr> rm_draining := jm_set k (e \<lparr> de_quarantined := True, de_quarantinedAtMs := Some now \<rparr>) (rm_draining m),
                   rm_reconciler := True \<rparr>)"

text \<open>The answer of a drain poll: quiescent or not, or \<open>None\<close> when the lookup failed.\<close>

definition drain_answer :: "moment \<Rightarrow> json \<Rightarrow> bool option \<Rightarrow> unit managed" where
  "drain_answer mo k answer m =
     (if answer = Some True then finish_run_drain k m
      else case jm_get (rm_draining m) k of
             Some e \<Rightarrow> if de_deadline e \<le> at_wall mo then mret () (quarantine (at_now mo) k m) else mret () m
           | None \<Rightarrow> mret () m)"

definition mark_quiescent :: "manager_env \<Rightarrow> receipt_io \<Rightarrow> int \<Rightarrow> json \<Rightarrow> js_object option managed" where
  "mark_quiescent env io now k =
     on_store (mark_resource_quiescent (me_store env) io now k (ev_iso (me_store env) now))"

definition reconcile_entry :: "manager_env \<Rightarrow> receipt_io \<Rightarrow> int \<Rightarrow> json \<Rightarrow> bool option \<Rightarrow> unit managed" where
  "reconcile_entry env io now k answer m =
     (case jm_get (rm_draining m) k of
        None \<Rightarrow> mret () m
      | Some e \<Rightarrow>
          if \<not> de_quarantined e \<or> answer \<noteq> Some True then mret () m
          else finish_run_drain k (snd (snd (mark_quiescent env io now k m))))"

definition reconcile_end :: "run_manager \<Rightarrow> run_manager" where
  "reconcile_end m =
     (if list_ex de_quarantined (jm_values (rm_draining m)) then m else m \<lparr> rm_reconciler := False \<rparr>)"

definition confirm_runtime_quiescent :: "manager_env \<Rightarrow> receipt_io \<Rightarrow> int \<Rightarrow> json \<Rightarrow> bool managed" where
  "confirm_runtime_quiescent env io now k m =
     (if \<not> jm_has (rm_draining m) k then mret False m
      else
        mbind (mark_quiescent env io now k) (\<lambda>persisted.
          case persisted of
            Some r \<Rightarrow>
              if is_text ''resource_quiescence'' (prp (prp (getp r ''liveness'') ''cessation'') ''basis'')
              then mbind (finish_run_drain k) (\<lambda>_. mret True)
              else mfail ''Failed to persist resource-quiescence evidence''
          | None \<Rightarrow> mfail ''Failed to persist resource-quiescence evidence'') m)"

definition leases_of :: "run_manager \<Rightarrow> nat list" where
  "leases_of m = List.map_filter ar_lease (jm_values (rm_active m)) @ map de_lease (jm_values (rm_draining m))"

definition shutdown :: "unit managed" where
  "shutdown m =
     (Inr (), map Release (leases_of m),
      m \<lparr> rm_active := [], rm_bySession := [], rm_waiters := [], rm_draining := [], rm_watchdog := False,
          rm_reconciler := rm_reconciler m \<and> \<not> rm_watchdog m \<rparr>)"

subsection \<open>The watchdog\<close>

definition live_receipt :: "run_manager \<Rightarrow> json \<Rightarrow> js_object option" where
  "live_receipt m k = (case receipt_in m k of Some r \<Rightarrow> if is_terminal r then None else Some r | None \<Rightarrow> None)"

text \<open>What a tick decides about one run: nothing, or the error code and stall reason it finishes it with.\<close>

definition watchdog_verdict :: "manager_env \<Rightarrow> int \<Rightarrow> json \<Rightarrow> run_manager \<Rightarrow> (string \<times> string) option" where
  "watchdog_verdict env now k m =
     (case jm_get (rm_active m) k of
        None \<Rightarrow> None
      | Some a \<Rightarrow>
          if 0 < me_startWindowMs env \<and> me_startWindowMs env \<le> now - ar_acceptedAtMs a \<and> never_produced_work a
          then (case live_receipt m k of
                  Some before \<Rightarrow> if is_text ''started'' (getp before ''status'') then Some (''NEVER_STARTED'', ''no_activity'') else None
                | None \<Rightarrow> None)
          else if \<not> me_idleMs env \<le> now - ar_lastActivityAtMs a \<and> \<not> me_maxMs env \<le> now - ar_acceptedAtMs a then None
          else if live_receipt m k = None then None
          else Some (''TURN_STALLED'',
                     if me_maxMs env \<le> now - ar_acceptedAtMs a then ''absolute''
                     else if never_produced_work a then ''no_activity'' else ''idle''))"

definition watchdog_finish :: "manager_env \<Rightarrow> receipt_io \<Rightarrow> moment \<Rightarrow> json \<Rightarrow> string \<times> string \<Rightarrow> unit managed" where
  "watchdog_finish env io mo k verdict m =
     (case finish env io mo k
             (plain_outcome \<lparr> fo_status := Some ''failed'', fo_errorCode := Some (js (fst verdict)),
                              fo_stallReason := Some (snd verdict) \<rparr>) m of
        (Inr (Some terminal), fx, m1) \<Rightarrow>
          if \<not> is_text (fst verdict) (getp terminal ''errorCode'') then (Inr (), fx, m1)
          else if fst verdict = ''TURN_STALLED''
          then (Inr (), fx @ [Stalled terminal], m1 \<lparr> rm_stalled := rm_stalled m1 + 1 \<rparr>)
          else (Inr (), fx @ [Never_Started terminal], m1)
      | (_, fx, m1) \<Rightarrow> (Inr (), fx, m1))"

subsection \<open>Queries\<close>

definition get_run :: "json \<Rightarrow> run_manager \<Rightarrow> js_object option" where
  "get_run k m = public_option (receipt_in m k)"

definition list_by_session :: "json \<Rightarrow> run_manager \<Rightarrow> js_object list" where
  "list_by_session sessionId m =
     map public_receipt (filter (\<lambda>r. strict_eq (getp r ''sessionId'') sessionId) (jm_values (rs_cache (rm_store m))))"

definition has_active_run :: "json \<Rightarrow> run_manager \<Rightarrow> bool" where
  "has_active_run sessionId m \<longleftrightarrow> cancel_session_runs sessionId m \<noteq> []"

definition list_nonterminal :: "run_manager \<Rightarrow> (json \<times> json \<times> json \<times> json) list" where
  "list_nonterminal m =
     map (\<lambda>r. (run_id r, getp r ''sessionId'', getp r ''runtime'', getp r ''status''))
       (filter (\<lambda>r. \<not> is_terminal r) (jm_values (rs_cache (rm_store m))))"

definition oldest_active_started :: "run_manager \<Rightarrow> int option" where
  "oldest_active_started m =
     foldl (\<lambda>oldest a. let candidate = (case ar_startedAtMs a of Some t \<Rightarrow> t | None \<Rightarrow> ar_acceptedAtMs a) in
              case oldest of None \<Rightarrow> Some candidate | Some t \<Rightarrow> Some (if candidate < t then candidate else t))
       None (jm_values (rm_active m))"

definition draining_count :: "run_manager \<Rightarrow> nat" where
  "draining_count m = length (rm_draining m)"

definition quarantined_count :: "run_manager \<Rightarrow> nat" where
  "quarantined_count m = length (filter de_quarantined (jm_values (rm_draining m)))"

definition has_draining_for_session :: "json \<Rightarrow> run_manager \<Rightarrow> bool" where
  "has_draining_for_session sessionId m \<longleftrightarrow>
     list_ex (\<lambda>e. strict_eq (de_sessionId e) sessionId) (jm_values (rm_draining m))"

definition quarantined_by_runtime :: "run_manager \<Rightarrow> (json, nat) jsmap" where
  "quarantined_by_runtime m =
     foldl (\<lambda>counts e. let runtime = nullish (de_runtime e) (text_json ''pi'');
                           n = (case jm_get counts runtime of Some n \<Rightarrow> n | None \<Rightarrow> 0) in
              jm_set runtime (n + 1) counts)
       [] (filter de_quarantined (jm_values (rm_draining m)))"

definition quarantined_oldest_age :: "int \<Rightarrow> run_manager \<Rightarrow> int option" where
  "quarantined_oldest_age now m =
     map_option (\<lambda>t. max 0 (now - t))
       (foldl (\<lambda>oldest e. case (de_quarantined e, de_quarantinedAtMs e) of
                 (True, Some t) \<Rightarrow> (case oldest of None \<Rightarrow> Some t | Some u \<Rightarrow> Some (if t < u then t else u))
               | _ \<Rightarrow> oldest)
         None (jm_values (rm_draining m)))"

end
