(* ===== verification/Run_Leases.thy ===== *)
theory Run_Leases
  imports Run_Manager "HOL-Library.Multiset"
begin

text \<open>
  The admission leases of the run receipt manager over all runs of its operations. A lease is held by an active
  run, or by a draining one until there is evidence that the runtime has stopped, or it has been released.

  \<^item> \<open>manager_step\<close> is one operation or one answer of the environment, \<open>manager_run\<close> a sequence of them.
  \<^item> The locale \<open>lease_contract\<close> is what the operations have in common: a relation between the states before
    and after that is transitive, holds when no lease moves, and holds of the one place where a lease moves
    from an active run. Everything but the drain answers is proved once against it. It is
    interpreted twice: leases are conserved, and draining leases stay.
\<close>

subsection \<open>Steps\<close>

datatype manager_event =
    Ev_Begin begin_input jsstr
  | Ev_Find begin_input
  | Ev_Attach json nat
  | Ev_Queued json
  | Ev_Started json
  | Ev_Dispatch_Mode json jsstr
  | Ev_Served_Model json json bool
  | Ev_Observe json js_object
  | Ev_Write pending_write
  | Ev_Finish json finish_outcome
  | Ev_Reject json string jsstr
  | Ev_Wait json nat
  | Ev_Watchdog json "string \<times> string"
  | Ev_Drain_Answer json "bool option"
  | Ev_Reconcile json "bool option"
  | Ev_Reconcile_End
  | Ev_Confirm json
  | Ev_Shutdown

fun manager_step ::
  "manager_env \<Rightarrow> receipt_io \<Rightarrow> moment \<Rightarrow> manager_event \<Rightarrow> run_manager \<Rightarrow> manager_effect list \<times> run_manager" where
  "manager_step env io mo (Ev_Begin input rid) m = snd (begin_run env io (at_now mo) input rid m)"
| "manager_step env io mo (Ev_Find input) m = snd (find_existing_run env io (at_now mo) input m)"
| "manager_step env io mo (Ev_Attach k l) m = ([], attach_lease k l m)"
| "manager_step env io mo (Ev_Queued k) m = snd (mark_queued env io (at_now mo) k m)"
| "manager_step env io mo (Ev_Started k) m = snd (mark_started env io (at_now mo) k m)"
| "manager_step env io mo (Ev_Dispatch_Mode k mode) m = snd (set_dispatch_mode env io (at_now mo) k mode m)"
| "manager_step env io mo (Ev_Served_Model k v b) m = snd (record_served_model env io (at_now mo) k v b m)"
| "manager_step env io mo (Ev_Observe k event) m = ([], snd (observe_event env (at_now mo) k event m))"
| "manager_step env io mo (Ev_Write w) m = ([], perform_write env io (at_now mo) w m)"
| "manager_step env io mo (Ev_Finish k out) m = snd (finish env io mo k out m)"
| "manager_step env io mo (Ev_Reject k status code) m = snd (reject_before_dispatch env io mo k status code m)"
| "manager_step env io mo (Ev_Wait k w) m = snd (wait_for_terminal env io (at_now mo) k w m)"
| "manager_step env io mo (Ev_Watchdog k verdict) m = snd (watchdog_finish env io mo k verdict m)"
| "manager_step env io mo (Ev_Drain_Answer k answer) m = snd (drain_answer mo k answer m)"
| "manager_step env io mo (Ev_Reconcile k answer) m = snd (reconcile_entry env io (at_now mo) k answer m)"
| "manager_step env io mo Ev_Reconcile_End m = ([], reconcile_end m)"
| "manager_step env io mo (Ev_Confirm k) m = snd (confirm_runtime_quiescent env io (at_now mo) k m)"
| "manager_step env io mo Ev_Shutdown m = snd (shutdown m)"

fun manager_run ::
  "manager_env \<Rightarrow> (receipt_io \<times> moment \<times> manager_event) list \<Rightarrow> run_manager \<Rightarrow> manager_effect list \<times> run_manager" where
  "manager_run env [] m = ([], m)"
| "manager_run env ((io, mo, ev) # evs) m =
     (case manager_step env io mo ev m of (fx, m1) \<Rightarrow> (case manager_run env evs m1 of (fy, m2) \<Rightarrow> (fx @ fy, m2)))"

fun released_lease :: "manager_effect \<Rightarrow> nat option" where
  "released_lease (Release l) = Some l"
| "released_lease _ = None"

definition releases :: "manager_effect list \<Rightarrow> nat list" where
  "releases fx = List.map_filter released_lease fx"

lemma releases_append [simp]: "releases (fx @ fy) = releases fx @ releases fy"
  by (simp add: releases_def List.map_filter_def)

lemma releases_simps [simp]:
  "releases [] = []" "releases (Release l # fx) = l # releases fx" "releases (Accepted r # fx) = releases fx"
  "releases (Finished r st e # fx) = releases fx" "releases (Resolve w p # fx) = releases fx"
  "releases (Completion_Seen k p # fx) = releases fx" "releases (Stalled p # fx) = releases fx"
  "releases (Never_Started p # fx) = releases fx" "releases (map (\<lambda>w. Resolve w p) waiting) = []"
  by (simp_all add: releases_def List.map_filter_simps) (induction waiting; simp add: List.map_filter_simps)

subsection \<open>Where the leases are\<close>

definition lease_view :: "run_manager \<Rightarrow> (json \<times> nat option) list \<times> (json \<times> nat) list" where
  "lease_view m = (map (\<lambda>(k, a). (k, ar_lease a)) (rm_active m), map (\<lambda>(k, e). (k, de_lease e)) (rm_draining m))"

lemma map_jm_set_same:
  "jm_get M k = Some a \<Longrightarrow> g b = g a \<Longrightarrow> map (\<lambda>(k, v). (k, g v)) (jm_set k b M) = map (\<lambda>(k, v). (k, g v)) M"
  by (induction M) (auto split: if_splits)

lemma lease_view_put_active:
  "jm_get (rm_active m) k = Some a \<Longrightarrow> ar_lease b = ar_lease a \<Longrightarrow> lease_view (put_active k b m) = lease_view m"
  using map_jm_set_same [of "rm_active m" k a ar_lease b] by (simp add: lease_view_def put_active_def)

lemma lease_view_update_active:
  "(\<And>a. ar_lease (f a) = ar_lease a) \<Longrightarrow> lease_view (update_active k f m) = lease_view m"
  using lease_view_put_active [of m k _ "f _"]
  by (auto simp: update_active_def put_active_def split: option.split)

lemma lease_view_simps [simp]:
  "lease_view (m \<lparr> rm_store := s \<rparr>) = lease_view m" "lease_view (m \<lparr> rm_init := i \<rparr>) = lease_view m"
  "lease_view (m \<lparr> rm_watchdog := b \<rparr>) = lease_view m" "lease_view (m \<lparr> rm_reconciler := b \<rparr>) = lease_view m"
  "lease_view (m \<lparr> rm_waiters := w \<rparr>) = lease_view m" "lease_view (m \<lparr> rm_stalled := n \<rparr>) = lease_view m"
  by (simp_all add: lease_view_def)

text \<open>Every step that is not about a new run, a new lease, a drain or the end of the process.\<close>

fun moves_no_drain :: "manager_event \<Rightarrow> bool" where
  "moves_no_drain (Ev_Begin _ _) = False"
| "moves_no_drain (Ev_Attach _ _) = False"
| "moves_no_drain (Ev_Drain_Answer _ _) = False"
| "moves_no_drain (Ev_Reconcile _ _) = False"
| "moves_no_drain (Ev_Confirm _) = False"
| "moves_no_drain Ev_Shutdown = False"
| "moves_no_drain _ = True"

locale lease_contract =
  fixes holds :: "run_manager \<Rightarrow> manager_effect list \<Rightarrow> run_manager \<Rightarrow> bool"
  assumes silent: "lease_view m' = lease_view m \<Longrightarrow> releases fx = [] \<Longrightarrow> holds m fx m'"
    and then_holds: "holds m fx m1 \<Longrightarrow> holds m1 fy m2 \<Longrightarrow> holds m (fx @ fy) m2"
    and lets_go: "jm_get (rm_active m) (run_id r) = Some a
      \<Longrightarrow> lease_view m1 = lease_view (forget_active (run_id r) sid a m)
      \<Longrightarrow> let_go env mo r (ar_lease a) m1 = (res, fx, m') \<Longrightarrow> holds m fx m'"
begin

definition kept :: "run_manager \<Rightarrow> (string + 'a) \<times> manager_effect list \<times> run_manager \<Rightarrow> bool" where
  "kept m r \<longleftrightarrow> holds m (fst (snd r)) (snd (snd r))"

lemma kept_silent: "lease_view (snd (snd r)) = lease_view m \<Longrightarrow> releases (fst (snd r)) = [] \<Longrightarrow> kept m r"
  unfolding kept_def by (rule silent)

lemma kept_snd: "kept m r \<Longrightarrow> snd r = (fx, m') \<Longrightarrow> holds m fx m'"
  by (simp add: kept_def)

lemma kept_mbind:
  assumes "kept m (f m)" and "\<And>x m1. kept m1 (g x m1)"
  shows "kept m (mbind f g m)"
proof (cases "f m")
  case (fields r fx m1)
  have f: "holds m fx m1" using assms(1) by (simp add: fields kept_def)
  show ?thesis
  proof (cases r)
    case (Inr x)
    obtain r2 fy m2 where g: "g x m1 = (r2, fy, m2)" by (cases "g x m1")
    have "holds m1 fy m2" using assms(2) [of m1 x] by (simp add: g kept_def)
    with f show ?thesis by (simp add: mbind_def fields Inr g then_holds kept_def)
  qed (simp add: mbind_def fields f kept_def)
qed

lemma kept_mret: "kept m (mret x m)" and kept_mfail: "kept m (mfail e m)" and kept_on_store: "kept m (on_store f m)"
  by (rule kept_silent; simp add: mret_def mfail_def on_store_def split: prod.split)+

lemma kept_mdo: "releases fx = [] \<Longrightarrow> kept m (mdo fx m)"
  by (rule kept_silent) (simp_all add: mdo_def)

lemma kept_init: "kept m (manager_init env io now m)"
  by (rule kept_silent) (simp_all add: manager_init_def split: init_state.split prod.split sum.split)

lemmas kept_basic = kept_mbind kept_mret kept_mfail kept_on_store kept_init

lemma kept_patch_run: "kept m (patch_run env io now k patch m)"
  unfolding patch_run_def by (intro kept_basic)

lemma kept_mark_queued: "kept m (mark_queued env io now k m)"
  unfolding mark_queued_def by (intro kept_basic)

lemma kept_started_unlocked: "kept m (mark_started_unlocked env io now k m)"
proof -
  have "kept m1 (mret (Some (public_receipt r)) (update_active k (\<lambda>a. a \<lparr> ar_startedAtMs := Some now, ar_lastActivityAtMs := now \<rparr>) m1))"
    for r m1 by (rule kept_silent) (simp_all add: mret_def lease_view_update_active)
  then show ?thesis unfolding mark_started_unlocked_def by (auto split: option.split intro!: kept_basic)
qed

lemma kept_mark_started: "kept m (mark_started env io now k m)"
  unfolding mark_started_def by (intro kept_basic kept_started_unlocked)

lemma kept_fire: "kept m (fire_completion_listeners k r m)"
  unfolding fire_completion_listeners_def by (auto intro: kept_mdo kept_mret)

lemma kept_terminalize: "kept m (terminalize env mo r m)"
proof (cases "jm_get (rm_active m) (run_id r)")
  case None
  then show ?thesis by (simp add: terminalize_def kept_mret)
next
  case (Some a)
  let ?m = "forget_active (run_id r) (getp r ''sessionId'') a m"
  let ?done = "Finished (getp r ''runtime'') (getp r ''status'') (elapsed_ms env r)"
  obtain r1 fx m1 where res: "resolve_waiters (run_id r) (public_receipt r) ?m = (r1, fx, m1)"
    by (cases "resolve_waiters (run_id r) (public_receipt r) ?m")
  have v: "lease_view m1 = lease_view ?m" "releases fx = []" "r1 = Inr ()"
    using res by (auto simp: resolve_waiters_def split: option.splits)
  obtain r2 fy m2 where lg: "let_go env mo r (ar_lease a) m1 = (r2, fy, m2)" by (cases "let_go env mo r (ar_lease a) m1")
  have "holds m (?done # fx) m" by (rule silent) (simp_all add: v)
  moreover have "holds m fy m2" by (rule lets_go [OF Some v(1) lg])
  ultimately have "holds m ((?done # fx) @ fy) m2" by (rule then_holds)
  then show ?thesis by (simp add: terminalize_def Some mbind_def mdo_def res v lg kept_def)
qed

lemma kept_finish_started: "kept m (finish_started env io mo k out m)"
  unfolding finish_started_def by (auto split: option.split intro!: kept_basic kept_terminalize kept_fire)

lemma kept_finish_unlocked: "kept m (finish_unlocked env io mo k out m)"
  unfolding finish_unlocked_def
  by (auto split: option.split intro!: kept_mbind kept_mret kept_started_unlocked kept_finish_started)

lemma kept_finish: "kept m (finish env io mo k out m)"
  unfolding finish_def by (intro kept_basic kept_finish_unlocked)

lemma kept_reject: "kept m (reject_before_dispatch env io mo k status code m)"
  unfolding reject_before_dispatch_def Let_def
  by (intro kept_mbind kept_init) (auto split: option.split intro!: kept_basic kept_terminalize)

lemma kept_wait: "kept m (wait_for_terminal env io now k w m)"
proof -
  have "kept m1 (mret None (m1 \<lparr> rm_waiters := w' \<rparr>) :: (string + js_object option) \<times> _)" for m1 w'
    by (rule kept_silent) (simp_all add: mret_def)
  then show ?thesis
    unfolding wait_for_terminal_def Let_def
    by (intro kept_mbind kept_init) (auto split: option.split intro!: kept_mret kept_mfail)
qed

lemma kept_find: "kept m (find_existing_run env io now input m)"
  unfolding find_existing_run_def
  by (intro kept_mbind kept_init) (auto split: sum.split option.split intro!: kept_mret kept_mfail)

lemma kept_watchdog: "kept m (watchdog_finish env io mo k verdict m)"
proof -
  let ?out = "plain_outcome \<lparr> fo_status := Some ''failed'', fo_errorCode := Some (js (fst verdict)),
                fo_stallReason := Some (snd verdict) \<rparr>"
  obtain r fx m1 where f: "finish env io mo k ?out m = (r, fx, m1)" by (cases "finish env io mo k ?out m")
  have h: "holds m fx m1" using kept_finish [of m env io mo k ?out] by (simp add: f kept_def)
  have "holds m1 [Stalled t] (m1 \<lparr> rm_stalled := n \<rparr>)" "holds m1 [Never_Started t] m1" for t n
    by (rule silent; simp)+
  from h then_holds [OF h this(1)] then_holds [OF h this(2)] show ?thesis
    by (auto simp: watchdog_finish_def f kept_def split: sum.split option.split)
qed

lemma lease_view_observe: "lease_view (snd (observe_event env now k event m)) = lease_view m"
proof (cases "jm_get (rm_active m) k")
  case (Some a)
  have "ar_lease (snd (note_activity env now event b)) = ar_lease b" for b
    by (simp add: note_activity_def Let_def split: option.split)
  from this [of "seen_by event a"] have "ar_lease (snd (note_activity env now event (seen_by event a))) = ar_lease a"
    by (simp add: seen_by_def)
  then show ?thesis
    by (auto simp: observe_event_def Let_def Some lease_view_put_active split: prod.splits sum.split)
qed (simp add: observe_event_def Let_def)

lemma lease_view_forget: "lease_view (forget_persisted k t m) = lease_view m"
  unfolding forget_persisted_def by (rule lease_view_update_active) simp

lemma lease_view_write: "lease_view (perform_write env io now w m) = lease_view m"
  by (cases w)
     (auto simp: write_activity_def write_agent_end_def Let_def lease_view_forget split: option.split prod.split sum.split)

lemma holds_step: "moves_no_drain ev \<Longrightarrow> manager_step env io mo ev m = (fx, m') \<Longrightarrow> holds m fx m'"
proof (cases ev)
  case (Ev_Observe k event)
  then show "manager_step env io mo ev m = (fx, m') \<Longrightarrow> holds m fx m'"
    using silent [of m' m "[]"] lease_view_observe [of env "at_now mo" k event m] by auto
next
  case (Ev_Write w)
  then show "manager_step env io mo ev m = (fx, m') \<Longrightarrow> holds m fx m'"
    using silent [of m' m "[]"] lease_view_write [of env io "at_now mo" w m] by auto
next
  case Ev_Reconcile_End
  then show "manager_step env io mo ev m = (fx, m') \<Longrightarrow> holds m fx m'"
    using silent [of m' m "[]"] by (auto simp: reconcile_end_def split: if_splits)
qed (auto simp: set_dispatch_mode_def record_served_model_def
       intro: kept_snd [OF kept_find] kept_snd [OF kept_mark_queued] kept_snd [OF kept_mark_started] kept_snd [OF kept_patch_run]
         kept_snd [OF kept_finish] kept_snd [OF kept_reject] kept_snd [OF kept_wait] kept_snd [OF kept_watchdog])

end

subsection \<open>Leases are conserved\<close>

lemma leases_of_view: "leases_of m = List.map_filter snd (fst (lease_view m)) @ map snd (snd (lease_view m))"
  by (simp add: leases_of_def lease_view_def List.map_filter_def filter_map comp_def case_prod_beta)

definition lease_ok :: "run_manager \<Rightarrow> bool" where
  "lease_ok m \<longleftrightarrow> distinct (map fst (fst (lease_view m)) @ map fst (snd (lease_view m)))"

lemma lease_ok_keys:
  "lease_ok m \<longleftrightarrow> distinct (jm_keys (rm_active m)) \<and> distinct (jm_keys (rm_draining m))
     \<and> set (jm_keys (rm_active m)) \<inter> set (jm_keys (rm_draining m)) = {}"
  by (simp add: lease_ok_def lease_view_def comp_def case_prod_beta)

lemma lease_ok_init: "lease_ok (run_manager_init s)"
  by (simp add: lease_ok_keys run_manager_init_def)

lemma map_jm_del: "map (\<lambda>(k, v). (k, g v)) (jm_del k M) = jm_del k (map (\<lambda>(k, v). (k, g v)) M)"
  by (induction M) (auto simp: jm_del_def)

lemma map_jm_set: "map (\<lambda>(k, v). (k, g v)) (jm_set k v M) = jm_set k (g v) (map (\<lambda>(k, v). (k, g v)) M)"
  by (induction M) auto

lemma jm_del_absent: "k \<notin> set (map fst M) \<Longrightarrow> jm_del k M = M"
  by (induction M) (auto simp: jm_del_def)

lemma map_filter_del:
  "distinct (map fst A) \<Longrightarrow> jm_get A k = Some x
   \<Longrightarrow> mset (List.map_filter snd A) = mset (List.map_filter snd (jm_del k A)) + (case x of None \<Rightarrow> {#} | Some l \<Rightarrow> {#l#})"
proof (induction A)
  case (Cons a A)
  show ?case
  proof (cases "fst a = k")
    case True
    with Cons.prems have "k \<notin> set (map fst A)" by auto
    from jm_del_absent [OF this] have "jm_del k (a # A) = A" by (simp add: jm_del_def True)
    then show ?thesis using Cons.prems True by (auto simp: List.map_filter_simps split: option.split)
  next
    case False
    with Cons have "mset (List.map_filter snd A) = mset (List.map_filter snd (jm_del k A)) + (case x of None \<Rightarrow> {#} | Some l \<Rightarrow> {#l#})"
      by (cases a) auto
    moreover have "jm_del k (a # A) = a # jm_del k A" using False by (simp add: jm_del_def)
    ultimately show ?thesis by (auto simp: List.map_filter_simps split: option.split)
  qed
qed simp

lemma mset_drain_del:
  "distinct (map fst D) \<Longrightarrow> jm_get D k = Some l \<Longrightarrow> mset (map snd D) = mset (map snd (jm_del k D)) + {#l#}"
proof (induction D)
  case (Cons d D)
  show ?case
  proof (cases "fst d = k")
    case True
    with Cons.prems have "k \<notin> set (map fst D)" by auto
    from jm_del_absent [OF this] have "jm_del k (d # D) = D" by (simp add: jm_del_def True)
    then show ?thesis using Cons.prems True by auto
  next
    case False
    with Cons show ?thesis by (cases d) (auto simp: jm_del_def)
  qed
qed simp

lemma jm_get_view:
  "jm_get (fst (lease_view m)) k = map_option ar_lease (jm_get (rm_active m) k)"
  "jm_get (snd (lease_view m)) k = map_option de_lease (jm_get (rm_draining m) k)"
  by (simp_all add: lease_view_def map_of_map)

lemma lease_view_forget_active:
  "lease_view (forget_active k sid a m) = (jm_del k (fst (lease_view m)), snd (lease_view m))"
  by (simp add: forget_active_def Let_def lease_view_def map_jm_del)

lemma let_go_cases:
  "let_go env mo r lease m1 = (res, fx, m') \<Longrightarrow>
     (case lease of
        None \<Rightarrow> releases fx = [] \<and> lease_view m' = lease_view m1
      | Some l \<Rightarrow> if drains env r then releases fx = [] \<and> lease_view m' = (fst (lease_view m1), jm_set (run_id r) l (snd (lease_view m1)))
                  else releases fx = [l] \<and> lease_view m' = lease_view m1)"
  by (auto simp: let_go_def mret_def mdo_def drain_and_release_def lease_view_def map_jm_set split: option.split if_splits)

definition conserves :: "run_manager \<Rightarrow> manager_effect list \<Rightarrow> run_manager \<Rightarrow> bool" where
  "conserves m fx m' \<longleftrightarrow> (lease_ok m \<longrightarrow>
     lease_ok m' \<and> mset (leases_of m') + mset (releases fx) = mset (leases_of m))"

lemma moved:
  assumes "jm_get (rm_active m) (run_id r) = Some a" and "lease_view m1 = lease_view (forget_active (run_id r) sid a m)"
    and "let_go env mo r (ar_lease a) m1 = (res, fx, m')" and ok: "lease_ok m"
  shows "lease_ok m'" and "mset (leases_of m') + mset (releases fx) = mset (leases_of m)"
    and "set (snd (lease_view m)) \<subseteq> set (snd (lease_view m'))"
proof -
  let ?k = "run_id r"
  obtain A D where v: "lease_view m = (A, D)" by (cases "lease_view m")
  have A: "jm_get A ?k = Some (ar_lease a)" using jm_get_view(1) [of m ?k] assms(1) v by simp
  have d: "distinct (map fst A @ map fst D)" using ok v by (simp add: lease_ok_def)
  have k: "?k \<in> set (map fst A)" using A by (force dest: map_of_SomeD)
  with d have kD: "?k \<notin> set (map fst D)" by auto
  have m1: "lease_view m1 = (jm_del ?k A, D)" using assms(2) v by (simp add: lease_view_forget_active)
  have f: "mset (List.map_filter snd A) = mset (List.map_filter snd (jm_del ?k A))
      + (case ar_lease a of None \<Rightarrow> {#} | Some l \<Rightarrow> {#l#})"
    using d A by (intro map_filter_del) auto
  have d1: "distinct (map fst (jm_del ?k A))" "?k \<notin> set (map fst (jm_del ?k A))"
      "set (map fst (jm_del ?k A)) \<subseteq> set (map fst A)"
    using d by (auto simp: jm_keys_del)
  have dd: "distinct (map fst (jm_del ?k A) @ map fst D)"
    using d d1(1,3) unfolding distinct_append by blast
  note c = let_go_cases [OF assms(3)]
  show "lease_ok m'"
    using c dd d1(2) kD m1 by (simp add: lease_ok_def jm_set_append_iff split: option.splits if_splits)
  show "mset (leases_of m') + mset (releases fx) = mset (leases_of m)"
    using c f kD m1 v by (auto simp: leases_of_view jm_set_append_iff split: option.splits if_splits)
  show "set (snd (lease_view m)) \<subseteq> set (snd (lease_view m'))"
    using c kD m1 v by (auto simp: jm_set_append_iff split: option.splits if_splits)
qed

interpretation conserved: lease_contract conserves
proof unfold_locales
  show "conserves m fx m'" if "lease_view m' = lease_view m" "releases fx = []" for m fx m'
    using that by (simp add: conserves_def lease_ok_def leases_of_view)
  show "conserves m (fx @ fy) m2" if "conserves m fx m1" "conserves m1 fy m2" for m fx m1 fy m2
    using that by (auto simp: conserves_def) (metis add.assoc add.commute)
qed (auto simp: conserves_def moved)

definition drain_stays :: "run_manager \<Rightarrow> manager_effect list \<Rightarrow> run_manager \<Rightarrow> bool" where
  "drain_stays m fx m' \<longleftrightarrow> (lease_ok m \<longrightarrow> lease_ok m' \<and> set (snd (lease_view m)) \<subseteq> set (snd (lease_view m')))"

interpretation stays: lease_contract drain_stays
proof unfold_locales
  show "drain_stays m fx m'" if "lease_view m' = lease_view m" "releases fx = []" for m fx m'
    using that by (simp add: drain_stays_def lease_ok_def)
  show "drain_stays m (fx @ fy) m2" if "drain_stays m fx m1" "drain_stays m1 fy m2" for m fx m1 fy m2
    using that by (auto simp: drain_stays_def)
qed (simp add: drain_stays_def moved)

subsection \<open>New runs, new leases and the ends of drains\<close>

definition holds_run :: "json \<Rightarrow> run_manager \<Rightarrow> bool" where
  "holds_run k m \<longleftrightarrow> jm_has (rm_active m) k \<or> jm_has (rm_draining m) k"

text \<open>What \<open>randomUUID\<close> and the callers of \<open>attachLease\<close> provide: a run id that is not in use, and at most one lease
  for a run.\<close>

fun admissible :: "manager_event \<Rightarrow> run_manager \<Rightarrow> bool" where
  "admissible (Ev_Begin _ rid) m = (\<not> holds_run (JStr rid) m)"
| "admissible (Ev_Attach k _) m = (case jm_get (rm_active m) k of Some a \<Rightarrow> ar_lease a = None | None \<Rightarrow> True)"
| "admissible _ m = True"

text \<open>The lease a step puts under the manager's care: \<open>attachLease\<close> of a run that is no longer active keeps nothing.\<close>

fun granted :: "manager_event \<Rightarrow> run_manager \<Rightarrow> nat list" where
  "granted (Ev_Attach k l) m = (if jm_has (rm_active m) k then [l] else [])"
| "granted _ m = []"

lemma run_id_accepted: "run_id (accepted_record env now input d rid) = JStr rid"
  by (simp add: accepted_record_def run_id_def getp_def)

lemma init_view: "lease_view (snd (snd (manager_init env io now m))) = lease_view m"
    "fst (snd (manager_init env io now m)) = []"
  by (simp_all add: manager_init_def split: init_state.split prod.split sum.split)

lemma create_view:
  "create_or_replay env io now input d rid m = (r, fx, m') \<Longrightarrow> releases fx = [] \<and>
     (lease_view m' = lease_view m \<or> lease_view m' = (jm_set (JStr rid) None (fst (lease_view m)), snd (lease_view m)))"
  by (auto simp: create_or_replay_def mret_def mbind_def on_store_def mdo_def Let_def add_active_def lease_view_def
        run_id_accepted map_jm_set active_of_def split: option.splits prod.splits sum.splits)

lemma begin_view:
  assumes "begin_run env io now input rid m = (r, fx, m')"
  shows "releases fx = [] \<and>
     (lease_view m' = lease_view m \<or> lease_view m' = (jm_set (JStr rid) None (fst (lease_view m)), snd (lease_view m)))"
proof -
  obtain r1 fx1 m1 where i: "manager_init env io now m = (r1, fx1, m1)" by (cases "manager_init env io now m")
  then have v: "lease_view m1 = lease_view m" "fx1 = []" using init_view [of env io now m] by simp_all
  show ?thesis
    using assms create_view [of env io now input _ rid m1] v
    by (auto simp: begin_run_def mbind_def mfail_def i split: option.splits sum.splits prod.splits)
qed

lemma begin_conserves:
  assumes "lease_ok m" and "\<not> holds_run (JStr rid) m" and "begin_run env io now input rid m = (r, fx, m')"
  shows "lease_ok m'" and "mset (leases_of m') + mset (releases fx) = mset (leases_of m)"
    and "snd (lease_view m') = snd (lease_view m)"
proof -
  obtain A D where v: "lease_view m = (A, D)" by (cases "lease_view m")
  have fresh: "JStr rid \<notin> set (map fst A)" "JStr rid \<notin> set (map fst D)"
    using assms(2) jm_get_view [of m "JStr rid"] unfolding v holds_run_def jm_has_def
    by (simp_all add: map_of_eq_None_iff [symmetric])
  note b = begin_view [OF assms(3)]
  show "lease_ok m'"
    using b fresh assms(1) by (elim conjE disjE) (simp_all add: lease_ok_def v jm_set_append_iff)
  show "mset (leases_of m') + mset (releases fx) = mset (leases_of m)"
    using b fresh by (auto simp: leases_of_view v jm_set_append_iff List.map_filter_def)
  show "snd (lease_view m') = snd (lease_view m)" using b by auto
qed

lemma attach_conserves:
  assumes "lease_ok m" and "admissible (Ev_Attach k l) m"
  shows "lease_ok (attach_lease k l m)"
    and "mset (leases_of (attach_lease k l m)) = mset (leases_of m) + mset (granted (Ev_Attach k l) m)"
    and "snd (lease_view (attach_lease k l m)) = snd (lease_view m)"
proof -
  have key: "map fst (rm_active (attach_lease k l m)) = map fst (rm_active m)"
    by (auto simp: attach_lease_def update_active_def jm_keys_set map_of_eq_None_iff split: option.split)
  have d: "rm_draining (attach_lease k l m) = rm_draining m"
    by (simp add: attach_lease_def update_active_def split: option.split)
  show "lease_ok (attach_lease k l m)" using assms(1) by (simp add: lease_ok_keys key d del: set_map)
  show "snd (lease_view (attach_lease k l m)) = snd (lease_view m)" by (simp add: lease_view_def d)
  have "mset (List.map_filter ar_lease (map snd (jm_set k (a \<lparr> ar_lease := Some l \<rparr>) M)))
      = mset (List.map_filter ar_lease (map snd M)) + {#l#}"
    if "jm_get M k = Some a" "ar_lease a = None" for a M
    using that by (induction M) (auto simp: List.map_filter_simps split: option.splits if_splits)
  with assms(2) show "mset (leases_of (attach_lease k l m)) = mset (leases_of m) + mset (granted (Ev_Attach k l) m)"
    by (auto simp: leases_of_def attach_lease_def update_active_def jm_has_def split: option.splits)
qed

lemma finish_run_drain_view:
  "finish_run_drain k m = (r, fx, m') \<Longrightarrow>
     lease_view m' = (fst (lease_view m), jm_del k (snd (lease_view m))) \<and> fst (lease_view m') = fst (lease_view m)
     \<and> releases fx = (case jm_get (snd (lease_view m)) k of Some l \<Rightarrow> [l] | None \<Rightarrow> [])"
proof (cases "jm_get (rm_draining m) k")
  case None
  then have "jm_get (snd (lease_view m)) k = None" by (simp add: jm_get_view)
  moreover from this have "jm_del k (snd (lease_view m)) = snd (lease_view m)"
    by (intro jm_del_absent) (simp add: map_of_eq_None_iff)
  moreover assume "finish_run_drain k m = (r, fx, m')"
  ultimately show ?thesis using None by (auto simp: finish_run_drain_def mret_def)
next
  case (Some e)
  moreover assume "finish_run_drain k m = (r, fx, m')"
  ultimately show ?thesis
    by (auto simp: finish_run_drain_def jm_get_view lease_view_def map_jm_del map_of_map)
qed

lemma finish_run_drain_conserves: "conserved.kept m (finish_run_drain k m)"
proof (cases "finish_run_drain k m")
  case (fields r fx m')
  obtain A D where v: "lease_view m = (A, D)" by (cases "lease_view m")
  note f = finish_run_drain_view [OF fields, unfolded v, simplified]
  have "lease_ok m' \<and> mset (leases_of m') + mset (releases fx) = mset (leases_of m)" if ok: "lease_ok m"
  proof -
    have d: "distinct (map fst D)" using ok v by (simp add: lease_ok_def)
    have "lease_ok m'" using ok f v by (auto simp: lease_ok_def jm_keys_del)
    moreover have "mset (leases_of m') + mset (releases fx) = mset (leases_of m)"
    proof (cases "jm_get D k")
      case None
      then have "jm_del k D = D" by (intro jm_del_absent) (simp add: map_of_eq_None_iff)
      with None f v show ?thesis by (simp add: leases_of_view)
    next
      case (Some l)
      from mset_drain_del [OF d Some] f v Some show ?thesis by (simp add: leases_of_view)
    qed
    ultimately show ?thesis ..
  qed
  then show ?thesis by (simp add: conserved.kept_def fields conserves_def)
qed

lemma finish_run_drain_stays: "finish_run_drain k m = (r, fx, m') \<Longrightarrow> k' \<noteq> k
   \<Longrightarrow> (k', l) \<in> set (snd (lease_view m)) \<Longrightarrow> (k', l) \<in> set (snd (lease_view m'))"
  by (drule finish_run_drain_view) (simp add: jm_del_def)

lemma lease_view_quarantine: "lease_view (quarantine now k m) = lease_view m"
  using map_jm_set_same [of "rm_draining m" k _ de_lease]
  by (auto simp: quarantine_def lease_view_def split: option.split)

lemma drain_answer_conserves: "conserved.kept m (drain_answer mo k answer m)"
  unfolding drain_answer_def
  by (auto intro: finish_run_drain_conserves conserved.kept_silent simp: mret_def lease_view_quarantine split: option.split)

lemma mark_quiescent_view: "lease_view (snd (snd (mark_quiescent env io now k m))) = lease_view m"
    "fst (snd (mark_quiescent env io now k m)) = []"
  by (simp_all add: mark_quiescent_def on_store_def split: prod.split)

lemma reconcile_conserves: "conserved.kept m (reconcile_entry env io now k answer m)"
proof -
  let ?m = "snd (snd (mark_quiescent env io now k m))"
  have "conserves m [] ?m" by (rule conserved.silent) (simp_all add: mark_quiescent_view)
  from conserved.then_holds [OF this] finish_run_drain_conserves [of ?m k]
  have "conserved.kept m (finish_run_drain k ?m)" by (auto simp: conserved.kept_def)
  then show ?thesis by (auto simp: reconcile_entry_def intro: conserved.kept_mret split: option.split)
qed

lemma confirm_conserves: "conserved.kept m (confirm_runtime_quiescent env io now k m)"
  unfolding confirm_runtime_quiescent_def mark_quiescent_def
  by (auto intro!: conserved.kept_basic finish_run_drain_conserves split: option.split)

lemma step_conserves:
  assumes "lease_ok m" and "admissible ev m" and "manager_step env io mo ev m = (fx, m')"
  shows "lease_ok m' \<and> mset (leases_of m') + mset (releases fx) = mset (leases_of m) + mset (granted ev m)"
proof (cases "moves_no_drain ev")
  case True
  then have "granted ev m = []" by (cases ev) auto
  with conserved.holds_step [OF True assms(3)] assms(1) show ?thesis by (simp add: conserves_def)
next
  case False
  have k: "lease_ok m' \<and> mset (leases_of m') + mset (releases fx) = mset (leases_of m)"
    if "conserved.kept m r" "snd r = (fx, m')" for r :: "(string + 'x) \<times> _"
    using conserved.kept_snd [OF that] assms(1) by (simp add: conserves_def)
  show ?thesis
  proof (cases ev)
    case (Ev_Begin input rid)
    with assms begin_conserves [OF assms(1), of rid env io "at_now mo" input]
    show ?thesis by (cases "begin_run env io (at_now mo) input rid m") auto
  next
    case (Ev_Attach a l)
    with assms attach_conserves [OF assms(1), of a l] show ?thesis by auto
  next
    case (Ev_Drain_Answer a answer)
    with assms k [OF drain_answer_conserves] show ?thesis by auto
  next
    case (Ev_Reconcile a answer)
    with assms k [OF reconcile_conserves] show ?thesis by auto
  next
    case (Ev_Confirm a)
    with assms k [OF confirm_conserves] show ?thesis by auto
  next
    case Ev_Shutdown
    have "releases (map Release ls) = ls" for ls by (induction ls) simp_all
    moreover have "fx = map Release (leases_of m)" "leases_of m' = []" "lease_ok m'"
      using Ev_Shutdown assms(3)
      by (auto simp: shutdown_def lease_ok_keys leases_of_def [of m'] List.map_filter_simps)
    ultimately show ?thesis using Ev_Shutdown by simp
  qed (use False in simp_all)
qed

fun lawful :: "manager_env \<Rightarrow> (receipt_io \<times> moment \<times> manager_event) list \<Rightarrow> run_manager \<Rightarrow> bool" where
  "lawful env [] m = True"
| "lawful env ((io, mo, ev) # evs) m = (admissible ev m \<and> lawful env evs (snd (manager_step env io mo ev m)))"

fun grants :: "manager_env \<Rightarrow> (receipt_io \<times> moment \<times> manager_event) list \<Rightarrow> run_manager \<Rightarrow> nat list" where
  "grants env [] m = []"
| "grants env ((io, mo, ev) # evs) m = granted ev m @ grants env evs (snd (manager_step env io mo ev m))"

lemma run_conserves:
  "lease_ok m \<Longrightarrow> lawful env evs m \<Longrightarrow> manager_run env evs m = (fx, m') \<Longrightarrow>
     lease_ok m' \<and> mset (leases_of m') + mset (releases fx) = mset (leases_of m) + mset (grants env evs m)"
proof (induction evs arbitrary: m fx m')
  case (Cons e evs)
  obtain io mo ev where e: "e = (io, mo, ev)" by (cases e)
  obtain fx1 m1 where st: "manager_step env io mo ev m = (fx1, m1)" by (cases "manager_step env io mo ev m")
  obtain fx2 m2 where rest: "manager_run env evs m1 = (fx2, m2)" by (cases "manager_run env evs m1")
  have s: "lease_ok m1" "mset (leases_of m1) + mset (releases fx1) = mset (leases_of m) + mset (granted ev m)"
    using step_conserves [OF Cons.prems(1) _ st] Cons.prems(2) by (simp_all add: e)
  have "lease_ok m2 \<and> mset (leases_of m2) + mset (releases fx2) = mset (leases_of m1) + mset (grants env evs m1)"
    by (rule Cons.IH [OF s(1) _ rest]) (use Cons.prems(2) in \<open>simp add: e st\<close>)
  moreover have "fx = fx1 @ fx2" "m' = m2" using Cons.prems(3) by (simp_all add: e st rest)
  ultimately show ?case using s(2) by (simp add: e st) (metis add.assoc add.commute)
qed simp

lemma run_from_start: "lawful env evs (run_manager_init s) \<Longrightarrow> manager_run env evs (run_manager_init s) = (fx, m) \<Longrightarrow>
    lease_ok m \<and> mset (leases_of m) + mset (releases fx) = mset (grants env evs (run_manager_init s))"
  using run_conserves [OF lease_ok_init] by (simp add: leases_of_def run_manager_init_def List.map_filter_simps)


subsection \<open>A draining slot waits for evidence\<close>

fun evidence :: "json \<Rightarrow> manager_event \<Rightarrow> bool" where
  "evidence k (Ev_Drain_Answer k' answer) = (k' = k \<and> answer = Some True)"
| "evidence k (Ev_Reconcile k' answer) = (k' = k \<and> answer = Some True)"
| "evidence k (Ev_Confirm k') = (k' = k)"
| "evidence k Ev_Shutdown = True"
| "evidence k _ = False"

lemma step_stays:
  assumes "lease_ok m" and "admissible ev m" and "manager_step env io mo ev m = (fx, m')"
    and "\<not> evidence k ev" and "(k, l) \<in> set (snd (lease_view m))"
  shows "(k, l) \<in> set (snd (lease_view m'))"
proof (cases "moves_no_drain ev")
  case True
  from stays.holds_step [OF this assms(3)] assms(1,5) show ?thesis by (auto simp: drain_stays_def)
next
  case False
  have drained: "(k, l) \<in> set (snd (lease_view m2))"
    if "snd (finish_run_drain k' m1) = (fx', m2)" "k' \<noteq> k" "lease_view m1 = lease_view m" for k' m1 m2 fx'
    using finish_run_drain_stays [of k' m1 _ fx' m2 k l] that assms(5) by (metis prod.collapse)
  show ?thesis
  proof (cases ev)
    case (Ev_Begin input rid)
    then show ?thesis
      using assms begin_conserves(3) [OF assms(1), of rid env io "at_now mo" input] by (metis admissible.simps(1) manager_step.simps(1) prod.collapse)
  next
    case (Ev_Attach a j)
    with assms attach_conserves(3) [OF assms(1), of a j] show ?thesis by auto
  next
    case (Ev_Drain_Answer a answer)
    with assms drained [of a m fx m'] lease_view_quarantine [of "at_now mo" a m] show ?thesis
      by (auto simp: drain_answer_def mret_def split: if_splits option.splits)
  next
    case (Ev_Reconcile a answer)
    with assms drained [of a "snd (snd (mark_quiescent env io (at_now mo) a m))" fx m'] mark_quiescent_view [of env io "at_now mo" a m]
    show ?thesis by (auto simp: reconcile_entry_def mret_def split: if_splits option.splits)
  next
    case (Ev_Confirm a)
    obtain r1 m1 where q: "mark_quiescent env io (at_now mo) a m = (r1, [], m1)" "lease_view m1 = lease_view m"
      using mark_quiescent_view [of env io "at_now mo" a m] by (metis prod.collapse)
    from Ev_Confirm assms q drained [of a m1 _ m'] show ?thesis
      by (auto simp: confirm_runtime_quiescent_def mbind_def mret_def mfail_def
            split: if_splits option.splits sum.splits prod.splits)
  qed (use False assms(4) in simp_all)
qed

lemma leases_distinct:
  assumes "lawful env evs (run_manager_init s)" and "manager_run env evs (run_manager_init s) = (fx, m)"
    and "distinct (grants env evs (run_manager_init s))"
  shows "lease_ok m" and "distinct (leases_of m)"
proof -
  show "lease_ok m" using run_from_start [OF assms(1,2)] by simp
  have "mset (releases fx @ leases_of m) = mset (grants env evs (run_manager_init s))"
    using run_from_start [OF assms(1,2)] by (simp add: add.commute)
  from mset_eq_imp_distinct_iff [OF this] assms(3) show "distinct (leases_of m)" by simp
qed


end
