(* ===== verification/Run_Ends.thy ===== *)
theory Run_Ends
  imports Run_Leases Completion_Schema Receipt_Durability
begin

text \<open>
  Which runs can be finished: what \<open>finish\<close> of the run receipt manager writes passes the store's own validation
  exactly when the captured completion block (\<open>capture_storable\<close>) and the duration (\<open>duration_storable\<close>) are within the
  store's bounds. Then the run becomes terminal and its admission slot is let go; otherwise \<open>finish\<close> and the watchdog
  leave the run and its slot as they are.

  \<^item> \<open>active_good\<close> is the invariant of the record that the manager keeps of a running run: bounded counters, bounded
    texts, valid activity, shadow evidence of the run's own session.
  \<^item> \<open>valid_put\<close> are the rules for one validated field of a receipt after the other.
\<close>

named_theorems valid_put

subsection \<open>One field after the other\<close>

lemma receipt_keys: "receipt_ok dp r \<Longrightarrow> keys_allowed allowed_keys r"
  by (simp add: receipt_ok_checks identity_checks_def Let_def keys_allowed_list_all)

lemmas put_defs = receipt_ok_checks identity_checks_def evidence_checks_def field_checks_def Let_def keys_allowed_list_all

lemma allowed_members:
  "''terminalAt'' \<in> set allowed_keys" "''startedAt'' \<in> set allowed_keys" "''status'' \<in> set allowed_keys"
  "''errorCode'' \<in> set allowed_keys" "''finalText'' \<in> set allowed_keys" "''finalTextTruncated'' \<in> set allowed_keys"
  "''completion'' \<in> set allowed_keys" "''completionDelimiter'' \<in> set allowed_keys"
  "''completionError'' \<in> set allowed_keys" "''liveness'' \<in> set allowed_keys"
  "''outputEvidence'' \<in> set allowed_keys" "''phase7Shadow'' \<in> set allowed_keys"
  by (simp_all add: allowed_keys_def)

lemma keys_put: "receipt_ok dp r \<Longrightarrow> k \<in> set allowed_keys \<Longrightarrow> keys_allowed allowed_keys (putp k v r)"
  by (rule keys_allowed_putp [OF _ receipt_keys])

lemma valid_put_terminalAt [valid_put]: "receipt_ok dp r \<Longrightarrow> receipt_ok dp (putp ''terminalAt'' v r)"
  using keys_put [of dp r "''terminalAt''" v] by (simp add: put_defs allowed_members)

lemma valid_put_startedAt [valid_put]: "receipt_ok dp r \<Longrightarrow> receipt_ok dp (putp ''startedAt'' v r)"
  using keys_put [of dp r "''startedAt''" v] by (simp add: put_defs allowed_members)

lemma valid_put_status [valid_put]:
  "receipt_ok dp r \<Longrightarrow> Receipt_Schema.one_of [''accepted'', ''queued'', ''started'', ''completed'', ''failed'', ''cancelled'', ''interrupted''] v
    \<Longrightarrow> receipt_ok dp (putp ''status'' v r)"
  using keys_put [of dp r "''status''" v] by (simp add: put_defs allowed_members)

lemma valid_put_error [valid_put]:
  "receipt_ok dp r \<Longrightarrow> v = JUndef \<or> safe_error_code (js_string v) \<Longrightarrow> receipt_ok dp (putp ''errorCode'' v r)"
  using keys_put [of dp r "''errorCode''" v] by (simp add: put_defs allowed_members)

lemma valid_put_final_text [valid_put]:
  "receipt_ok dp r \<Longrightarrow> length t \<le> final_text_max_chars
    \<Longrightarrow> receipt_ok dp (putp ''finalTextTruncated'' (JBool b) (putp ''finalText'' (JStr t) r))"
  using keys_allowed_putp [OF _ keys_put [of dp r "''finalText''" "JStr t"], of "''finalTextTruncated''" "JBool b"]
  by (simp add: put_defs allowed_members)

lemma valid_put_completion [valid_put]:
  "receipt_ok dp r \<Longrightarrow> validate_stored_completion v = None \<Longrightarrow> Receipt_Schema.one_of [''completion'', ''json-tagged''] d
    \<Longrightarrow> receipt_ok dp (putp ''completionDelimiter'' d (putp ''completion'' v r))"
  using keys_allowed_putp [OF _ keys_put [of dp r "''completion''" v], of "''completionDelimiter''" d]
  by (cases v) (auto simp: put_defs allowed_members validate_stored_completion_def)

lemma valid_put_completion_error [valid_put]:
  "receipt_ok dp r \<Longrightarrow> validate_stored_completion_error v = None \<Longrightarrow> receipt_ok dp (putp ''completionError'' v r)"
  using keys_put [of dp r "''completionError''" v] by (simp add: put_defs allowed_members)

lemma valid_put_liveness [valid_put]:
  "receipt_ok dp r \<Longrightarrow> validate_liveness dp v = None \<Longrightarrow> receipt_ok dp (putp ''liveness'' v r)"
  using keys_put [of dp r "''liveness''" v] by (simp add: put_defs allowed_members)

lemma valid_put_evidence [valid_put]:
  "receipt_ok dp r \<Longrightarrow> validate_output_evidence v = None \<Longrightarrow> receipt_ok dp (putp ''outputEvidence'' v r)"
  using keys_put [of dp r "''outputEvidence''" v] by (simp add: put_defs allowed_members)

lemma valid_put_shadow [valid_put]:
  "receipt_ok dp r \<Longrightarrow> validate_phase7_shadow v = None \<Longrightarrow> is_text ''pi'' (getp r ''runtime'')
    \<Longrightarrow> strict_eq (prp (prp v ''affinity'') ''sessionId'') (getp r ''sessionId'') \<Longrightarrow> receipt_ok dp (putp ''phase7Shadow'' v r)"
  using keys_put [of dp r "''phase7Shadow''" v] by (simp add: put_defs allowed_members)

lemma merge_append [simp]: "merge_props r (p @ q) = merge_props (merge_props r p) q"
  by (simp add: merge_props_def)

lemma merge_Nil [simp]: "merge_props r [] = r"
  by (simp add: merge_props_def)

lemma merge_Cons: "merge_props r ((js k, v) # p) = merge_props (putp k v r) p"
  by (simp add: merge_props_def putp_def)

subsection \<open>The record of a running run\<close>

definition counts_bounded :: "output_counts \<Rightarrow> bool" where
  "counts_bounded oc \<longleftrightarrow> oc_messages oc \<le> 100000 \<and> oc_blocks oc \<le> 1000000 \<and> oc_chars oc \<le> 10000000 \<and> oc_tools oc \<le> 100000"

lemma bounded_add_le: "n \<le> hi \<Longrightarrow> bounded_add n k hi \<le> hi"
  by (simp add: bounded_add_def)

lemma counts_text: "counts_bounded oc \<Longrightarrow> counts_bounded (observe_text t oc)"
  by (simp add: counts_bounded_def observe_text_def bounded_add_le)

lemma counts_blocks:
  "counts_bounded oc \<Longrightarrow>
   counts_bounded (foldl (\<lambda>oc b. case text_of_block b of Some t \<Rightarrow> observe_text t oc | None \<Rightarrow> oc) oc bs)"
  by (induction bs arbitrary: oc) (auto simp: counts_text split: option.split)

lemma counts_observe: "counts_bounded oc \<Longrightarrow> counts_bounded (observe_output event oc)"
proof -
  assume oc: "counts_bounded oc"
  have "counts_bounded (oc \<lparr> oc_messages := bounded_add (oc_messages oc) 1 100000 \<rparr>)"
       "counts_bounded (oc \<lparr> oc_tools := bounded_add (oc_tools oc) 1 100000 \<rparr>)"
    using oc by (simp_all add: counts_bounded_def bounded_add_le)
  moreover have "counts_bounded (case d of JStr t \<Rightarrow> observe_text t oc | _ \<Rightarrow> oc)" for d
    using oc by (cases d) (simp_all add: counts_text)
  moreover have "counts_bounded (case c of
      JArr bs \<Rightarrow> foldl (\<lambda>oc b. case text_of_block b of Some t \<Rightarrow> observe_text t oc | None \<Rightarrow> oc) oc bs | _ \<Rightarrow> x)"
    if "counts_bounded x" for c x
    using oc that by (cases c) (simp_all add: counts_blocks)
  ultimately show ?thesis using oc unfolding observe_output_def Let_def by simp
qed

lemma evidence_valid:
  "counts_bounded oc \<Longrightarrow> validate_output_evidence (JObj (finalize_output_evidence oc b)) = None"
  by (auto simp: counts_bounded_def validate_output_evidence_def finalize_output_evidence_def prop_JObj_getp getp_Cons
        count_upto_nat_text assert_only_keys_def output_evidence_keys_def is_text_def text_json_def
        Receipt_Schema.one_of_def simp del: nat_text.simps safe_int.simps)

definition text_bounded :: "nat \<Rightarrow> final_text \<Rightarrow> bool" where
  "text_bounded n f \<longleftrightarrow> ft_maxChars f = n \<and> length (ft_current f) \<le> n
     \<and> (case ft_previous f of Some (t, _) \<Rightarrow> length t \<le> n | None \<Rightarrow> True)"

lemma text_bounded_act: "text_bounded n f \<Longrightarrow> text_bounded n (text_act act f)"
  by (cases act) (auto simp: text_bounded_def start_segment_def replace_text_def append_text_def set_bounded_def Let_def)

lemma text_bounded_observe: "text_bounded n f \<Longrightarrow> text_bounded n (final_text_observe event f)"
proof -
  have "text_bounded n f \<Longrightarrow> text_bounded n (foldl (\<lambda>f a. text_act a f) f as)" for as f
    by (induction as arbitrary: f) (simp_all add: text_bounded_act)
  then show "text_bounded n f \<Longrightarrow> text_bounded n (final_text_observe event f)"
    by (simp add: final_text_observe_def)
qed

lemma snapshot_bounded: "text_bounded n f \<Longrightarrow> final_text_snapshot f = Some (t, b) \<Longrightarrow> length t \<le> n"
  by (auto simp: text_bounded_def final_text_snapshot_def split: if_splits)

definition shadow_good :: "active_run \<Rightarrow> bool" where
  "shadow_good a \<longleftrightarrow> (case ar_shadow a of
      None \<Rightarrow> True
    | Some s \<Rightarrow> (\<exists>sid msg events. sid \<noteq> [] \<and> byte_length msg \<le> 10000000 \<and> ar_sessionId a = JStr sid
         \<and> ar_runtime a = text_json ''pi'' \<and> s = shadow_run events (create_shadow (classify_shadow sid msg) (ar_acceptedAtMs a))))"

definition active_good :: "manager_env \<Rightarrow> active_run \<Rightarrow> bool" where
  "active_good env a \<longleftrightarrow> counts_bounded (ar_output a) \<and> text_bounded final_text_max_chars (ar_finalText a)
     \<and> (case ar_lastEligible a of Some act \<Rightarrow> is_obj act \<and> activity_error (ev_dp (me_store env)) act = None | None \<Rightarrow> True)
     \<and> shadow_good a"

lemma eligible_safe: "list_all (\<lambda>t. safe_event_type (js t)) eligible_run_activity_types"
  by (simp add: eligible_run_activity_types_def safe_event_type_def is_digit_def js_def)

lemma activity_valid:
  assumes "clock_ok (me_store env)" and "Receipt_Schema.one_of eligible_run_activity_types type"
  shows "activity_error (ev_dp (me_store env)) (activity_json type (ev_iso (me_store env) t) (iso_of env u)) = None"
proof -
  obtain s where "type = JStr (js s)" "s \<in> set eligible_run_activity_types"
    using assms(2) by (cases type) (auto simp: Receipt_Schema.one_of_def)
  then have "safe_event_type (js_string type)" using eligible_safe by (simp add: list_all_iff)
  with assms(1) show ?thesis
    by (auto simp: activity_error_def activity_json_def prop_JObj_getp getp_Cons assert_only_keys_def
          assert_iso_timestamp_def clock_ok_def)
qed

lemma note_activity_same:
  "ar_output (snd (note_activity env now event a)) = ar_output a"
  "ar_finalText (snd (note_activity env now event a)) = ar_finalText a"
  "ar_shadow (snd (note_activity env now event a)) = ar_shadow a"
  "ar_sessionId (snd (note_activity env now event a)) = ar_sessionId a"
  "ar_runtime (snd (note_activity env now event a)) = ar_runtime a"
  "ar_acceptedAtMs (snd (note_activity env now event a)) = ar_acceptedAtMs a"
  by (simp_all add: note_activity_def Let_def split: option.split)

lemma active_good_note:
  assumes "clock_ok (me_store env)" and "active_good env a"
  shows "active_good env (snd (note_activity env now event a))"
proof -
  have "case ar_lastEligible (snd (note_activity env now event a)) of
      Some act \<Rightarrow> is_obj act \<and> activity_error (ev_dp (me_store env)) act = None | None \<Rightarrow> True"
    using assms activity_valid [OF assms(1)]
    by (auto simp: note_activity_def Let_def active_good_def date_iso_def activity_json_def
          split: option.split if_splits)
  with assms(2) show ?thesis by (simp add: active_good_def shadow_good_def note_activity_same split: option.splits)
qed

lemma shadow_run_snoc: "observe_shadow e (shadow_run es s) = shadow_run (es @ [e]) s"
  by (simp add: shadow_run_def)

lemma shadow_good_seen: "shadow_good a \<Longrightarrow> shadow_good (seen_by event a)"
proof (cases "ar_shadow a")
  case (Some s)
  assume "shadow_good a"
  then obtain sid msg events where "sid \<noteq> []" "byte_length msg \<le> 10000000" "ar_sessionId a = JStr sid"
      "ar_runtime a = text_json ''pi''" "s = shadow_run events (create_shadow (classify_shadow sid msg) (ar_acceptedAtMs a))"
    by (auto simp: shadow_good_def Some)
  then show ?thesis
    unfolding shadow_good_def seen_by_def
    by (simp add: Some shadow_run_snoc) blast
qed (simp add: shadow_good_def seen_by_def)

lemma active_good_seen: "active_good env a \<Longrightarrow> active_good env (seen_by event a)"
  using shadow_good_seen [of a event]
  by (simp add: active_good_def) (simp add: seen_by_def counts_observe text_bounded_observe)

lemma active_good_persisted: "active_good env (a \<lparr> ar_lastPersistedAtMs := t \<rparr>) = active_good env a"
  by (cases "ar_shadow a") (simp_all add: active_good_def shadow_good_def)

lemma active_good_observe:
  assumes "clock_ok (me_store env)" and "jm_all (active_good env) (rm_active m)"
  shows "jm_all (active_good env) (rm_active (snd (observe_event env now k event m)))"
proof (cases "jm_get (rm_active m) k")
  case (Some a)
  have "active_good env a" using assms(2) Some by (auto simp: jm_all_def list_all_iff dest!: map_of_SomeD)
  then have "active_good env (snd (note_activity env now event (seen_by event a)))"
    by (intro active_good_note assms active_good_seen)
  then show ?thesis
    using assms(2)
    by (auto simp: observe_event_def Let_def Some put_active_def active_good_persisted split: prod.split sum.split)
qed (use assms in \<open>simp add: observe_event_def Let_def\<close>)

subsection \<open>What \<open>finish\<close> writes is valid\<close>

text \<open>The types of an outcome, and what the manager's options guarantee.\<close>

definition outcome_ok :: "manager_env \<Rightarrow> finish_outcome \<Rightarrow> bool" where
  "outcome_ok env out \<longleftrightarrow>
     finish_status out \<in> {''completed'', ''failed'', ''cancelled''}
     \<and> (error_json (fo_errorCode out) = JUndef \<or> safe_error_code (js_string (error_json (fo_errorCode out))))
     \<and> (fo_outputEvidence out = JUndef \<or> validate_output_evidence (fo_outputEvidence out) = None)
     \<and> (case fo_stallReason out of
          Some r \<Rightarrow> r \<in> {''idle'', ''absolute'', ''no_activity''}
            \<and> (fo_errorCode out = Some (js ''NEVER_STARTED'') \<longrightarrow> 0 < me_startWindowMs env)
        | None \<Rightarrow> True)
     \<and> (case fo_cessationBasis out of Some b \<Rightarrow> b \<in> {''documented_handler_return'', ''resource_quiescence''} | None \<Rightarrow> True)"

definition options_ok :: "manager_env \<Rightarrow> bool" where
  "options_ok env \<longleftrightarrow> clock_ok (me_store env) \<and> 0 < me_idleMs env \<and> 0 < me_maxMs env"

lemma manager_env_of_ok: "clock_ok store \<Longrightarrow> options_ok (manager_env_of store sha completion d)"
  by (auto simp: options_ok_def manager_env_of_def positive_timeout_def default_turn_idle_timeout_ms_def
        default_turn_max_ms_def split: option.split)

text \<open>The two things that the receipt refuses: a completion block or error outside the store's bounds, and a Pi run of more
  than seven days. The code ensures neither bound (\<open>captured_block_storable\<close> says what the first asks of a block), so no
  theorem assumes them: the theorems say what happens in either case.\<close>

definition capture_storable :: "js_object \<Rightarrow> bool" where
  "capture_storable c \<longleftrightarrow>
     (jm_has c (js ''completion'') \<longrightarrow> validate_stored_completion (getp c ''completion'') = None)
     \<and> (jm_has c (js ''completionError'') \<longrightarrow> validate_stored_completion_error (getp c ''completionError'') = None)"

definition duration_storable :: "int \<Rightarrow> active_run \<Rightarrow> bool" where
  "duration_storable now a \<longleftrightarrow> ar_shadow a = None \<or> now - ar_acceptedAtMs a \<le> 604800000"

definition carries :: "(jsstr \<Rightarrow> int option) \<Rightarrow> js_object \<Rightarrow> js_object \<Rightarrow> bool" where
  "carries dp r r' \<longleftrightarrow> receipt_ok dp r' \<and> getp r' ''runtime'' = getp r ''runtime''
     \<and> getp r' ''sessionId'' = getp r ''sessionId'' \<and> getp r' ''runId'' = getp r ''runId''"

lemma capture_cases:
  obtains "completion_capture env a = []"
    | v d where "completion_capture env a = [(js ''completion'', v), (js ''completionDelimiter'', text_json d)]"
        "d \<in> {''completion'', ''json-tagged''}"
    | v where "completion_capture env a = [(js ''completionError'', JObj v)]"
proof (cases "final_text_snapshot (ar_completionText a)")
  case None
  then show ?thesis using that(1) by (simp add: completion_capture_def)
next
  case (Some p)
  obtain words b where p: "p = (words, b)" by (cases p)
  show ?thesis
  proof (cases "words = []")
    case True
    then show ?thesis using that(1) by (simp add: completion_capture_def Some p)
  next
    case False
    show ?thesis
    proof (cases "parse_completion_block (me_completion env) words")
      case (Parsed v d)
      then show ?thesis using that(2) False
        by (cases d) (simp_all add: completion_capture_def Some p)
    next
      case (Failed code message path)
      then show ?thesis using that(1,3) False
        by (cases "code = ''NO_BLOCK''") (simp_all add: completion_capture_def Some p)
    qed
  qed
qed

lemma carries_capture:
  assumes "carries dp r r'" and "capture_storable (completion_capture env a)"
  shows "carries dp r (merge_props r' (completion_capture env a))"
proof (cases rule: capture_cases [of env a])
  case (2 v d)
  have "Receipt_Schema.one_of [''completion'', ''json-tagged''] (text_json d)"
    using 2(2) by (auto simp: Receipt_Schema.one_of_def text_json_def)
  with 2 show ?thesis using assms
    by (simp add: carries_def merge_Cons capture_storable_def getp_Cons jm_has_def valid_put_completion)
next
  case (3 v)
  then show ?thesis using assms
    by (simp add: carries_def merge_Cons capture_storable_def getp_Cons jm_has_def valid_put_completion_error)
qed (use assms in simp)

lemma valid_liveness_activity:
  assumes "validate_liveness dp (JObj m) = None" and "activity_error dp act = None"
  shows "validate_liveness dp (JObj (putp ''lastEligibleActivity'' act m)) = None"
  using assms
  by (simp add: validate_liveness_def prop_JObj_getp assert_only_keys_JObj keys_allowed_putp liveness_keys_def)

lemma valid_liveness_watchdog:
  assumes "validate_liveness dp (JObj m) = None" and "watchdog_error dp w = None"
  shows "validate_liveness dp (JObj (putp ''watchdog'' w m)) = None"
  using assms
  by (simp add: validate_liveness_def prop_JObj_getp assert_only_keys_JObj keys_allowed_putp liveness_keys_def)

lemma watchdog_valid:
  assumes "options_ok env" and "stall \<in> {''idle'', ''absolute'', ''no_activity''}"
    and "code = Some (js ''NEVER_STARTED'') \<longrightarrow> 0 < me_startWindowMs env"
  shows "watchdog_error (ev_dp (me_store env)) (watchdog_json env stall code (iso_of env now)) = None"
  using assms
  by (auto simp: watchdog_error_def watchdog_json_def prop_JObj_getp getp_Cons getp_Nil assert_only_keys_def
        options_ok_def clock_ok_def assert_iso_timestamp_def Receipt_Schema.one_of_def text_json_def)

lemma cessation_valid:
  assumes "options_ok env" and "(st, b) \<in> {(''unknown'', ''watchdog''), (''confirmed'', ''documented_handler_return''),
      (''confirmed'', ''resource_quiescence'')}"
  shows "cessation_error (ev_dp (me_store env)) (cessation_json st b (ev_iso (me_store env) now)) = None"
  using assms by (intro valid_cessation) (auto simp: Receipt_Schema.one_of_def text_json_def options_ok_def clock_ok_def)

lemma final_liveness_valid:
  assumes env: "options_ok env" and out: "outcome_ok env out"
    and run: "case run of Some a \<Rightarrow> active_good env a | None \<Rightarrow> True"
    and lv: "validate_liveness (ev_dp (me_store env)) lv0 = None"
  shows "validate_liveness (ev_dp (me_store env)) (final_liveness env now out run lv0) = None"
proof -
  let ?dp = "ev_dp (me_store env)"
  obtain L where L: "lv0 = JObj L" using lv by (cases lv0) (simp_all add: validate_liveness_def)
  define base where "base = (case run of
              Some a \<Rightarrow> (case ar_lastEligible a of
                  Some act \<Rightarrow> putp ''lastEligibleActivity'' act (spread lv0) | None \<Rightarrow> spread lv0)
            | None \<Rightarrow> spread lv0)"
  have base: "validate_liveness ?dp (JObj base) = None"
    using run lv L by (auto simp: base_def active_good_def valid_liveness_activity split: option.splits)
  show ?thesis
  proof (cases "fo_stallReason out")
    case (Some stall)
    have "watchdog_error ?dp (watchdog_json env stall (fo_errorCode out) (iso_of env now)) = None"
      using out Some by (intro watchdog_valid env) (auto simp: outcome_ok_def)
    from valid_liveness_cessation [OF valid_liveness_watchdog [OF base this] cessation_valid [OF env]]
    show ?thesis by (simp add: final_liveness_def Some base_def)
  next
    case None
    show ?thesis
    proof (cases "fo_cessationBasis out")
      case (Some b)
      then have "(''confirmed'', b) \<in> {(''unknown'', ''watchdog''), (''confirmed'', ''documented_handler_return''),
          (''confirmed'', ''resource_quiescence'')}" using out by (auto simp: outcome_ok_def)
      from valid_liveness_cessation [OF base cessation_valid [OF env this]]
      show ?thesis by (simp add: final_liveness_def None Some base_def)
    next
      case n: None
      show ?thesis using base by (simp add: final_liveness_def None n base_def)
    qed
  qed
qed

text \<open>The record of a run and its receipt belong together.\<close>

definition same_run :: "active_run \<Rightarrow> js_object \<Rightarrow> bool" where
  "same_run a r \<longleftrightarrow> ar_sessionId a = getp r ''sessionId'' \<and> ar_runtime a = getp r ''runtime''"

lemma final_shadow_valid:
  assumes "active_good env a" and "same_run a r" and "duration_storable now a" and "receipt_ok dp r"
    and "truthy (final_shadow now (Some a) r)"
  shows "validate_phase7_shadow (final_shadow now (Some a) r) = None" and "is_text ''pi'' (getp r ''runtime'')"
    and "strict_eq (prp (prp (final_shadow now (Some a) r) ''affinity'') ''sessionId'') (getp r ''sessionId'')"
proof -
  have "validate_phase7_shadow (final_shadow now (Some a) r) = None \<and> is_text ''pi'' (getp r ''runtime'')
    \<and> strict_eq (prp (prp (final_shadow now (Some a) r) ''affinity'') ''sessionId'') (getp r ''sessionId'')"
  proof (cases "ar_shadow a")
    case None
    then have f: "final_shadow now (Some a) r = getp r ''phase7Shadow''" by (simp add: final_shadow_def)
    with assms(5) have "getp r ''phase7Shadow'' \<noteq> JUndef" by auto
    with assms(4) show ?thesis by (simp add: f receipt_ok_checks field_checks_def Let_def)
  next
    case (Some s)
    then obtain sid msg events where s: "sid \<noteq> []" "byte_length msg \<le> 10000000" "ar_sessionId a = JStr sid"
        "ar_runtime a = text_json ''pi''" "s = shadow_run events (create_shadow (classify_shadow sid msg) (ar_acceptedAtMs a))"
      using assms(1) by (auto simp: active_good_def shadow_good_def)
    have c: "sh_classification s = classify_shadow sid msg"
      using shadow_run_keeps [of events "create_shadow (classify_shadow sid msg) (ar_acceptedAtMs a)"] s(5)
      by (simp add: create_shadow_def)
    have f: "final_shadow now (Some a) r = JObj (finalize_shadow s now)" by (simp add: final_shadow_def Some)
    have "validate_phase7_shadow (JObj (finalize_shadow s now)) = None"
      using shadow_validates [OF s(1,2)] assms(3) s(5) by (simp add: duration_storable_def Some)
    moreover have "prp (prp (JObj (finalize_shadow s now)) ''affinity'') ''sessionId'' = JStr sid"
      by (simp add: prop_JObj_getp finalized(5) [OF c] classified getp_Cons)
    moreover have "getp r ''runtime'' = text_json ''pi''" "getp r ''sessionId'' = JStr sid"
      using assms(2) s(3,4) by (simp_all add: same_run_def)
    ultimately show ?thesis by (simp add: f is_text_def text_json_def)
  qed
  then show "validate_phase7_shadow (final_shadow now (Some a) r) = None" "is_text ''pi'' (getp r ''runtime'')"
    "strict_eq (prp (prp (final_shadow now (Some a) r) ''affinity'') ''sessionId'') (getp r ''sessionId'')"
    by simp_all
qed

lemma final_evidence_valid:
  assumes "active_good env a" and "outcome_ok env out"
  shows "validate_output_evidence (final_evidence out (Some a) r) = None"
proof (cases "fo_outputEvidence out = JUndef")
  case True
  with assms(1) show ?thesis by (simp add: final_evidence_def nullish_def evidence_valid active_good_def)
next
  case False
  then have "validate_output_evidence (fo_outputEvidence out) = None" using assms(2) by (simp add: outcome_ok_def)
  with False show ?thesis
    by (cases "fo_outputEvidence out") (simp_all add: final_evidence_def nullish_def validate_output_evidence_def)
qed

lemma receipt_liveness:
  "receipt_ok dp r \<Longrightarrow> truthy (getp r ''liveness'') \<Longrightarrow> validate_liveness dp (getp r ''liveness'') = None"
proof -
  assume "receipt_ok dp r"
  then have "getp r ''liveness'' = JUndef \<or> validate_liveness dp (getp r ''liveness'') = None"
    unfolding receipt_ok_checks field_checks_def Let_def no_error_simps when_set_None by (elim conjE)
  then show "truthy (getp r ''liveness'') \<Longrightarrow> validate_liveness dp (getp r ''liveness'') = None" by auto
qed

lemma finish_patch_valid:
  assumes env: "options_ok env" and out: "outcome_ok env out" and a: "active_good env a" and same: "same_run a r"
    and cap: "capture_storable (completion_capture env a)" and dur: "duration_storable now a"
    and ok: "receipt_ok (ev_dp (me_store env)) r"
  shows "carries (ev_dp (me_store env)) r (merge_props r (finish_patch env now out (Some a) r))"
proof -
  let ?dp = "ev_dp (me_store env)"
  define r1 where "r1 = putp ''terminalAt'' (iso_of env now) (putp ''errorCode'' (error_json (fo_errorCode out)) r)"
  define r2 where "r2 = merge_props r1 (case final_text_snapshot (ar_finalText a) of
      Some (t, b) \<Rightarrow> [(js ''finalText'', JStr t), (js ''finalTextTruncated'', JBool b)] | None \<Rightarrow> [])"
  define r3 where "r3 = merge_props r2 (completion_capture env a)"
  define r4 where "r4 = merge_props r3 (if truthy (getp r ''liveness'')
      then [(js ''liveness'', final_liveness env now out (Some a) (getp r ''liveness''))] else [])"
  define r5 where "r5 = merge_props r4 (when_truthy ''outputEvidence'' (final_evidence out (Some a) r))"
  define r6 where "r6 = merge_props r5 (when_truthy ''phase7Shadow'' (final_shadow now (Some a) r))"
  have r6: "merge_props r (finish_patch env now out (Some a) r) = r6"
    by (simp only: finish_patch_def r6_def r5_def r4_def r3_def r2_def r1_def merge_append merge_Cons merge_Nil option.case)
  have c1: "carries ?dp r r1"
    using ok out by (simp add: carries_def r1_def valid_put_terminalAt valid_put_error outcome_ok_def)
  have "length t \<le> final_text_max_chars" if "final_text_snapshot (ar_finalText a) = Some (t, b)" for t b
    using a that by (auto simp: active_good_def dest: snapshot_bounded)
  with c1 have c2: "carries ?dp r r2"
    by (auto simp: carries_def r2_def merge_Cons valid_put_final_text split: option.split)
  have c3: "carries ?dp r r3" unfolding r3_def by (rule carries_capture [OF c2 cap])
  have "validate_liveness ?dp (getp r ''liveness'') = None" if "truthy (getp r ''liveness'')"
    by (rule receipt_liveness [OF ok that])
  from final_liveness_valid [OF env out _ this, of "Some a" now] a c3 have c4: "carries ?dp r r4"
    by (simp add: carries_def r4_def merge_Cons valid_put_liveness)
  have c5: "carries ?dp r r5"
    using c4 final_evidence_valid [OF a out, of r]
    by (simp add: carries_def r5_def when_truthy_def merge_Cons valid_put_evidence)
  have c6: "carries ?dp r r6"
  proof (cases "truthy (final_shadow now (Some a) r)")
    case True
    note sh = final_shadow_valid [OF a same dur ok True]
    from True show ?thesis
      using c5 valid_put_shadow [of ?dp r5, OF _ sh(1)] sh(2,3)
      by (simp add: carries_def r6_def when_truthy_def merge_Cons)
  next
    case False
    with c5 show ?thesis by (simp add: r6_def when_truthy_def)
  qed
  then show ?thesis by (simp add: r6)
qed

subsection \<open>The store's transition\<close>

lemma delete_all_succeeds: "(\<And>k. io_unlink io k) \<Longrightarrow> \<exists>t. delete_all env io ks s = (Inr (), t)"
proof (induction ks arbitrary: s)
  case (Cons k ks)
  have "\<exists>t. delete_receipt env io k s = (Inr (), t)" using Cons.prems by (simp add: delete_receipt_def Let_def)
  then obtain t where "delete_receipt env io k s = (Inr (), t)" by blast
  with Cons.IH [OF Cons.prems, of t] show ?case by simp
qed simp

lemma prune_succeeds: "(\<And>k. io_unlink io k) \<Longrightarrow> \<exists>t. prune env io now s = (Inr (), t)"
proof -
  assume io: "\<And>k. io_unlink io k"
  obtain t where "delete_all env io (map run_id (too_old env now s)) s = (Inr (), t)"
    using delete_all_succeeds [OF io] by blast
  moreover obtain u where "delete_all env io (map run_id (too_many env now t)) t = (Inr (), u)"
    using delete_all_succeeds [OF io] by blast
  ultimately show ?thesis by (simp add: prune_def)
qed

definition store_ready :: "receipt_env \<Rightarrow> receipt_store \<Rightarrow> bool" where
  "store_ready env s \<longleftrightarrow> rs_ready s \<and> cache_ok env s"

definition io_ok :: "receipt_io \<Rightarrow> bool" where
  "io_ok io \<longleftrightarrow> (\<forall>k. io_write io k \<and> io_unlink io k)"

lemma commit_done:
  "receipt_ok (ev_dp env) r \<Longrightarrow> run_id r = k \<Longrightarrow> io_ok io \<Longrightarrow> commit env io k r s = (Inr (), written env k r s)"
  by (cases "ev_hasDir env") (simp_all add: commit_def persist_def receipt_ok_def io_ok_def written_def)

lemma transition_done:
  assumes io: "io_ok io" and ready: "store_ready env s" and cur: "jm_get (rs_cache s) k = Some r"
    and legal: "is_legal_transition (getp r ''status'') status"
    and ok: "receipt_ok (ev_dp env) (transition_next env now status patch clear r)"
    and rid: "run_id (transition_next env now status patch clear r) = k"
  shows "\<exists>t. transition env io now k status patch clear s = (Inr (transition_next env now status patch clear r), t)
    \<and> (receipt_good env k (transition_next env now status patch clear r) \<and> status \<notin> set terminal_statuses \<longrightarrow>
         store_ready env t \<and> jm_get (rs_cache t) k = Some (transition_next env now status patch clear r))"
proof -
  let ?n = "transition_next env now status patch clear r"
  obtain s1 where c: "commit env io k ?n s = (Inr (), s1)" "rs_cache s1 = jm_set k ?n (rs_cache s)" "rs_ready s1 = rs_ready s"
    using commit_done [OF ok rid io, of s] by (simp add: written_def)
  obtain t where p: "prune env io now s1 = (Inr (), t)" using prune_succeeds [of io env now s1] io by (auto simp: io_ok_def)
  have tr: "transition env io now k status patch clear s = (Inr ?n, t)"
    using ready cur legal c(1) p by (simp add: transition_def store_ready_def)
  have "store_ready env t \<and> jm_get (rs_cache t) k = Some ?n"
    if good: "receipt_good env k ?n" and nt: "status \<notin> set terminal_statuses"
  proof -
    have ck: "cache_ok env s1" using ready good c(2) by (auto simp: cache_ok_def store_ready_def)
    have sh: "shrinks (prunable env now s1) s1 t" using shrinks_prune [OF ck, of now io] p by simp
    have "\<not> is_terminal ?n"
      using nt by (auto simp: transition_next_def Let_def is_terminal_def Receipt_Schema.one_of_def text_json_def)
    then have "k \<notin> prunable env now s1" by (simp add: prunable_def c(2))
    moreover have "jm_get (rs_cache s1) k = Some ?n" by (simp add: c(2))
    ultimately have "jm_get (rs_cache t) k = Some ?n" using sh unfolding shrinks_def by metis
    moreover have "rs_ready t" using sh c(3) ready by (simp add: store_ready_def shrinks_def)
    ultimately show ?thesis using cache_ok_shrinks [OF ck sh] by (simp add: store_ready_def)
  qed
  with tr show ?thesis by blast
qed

subsection \<open>Every run can be finished\<close>

definition ends_slot :: "manager_env \<Rightarrow> json \<Rightarrow> active_run \<Rightarrow> js_object \<Rightarrow> manager_effect list \<Rightarrow> run_manager \<Rightarrow> bool" where
  "ends_slot env k a t fx m' \<longleftrightarrow> jm_get (rm_active m') k = None
     \<and> (case ar_lease a of
          None \<Rightarrow> releases fx = []
        | Some l \<Rightarrow> if drains env t then releases fx = [] \<and> map_option de_lease (jm_get (rm_draining m') k) = Some l
                    else releases fx = [l])"

lemma terminalize_done:
  assumes "jm_get (rm_active m) k = Some a" and "run_id t = k"
  shows "\<exists>fx m'. terminalize env mo t m = (Inr (), fx, m') \<and> ends_slot env k a t fx m'"
proof -
  let ?m = "forget_active k (getp t ''sessionId'') a m"
  obtain m1 fx where r: "resolve_waiters k (public_receipt t) ?m = (Inr (), fx, m1)" "releases fx = []"
      "rm_active m1 = rm_active ?m" "rm_draining m1 = rm_draining ?m"
    by (cases "jm_get (rm_waiters ?m) k") (auto simp: resolve_waiters_def)
  have gone: "jm_get (rm_active ?m) k = None" by (simp add: forget_active_def Let_def)
  show ?thesis
    using assms r gone
    by (cases "ar_lease a")
       (auto simp: terminalize_def mbind_def mdo_def mret_def let_go_def drain_and_release_def ends_slot_def)
qed

lemma fire_done: "\<exists>fx. fire_completion_listeners k t m = (Inr (), fx, m) \<and> releases fx = []"
  by (simp add: fire_completion_listeners_def mret_def mdo_def)

text \<open>A run as the manager keeps it while it is active: its record and its receipt.\<close>

definition alive :: "manager_env \<Rightarrow> json \<Rightarrow> active_run \<Rightarrow> js_object \<Rightarrow> run_manager \<Rightarrow> bool" where
  "alive env k a r m \<longleftrightarrow> store_ready (me_store env) (rm_store m) \<and> jm_get (rm_active m) k = Some a
     \<and> receipt_in m k = Some r \<and> \<not> is_terminal r \<and> active_good env a \<and> same_run a r"

lemma final_next:
  assumes env: "options_ok env" and out: "outcome_ok env out" and al: "alive env k a r m"
    and cap: "capture_storable (completion_capture env a)" and dur: "duration_storable now a"
  defines "n \<equiv> transition_next (me_store env) now (finish_status out) (finish_patch env now out (Some a) r) False r"
  shows "receipt_ok (ev_dp (me_store env)) n" and "run_id n = k"
    and "getp n ''status'' = text_json (finish_status out)"
proof -
  let ?dp = "ev_dp (me_store env)"
  have good: "receipt_good (me_store env) k r"
    using al by (auto simp: alive_def store_ready_def get_receipt_def dest: cache_okD)
  define p where "p = merge_props r (finish_patch env now out (Some a) r)"
  have c: "carries ?dp r p"
    unfolding p_def using al good
    by (intro finish_patch_valid env out cap dur) (auto simp: alive_def receipt_good_def)
  have st: "Receipt_Schema.one_of [''accepted'', ''queued'', ''started'', ''completed'', ''failed'', ''cancelled'', ''interrupted'']
      (text_json (finish_status out))"
    using out by (auto simp: outcome_ok_def Receipt_Schema.one_of_def text_json_def)
  have n: "n = putp ''status'' (text_json (finish_status out)) p \<or>
      n = putp ''terminalAt'' (iso_of env now) (putp ''status'' (text_json (finish_status out)) p)"
    by (simp add: n_def transition_next_def Let_def p_def)
  show "receipt_ok ?dp n"
    using n c st valid_put_status [of ?dp p "text_json (finish_status out)"] valid_put_terminalAt [of ?dp "putp ''status'' (text_json (finish_status out)) p"]
    by (auto simp: carries_def)
  show "run_id n = k" using n c good by (auto simp: carries_def run_id_def receipt_good_def)
  show "getp n ''status'' = text_json (finish_status out)" using n by auto
qed

lemma finish_started_done:
  assumes env: "options_ok env" and io: "io_ok io" and out: "outcome_ok env out" and al: "alive env k a r m"
    and cap: "capture_storable (completion_capture env a)" and dur: "duration_storable (at_now mo) a"
    and legal: "is_legal_transition (getp r ''status'') (finish_status out)"
  defines "n \<equiv> transition_next (me_store env) (at_now mo) (finish_status out) (finish_patch env (at_now mo) out (Some a) r) False r"
  shows "\<exists>fx m'. finish_started env io mo k out m = (Inr (Some (public_receipt n)), fx, m')
    \<and> is_text (finish_status out) (getp n ''status'') \<and> ends_slot env k a n fx m'"
proof -
  let ?n = "transition_next (me_store env) (at_now mo) (finish_status out) (finish_patch env (at_now mo) out (Some a) r) False r"
  note n = final_next [OF env out al cap dur]
  have cur: "jm_get (rs_cache (rm_store m)) k = Some r" "store_ready (me_store env) (rm_store m)"
      "jm_get (rm_active m) k = Some a"
    using al by (simp_all add: alive_def get_receipt_def)
  obtain s where tr: "transition (me_store env) io (at_now mo) k (finish_status out) (finish_patch env (at_now mo) out (Some a) r) False (rm_store m)
      = (Inr ?n, s)"
    using transition_done [OF io cur(2,1) legal n(1,2)] by blast
  obtain fx m' where t: "terminalize env mo ?n (m \<lparr> rm_store := s \<rparr>) = (Inr (), fx, m')" "ends_slot env k a ?n fx m'"
    using terminalize_done [of "m \<lparr> rm_store := s \<rparr>" k a ?n env mo] cur(3) n(2) by auto
  obtain fy where f: "fire_completion_listeners k ?n m' = (Inr (), fy, m')" "releases fy = []"
    using fire_done by blast
  have "finish_started env io mo k out m = (Inr (Some (public_receipt ?n)), fx @ fy, m')"
    using cur tr t f by (simp add: finish_started_def get_receipt_def mbind_def on_store_def mret_def)
  moreover have "ends_slot env k a ?n (fx @ fy) m'"
    using t(2) f(2) by (cases "ar_lease a") (simp_all add: ends_slot_def)
  moreover have "is_text (finish_status out) (getp ?n ''status'')" by (simp add: n(3) is_text_def text_json_def)
  ultimately show ?thesis unfolding n_def by blast
qed

lemma alive_status:
  assumes "alive env k a r m"
  shows "getp r ''status'' \<in> {text_json ''accepted'', text_json ''queued'', text_json ''started''}"
proof -
  have "receipt_good (me_store env) k r"
    using assms by (auto simp: alive_def store_ready_def get_receipt_def dest: cache_okD)
  then have "Receipt_Schema.one_of [''accepted'', ''queued'', ''started'', ''completed'', ''failed'', ''cancelled'', ''interrupted'']
      (getp r ''status'')"
    by (simp add: receipt_good_def receipt_ok_checks identity_checks_def Let_def)
  then show ?thesis
    using assms by (cases "getp r ''status''")
      (auto simp: Receipt_Schema.one_of_def is_terminal_def terminal_statuses_def alive_def text_json_def)
qed

lemma started_next:
  fixes now :: int
  assumes env: "options_ok env" and al: "alive env k a r m"
  defines "n \<equiv> transition_next (me_store env) now ''started'' [(js ''startedAt'', nullish (getp r ''startedAt'') (iso_of env now))] False r"
  shows "receipt_good (me_store env) k n" and "same_run a n" and "is_text ''started'' (getp n ''status'')" and "\<not> is_terminal n"
proof -
  have good: "receipt_good (me_store env) k r"
    using al by (auto simp: alive_def store_ready_def get_receipt_def dest: cache_okD)
  have n: "n = putp ''status'' (text_json ''started'') (putp ''startedAt'' (nullish (getp r ''startedAt'') (iso_of env now)) r)"
    by (simp add: n_def transition_next_def Let_def merge_Cons terminal_statuses_def)
  have "json_wf (nullish (getp r ''startedAt'') (iso_of env now))"
    using good by (simp add: nullish_def receipt_good_def json_wf_getp)
  moreover have "Receipt_Schema.one_of [''accepted'', ''queued'', ''started'', ''completed'', ''failed'', ''cancelled'', ''interrupted'']
      (text_json ''started'')" by (simp add: Receipt_Schema.one_of_def text_json_def)
  ultimately show "receipt_good (me_store env) k n"
    using good unfolding n receipt_good_def
    by (auto simp: run_id_def intro!: valid_put_status valid_put_startedAt)
  show "same_run a n" using al by (simp add: n same_run_def alive_def)
  show "is_text ''started'' (getp n ''status'')" by (simp add: n is_text_def text_json_def)
  show "\<not> is_terminal n"
    by (simp add: n is_terminal_def Receipt_Schema.one_of_def text_json_def terminal_statuses_def)
qed

lemma mark_started_done:
  assumes env: "options_ok env" and io: "io_ok io" and al: "alive env k a r m"
    and ns: "\<not> is_text ''started'' (getp r ''status'')"
  shows "\<exists>p m' r'. mark_started_unlocked env io now k m = (Inr p, [], m')
    \<and> alive env k (a \<lparr> ar_startedAtMs := Some now, ar_lastActivityAtMs := now \<rparr>) r' m' \<and> is_text ''started'' (getp r' ''status'')"
proof -
  let ?patch = "[(js ''startedAt'', nullish (getp r ''startedAt'') (iso_of env now))]"
  let ?n = "transition_next (me_store env) now ''started'' ?patch False r"
  let ?a = "a \<lparr> ar_startedAtMs := Some now, ar_lastActivityAtMs := now \<rparr>"
  note n = started_next [OF env al, of now]
  have cur: "jm_get (rs_cache (rm_store m)) k = Some r" "store_ready (me_store env) (rm_store m)"
      "jm_get (rm_active m) k = Some a" "\<not> is_terminal r"
    using al by (simp_all add: alive_def get_receipt_def)
  have "is_text ''accepted'' (getp r ''status'') \<or> is_text ''queued'' (getp r ''status'')"
    using alive_status [OF al] ns by (auto simp: is_text_def text_json_def)
  then have legal: "is_legal_transition (getp r ''status'') ''started''"
    by (auto simp: is_legal_transition_def is_text_def)
  have "receipt_ok (ev_dp (me_store env)) ?n" "run_id ?n = k" using n(1) by (simp_all add: receipt_good_def)
  from transition_done [OF io cur(2,1) legal this] n(1) obtain s where
    tr: "transition (me_store env) io now k ''started'' ?patch False (rm_store m) = (Inr ?n, s)"
    and s: "store_ready (me_store env) s" "jm_get (rs_cache s) k = Some ?n"
    by (auto simp: terminal_statuses_def)
  let ?m = "update_active k (\<lambda>a. a \<lparr> ar_startedAtMs := Some now, ar_lastActivityAtMs := now \<rparr>) (m \<lparr> rm_store := s \<rparr>)"
  have "mark_started_unlocked env io now k m = (Inr (Some (public_receipt ?n)), [], ?m)"
    using cur ns tr by (simp add: mark_started_unlocked_def get_receipt_def mbind_def on_store_def mret_def)
  moreover have "active_good env ?a"
    using al by (cases "ar_shadow a") (simp_all add: alive_def active_good_def shadow_good_def)
  moreover from this have "alive env k ?a ?n ?m"
    using s cur n al by (simp add: alive_def update_active_def get_receipt_def same_run_def)
  ultimately show ?thesis using n(3) by blast
qed

lemma finish_now_done:
  assumes "options_ok env" and "io_ok io" and "outcome_ok env out" and "alive env k a r m" and "rm_init m = Initialised"
    and "capture_storable (completion_capture env a)" and "duration_storable (at_now mo) a"
    and "finish_status out = ''completed'' \<longrightarrow> is_text ''started'' (getp r ''status'')"
  defines "n \<equiv> transition_next (me_store env) (at_now mo) (finish_status out) (finish_patch env (at_now mo) out (Some a) r) False r"
  shows "\<exists>fx m'. finish env io mo k out m = (Inr (Some (public_receipt n)), fx, m')
    \<and> is_text (finish_status out) (getp n ''status'') \<and> ends_slot env k a n fx m'"
proof -
  let ?m = "m \<lparr> rm_watchdog := True \<rparr>"
  have al: "alive env k a r ?m" using assms(4) by (simp add: alive_def)
  have init: "manager_init env io (at_now mo) m = (Inr (), [], ?m)" using assms(5) by (simp add: manager_init_def)
  have "is_legal_transition (getp r ''status'') (finish_status out)"
    using alive_status [OF al] assms(3,8)
    by (auto simp: is_legal_transition_def is_text_def text_json_def outcome_ok_def)
  from finish_started_done [OF assms(1-3) al assms(6,7) this] obtain fx m' where
      "finish_started env io mo k out ?m = (Inr (Some (public_receipt n)), fx, m')"
      "is_text (finish_status out) (getp n ''status'')" "ends_slot env k a n fx m'" unfolding n_def by blast
  moreover have "finish_unlocked env io mo k out ?m = finish_started env io mo k out ?m"
    using assms(8) al by (auto simp: finish_unlocked_def alive_def)
  ultimately show ?thesis by (simp add: finish_def mbind_def init)
qed

lemma finish_ends_run_aux:
  assumes "options_ok env" and "io_ok io" and "rm_init m = Initialised" and "alive env k a r m" and "outcome_ok env out"
    and "capture_storable (completion_capture env a)" and "duration_storable (at_now mo) a"
  shows "\<exists>t fx m'. finish env io mo k out m = (Inr (Some (public_receipt t)), fx, m')
    \<and> is_text (finish_status out) (getp t ''status'') \<and> ends_slot env k a t fx m'"
proof -
  let ?m = "m \<lparr> rm_watchdog := True \<rparr>"
  have al: "alive env k a r ?m" using assms(4) by (simp add: alive_def)
  have init: "manager_init env io (at_now mo) m = (Inr (), [], ?m)" using assms(3) by (simp add: manager_init_def)
  have cur: "receipt_in ?m k = Some r" "\<not> is_terminal r" using al by (simp_all add: alive_def)
  have "\<exists>t fx m'. finish_unlocked env io mo k out ?m = (Inr (Some (public_receipt t)), fx, m')
    \<and> is_text (finish_status out) (getp t ''status'') \<and> ends_slot env k a t fx m'"
  proof (cases "finish_status out = ''completed'' \<and> \<not> is_text ''started'' (getp r ''status'')")
    case True
    then obtain p m1 r1 where st: "mark_started_unlocked env io (at_now mo) k ?m = (Inr p, [], m1)"
        "alive env k (a \<lparr> ar_startedAtMs := Some (at_now mo), ar_lastActivityAtMs := at_now mo \<rparr>) r1 m1"
        "is_text ''started'' (getp r1 ''status'')"
      using mark_started_done [OF assms(1,2) al, of "at_now mo"] by blast
    let ?a = "a \<lparr> ar_startedAtMs := Some (at_now mo), ar_lastActivityAtMs := at_now mo \<rparr>"
    have "capture_storable (completion_capture env ?a)" "duration_storable (at_now mo) ?a"
      using assms(6,7) by (simp_all add: completion_capture_def duration_storable_def)
    moreover have "is_legal_transition (getp r1 ''status'') (finish_status out)"
      using st(3) True by (simp add: is_legal_transition_def is_text_def)
    ultimately obtain t fx m' where "finish_started env io mo k out m1 = (Inr (Some (public_receipt t)), fx, m')"
        "is_text (finish_status out) (getp t ''status'')" "ends_slot env k ?a t fx m'"
      using finish_started_done [OF assms(1,2,5) st(2)] by blast
    moreover from this(3) have "ends_slot env k a t fx m'" by (cases "ar_lease a") (simp_all add: ends_slot_def)
    ultimately show ?thesis using True cur st(1) by (simp add: finish_unlocked_def mbind_def) blast
  next
    case False
    then have "finish_status out = ''completed'' \<longrightarrow> is_text ''started'' (getp r ''status'')" by blast
    from finish_now_done [OF assms(1,2,5) al _ assms(6,7) this] assms(3)
    show ?thesis by (auto simp: finish_def mbind_def manager_init_def)
  qed
  then show ?thesis by (auto simp: finish_def mbind_def init)
qed

text \<open>Where the receipt that \<open>finish\<close> would write is refused by the store, nothing changes.\<close>

lemma getp_final_next:
  assumes "k \<in> {''completion'', ''completionDelimiter'', ''completionError''}" and "jm_has (completion_capture env a) (js k)"
  shows "getp (transition_next st now status (finish_patch env now out (Some a) r) False r) k = getp (completion_capture env a) k"
proof -
  have m: "getp (merge_props r' (completion_capture env a)) k = getp (completion_capture env a) k" for r'
    using assms by (cases rule: capture_cases [of env a]) (auto simp: merge_Cons getp_Cons getp_Nil jm_has_def)
  have "getp (merge_props r (finish_patch env now out (Some a) r)) k = getp (completion_capture env a) k"
    unfolding finish_patch_def merge_append option.case
    using m assms(1) by (auto simp: when_truthy_def merge_Cons)
  with assms(1) show ?thesis by (auto simp: transition_next_def Let_def)
qed

lemma getp_final_liveness:
  assumes "truthy (getp r ''liveness'')"
  shows "getp (transition_next st now status (finish_patch env now out (Some a) r) False r) ''liveness''
    = final_liveness env now out (Some a) (getp r ''liveness'')"
proof -
  have "getp (merge_props r (finish_patch env now out (Some a) r)) ''liveness''
      = final_liveness env now out (Some a) (getp r ''liveness'')"
    using assms unfolding finish_patch_def merge_append option.case by (auto simp: when_truthy_def merge_Cons)
  then show ?thesis by (auto simp: transition_next_def Let_def)
qed

lemma receipt_completion:
  assumes "receipt_ok dp r"
  shows "getp r ''completion'' = JUndef \<or> validate_stored_completion (getp r ''completion'') = None"
    and "getp r ''completionError'' = JUndef \<or> validate_stored_completion_error (getp r ''completionError'') = None"
    and "getp r ''completionDelimiter'' = JUndef \<or> getp r ''completion'' \<noteq> JUndef"
proof -
  have "no_error (evidence_checks r)" using assms by (simp add: receipt_ok_checks)
  note e = this [unfolded evidence_checks_def Let_def no_error_simps when_set_None check_None]
  show "getp r ''completion'' = JUndef \<or> validate_stored_completion (getp r ''completion'') = None"
    "getp r ''completionError'' = JUndef \<or> validate_stored_completion_error (getp r ''completionError'') = None"
    "getp r ''completionDelimiter'' = JUndef \<or> getp r ''completion'' \<noteq> JUndef"
    using e by simp_all
qed

lemma getp_final_shadow:
  assumes "ar_shadow a = Some s"
  shows "getp (transition_next st now status (finish_patch env now out (Some a) r) False r) ''phase7Shadow''
    = JObj (finalize_shadow s now)"
proof -
  have "getp (merge_props r (finish_patch env now out (Some a) r)) ''phase7Shadow'' = JObj (finalize_shadow s now)"
    using assms unfolding finish_patch_def merge_append option.case
    by (simp add: when_truthy_def merge_Cons final_shadow_def)
  then show ?thesis by (auto simp: transition_next_def Let_def)
qed

lemma long_run_unstorable:
  assumes "active_good env a" and "\<not> duration_storable now a"
  shows "\<not> receipt_ok dp (transition_next st now status (finish_patch env now out (Some a) r) False r)"
proof
  let ?n = "transition_next st now status (finish_patch env now out (Some a) r) False r"
  assume ok: "receipt_ok dp ?n"
  obtain s where s: "ar_shadow a = Some s" "604800000 < now - ar_acceptedAtMs a"
    using assms(2) by (auto simp: duration_storable_def)
  then obtain sid msg events where g: "sid \<noteq> []" "byte_length msg \<le> 10000000"
      "s = shadow_run events (create_shadow (classify_shadow sid msg) (ar_acceptedAtMs a))"
    using assms(1) by (auto simp: active_good_def shadow_good_def)
  have "getp ?n ''phase7Shadow'' = JUndef \<or> validate_phase7_shadow (getp ?n ''phase7Shadow'') = None"
    using ok unfolding receipt_ok_checks field_checks_def Let_def no_error_simps when_set_None by (elim conjE)
  then show False
    using shadow_validates [OF g(1,2), of events "ar_acceptedAtMs a" now] s(2) by (simp add: getp_final_shadow [OF s(1)] g(3))
qed

lemma unstorable_next:
  assumes "\<not> capture_storable (completion_capture env a)"
  shows "\<not> receipt_ok dp (transition_next st now status (finish_patch env now out (Some a) r) False r)"
proof
  let ?n = "transition_next st now status (finish_patch env now out (Some a) r) False r"
  let ?c = "completion_capture env a"
  assume "receipt_ok dp ?n"
  note v = receipt_completion [OF this]
  show False
  proof (cases rule: capture_cases [of env a])
    case 1
    then show False using assms by (simp add: capture_storable_def jm_has_def)
  next
    case (2 w d)
    have "getp ?n ''completion'' = w" "getp ?n ''completionDelimiter'' = text_json d"
      using getp_final_next [of "''completion''"] getp_final_next [of "''completionDelimiter''"] 2 by (simp_all add: jm_has_def getp_Cons)
    with v assms 2 show False
      by (auto simp: capture_storable_def jm_has_def getp_Cons text_json_def)
  next
    case (3 w)
    have "getp ?n ''completionError'' = JObj w"
      using getp_final_next [of "''completionError''"] 3 by (simp add: jm_has_def getp_Cons)
    with v(2) assms 3 show False
      by (auto simp: capture_storable_def jm_has_def getp_Cons validate_stored_completion_error_def)
  qed
qed

lemma finish_started_stuck:
  assumes "alive env k a r m" and "\<not> (capture_storable (completion_capture env a) \<and> duration_storable (at_now mo) a)"
  shows "\<exists>e s. finish_started env io mo k out m = (Inl e, [], m \<lparr> rm_store := s \<rparr>)"
proof -
  have cur: "jm_get (rs_cache (rm_store m)) k = Some r" "rs_ready (rm_store m)" "jm_get (rm_active m) k = Some a"
    using assms(1) by (simp_all add: alive_def get_receipt_def store_ready_def)
  have "validate_receipt (ev_dp (me_store env)) (transition_next (me_store env) (at_now mo) (finish_status out)
      (finish_patch env (at_now mo) out (Some a) r) False r) \<noteq> None"
    using unstorable_next [of env a] long_run_unstorable [of env a] assms by (auto simp: receipt_ok_def alive_def)
  moreover have "\<exists>s. m = m \<lparr> rm_store := s \<rparr>" by (rule exI [of _ "rm_store m"]) simp
  ultimately show ?thesis
    using cur by (auto simp: finish_started_def get_receipt_def mbind_def on_store_def transition_def commit_def)
qed

lemma finish_refused_aux:
  assumes "options_ok env" and "io_ok io" and "rm_init m = Initialised" and "alive env k a r m"
    and "\<not> (capture_storable (completion_capture env a) \<and> duration_storable (at_now mo) a)"
  shows "\<exists>e fx m'. finish env io mo k out m = (Inl e, fx, m') \<and> releases fx = []
    \<and> map_option ar_lease (jm_get (rm_active m') k) = Some (ar_lease a)"
proof -
  let ?m = "m \<lparr> rm_watchdog := True \<rparr>"
  have al: "alive env k a r ?m" using assms(4) by (simp add: alive_def)
  have init: "manager_init env io (at_now mo) m = (Inr (), [], ?m)" using assms(3) by (simp add: manager_init_def)
  have cur: "receipt_in ?m k = Some r" "\<not> is_terminal r" using al by (simp_all add: alive_def)
  have "\<exists>e m'. finish_unlocked env io mo k out ?m = (Inl e, [], m')
    \<and> map_option ar_lease (jm_get (rm_active m') k) = Some (ar_lease a)"
  proof (cases "finish_status out = ''completed'' \<and> \<not> is_text ''started'' (getp r ''status'')")
    case True
    let ?a = "a \<lparr> ar_startedAtMs := Some (at_now mo), ar_lastActivityAtMs := at_now mo \<rparr>"
    obtain p m1 r1 where st: "mark_started_unlocked env io (at_now mo) k ?m = (Inr p, [], m1)" "alive env k ?a r1 m1"
      using mark_started_done [OF assms(1,2) al, of "at_now mo"] True by blast
    have "\<not> (capture_storable (completion_capture env ?a) \<and> duration_storable (at_now mo) ?a)"
      using assms(5) by (simp add: completion_capture_def duration_storable_def)
    then obtain e s where "finish_started env io mo k out m1 = (Inl e, [], m1 \<lparr> rm_store := s \<rparr>)"
      using finish_started_stuck [OF st(2)] by blast
    then show ?thesis using True cur st by (simp add: finish_unlocked_def mbind_def alive_def)
  next
    case False
    obtain e s where "finish_started env io mo k out ?m = (Inl e, [], ?m \<lparr> rm_store := s \<rparr>)"
      using finish_started_stuck [OF al assms(5)] by blast
    moreover have "finish_unlocked env io mo k out ?m = finish_started env io mo k out ?m"
      using False cur by (auto simp: finish_unlocked_def)
    ultimately show ?thesis using al by (simp add: alive_def)
  qed
  then show ?thesis by (auto simp: finish_def mbind_def init)
qed

text \<open>What \<open>capture_storable\<close> asks of a completion block that the schema accepted: commit subjects of at most 1024
  characters and a serialised block of at most four block limits.\<close>

lemma step_parsed:
  assumes "\<forall>b d. px_outcome p = Some (Parsed b d) \<longrightarrow> (\<exists>v. ce_validate e v = Inr b)"
  shows "\<forall>b d. px_outcome (parse_step e p c) = Some (Parsed b d) \<longrightarrow> (\<exists>v. ce_validate e v = Inr b)"
  using assms
  by (auto simp: parse_step_def completion_outcome_def malformed_def split: sum.splits if_splits prod.splits)

lemma steps_parsed:
  "\<forall>b d. px_outcome p = Some (Parsed b d) \<longrightarrow> (\<exists>v. ce_validate e v = Inr b) \<Longrightarrow>
   px_outcome (foldl (parse_step e) p cs) = Some (Parsed b d) \<Longrightarrow> \<exists>v. ce_validate e v = Inr b"
  by (induction cs arbitrary: p) (simp, metis step_parsed foldl_Cons)

lemma verdict_parsed: "parse_verdict e p = Parsed b d \<Longrightarrow> px_outcome p = Some (Parsed b d)"
  by (simp add: parse_verdict_def json_error_def malformed_def no_block_def Let_def
      split: option.splits if_splits sum.splits prod.splits)

lemma parsed_block_validated:
  assumes "parse_completion_block e txt = Parsed b d"
  shows "\<exists>v. ce_validate e v = Inr b"
  using assms
  by (auto simp: parse_completion_block_def no_block_def Let_def dest!: verdict_parsed elim!: steps_parsed [rotated] split: if_splits)

lemma captured_block_storable:
  assumes "ce_validate (me_completion env) = validate_block issue" and "jm_has (completion_capture env a) (js ''completion'')"
  obtains v where "block_accepted v" and "getp (completion_capture env a) ''completion'' = block_data v"
    and "capture_storable (completion_capture env a)
      \<longleftrightarrow> subjects_fit v \<and> length (stringify (block_data v)) \<le> completion_block_max_chars * 4"
proof -
  obtain b d where b: "completion_capture env a = [(js ''completion'', b), (js ''completionDelimiter'', d)]"
      and p: "\<exists>x e. parse_completion_block (me_completion env) x = Parsed b e"
  proof (cases rule: capture_cases [of env a])
    case (2 w d)
    have "\<exists>x e. parse_completion_block (me_completion env) x = Parsed w e"
      using 2 by (simp add: completion_capture_def split: option.splits if_splits completion_result.splits prod.splits) blast
    with 2 show ?thesis using that by blast
  qed (use assms(2) in \<open>simp_all add: jm_has_def\<close>)
  obtain v where v: "block_accepted v" "b = block_data v"
    using p parsed_block_validated assms(1) by (fastforce simp: validate_block_def split: if_splits)
  show ?thesis
    by (rule that [of v]) (simp_all add: v b getp_Cons capture_storable_def jm_has_def block_storable [OF v(1)])
qed

text \<open>C24: What \<open>finish\<close> does to a run as the manager keeps it, for any well-typed outcome and working storage.
  When the completion block captured from the agent's output is within the store's bounds and a run with shadow evidence
  is at most seven days old, it returns the terminal receipt, the run is no longer active, and its admission slot is
  released or, when the runtime is not known to have stopped, held by a drain entry. In every other case it rejects,
  nothing is released, and the run stays active with its lease.\<close>

theorem finish_ends_run:
  assumes "options_ok env" and "io_ok io" and "rm_init m = Initialised" and "alive env k a r m" and "outcome_ok env out"
  shows "if capture_storable (completion_capture env a) \<and> duration_storable (at_now mo) a
    then \<exists>t fx m'. finish env io mo k out m = (Inr (Some (public_receipt t)), fx, m')
      \<and> is_text (finish_status out) (getp t ''status'') \<and> ends_slot env k a t fx m'
    else \<exists>e fx m'. finish env io mo k out m = (Inl e, fx, m') \<and> releases fx = []
      \<and> map_option ar_lease (jm_get (rm_active m') k) = Some (ar_lease a)"
  using finish_ends_run_aux [OF assms, of mo] finish_refused_aux [OF assms(1-4), of mo] by simp

subsection \<open>The watchdog\<close>

definition silent_too_long :: "manager_env \<Rightarrow> int \<Rightarrow> active_run \<Rightarrow> bool" where
  "silent_too_long env now a \<longleftrightarrow> me_idleMs env \<le> now - ar_lastActivityAtMs a \<or> me_maxMs env \<le> now - ar_acceptedAtMs a
     \<or> 0 < me_startWindowMs env \<and> me_startWindowMs env \<le> now - ar_acceptedAtMs a \<and> never_produced_work a"

definition verdict_outcome :: "string \<times> string \<Rightarrow> finish_outcome" where
  "verdict_outcome v = plain_outcome \<lparr> fo_status := Some ''failed'', fo_errorCode := Some (js (fst v)),
     fo_stallReason := Some (snd v) \<rparr>"

lemma verdict_ok:
  assumes "watchdog_verdict env now k m = Some v"
  shows "outcome_ok env (verdict_outcome v)" and "finish_status (verdict_outcome v) = ''failed''"
proof -
  have "v \<in> {(''NEVER_STARTED'', ''no_activity''), (''TURN_STALLED'', ''absolute''), (''TURN_STALLED'', ''no_activity''),
      (''TURN_STALLED'', ''idle'')}" "fst v = ''NEVER_STARTED'' \<Longrightarrow> 0 < me_startWindowMs env"
    using assms by (auto simp: watchdog_verdict_def split: option.splits if_splits)
  moreover have "safe_error_code (js ''NEVER_STARTED'')" "safe_error_code (js ''TURN_STALLED'')"
    by (simp_all add: safe_error_code_def is_digit_def js_def)
  ultimately show "outcome_ok env (verdict_outcome v)" "finish_status (verdict_outcome v) = ''failed''"
    by (auto simp: outcome_ok_def verdict_outcome_def plain_outcome_def finish_status_def error_json_def)
qed

lemma watchdog_finish_ends:
  assumes "finish env io mo k (verdict_outcome v) m = (Inr (Some p), fx, m1)" and "ends_slot env k a t fx m1"
  shows "\<exists>fy m'. watchdog_finish env io mo k v m = (Inr (), fy, m') \<and> ends_slot env k a t fy m'"
proof -
  have "ends_slot env k a t (fx @ [Stalled q]) (m1 \<lparr> rm_stalled := n \<rparr>)" "ends_slot env k a t (fx @ [Never_Started q]) m1" for q n
    using assms(2) by (cases "ar_lease a"; simp add: ends_slot_def)+
  with assms show ?thesis by (simp add: watchdog_finish_def verdict_outcome_def [symmetric])
qed

text \<open>C25: Once a started run, on working storage, has been idle for the idle time-out, or has lived for the maximum turn
  time, or has produced nothing within the start window, the next watchdog tick decides to end it. When the captured
  completion block is within the store's bounds and a run with shadow evidence is at most seven days old, the run is
  failed and its slot let go. In every other case the tick swallows the refusal of \<open>finish\<close>: it reports
  nothing, releases nothing, and the run keeps its slot.\<close>

theorem watchdog_ends_silent_run:
  assumes "options_ok env" and "io_ok io" and "rm_init m = Initialised" and "alive env k a r m"
    and "is_text ''started'' (getp r ''status'')" and "silent_too_long env now a"
  shows "\<exists>v fx m'. watchdog_verdict env now k m = Some v \<and> watchdog_finish env io mo k v m = (Inr (), fx, m')
    \<and> (if capture_storable (completion_capture env a) \<and> duration_storable (at_now mo) a
       then \<exists>t. is_text ''failed'' (getp t ''status'') \<and> ends_slot env k a t fx m'
       else releases fx = [] \<and> map_option ar_lease (jm_get (rm_active m') k) = Some (ar_lease a))"
proof -
  have r: "live_receipt m k = Some r" "jm_get (rm_active m) k = Some a"
    using assms(4) by (simp_all add: live_receipt_def alive_def)
  have "watchdog_verdict env now k m \<noteq> None"
    using assms(5,6) r by (auto simp: watchdog_verdict_def silent_too_long_def)
  then obtain v where v: "watchdog_verdict env now k m = Some v" by blast
  note o = verdict_ok [OF v]
  show ?thesis
  proof (cases "capture_storable (completion_capture env a) \<and> duration_storable (at_now mo) a")
    case True
    then obtain t fx m1 where f: "finish env io mo k (verdict_outcome v) m = (Inr (Some (public_receipt t)), fx, m1)"
        "is_text ''failed'' (getp t ''status'')" "ends_slot env k a t fx m1"
      using finish_ends_run_aux [OF assms(1-4) o(1), of mo] o(2) by auto
    from watchdog_finish_ends [OF f(1,3)] v f(2) True show ?thesis by auto
  next
    case False
    then obtain e fx m' where "finish env io mo k (verdict_outcome v) m = (Inl e, fx, m')" "releases fx = []"
        "map_option ar_lease (jm_get (rm_active m') k) = Some (ar_lease a)"
      using finish_refused_aux [OF assms(1-4)] by blast
    with v show ?thesis by (simp add: watchdog_finish_def verdict_outcome_def if_not_P [OF False])
  qed
qed

text \<open>A run that was accepted and never dispatched is outside the watchdog's reach: while it has produced nothing, no
  tick at any time ends it, neither for idleness nor at the absolute ceiling, so its admission slot stays
  held until some caller finishes it.\<close>

theorem undispatched_run_never_expires:
  assumes "alive env k a r m" and "\<not> is_text ''started'' (getp r ''status'')" and "never_produced_work a"
    and "ar_lastActivityAtMs a = ar_acceptedAtMs a"
    and "0 < me_startWindowMs env" and "me_startWindowMs env \<le> me_idleMs env" and "me_startWindowMs env \<le> me_maxMs env"
  shows "watchdog_verdict env now k m = None"
  using assms by (auto simp: watchdog_verdict_def live_receipt_def alive_def)

subsection \<open>What cannot be stored\<close>

text \<open>C26: What an agent writes can make its run impossible to finish. When the completion block (or the block's error)
  captured from its output is outside the store's bounds, \<open>finish\<close> rejects for every outcome, on working storage:
  nothing is released and the run stays active with its lease.\<close>

theorem unstorable_capture_keeps_slot:
  assumes "options_ok env" and "io_ok io" and "rm_init m = Initialised" and "alive env k a r m"
    and "\<not> capture_storable (completion_capture env a)"
  shows "\<exists>e fx m'. finish env io mo k out m = (Inl e, fx, m') \<and> releases fx = []
    \<and> map_option ar_lease (jm_get (rm_active m') k) = Some (ar_lease a)"
  using finish_refused_aux [OF assms(1-4)] assms(5) by blast

end
