(* ===== verification/Run_Begin.thy ===== *)
theory Run_Begin
  imports Run_Ends
begin

text \<open>
  From the acceptance of a request to the end of its run: what \<open>beginRun\<close> of the run receipt manager stores is valid,
  and \<open>finish\<close> ends the run it makes and gives an attached slot back exactly when what the run left behind can be stored
  (\<open>Run_Ends\<close>).

  \<^item> \<open>request_ok\<close> is what the routes guarantee of a request before they call \<open>beginRun\<close>.
  \<^item> The last section has the concrete runs on which the theorems on the manager are applied.
\<close>

subsection \<open>What \<open>beginRun\<close> stores is valid\<close>

lemma classified_validates:
  assumes "sid \<noteq> []" and "byte_length msg \<le> 10000000"
  shows "validate_phase7_shadow (JObj (classify_shadow sid msg)) = None"
proof -
  obtain rs where rs: "rs \<in> message_reasons"
    "getp (classify_shadow sid msg) ''reasonCodes'' = JArr (if rs = [] then [text_json ''default_standard''] else rs)"
    using classified_reasons by blast
  then obtain a b c where "rs = shadow_reason a ''message_fork_or_memory_signal'' @ shadow_reason b ''message_tool_signal''
      @ shadow_reason c ''prompt_size_threshold''"
    by (auto simp: message_reasons_def)
  then have final: "final_reasons (if rs = [] then [text_json ''default_standard''] else rs)"
    by (cases a; cases b; cases c)
       (simp_all add: shadow_reason_def final_reasons_def text_json_def Receipt_Schema.one_of_def phase7_reason_codes_def)
  have profile: "\<exists>p \<in> {''heavy'', ''standard''}. getp (classify_shadow sid msg) ''profile'' = text_json p"
    by (simp add: classify_shadow_def Let_def getp_Cons)
  have keys: "list_all (\<lambda>k. k \<in> js ` set phase7_shadow_keys) (jm_keys (classify_shadow sid msg))"
    by (simp add: classify_shadow_def Let_def phase7_shadow_keys_def)
  from final profile assms show ?thesis
    by (auto simp: validate_phase7_shadow_def Let_def prop_JObj_getp getp_Cons getp_Nil classified rs(2) keys final_reasons_def
          is_text_def text_json_def Receipt_Schema.one_of_def assert_only_keys_def count_upto_nat_text
          simp del: nat_text.simps safe_int.simps)
qed

text \<open>The request as the routes hand it over: the session and the instance named, the model, mode and effort legal, and
  shadow evidence, if any, from the server's own classifier.\<close>

definition request_ok :: "manager_env \<Rightarrow> begin_input \<Rightarrow> jsstr \<Rightarrow> bool" where
  "request_ok env input rid \<longleftrightarrow>
     safe_run_id rid \<and> bi_sessionId input \<noteq> [] \<and> bi_executionInstanceId input \<noteq> []
     \<and> bi_runtime input \<in> js ` {''pi'', ''claude'', ''opencode'', ''antigravity'', ''commandcode''}
     \<and> (bi_runtime input = js ''commandcode'' \<longrightarrow>
          bi_executionInstanceId input = js ''commandcode-default'' \<and> truthy (nullish (bi_model input) (bi_modelSelector input))
          \<and> (bi_model input \<noteq> JUndef \<and> bi_modelSelector input \<noteq> JUndef \<longrightarrow> strict_eq (bi_model input) (bi_modelSelector input)))
     \<and> (bi_effort input = JUndef \<or> bi_runtime input = js ''commandcode''
          \<and> Receipt_Schema.one_of [''low'', ''medium'', ''high'', ''xhigh'', ''max''] (bi_effort input))
     \<and> bi_mode input \<in> js ` set prompt_modes
     \<and> (bi_dispatchMode input = JUndef \<or> Receipt_Schema.one_of prompt_modes (bi_dispatchMode input))
     \<and> json_wf (bi_model input) \<and> json_wf (bi_modelSelector input)
     \<and> (bi_shadow input = None \<or> bi_runtime input = js ''pi'' \<and> byte_length (bi_message input) \<le> 10000000
          \<and> bi_shadow input = Some (classify_shadow (bi_sessionId input) (bi_message input)))"

lemma request_okD:
  assumes "request_ok env input rid"
  shows "safe_run_id rid" and "bi_sessionId input \<noteq> []" and "bi_executionInstanceId input \<noteq> []"
    and "bi_runtime input \<in> js ` {''pi'', ''claude'', ''opencode'', ''antigravity'', ''commandcode''}"
    and "bi_runtime input = js ''commandcode'' \<Longrightarrow> bi_executionInstanceId input = js ''commandcode-default''"
    and "bi_runtime input = js ''commandcode'' \<Longrightarrow> truthy (nullish (bi_model input) (bi_modelSelector input))"
    and "bi_runtime input = js ''commandcode'' \<Longrightarrow> bi_model input \<noteq> JUndef \<Longrightarrow> bi_modelSelector input \<noteq> JUndef
      \<Longrightarrow> strict_eq (bi_model input) (bi_modelSelector input)"
    and "bi_effort input = JUndef \<or> Receipt_Schema.one_of [''low'', ''medium'', ''high'', ''xhigh'', ''max''] (bi_effort input)"
    and "bi_runtime input \<noteq> js ''commandcode'' \<Longrightarrow> bi_effort input = JUndef"
    and "bi_mode input \<in> js ` set prompt_modes"
    and "bi_dispatchMode input = JUndef \<or> Receipt_Schema.one_of prompt_modes (bi_dispatchMode input)"
    and "json_wf (bi_model input)" and "json_wf (bi_modelSelector input)"
    and "bi_shadow input = None \<or> bi_runtime input = js ''pi'' \<and> byte_length (bi_message input) \<le> 10000000
          \<and> bi_shadow input = Some (classify_shadow (bi_sessionId input) (bi_message input))"
  using assms unfolding request_ok_def by blast+

lemma runtime_named: "request_ok env input rid \<Longrightarrow> bi_runtime input \<noteq> []"
proof
  assume "request_ok env input rid" and "bi_runtime input = []"
  from request_okD(4) [OF this(1)] this(2) show False by (simp add: js_def)
qed

lemma one_of_wf: "Receipt_Schema.one_of L v \<Longrightarrow> json_wf v"
  by (cases v) (simp_all add: Receipt_Schema.one_of_def)

definition digests_ok :: "manager_env \<Rightarrow> bool" where
  "digests_ok env \<longleftrightarrow> (\<forall>x. safe_digest (me_sha env x))"

lemma digest_of_request:
  assumes "digests_ok env"
  shows "safe_digest (key_digest env input k)" and "safe_digest (request_fingerprint env input)"
  using assms unfolding digests_ok_def key_digest_def request_fingerprint_def by blast+

lemma one_of_js: "Receipt_Schema.one_of L (JStr x) \<longleftrightarrow> x \<in> js ` set L"
  by (auto simp: Receipt_Schema.one_of_def)

lemma accepted_fields:
  "getp (accepted_record env now input d rid) ''runId'' = JStr rid"
  "getp (accepted_record env now input d rid) ''sessionId'' = JStr (bi_sessionId input)"
  "getp (accepted_record env now input d rid) ''runtime'' = JStr (bi_runtime input)"
  "getp (accepted_record env now input d rid) ''executionInstanceId'' = JStr (bi_executionInstanceId input)"
  "getp (accepted_record env now input d rid) ''model'' = bi_model input"
  "getp (accepted_record env now input d rid) ''modelSelector'' = bi_modelSelector input"
  "getp (accepted_record env now input d rid) ''effort'' = bi_effort input"
  "getp (accepted_record env now input d rid) ''mode'' = JStr (bi_mode input)"
  "getp (accepted_record env now input d rid) ''dispatchMode'' = nullish (bi_dispatchMode input) (JStr (bi_mode input))"
  "getp (accepted_record env now input d rid) ''status'' = text_json ''accepted''"
  "getp (accepted_record env now input d rid) ''liveness'' =
     JObj [(js ''activityPolicyVersion'', text_json ''run-activity-v1''),
       (js ''idleTimeoutMs'', int_json (me_idleMs env)), (js ''absoluteTimeoutMs'', int_json (me_maxMs env)),
       (js ''cessation'', cessation_json ''unknown'' ''no_terminal_signal'' (ev_iso (me_store env) now))]"
  "getp (accepted_record env now input d rid) ''idempotencyKeyDigest'' = (case d of Some d \<Rightarrow> JStr d | None \<Rightarrow> JUndef)"
  "getp (accepted_record env now input d rid) ''requestFingerprint'' =
     (case d of Some _ \<Rightarrow> JStr (request_fingerprint env input) | None \<Rightarrow> JUndef)"
  "getp (accepted_record env now input d rid) ''phase7Shadow'' = (case bi_shadow input of Some s \<Rightarrow> JObj s | None \<Rightarrow> JUndef)"
  by (cases d; cases "bi_shadow input"; simp add: accepted_record_def getp_Cons getp_Nil)+

lemma accepted_absent:
  "getp (accepted_record env now input d rid) ''tokenUsage'' = JUndef"
  "getp (accepted_record env now input d rid) ''outputEvidence'' = JUndef"
  "getp (accepted_record env now input d rid) ''finalText'' = JUndef"
  "getp (accepted_record env now input d rid) ''finalTextTruncated'' = JUndef"
  "getp (accepted_record env now input d rid) ''completion'' = JUndef"
  "getp (accepted_record env now input d rid) ''completionDelimiter'' = JUndef"
  "getp (accepted_record env now input d rid) ''completionError'' = JUndef"
  "getp (accepted_record env now input d rid) ''servedModel'' = JUndef"
  "getp (accepted_record env now input d rid) ''modelRebound'' = JUndef"
  "getp (accepted_record env now input d rid) ''errorCode'' = JUndef"
  "getp (accepted_record env now input d rid) ''interruptionReason'' = JUndef"
  "getp (accepted_record env now input d rid) ''startedAt'' = JUndef"
  "getp (accepted_record env now input d rid) ''terminalAt'' = JUndef"
  by (cases "bi_shadow input"; simp add: accepted_record_def getp_Cons getp_Nil)+

lemma accepted_liveness:
  assumes "options_ok env"
  shows "validate_liveness (ev_dp (me_store env)) (getp (accepted_record env now input d rid) ''liveness'') = None"
proof -
  have "cessation_error (ev_dp (me_store env)) (cessation_json ''unknown'' ''no_terminal_signal'' (ev_iso (me_store env) now)) = None"
    using assms by (intro valid_cessation) (auto simp: Receipt_Schema.one_of_def text_json_def options_ok_def clock_ok_def)
  with assms show ?thesis
    by (simp add: accepted_fields validate_liveness_def prop_JObj_getp getp_Cons getp_Nil assert_only_keys_JObj
        keys_allowed_def liveness_keys_def options_ok_def activity_error_def watchdog_error_def observations_error_def
        del: positive_number.simps)
qed

lemma accepted_keys:
  "map fst (accepted_record env now input d rid) =
     map js ([''runId'', ''sessionId'', ''runtime'', ''executionInstanceId'', ''model'', ''modelSelector'', ''effort'', ''mode'',
       ''dispatchMode'', ''status'', ''acceptedAt'', ''liveness'', ''idempotencyExpiresAt'', ''idempotencyKeyDigest'',
       ''requestFingerprint''] @ (if bi_shadow input = None then [] else [''phase7Shadow'']))"
  by (cases "bi_shadow input") (simp_all add: accepted_record_def)

lemma accepted_keys_allowed: "keys_allowed allowed_keys (accepted_record env now input d rid)"
proof -
  have "set [''runId'', ''sessionId'', ''runtime'', ''executionInstanceId'', ''model'', ''modelSelector'', ''effort'', ''mode'',
       ''dispatchMode'', ''status'', ''acceptedAt'', ''liveness'', ''idempotencyExpiresAt'', ''idempotencyKeyDigest'',
       ''requestFingerprint'', ''phase7Shadow''] \<subseteq> set allowed_keys"
    by (simp add: allowed_keys_def)
  then have "set ([''runId'', ''sessionId'', ''runtime'', ''executionInstanceId'', ''model'', ''modelSelector'', ''effort'', ''mode'',
       ''dispatchMode'', ''status'', ''acceptedAt'', ''liveness'', ''idempotencyExpiresAt'', ''idempotencyKeyDigest'',
       ''requestFingerprint''] @ (if bi_shadow input = None then [] else [''phase7Shadow''])) \<subseteq> set allowed_keys"
    by simp
  then show ?thesis unfolding keys_allowed_def accepted_keys set_map by (rule image_mono)
qed

lemma accepted_valid:
  assumes env: "options_ok env" and req: "request_ok env input rid"
    and dig: "d = None \<or> digests_ok env \<and> (\<exists>k. d = Some (key_digest env input k))"
  shows "receipt_ok (ev_dp (me_store env)) (accepted_record env now input d rid)"
proof -
  let ?r = "accepted_record env now input d rid"
  note facts = request_okD [OF req]
  have shadow: "bi_shadow input = None \<or> bi_runtime input = js ''pi''
      \<and> (\<exists>s. bi_shadow input = Some s \<and> validate_phase7_shadow (JObj s) = None
          \<and> strict_eq (prp (prp (JObj s) ''affinity'') ''sessionId'') (JStr (bi_sessionId input)))"
    (is "_ \<or> _ \<and> (\<exists>s. ?shadow s)")
  proof (cases "bi_shadow input = None")
    case False
    with facts(14) have s: "bi_runtime input = js ''pi''" "byte_length (bi_message input) \<le> 10000000"
      "bi_shadow input = Some (classify_shadow (bi_sessionId input) (bi_message input))" by blast+
    have "strict_eq (prp (prp (JObj (classify_shadow (bi_sessionId input) (bi_message input))) ''affinity'') ''sessionId'')
        (JStr (bi_sessionId input))" by (simp add: prop_JObj_getp classified getp_Cons)
    with s classified_validates [OF facts(2) s(2)] show ?thesis by blast
  qed simp
  have d: "case d of Some d \<Rightarrow> safe_digest d \<and> safe_digest (request_fingerprint env input) | None \<Rightarrow> True"
    using dig digest_of_request by (cases d) auto
  have keys: "list_all (\<lambda>k. k \<in> js ` set allowed_keys) (jm_keys ?r)"
    using accepted_keys_allowed by (simp add: keys_allowed_list_all)
  have cc: "is_text ''commandcode'' (JStr (bi_runtime input)) \<longleftrightarrow> bi_runtime input = js ''commandcode''"
    by (simp add: is_text_def)
  have rt: "Receipt_Schema.one_of [''pi'', ''claude'', ''opencode'', ''antigravity'', ''commandcode''] (JStr (bi_runtime input))"
    using facts(4) by (simp only: one_of_js list.set)
  have named: "truthy (JStr (bi_sessionId input))" "truthy (JStr (bi_runtime input))" "truthy (JStr (bi_executionInstanceId input))"
    using facts(2,3) runtime_named [OF req] by simp_all
  have status: "Receipt_Schema.one_of [''accepted'', ''queued'', ''started'', ''completed'', ''failed'', ''cancelled'', ''interrupted'']
      (text_json ''accepted'')" by (simp add: Receipt_Schema.one_of_def text_json_def)
  have modes: "Receipt_Schema.one_of prompt_modes (JStr (bi_mode input))"
      "Receipt_Schema.one_of prompt_modes (nullish (bi_dispatchMode input) (JStr (bi_mode input)))"
    using facts(10,11) by (auto simp: one_of_js nullish_def)
  have "no_error (identity_checks ?r)"
    unfolding identity_checks_def Let_def no_error_simps when_set_None check_None accepted_fields cc
    using keys rt named facts(1,5-8) status by (intro conjI impI) (simp_all add: is_text_def)
  moreover have "no_error (evidence_checks ?r)"
    unfolding evidence_checks_def Let_def no_error_simps when_set_None check_None accepted_fields accepted_absent cc
    using facts(9) by simp
  moreover have "no_error (field_checks (ev_dp (me_store env)) ?r)"
    unfolding field_checks_def Let_def no_error_simps when_set_None check_None accepted_absent
    using modes accepted_liveness [OF env, of now input d rid] shadow d
    by (cases d; cases "bi_shadow input") (simp_all add: accepted_fields is_text_def)
  ultimately show ?thesis by (simp add: receipt_ok_checks)
qed

lemma classified_wf: "json_wf (JObj (classify_shadow sid msg))"
  by (simp add: classify_shadow_def Let_def shadow_reason_def text_json_def del: nat_text.simps)

lemma accepted_wf:
  assumes "request_ok env input rid"
  shows "receipt_wf (accepted_record env now input d rid)"
proof -
  have wf: "json_wf (bi_effort input)" "json_wf (nullish (bi_dispatchMode input) (JStr (bi_mode input)))"
      "json_wf (bi_model input)" "json_wf (bi_modelSelector input)"
    using request_okD(8,11-13) [OF assms] by (auto simp: nullish_def dest: one_of_wf)
  have sh: "case bi_shadow input of Some s \<Rightarrow> json_wf (JObj s) | None \<Rightarrow> True"
    using request_okD(14) [OF assms] classified_wf [of "bi_sessionId input" "bi_message input"] by auto
  have live: "json_wf (getp (accepted_record env now input d rid) ''liveness'')"
    by (simp add: accepted_fields text_json_def int_json_def cessation_json_def)
  have "inj js" by (simp add: inj_def)
  then have "distinct (map fst (accepted_record env now input d rid))"
    unfolding accepted_keys by (subst distinct_map) (auto intro: inj_on_subset)
  moreover have "list_all (\<lambda>kv. json_wf (snd kv)) (accepted_record env now input d rid)"
    using wf sh live [unfolded accepted_fields]
    by (cases "bi_shadow input"; cases d) (simp_all add: accepted_record_def text_json_def del: json_wf.simps(2))
  ultimately show ?thesis by (simp add: receipt_wf_def)
qed

subsection \<open>The run that \<open>beginRun\<close> makes\<close>

text \<open>What has to hold for a new run: the key is legal and names no run yet, and the identifier is fresh.\<close>

definition fresh_request :: "manager_env \<Rightarrow> int \<Rightarrow> begin_input \<Rightarrow> jsstr \<Rightarrow> run_manager \<Rightarrow> bool" where
  "fresh_request env now input rid m \<longleftrightarrow>
     (case optional_key input of
        Inl _ \<Rightarrow> False
      | Inr None \<Rightarrow> True
      | Inr (Some key) \<Rightarrow> find_existing_by_key env now (key_digest env input key) (request_fingerprint env input) m = None)
     \<and> receipt_in m (JStr rid) = None"

definition manager_ready :: "manager_env \<Rightarrow> run_manager \<Rightarrow> bool" where
  "manager_ready env m \<longleftrightarrow> rm_init m = Initialised \<and> store_ready (me_store env) (rm_store m)"

lemma create_done:
  assumes io: "io_ok io" and ready: "store_ready env s" and good: "receipt_good env k r" and nt: "\<not> is_terminal r"
    and fresh: "jm_get (rs_cache s) k = None"
  shows "\<exists>t. create_receipt env io now r s = (Inr (), t) \<and> store_ready env t \<and> jm_get (rs_cache t) k = Some r"
proof -
  let ?w = "written env k r s"
  have rid: "run_id r = k" "receipt_ok (ev_dp env) r" using good by (simp_all add: receipt_good_def)
  have ck: "cache_ok env ?w" using ready good by (simp add: cache_ok_def written_def store_ready_def)
  obtain t where p: "prune env io now ?w = (Inr (), t)" using prune_succeeds [of io env now ?w] io by (auto simp: io_ok_def)
  have sh: "shrinks (prunable env now ?w) ?w t" using shrinks_prune [OF ck, of now io] p by simp
  have w: "jm_get (rs_cache ?w) k = Some r" "rs_ready ?w = rs_ready s" by (simp_all add: written_def)
  then have "k \<notin> prunable env now ?w" using nt by (simp add: prunable_def)
  then have "jm_get (rs_cache t) k = Some r" using sh w(1) unfolding shrinks_def by metis
  moreover have "rs_ready t" using sh w(2) ready by (simp add: store_ready_def shrinks_def)
  moreover have "create_receipt env io now r s = (Inr (), t)"
    using ready fresh rid commit_done [OF rid(2,1) io, of s] p
    by (simp add: create_receipt_def store_ready_def jm_has_def receipt_ok_def)
  ultimately show ?thesis using cache_ok_shrinks [OF ck sh] by (auto simp: store_ready_def)
qed

lemma active_of_good:
  assumes "request_ok env input rid"
  shows "active_good env (active_of env (accepted_record env now input d rid) now)"
proof -
  let ?a = "active_of env (accepted_record env now input d rid) now"
  have "counts_bounded (ar_output ?a)"
    by (simp add: active_of_def accepted_absent mutable_output_evidence_def stored_count_def counts_bounded_def prp_def)
  moreover have "text_bounded final_text_max_chars (ar_finalText ?a)"
    by (simp add: active_of_def text_bounded_def final_text_init_def)
  moreover have "shadow_good ?a"
  proof (cases "bi_shadow input")
    case (Some sh)
    then have s: "bi_runtime input = js ''pi''" "byte_length (bi_message input) \<le> 10000000"
        "sh = classify_shadow (bi_sessionId input) (bi_message input)" "bi_sessionId input \<noteq> []"
      using request_okD(2,14) [OF assms] by auto
    have "create_shadow sh now = shadow_run [] (create_shadow (classify_shadow (bi_sessionId input) (bi_message input)) now)"
      by (simp add: s(3) shadow_run_def)
    then show ?thesis
      using s Some unfolding shadow_good_def
      by (auto simp: active_of_def accepted_fields text_json_def)
  qed (simp add: shadow_good_def active_of_def accepted_fields)
  ultimately show ?thesis by (simp add: active_good_def active_of_def)
qed

lemma begin_alive:
  assumes env: "options_ok env" "digests_ok env" and io: "io_ok io" and ready: "manager_ready env m"
    and req: "request_ok env input rid" and fresh: "fresh_request env now input rid m"
  shows "\<exists>d m'. begin_run env io now input rid m =
        (Inr (Created (public_receipt (accepted_record env now input d rid))), [Accepted (JStr (bi_runtime input))], m')
    \<and> manager_ready env m' \<and> alive env (JStr rid) (active_of env (accepted_record env now input d rid) now)
         (accepted_record env now input d rid) m'"
proof -
  obtain key where key: "optional_key input = Inr key"
    using fresh by (auto simp: fresh_request_def split: sum.splits)
  define d where "d = map_option (key_digest env input) key"
  define r where "r = accepted_record env now input d rid"
  let ?m = "m \<lparr> rm_watchdog := True \<rparr>"
  have "d = None \<or> digests_ok env \<and> (\<exists>k. d = Some (key_digest env input k))"
    using env(2) by (cases key) (auto simp: d_def)
  then have good: "receipt_good (me_store env) (JStr rid) r"
    using accepted_valid [OF env(1) req] accepted_wf [OF req] by (simp add: receipt_good_def r_def run_id_accepted)
  have nt: "\<not> is_terminal r"
    by (simp add: r_def is_terminal_def accepted_fields Receipt_Schema.one_of_def text_json_def terminal_statuses_def)
  obtain s where s: "create_receipt (me_store env) io now r (rm_store m) = (Inr (), s)" "store_ready (me_store env) s"
      "jm_get (rs_cache s) (JStr rid) = Some r"
    using create_done [OF io _ good nt, of "rm_store m" now] ready fresh
    by (auto simp: manager_ready_def fresh_request_def get_receipt_def)
  let ?m1 = "?m \<lparr> rm_store := s \<rparr>"
  have none: "(case d of Some d \<Rightarrow> find_existing_by_key env now d (request_fingerprint env input) ?m | None \<Rightarrow> None) = None"
    using fresh key by (cases key) (simp_all add: fresh_request_def d_def find_existing_by_key_def)
  have "shadow_refusal input = None"
    using request_okD(14) [OF req] by (auto simp: shadow_refusal_def classified prop_JObj_getp getp_Cons)
  moreover have "manager_init env io now m = (Inr (), [], ?m)" using ready by (simp add: manager_init_def manager_ready_def)
  moreover have "create_or_replay env io now input d rid ?m =
      (Inr (Created (public_receipt r)), [Accepted (getp r ''runtime'')], add_active env r now ?m1)"
    using none s(1)
    by (simp add: create_or_replay_def r_def [symmetric] Let_def mbind_def on_store_def mdo_def mret_def)
  ultimately have "begin_run env io now input rid m =
      (Inr (Created (public_receipt r)), [Accepted (getp r ''runtime'')], add_active env r now ?m1)"
    by (simp add: begin_run_def mbind_def key d_def [symmetric])
  moreover have "getp r ''runtime'' = JStr (bi_runtime input)" by (simp add: r_def accepted_fields)
  moreover have "manager_ready env (add_active env r now ?m1)"
    using s(2) ready by (simp add: manager_ready_def add_active_def Let_def)
  moreover have "alive env (JStr rid) (active_of env r now) r (add_active env r now ?m1)"
    using s(2,3) nt active_of_good [OF req, of now d]
    by (simp add: alive_def add_active_def Let_def get_receipt_def r_def [symmetric] run_id_accepted [of env now input d rid, folded r_def]
        same_run_def active_of_def)
  ultimately show ?thesis unfolding r_def by (intro exI conjI) simp_all
qed

subsection \<open>A slot attached to a request comes back\<close>

lemma alive_put:
  assumes "alive env k a r m" and "active_good env b" and "same_run b r"
  shows "alive env k b r (put_active k b m)"
  using assms by (simp add: alive_def put_active_def)

lemma alive_put_other:
  assumes "alive env k a r m" and "k' \<noteq> k"
  shows "alive env k a r (put_active k' b m)"
  using assms by (simp add: alive_def put_active_def)

text \<open>What the events of a run leave of its record.\<close>

definition same_slot :: "active_run \<Rightarrow> active_run \<Rightarrow> bool" where
  "same_slot a b \<longleftrightarrow> ar_lease b = ar_lease a \<and> ar_acceptedAtMs b = ar_acceptedAtMs a
     \<and> (ar_shadow b = None \<longleftrightarrow> ar_shadow a = None)"

lemma observed_record:
  assumes "clock_ok (me_store env)" and "active_good env a" and "same_run a r"
  shows "active_good env (snd (note_activity env now event (seen_by event a)))"
    and "same_run (snd (note_activity env now event (seen_by event a))) r"
    and "same_slot a (snd (note_activity env now event (seen_by event a)))"
proof -
  show "active_good env (snd (note_activity env now event (seen_by event a)))"
    by (intro active_good_note active_good_seen assms)
  show "same_run (snd (note_activity env now event (seen_by event a))) r"
    using assms(3) by (simp add: same_run_def note_activity_same) (simp add: seen_by_def)
  have "ar_lease (snd (note_activity env now event b)) = ar_lease b" for b
    by (simp add: note_activity_def Let_def split: option.split)
  then show "same_slot a (snd (note_activity env now event (seen_by event a)))"
    by (simp add: same_slot_def note_activity_same) (simp add: seen_by_def)
qed

lemma alive_observe:
  assumes "clock_ok (me_store env)" and "alive env k a r m"
  shows "\<exists>b. alive env k b r (snd (observe_event env now k' event m)) \<and> same_slot a b"
proof (cases "k' = k")
  case True
  let ?b = "snd (note_activity env now event (seen_by event a))"
  have a: "active_good env a" "same_run a r" "jm_get (rm_active m) k = Some a" using assms(2) by (simp_all add: alive_def)
  note b = observed_record [OF assms(1) a(1,2), of now event]
  have p: "active_good env (?b \<lparr> ar_lastPersistedAtMs := t \<rparr>)" "same_run (?b \<lparr> ar_lastPersistedAtMs := t \<rparr>) r"
      "same_slot a (?b \<lparr> ar_lastPersistedAtMs := t \<rparr>)" for t
    using b by (simp_all add: active_good_persisted same_run_def same_slot_def)
  have "\<exists>c. snd (observe_event env now k' event m) = put_active k c m \<and> (c = ?b \<or> (\<exists>t. c = ?b \<lparr> ar_lastPersistedAtMs := t \<rparr>))"
    using a(3) True by (auto simp: observe_event_def Let_def split: prod.split sum.split)
  with alive_put [OF assms(2)] b p show ?thesis by metis
next
  case False
  then have "snd (observe_event env now k' event m) = m \<or> (\<exists>c. snd (observe_event env now k' event m) = put_active k' c m)"
    by (cases "jm_get (rm_active m) k'") (auto simp: observe_event_def Let_def split: prod.split sum.split)
  then have "alive env k a r (snd (observe_event env now k' event m))" using alive_put_other [OF assms(2) False] assms(2) by auto
  then show ?thesis by (auto simp: same_slot_def)
qed

definition observe_events :: "manager_env \<Rightarrow> (int \<times> json \<times> js_object) list \<Rightarrow> run_manager \<Rightarrow> run_manager" where
  "observe_events env events m = foldl (\<lambda>m (now, k, event). snd (observe_event env now k event m)) m events"

lemma alive_observe_events:
  assumes "clock_ok (me_store env)"
  shows "alive env k a r m \<Longrightarrow> \<exists>b. alive env k b r (observe_events env events m) \<and> same_slot a b"
proof (induction events arbitrary: a m)
  case Nil
  then show ?case by (auto simp: observe_events_def same_slot_def)
next
  case (Cons e events)
  obtain now k' event where e: "e = (now, k', event)" by (cases e)
  obtain b where b: "alive env k b r (snd (observe_event env now k' event m))" "same_slot a b"
    using alive_observe [OF assms Cons.prems] by blast
  from Cons.IH [OF b(1)] obtain c where "alive env k c r (observe_events env events (snd (observe_event env now k' event m)))"
      "same_slot b c" by blast
  with b(2) show ?case by (auto simp: observe_events_def e same_slot_def)
qed

lemma observe_init: "rm_init (snd (observe_event env now k event m)) = rm_init m"
  by (auto simp: observe_event_def Let_def put_active_def split: option.split prod.split sum.split)

lemma observe_events_init: "rm_init (observe_events env events m) = rm_init m"
  by (induction events arbitrary: m) (auto simp: observe_events_def observe_init)

lemma attached:
  assumes "alive env k a r m"
  shows "alive env k (a \<lparr> ar_lease := Some l \<rparr>) r (attach_lease k l m)" and "rm_init (attach_lease k l m) = rm_init m"
proof -
  have "active_good env (a \<lparr> ar_lease := Some l \<rparr>)"
    using assms by (cases "ar_shadow a") (simp_all add: alive_def active_good_def shadow_good_def)
  with assms show "alive env k (a \<lparr> ar_lease := Some l \<rparr>) r (attach_lease k l m)"
    by (simp add: alive_def attach_lease_def update_active_def same_run_def)
  show "rm_init (attach_lease k l m) = rm_init m"
    by (simp add: attach_lease_def update_active_def split: option.split)
qed

text \<open>C9: What comes of the slot of an accepted request. A request that \<open>beginRun\<close> accepts, on working storage, whose
  admission lease is attached, is finished with a well-typed outcome after any events of any runs. When the completion
  block captured from its output is within the store's bounds, and a run with shadow evidence is at most seven
  days old, \<open>finish\<close> answers the terminal receipt and gives the lease back, or hands it to a drain entry. In
  every other case \<open>finish\<close> rejects, releases nothing, and the run keeps the lease.\<close>

theorem slot_of_request_comes_back:
  assumes "options_ok env" and "digests_ok env" and "io_ok io" and "manager_ready env m" and "request_ok env input rid"
    and "fresh_request env now input rid m" and "begin_run env io now input rid m = (res, fx, m1)"
    and "jm_get (rm_active (observe_events env events (attach_lease (JStr rid) l m1))) (JStr rid) = Some a"
    and "outcome_ok env out"
  shows "\<exists>answer fy m'. finish env io mo (JStr rid) out (observe_events env events (attach_lease (JStr rid) l m1)) = (answer, fy, m')
    \<and> (if capture_storable (completion_capture env a) \<and> (bi_shadow input = None \<or> at_now mo - now \<le> 604800000)
       then \<exists>t. answer = Inr (Some (public_receipt t)) \<and> is_text (finish_status out) (getp t ''status'')
         \<and> jm_get (rm_active m') (JStr rid) = None
         \<and> (if drains env t then releases fy = [] \<and> map_option de_lease (jm_get (rm_draining m') (JStr rid)) = Some l
            else releases fy = [l])
       else (\<exists>e. answer = Inl e) \<and> releases fy = [] \<and> map_option ar_lease (jm_get (rm_active m') (JStr rid)) = Some (Some l))"
proof -
  let ?k = "JStr rid" and ?m = "observe_events env events (attach_lease (JStr rid) l m1)"
  obtain d where al: "manager_ready env m1" "alive env ?k (active_of env (accepted_record env now input d rid) now)
      (accepted_record env now input d rid) m1"
    using begin_alive [OF assms(1-6)] assms(7) by auto
  let ?a = "active_of env (accepted_record env now input d rid) now"
  have ck: "clock_ok (me_store env)" using assms(1) by (simp add: options_ok_def)
  obtain b where b: "alive env ?k b (accepted_record env now input d rid) ?m" "same_slot (?a \<lparr> ar_lease := Some l \<rparr>) b"
    using alive_observe_events [OF ck attached(1) [OF al(2)]] by blast
  have ab [simp]: "b = a" using b(1) assms(8) by (simp add: alive_def)
  have "ar_shadow ?a = None \<longleftrightarrow> bi_shadow input = None" "ar_acceptedAtMs ?a = now"
    by (simp_all add: active_of_def accepted_fields split: option.split)
  with b(2) have dur: "duration_storable (at_now mo) a \<longleftrightarrow> bi_shadow input = None \<or> at_now mo - now \<le> 604800000"
    and l: "ar_lease a = Some l"
    by (auto simp: same_slot_def duration_storable_def)
  have init: "rm_init ?m = Initialised" using al(1) by (simp add: observe_events_init attached(2) [OF al(2)] manager_ready_def)
  show ?thesis
  proof (cases "capture_storable (completion_capture env a) \<and> (bi_shadow input = None \<or> at_now mo - now \<le> 604800000)")
    case True
    then obtain t fy m' where "finish env io mo ?k out ?m = (Inr (Some (public_receipt t)), fy, m')"
        "is_text (finish_status out) (getp t ''status'')" "ends_slot env ?k a t fy m'"
      using finish_ends_run_aux [OF assms(1,3) init b(1) assms(9), of mo] dur by auto
    then show ?thesis unfolding if_P [OF True] using l by (auto simp: ends_slot_def)
  next
    case False
    then obtain e fy m' where "finish env io mo ?k out ?m = (Inl e, fy, m')" "releases fy = []"
        "map_option ar_lease (jm_get (rm_active m') ?k) = Some (ar_lease a)"
      using finish_refused_aux [OF assms(1,3) init b(1), of mo out] dur unfolding ab by blast
    then show ?thesis unfolding if_not_P [OF False] using l by auto
  qed
qed

subsection \<open>Witnesses\<close>

definition demo_deps :: manager_deps where
  "demo_deps = \<lparr> md_idempotencyTtlMs = None, md_turnIdleTimeoutMs = None, md_turnMaxMs = None, md_runStartWindowMs = None,
     md_hasQuiescence = True, md_drainTimeoutMs = None, md_envIdle = None, md_envMax = None \<rparr>"

definition demo_manager_env :: manager_env where
  "demo_manager_env = manager_env_of (demo_env 5) (\<lambda>_. replicate 64 48)
     \<lparr> ce_parse = (\<lambda>_. Inr (commit_block 1500)), ce_validate = validate_block (\<lambda>_. ([], None)) \<rparr> demo_deps"

definition demo_request :: begin_input where
  "demo_request = \<lparr> bi_sessionId = js ''s1'', bi_runtime = js ''pi'', bi_executionInstanceId = js ''pi-default'', bi_model = JUndef,
     bi_modelSelector = JUndef, bi_message = js ''hi'', bi_mode = js ''prompt'', bi_dispatchMode = JUndef,
     bi_verbosity = js ''full'', bi_detach = False, bi_requireActiveTurn = JUndef, bi_effort = JUndef,
     bi_idempotencyKey = JUndef, bi_shadow = None \<rparr>"

definition demo_manager :: run_manager where
  "demo_manager = (run_manager_init (demo_boot 5)) \<lparr> rm_init := Initialised, rm_watchdog := True \<rparr>"

abbreviation demo_run :: json where
  "demo_run \<equiv> JStr (js ''r1'')"

definition demo_accepted :: run_manager where
  "demo_accepted = attach_lease demo_run 7 (snd (snd (begin_run demo_manager_env (demo_io True) 2 demo_request (js ''r1'') demo_manager)))"

lemma demo_env_ok: "options_ok demo_manager_env" "digests_ok demo_manager_env" "io_ok (demo_io True)"
    "me_fence demo_manager_env" "me_store demo_manager_env = demo_env 5"
proof -
  show "options_ok demo_manager_env" unfolding demo_manager_env_def by (rule manager_env_of_ok [OF demo_clock])
qed (simp_all add: demo_manager_env_def digests_ok_def manager_env_of_def safe_digest_def is_digit_def list_all_iff io_ok_def
      demo_io_def demo_deps_def)

lemma demo_manager_ok:
  "manager_ready demo_manager_env demo_manager"
  "request_ok demo_manager_env demo_request (js ''r1'')"
  "fresh_request demo_manager_env 2 demo_request (js ''r1'') demo_manager"
proof -
  show "manager_ready demo_manager_env demo_manager"
    by (simp add: manager_ready_def demo_manager_def run_manager_init_def store_ready_def demo_boot_eq cache_ok_def jm_ok_def)
  show "request_ok demo_manager_env demo_request (js ''r1'')"
    by (simp add: request_ok_def demo_request_def safe_run_id_def safe_char_def prompt_modes_def) (simp add: js_def safe_char_def is_digit_def)
  show "fresh_request demo_manager_env 2 demo_request (js ''r1'') demo_manager"
    by (simp add: fresh_request_def optional_key_def demo_request_def demo_manager_def run_manager_init_def demo_boot_eq get_receipt_def)
qed

lemma demo_accepted_alive:
  obtains a r where "alive demo_manager_env demo_run a r demo_accepted" "ar_lease a = Some 7" "ar_acceptedAtMs a = 2"
    "ar_lastActivityAtMs a = 2" "ar_shadow a = None" "never_produced_work a" "ar_completionText a = final_text_init (Some completion_parse_window_chars)"
    "rm_init demo_accepted = Initialised" "getp r ''status'' = text_json ''accepted''"
proof -
  obtain d m' where b: "begin_run demo_manager_env (demo_io True) 2 demo_request (js ''r1'') demo_manager
      = (Inr (Created (public_receipt (accepted_record demo_manager_env 2 demo_request d (js ''r1'')))), [Accepted (JStr (bi_runtime demo_request))], m')"
      "manager_ready demo_manager_env m'"
      "alive demo_manager_env demo_run (active_of demo_manager_env (accepted_record demo_manager_env 2 demo_request d (js ''r1'')) 2)
        (accepted_record demo_manager_env 2 demo_request d (js ''r1'')) m'"
    using begin_alive [OF demo_env_ok(1-3) demo_manager_ok] by blast
  have "demo_accepted = attach_lease demo_run 7 m'" by (simp add: demo_accepted_def b(1))
  then show ?thesis
    using that [of "active_of demo_manager_env (accepted_record demo_manager_env 2 demo_request d (js ''r1'')) 2 \<lparr> ar_lease := Some 7 \<rparr>"
        "accepted_record demo_manager_env 2 demo_request d (js ''r1'')"] attached [OF b(3), of 7] b(2)
    by (simp add: active_of_def accepted_fields accepted_absent never_produced_work_def mutable_output_evidence_def stored_count_def
        manager_ready_def demo_request_def prp_def)
qed

lemma no_capture: "ar_completionText a = final_text_init n \<Longrightarrow> capture_storable (completion_capture env a)"
  by (simp add: completion_capture_def final_text_snapshot_def final_text_init_def capture_storable_def jm_has_def)

lemma failed_ok: "outcome_ok env (plain_outcome \<lparr> fo_status := Some ''failed'' \<rparr>)"
  by (simp add: outcome_ok_def plain_outcome_def finish_status_def error_json_def)

lemma finish_ends_run_witness:
  "\<exists>t fx m'. finish demo_manager_env (demo_io True) \<lparr> at_now = 9, at_wall = 9 \<rparr> demo_run (plain_outcome \<lparr> fo_status := Some ''failed'' \<rparr>)
      demo_accepted = (Inr (Some (public_receipt t)), fx, m') \<and> is_text ''failed'' (getp t ''status'')"
proof -
  obtain a r where a: "alive demo_manager_env demo_run a r demo_accepted" "ar_shadow a = None"
      "ar_completionText a = final_text_init (Some completion_parse_window_chars)" "rm_init demo_accepted = Initialised"
    by (rule demo_accepted_alive)
  have "duration_storable 9 a" using a(2) by (simp add: duration_storable_def)
  then show ?thesis
    using finish_ends_run [OF demo_env_ok(1,3) a(4,1) failed_ok, of "\<lparr> at_now = 9, at_wall = 9 \<rparr>"] no_capture [OF a(3)]
    by (auto simp: finish_status_def plain_outcome_def)
qed

lemma slot_of_request_comes_back_witness:
  "\<exists>t fx m'. finish demo_manager_env (demo_io True) \<lparr> at_now = 9, at_wall = 9 \<rparr> demo_run (plain_outcome \<lparr> fo_status := Some ''failed'' \<rparr>)
      (observe_events demo_manager_env [] demo_accepted) = (Inr (Some (public_receipt t)), fx, m') \<and> jm_get (rm_active m') demo_run = None"
proof -
  obtain a r where a: "alive demo_manager_env demo_run a r demo_accepted"
      "ar_completionText a = final_text_init (Some completion_parse_window_chars)"
    by (rule demo_accepted_alive)
  obtain res fx m1 where b: "begin_run demo_manager_env (demo_io True) 2 demo_request (js ''r1'') demo_manager = (res, fx, m1)"
    by (cases "begin_run demo_manager_env (demo_io True) 2 demo_request (js ''r1'') demo_manager")
  then have acc: "demo_accepted = attach_lease demo_run 7 m1" by (simp add: demo_accepted_def)
  then have "jm_get (rm_active (observe_events demo_manager_env [] (attach_lease demo_run 7 m1))) demo_run = Some a"
    using a(1) by (simp add: alive_def observe_events_def)
  from slot_of_request_comes_back [OF demo_env_ok(1-3) demo_manager_ok b this failed_ok, of "\<lparr> at_now = 9, at_wall = 9 \<rparr>"]
  show ?thesis using no_capture [OF a(2), of demo_manager_env] by (auto simp: demo_request_def acc)
qed

definition demo_failed :: finish_outcome where
  "demo_failed = plain_outcome \<lparr> fo_status := Some ''failed'' \<rparr>"

definition demo_started :: run_manager where
  "demo_started = snd (snd (mark_started_unlocked demo_manager_env (demo_io True) 3 demo_run demo_accepted))"

lemma mark_started_init: "rm_init (snd (snd (mark_started_unlocked env io now k m))) = rm_init m"
  by (auto simp: mark_started_unlocked_def mbind_def on_store_def mret_def mfail_def update_active_def
      split: option.split sum.split prod.split)

lemma watchdog_ends_silent_run_witness:
  "\<exists>v t fx m'. watchdog_verdict demo_manager_env 900003 demo_run demo_started = Some v
    \<and> watchdog_finish demo_manager_env (demo_io True) \<lparr> at_now = 900003, at_wall = 900003 \<rparr> demo_run v demo_started = (Inr (), fx, m')
    \<and> is_text ''failed'' (getp t ''status'') \<and> jm_get (rm_active m') demo_run = None"
proof -
  obtain a r where a: "alive demo_manager_env demo_run a r demo_accepted" "ar_shadow a = None"
      "ar_completionText a = final_text_init (Some completion_parse_window_chars)" "rm_init demo_accepted = Initialised"
      "getp r ''status'' = text_json ''accepted''"
    by (rule demo_accepted_alive)
  let ?a = "a \<lparr> ar_startedAtMs := Some 3, ar_lastActivityAtMs := 3 \<rparr>"
  obtain p m1 r1 where "mark_started_unlocked demo_manager_env (demo_io True) 3 demo_run demo_accepted = (Inr p, [], m1)"
      and al: "alive demo_manager_env demo_run ?a r1 m1" "is_text ''started'' (getp r1 ''status'')"
    using mark_started_done [OF demo_env_ok(1,3) a(1), of 3] a(5) by auto
  then have m1: "demo_started = m1" by (simp add: demo_started_def)
  have "rm_init demo_started = Initialised" using a(4) by (simp add: demo_started_def mark_started_init)
  moreover have "silent_too_long demo_manager_env 900003 ?a"
    by (simp add: silent_too_long_def demo_manager_env_def manager_env_of_def positive_timeout_def demo_deps_def
        default_turn_idle_timeout_ms_def)
  moreover have "capture_storable (completion_capture demo_manager_env ?a)" "duration_storable 900003 ?a"
    using a(2,3) by (simp_all add: duration_storable_def no_capture)
  ultimately show ?thesis
    using watchdog_ends_silent_run [OF demo_env_ok(1,3), of m1 demo_run ?a r1 900003 "\<lparr> at_now = 900003, at_wall = 900003 \<rparr>"] al
    by (fastforce simp: m1 ends_slot_def)
qed

lemma undispatched_run_never_expires_witness:
  "watchdog_verdict demo_manager_env 1000000000000 demo_run demo_accepted = None"
proof -
  obtain a r where a: "alive demo_manager_env demo_run a r demo_accepted" "ar_acceptedAtMs a = 2" "ar_lastActivityAtMs a = 2"
      "never_produced_work a" "getp r ''status'' = text_json ''accepted''"
    by (rule demo_accepted_alive)
  then show ?thesis
    by (intro undispatched_run_never_expires [of _ _ a r])
      (simp_all add: demo_manager_env_def manager_env_of_def positive_timeout_def demo_deps_def default_turn_idle_timeout_ms_def
        default_turn_max_ms_def default_run_start_window_ms_def)
qed

text \<open>A run whose agent has written a completion block with a long commit subject.\<close>

definition demo_block_text :: jsstr where
  "demo_block_text = js ''```completion'' @ [10] @ js ''{}'' @ [10] @ js ''```''"

definition demo_said :: run_manager where
  "demo_said = update_active demo_run (\<lambda>a. a \<lparr> ar_completionText := ar_completionText a \<lparr> ft_current := demo_block_text \<rparr> \<rparr>) demo_accepted"

lemma demo_scan: "scan_blocks demo_block_text = [block_of Completion_Fence [js ''{}''] True]"
  by code_simp

lemma demo_parsed: "parse_completion_block (me_completion demo_manager_env) demo_block_text = Parsed (block_data (commit_block 1500)) By_Completion"
proof -
  have l: "length demo_block_text = 20" "demo_block_text \<noteq> []" by (simp_all add: demo_block_text_def js_def)
  have o: "is_obj (commit_block n)" for n by (simp add: commit_block_def)
  have v: "validate_block f (commit_block 1500) = Inr (block_data (commit_block 1500))" for f
    using commit_block_accepted [of 1500] by (simp add: validate_block_def)
  have "parse_step (me_completion demo_manager_env) p (block_of Completion_Fence [js ''{}''] True)
      = p \<lparr> px_complete := True, px_outcome := Some (Parsed (block_data (commit_block 1500)) By_Completion) \<rparr>" for p
    by (simp add: parse_step_def block_of_def completion_outcome_def completion_block_max_chars_def js_def o v
        demo_manager_env_def manager_env_of_def)
  then show ?thesis
    by (simp add: parse_completion_block_def l completion_parse_window_chars_def demo_scan parse_verdict_def)
qed

lemma demo_unstorable: "validate_stored_completion (block_data (commit_block 1500)) \<noteq> None"
  using block_storable [OF commit_block_accepted, of 1500] by (simp add: commit_block_fits)

lemma unstorable_capture_keeps_slot_witness:
  "\<exists>e fx m'. finish demo_manager_env (demo_io True) \<lparr> at_now = 9, at_wall = 9 \<rparr> demo_run demo_failed demo_said = (Inl e, fx, m')
    \<and> releases fx = [] \<and> map_option ar_lease (jm_get (rm_active m') demo_run) = Some (Some 7)"
proof -
  obtain a r where a: "alive demo_manager_env demo_run a r demo_accepted" "ar_lease a = Some 7" "rm_init demo_accepted = Initialised"
    by (rule demo_accepted_alive)
  let ?a = "a \<lparr> ar_completionText := ar_completionText a \<lparr> ft_current := demo_block_text \<rparr> \<rparr>"
  have "active_good demo_manager_env ?a"
    using a(1) by (cases "ar_shadow a") (simp_all add: alive_def active_good_def shadow_good_def)
  then have al: "alive demo_manager_env demo_run ?a r demo_said"
    using a(1) by (simp add: demo_said_def alive_def update_active_def same_run_def)
  have "completion_capture demo_manager_env ?a =
      [(js ''completion'', block_data (commit_block 1500)), (js ''completionDelimiter'', text_json ''completion'')]"
    using demo_parsed by (simp add: completion_capture_def final_text_snapshot_def) (simp add: demo_block_text_def js_def)
  then have "\<not> capture_storable (completion_capture demo_manager_env ?a)"
    using demo_unstorable by (simp add: capture_storable_def jm_has_def getp_Cons)
  moreover have "rm_init demo_said = Initialised"
    using a(3) by (simp add: demo_said_def update_active_def split: option.split)
  ultimately show ?thesis
    using unstorable_capture_keeps_slot [OF demo_env_ok(1,3) _ al] a(2) by simp
qed

subsection \<open>A run of the manager\<close>

definition demo_trace :: "(receipt_io \<times> moment \<times> manager_event) list" where
  "demo_trace = [(demo_io True, \<lparr> at_now = 1, at_wall = 1 \<rparr>, Ev_Find demo_request),
     (demo_io True, \<lparr> at_now = 2, at_wall = 2 \<rparr>, Ev_Begin demo_request (js ''r1'')),
     (demo_io True, \<lparr> at_now = 3, at_wall = 3 \<rparr>, Ev_Attach demo_run 7),
     (demo_io True, \<lparr> at_now = 9, at_wall = 9 \<rparr>, Ev_Finish demo_run demo_failed)]"

lemma demo_find:
  "manager_step demo_manager_env io \<lparr> at_now = 1, at_wall = 1 \<rparr> (Ev_Find demo_request) (run_manager_init (demo_boot 5)) = ([], demo_manager)"
  by (simp add: find_existing_run_def mbind_def manager_init_def run_manager_init_def demo_boot_eq optional_key_def demo_request_def
      mret_def demo_manager_def demo_env_ok)

lemma demo_ended:
  obtains fx m where "manager_run demo_manager_env demo_trace (run_manager_init (demo_boot 5)) = (fx, m)"
    and "lawful demo_manager_env demo_trace (run_manager_init (demo_boot 5))"
    and "grants demo_manager_env demo_trace (run_manager_init (demo_boot 5)) = [7]"
    and "releases fx = []" and "map_option de_lease (jm_get (rm_draining m) demo_run) = Some 7"
proof -
  obtain d m1 where b: "begin_run demo_manager_env (demo_io True) 2 demo_request (js ''r1'') demo_manager
      = (Inr (Created (public_receipt (accepted_record demo_manager_env 2 demo_request d (js ''r1'')))), [Accepted (JStr (bi_runtime demo_request))], m1)"
      "alive demo_manager_env demo_run (active_of demo_manager_env (accepted_record demo_manager_env 2 demo_request d (js ''r1'')) 2)
        (accepted_record demo_manager_env 2 demo_request d (js ''r1'')) m1" "manager_ready demo_manager_env m1"
    using begin_alive [OF demo_env_ok(1-3) demo_manager_ok] by blast
  let ?r = "accepted_record demo_manager_env 2 demo_request d (js ''r1'')"
  let ?a = "active_of demo_manager_env ?r 2 \<lparr> ar_lease := Some 7 \<rparr>"
  let ?n = "transition_next (me_store demo_manager_env) 9 (finish_status demo_failed) (finish_patch demo_manager_env 9 demo_failed (Some ?a) ?r) False ?r"
  note at = attached [OF b(2), of 7]
  have "duration_storable 9 ?a" "capture_storable (completion_capture demo_manager_env ?a)" "rm_init (attach_lease demo_run 7 m1) = Initialised"
      "finish_status demo_failed = ''completed'' \<longrightarrow> is_text ''started'' (getp ?r ''status'')" "outcome_ok demo_manager_env demo_failed"
    using at(2) b(3) failed_ok [of demo_manager_env]
    by (simp_all add: duration_storable_def active_of_def accepted_fields demo_request_def no_capture manager_ready_def
        finish_status_def plain_outcome_def demo_failed_def)
  with finish_now_done [OF demo_env_ok(1,3) _ at(1), of demo_failed "\<lparr> at_now = 9, at_wall = 9 \<rparr>"]
  obtain fx m where f: "finish demo_manager_env (demo_io True) \<lparr> at_now = 9, at_wall = 9 \<rparr> demo_run demo_failed (attach_lease demo_run 7 m1)
        = (Inr (Some (public_receipt ?n)), fx, m)"
      "is_text ''failed'' (getp ?n ''status'')" "ends_slot demo_manager_env demo_run ?a ?n fx m"
    by (auto simp: finish_status_def plain_outcome_def demo_failed_def)
  have "getp ?n ''liveness'' = final_liveness demo_manager_env 9 demo_failed (Some ?a) (getp ?r ''liveness'')"
    by (rule getp_final_liveness) (simp add: accepted_fields)
  then have "cessation_unconfirmed ?n"
    by (simp add: cessation_unconfirmed_def final_liveness_def demo_failed_def plain_outcome_def active_of_def accepted_fields
        prop_JObj_getp getp_Cons cessation_json_def is_text_def text_json_def)
  then have "drains demo_manager_env ?n" using f(2) by (simp add: drains_def demo_env_ok)
  then have over: "releases fx = []" "map_option de_lease (jm_get (rm_draining m) demo_run) = Some 7"
    using f(3) by (simp_all add: ends_slot_def)
  have run: "manager_run demo_manager_env demo_trace (run_manager_init (demo_boot 5)) = (Accepted (JStr (bi_runtime demo_request)) # fx, m)"
    by (simp add: demo_trace_def demo_find b(1) f(1) del: manager_step.simps(2))
  have "admissible (Ev_Begin demo_request (js ''r1'')) demo_manager"
    by (simp add: holds_run_def jm_has_def demo_manager_def run_manager_init_def)
  moreover have g: "jm_get (rm_active m1) demo_run = Some (active_of demo_manager_env ?r 2)" using b(2) by (simp add: alive_def)
  then have "admissible (Ev_Attach demo_run 7) m1" "granted (Ev_Attach demo_run 7) m1 = [7]"
    by (simp_all add: active_of_def jm_has_def)
  ultimately have "lawful demo_manager_env demo_trace (run_manager_init (demo_boot 5))"
      "grants demo_manager_env demo_trace (run_manager_init (demo_boot 5)) = [7]"
    by (simp_all add: demo_trace_def demo_find b(1) f(1) del: manager_step.simps(2) admissible.simps(1,2) granted.simps(1))
  with that run over show ?thesis by simp
qed



end
