(* ===== verification/Relay_Normalise.thy ===== *)
theory Relay_Normalise
  imports Js_Regex "HOL-Library.Multiset"
begin

text \<open>
  The mechanical relay transform of \<open>talker/relay-normalise.ts\<close>: the operator's words minus the channel and
  the disfluency. Every regular expression of the file is a value of type \<open>re\<close>; each stage is one definition,
  in the order of the source: hesitations, stutters, the head loop (at most 16 passes), the
  courtesy loop (at most 4), the seams. A stage returns the text and the pieces it recorded.

  The property is the one the file states in its header: removal only. What the operator said is,
  character by character and apart from spaces, what is relayed plus what is recorded as removed.
\<close>

subsection \<open>The result and the removal predicates\<close>

record relay_result =
  rl_text :: jsstr
  rl_changed :: bool
  rl_removals :: "jsstr list"

definition has_visible :: "jsstr \<Rightarrow> bool" where
  "has_visible s = list_ex (\<lambda>c. \<not> is_js_space c) s"

definition relay_has_visible_removal :: "jsstr list \<Rightarrow> bool" where
  "relay_has_visible_removal removals = list_ex has_visible removals"

definition visible_removal_fragments :: "jsstr list \<Rightarrow> jsstr list" where
  "visible_removal_fragments removals =
     filter (\<lambda>p. p \<noteq> []) (map js_trim (filter has_visible removals))"

subsection \<open>Patterns\<close>

definition hesitation :: re where
  "hesitation = seqs [Bound,
     alts [seqs [lit ''er'', rep1 (lit ''m'')], seqs [lit ''u'', rep1 (lit ''m'')],
           seqs [lit ''u'', rep1 (lit ''h'')], seqs [lit ''e'', rep1 (lit ''r'')]],
     Bound, Star blank]"

definition is_stutter_char :: "nat \<Rightarrow> bool" where
  "is_stutter_char c \<longleftrightarrow> (65 \<le> c \<and> c \<le> 90) \<or> (97 \<le> c \<and> c \<le> 122) \<or> c = 39"

definition stutter :: re where
  "stutter = Seq Bound (Seq (Grp (rep1 (Chr is_stutter_char))) (rep1 (seqs [rep1 blank, Ref, Bound])))"

definition stutter_exempt :: "jsstr list" where
  "stutter_exempt = map js [''very'', ''so'', ''no'', ''oh'', ''yeah'', ''well'', ''ok'', ''okay'', ''hmm'', ''ah'']"

definition em_dash :: nat where
  "em_dash = 0x2014"

definition marker_free :: re where
  "marker_free = seqs [Start,
     lits [''all right'', ''okay so'', ''right so'', ''okay then'', ''okay well'', ''okay'', ''ok'', ''alright'', ''well''],
     Bound, alts [rep1 (ws_or (js '',;:'')), seqs [rep1 ws, one_of [em_dash], Star ws]]]"

definition marker_punctuated :: re where
  "marker_punctuated = seqs [Start, lits [''so'', ''right'', ''and''], Bound, Star ws,
     alts [seqs [one_of (js '',;:''), Star ws], seqs [rep1 ws, one_of [em_dash], rep1 ws]]]"

definition politeness_head :: re where
  "politeness_head = seqs [lits [''could'', ''can'', ''would'', ''will''], rep1 ws, lit ''you'', rep1 ws,
     opt (seqs [lit ''please'', rep1 ws]),
     opt (seqs [lit ''be'', rep1 ws, lit ''able'', rep1 ws, lit ''to'', rep1 ws])]"

definition politeness :: re where
  "politeness = Seq Start politeness_head"

definition commission_verb :: re where
  "commission_verb = Seq (lits [''ask'', ''tell'', ''let'', ''pass'', ''relay'']) Bound"

definition commission_lead_in :: re where
  "commission_lead_in = seqs [Start,
     rep1 (seqs [alts (seqs [lit ''all'', rep1 ws, lit ''right''] #
                   map lit [''yeah'', ''yep'', ''yup'', ''okay'', ''ok'', ''alright'', ''right'', ''so'', ''well'',
                            ''um'', ''uh'', ''er'', ''erm'', ''please'']),
                 Bound, Star (ws_or (js '',;:''))]),
     Ahead True (Seq (opt politeness_head) commission_verb)]"

definition apostrophe :: re where
  "apostrophe = one_of [39]"

definition polite_interpolation :: re where
  "polite_interpolation = seqs [Start, Star ws, opt (lit '',''), Star ws,
     alts [seqs [lit ''if'', rep1 ws, lit ''you'', rep1 ws,
                 alts [lit ''would'', lit ''could'', seqs [lit ''don'', opt apostrophe, lit ''t'', rep1 ws, lit ''mind''],
                       lit ''please'', lit ''like'']],
           seqs [lit ''if'', rep1 ws, lit ''you'', rep1 ws, lit ''like''],
           lit ''please'',
           seqs [lit ''if'', rep1 ws, lit ''that'', opt apostrophe, lit ''s'', rep1 ws,
                 lits [''okay'', ''ok'', ''alright'', ''fine'']]],
     Star ws, opt (lit '',''), Star ws]"

definition addressee :: re where
  "addressee = Seq (alts [seqs [lit ''the'', rep1 ws, lit ''worker''], lit ''it'']) Bound"

definition first_person_head :: re where
  "first_person_head = seqs [Start, Star ws, lit ''i'', opt (seqs [apostrophe, lits [''m'', ''ll'', ''d'', ''ve'']]), Bound]"

definition head_seam :: re where
  "head_seam = seqs [Start, rep1 (ws_or (js '',.;:!?'' @ [em_dash, 45]))]"

definition colon_sep :: re where
  "colon_sep = seqs [Start, Star ws, one_of [58, em_dash, 45], Star ws]"

subsection \<open>Commission frames\<close>

text \<open>The length of the match, which for a pattern anchored at the start is what the frame consumes.\<close>

definition match_length :: "re \<Rightarrow> jsstr \<Rightarrow> nat option" where
  "match_length r w = map_option (\<lambda>m. length (m_text w m)) (exec r w)"

definition leading_ws :: "jsstr \<Rightarrow> nat" where
  "leading_ws w = (case match_length (seqs [Start, Star ws]) w of Some n \<Rightarrow> n | None \<Rightarrow> 0)"

definition separator_before_content :: "re \<Rightarrow> jsstr \<Rightarrow> nat option" where
  "separator_before_content r after =
     (case match_length r after of
        Some n \<Rightarrow> if has_visible (drop n after) then Some n else None
      | None \<Rightarrow> None)"

definition frame_consumer :: "string \<Rightarrow> bool \<Rightarrow> jsstr \<Rightarrow> nat option" where
  "frame_consumer verb connectorsKept work =
     (case match_length (seqs [Start, lit verb, rep1 ws, addressee]) work of
        None \<Rightarrow> None
      | Some h \<Rightarrow>
          let afterHead = drop h work;
              polite = (case match_length polite_interpolation afterHead of Some n \<Rightarrow> n | None \<Rightarrow> 0);
              base = h + polite;
              after = drop polite afterHead in
          case match_length (seqs [Start, Star ws, lits [''to'', ''that''], Bound, rep1 (ws_or (js '',;:''))]) after of
            Some n \<Rightarrow> Some (base + n)
          | None \<Rightarrow>
          case separator_before_content colon_sep after of
            Some n \<Rightarrow> Some (base + n)
          | None \<Rightarrow>
          if connectorsKept \<and> test (seqs [Start, rep1 ws,
               lits [''if'', ''whether'', ''about'', ''for'', ''what'', ''when'', ''where'', ''why'', ''how'', ''which'', ''who'', ''whose''],
               Bound]) after
          then Some (base + leading_ws after)
          else if test (seqs [Start, rep1 ws, non_ws]) after \<and> test first_person_head after
          then Some (base + leading_ws after)
          else None)"

definition let_know_frame :: "jsstr \<Rightarrow> nat option" where
  "let_know_frame work =
     (case match_length (seqs [Start, lit ''let'', rep1 ws, lit ''the'', rep1 ws, lit ''worker'', rep1 ws, lit ''know'', Bound]) work of
        None \<Rightarrow> None
      | Some h \<Rightarrow>
          let after = drop h work in
          case match_length (seqs [Start, rep1 ws, lit ''that'', rep1 ws]) after of
            Some n \<Rightarrow> Some (h + n)
          | None \<Rightarrow>
          case separator_before_content colon_sep after of
            Some n \<Rightarrow> Some (h + n)
          | None \<Rightarrow> Some (h + leading_ws after))"

definition pass_frame :: "jsstr \<Rightarrow> nat option" where
  "pass_frame work =
     (case match_length (seqs [Start, lit ''pass'', rep1 ws, lits [''this'', ''that'', ''it''], rep1 ws,
             opt (seqs [lit ''on'', rep1 ws]), lit ''to'', rep1 ws,
             alts [seqs [lit ''the'', rep1 ws, lit ''worker''], lit ''it'', lit ''them''], Bound]) work of
        None \<Rightarrow> None
      | Some h \<Rightarrow> map_option (\<lambda>n. h + n) (separator_before_content colon_sep (drop h work)))"

definition relay_frame :: "jsstr \<Rightarrow> nat option" where
  "relay_frame work =
     (case match_length (seqs [Start, lit ''relay'', rep1 ws, opt (seqs [lits [''this'', ''that''], rep1 ws]),
             opt (seqs [lit ''on'', rep1 ws]), lit ''to'', rep1 ws,
             alts [seqs [lit ''the'', rep1 ws, lit ''worker''], lit ''worker''], Bound]) work of
        None \<Rightarrow> None
      | Some h \<Rightarrow>
          let after = drop h work in
          case match_length (seqs [Start, Star ws, lits [''that'', ''to''], Bound, rep1 (ws_or (js '',;:''))]) after of
            Some n \<Rightarrow> Some (h + n)
          | None \<Rightarrow>
          case separator_before_content (seqs [Start, Star ws, one_of [44, 58, em_dash, 45], Star ws]) after of
            Some n \<Rightarrow> Some (h + n)
          | None \<Rightarrow>
          if test (seqs [Start, rep1 ws, non_ws]) after then Some (h + leading_ws after) else None)"

subsection \<open>The stages\<close>

definition recorded :: "jsstr \<Rightarrow> jsstr list" where
  "recorded piece = (if piece = [] then [] else [piece])"

definition drop_hesitations :: "jsstr \<Rightarrow> jsstr \<times> jsstr list" where
  "drop_hesitations = replace_all hesitation (\<lambda>s m. ([], recorded (m_text s m)))"

definition keep_one :: "jsstr \<Rightarrow> re_match \<Rightarrow> jsstr \<times> jsstr list" where
  "keep_one s m =
     (case m_group s m of
        None \<Rightarrow> (m_text s m, [])
      | Some w \<Rightarrow>
          if map ascii_lower w \<in> set stutter_exempt then (m_text s m, [])
          else (w, recorded (drop (length w) (m_text s m))))"

definition drop_stutters :: "jsstr \<Rightarrow> jsstr \<times> jsstr list" where
  "drop_stutters = replace_all stutter keep_one"

text \<open>\<open>m?.[0]\<close> is truthy when there is a match and it is not empty.\<close>

definition nonempty_match :: "re \<Rightarrow> jsstr \<Rightarrow> nat option" where
  "nonempty_match r w = (case match_length r w of Some n \<Rightarrow> if n = 0 then None else Some n | None \<Rightarrow> None)"

fun first_some :: "'a option list \<Rightarrow> 'a option" where
  "first_some [] = None"
| "first_some (None # xs) = first_some xs"
| "first_some (Some x # xs) = Some x"

definition head_item :: "jsstr \<Rightarrow> nat option" where
  "head_item w = first_some
     [nonempty_match marker_free w, nonempty_match marker_punctuated w, nonempty_match commission_lead_in w,
      nonempty_match politeness w, nonempty_match (seqs [Start, lit ''also'', rep1 ws, Ahead True commission_verb]) w,
      frame_consumer ''ask'' True w, frame_consumer ''tell'' False w, let_know_frame w, pass_frame w, relay_frame w]"

definition seam_length :: "jsstr \<Rightarrow> nat" where
  "seam_length w = (case match_length head_seam w of Some n \<Rightarrow> n | None \<Rightarrow> 0)"

primrec head_loop :: "nat \<Rightarrow> jsstr \<Rightarrow> jsstr \<times> jsstr list" where
  "head_loop 0 w = (w, [])"
| "head_loop (Suc n) w =
     (let seam = seam_length w;
          w1 = drop seam w;
          r1 = recorded (take seam w) in
      case head_item w1 of
        None \<Rightarrow> (w1, r1)
      | Some k \<Rightarrow>
          let rest = head_loop n (drop k w1) in
          (fst rest, r1 @ recorded (take k w1) @ snd rest))"

definition courtesy_end :: re where
  "courtesy_end = Seq (Star (ws_or (js ''.!''))) End"

definition trailing_pad :: "re list" where
  "trailing_pad =
     [Seq (opt (lit '','')) (Seq (Star ws) (Seq (lit ''if'') (Seq (rep1 ws)
        (Seq (alts [seqs [lit ''that'', Star ws, opt apostrophe, lit ''s''], seqs [lit ''that'', rep1 ws, lit ''is''],
                    seqs [lit ''this'', rep1 ws, lit ''is'']])
        (Seq (rep1 ws) (Seq (lits [''okay'', ''ok'', ''alright'', ''fine'']) (Seq Bound courtesy_end))))))),
      Seq (opt (lit '','')) (Seq (Star ws) (Seq (lit ''if'') (Seq (rep1 ws) (Seq (lit ''you'') (Seq (rep1 ws)
        (Seq (alts [seqs [lit ''don'', Star ws, opt apostrophe, lit ''t'', rep1 ws, lit ''mind''], lit ''could''])
        (Seq Bound (Seq (Star (ws_or (js ''.!?''))) End)))))))),
      Seq (opt (lit '','')) (Seq (Star ws) (Seq (lit ''please'') (Seq Bound courtesy_end)))]"

definition courtesy_length :: "jsstr \<Rightarrow> nat option" where
  "courtesy_length w = first_some (map (\<lambda>r. nonempty_match r w) trailing_pad)"

primrec tail_loop :: "nat \<Rightarrow> jsstr \<Rightarrow> jsstr \<times> jsstr list" where
  "tail_loop 0 w = (w, [])"
| "tail_loop (Suc n) w =
     (case courtesy_length w of
        None \<Rightarrow> (w, [])
      | Some k \<Rightarrow>
          let rest = tail_loop n (take (length w - k) w) in
          (fst rest, recorded (drop (length w - k) w) @ snd rest))"

definition punctuation :: "jsstr" where
  "punctuation = js '',.;:!?''"

definition keep_first_mark :: "jsstr \<Rightarrow> re_match \<Rightarrow> jsstr \<times> jsstr list" where
  "keep_first_mark s m =
     (case m_group s m of
        None \<Rightarrow> (m_text s m, [])
      | Some first \<Rightarrow> (first, recorded (drop (length first) (m_text s m))))"

definition collapse_blanks :: "jsstr \<Rightarrow> jsstr" where
  "collapse_blanks w = fst (replace_all (seqs [blank, rep1 blank]) (\<lambda>s m. ([32], [])) w)"

definition close_before_mark :: "jsstr \<Rightarrow> jsstr" where
  "close_before_mark w =
     fst (replace_all (Seq (rep1 blank) (Grp (one_of punctuation)))
            (\<lambda>s m. (case m_group s m of Some g \<Rightarrow> g | None \<Rightarrow> [], [])) w)"

definition merge_marks :: "jsstr \<Rightarrow> jsstr \<times> jsstr list" where
  "merge_marks = replace_all
     (Seq (Grp (one_of punctuation)) (Seq (Star blank) (rep1 (one_of punctuation)))) keep_first_mark"

definition repair_relay_seams :: "jsstr \<Rightarrow> jsstr \<times> jsstr list" where
  "repair_relay_seams w =
     (let merged = merge_marks (close_before_mark (collapse_blanks w)) in
      (js_trim (fst merged), snd merged))"

definition normalise_relay_text :: "jsstr \<Rightarrow> relay_result" where
  "normalise_relay_text raw =
     (let h = drop_hesitations raw;
          s = drop_stutters (fst h);
          l = head_loop 16 (fst s);
          t = tail_loop 4 (fst l);
          e = repair_relay_seams (fst t) in
      if js_trim (fst e) = [] then \<lparr> rl_text = raw, rl_changed = False, rl_removals = [] \<rparr>
      else \<lparr> rl_text = fst e, rl_changed = (fst e \<noteq> raw),
             rl_removals = snd h @ snd s @ snd l @ snd t @ snd e \<rparr>)"

subsection \<open>Nothing is removed without being recorded\<close>

definition visible :: "jsstr \<Rightarrow> jsstr" where
  "visible s = filter (\<lambda>c. \<not> is_js_space c) s"

text \<open>\<open>conserved x y p\<close>: \<open>y\<close> is \<open>x\<close> without the recorded pieces \<open>p\<close>, up to spaces.\<close>

definition conserved :: "jsstr \<Rightarrow> jsstr \<Rightarrow> jsstr list \<Rightarrow> bool" where
  "conserved x y p \<longleftrightarrow>
     mset (visible x) = mset (visible y) + mset (visible (concat p)) \<and>
     subseq (visible y) (visible x) \<and>
     length y + length (concat p) \<le> length x \<and> [] \<notin> set p"

lemma visible_append [simp]: "visible (x @ y) = visible x @ visible y"
  by (simp add: visible_def)

lemma visible_Nil [simp]: "visible [] = []"
  by (simp add: visible_def)

lemma visible_blank: "list_all (\<lambda>c. c = 32 \<or> c = 9) x \<Longrightarrow> visible x = []"
  by (induction x) (auto simp: visible_def is_js_space_def)

lemma visible_dropWhile: "visible (dropWhile is_js_space t) = visible t"
  by (induction t) (auto simp: visible_def)

lemma visible_rev: "visible (rev t) = rev (visible t)"
  by (simp add: visible_def rev_filter)

lemma visible_trim: "visible (js_trim s) = visible s"
  by (simp add: js_trim_def visible_rev visible_dropWhile)

lemma visible_empty_iff: "visible s = [] \<longleftrightarrow> js_trim s = []"
proof
  assume "visible s = []"
  then have "dropWhile is_js_space s = []"
    unfolding visible_def filter_empty_conv dropWhile_eq_Nil_conv by blast
  then show "js_trim s = []" unfolding js_trim_def by (simp only: rev.simps dropWhile.simps)
next
  assume "js_trim s = []"
  then show "visible s = []" using visible_trim [of s] by simp
qed

lemma length_trim: "length (js_trim s) \<le> length s"
  using length_dropWhile_le [of is_js_space "rev (dropWhile is_js_space s)"]
    length_dropWhile_le [of is_js_space s] by (simp add: js_trim_def)

lemma conserved_refl [simp]: "conserved x x []"
  by (simp add: conserved_def)

lemma conserved_append: "conserved x y p \<Longrightarrow> conserved x' y' p' \<Longrightarrow> conserved (x @ x') (y @ y') (p @ p')"
  by (auto simp: conserved_def intro!: list_emb_append_mono)

lemma conserved_trans: "conserved x y p \<Longrightarrow> conserved y z q \<Longrightarrow> conserved x z (p @ q)"
  by (auto simp: conserved_def intro: subseq_order.trans)

lemma conserved_invisible:
  assumes "visible y = visible x" and "length y \<le> length x"
  shows "conserved x y []"
  using assms by (simp add: conserved_def)

lemma recorded_simps [simp]: "concat (recorded x) = x" "[] \<notin> set (recorded x)"
  by (simp_all add: recorded_def)

lemma conserved_drop: "conserved w (drop k w) (recorded (take k w))"
proof -
  have "mset (visible w) = mset (visible (take k w)) + mset (visible (drop k w))"
    by (metis append_take_drop_id visible_append mset_append)
  moreover have "subseq (visible (drop k w)) (visible w)"
    by (metis append_take_drop_id visible_append suffixI suffix_imp_subseq)
  ultimately show ?thesis by (simp add: conserved_def)
qed

lemma conserved_take: "conserved w (take k w) (recorded (drop k w))"
proof -
  have "mset (visible w) = mset (visible (take k w)) + mset (visible (drop k w))"
    by (metis append_take_drop_id visible_append mset_append)
  moreover have "subseq (visible (take k w)) (visible w)"
    by (metis append_take_drop_id visible_append prefixI prefix_imp_subseq)
  ultimately show ?thesis by (simp add: conserved_def)
qed

lemma replace_all_conserved:
  assumes "\<And>m k. exec_from r s k = Some m \<Longrightarrow> conserved (m_text s m) (fst (f s m)) (snd (f s m))"
  shows "conserved s (fst (replace_all r f s)) (snd (replace_all r f s))"
  by (rule replace_all_relates [where R = conserved]) (use assms conserved_append in auto)

lemma drop_hesitations_conserved: "conserved w (fst (drop_hesitations w)) (snd (drop_hesitations w))"
  unfolding drop_hesitations_def
  by (rule replace_all_conserved) (use conserved_take [where k = 0] in simp)

lemma drop_stutters_conserved: "conserved w (fst (drop_stutters w)) (snd (drop_stutters w))"
  unfolding drop_stutters_def
proof (rule replace_all_conserved)
  fix m k assume "exec_from stutter w k = Some m"
  then obtain v where v: "m_group w m = Some v" "v = take (length v) (m_text w m)"
    unfolding stutter_def by (auto dest!: leading_group simp: rep1_def blank_def)
  then show "conserved (m_text w m) (fst (keep_one w m)) (snd (keep_one w m))"
    using conserved_take [of "m_text w m" "length v"] by (simp add: keep_one_def v(1) flip: v(2))
qed

lemma head_loop_conserved: "conserved w (fst (head_loop n w)) (snd (head_loop n w))"
proof (induction n arbitrary: w)
  case 0
  show ?case by simp
next
  case (Suc n)
  let ?w1 = "drop (seam_length w) w"
  let ?r1 = "recorded (take (seam_length w) w)"
  have seam: "conserved w ?w1 ?r1" by (rule conserved_drop)
  show ?case
  proof (cases "head_item ?w1")
    case None
    with seam show ?thesis by (simp add: Let_def)
  next
    case (Some k)
    have "conserved w (drop k ?w1) (?r1 @ recorded (take k ?w1))"
      by (rule conserved_trans [OF seam conserved_drop])
    then have "conserved w (fst (head_loop n (drop k ?w1)))
                 ((?r1 @ recorded (take k ?w1)) @ snd (head_loop n (drop k ?w1)))"
      by (rule conserved_trans) (rule Suc.IH)
    with Some show ?thesis by (simp add: Let_def)
  qed
qed

lemma tail_loop_conserved: "conserved w (fst (tail_loop n w)) (snd (tail_loop n w))"
proof (induction n arbitrary: w)
  case 0
  show ?case by simp
next
  case (Suc n)
  show ?case
  proof (cases "courtesy_length w")
    case None
    then show ?thesis by simp
  next
    case (Some k)
    have "conserved w (fst (tail_loop n (take (length w - k) w)))
            (recorded (drop (length w - k) w) @ snd (tail_loop n (take (length w - k) w)))"
      by (rule conserved_trans [OF conserved_take Suc.IH])
    with Some show ?thesis by (simp add: Let_def)
  qed
qed

lemma blanks_only: "only (\<lambda>c. c = 32 \<or> c = 9) blank" "only (\<lambda>c. c = 32 \<or> c = 9) (rep1 blank)"
  by (auto simp: blank_def rep1_def)

lemma match_only:
  assumes "exec_from r s k = Some m" and "only p r"
  shows "list_all p (m_text s m)"
  using ends_only [OF assms(2) match_state [OF assms(1)]] by (simp add: m_text_def)

lemma collapse_blanks_conserved: "conserved w (collapse_blanks w) []"
proof -
  let ?r = "seqs [blank, rep1 blank]"
  have step: "visible (m_text w m) = [] \<and> 1 \<le> length (m_text w m)" if m: "exec_from ?r w k = Some m" for m k
  proof
    show "visible (m_text w m) = []"
      using match_only [OF m, of "\<lambda>c. c = 32 \<or> c = 9"] blanks_only by (intro visible_blank) simp
    obtain a where "a \<in> set (ends blank w (m_start m, None))" "snd m \<in> set (ends (rep1 blank) w a)"
      using match_state [OF m] by (auto elim: ends_SeqE)
    then have "m_start m < m_end m" and "m_end m \<le> length w"
      using ends_mono [of "snd m" "rep1 blank" w a] exec_from_ok [OF m] by (auto simp: blank_def split: if_splits)
    then show "1 \<le> length (m_text w m)" by (simp add: m_text_def length_slice)
  qed
  have "visible (fst (replace_all ?r (\<lambda>s m. ([32], [])) w)) = visible w
      \<and> length (fst (replace_all ?r (\<lambda>s m. ([32], [])) w)) \<le> length w"
    by (rule replace_all_relates [where R = "\<lambda>x y p. visible y = visible x \<and> length y \<le> length x"])
      (use step in \<open>auto simp: visible_def is_js_space_def\<close>)
  then show ?thesis by (simp add: collapse_blanks_def conserved_invisible)
qed

lemma close_before_mark_conserved: "conserved w (close_before_mark w) []"
proof -
  let ?r = "Seq (rep1 blank) (Grp (one_of punctuation))"
  let ?f = "\<lambda>s m. (case m_group s m of Some g \<Rightarrow> g | None \<Rightarrow> [], []) :: jsstr \<times> jsstr list"
  have step: "visible (fst (?f w m)) = visible (m_text w m) \<and> length (fst (?f w m)) \<le> length (m_text w m)"
    if m: "exec_from ?r w k = Some m" for m k
  proof -
    obtain v g where "m_group w m = Some g" "m_text w m = v @ g" "list_all (\<lambda>c. c = 32 \<or> c = 9) v"
      using trailing_group [OF m blanks_only(2)] by blast
    then show ?thesis using visible_blank by simp
  qed
  have "visible (fst (replace_all ?r ?f w)) = visible w \<and> length (fst (replace_all ?r ?f w)) \<le> length w"
    by (rule replace_all_relates [where R = "\<lambda>x y p. visible y = visible x \<and> length y \<le> length x"])
      (use step in auto)
  then show ?thesis by (simp add: close_before_mark_def conserved_invisible)
qed

lemma exec_from_Eps: "exec_from (Seq Eps r) s k = exec_from r s k"
proof -
  have "match_at (Seq Eps r) s = match_at r s" by (rule ext) (simp add: match_at_def)
  then show ?thesis by (simp only: exec_from_def)
qed

lemma merge_marks_conserved: "conserved w (fst (merge_marks w)) (snd (merge_marks w))"
  unfolding merge_marks_def
proof (rule replace_all_conserved)
  let ?r = "Seq (Grp (one_of punctuation)) (Seq (Star blank) (rep1 (one_of punctuation)))"
  fix m k assume "exec_from ?r w k = Some m"
  then have "exec_from (Seq Eps ?r) w k = Some m" by (simp only: exec_from_Eps)
  then obtain v where v: "m_group w m = Some v" "v = take (length v) (m_text w m)"
    by (auto dest!: leading_group simp: rep1_def blank_def one_of_def)
  then show "conserved (m_text w m) (fst (keep_first_mark w m)) (snd (keep_first_mark w m))"
    using conserved_take [of "m_text w m" "length v"] by (simp add: keep_first_mark_def v(1) flip: v(2))
qed

lemma repair_relay_seams_conserved: "conserved w (fst (repair_relay_seams w)) (snd (repair_relay_seams w))"
proof -
  let ?v = "close_before_mark (collapse_blanks w)"
  have "conserved w ?v []"
    using conserved_trans [OF collapse_blanks_conserved close_before_mark_conserved] by simp
  then have "conserved w (fst (merge_marks ?v)) ([] @ snd (merge_marks ?v))"
    by (rule conserved_trans) (rule merge_marks_conserved)
  moreover have "conserved (fst (merge_marks ?v)) (js_trim (fst (merge_marks ?v))) []"
    by (rule conserved_invisible) (simp_all add: visible_trim length_trim)
  ultimately have "conserved w (js_trim (fst (merge_marks ?v))) (snd (merge_marks ?v) @ [])"
    using conserved_trans by fastforce
  then show ?thesis by (simp add: repair_relay_seams_def Let_def)
qed

lemma normalise_conserved: "conserved raw (rl_text (normalise_relay_text raw)) (rl_removals (normalise_relay_text raw))"
proof -
  let ?h = "drop_hesitations raw"
  let ?s = "drop_stutters (fst ?h)"
  let ?l = "head_loop 16 (fst ?s)"
  let ?t = "tail_loop 4 (fst ?l)"
  let ?e = "repair_relay_seams (fst ?t)"
  have "conserved raw (fst ?e) ((((snd ?h @ snd ?s) @ snd ?l) @ snd ?t) @ snd ?e)"
    by (intro conserved_trans [OF _ repair_relay_seams_conserved] conserved_trans [OF _ tail_loop_conserved]
        conserved_trans [OF _ head_loop_conserved] conserved_trans [OF _ drop_stutters_conserved]
        drop_hesitations_conserved)
  then show ?thesis by (simp add: normalise_relay_text_def Let_def)
qed

text \<open>A relay in which only the first stage finds something.\<close>

lemma loops_idle:
  "seam_length w = 0 \<Longrightarrow> head_item w = None \<Longrightarrow> 0 < n \<Longrightarrow> head_loop n w = (w, [])"
  "courtesy_length w = None \<Longrightarrow> tail_loop n w = (w, [])"
  by (cases n; simp add: recorded_def Let_def)+

lemmas pattern_defs = marker_free_def marker_punctuated_def commission_lead_in_def commission_verb_def politeness_def
  politeness_head_def addressee_def head_seam_def courtesy_end_def apostrophe_def em_dash_def match_length_def
  nonempty_match_def trailing_pad_def

lemma um_go_stages:
  "drop_hesitations [117, 109, 32, 103, 111] = ([103, 111], [[117, 109, 32]])"
  "drop_stutters [103, 111] = ([103, 111], [])"
  "collapse_blanks [103, 111] = [103, 111]" "close_before_mark [103, 111] = [103, 111]"
  "merge_marks [103, 111] = ([103, 111], [])"
  by code_simp+

lemma go_has_no_frame: "head_item [103, 111] = None"
  by (simp add: head_item_def frame_consumer_def let_know_frame_def pass_frame_def relay_frame_def pattern_defs regex_eval)

lemma go_is_plain:
  "seam_length [103, 111] = 0" "courtesy_length [103, 111] = None" "js_trim [103, 111] = [103, 111]"
  by (simp_all add: seam_length_def courtesy_length_def js_trim_def pattern_defs regex_eval)

lemma normalise_um_go:
  "normalise_relay_text [117, 109, 32, 103, 111] =
     \<lparr> rl_text = [103, 111], rl_changed = True, rl_removals = [[117, 109, 32]] \<rparr>"
  by (simp add: normalise_relay_text_def repair_relay_seams_def um_go_stages go_has_no_frame go_is_plain
      loops_idle Let_def)

text \<open>C21: Removal only: what the operator said is, apart from spaces, what is relayed plus what is recorded as
  removed; the relayed words keep the operator's order and nothing is added to them; an unchanged
  relay is byte-identical with no removal, and an instruction that says something is never emptied.\<close>
theorem relay_is_removal_only:
  "mset (visible raw) = mset (visible (rl_text (normalise_relay_text raw)))
      + mset (visible (concat (rl_removals (normalise_relay_text raw))))
   \<and> subseq (visible (rl_text (normalise_relay_text raw))) (visible raw)
   \<and> (rl_changed (normalise_relay_text raw) \<or>
       rl_text (normalise_relay_text raw) = raw \<and> rl_removals (normalise_relay_text raw) = [])
   \<and> (visible (rl_text (normalise_relay_text raw)) = [] \<longleftrightarrow> visible raw = [])"
proof -
  let ?n = "normalise_relay_text raw"
  have c: "conserved raw (rl_text ?n) (rl_removals ?n)" by (rule normalise_conserved)
  have "rl_text ?n = raw" if "\<not> rl_changed ?n"
    using that by (auto simp: normalise_relay_text_def Let_def split: if_splits)
  moreover have "rl_removals ?n = []" if "rl_text ?n = raw"
  proof -
    have "concat (rl_removals ?n) = []" using c that by (simp add: conserved_def)
    then show ?thesis using c by (cases "rl_removals ?n") (auto simp: conserved_def)
  qed
  moreover have "visible (rl_text ?n) = [] \<longleftrightarrow> visible raw = []"
  proof -
    have "visible (rl_text ?n) \<noteq> [] \<or> rl_text ?n = raw"
      by (auto simp: normalise_relay_text_def Let_def visible_empty_iff)
    moreover have "visible (rl_text ?n) = []" if "visible raw = []"
      using c that by (simp add: conserved_def)
    ultimately show ?thesis by auto
  qed
  ultimately show ?thesis using c by (auto simp: conserved_def)
qed

end
