(* ===== verification/Proposals.thy ===== *)
theory Proposals
  imports Payload_Budget Relay_Normalise
begin

text \<open>
  What the operator asked the worker to do, held until it is confirmed:
  \<open>talker/proposal-store.ts\<close>.

  \<^item> \<open>utterance_log\<close> is \<open>UtteranceLog\<close>, the bounded verbatim log.
  \<^item> \<open>pending_store\<close> is \<open>PendingProposalStore\<close>: the operator's draft and its version counter.
  \<^item> \<open>proposal_store\<close> is \<open>ProposalStore\<close>: the promoted proposals by id, at most one live per lane.

  \<open>text_env\<close> carries what the store takes from elsewhere: the relay transform \<open>normaliseRelayText\<close> and
  \<open>repairRelaySeams\<close> (the store's properties hold for any; \<open>relay_env\<close> puts the functions of
  \<open>Relay_Normalise\<close> there), the SHA-256 digest, and the Unicode tables behind \<open>toLowerCase\<close> and
  \<open>\p{L}\p{N}\<close>.
\<close>

subsection \<open>Text\<close>

record text_env =
  tx_relay :: "jsstr \<Rightarrow> relay_result"
  tx_seams :: "jsstr \<Rightarrow> jsstr"
  tx_sha :: "jsstr \<Rightarrow> jsstr"
  tx_lower :: "jsstr \<Rightarrow> jsstr"
  tx_letter_number :: "nat \<Rightarrow> bool"

text \<open>The environment with the relay transform of the repository.\<close>

definition relay_env :: "(jsstr \<Rightarrow> jsstr) \<Rightarrow> (jsstr \<Rightarrow> jsstr) \<Rightarrow> (nat \<Rightarrow> bool) \<Rightarrow> text_env" where
  "relay_env sha lower letter_number =
     \<lparr> tx_relay = normalise_relay_text, tx_seams = (\<lambda>w. fst (repair_relay_seams w)), tx_sha = sha,
       tx_lower = lower, tx_letter_number = letter_number \<rparr>"

subsection \<open>The verbatim log\<close>

record verbatim_utterance =
  vu_id :: nat
  vu_text :: jsstr
  vu_turn :: int
  vu_acknowledged :: bool

record utterance_log =
  ul_records :: "verbatim_utterance list"
  ul_nextId :: nat
  ul_limit :: nat

definition utterance_log_init :: "nat option \<Rightarrow> utterance_log" where
  "utterance_log_init limit =
     \<lparr> ul_records = [], ul_nextId = 1, ul_limit = (case limit of Some n \<Rightarrow> n | None \<Rightarrow> 50) \<rparr>"

definition log_record :: "jsstr \<Rightarrow> int \<Rightarrow> utterance_log \<Rightarrow> verbatim_utterance \<times> utterance_log" where
  "log_record text turn l =
     (let r = \<lparr> vu_id = ul_nextId l, vu_text = text, vu_turn = turn, vu_acknowledged = False \<rparr> in
      (r, l \<lparr> ul_nextId := ul_nextId l + 1, ul_records := keep_last (ul_limit l) (ul_records l @ [r]) \<rparr>))"

definition log_resolve :: "nat \<Rightarrow> utterance_log \<Rightarrow> verbatim_utterance option" where
  "log_resolve i l = find (\<lambda>r. vu_id r = i) (ul_records l)"

definition log_recent :: "nat \<Rightarrow> utterance_log \<Rightarrow> verbatim_utterance list" where
  "log_recent n l = slice_last n (ul_records l)"

definition unacknowledged_count :: "utterance_log \<Rightarrow> nat" where
  "unacknowledged_count l = length (filter (\<lambda>r. \<not> vu_acknowledged r) (ul_records l))"

definition take_receipt :: "utterance_log \<Rightarrow> nat option \<times> utterance_log" where
  "take_receipt l =
     (let n = unacknowledged_count l in
      if n = 0 then (None, l)
      else (Some n, l \<lparr> ul_records := map (\<lambda>r. r \<lparr> vu_acknowledged := True \<rparr>) (ul_records l) \<rparr>))"

subsection \<open>Draft text\<close>

record draft_entry =
  de_id :: nat
  de_text :: jsstr
  de_turn :: int
  de_originalText :: "jsstr option"
  de_removals :: "jsstr list option"

definition join_draft_text :: "draft_entry list \<Rightarrow> jsstr" where
  "join_draft_text us = join_with 10 (map de_text us)"

definition raw_text :: "draft_entry \<Rightarrow> jsstr" where
  "raw_text u = (case de_originalText u of Some t \<Rightarrow> t | None \<Rightarrow> de_text u)"

definition join_original_draft_text :: "draft_entry list \<Rightarrow> jsstr" where
  "join_original_draft_text us = join_with 10 (map raw_text us)"

definition proposal_hash :: "text_env \<Rightarrow> jsstr \<Rightarrow> jsstr option \<Rightarrow> jsstr" where
  "proposal_hash env text original =
     tx_sha env (text @ 0 # (case original of Some t \<Rightarrow> t | None \<Rightarrow> []))"

record proposal_descriptor =
  pd_text :: jsstr
  pd_cleaned :: bool
  pd_removed :: "jsstr option"
  pd_original :: "jsstr option"
  pd_hash :: jsstr

definition removals_of :: "draft_entry \<Rightarrow> jsstr list" where
  "removals_of u = (case de_removals u of Some rs \<Rightarrow> rs | None \<Rightarrow> [])"

definition describe_proposal :: "text_env \<Rightarrow> draft_entry list \<Rightarrow> proposal_descriptor" where
  "describe_proposal env us =
     (let text = join_draft_text us in
      if \<not> relay_has_visible_removal (concat (map removals_of us))
      then \<lparr> pd_text = text, pd_cleaned = False, pd_removed = None, pd_original = None,
             pd_hash = proposal_hash env text None \<rparr>
      else
        let fragments = concat (map (\<lambda>u. visible_removal_fragments (removals_of u)) us);
            original = join_original_draft_text us in
        \<lparr> pd_text = text, pd_cleaned = True,
          pd_removed = (if fragments \<noteq> [] then Some (tx_seams env (join_with 32 fragments)) else None),
          pd_original = Some original, pd_hash = proposal_hash env text (Some original) \<rparr>)"

subsection \<open>Restatement\<close>

text \<open>Code points of a UTF-16 string, as the \<open>u\<close> flag iterates.\<close>

fun code_points :: "jsstr \<Rightarrow> nat list" where
  "code_points [] = []"
| "code_points [c] = [c]"
| "code_points (c # d # cs) =
     (if is_high c \<and> is_low d then (0x10000 + (c - 0xD800) * 0x400 + (d - 0xDC00)) # code_points cs
      else c # code_points (d # cs))"

text \<open>\<open>replace(/[^\p{L}\p{N}']+/gu, ' ')\<close>: every maximal run of other characters becomes one space.\<close>

fun separate :: "(nat \<Rightarrow> bool) \<Rightarrow> bool \<Rightarrow> nat list \<Rightarrow> nat list" where
  "separate ok in_run [] = []"
| "separate ok in_run (c # cs) =
     (if ok c then c # separate ok False cs
      else if in_run then separate ok True cs else 32 # separate ok True cs)"

definition normalise_for_restatement :: "text_env \<Rightarrow> jsstr \<Rightarrow> nat list" where
  "normalise_for_restatement env text =
     js_trim (separate (\<lambda>c. tx_letter_number env c \<or> c = 39) False (code_points (tx_lower env text)))"

definition is_draft_restatement :: "text_env \<Rightarrow> jsstr \<Rightarrow> jsstr \<Rightarrow> bool" where
  "is_draft_restatement env heldText newText =
     (let held = normalise_for_restatement env heldText;
          nxt = normalise_for_restatement env newText in
      held \<noteq> [] \<and> nxt \<noteq> [] \<and> (prefix nxt held \<or> prefix held nxt))"

subsection \<open>The operator's draft\<close>

record operator_draft =
  od_utterances :: "draft_entry list"
  od_createdTurn :: int
  od_lastTouchedTurn :: int
  od_ageTurns :: int
  od_needsReConfirmation :: bool
  od_version :: nat

record released_record =
  rr_utteranceId :: nat
  rr_text :: jsstr
  rr_outcome :: jsstr
  rr_turn :: int

record pending_store =
  ps_draft :: "operator_draft option"
  ps_released :: "released_record list"
  ps_nextVersion :: nat
  ps_maxPendingAgeTurns :: int
  ps_releasedHistoryLimit :: nat

definition pending_store_init :: "int option \<Rightarrow> nat option \<Rightarrow> pending_store" where
  "pending_store_init max_age history =
     \<lparr> ps_draft = None, ps_released = [], ps_nextVersion = 0,
       ps_maxPendingAgeTurns = (case max_age of Some n \<Rightarrow> n | None \<Rightarrow> 6),
       ps_releasedHistoryLimit = (case history of Some n \<Rightarrow> n | None \<Rightarrow> 5) \<rparr>"

record pending_proposal =
  pp_utteranceId :: nat
  pp_text :: jsstr
  pp_createdTurn :: int
  pp_ageTurns :: int

text \<open>The draft when it holds anything: every reader starts with this test.\<close>

definition held_draft :: "pending_store \<Rightarrow> operator_draft option" where
  "held_draft s = (case ps_draft s of None \<Rightarrow> None
     | Some d \<Rightarrow> if od_utterances d = [] then None else Some d)"

definition pending_view :: "pending_store \<Rightarrow> pending_proposal option" where
  "pending_view s =
     map_option (\<lambda>d. \<lparr> pp_utteranceId = de_id (last (od_utterances d)), pp_text = join_draft_text (od_utterances d),
                       pp_createdTurn = od_createdTurn d, pp_ageTurns = od_ageTurns d \<rparr>) (held_draft s)"

definition last_released :: "pending_store \<Rightarrow> released_record option" where
  "last_released s = (if ps_released s = [] then None else Some (last (ps_released s)))"

record draft_snapshot =
  ds_utterances :: "draft_entry list"
  ds_ageTurns :: int
  ds_needsReConfirmation :: bool

definition snapshot_draft :: "pending_store \<Rightarrow> draft_snapshot option" where
  "snapshot_draft s =
     map_option (\<lambda>d. \<lparr> ds_utterances = od_utterances d, ds_ageTurns = od_ageTurns d,
                       ds_needsReConfirmation = od_needsReConfirmation d \<rparr>) (held_draft s)"

definition draft_age :: "int \<Rightarrow> operator_draft \<Rightarrow> int" where
  "draft_age turn d = max (od_ageTurns d) (turn - od_lastTouchedTurn d)"

definition is_lapsed :: "int \<Rightarrow> pending_store \<Rightarrow> bool" where
  "is_lapsed turn s =
     (case ps_draft s of None \<Rightarrow> False | Some d \<Rightarrow> ps_maxPendingAgeTurns s \<le> draft_age turn d)"

definition entry_of :: "text_env \<Rightarrow> nat \<Rightarrow> jsstr \<Rightarrow> int \<Rightarrow> draft_entry" where
  "entry_of env i text turn =
     (let relay = tx_relay env text in
      if rl_changed relay
      then \<lparr> de_id = i, de_text = rl_text relay, de_turn = turn, de_originalText = Some text,
             de_removals = Some (rl_removals relay) \<rparr>
      else \<lparr> de_id = i, de_text = text, de_turn = turn, de_originalText = None, de_removals = None \<rparr>)"

definition append_to_draft ::
  "text_env \<Rightarrow> nat \<Rightarrow> jsstr \<Rightarrow> int \<Rightarrow> pending_store \<Rightarrow> draft_snapshot option \<times> pending_store" where
  "append_to_draft env utteranceId text turn s =
     (let entry = entry_of env utteranceId text turn;
          version = ps_nextVersion s + 1;
          fresh = \<lparr> od_utterances = [entry], od_createdTurn = turn, od_lastTouchedTurn = turn, od_ageTurns = 0,
                    od_needsReConfirmation = False, od_version = version \<rparr>;
          draft = (case held_draft s of
              None \<Rightarrow> fresh
            | Some held \<Rightarrow>
                if is_draft_restatement env (join_draft_text (od_utterances held)) text then fresh
                else held \<lparr> od_utterances := od_utterances held @ [entry], od_lastTouchedTurn := turn,
                            od_ageTurns := 0, od_needsReConfirmation := False, od_version := version \<rparr>);
          s' = s \<lparr> ps_nextVersion := version, ps_draft := Some draft \<rparr> in
      (snapshot_draft s', s'))"

definition describe_current :: "text_env \<Rightarrow> pending_store \<Rightarrow> (proposal_descriptor \<times> nat) option" where
  "describe_current env s =
     map_option (\<lambda>d. (describe_proposal env (od_utterances d), od_version d)) (held_draft s)"

definition identity_matches :: "text_env \<Rightarrow> nat \<times> jsstr \<Rightarrow> pending_store \<Rightarrow> bool" where
  "identity_matches env echo s =
     (case describe_current env s of
        None \<Rightarrow> False
      | Some (descriptor, version) \<Rightarrow> version = fst echo \<and> pd_hash descriptor = snd echo)"

definition mark_resurfaced :: "int \<Rightarrow> pending_store \<Rightarrow> pending_store" where
  "mark_resurfaced turn s =
     s \<lparr> ps_draft := map_option (\<lambda>d. d \<lparr> od_lastTouchedTurn := turn, od_ageTurns := 0,
                                           od_needsReConfirmation := False \<rparr>) (ps_draft s) \<rparr>"

definition tick_turn :: "int \<Rightarrow> pending_store \<Rightarrow> pending_store" where
  "tick_turn turn s =
     s \<lparr> ps_draft := map_option (\<lambda>d. d \<lparr> od_ageTurns := draft_age turn d,
            od_needsReConfirmation := od_needsReConfirmation d \<or> ps_maxPendingAgeTurns s \<le> draft_age turn d \<rparr>)
          (ps_draft s) \<rparr>"

datatype ordinal = First | Second | Third | Fourth | Fifth | Last

datatype release_variant = Tidied | Original

definition ordinal_order :: "ordinal list" where
  "ordinal_order = [First, Second, Third, Fourth, Fifth]"

definition resolve_ordinal_index :: "ordinal \<Rightarrow> nat \<Rightarrow> nat option" where
  "resolve_ordinal_index position n =
     (if n = 0 then None
      else if position = Last then Some (n - 1)
      else case find_index (\<lambda>p. p = position) ordinal_order of
          Some i \<Rightarrow> if n \<le> i then None else Some i
        | None \<Rightarrow> None)"

record taken_release =
  tr_utteranceIds :: "nat list"
  tr_utteranceId :: nat
  tr_text :: jsstr

definition taken_of :: "release_variant \<Rightarrow> draft_entry list \<Rightarrow> taken_release" where
  "taken_of variant selected =
     \<lparr> tr_utteranceIds = map de_id selected, tr_utteranceId = de_id (hd selected),
       tr_text = (case variant of Original \<Rightarrow> join_original_draft_text selected
                                | Tidied \<Rightarrow> join_draft_text selected) \<rparr>"

definition take_for_release ::
  "int \<Rightarrow> ordinal option \<Rightarrow> release_variant \<Rightarrow> pending_store \<Rightarrow> taken_release option \<times> pending_store" where
  "take_for_release turn selection variant s =
     (case held_draft s of
        None \<Rightarrow> (None, s)
      | Some d \<Rightarrow>
          if ps_maxPendingAgeTurns s \<le> draft_age turn d
          then (None, s \<lparr> ps_draft := Some (d \<lparr> od_ageTurns := draft_age turn d, od_needsReConfirmation := True \<rparr>) \<rparr>)
          else case selection of
              None \<Rightarrow> (Some (taken_of variant (od_utterances d)), s \<lparr> ps_draft := None \<rparr>)
            | Some position \<Rightarrow>
                case resolve_ordinal_index position (length (od_utterances d)) of
                  None \<Rightarrow> (None, s)
                | Some i \<Rightarrow>
                    let remaining = splice_out i (od_utterances d) in
                    (Some (taken_of variant [od_utterances d ! i]),
                     if remaining = [] then s \<lparr> ps_draft := None \<rparr>
                     else s \<lparr> ps_draft := Some (d \<lparr> od_utterances := remaining, od_version := ps_nextVersion s + 1 \<rparr>),
                              ps_nextVersion := ps_nextVersion s + 1 \<rparr>))"

definition can_resolve_selection :: "ordinal \<Rightarrow> pending_store \<Rightarrow> bool" where
  "can_resolve_selection position s =
     (case ps_draft s of None \<Rightarrow> False
      | Some d \<Rightarrow> resolve_ordinal_index position (length (od_utterances d)) \<noteq> None)"

definition cancel_draft :: "pending_store \<Rightarrow> bool \<times> pending_store" where
  "cancel_draft s = (ps_draft s \<noteq> None, s \<lparr> ps_draft := None \<rparr>)"

definition record_released :: "released_record \<Rightarrow> pending_store \<Rightarrow> pending_store" where
  "record_released r s = s \<lparr> ps_released := keep_last (ps_releasedHistoryLimit s) (ps_released s @ [r]) \<rparr>"

subsection \<open>Promoted proposals\<close>

datatype promotion_route = Direct_Address | Accepted_Offer | Parked_Item_Promotion

datatype proposal_status = Drafted | Presented | Released | Cancelled | Superseded

record proposal =
  pr_id :: jsstr
  pr_laneId :: jsstr
  pr_version :: nat
  pr_sha256 :: jsstr
  pr_original :: jsstr
  pr_tidied :: jsstr
  pr_presentedVariant :: "release_variant option"
  pr_status :: proposal_status
  pr_promotionRoute :: promotion_route
  pr_sourceUtteranceId :: nat
  pr_createdTurn :: int
  pr_createdAt :: int

record proposal_store =
  pt_byId :: "(jsstr, proposal) jsmap"
  pt_nextId :: nat
  pt_nextVersion :: nat

definition proposal_store_init :: proposal_store where
  "proposal_store_init = \<lparr> pt_byId = [], pt_nextId = 1, pt_nextVersion = 1 \<rparr>"

definition is_live :: "proposal \<Rightarrow> bool" where
  "is_live p \<longleftrightarrow> pr_status p = Drafted \<or> pr_status p = Presented"

definition live_proposal :: "jsstr \<Rightarrow> proposal_store \<Rightarrow> proposal option" where
  "live_proposal lane s = find (\<lambda>p. pr_laneId p = lane \<and> is_live p) (jm_values (pt_byId s))"

record proposal_input =
  pi_laneId :: jsstr
  pi_route :: "promotion_route option"
  pi_sourceUtteranceId :: nat
  pi_tidied :: jsstr
  pi_original :: "jsstr option"
  pi_createdTurn :: int
  pi_createdAt :: "int option"

datatype proposal_error = Unknown_Promotion_Route | Proposal_Not_Found

definition set_status :: "jsstr \<Rightarrow> proposal_status \<Rightarrow> proposal_store \<Rightarrow> proposal_store" where
  "set_status pid st s =
     (case jm_get (pt_byId s) pid of
        None \<Rightarrow> s
      | Some p \<Rightarrow> s \<lparr> pt_byId := jm_set pid (p \<lparr> pr_status := st \<rparr>) (pt_byId s) \<rparr>)"

definition proposal_id :: "nat \<Rightarrow> jsstr" where
  "proposal_id n = js ''prop-'' @ nat_text n"

definition new_proposal :: "text_env \<Rightarrow> int \<Rightarrow> proposal_input \<Rightarrow> promotion_route \<Rightarrow> proposal_store \<Rightarrow> proposal" where
  "new_proposal env now input route s =
     (let tidied = pi_tidied input;
          original = (case pi_original input of Some t \<Rightarrow> t | None \<Rightarrow> tidied) in
      \<lparr> pr_id = proposal_id (pt_nextId s), pr_laneId = pi_laneId input, pr_version = pt_nextVersion s,
        pr_sha256 = proposal_hash env tidied (if original \<noteq> tidied then Some original else None),
        pr_original = original, pr_tidied = tidied, pr_presentedVariant = None, pr_status = Drafted,
        pr_promotionRoute = route, pr_sourceUtteranceId = pi_sourceUtteranceId input,
        pr_createdTurn = pi_createdTurn input,
        pr_createdAt = (case pi_createdAt input of Some t \<Rightarrow> t | None \<Rightarrow> now) \<rparr>)"

definition create_proposal ::
  "text_env \<Rightarrow> int \<Rightarrow> proposal_input \<Rightarrow> proposal_store \<Rightarrow> (proposal_error + proposal) \<times> proposal_store" where
  "create_proposal env now input s =
     (case pi_route input of
        None \<Rightarrow> (Inl Unknown_Promotion_Route, s)
      | Some route \<Rightarrow>
          let s1 = (case live_proposal (pi_laneId input) s of
                      None \<Rightarrow> s | Some l \<Rightarrow> set_status (pr_id l) Superseded s);
              p = new_proposal env now input route s1 in
          (Inr p, s1 \<lparr> pt_byId := jm_set (pr_id p) p (pt_byId s1),
                       pt_nextId := pt_nextId s1 + 1, pt_nextVersion := pt_nextVersion s1 + 1 \<rparr>))"

definition get_proposal :: "jsstr \<Rightarrow> proposal_store \<Rightarrow> proposal option" where
  "get_proposal pid s = jm_get (pt_byId s) pid"

definition list_proposals :: "proposal_store \<Rightarrow> proposal list" where
  "list_proposals s = jm_values (pt_byId s)"

definition present_proposal ::
  "jsstr \<Rightarrow> release_variant \<Rightarrow> proposal_store \<Rightarrow> (proposal_error + proposal option) \<times> proposal_store" where
  "present_proposal pid variant s =
     (case jm_get (pt_byId s) pid of
        None \<Rightarrow> (Inl Proposal_Not_Found, s)
      | Some p \<Rightarrow>
          if \<not> is_live p then (Inr None, s)
          else let p' = p \<lparr> pr_status := Presented, pr_presentedVariant := Some variant \<rparr> in
               (Inr (Some p'), s \<lparr> pt_byId := jm_set pid p' (pt_byId s) \<rparr>))"

datatype take_result =
    Taken proposal
  | Take_Not_Found
  | Not_Live proposal
  | Stale proposal
  | Original_Not_Offered proposal

definition take_for_confirmation ::
  "jsstr \<Rightarrow> release_variant option \<Rightarrow> nat \<times> jsstr \<Rightarrow> proposal_store \<Rightarrow> take_result \<times> proposal_store" where
  "take_for_confirmation pid variant identity s =
     (case jm_get (pt_byId s) pid of
        None \<Rightarrow> (Take_Not_Found, s)
      | Some p \<Rightarrow>
          if \<not> is_live p then (Not_Live p, s)
          else if pr_version p \<noteq> fst identity \<or> pr_sha256 p \<noteq> snd identity then (Stale p, s)
          else
            let v = (case variant of Some v \<Rightarrow> v | None \<Rightarrow> Tidied) in
            if v = Original \<and> pr_original p = pr_tidied p then (Original_Not_Offered p, s)
            else let p' = p \<lparr> pr_status := Released, pr_presentedVariant := Some v \<rparr> in
                 (Taken p', s \<lparr> pt_byId := jm_set pid p' (pt_byId s) \<rparr>))"

definition cancel_proposal :: "jsstr \<Rightarrow> proposal_store \<Rightarrow> (proposal_error + proposal) \<times> proposal_store" where
  "cancel_proposal pid s =
     (case jm_get (pt_byId s) pid of
        None \<Rightarrow> (Inl Proposal_Not_Found, s)
      | Some p \<Rightarrow>
          if is_live p
          then (Inr (p \<lparr> pr_status := Cancelled \<rparr>), set_status pid Cancelled s)
          else (Inr p, s))"

subsection \<open>Operations in sequence\<close>

datatype proposal_op =
    Create int proposal_input
  | Present jsstr release_variant
  | Take jsstr "release_variant option" "nat \<times> jsstr"
  | CancelProposal jsstr

fun proposal_step :: "text_env \<Rightarrow> proposal_op \<Rightarrow> proposal_store \<Rightarrow> proposal_store" where
  "proposal_step env (Create now input) s = snd (create_proposal env now input s)"
| "proposal_step env (Present pid v) s = snd (present_proposal pid v s)"
| "proposal_step env (Take pid v i) s = snd (take_for_confirmation pid v i s)"
| "proposal_step env (CancelProposal pid) s = snd (cancel_proposal pid s)"

definition proposal_run :: "text_env \<Rightarrow> proposal_op list \<Rightarrow> proposal_store \<Rightarrow> proposal_store" where
  "proposal_run env ops s = foldl (\<lambda>s op. proposal_step env op s) s ops"

text \<open>How often a run of operations really released proposal \<open>pid\<close>.\<close>

fun takes :: "text_env \<Rightarrow> jsstr \<Rightarrow> proposal_op list \<Rightarrow> proposal_store \<Rightarrow> nat" where
  "takes env pid [] s = 0"
| "takes env pid (op # ops) s =
     (case op of
        Take p v i \<Rightarrow> (case fst (take_for_confirmation p v i s) of Taken _ \<Rightarrow> if p = pid then 1 else 0 | _ \<Rightarrow> 0)
      | _ \<Rightarrow> 0) + takes env pid ops (proposal_step env op s)"

datatype draft_op =
    Append nat jsstr int
  | Take_Draft int "ordinal option" release_variant
  | Cancel_Draft
  | Tick int
  | Resurface int

fun draft_step :: "text_env \<Rightarrow> draft_op \<Rightarrow> pending_store \<Rightarrow> pending_store" where
  "draft_step env (Append i text turn) s = snd (append_to_draft env i text turn s)"
| "draft_step env (Take_Draft turn sel v) s = snd (take_for_release turn sel v s)"
| "draft_step env Cancel_Draft s = snd (cancel_draft s)"
| "draft_step env (Tick turn) s = tick_turn turn s"
| "draft_step env (Resurface turn) s = mark_resurfaced turn s"

definition draft_run :: "text_env \<Rightarrow> draft_op list \<Rightarrow> pending_store \<Rightarrow> pending_store" where
  "draft_run env ops s = foldl (\<lambda>s op. draft_step env op s) s ops"

subsection \<open>Promoted proposals: the invariant\<close>

definition text_value :: "jsstr \<Rightarrow> nat" where
  "text_value = foldl (\<lambda>a c. 10 * a + (c - 48)) 0"

lemma text_value_nat_text: "text_value (nat_text n) = n"
proof (induction n rule: nat_text.induct)
  case (1 n)
  then show ?case
    by (cases "n < 10") (simp_all add: text_value_def nat_text.simps [of n] del: nat_text.simps)
qed

lemma nat_text_inj [simp]: "nat_text m = nat_text n \<longleftrightarrow> m = n"
  by (metis text_value_nat_text)

lemma proposal_id_inj [simp]: "proposal_id m = proposal_id n \<longleftrightarrow> m = n"
  by (simp add: proposal_id_def del: nat_text.simps)

declare nat_text.simps [simp del]

definition live_in :: "jsstr \<Rightarrow> proposal_store \<Rightarrow> jsstr set" where
  "live_in lane s = {pid. \<exists>p. jm_get (pt_byId s) pid = Some p \<and> pr_laneId p = lane \<and> is_live p}"

text \<open>The four parts of the invariant: keys and counters, distinct versions, one live per lane.\<close>

definition keys_ok :: "proposal_store \<Rightarrow> bool" where
  "keys_ok s \<longleftrightarrow> jm_ok (pt_byId s)
     \<and> (\<forall>pid p. jm_get (pt_byId s) pid = Some p \<longrightarrow>
          pr_id p = pid \<and> (\<exists>n < pt_nextId s. pid = proposal_id n) \<and> pr_version p < pt_nextVersion s)"

definition versions_distinct :: "proposal_store \<Rightarrow> bool" where
  "versions_distinct s \<longleftrightarrow> (\<forall>pid p pid' p'. jm_get (pt_byId s) pid = Some p \<longrightarrow>
     jm_get (pt_byId s) pid' = Some p' \<longrightarrow> pr_version p = pr_version p' \<longrightarrow> pid = pid')"

definition one_live_per_lane :: "proposal_store \<Rightarrow> bool" where
  "one_live_per_lane s \<longleftrightarrow> (\<forall>pid p pid' p'. jm_get (pt_byId s) pid = Some p \<longrightarrow>
     jm_get (pt_byId s) pid' = Some p' \<longrightarrow> pr_laneId p = pr_laneId p' \<longrightarrow> is_live p \<longrightarrow> is_live p' \<longrightarrow> pid = pid')"

definition proposals_ok :: "proposal_store \<Rightarrow> bool" where
  "proposals_ok s \<longleftrightarrow> keys_ok s \<and> versions_distinct s \<and> one_live_per_lane s"

lemma keys_okD:
  assumes "keys_ok s" and "jm_get (pt_byId s) pid = Some p"
  shows "pr_id p = pid" and "\<exists>n < pt_nextId s. pid = proposal_id n" and "pr_version p < pt_nextVersion s"
  using assms by (simp_all add: keys_ok_def)

lemma live_proposal_Some:
  assumes ok: "keys_ok s" and l: "live_proposal lane s = Some p"
  shows "jm_get (pt_byId s) (pr_id p) = Some p \<and> pr_laneId p = lane \<and> is_live p"
proof -
  have m: "p \<in> set (jm_values (pt_byId s))" "pr_laneId p = lane" "is_live p"
    using l unfolding live_proposal_def find_Some_iff by (metis nth_mem, blast+)
  then obtain pid where "(pid, p) \<in> set (pt_byId s)" by auto
  then have "jm_get (pt_byId s) pid = Some p" using ok by (simp add: keys_ok_def jm_get_mem)
  with keys_okD(1) [OF ok this] m show ?thesis by simp
qed

lemma live_proposal_None:
  assumes "live_proposal lane s = None" and "jm_get (pt_byId s) pid = Some p" and "pr_laneId p = lane"
  shows "\<not> is_live p"
proof -
  have "p \<in> set (jm_values (pt_byId s))" using map_of_SomeD [OF assms(2)] by force
  then show ?thesis using assms(1,3) unfolding live_proposal_def find_None_iff by blast
qed

text \<open>Updating one proposal in place without reviving it keeps the invariant.\<close>

lemma proposals_ok_update:
  assumes ok: "proposals_ok s" and p: "jm_get (pt_byId s) pid = Some p"
    and same: "pr_id p' = pr_id p" "pr_version p' = pr_version p" "pr_laneId p' = pr_laneId p"
    and live: "is_live p' \<Longrightarrow> is_live p"
  shows "proposals_ok (s \<lparr> pt_byId := jm_set pid p' (pt_byId s) \<rparr>)"
proof -
  define t where "t = s \<lparr> pt_byId := jm_set pid p' (pt_byId s) \<rparr>"
  have k: "keys_ok s" and v: "versions_distinct s" and o1: "one_live_per_lane s"
    using ok by (simp_all add: proposals_ok_def)
  have orig: "\<exists>q. jm_get (pt_byId s) key = Some q \<and> pr_id q = pr_id q' \<and> pr_version q = pr_version q'
      \<and> pr_laneId q = pr_laneId q' \<and> (is_live q' \<longrightarrow> is_live q)" if "jm_get (pt_byId t) key = Some q'" for key q'
    using that p same live by (cases "key = pid") (auto simp: t_def)
  have "jm_ok (pt_byId t)" using k by (simp add: t_def keys_ok_def)
  moreover have "pr_id q' = key \<and> (\<exists>n < pt_nextId t. key = proposal_id n) \<and> pr_version q' < pt_nextVersion t"
    if "jm_get (pt_byId t) key = Some q'" for key q'
    using orig [OF that] keys_okD [OF k, of key] by (auto simp: t_def)
  ultimately have "keys_ok t" by (simp add: keys_ok_def)
  moreover have "versions_distinct t"
    unfolding versions_distinct_def using orig v [unfolded versions_distinct_def] by metis
  moreover have "one_live_per_lane t"
    unfolding one_live_per_lane_def using orig o1 [unfolded one_live_per_lane_def] by metis
  ultimately show ?thesis by (simp add: proposals_ok_def t_def)
qed

lemma proposals_ok_set_status:
  assumes ok: "proposals_ok s" and st: "st \<noteq> Drafted" "st \<noteq> Presented"
  shows "proposals_ok (set_status pid st s)"
proof (cases "jm_get (pt_byId s) pid")
  case None
  then show ?thesis using ok by (simp add: set_status_def)
next
  case (Some p)
  then show ?thesis using proposals_ok_update [OF ok Some, of "p \<lparr> pr_status := st \<rparr>"] st
    by (simp add: set_status_def is_live_def)
qed

lemma proposals_ok_add:
  assumes ok: "proposals_ok s" and none: "live_proposal (pr_laneId p) s = None"
    and p: "pr_id p = proposal_id (pt_nextId s)" "pr_version p = pt_nextVersion s"
  shows "proposals_ok (s \<lparr> pt_byId := jm_set (pr_id p) p (pt_byId s),
           pt_nextId := pt_nextId s + 1, pt_nextVersion := pt_nextVersion s + 1 \<rparr>)"
proof -
  define t where "t = s \<lparr> pt_byId := jm_set (pr_id p) p (pt_byId s),
           pt_nextId := pt_nextId s + 1, pt_nextVersion := pt_nextVersion s + 1 \<rparr>"
  have k: "keys_ok s" and v: "versions_distinct s" and o1: "one_live_per_lane s"
    using ok by (simp_all add: proposals_ok_def)
  have get: "jm_get (pt_byId t) key = (if key = pr_id p then Some p else jm_get (pt_byId s) key)" for key
    by (simp add: t_def)
  have older: "pr_version q < pr_version p" if "jm_get (pt_byId s) key = Some q" for key q
    using keys_okD(3) [OF k that] p(2) by simp
  have dead: "\<not> is_live q" if "jm_get (pt_byId s) key = Some q" and "pr_laneId q = pr_laneId p" for key q
    using live_proposal_None [OF none that] .
  have "jm_ok (pt_byId t)" using k by (simp add: t_def keys_ok_def)
  moreover have "pr_id q = key \<and> (\<exists>n < pt_nextId t. key = proposal_id n) \<and> pr_version q < pt_nextVersion t"
    if "jm_get (pt_byId t) key = Some q" for key q
  proof (cases "key = pr_id p")
    case True
    then show ?thesis using that get p by (auto simp: t_def)
  next
    case False
    then have "jm_get (pt_byId s) key = Some q" using that get by simp
    from keys_okD [OF k this] show ?thesis by (auto simp: t_def intro: less_SucI)
  qed
  ultimately have "keys_ok t" by (simp add: keys_ok_def)
  moreover have "versions_distinct t"
    unfolding versions_distinct_def get using older v [unfolded versions_distinct_def]
    by (metis less_irrefl option.inject)
  moreover have "one_live_per_lane t"
    unfolding one_live_per_lane_def get using dead o1 [unfolded one_live_per_lane_def]
    by (metis option.inject)
  ultimately show ?thesis by (simp add: proposals_ok_def t_def)
qed

lemma live_proposal_set_status:
  assumes ok: "proposals_ok s" and l: "live_proposal lane s = Some p"
  shows "live_proposal lane (set_status (pr_id p) Superseded s) = None"
proof (rule ccontr)
  assume "\<not> ?thesis"
  then obtain q where q: "live_proposal lane (set_status (pr_id p) Superseded s) = Some q" by auto
  have k: "keys_ok s" and o1: "one_live_per_lane s" using ok by (simp_all add: proposals_ok_def)
  have P: "jm_get (pt_byId s) (pr_id p) = Some p" "pr_laneId p = lane" "is_live p"
    using live_proposal_Some [OF k l] by simp_all
  have "proposals_ok (set_status (pr_id p) Superseded s)" by (rule proposals_ok_set_status [OF ok]) simp_all
  then have "keys_ok (set_status (pr_id p) Superseded s)" by (simp add: proposals_ok_def)
  from live_proposal_Some [OF this q]
  have Q: "jm_get (pt_byId (set_status (pr_id p) Superseded s)) (pr_id q) = Some q" "pr_laneId q = lane" "is_live q"
    by simp_all
  have "pr_id q \<noteq> pr_id p"
    using Q(1,3) P(1) by (auto simp: set_status_def is_live_def)
  then have "jm_get (pt_byId s) (pr_id q) = Some q" using Q(1) P(1) by (simp add: set_status_def)
  then have "pr_id q = pr_id p"
    using o1 P Q(2,3) unfolding one_live_per_lane_def by blast
  with \<open>pr_id q \<noteq> pr_id p\<close> show False ..
qed

lemma proposals_ok_create: "proposals_ok s \<Longrightarrow> proposals_ok (snd (create_proposal env now input s))"
proof (cases "pi_route input")
  case (Some route)
  assume ok: "proposals_ok s"
  define s1 where "s1 = (case live_proposal (pi_laneId input) s of
      None \<Rightarrow> s | Some l \<Rightarrow> set_status (pr_id l) Superseded s)"
  have ok1: "proposals_ok s1" and none: "live_proposal (pi_laneId input) s1 = None"
    using ok proposals_ok_set_status live_proposal_set_status [OF ok]
    by (auto simp: s1_def split: option.split)
  have "proposals_ok (s1 \<lparr> pt_byId := jm_set (pr_id (new_proposal env now input route s1)) (new_proposal env now input route s1) (pt_byId s1),
           pt_nextId := pt_nextId s1 + 1, pt_nextVersion := pt_nextVersion s1 + 1 \<rparr>)"
    by (rule proposals_ok_add [OF ok1]) (use none in \<open>simp_all add: new_proposal_def Let_def\<close>)
  then show ?thesis using Some by (simp add: create_proposal_def Let_def s1_def)
qed (simp add: create_proposal_def)

lemma take_cases:
  obtains (taken) p v where "jm_get (pt_byId s) pid = Some p" "is_live p" "pr_version p = fst i" "pr_sha256 p = snd i"
      "v = (case variant of Some v \<Rightarrow> v | None \<Rightarrow> Tidied)" "v = Original \<Longrightarrow> pr_original p \<noteq> pr_tidied p"
      "take_for_confirmation pid variant i s =
         (Taken (p \<lparr> pr_status := Released, pr_presentedVariant := Some v \<rparr>),
          s \<lparr> pt_byId := jm_set pid (p \<lparr> pr_status := Released, pr_presentedVariant := Some v \<rparr>) (pt_byId s) \<rparr>)"
  | (refused) r where "take_for_confirmation pid variant i s = (r, s)" "\<And>q. r \<noteq> Taken q"
proof (cases "jm_get (pt_byId s) pid")
  case None
  then show ?thesis by (intro refused [of Take_Not_Found]) (simp_all add: take_for_confirmation_def)
next
  case (Some p)
  define v where "v = (case variant of Some v \<Rightarrow> v | None \<Rightarrow> Tidied)"
  consider "\<not> is_live p" | "is_live p" "pr_version p \<noteq> fst i \<or> pr_sha256 p \<noteq> snd i"
    | "is_live p" "pr_version p = fst i" "pr_sha256 p = snd i" "v = Original" "pr_original p = pr_tidied p"
    | "is_live p" "pr_version p = fst i" "pr_sha256 p = snd i" "v = Original \<longrightarrow> pr_original p \<noteq> pr_tidied p"
    by blast
  then show ?thesis
  proof cases
    case 1
    with Some show ?thesis by (intro refused [of "Not_Live p"]) (simp_all add: take_for_confirmation_def)
  next
    case 2
    with Some show ?thesis by (intro refused [of "Stale p"]) (simp_all add: take_for_confirmation_def)
  next
    case 3
    with Some show ?thesis
      by (intro refused [of "Original_Not_Offered p"]) (simp_all add: take_for_confirmation_def v_def [symmetric])
  next
    case 4
    with Some show ?thesis
      by (intro taken [of p v]) (auto simp: take_for_confirmation_def v_def [symmetric] Let_def)
  qed
qed

lemma proposals_ok_step: "proposals_ok s \<Longrightarrow> proposals_ok (proposal_step env op s)"
proof (cases op)
  case (Create now input)
  then show "proposals_ok s \<Longrightarrow> ?thesis" by (simp add: proposals_ok_create)
next
  case (Present pid v)
  assume ok: "proposals_ok s"
  then show ?thesis using Present
    by (cases "jm_get (pt_byId s) pid")
      (auto simp: present_proposal_def Let_def is_live_def intro!: proposals_ok_update [OF ok])
next
  case (Take pid v i)
  assume ok: "proposals_ok s"
  show ?thesis
  proof (cases rule: take_cases [of s pid i v])
    case (taken p w)
    then show ?thesis using Take proposals_ok_update [OF ok taken(1)] by (simp add: is_live_def)
  next
    case (refused r)
    then show ?thesis using Take ok by simp
  qed
next
  case (CancelProposal pid)
  assume ok: "proposals_ok s"
  then show ?thesis using CancelProposal
    by (cases "jm_get (pt_byId s) pid") (simp_all add: cancel_proposal_def proposals_ok_set_status)
qed

lemma proposals_ok_init: "proposals_ok proposal_store_init"
  by (simp add: proposals_ok_def keys_ok_def versions_distinct_def one_live_per_lane_def proposal_store_init_def)

lemma proposals_ok_run: "proposals_ok s \<Longrightarrow> proposals_ok (proposal_run env ops s)"
  unfolding proposal_run_def by (induction ops arbitrary: s) (simp_all add: proposals_ok_step)

text \<open>A dead proposal stays dead, and keeps its bytes and its identity.\<close>

definition dead :: "jsstr \<Rightarrow> proposal_store \<Rightarrow> bool" where
  "dead pid s \<longleftrightarrow> (\<exists>p. jm_get (pt_byId s) pid = Some p \<and> \<not> is_live p)"

lemma set_status_get:
  "jm_get (pt_byId (set_status pid st s)) key =
     (if key = pid then map_option (\<lambda>p. p \<lparr> pr_status := st \<rparr>) (jm_get (pt_byId s) pid) else jm_get (pt_byId s) key)"
  by (cases "jm_get (pt_byId s) pid") (simp_all add: set_status_def)

lemma set_status_next [simp]: "pt_nextId (set_status pid st s) = pt_nextId s"
  by (simp add: set_status_def split: option.split)

lemma dead_step:
  assumes ok: "proposals_ok s" and d: "dead pid s"
  shows "dead pid (proposal_step env op s)"
proof -
  obtain p where p: "jm_get (pt_byId s) pid = Some p" "\<not> is_live p" using d by (auto simp: dead_def)
  have k: "keys_ok s" using ok by (simp add: proposals_ok_def)
  have fresh: "pid \<noteq> proposal_id (pt_nextId s)" using keys_okD(2) [OF k p(1)] by auto
  show ?thesis
  proof (cases op)
    case (Create now input)
    have "dead pid (case live_proposal (pi_laneId input) s of None \<Rightarrow> s | Some l \<Rightarrow> set_status (pr_id l) Superseded s)"
      using d by (auto simp: dead_def set_status_get is_live_def split: option.split)
    moreover have "pt_nextId (case live_proposal (pi_laneId input) s of None \<Rightarrow> s | Some l \<Rightarrow> set_status (pr_id l) Superseded s)
        = pt_nextId s"
      by (simp split: option.split)
    ultimately show ?thesis using Create fresh d
      by (cases "pi_route input") (simp_all add: create_proposal_def Let_def dead_def new_proposal_def)
  next
    case (Present q v)
    then show ?thesis using p by (cases "q = pid"; cases "jm_get (pt_byId s) q")
        (auto simp: present_proposal_def dead_def Let_def)
  next
    case (Take q v i)
    show ?thesis
      by (cases rule: take_cases [of s q i v]) (use Take p in \<open>auto simp: dead_def is_live_def\<close>)
  next
    case (CancelProposal q)
    then show ?thesis using p by (cases "q = pid"; cases "jm_get (pt_byId s) q")
        (auto simp: cancel_proposal_def dead_def set_status_get)
  qed
qed

lemma takes_dead: "proposals_ok s \<Longrightarrow> dead pid s \<Longrightarrow> takes env pid ops s = 0"
proof (induction ops arbitrary: s)
  case (Cons op ops)
  have "takes env pid ops (proposal_step env op s) = 0"
    by (rule Cons.IH [OF proposals_ok_step [OF Cons.prems(1)] dead_step [OF Cons.prems]])
  moreover have "fst (take_for_confirmation pid v i s) \<noteq> Taken q" for v i q
    using Cons.prems(2) by (cases rule: take_cases [of s pid i v]) (auto simp: dead_def)
  ultimately show ?case by (cases op) (auto split: take_result.split)
qed simp

subsection \<open>Properties of promoted proposals\<close>

text \<open>C32: A promoted proposal is released at most once, whatever operations run, and every lane
  has at most one live proposal at any time; no two proposals ever share a version.\<close>
theorem proposal_released_at_most_once:
  "takes env pid ops proposal_store_init \<le> 1
   \<and> (\<forall>lane. \<exists>p. live_in lane (proposal_run env ops proposal_store_init) \<subseteq> {p})
   \<and> versions_distinct (proposal_run env ops proposal_store_init)"
proof -
  have le: "takes env pid os s \<le> 1" if "proposals_ok s" for os s
    using that
  proof (induction os arbitrary: s)
    case (Cons op os)
    note ok' = proposals_ok_step [OF Cons.prems, of env op]
    show ?case
    proof (cases "\<exists>v i q. op = Take pid v i \<and> fst (take_for_confirmation pid v i s) = Taken q")
      case True
      then obtain v i q where t: "op = Take pid v i" "fst (take_for_confirmation pid v i s) = Taken q" by blast
      have "dead pid (proposal_step env op s)"
        by (cases rule: take_cases [of s pid i v]) (use t in \<open>auto simp: dead_def is_live_def\<close>)
      from takes_dead [OF ok' this] show ?thesis using t by simp
    next
      case False
      then have "takes env pid (op # os) s = takes env pid os (proposal_step env op s)"
        by (cases op) (auto split: take_result.split)
      then show ?thesis using Cons.IH [OF ok'] by simp
    qed
  qed simp
  have ok: "proposals_ok (proposal_run env ops proposal_store_init)"
    by (rule proposals_ok_run [OF proposals_ok_init])
  then have "one_live_per_lane (proposal_run env ops proposal_store_init)" by (simp add: proposals_ok_def)
  then have "\<exists>p. live_in lane (proposal_run env ops proposal_store_init) \<subseteq> {p}" for lane
    unfolding live_in_def one_live_per_lane_def
    by (cases "live_in lane (proposal_run env ops proposal_store_init) = {}") (auto simp: live_in_def, blast)
  with ok le [OF proposals_ok_init] show ?thesis by (simp add: proposals_ok_def)
qed

text \<open>A confirmation releases exactly the card it names: the proposal was live, both halves of the
  echoed identity match, the original variant was really offered, and a refusal changes nothing.\<close>
theorem confirmation_releases_its_card:
  assumes "take_for_confirmation pid variant identity (proposal_run env ops proposal_store_init) = (r, s')"
  shows "(\<exists>p v. r = Taken (p \<lparr> pr_status := Released, pr_presentedVariant := Some v \<rparr>)
       \<and> jm_get (pt_byId (proposal_run env ops proposal_store_init)) pid = Some p
       \<and> pid \<in> live_in (pr_laneId p) (proposal_run env ops proposal_store_init)
       \<and> identity = (pr_version p, pr_sha256 p)
       \<and> (v = Original \<longrightarrow> pr_original p \<noteq> pr_tidied p)
       \<and> live_in (pr_laneId p) s' = {})
    \<or> (s' = proposal_run env ops proposal_store_init \<and> (\<forall>q. r \<noteq> Taken q))"
proof -
  define s where "s = proposal_run env ops proposal_store_init"
  have o1: "one_live_per_lane s"
    using proposals_ok_run [OF proposals_ok_init, of env ops] by (simp add: proposals_ok_def s_def)
  show ?thesis
  proof (cases rule: take_cases [of s pid identity variant])
    case (taken p v)
    have "live_in (pr_laneId p) s' = {}"
      using assms taken o1 unfolding s_def [symmetric] live_in_def one_live_per_lane_def
      by (auto simp: is_live_def split: if_splits)
    with taken assms show ?thesis
      by (intro disjI1 exI [of _ p] exI [of _ v]) (auto simp: s_def [symmetric] live_in_def prod_eq_iff)
  next
    case (refused q)
    with assms show ?thesis by (auto simp: s_def)
  qed
qed

subsection \<open>The operator's draft: what a card stands for\<close>

definition draft_utterances :: "pending_store \<Rightarrow> draft_entry list option" where
  "draft_utterances s = map_option od_utterances (held_draft s)"

definition version_fixes :: "nat \<Rightarrow> draft_entry list \<Rightarrow> nat \<Rightarrow> pending_store \<Rightarrow> bool" where
  "version_fixes v us n s \<longleftrightarrow> n \<le> ps_nextVersion s
     \<and> (\<forall>d. ps_draft s = Some d \<longrightarrow> od_version d \<le> ps_nextVersion s \<and> (od_version d = v \<longrightarrow> od_utterances d = us))"

lemma held_draft_Some: "held_draft s = Some d \<longleftrightarrow> ps_draft s = Some d \<and> od_utterances d \<noteq> []"
  by (auto simp: held_draft_def split: option.splits if_splits)

lemma append_version:
  assumes "snd (append_to_draft env i text turn s) = t"
  shows "ps_nextVersion t = ps_nextVersion s + 1" and "\<exists>d. ps_draft t = Some d \<and> od_version d = ps_nextVersion s + 1"
  using assms by (auto simp: append_to_draft_def Let_def split: option.splits if_splits)

lemma version_fixes_step:
  assumes "version_fixes v us n s" and "v \<le> n"
  shows "version_fixes v us n (draft_step env op s)"
proof (cases op)
  case (Append i words turn)
  then show ?thesis
    using append_version [of env i words turn s] assms by (fastforce simp: version_fixes_def)
next
  case (Take_Draft turn sel w)
  then show ?thesis
    using assms by (auto simp: version_fixes_def take_for_release_def held_draft_Some Let_def
        split: option.split)
next
  case (Tick turn)
  then show ?thesis using assms by (auto simp: version_fixes_def tick_turn_def)
next
  case (Resurface turn)
  then show ?thesis using assms by (auto simp: version_fixes_def mark_resurfaced_def)
qed (use assms in \<open>simp add: version_fixes_def cancel_draft_def\<close>)

lemma version_fixes_run: "version_fixes v us n s \<Longrightarrow> v \<le> n \<Longrightarrow> version_fixes v us n (draft_run env ops s)"
  unfolding draft_run_def by (induction ops arbitrary: s) (simp_all add: version_fixes_step)

lemma version_bounded:
  "ps_draft (draft_run env ops (pending_store_init a h)) = Some d
   \<Longrightarrow> od_version d \<le> ps_nextVersion (draft_run env ops (pending_store_init a h))"
proof -
  have "version_fixes 0 [] 0 (pending_store_init a h)"
    by (simp add: version_fixes_def pending_store_init_def)
  from version_fixes_run [OF this, of env ops]
  show "ps_draft (draft_run env ops (pending_store_init a h)) = Some d \<Longrightarrow> ?thesis"
    by (simp add: version_fixes_def)
qed

text \<open>A card never goes stale unnoticed: if the identity shown for a draft still matches after any
  further operations, the draft holds exactly the parts the card was made from.\<close>
theorem matching_card_is_current:
  assumes held: "held_draft (draft_run env ops (pending_store_init a h)) = Some d"
    and echo: "identity_matches env (od_version d, hash)
                 (draft_run env later (draft_run env ops (pending_store_init a h)))"
  shows "draft_utterances (draft_run env later (draft_run env ops (pending_store_init a h)))
         = Some (od_utterances d)"
proof -
  define s where "s = draft_run env ops (pending_store_init a h)"
  have d: "ps_draft s = Some d" using held by (simp add: s_def held_draft_Some)
  have le: "od_version d \<le> ps_nextVersion s" using version_bounded d unfolding s_def by blast
  have "version_fixes (od_version d) (od_utterances d) (ps_nextVersion s) s"
    using d le by (simp add: version_fixes_def)
  from version_fixes_run [OF this le]
  have "version_fixes (od_version d) (od_utterances d) (ps_nextVersion s) (draft_run env later s)" .
  with echo show ?thesis
    by (auto simp: s_def [symmetric] identity_matches_def describe_current_def version_fixes_def
        draft_utterances_def held_draft_Some split: option.splits)
qed

lemma resolve_ordinal_lt: "resolve_ordinal_index p n = Some i \<Longrightarrow> i < n"
  by (auto simp: resolve_ordinal_index_def split: if_splits option.splits)

lemma splice_out_Nil: "i < length xs \<Longrightarrow> splice_out i xs = [] \<longleftrightarrow> length xs = 1"
  using length_splice_out [of i xs] by (cases "splice_out i xs") auto

lemma take_for_release_some:
  "take_for_release turn sel variant s = (Some t, s') \<Longrightarrow>
   \<exists>d. held_draft s = Some d \<and> draft_age turn d < ps_maxPendingAgeTurns s
     \<and> (case sel of
          None \<Rightarrow> t = taken_of variant (od_utterances d) \<and> s' = s \<lparr> ps_draft := None \<rparr>
        | Some position \<Rightarrow> \<exists>i. resolve_ordinal_index position (length (od_utterances d)) = Some i
            \<and> t = taken_of variant [od_utterances d ! i]
            \<and> s' = (if splice_out i (od_utterances d) = [] then s \<lparr> ps_draft := None \<rparr>
                 else s \<lparr> ps_draft := Some (d \<lparr> od_utterances := splice_out i (od_utterances d),
                            od_version := ps_nextVersion s + 1 \<rparr>), ps_nextVersion := ps_nextVersion s + 1 \<rparr>))"
  by (auto simp: take_for_release_def Let_def split: option.splits if_splits)

lemma take_for_release_none:
  "take_for_release turn sel variant s = (None, s') \<Longrightarrow>
   draft_utterances s' = draft_utterances s \<and> ps_nextVersion s' = ps_nextVersion s"
  by (auto simp: take_for_release_def draft_utterances_def held_draft_def Let_def split: option.splits if_splits)

text \<open>C36: A release sends the draft, the whole draft and nothing but the draft: the bytes the card
  showed (or the operator's raw words, when the card offered them) or one selected part, the rest stays
  held under a new identity, and a refused or impossible release leaves every part in place.\<close>
theorem release_is_exactly_the_draft:
  assumes "take_for_release turn sel variant s = (r, s')"
  shows "case r of
      None \<Rightarrow> draft_utterances s' = draft_utterances s \<and> ps_nextVersion s' = ps_nextVersion s
    | Some t \<Rightarrow> \<exists>d. held_draft s = Some d \<and> draft_age turn d < ps_maxPendingAgeTurns s
        \<and> (case sel of
             None \<Rightarrow> t = taken_of variant (od_utterances d) \<and> ps_draft s' = None
               \<and> (variant = Tidied \<longrightarrow> tr_text t = pd_text (describe_proposal env (od_utterances d)))
               \<and> (variant = Original \<and> pd_cleaned (describe_proposal env (od_utterances d)) \<longrightarrow>
                    Some (tr_text t) = pd_original (describe_proposal env (od_utterances d)))
           | Some position \<Rightarrow> \<exists>i < length (od_utterances d).
               resolve_ordinal_index position (length (od_utterances d)) = Some i
               \<and> t = taken_of variant [od_utterances d ! i]
               \<and> od_utterances d = take i (od_utterances d) @ od_utterances d ! i # drop (Suc i) (od_utterances d)
               \<and> draft_utterances s' = (if length (od_utterances d) = 1 then None
                    else Some (take i (od_utterances d) @ drop (Suc i) (od_utterances d)))
               \<and> (length (od_utterances d) \<noteq> 1 \<longrightarrow> ps_nextVersion s' = ps_nextVersion s + 1))"
proof (cases r)
  case None
  then show ?thesis using take_for_release_none assms by simp
next
  case (Some t)
  obtain d where d: "held_draft s = Some d" "draft_age turn d < ps_maxPendingAgeTurns s"
    and sel: "case sel of
          None \<Rightarrow> t = taken_of variant (od_utterances d) \<and> s' = s \<lparr> ps_draft := None \<rparr>
        | Some position \<Rightarrow> \<exists>i. resolve_ordinal_index position (length (od_utterances d)) = Some i
            \<and> t = taken_of variant [od_utterances d ! i]
            \<and> s' = (if splice_out i (od_utterances d) = [] then s \<lparr> ps_draft := None \<rparr>
                 else s \<lparr> ps_draft := Some (d \<lparr> od_utterances := splice_out i (od_utterances d),
                            od_version := ps_nextVersion s + 1 \<rparr>), ps_nextVersion := ps_nextVersion s + 1 \<rparr>)"
    using take_for_release_some assms unfolding Some by blast
  show ?thesis
  proof (cases sel)
    case None
    have "pd_text (describe_proposal env us) = join_draft_text us" for us
      by (simp add: describe_proposal_def Let_def)
    moreover have "pd_original (describe_proposal env us) = Some (join_original_draft_text us)"
      if "pd_cleaned (describe_proposal env us)" for us
      using that by (auto simp: describe_proposal_def Let_def split: if_splits)
    ultimately show ?thesis
      using d sel \<open>r = Some t\<close> None by (auto simp: taken_of_def)
  next
    case (Some position)
    then obtain i where i: "resolve_ordinal_index position (length (od_utterances d)) = Some i"
      and t: "t = taken_of variant [od_utterances d ! i]"
      and s': "s' = (if splice_out i (od_utterances d) = [] then s \<lparr> ps_draft := None \<rparr>
                 else s \<lparr> ps_draft := Some (d \<lparr> od_utterances := splice_out i (od_utterances d),
                            od_version := ps_nextVersion s + 1 \<rparr>), ps_nextVersion := ps_nextVersion s + 1 \<rparr>)"
      using sel by auto
    have lt: "i < length (od_utterances d)" by (rule resolve_ordinal_lt [OF i])
    have "draft_utterances s' = (if length (od_utterances d) = 1 then None else Some (splice_out i (od_utterances d)))"
      "length (od_utterances d) \<noteq> 1 \<Longrightarrow> ps_nextVersion s' = ps_nextVersion s + 1"
      using s' splice_out_Nil [OF lt] by (auto simp: draft_utterances_def held_draft_def)
    then have "\<exists>i < length (od_utterances d).
               resolve_ordinal_index position (length (od_utterances d)) = Some i
               \<and> t = taken_of variant [od_utterances d ! i]
               \<and> od_utterances d = take i (od_utterances d) @ od_utterances d ! i # drop (Suc i) (od_utterances d)
               \<and> draft_utterances s' = (if length (od_utterances d) = 1 then None
                    else Some (take i (od_utterances d) @ drop (Suc i) (od_utterances d)))
               \<and> (length (od_utterances d) \<noteq> 1 \<longrightarrow> ps_nextVersion s' = ps_nextVersion s + 1)"
      using i t lt splice_out_split [OF lt] by (intro exI [of _ i]) (simp add: splice_out_def)
    then show ?thesis using d \<open>r = Some t\<close> Some by auto
  qed
qed

text \<open>Speaking less discards the draft: an utterance that restates only the beginning of what is held
  replaces the whole draft, whatever else it contained, although \<open>appendToDraft\<close> says that nothing is
  lost because the old text is contained in the new one.\<close>
theorem shorter_restatement_discards:
  assumes "draft_utterances s = Some us"
    and "normalise_for_restatement env text \<noteq> []"
    and "strict_prefix (normalise_for_restatement env text) (normalise_for_restatement env (join_draft_text us))"
  shows "draft_utterances (snd (append_to_draft env i text turn s)) = Some [entry_of env i text turn]"
  using assms
  by (auto simp: append_to_draft_def draft_utterances_def is_draft_restatement_def held_draft_def Let_def
      strict_prefix_def split: option.splits if_splits)

subsection \<open>Witnesses\<close>

text \<open>An environment for lower-case ASCII text; the words below are \<open>run tests\<close>, \<open>deploy\<close> and \<open>run\<close>.\<close>

definition ascii_env :: text_env where
  "ascii_env = \<lparr> tx_relay = (\<lambda>t. \<lparr> rl_text = t, rl_changed = False, rl_removals = [] \<rparr>), tx_seams = js_trim,
     tx_sha = (\<lambda>t. t), tx_lower = (\<lambda>t. t), tx_letter_number = (\<lambda>c. 97 \<le> c \<and> c \<le> 122) \<rparr>"

definition run_tests :: jsstr where
  "run_tests = [114, 117, 110, 32, 116, 101, 115, 116, 115]"

definition deploy_it :: jsstr where
  "deploy_it = [100, 101, 112, 108, 111, 121]"

definition two_parts :: pending_store where
  "two_parts = draft_run ascii_env [Append 1 run_tests 1, Append 2 deploy_it 2] (pending_store_init None None)"

lemma ascii_norm:
  "normalise_for_restatement ascii_env run_tests = run_tests"
  "normalise_for_restatement ascii_env deploy_it = deploy_it"
  "normalise_for_restatement ascii_env [114, 117, 110] = [114, 117, 110]"
  "normalise_for_restatement ascii_env (run_tests @ 10 # deploy_it) = run_tests @ 32 # deploy_it"
  by (simp_all add: normalise_for_restatement_def ascii_env_def run_tests_def deploy_it_def is_high_def
      js_trim_def is_js_space_def)

lemma ascii_entry [simp]: "de_text (entry_of ascii_env i words turn) = words"
  by (simp add: entry_of_def ascii_env_def Let_def)

lemma ascii_join:
  "join_draft_text [entry_of ascii_env i u m] = u"
  "join_draft_text [entry_of ascii_env i u m, entry_of ascii_env j v n] = u @ 10 # v"
  by (simp_all add: join_draft_text_def)

lemma two_parts_held:
  "held_draft two_parts = Some \<lparr> od_utterances = [entry_of ascii_env 1 run_tests 1, entry_of ascii_env 2 deploy_it 2],
       od_createdTurn = 1, od_lastTouchedTurn = 2, od_ageTurns = 0, od_needsReConfirmation = False, od_version = 2 \<rparr>"
proof -
  have "\<not> is_draft_restatement ascii_env run_tests deploy_it"
    by (simp add: is_draft_restatement_def ascii_norm Let_def) (simp add: run_tests_def deploy_it_def)
  then show ?thesis
    by (simp add: two_parts_def draft_run_def append_to_draft_def pending_store_init_def held_draft_def Let_def
        ascii_join)
qed

lemma ticked_held:
  "held_draft (draft_run ascii_env [Tick 4] two_parts) = Some
     \<lparr> od_utterances = [entry_of ascii_env 1 run_tests 1, entry_of ascii_env 2 deploy_it 2],
       od_createdTurn = 1, od_lastTouchedTurn = 2, od_ageTurns = 2,
       od_needsReConfirmation = ps_maxPendingAgeTurns two_parts \<le> 2, od_version = 2 \<rparr>"
  using two_parts_held
  by (auto simp: draft_run_def tick_turn_def held_draft_def draft_age_def split: option.splits if_splits)

lemma matching_card_is_current_witness:
  "draft_utterances (draft_run ascii_env [Tick 4] two_parts)
     = Some [entry_of ascii_env 1 run_tests 1, entry_of ascii_env 2 deploy_it 2]"
proof -
  have "describe_proposal ascii_env [entry_of ascii_env 1 run_tests 1, entry_of ascii_env 2 deploy_it 2]
      = \<lparr> pd_text = run_tests @ 10 # deploy_it, pd_cleaned = False, pd_removed = None, pd_original = None,
          pd_hash = run_tests @ 10 # deploy_it @ [0] \<rparr>"
    by (simp add: describe_proposal_def ascii_join Let_def proposal_hash_def removals_of_def entry_of_def
        relay_has_visible_removal_def)
      (simp add: ascii_env_def join_draft_text_def)
  then have "identity_matches ascii_env (2, run_tests @ 10 # deploy_it @ [0]) (draft_run ascii_env [Tick 4] two_parts)"
    by (simp add: identity_matches_def describe_current_def ticked_held)
  then show ?thesis
    using matching_card_is_current [OF two_parts_held [unfolded two_parts_def], of "run_tests @ 10 # deploy_it @ [0]" "[Tick 4]"]
    by (simp add: two_parts_def)
qed

lemma two_parts_limit: "ps_maxPendingAgeTurns two_parts = 6"
  by (simp add: two_parts_def draft_run_def append_to_draft_def pending_store_init_def Let_def)

lemma release_is_exactly_the_draft_witness:
  "tr_text (the (fst (take_for_release 3 None Tidied two_parts))) = run_tests @ 10 # deploy_it"
proof -
  have "fst (take_for_release 3 None Tidied two_parts) \<noteq> None"
    using two_parts_held two_parts_limit by (simp add: take_for_release_def draft_age_def)
  then obtain t s' where t: "take_for_release 3 None Tidied two_parts = (Some t, s')"
    by (cases "take_for_release 3 None Tidied two_parts") auto
  from release_is_exactly_the_draft [OF t, of ascii_env] show ?thesis
    using two_parts_held t by (simp add: taken_of_def ascii_join)
qed

lemma shorter_restatement_discards_witness:
  "draft_utterances (snd (append_to_draft ascii_env 3 [114, 117, 110] 3 two_parts))
     = Some [entry_of ascii_env 3 [114, 117, 110] 3]"
proof (rule shorter_restatement_discards)
  show "draft_utterances two_parts = Some [entry_of ascii_env 1 run_tests 1, entry_of ascii_env 2 deploy_it 2]"
    by (simp add: draft_utterances_def two_parts_held)
  show "normalise_for_restatement ascii_env [114, 117, 110] \<noteq> []" by (simp add: ascii_norm)
  show "strict_prefix (normalise_for_restatement ascii_env [114, 117, 110])
     (normalise_for_restatement ascii_env (join_draft_text [entry_of ascii_env 1 run_tests 1, entry_of ascii_env 2 deploy_it 2]))"
    by (simp add: ascii_join ascii_norm) (simp add: run_tests_def)
qed

definition sample_input :: proposal_input where
  "sample_input = \<lparr> pi_laneId = [97], pi_route = Some Direct_Address, pi_sourceUtteranceId = 1,
     pi_tidied = run_tests, pi_original = None, pi_createdTurn = 1, pi_createdAt = None \<rparr>"

lemma confirmation_releases_its_card_witness:
  "live_in [97] (snd (take_for_confirmation (proposal_id 1) None (1, run_tests @ [0])
      (proposal_run ascii_env [Create 5 sample_input] proposal_store_init))) = {}"
proof -
  define p where "p = new_proposal ascii_env 5 sample_input Direct_Address proposal_store_init"
  have s: "proposal_run ascii_env [Create 5 sample_input] proposal_store_init
      = \<lparr> pt_byId = [(proposal_id 1, p)], pt_nextId = 2, pt_nextVersion = 2 \<rparr>"
    by (simp add: proposal_run_def create_proposal_def sample_input_def live_proposal_def proposal_store_init_def
        new_proposal_def p_def Let_def)
  obtain r s' where t: "take_for_confirmation (proposal_id 1) None (1, run_tests @ [0])
         (proposal_run ascii_env [Create 5 sample_input] proposal_store_init) = (r, s')" by force
  have "\<exists>q. r = Taken q"
    using t unfolding s
    by (auto simp: take_for_confirmation_def p_def new_proposal_def sample_input_def proposal_store_init_def
        is_live_def proposal_hash_def ascii_env_def Let_def)
  then obtain q v where "jm_get (pt_byId (proposal_run ascii_env [Create 5 sample_input] proposal_store_init))
        (proposal_id 1) = Some q" and live: "live_in (pr_laneId q) s' = {}"
    using confirmation_releases_its_card [OF t] by blast
  then have "q = p" unfolding s by simp
  then have "pr_laneId q = [97]" by (simp add: p_def new_proposal_def sample_input_def Let_def)
  with live t show ?thesis by simp
qed

subsection \<open>What the card says about the operator's words\<close>

definition spoken :: "text_env \<Rightarrow> draft_entry \<Rightarrow> bool" where
  "spoken env u \<longleftrightarrow> (\<exists>i words turn. u = entry_of env i words turn)"

lemma spoken_step:
  assumes "\<And>d. ps_draft s = Some d \<Longrightarrow> list_all (spoken env) (od_utterances d)"
    and "ps_draft (draft_step env op s) = Some d"
  shows "list_all (spoken env) (od_utterances d)"
proof (cases op)
  case (Append i words turn)
  have "spoken env (entry_of env i words turn)" by (auto simp: spoken_def)
  with Append assms show ?thesis
    by (auto simp: append_to_draft_def held_draft_Some Let_def split: option.splits if_splits)
next
  case (Take_Draft turn sel w)
  have "list_all (spoken env) (splice_out n xs)" if "list_all (spoken env) xs" for n xs
    using that set_splice_out [of n xs] by (auto simp: list_all_iff)
  with Take_Draft assms show ?thesis
    by (auto simp: take_for_release_def held_draft_Some Let_def split: option.splits if_splits)
qed (use assms in \<open>auto simp: tick_turn_def mark_resurfaced_def cancel_draft_def\<close>)

lemma spoken_run:
  assumes "\<And>d. ps_draft s = Some d \<Longrightarrow> list_all (spoken env) (od_utterances d)"
    and "ps_draft (draft_run env ops s) = Some d"
  shows "list_all (spoken env) (od_utterances d)"
  using assms unfolding draft_run_def
  by (induction ops arbitrary: s) (simp, metis foldl_Cons spoken_step)

lemma visible_join: "visible (join_with 10 parts) = concat (map visible parts)"
  by (induction "10 :: nat" parts rule: join_with.induct) (auto simp: visible_def is_js_space_def)

lemma has_visible_iff: "has_visible p \<longleftrightarrow> visible p \<noteq> []"
  by (induction p) (auto simp: has_visible_def visible_def)

lemma spoken_conserved:
  assumes "spoken (relay_env sha lower letters) u"
  shows "conserved (raw_text u) (de_text u) (removals_of u)"
proof -
  obtain i words turn where u: "u = entry_of (relay_env sha lower letters) i words turn"
    using assms by (auto simp: spoken_def)
  show ?thesis
    using normalise_conserved [of words]
    by (simp add: u entry_of_def relay_env_def raw_text_def removals_of_def Let_def)
qed

lemma conserved_parts:
  assumes "list_all (spoken (relay_env sha lower letters)) us"
  shows "mset (visible (join_original_draft_text us)) =
           mset (visible (join_draft_text us)) + mset (visible (concat (concat (map removals_of us))))
       \<and> subseq (visible (join_draft_text us)) (visible (join_original_draft_text us))"
  using assms
proof (induction us)
  case Nil
  show ?case by (simp add: join_draft_text_def join_original_draft_text_def)
next
  case (Cons u us)
  have "spoken (relay_env sha lower letters) u" using Cons.prems by simp
  then have "conserved (raw_text u) (de_text u) (removals_of u)" by (rule spoken_conserved)
  with Cons show ?case
    by (auto simp: conserved_def join_draft_text_def join_original_draft_text_def visible_join
        intro!: list_emb_append_mono)
qed

lemma invisible_removals: "\<not> relay_has_visible_removal ps \<Longrightarrow> visible (concat ps) = []"
  by (induction ps) (auto simp: relay_has_visible_removal_def has_visible_iff)

text \<open>The card is honest about tidying: whatever was said and done before, the words of a held draft are,
  apart from spaces, the text the card shows plus the pieces it lists as taken out, in the
  operator's order; a card that claims no tidying shows every visible character that was said.\<close>
theorem card_accounts_for_every_word:
  assumes "held_draft (draft_run (relay_env sha lower letters) ops (pending_store_init a h)) = Some d"
  shows "mset (visible (join_original_draft_text (od_utterances d))) =
           mset (visible (pd_text (describe_proposal (relay_env sha lower letters) (od_utterances d))))
         + mset (visible (concat (concat (map removals_of (od_utterances d)))))
       \<and> subseq (visible (pd_text (describe_proposal (relay_env sha lower letters) (od_utterances d))))
                (visible (join_original_draft_text (od_utterances d)))
       \<and> (pd_cleaned (describe_proposal (relay_env sha lower letters) (od_utterances d)) \<or>
           visible (join_original_draft_text (od_utterances d)) =
           visible (pd_text (describe_proposal (relay_env sha lower letters) (od_utterances d))))"
proof -
  let ?us = "od_utterances d"
  have all: "list_all (spoken (relay_env sha lower letters)) ?us"
  proof (rule spoken_run)
    show "ps_draft (draft_run (relay_env sha lower letters) ops (pending_store_init a h)) = Some d"
      using assms by (simp only: held_draft_Some)
  qed (simp add: pending_store_init_def)
  have shown: "pd_text (describe_proposal (relay_env sha lower letters) ?us) = join_draft_text ?us"
    by (simp add: describe_proposal_def Let_def)
  have "visible (join_original_draft_text ?us) = visible (join_draft_text ?us)"
    if "\<not> pd_cleaned (describe_proposal (relay_env sha lower letters) ?us)"
  proof -
    have "\<not> relay_has_visible_removal (concat (map removals_of ?us))"
      using that by (auto simp: describe_proposal_def Let_def split: if_splits)
    then have "visible (concat (concat (map removals_of ?us))) = []" by (rule invisible_removals)
    with conserved_parts [OF all] have "mset (visible (join_draft_text ?us)) = mset (visible (join_original_draft_text ?us))"
      and sub: "subseq (visible (join_draft_text ?us)) (visible (join_original_draft_text ?us))" by simp_all
    then show ?thesis by (metis mset_eq_length subseq_same_length)
  qed
  with conserved_parts [OF all] show ?thesis unfolding shown by blast
qed

lemma card_accounts_for_every_word_witness:
  "\<exists>d. held_draft (draft_run (relay_env id id (\<lambda>_. True)) [Append 1 [117, 109, 32, 103, 111] 1]
           (pending_store_init None None)) = Some d
     \<and> mset (visible [117, 109, 32, 103, 111]) =
         mset (visible (pd_text (describe_proposal (relay_env id id (\<lambda>_. True)) (od_utterances d))))
       + mset (visible (concat (concat (map removals_of (od_utterances d)))))"
proof -
  define env where "env = relay_env id id (\<lambda>_. True)"
  have e: "entry_of env i [117, 109, 32, 103, 111] 1 =
      \<lparr> de_id = i, de_text = [103, 111], de_turn = 1, de_originalText = Some [117, 109, 32, 103, 111],
        de_removals = Some [[117, 109, 32]] \<rparr>" for i
    by (simp add: entry_of_def env_def relay_env_def normalise_um_go Let_def)
  obtain d where d: "held_draft (draft_run env [Append 1 [117, 109, 32, 103, 111] 1] (pending_store_init None None)) = Some d"
    and us: "od_utterances d = [entry_of env 1 [117, 109, 32, 103, 111] 1]"
    by (simp add: draft_run_def append_to_draft_def held_draft_def pending_store_init_def Let_def)
  have "join_original_draft_text (od_utterances d) = [117, 109, 32, 103, 111]"
    by (simp add: us e join_original_draft_text_def raw_text_def)
  with card_accounts_for_every_word [OF d [unfolded env_def]] d show ?thesis
    by (auto simp: env_def)
qed

end
