(* ===== verification/Utterance_Classifier.thy ===== *)
theory Utterance_Classifier
  imports Proposals
begin

text \<open>
  The mechanical classification of what the operator says, \<open>talker/utterance-classifier.ts\<close>: confirmations,
  cancellations, questions, amendments, draft selections. The regular expressions are values of \<open>re\<close>;
  \<open>lower\<close> stands for \<open>toLowerCase\<close>, whose Unicode table is an argument.

  The scan of a confirmation is a \<open>function\<close> whose termination rests on every phrase having at least one
  word. The \<open>for (;;)\<close> loop that cuts an utterance at its cancel phrases is a \<open>partial_function\<close>: that it
  always returns, and what it returns, is a property.
\<close>

datatype utterance_class = Confirm | Cancel | Question | Statement

subsection \<open>Vocabulary\<close>

definition that_it_this :: re where
  "that_it_this = opt (seqs [rep1 ws, lits [''that'', ''it'', ''this'']])"

definition dont :: re where
  "dont = seqs [lit ''don'', opt apostrophe, lit ''t'']"

definition cancel_patterns :: "re list" where
  "cancel_patterns =
     [seqs [Start, Star ws, lit ''no'', Bound, Star (ws_or (js ''.!'')), End],
      seqs [Bound, lit ''never'', opt ws, lit ''mind'', that_it_this, Bound],
      seqs [Bound, lit ''forget it'', Bound],
      seqs [Bound, lit ''forget '', lits [''that'', ''this''], Bound],
      seqs [Bound, lit ''scratch '', lits [''that'', ''it''], Bound],
      seqs [Bound, dont, lit '' send'', that_it_this, Bound],
      seqs [Bound, lit ''do not send'', that_it_this, Bound],
      seqs [Bound, lit ''cancel '', lits [''that'', ''it'', ''this''], Bound],
      seqs [Bound, lit ''no'', opt (lit '',''), Star ws, Ahead False ws,
            alts [lit ''wait'', lit ''hold'', lit ''stop'', dont, lit ''cancel'', lit ''forget''], that_it_this, Bound],
      seqs [Bound, lit ''actually'', opt (lit '',''), Star ws, lit ''no'', Bound]]"

definition confirm_atoms :: "string list" where
  "confirm_atoms = [''go ahead'', ''go on'', ''carry on'', ''off you go'', ''that's right'', ''send it over'', ''send it'',
     ''send that over'', ''send that'', ''do it'', ''do that'', ''please do'', ''yes'', ''yeah'', ''yep'', ''yup'', ''sure'',
     ''ok'', ''okay'', ''affirmative'', ''confirmed'', ''confirm'']"

definition confirm_atom_presence :: re where
  "confirm_atom_presence = seqs [Bound, lits confirm_atoms, Bound]"

definition confirm_fillers :: "jsstr list" where
  "confirm_fillers = map js [''please'', ''just'', ''now'', ''then'', ''and'', ''um'', ''uh'', ''ah'', ''er'', ''well'', ''so'',
     ''ok'', ''okay'', ''right'']"

definition nt :: "string \<Rightarrow> re" where
  "nt w = seqs [lit w, opt apostrophe, lit ''t'']"

definition confirm_disqualifier :: re where
  "confirm_disqualifier = seqs [Bound,
     alts (map lit [''not'', ''never'', ''hardly'', ''doubt'', ''unsure'', ''uncertain''] @
           map nt [''can'', ''won'', ''don'', ''doesn'', ''didn'', ''isn'', ''aren'', ''shouldn'', ''wouldn'', ''couldn'']), Bound]"

definition edge_class :: "jsstr" where
  "edge_class = js '',;:.!'' @ [em_dash, 45]"

definition edge_punctuation :: re where
  "edge_punctuation = Alt (Seq Start (rep1 (ws_or edge_class))) (Seq (rep1 (ws_or edge_class)) End)"

definition is_word_separator :: "nat \<Rightarrow> bool" where
  "is_word_separator c \<longleftrightarrow> is_js_space c \<or> c \<in> set (js '',;:.!?'' @ [em_dash, 45])"

definition words_of :: "(jsstr \<Rightarrow> jsstr) \<Rightarrow> jsstr \<Rightarrow> jsstr list" where
  "words_of lower text = split_words is_word_separator [] (strip_all edge_punctuation (lower text))"

definition confirm_max_words :: nat where
  "confirm_max_words = 8"

text \<open>\<open>sort((a, b) => b.length - a.length)\<close> is stable, and so is \<open>sort_key\<close>.\<close>

definition confirm_phrases :: "jsstr list" where
  "confirm_phrases = sort_key (\<lambda>a. - int (length a)) (map js confirm_atoms)"

definition phrase_words :: "jsstr \<Rightarrow> jsstr list" where
  "phrase_words phrase = js_split 32 phrase"

definition phrase_at :: "jsstr list \<Rightarrow> nat \<Rightarrow> jsstr \<Rightarrow> bool" where
  "phrase_at words index phrase \<longleftrightarrow>
     take (length (phrase_words phrase)) (drop index words) = phrase_words phrase"

function confirm_scan :: "jsstr list \<Rightarrow> nat \<Rightarrow> nat \<Rightarrow> bool" where
  "confirm_scan words index atoms =
     (if index < length words
      then case find (phrase_at words index) confirm_phrases of
             Some phrase \<Rightarrow> confirm_scan words (index + length (phrase_words phrase)) (atoms + 1)
           | None \<Rightarrow>
               if words ! index \<in> set confirm_fillers then confirm_scan words (index + 1) atoms else False
      else 0 < atoms)"
  by pat_completeness auto
termination
proof (relation "measure (\<lambda>(words, index, atoms). length words - index)", goal_cases)
  case (3 words index atoms phrase)
  then show ?case
    using js_split_nonempty [of 32 phrase] by (cases "js_split 32 phrase") (auto simp: phrase_words_def)
qed auto

declare confirm_scan.simps [simp del]

definition is_whole_utterance_confirmation :: "(jsstr \<Rightarrow> jsstr) \<Rightarrow> jsstr \<Rightarrow> bool" where
  "is_whole_utterance_confirmation lower text =
     (let words = words_of lower text in
      if words = [] \<or> confirm_max_words < length words then False else confirm_scan words 0 0)"

definition pushback_pattern :: re where
  "pushback_pattern = seqs [Bound,
     alts [lit ''just do it'', lit ''just send it'', lit ''stop asking'',
           seqs [dont, lit '' ask'', opt (lit ''ing''), opt (lit '' me''), opt (lits ['' every'', '' each''])],
           lit ''no more asking'', seqs [lit ''every '', opt (lit ''single ''), lit ''time'']], Bound]"

definition pushback_dismissal :: re where
  "pushback_dismissal = seqs [Bound,
     alts [seqs [lit ''stop asking'', opt (lit '' me'')],
           seqs [dont, lit '' ask'', opt (lit ''ing''), opt (lit '' me'')],
           lit ''no more asking'', seqs [lit ''every '', opt (lit ''single ''), lit ''time''],
           seqs [lit ''it'', opt apostrophe, lit ''s a simple thing'']], Bound]"

definition question_trailing :: re where
  "question_trailing = seqs [one_of (js ''?''), Star ws, End]"

definition question_leading :: re where
  "question_leading = seqs [Start, Star ws,
     alts (map lit [''what'', ''why'', ''how'', ''when'', ''where'', ''who'', ''which'', ''is'', ''are'', ''was'', ''were'', ''did'', ''does''] @
       seqs [lit ''do'', rep1 ws, lits [''you'', ''i'', ''we'', ''they'', ''he'', ''she'']] #
       map lit [''can'', ''could'', ''should'', ''would'', ''will'', ''has'', ''have'', ''had'', ''shall'', ''may'', ''any'']), Bound]"

definition meta_send_question :: re where
  "meta_send_question = seqs [Bound,
     alts [lit ''send'', lit ''sent'', lit ''deliver'', lit ''delivered'', lit ''relay'', lit ''relayed'',
           seqs [lit ''reach'', opt (lit ''ed'')], seqs [lit ''go'', opt (lits [''ing'', ''ne'']), lit '' through''],
           lit ''went through''], Bound]"

definition directive_question :: re where
  "directive_question = seqs [Bound,
     lits [''tell'', ''ask'', ''have'', ''make'', ''get'', ''remind'', ''instruct'', ''show'', ''give'', ''send'', ''run'', ''pass''],
     Bound, Star (Chr (\<lambda>c. c \<noteq> 63)), Bound,
     lits [''worker'', ''workers'', ''agent'', ''it'', ''him'', ''her'', ''them''], Bound]"

definition candidate_referring :: re where
  "candidate_referring = seqs [Bound, lits [''amended'', ''new'', ''updated'', ''corrected'', ''revised'', ''fixed''], rep1 ws,
     lits [''one'', ''version'', ''draft'', ''text'', ''wording'', ''instruction'', ''message'', ''amendment''],
     opt (lit ''s''), Bound]"

definition confirm_send_verb :: re where
  "confirm_send_verb = seqs [Bound, lits [''send'', ''send it'', ''relay'', ''deliver'', ''release'', ''submit''], Bound]"

definition object_phrase_words :: "jsstr list" where
  "object_phrase_words = map js [''the'', ''a'', ''an'', ''that'', ''this'', ''it'', ''one'', ''version'', ''versions'', ''draft'', ''drafts'',
     ''text'', ''message'', ''instruction'', ''amended'', ''new'', ''updated'', ''corrected'', ''revised'',
     ''original'', ''whole'', ''thing'', ''amendment'', ''proposal'']"

definition is_bare_object_phrase :: "(jsstr \<Rightarrow> jsstr) \<Rightarrow> jsstr option \<Rightarrow> bool" where
  "is_bare_object_phrase lower residue =
     (case residue of
        None \<Rightarrow> True
      | Some r \<Rightarrow> if r = [] then True
                  else let words = words_of lower r in words \<noteq> [] \<and> list_all (\<lambda>w. w \<in> set object_phrase_words) words)"

subsection \<open>The cancel boundary\<close>

definition dangling_object :: re where
  "dangling_object = seqs [Start, lits [''that'', ''it'', ''this'', ''these'', ''those'', ''them''],
     opt (seqs [rep1 ws, lit ''one'']), opt (one_of (js ''.!,'')), End]"

definition cancel_spans :: "jsstr \<Rightarrow> (nat \<times> nat) list" where
  "cancel_spans text = concat (map (\<lambda>p.
     map (\<lambda>m. (m_start m, m_end m)) (filter (\<lambda>m. m_text text m \<noteq> []) (all_matches p text))) cancel_patterns)"

fun merge_spans :: "nat \<Rightarrow> (nat \<times> nat) list \<Rightarrow> nat" where
  "merge_spans e [] = e"
| "merge_spans e ((a, b) # rest) = (if e < a then e else merge_spans (max e b) rest)"

partial_function (option) cancel_loop :: "jsstr \<Rightarrow> jsstr option option" where
  "cancel_loop text =
     (if text = [] then Some None
      else case sort_key fst (cancel_spans text) of
          [] \<Rightarrow> Some (Some text)
        | (a, b) # rest \<Rightarrow> cancel_loop (js_trim (drop (merge_spans b ((a, b) # rest)) text)))"

declare cancel_loop.simps [code]

definition residue_of :: "jsstr \<Rightarrow> jsstr option" where
  "residue_of text =
     (let residue = js_trim (drop (case match_length (seqs [Start, rep1 (one_of (js '',.;:!'' @ [em_dash, 45])), Star ws]) text of
                                     Some n \<Rightarrow> n | None \<Rightarrow> 0) text) in
      if residue = [] then None
      else if test dangling_object residue then None else Some residue)"

definition extract_post_cancel :: "jsstr \<Rightarrow> jsstr option" where
  "extract_post_cancel raw =
     (case cancel_loop (js_trim raw) of
        Some (Some text) \<Rightarrow> residue_of text
      | _ \<Rightarrow> None)"

definition extract_amendment :: "(jsstr \<Rightarrow> jsstr) \<Rightarrow> jsstr \<Rightarrow> jsstr option" where
  "extract_amendment lower raw =
     (let text = js_trim raw in
      if text = [] then None
      else if \<not> list_ex (\<lambda>p. test p text) cancel_patterns then None
      else let residue = extract_post_cancel text in
           if residue \<noteq> None \<and> \<not> is_bare_object_phrase lower residue then residue else None)"

subsection \<open>Classification\<close>

definition is_worker_directed_question :: "jsstr \<Rightarrow> bool" where
  "is_worker_directed_question raw = (let text = js_trim raw in text \<noteq> [] \<and> test directive_question text)"

definition is_meta_send_question :: "jsstr \<Rightarrow> bool" where
  "is_meta_send_question raw =
     (let text = js_trim raw in
      text \<noteq> [] \<and> (test question_trailing text \<or> test question_leading text) \<and> test meta_send_question text)"

definition classify_operator_utterance :: "(jsstr \<Rightarrow> jsstr) \<Rightarrow> jsstr \<Rightarrow> utterance_class" where
  "classify_operator_utterance lower raw =
     (let text = js_trim raw in
      if text = [] then Statement
      else if list_ex (\<lambda>p. test p text) cancel_patterns \<and> extract_amendment lower text = None then Cancel
      else if test question_trailing text \<or> (test question_leading text \<and> \<not> test pushback_pattern text) then Question
      else if test pushback_pattern text \<and> test confirm_atom_presence text
           \<and> \<not> test confirm_disqualifier (fst (replace_all pushback_dismissal (\<lambda>_ _. ([32], [])) text)) then Confirm
      else if test confirm_disqualifier text then Statement
      else if is_whole_utterance_confirmation lower text then Confirm
      else if (test confirm_atom_presence text \<or> test confirm_send_verb text) \<and> test candidate_referring text then Confirm
      else Statement)"

subsection \<open>Selections\<close>

definition selection_body :: "re list" where
  "selection_body =
     [opt (seqs [lits [''just'', ''only''], rep1 ws]), opt (seqs [lit ''please'', rep1 ws]),
      opt (seqs [lits [''send'', ''relay'', ''pass''], rep1 ws]), opt (seqs [lit ''me'', rep1 ws]), lit ''the'', rep1 ws,
      Grp (lits [''first'', ''second'', ''third'', ''fourth'', ''fifth'', ''last'']), Star ws,
      opt (lits [''one'', ''part'']), Star ws, opt (one_of (js ''.!,'')), Star ws, End]"

definition bare_selection :: re where
  "bare_selection = seqs (Start # selection_body)"

definition confirm_prefixed_selection :: re where
  "confirm_prefixed_selection = seqs (Start # lits [''yes'', ''yeah'', ''yep'', ''yup'', ''sure'', ''ok'', ''okay''] # Star ws #
     Star (one_of (js '',;:!.'')) # Star ws # selection_body)"

definition ordinal_words :: "(jsstr \<times> ordinal) list" where
  "ordinal_words = [(js ''first'', First), (js ''second'', Second), (js ''third'', Third), (js ''fourth'', Fourth),
     (js ''fifth'', Fifth), (js ''last'', Last)]"

definition resolve_draft_selection :: "jsstr \<Rightarrow> ordinal option" where
  "resolve_draft_selection raw =
     (let text = js_trim raw in
      if text = [] then None
      else let m = (case exec bare_selection text of Some m \<Rightarrow> Some m | None \<Rightarrow> exec confirm_prefixed_selection text) in
           case m of
             None \<Rightarrow> None
           | Some m \<Rightarrow> (case m_group text m of
                          Some w \<Rightarrow> map_of ordinal_words (map ascii_lower w) | None \<Rightarrow> None))"

subsection \<open>A confirmation is built from the closed vocabulary\<close>

text \<open>A reading of words as confirmation phrases and fillers, with the number of phrases.\<close>

inductive reading :: "jsstr list \<Rightarrow> nat \<Rightarrow> bool" where
  reading_done: "reading [] 0"
| reading_phrase: "phrase \<in> set confirm_phrases \<Longrightarrow> reading words n \<Longrightarrow> reading (phrase_words phrase @ words) (Suc n)"
| reading_filler: "w \<in> set confirm_fillers \<Longrightarrow> reading words n \<Longrightarrow> reading (w # words) n"

lemma confirm_scan_reading:
  "confirm_scan words index atoms \<Longrightarrow> \<exists>n. reading (drop index words) n \<and> 0 < atoms + n"
proof (induction words index atoms rule: confirm_scan.induct)
  case (1 words index atoms)
  show ?case
  proof (cases "index < length words")
    case False
    then have "reading (drop index words) 0" by (simp add: reading_done)
    moreover have "0 < atoms" using 1(3) False by (simp add: confirm_scan.simps)
    ultimately show ?thesis by auto
  next
    case True
    show ?thesis
    proof (cases "find (phrase_at words index) confirm_phrases")
      case (Some phrase)
      then have p: "phrase \<in> set confirm_phrases" "phrase_at words index phrase"
        by (auto simp: find_Some_iff)
      have "confirm_scan words (index + length (phrase_words phrase)) (atoms + 1)"
        using 1(3) True Some by (simp add: confirm_scan.simps)
      from 1(2) [OF True Some this] obtain n where
        n: "reading (drop (index + length (phrase_words phrase)) words) n" by blast
      have "drop index words = phrase_words phrase @ drop (index + length (phrase_words phrase)) words"
        using p(2) append_take_drop_id [of "length (phrase_words phrase)" "drop index words"]
        by (simp add: phrase_at_def add.commute)
      then have "reading (drop index words) (Suc n)" using reading_phrase [OF p(1) n] by simp
      then show ?thesis by auto
    next
      case None
      have w: "words ! index \<in> set confirm_fillers" and "confirm_scan words (index + 1) atoms"
        using 1(3) True None by (simp_all add: confirm_scan.simps split: if_splits)
      from 1(1) [OF True None w this(2)] obtain n where n: "reading (drop (index + 1) words) n" "0 < atoms + n" by blast
      have "drop index words = words ! index # drop (index + 1) words"
        using True by (simp add: Cons_nth_drop_Suc)
      then have "reading (drop index words) n" using reading_filler [OF w n(1)] by simp
      with n(2) show ?thesis by blast
    qed
  qed
qed

definition confirm_vocabulary :: "jsstr list" where
  "confirm_vocabulary = confirm_fillers @ concat (map phrase_words confirm_phrases)"

lemma reading_closed: "reading words n \<Longrightarrow> set words \<subseteq> set confirm_vocabulary"
  by (induction rule: reading.induct) (auto simp: confirm_vocabulary_def)

text \<open>C35: The gate cannot be talked open: an utterance that counts as a whole-utterance confirmation is at most
  eight words, each from the closed vocabulary, and reads as confirmation phrases and fillers with
  at least one phrase; no other word, in particular no negation, can be in it.\<close>
theorem confirmation_is_closed_vocabulary:
  assumes "is_whole_utterance_confirmation lower utterance"
  shows "(\<exists>n. 0 < n \<and> reading (words_of lower utterance) n)
       \<and> set (words_of lower utterance) \<subseteq> set confirm_vocabulary
       \<and> length (words_of lower utterance) \<le> 8"
proof -
  have "confirm_scan (words_of lower utterance) 0 0" and len: "length (words_of lower utterance) \<le> 8"
    using assms by (auto simp: is_whole_utterance_confirmation_def confirm_max_words_def Let_def split: if_splits)
  then obtain n where "reading (words_of lower utterance) n" "0 < n"
    using confirm_scan_reading by fastforce
  with len reading_closed show ?thesis by blast
qed

lemma yes_is_a_word: "words_of id [121, 101, 115] = [[121, 101, 115]]"
  by (simp add: words_of_def strip_all_def replace_all_def all_matches_def all_from.simps edge_punctuation_def
      edge_class_def em_dash_def is_word_separator_def regex_eval)

lemma confirmation_is_closed_vocabulary_witness:
  "(\<exists>n. 0 < n \<and> reading [[121, 101, 115]] n) \<and> set [[121, 101, 115]] \<subseteq> set confirm_vocabulary"
proof -
  have "confirm_scan [[121, 101, 115]] 0 0" by code_simp
  then have "is_whole_utterance_confirmation id [121, 101, 115]"
    by (simp add: is_whole_utterance_confirmation_def yes_is_a_word confirm_max_words_def)
  from confirmation_is_closed_vocabulary [OF this] show ?thesis unfolding yes_is_a_word by blast
qed

subsection \<open>The cancel boundary is always found\<close>

lemma merge_spans_ge: "e \<le> merge_spans e xs"
  by (induction e xs rule: merge_spans.induct) auto

lemma cancel_span_pos:
  assumes "(a, b) \<in> set (cancel_spans words)"
  shows "0 < b"
proof -
  obtain p m where m: "m \<in> set (all_matches p words)" "m_text words m \<noteq> []" and b: "b = m_end m"
    using assms by (auto simp: cancel_spans_def)
  show ?thesis using m(2) b by (auto simp: m_text_def slice_def)
qed

lemma sublist_trim: "sublist (js_trim s) s"
proof -
  have d: "suffix (dropWhile is_js_space t) t" for t by (rule suffix_dropWhile)
  have "prefix (rev (dropWhile is_js_space (rev (dropWhile is_js_space s)))) (dropWhile is_js_space s)"
    using d [of "rev (dropWhile is_js_space s)"] by (simp add: suffix_to_prefix)
  then show ?thesis unfolding js_trim_def
    using d [of s] by (meson prefix_imp_sublist suffix_imp_sublist sublist_order.order_trans)
qed

text \<open>C34: The loop that cuts an utterance at its cancel phrases ends on every utterance, and what is left is a
  stretch of the operator's own words with no cancel phrase in it.\<close>
theorem cancel_loop_terminates:
  "\<exists>r. cancel_loop utterance = Some r
     \<and> (case r of None \<Rightarrow> True | Some residue \<Rightarrow>
          residue \<noteq> [] \<and> sublist residue utterance \<and> cancel_spans residue = [])"
proof (induction "length utterance" arbitrary: utterance rule: less_induct)
  case less
  show ?case
  proof (cases "utterance = []")
    case True
    then show ?thesis by (simp add: cancel_loop.simps)
  next
    case False
    show ?thesis
    proof (cases "sort_key fst (cancel_spans utterance)")
      case Nil
      then have "cancel_spans utterance = []" by (metis length_0_conv length_sort)
      then show ?thesis using False by (simp add: cancel_loop.simps)
    next
      case (Cons ab rest)
      obtain a b where ab: "ab = (a, b)" by force
      let ?next = "js_trim (drop (merge_spans b ((a, b) # rest)) utterance)"
      have step: "cancel_loop utterance = cancel_loop ?next"
        using False Cons ab by (subst cancel_loop.simps) simp
      have "(a, b) \<in> set (sort_key fst (cancel_spans utterance))" using Cons ab by simp
      then have "0 < b" using cancel_span_pos by simp
      then have "0 < merge_spans b ((a, b) # rest)" using merge_spans_ge [of b "(a, b) # rest"] by linarith
      then have "length ?next < length utterance"
        using False length_trim [of "drop (merge_spans b ((a, b) # rest)) utterance"]
        by (simp del: merge_spans.simps) (metis diff_less length_greater_0_conv order_le_less_trans)
      from less [OF this] obtain r where r: "cancel_loop ?next = Some r"
        and rest: "case r of None \<Rightarrow> True | Some residue \<Rightarrow>
            residue \<noteq> [] \<and> sublist residue ?next \<and> cancel_spans residue = []" by blast
      have "sublist ?next utterance"
        using sublist_trim sublist_drop sublist_order.order_trans by blast
      then have "case r of None \<Rightarrow> True | Some residue \<Rightarrow>
            residue \<noteq> [] \<and> sublist residue utterance \<and> cancel_spans residue = []"
        using rest by (auto split: option.splits intro: sublist_order.order_trans)
      with r step show ?thesis by simp
    qed
  qed
qed

subsection \<open>A confirmation the scan misses\<close>

text \<open>\<open>please do it\<close> reads as a filler and a confirmation phrase, but the longest phrase at its head is
  \<open>please do\<close>, after which \<open>it\<close> is no word of the vocabulary: the scan does not backtrack.\<close>

lemma please_do_it_missed:
  "reading [js ''please'', js ''do'', js ''it''] 1 \<and> \<not> confirm_scan [js ''please'', js ''do'', js ''it''] 0 0"
proof
  have "set confirm_phrases = js ` set confirm_atoms" by (simp add: confirm_phrases_def)
  then have "js ''do it'' \<in> set confirm_phrases" by (simp add: confirm_atoms_def)
  from reading_phrase [OF this reading_done] have "reading [js ''do'', js ''it''] 1"
    by (simp add: phrase_words_def js_def)
  then show "reading [js ''please'', js ''do'', js ''it''] 1"
    by (rule reading_filler [rotated]) (simp add: confirm_fillers_def)
  show "\<not> confirm_scan [js ''please'', js ''do'', js ''it''] 0 0" by code_simp
qed

end
