(* ===== verification/Policy_Core.thy ===== *)
theory Policy_Core
  imports Utterance_Classifier
begin

text \<open>
  The talker's pure policy core, \<open>talker/policy-core.ts\<close> up to the host kernel, with the fixed replies of
  \<open>talker/ack.ts\<close> and the offer tag of \<open>talker/ask-worker.ts\<close>.

  \<^item> \<open>decide_from_state\<close> is the decision of one operator turn, branch by branch; \<open>decide_after_model_reply\<close> is
    what the model's reply may still change. Both are functions of their arguments only.
  \<^item> \<open>policy_state_view\<close> is the read-only adapter. The interface it reads, \<open>PolicyDraftSource\<close>, is the locale
    \<open>draft_source\<close>, together with the operation that a release decision calls next; it is interpreted
    on \<open>PendingProposalStore\<close>.
\<close>

subsection \<open>Fixed replies\<close>

definition release_ack :: jsstr where
  "release_ack = js ''sending that now''"

definition queued_ack :: jsstr where
  "queued_ack = js ''Got it '' @ [0x2014] @ js '' that'll reach the worker after this turn.''"

definition refused_ack :: jsstr where
  "refused_ack = js ''I couldn't deliver that '' @ [0x2014] @ js '' it has not reached the worker.''"

definition model_failure_reply :: jsstr where
  "model_failure_reply = js ''I couldn't reach my model just then '' @ [0x2014] @ js '' can you say that again?''"

definition nothing_pending_ack :: jsstr where
  "nothing_pending_ack =
     js ''Nothing is held right now, so there is nothing to send. Say the instruction and I'll hold it for your go-ahead.''"

definition nothing_to_cancel_ack :: jsstr where
  "nothing_to_cancel_ack = js ''Nothing is held right now '' @ [0x2014] @ js '' there was nothing to cancel.''"

definition receipt_ack :: jsstr where
  "receipt_ack = js ''Noted '' @ [0x2014] @ js '' still holding that.''"

definition receipt_ack_for :: "nat \<Rightarrow> jsstr option" where
  "receipt_ack_for n = (if 0 < n then Some receipt_ack else None)"

datatype mechanism = Steer | Prompt | Follow_Up

datatype unknown_cause = Timed_Out | Disconnected | Transport_Error

datatype delivery_outcome =
    Delivered mechanism "jsstr option"
  | Queued mechanism jsstr
  | Refused jsstr
  | Unknown_Outcome unknown_cause jsstr

definition ack_for_outcome :: "delivery_outcome \<Rightarrow> jsstr" where
  "ack_for_outcome r = (case r of Delivered _ _ \<Rightarrow> release_ack | Queued _ _ \<Rightarrow> queued_ack | _ \<Rightarrow> refused_ack)"

fun mechanism_text :: "mechanism \<Rightarrow> jsstr" where
  "mechanism_text Steer = js ''steer''"
| "mechanism_text Prompt = js ''prompt''"
| "mechanism_text Follow_Up = js ''follow_up''"

definition describe_outcome :: "delivery_outcome \<Rightarrow> jsstr" where
  "describe_outcome r =
     (case r of
        Delivered m _ \<Rightarrow> js ''delivered ('' @ mechanism_text m @ js '')''
      | Queued m _ \<Rightarrow> js ''queued ('' @ mechanism_text m @ js '')''
      | Refused reason \<Rightarrow> js ''not delivered ('' @ reason @ js '')''
      | Unknown_Outcome _ reason \<Rightarrow> js ''not delivered ('' @ reason @ js '')'')"

fun join_str :: "jsstr \<Rightarrow> jsstr list \<Rightarrow> jsstr" where
  "join_str sep [] = []"
| "join_str sep [s] = s"
| "join_str sep (s # t # ss) = s @ sep @ join_str sep (t # ss)"

definition quoted :: "jsstr \<Rightarrow> jsstr" where
  "quoted s = 34 # s @ [34]"

definition quote_draft :: "draft_entry list \<Rightarrow> jsstr" where
  "quote_draft us = join_str (js '' ... '') (map (\<lambda>u. quoted (de_text u)) us)"

definition reconfirm_ask_reply :: "draft_entry list \<Rightarrow> jsstr" where
  "reconfirm_ask_reply us = js ''You were composing something '' @ [0x2014] @
     js '' still want that sent? Here is what I am holding: '' @ quote_draft us @ js ''. Say yes and I will send it.''"

definition selection_clarify_reply :: "draft_entry list \<Rightarrow> jsstr" where
  "selection_clarify_reply us = js ''I am holding '' @ nat_text (length us) @ js '' things '' @ [0x2014] @ js '' '' @
     join_str (js '' '') (map (\<lambda>(i, u). nat_text (i + 1) @ js ''. '' @ quoted (de_text u)) (enumerate 0 us)) @
     js ''. Which one?''"

definition stale_proposal_reply :: "draft_entry list \<Rightarrow> jsstr" where
  "stale_proposal_reply us = js ''That card is out of date '' @ [0x2014] @
     js '' the wording has changed since it was shown, so I sent nothing. Here is what I am holding now: '' @
     quote_draft us @ js ''. Confirm this current version and I will send it.''"

definition original_not_offered_reply :: "draft_entry list \<Rightarrow> jsstr" where
  "original_not_offered_reply us = js ''Your exact raw words are not on offer here '' @ [0x2014] @
     js '' nothing visible was taken out of what I am holding: '' @ quote_draft us @
     js ''. Say yes and I will send it as shown.''"

subsection \<open>Reply tags\<close>

definition tag :: "string \<Rightarrow> re" where
  "tag w = seqs [lit ''[['', Star ws, lit w, Star ws, lit '']]'']"

definition tag_at_end :: "string \<Rightarrow> re" where
  "tag_at_end w = seqs [lit ''[['', Star ws, lit w, Star ws, lit '']]'', Star ws, End]"

definition is_addressed_to_talker_mark :: "jsstr \<Rightarrow> bool" where
  "is_addressed_to_talker_mark reply = test (tag_at_end ''to-talker'') reply"

definition strip_talker_addressed_marker :: "jsstr \<Rightarrow> jsstr" where
  "strip_talker_addressed_marker reply = js_trim (strip_all (tag ''to-talker'') reply)"

definition is_ask_worker_offer :: "jsstr \<Rightarrow> bool" where
  "is_ask_worker_offer reply = test (tag_at_end ''ask-worker'') reply"

definition strip_ask_worker_marker :: "jsstr \<Rightarrow> jsstr" where
  "strip_ask_worker_marker reply = js_trim (strip_all (tag ''ask-worker'') reply)"

subsection \<open>State in, decisions out\<close>

record policy_draft =
  pv_utterances :: "draft_entry list"
  pv_identity :: "(nat \<times> jsstr) option"
  pv_lapsed :: bool

record policy_state =
  pv_turn :: int
  pv_draft :: "policy_draft option"

record policy_input =
  in_utterance :: jsstr
  in_releaseVariant :: "release_variant option"
  in_proposalRef :: "(nat \<times> jsstr) option"

datatype conversational_path = Draft_Path | Residue_Path | Worker_Directed | Offer_Path | Plain_Path

datatype candidate_source = From_Utterance | From_Residue | From_Offer

record conversational_plan =
  cp_path :: conversational_path
  cp_cancelled :: bool
  cp_cancelResidue :: "(jsstr \<times> bool) option"
  cp_draftCandidate :: "(jsstr \<times> candidate_source) option"
  cp_offerCandidate :: "jsstr option"
  cp_opensBatchWhenKept :: bool

datatype decision_kind =
    Release "ordinal option" release_variant
  | Refuse_Lapsed jsstr
  | Refuse_Stale_Card jsstr
  | Refuse_Original_Not_Offered jsstr
  | Clarify_Selection jsstr
  | Nothing_Pending jsstr
  | Nothing_To_Cancel jsstr
  | Cancel_Turn conversational_plan
  | Conversational conversational_plan

record policy_decision =
  dc_turn :: int
  dc_utterance :: jsstr
  dc_class :: utterance_class
  dc_kind :: decision_kind

fun is_mechanical :: "decision_kind \<Rightarrow> bool" where
  "is_mechanical (Refuse_Lapsed _) \<longleftrightarrow> True"
| "is_mechanical (Refuse_Stale_Card _) \<longleftrightarrow> True"
| "is_mechanical (Refuse_Original_Not_Offered _) \<longleftrightarrow> True"
| "is_mechanical (Clarify_Selection _) \<longleftrightarrow> True"
| "is_mechanical (Nothing_Pending _) \<longleftrightarrow> True"
| "is_mechanical (Nothing_To_Cancel _) \<longleftrightarrow> True"
| "is_mechanical _ \<longleftrightarrow> False"

record post_model_plan =
  pm_reply :: jsstr
  pm_askWorkerOffer :: bool
  pm_addressedToTalker :: bool
  pm_append :: "(jsstr \<times> candidate_source) option"
  pm_opensBatch :: bool

definition selection_resolves :: "ordinal \<Rightarrow> nat \<Rightarrow> bool" where
  "selection_resolves position n \<longleftrightarrow> resolve_ordinal_index position n \<noteq> None"

definition view_identity_matches :: "policy_draft \<Rightarrow> nat \<times> jsstr \<Rightarrow> bool" where
  "view_identity_matches d echo \<longleftrightarrow> pv_identity d = Some echo"

subsection \<open>The pre-model decision\<close>

text \<open>\<open>!describeProposal(...).original\<close>: absent or empty.\<close>

definition offers_original :: "text_env \<Rightarrow> draft_entry list \<Rightarrow> bool" where
  "offers_original env us =
     (case pd_original (describe_proposal env us) of None \<Rightarrow> False | Some t \<Rightarrow> t \<noteq> [])"

definition plain_plan :: "bool \<Rightarrow> (jsstr \<times> bool) option \<Rightarrow> conversational_plan" where
  "plain_plan cancelled residue =
     \<lparr> cp_path = Plain_Path, cp_cancelled = cancelled, cp_cancelResidue = residue, cp_draftCandidate = None,
       cp_offerCandidate = None, cp_opensBatchWhenKept = False \<rparr>"

definition residue_plan :: "bool \<Rightarrow> jsstr \<Rightarrow> conversational_plan" where
  "residue_plan cancelled residue =
     \<lparr> cp_path = Residue_Path, cp_cancelled = cancelled, cp_cancelResidue = Some (residue, True),
       cp_draftCandidate = Some (residue, From_Residue), cp_offerCandidate = None, cp_opensBatchWhenKept = True \<rparr>"

definition decide_confirm ::
  "text_env \<Rightarrow> policy_input \<Rightarrow> ordinal option \<Rightarrow> policy_draft option \<Rightarrow> decision_kind" where
  "decide_confirm env input selection draft =
     (case draft of
        None \<Rightarrow> Nothing_Pending nothing_pending_ack
      | Some d \<Rightarrow>
          if pv_lapsed d then Refuse_Lapsed (reconfirm_ask_reply (pv_utterances d))
          else if (case in_proposalRef input of None \<Rightarrow> False | Some echo \<Rightarrow> \<not> view_identity_matches d echo)
          then Refuse_Stale_Card (stale_proposal_reply (pv_utterances d))
          else
            let variant = (case in_releaseVariant input of Some v \<Rightarrow> v | None \<Rightarrow> Tidied) in
            if variant = Original \<and> \<not> offers_original env (pv_utterances d)
            then Refuse_Original_Not_Offered (original_not_offered_reply (pv_utterances d))
            else if (case selection of None \<Rightarrow> False
                     | Some position \<Rightarrow> \<not> selection_resolves position (length (pv_utterances d)))
            then Clarify_Selection (selection_clarify_reply (pv_utterances d))
            else Release selection variant)"

definition decide_cancel :: "(jsstr \<Rightarrow> jsstr) \<Rightarrow> jsstr \<Rightarrow> bool \<Rightarrow> decision_kind" where
  "decide_cancel lower utterance cancelled =
     (case extract_post_cancel utterance of
        Some residue \<Rightarrow>
          let residue_class = classify_operator_utterance lower residue;
              draftable = (residue_class = Statement \<or>
                residue_class = Question \<and> \<not> is_meta_send_question residue \<and> is_worker_directed_question residue) in
          if draftable then Cancel_Turn (residue_plan cancelled residue)
          else Cancel_Turn (plain_plan cancelled (Some (residue, False)))
      | None \<Rightarrow>
          if \<not> cancelled then Nothing_To_Cancel nothing_to_cancel_ack else Cancel_Turn (plain_plan cancelled None))"

definition decide_question :: "jsstr \<Rightarrow> bool \<Rightarrow> decision_kind" where
  "decide_question utterance no_draft =
     (let metaSend = is_meta_send_question utterance;
          workerDirected = is_worker_directed_question utterance in
      if \<not> metaSend \<and> workerDirected
      then Conversational \<lparr> cp_path = Worker_Directed, cp_cancelled = False, cp_cancelResidue = None,
             cp_draftCandidate = None, cp_offerCandidate = None, cp_opensBatchWhenKept = no_draft \<rparr>
      else
        let offerCandidate = (if \<not> metaSend \<and> \<not> workerDirected then Some utterance else None) in
        Conversational \<lparr> cp_path = Offer_Path, cp_cancelled = False, cp_cancelResidue = None,
             cp_draftCandidate = None, cp_offerCandidate = offerCandidate,
             cp_opensBatchWhenKept = (offerCandidate \<noteq> None \<and> no_draft) \<rparr>)"

definition decide_statement :: "(jsstr \<Rightarrow> jsstr) \<Rightarrow> jsstr \<Rightarrow> bool \<Rightarrow> decision_kind" where
  "decide_statement lower utterance no_draft =
     (case extract_amendment lower utterance of
        Some amendment \<Rightarrow> Cancel_Turn (residue_plan (\<not> no_draft) amendment)
      | None \<Rightarrow> Conversational \<lparr> cp_path = Draft_Path, cp_cancelled = False, cp_cancelResidue = None,
             cp_draftCandidate = Some (utterance, From_Utterance), cp_offerCandidate = None,
             cp_opensBatchWhenKept = no_draft \<rparr>)"

definition turn_class :: "text_env \<Rightarrow> jsstr \<Rightarrow> utterance_class" where
  "turn_class env utterance =
     (let classified = classify_operator_utterance (tx_lower env) utterance in
      if resolve_draft_selection utterance \<noteq> None \<and> classified = Statement then Confirm else classified)"

definition decide_from_state :: "text_env \<Rightarrow> policy_state \<Rightarrow> policy_input \<Rightarrow> policy_decision" where
  "decide_from_state env state input =
     (let utterance = in_utterance input;
          selection = resolve_draft_selection utterance;
          cls = turn_class env utterance in
      \<lparr> dc_turn = pv_turn state, dc_utterance = utterance, dc_class = cls,
        dc_kind = (case cls of
            Confirm \<Rightarrow> decide_confirm env input selection (pv_draft state)
          | Cancel \<Rightarrow> decide_cancel (tx_lower env) utterance (pv_draft state \<noteq> None)
          | Question \<Rightarrow> decide_question utterance (pv_draft state = None)
          | Statement \<Rightarrow> decide_statement (tx_lower env) utterance (pv_draft state = None)) \<rparr>)"

definition plain_conversational_decision :: "jsstr \<Rightarrow> utterance_class \<Rightarrow> int \<Rightarrow> policy_decision" where
  "plain_conversational_decision utterance cls turn =
     \<lparr> dc_turn = turn, dc_utterance = utterance, dc_class = cls, dc_kind = Conversational (plain_plan False None) \<rparr>"

subsection \<open>The post-model decision\<close>

datatype policy_error = Not_A_Spoken_Decision

definition spoken_plan :: "decision_kind \<Rightarrow> conversational_plan option" where
  "spoken_plan k = (case k of Cancel_Turn p \<Rightarrow> Some p | Conversational p \<Rightarrow> Some p | _ \<Rightarrow> None)"

definition post_plan :: "conversational_plan \<Rightarrow> jsstr \<Rightarrow> post_model_plan" where
  "post_plan plan rawReply =
     (let drafts = (cp_path plan = Draft_Path \<or> cp_path plan = Residue_Path);
          addressed = (drafts \<and> cp_draftCandidate plan \<noteq> None \<and> is_addressed_to_talker_mark rawReply);
          offer = (cp_path plan = Offer_Path \<and> cp_offerCandidate plan \<noteq> None \<and> is_ask_worker_offer rawReply);
          append = (if drafts \<and> \<not> addressed \<and> cp_draftCandidate plan \<noteq> None then cp_draftCandidate plan
                    else if offer then map_option (\<lambda>t. (t, From_Offer)) (cp_offerCandidate plan)
                    else None);
          opensBatch = (if cp_path plan = Worker_Directed then cp_opensBatchWhenKept plan
                        else if cp_path plan = Offer_Path then offer \<and> cp_opensBatchWhenKept plan
                        else if drafts then \<not> addressed \<and> cp_opensBatchWhenKept plan
                        else False) in
      \<lparr> pm_reply = strip_talker_addressed_marker (strip_ask_worker_marker rawReply),
        pm_askWorkerOffer = offer, pm_addressedToTalker = addressed, pm_append = append, pm_opensBatch = opensBatch \<rparr>)"

definition decide_after_model_reply :: "policy_decision \<Rightarrow> jsstr \<Rightarrow> policy_error + post_model_plan" where
  "decide_after_model_reply decision rawReply =
     (case spoken_plan (dc_kind decision) of
        None \<Rightarrow> Inl Not_A_Spoken_Decision
      | Some plan \<Rightarrow> Inr (post_plan plan rawReply))"

subsection \<open>The read-only adapter and its interface\<close>

definition policy_state_view ::
  "('s \<Rightarrow> draft_snapshot option) \<Rightarrow> (int \<Rightarrow> 's \<Rightarrow> bool) \<Rightarrow> ('s \<Rightarrow> (nat \<times> jsstr) option) \<Rightarrow> int \<Rightarrow> 's \<Rightarrow> policy_state"
where
  "policy_state_view snapshot lapsed identity turn source =
     (case snapshot source of
        None \<Rightarrow> \<lparr> pv_turn = turn, pv_draft = None \<rparr>
      | Some d \<Rightarrow> \<lparr> pv_turn = turn, pv_draft = Some \<lparr> pv_utterances = ds_utterances d, pv_identity = identity source,
                    pv_lapsed = lapsed turn source \<rparr> \<rparr>)"

definition selected_parts :: "ordinal option \<Rightarrow> draft_entry list \<Rightarrow> draft_entry list" where
  "selected_parts selection us =
     (case selection of
        None \<Rightarrow> us
      | Some position \<Rightarrow> (case resolve_ordinal_index position (length us) of Some i \<Rightarrow> [us ! i] | None \<Rightarrow> []))"

text \<open>What the core relies on: a draft that is shown is not empty and carries an identity, and a fresh draft can be
  taken, whole or by a selection that resolves, and yields exactly those parts.\<close>

locale draft_source =
  fixes snapshot :: "'s \<Rightarrow> draft_snapshot option"
    and lapsed :: "int \<Rightarrow> 's \<Rightarrow> bool"
    and identity :: "'s \<Rightarrow> (nat \<times> jsstr) option"
    and take_parts :: "int \<Rightarrow> ordinal option \<Rightarrow> release_variant \<Rightarrow> 's \<Rightarrow> taken_release option \<times> 's"
  assumes snapshot_nonempty: "snapshot s = Some d \<Longrightarrow> ds_utterances d \<noteq> []"
    and identity_held: "identity s = None \<longleftrightarrow> snapshot s = None"
    and take_fresh: "snapshot s = Some d \<Longrightarrow> \<not> lapsed turn s
      \<Longrightarrow> selection = None \<or> (\<exists>p. selection = Some p \<and> selection_resolves p (length (ds_utterances d)))
      \<Longrightarrow> fst (take_parts turn selection v s) = Some (taken_of v (selected_parts selection (ds_utterances d)))"
    and take_refused: "snapshot s = None \<or> lapsed turn s \<Longrightarrow> fst (take_parts turn selection v s) = None"
begin

lemma release_needs_confirmation:
  assumes "dc_kind (decide_from_state env (policy_state_view snapshot lapsed identity turn s) input) = Release selection v"
  obtains d where "snapshot s = Some d" "\<not> lapsed turn s" "turn_class env (in_utterance input) = Confirm"
    "selection = resolve_draft_selection (in_utterance input)"
    "v = (case in_releaseVariant input of Some w \<Rightarrow> w | None \<Rightarrow> Tidied)"
    "v = Original \<longrightarrow> offers_original env (ds_utterances d)"
    "\<forall>echo. in_proposalRef input = Some echo \<longrightarrow> identity s = Some echo"
    "selection = None \<or> (\<exists>p. selection = Some p \<and> selection_resolves p (length (ds_utterances d)))"
proof -
  have c: "turn_class env (in_utterance input) = Confirm"
    using assms by (cases "turn_class env (in_utterance input)")
      (auto simp: decide_from_state_def Let_def decide_cancel_def decide_question_def decide_statement_def
        split: option.splits if_splits)
  then have k: "decide_confirm env input (resolve_draft_selection (in_utterance input))
                  (pv_draft (policy_state_view snapshot lapsed identity turn s)) = Release selection v"
    using assms by (simp add: decide_from_state_def Let_def)
  then obtain d where d: "snapshot s = Some d"
    by (cases "snapshot s") (auto simp: policy_state_view_def decide_confirm_def)
  show ?thesis
  proof (rule that [OF d])
    show "turn_class env (in_utterance input) = Confirm" by (rule c)
  qed (use k in \<open>auto simp: policy_state_view_def d decide_confirm_def view_identity_matches_def Let_def
        split: if_splits option.splits\<close>)
qed

lemma release_is_live:
  assumes "dc_kind (decide_from_state env (policy_state_view snapshot lapsed identity turn s) input) = Release selection v"
  shows "\<exists>d. snapshot s = Some d \<and> ds_utterances d \<noteq> []
       \<and> fst (take_parts turn selection v s) = Some (taken_of v (selected_parts selection (ds_utterances d)))"
proof -
  show ?thesis
    using assms by (rule release_needs_confirmation) (use take_fresh snapshot_nonempty in blast)
qed

end

definition store_identity :: "text_env \<Rightarrow> pending_store \<Rightarrow> (nat \<times> jsstr) option" where
  "store_identity env s = map_option (\<lambda>(d, v). (v, pd_hash d)) (describe_current env s)"

lemma take_fresh_store:
  assumes "snapshot_draft s = Some d" and "\<not> is_lapsed turn s"
    and "selection = None \<or> (\<exists>p. selection = Some p \<and> selection_resolves p (length (ds_utterances d)))"
  shows "fst (take_for_release turn selection v s) = Some (taken_of v (selected_parts selection (ds_utterances d)))"
proof -
  obtain e where e: "held_draft s = Some e" "ds_utterances d = od_utterances e"
    using assms(1) by (auto simp: snapshot_draft_def)
  then have "\<not> ps_maxPendingAgeTurns s \<le> draft_age turn e"
    using assms(2) by (auto simp: is_lapsed_def held_draft_Some)
  with e assms(3) show ?thesis
    by (auto simp: take_for_release_def selected_parts_def selection_resolves_def Let_def split: option.splits)
qed

interpretation store_draft: draft_source snapshot_draft is_lapsed "store_identity env" take_for_release
proof
  fix s :: pending_store and d
  show "snapshot_draft s = Some d \<Longrightarrow> ds_utterances d \<noteq> []"
    by (auto simp: snapshot_draft_def held_draft_Some)
  show "store_identity env s = None \<longleftrightarrow> snapshot_draft s = None"
    by (simp add: store_identity_def describe_current_def snapshot_draft_def)
next
  fix s turn selection v
  assume "snapshot_draft s = None \<or> is_lapsed turn s"
  then show "fst (take_for_release turn selection v s) = None"
  proof (cases "held_draft s")
    case None
    then show ?thesis by (simp add: take_for_release_def)
  next
    case (Some d)
    have "ps_draft s = Some d" using Some held_draft_Some by blast
    moreover have "is_lapsed turn s"
      using \<open>snapshot_draft s = None \<or> is_lapsed turn s\<close> Some by (simp add: snapshot_draft_def)
    ultimately show ?thesis by (simp add: take_for_release_def Some is_lapsed_def)
  qed
qed (rule take_fresh_store)

definition decide_operator_turn :: "text_env \<Rightarrow> int \<Rightarrow> pending_store \<Rightarrow> policy_input \<Rightarrow> policy_decision" where
  "decide_operator_turn env turn s input =
     decide_from_state env (policy_state_view snapshot_draft is_lapsed (store_identity env) turn s) input"

lemma release_live:
  assumes "dc_kind (decide_operator_turn env turn s input) = Release selection v"
  shows "\<exists>us. draft_utterances s = Some us \<and> \<not> is_lapsed turn s
       \<and> turn_class env (in_utterance input) = Confirm
       \<and> (case in_proposalRef input of None \<Rightarrow> True | Some echo \<Rightarrow> identity_matches env echo s)
       \<and> (v = Tidied \<or> pd_cleaned (describe_proposal env us))
       \<and> selected_parts selection us \<noteq> []
       \<and> fst (take_for_release turn selection v s) = Some (taken_of v (selected_parts selection us))"
proof -
  obtain d where d: "snapshot_draft s = Some d" "\<not> is_lapsed turn s" "turn_class env (in_utterance input) = Confirm"
    and "selection = resolve_draft_selection (in_utterance input)"
    and "v = (case in_releaseVariant input of Some w \<Rightarrow> w | None \<Rightarrow> Tidied)"
    and orig: "v = Original \<longrightarrow> offers_original env (ds_utterances d)"
    and echo: "\<forall>echo. in_proposalRef input = Some echo \<longrightarrow> store_identity env s = Some echo"
    and sel: "selection = None \<or> (\<exists>p. selection = Some p \<and> selection_resolves p (length (ds_utterances d)))"
    using assms unfolding decide_operator_turn_def by (rule store_draft.release_needs_confirmation) blast
  have us: "draft_utterances s = Some (ds_utterances d)"
    using d(1) by (auto simp: snapshot_draft_def draft_utterances_def)
  have "case in_proposalRef input of None \<Rightarrow> True | Some echo \<Rightarrow> identity_matches env echo s"
    using echo by (auto simp: store_identity_def identity_matches_def split: option.splits)
  moreover have "v = Tidied \<or> pd_cleaned (describe_proposal env (ds_utterances d))"
    using orig by (cases v) (auto simp: offers_original_def describe_proposal_def Let_def split: if_splits option.splits)
  moreover have "selected_parts selection (ds_utterances d) \<noteq> []"
    using sel store_draft.snapshot_nonempty [OF d(1)] by (auto simp: selected_parts_def selection_resolves_def split: option.splits)
  ultimately show ?thesis
    using us d store_draft.take_fresh [OF d(1,2) sel] by blast
qed

text \<open>C22: A release decision is never a dead end: whenever the pure core decides to release, the operator confirmed,
  the draft is fresh, an echoed card is the current one, the chosen variant was offered, and the store
  hands over exactly the selected parts.\<close>
theorem release_decision_is_live:
  assumes "dc_kind (decide_operator_turn env turn s input) = Release selection v"
  shows "\<exists>us. draft_utterances s = Some us \<and> \<not> is_lapsed turn s
       \<and> turn_class env (in_utterance input) = Confirm
       \<and> (case in_proposalRef input of None \<Rightarrow> True | Some echo \<Rightarrow> identity_matches env echo s)
       \<and> (v = Tidied \<or> pd_cleaned (describe_proposal env us))
       \<and> selected_parts selection us \<noteq> []
       \<and> fst (take_for_release turn selection v s) = Some (taken_of v (selected_parts selection us))"
  using assms by (rule release_live)

subsection \<open>A confirmation in full\<close>

lemmas phrase_defs = that_it_this_def dont_def nt_def apostrophe_def confirm_atoms_def

lemma yes_is_not_withdrawn: "list_ex (\<lambda>p. test p [121, 101, 115]) cancel_patterns = False"
  by (simp add: cancel_patterns_def phrase_defs regex_eval)

lemma yes_selects_nothing: "resolve_draft_selection [121, 101, 115] = None"
  by (simp add: resolve_draft_selection_def js_trim_def bare_selection_def confirm_prefixed_selection_def
      selection_body_def regex_eval)

lemma yes_is_plain:
  "test question_trailing [121, 101, 115] = False" "test question_leading [121, 101, 115] = False"
  "test pushback_pattern [121, 101, 115] = False" "test confirm_disqualifier [121, 101, 115] = False"
  by (simp_all add: question_trailing_def question_leading_def pushback_pattern_def confirm_disqualifier_def
      phrase_defs regex_eval)

lemma yes_confirms:
  assumes "tx_lower env = id"
  shows "turn_class env [121, 101, 115] = Confirm"
proof -
  have "js_trim [121, 101, 115] = [121, 101, 115]" by (simp add: js_trim_def is_js_space_def)
  moreover have "confirm_scan [[121, 101, 115]] 0 0" by code_simp
  ultimately show ?thesis
    using assms yes_is_not_withdrawn yes_selects_nothing yes_is_plain
    by (simp add: turn_class_def classify_operator_utterance_def is_whole_utterance_confirmation_def yes_is_a_word
        confirm_max_words_def)
qed

definition spoken_env :: text_env where
  "spoken_env = relay_env id id (\<lambda>_. True)"

definition um_go_draft :: pending_store where
  "um_go_draft = draft_run spoken_env [Append 1 [117, 109, 32, 103, 111] 1] (pending_store_init None None)"

lemma um_go_held:
  "held_draft um_go_draft = Some \<lparr> od_utterances = [\<lparr> de_id = 1, de_text = [103, 111], de_turn = 1,
       de_originalText = Some [117, 109, 32, 103, 111], de_removals = Some [[117, 109, 32]] \<rparr>],
     od_createdTurn = 1, od_lastTouchedTurn = 1, od_ageTurns = 0, od_needsReConfirmation = False, od_version = 1 \<rparr>"
  by (simp add: um_go_draft_def spoken_env_def relay_env_def draft_run_def append_to_draft_def held_draft_def
      pending_store_init_def entry_of_def normalise_um_go Let_def)

definition yes_input :: policy_input where
  "yes_input = \<lparr> in_utterance = [121, 101, 115], in_releaseVariant = None, in_proposalRef = None \<rparr>"

lemma yes_releases_fresh:
  assumes "tx_lower env = id" and "held_draft s = Some d" and "\<not> is_lapsed turn s"
  shows "dc_kind (decide_operator_turn env turn s yes_input) = Release None Tidied"
  using yes_confirms [OF assms(1)] assms(2,3)
  by (simp add: decide_operator_turn_def decide_from_state_def policy_state_view_def snapshot_draft_def
      yes_input_def yes_selects_nothing decide_confirm_def Let_def)

lemma um_go_fresh: "ps_draft um_go_draft = held_draft um_go_draft" "\<not> is_lapsed 2 um_go_draft"
proof -
  obtain d where "held_draft um_go_draft = Some d" and d: "od_ageTurns d = 0" "od_lastTouchedTurn d = 1"
    using um_go_held by simp
  then have "ps_draft um_go_draft = Some d" using held_draft_Some by blast
  moreover have "ps_maxPendingAgeTurns um_go_draft = 6"
    by (simp add: um_go_draft_def draft_run_def append_to_draft_def pending_store_init_def Let_def)
  ultimately show "\<not> is_lapsed 2 um_go_draft" "ps_draft um_go_draft = held_draft um_go_draft"
    using \<open>held_draft um_go_draft = Some d\<close> by (simp_all add: is_lapsed_def draft_age_def d)
qed

lemma yes_releases:
  "dc_kind (decide_operator_turn spoken_env 2 um_go_draft yes_input) = Release None Tidied"
  using um_go_held um_go_fresh(2)
  by (intro yes_releases_fresh) (simp_all add: spoken_env_def relay_env_def)

lemma release_decision_is_live_witness:
  "map_option tr_text (fst (take_for_release 2 None Tidied um_go_draft)) = Some [103, 111]"
proof -
  obtain us where us: "draft_utterances um_go_draft = Some us"
    and t: "fst (take_for_release 2 None Tidied um_go_draft) = Some (taken_of Tidied (selected_parts None us))"
    using release_decision_is_live [OF yes_releases] by blast
  show ?thesis
    using us unfolding t by (auto simp: draft_utterances_def um_go_held selected_parts_def taken_of_def join_draft_text_def)
qed

end
