(* ===== verification/Talker_Session.thy ===== *)
theory Talker_Session
  imports Policy_Core
begin

text \<open>
  The talker session, \<open>talker/talker.ts\<close>, with its bounded history, \<open>talker/history.ts\<close>.

  An operator turn is asynchronous: it runs up to its first \<open>await\<close> and is resumed when the worker's
  snapshot, the model or the delivery adapter answers. Several turns may be open at once, so the
  state keeps the suspended turns and an event either starts a turn or resumes one; every interleaving
  of turns is a list of events. The calls the session makes are the effects of a step.

  What the snapshot provider, the model and the delivery adapter answer is part of the events. The
  text of the projection sent to the model, its latency figures and the observability hooks are
  left out: nothing the session does depends on them.
\<close>

subsection \<open>History\<close>

datatype history_role = User_Role | Assistant_Role

datatype history_kind = Operator_Entry | Talker_Entry | Mechanical_Entry

record history_entry =
  he_role :: history_role
  he_content :: jsstr
  he_kind :: history_kind
  he_turn :: int

record talker_history =
  th_list :: "history_entry list"
  th_maxEntries :: int
  th_keepEntries :: int
  th_maxEntriesWhenPending :: int
  th_keepEntriesWhenPending :: int

definition talker_history_init :: talker_history where
  "talker_history_init = \<lparr> th_list = [], th_maxEntries = 30, th_keepEntries = 16,
     th_maxEntriesWhenPending = 60, th_keepEntriesWhenPending = 40 \<rparr>"

definition append_history :: "history_entry \<Rightarrow> talker_history \<Rightarrow> talker_history" where
  "append_history e h = h \<lparr> th_list := th_list h @ [e] \<rparr>"

definition maybe_trim :: "bool \<Rightarrow> talker_history \<Rightarrow> int \<times> talker_history" where
  "maybe_trim hasPending h =
     (let mx = (if hasPending then th_maxEntriesWhenPending h else th_maxEntries h);
          keep = (if hasPending then th_keepEntriesWhenPending h else th_keepEntries h);
          len = int (length (th_list h)) in
      if len \<le> mx then (0, h)
      else
        let target = max 0 (min keep mx);
            n = len - target in
        if n \<le> 0 then (0, h) else (n, h \<lparr> th_list := drop (nat n) (th_list h) \<rparr>))"

subsection \<open>The session\<close>

datatype suspended =
    Awaiting_Delivery int jsstr taken_release
  | Awaiting_Snapshot int policy_decision nat
  | Awaiting_Model int policy_decision nat

record turn_result =
  rt_reply :: jsstr
  rt_class :: utterance_class
  rt_released :: "(nat \<times> jsstr \<times> delivery_outcome) option"
  rt_cancelled :: bool
  rt_modelCalled :: bool
  rt_receiptAck :: "jsstr option"
  rt_askWorkerOffer :: bool
  rt_addressedToTalker :: bool
  rt_failed :: bool

datatype talker_effect =
    Deliver nat "nat list" jsstr
  | Ask_Snapshot nat
  | Ask_Model nat
  | Turn_Result turn_result
  | Turn_Rejected

record talker =
  tk_log :: utterance_log
  tk_proposals :: pending_store
  tk_history :: talker_history
  tk_turnCount :: int
  tk_suspended :: "(nat, suspended) jsmap"
  tk_nextCall :: nat

definition talker_init :: "int option \<Rightarrow> talker_history \<Rightarrow> talker" where
  "talker_init maxPendingAgeTurns h =
     \<lparr> tk_log = utterance_log_init None, tk_proposals = pending_store_init maxPendingAgeTurns None,
       tk_history = h \<lparr> th_list := [] \<rparr>, tk_turnCount = 0, tk_suspended = [], tk_nextCall = 0 \<rparr>"

datatype talker_event =
    Operator_Says policy_input
  | Snapshot_Arrives nat
  | Snapshot_Throws nat
  | Model_Replies nat jsstr
  | Model_Throws nat
  | Delivery_Settles nat delivery_outcome
  | Delivery_Throws nat

text \<open>Suspend the turn in a call, and the call's effect.\<close>

definition suspend :: "suspended \<Rightarrow> (nat \<Rightarrow> talker_effect) \<Rightarrow> talker \<Rightarrow> talker \<times> talker_effect list" where
  "suspend c call tk =
     (tk \<lparr> tk_suspended := jm_set (tk_nextCall tk) c (tk_suspended tk), tk_nextCall := tk_nextCall tk + 1 \<rparr>,
      [call (tk_nextCall tk)])"

definition resume :: "nat \<Rightarrow> talker \<Rightarrow> talker" where
  "resume k tk = tk \<lparr> tk_suspended := jm_del k (tk_suspended tk) \<rparr>"

definition say :: "history_role \<Rightarrow> jsstr \<Rightarrow> history_kind \<Rightarrow> int \<Rightarrow> talker \<Rightarrow> talker" where
  "say role content kind turn tk =
     tk \<lparr> tk_history := append_history \<lparr> he_role = role, he_content = content, he_kind = kind, he_turn = turn \<rparr>
                                       (tk_history tk) \<rparr>"

definition trim_history :: "talker \<Rightarrow> talker" where
  "trim_history tk = tk \<lparr> tk_history := snd (maybe_trim (pending_view (tk_proposals tk) \<noteq> None) (tk_history tk)) \<rparr>"

definition conversational_turn :: "policy_decision \<Rightarrow> int \<Rightarrow> nat \<Rightarrow> talker \<Rightarrow> talker \<times> talker_effect list" where
  "conversational_turn decision turn draftRecordId =
     suspend (Awaiting_Snapshot turn decision draftRecordId) Ask_Snapshot"

definition release_turn ::
  "jsstr \<Rightarrow> int \<Rightarrow> ordinal option \<Rightarrow> release_variant \<Rightarrow> talker \<Rightarrow> talker \<times> talker_effect list" where
  "release_turn confirming turn selection variant tk =
     (let take_result = take_for_release turn selection variant (tk_proposals tk);
          tk1 = tk \<lparr> tk_proposals := snd take_result \<rparr> in
      case fst take_result of
        None \<Rightarrow> conversational_turn (plain_conversational_decision confirming Confirm turn) turn 0 tk1
      | Some taken \<Rightarrow>
          suspend (Awaiting_Delivery turn confirming taken)
            (\<lambda>k. Deliver k (tr_utteranceIds taken) (tr_text taken)) tk1)"

definition mechanical_turn :: "policy_decision \<Rightarrow> jsstr \<Rightarrow> int \<Rightarrow> talker \<Rightarrow> talker \<times> talker_effect list" where
  "mechanical_turn decision reply turn tk =
     (let tk1 = (case dc_kind decision of
                   Refuse_Lapsed _ \<Rightarrow> tk \<lparr> tk_proposals := mark_resurfaced turn (tk_proposals tk) \<rparr> | _ \<Rightarrow> tk);
          tk2 = say User_Role (dc_utterance decision) Operator_Entry turn tk1;
          tk3 = trim_history (say Assistant_Role reply Mechanical_Entry turn tk2) in
      (tk3, [Turn_Result \<lparr> rt_reply = reply, rt_class = dc_class decision, rt_released = None, rt_cancelled = False,
               rt_modelCalled = False, rt_receiptAck = None, rt_askWorkerOffer = False,
               rt_addressedToTalker = False, rt_failed = False \<rparr>]))"

definition cancel_turn :: "policy_decision \<Rightarrow> conversational_plan \<Rightarrow> int \<Rightarrow> nat \<Rightarrow> talker \<Rightarrow> talker \<times> talker_effect list" where
  "cancel_turn decision plan turn recordId tk =
     (let tk1 = tk \<lparr> tk_proposals := snd (cancel_draft (tk_proposals tk)) \<rparr> in
      case cp_cancelResidue plan of
        Some (residue, True) \<Rightarrow>
          let rec = log_record residue turn (tk_log tk1) in
          conversational_turn decision turn (vu_id (fst rec)) (tk1 \<lparr> tk_log := snd rec \<rparr>)
      | _ \<Rightarrow> conversational_turn decision turn recordId tk1)"

definition spoken_turn ::
  "text_env \<Rightarrow> policy_decision \<Rightarrow> conversational_plan \<Rightarrow> int \<Rightarrow> nat \<Rightarrow> talker \<Rightarrow> talker \<times> talker_effect list" where
  "spoken_turn env decision plan turn recordId tk =
     (let tk1 = (if cp_path plan = Worker_Directed
                 then tk \<lparr> tk_proposals := snd (append_to_draft env recordId (dc_utterance decision) turn (tk_proposals tk)) \<rparr>
                 else tk) in
      conversational_turn decision turn recordId tk1)"

definition execute_decision ::
  "text_env \<Rightarrow> policy_decision \<Rightarrow> int \<Rightarrow> nat \<Rightarrow> talker \<Rightarrow> talker \<times> talker_effect list" where
  "execute_decision env decision turn recordId tk =
     (case dc_kind decision of
        Release selection variant \<Rightarrow> release_turn (dc_utterance decision) turn selection variant tk
      | Cancel_Turn plan \<Rightarrow> cancel_turn decision plan turn recordId tk
      | Conversational plan \<Rightarrow> spoken_turn env decision plan turn recordId tk
      | Refuse_Lapsed reply \<Rightarrow> mechanical_turn decision reply turn tk
      | Refuse_Stale_Card reply \<Rightarrow> mechanical_turn decision reply turn tk
      | Refuse_Original_Not_Offered reply \<Rightarrow> mechanical_turn decision reply turn tk
      | Clarify_Selection reply \<Rightarrow> mechanical_turn decision reply turn tk
      | Nothing_Pending reply \<Rightarrow> mechanical_turn decision reply turn tk
      | Nothing_To_Cancel reply \<Rightarrow> mechanical_turn decision reply turn tk)"

definition handle_operator_turn :: "text_env \<Rightarrow> policy_input \<Rightarrow> talker \<Rightarrow> talker \<times> talker_effect list" where
  "handle_operator_turn env input tk =
     (if js_trim (in_utterance input) = [] then (tk, [Turn_Rejected])
      else
        let turn = tk_turnCount tk + 1;
            ticked = tick_turn turn (tk_proposals tk);
            rec = log_record (in_utterance input) turn (tk_log tk);
            tk1 = tk \<lparr> tk_turnCount := turn, tk_proposals := ticked, tk_log := snd rec \<rparr> in
        execute_decision env (decide_operator_turn env turn ticked input) turn (vu_id (fst rec)) tk1)"

text \<open>The continuation after the snapshot: the operator's words join the history, the model is asked.\<close>

definition after_snapshot :: "int \<Rightarrow> policy_decision \<Rightarrow> nat \<Rightarrow> talker \<Rightarrow> talker \<times> talker_effect list" where
  "after_snapshot turn decision draftRecordId tk =
     suspend (Awaiting_Model turn decision draftRecordId) Ask_Model
       (say User_Role (dc_utterance decision) Operator_Entry turn tk)"

definition receipt_due :: "bool \<Rightarrow> utterance_log \<Rightarrow> jsstr option \<times> utterance_log" where
  "receipt_due opensBatch l =
     (if opensBatch
      then (receipt_ack_for (case fst (take_receipt l) of Some n \<Rightarrow> n | None \<Rightarrow> 0), snd (take_receipt l))
      else (None, l))"

definition after_model ::
  "text_env \<Rightarrow> int \<Rightarrow> policy_decision \<Rightarrow> nat \<Rightarrow> jsstr option \<Rightarrow> talker \<Rightarrow> talker \<times> talker_effect list" where
  "after_model env turn decision draftRecordId answer tk =
     (let reply = (case answer of Some t \<Rightarrow> t | None \<Rightarrow> model_failure_reply) in
      case decide_after_model_reply decision reply of
        Inl _ \<Rightarrow> (tk, [Turn_Rejected])
      | Inr post \<Rightarrow>
          let tk1 = (case pm_append post of
                       Some (t, _) \<Rightarrow> tk \<lparr> tk_proposals := snd (append_to_draft env draftRecordId t turn (tk_proposals tk)) \<rparr>
                     | None \<Rightarrow> tk);
              tk2 = trim_history (say Assistant_Role (pm_reply post) Talker_Entry turn tk1);
              receipt = receipt_due (pm_opensBatch post) (tk_log tk2) in
          (tk2 \<lparr> tk_log := snd receipt \<rparr>,
           [Turn_Result \<lparr> rt_reply = pm_reply post, rt_class = dc_class decision, rt_released = None,
              rt_cancelled = (case spoken_plan (dc_kind decision) of Some p \<Rightarrow> cp_cancelled p | None \<Rightarrow> False),
              rt_modelCalled = (answer \<noteq> None), rt_receiptAck = fst receipt,
              rt_askWorkerOffer = pm_askWorkerOffer post, rt_addressedToTalker = pm_addressedToTalker post,
              rt_failed = (answer = None) \<rparr>]))"

definition after_delivery ::
  "int \<Rightarrow> jsstr \<Rightarrow> taken_release \<Rightarrow> delivery_outcome \<Rightarrow> talker \<Rightarrow> talker \<times> talker_effect list" where
  "after_delivery turn confirming taken d tk =
     (let tk1 = tk \<lparr> tk_proposals := record_released \<lparr> rr_utteranceId = tr_utteranceId taken, rr_text = tr_text taken,
                          rr_outcome = describe_outcome d, rr_turn = turn \<rparr> (tk_proposals tk) \<rparr>;
          tk2 = trim_history (say Assistant_Role (ack_for_outcome d) Mechanical_Entry turn
                  (say User_Role confirming Operator_Entry turn tk1)) in
      (tk2, [Turn_Result \<lparr> rt_reply = ack_for_outcome d, rt_class = Confirm,
               rt_released = Some (tr_utteranceId taken, tr_text taken, d), rt_cancelled = False,
               rt_modelCalled = False, rt_receiptAck = None, rt_askWorkerOffer = False,
               rt_addressedToTalker = False, rt_failed = False \<rparr>]))"

text \<open>An answer for a call that is not open changes nothing.\<close>

fun talker_step :: "text_env \<Rightarrow> talker_event \<Rightarrow> talker \<Rightarrow> talker \<times> talker_effect list" where
  "talker_step env (Operator_Says input) tk = handle_operator_turn env input tk"
| "talker_step env (Snapshot_Arrives k) tk =
     (case jm_get (tk_suspended tk) k of
        Some (Awaiting_Snapshot turn decision n) \<Rightarrow> after_snapshot turn decision n (resume k tk)
      | _ \<Rightarrow> (tk, []))"
| "talker_step env (Snapshot_Throws k) tk =
     (case jm_get (tk_suspended tk) k of
        Some (Awaiting_Snapshot turn decision n) \<Rightarrow> (resume k tk, [Turn_Rejected])
      | _ \<Rightarrow> (tk, []))"
| "talker_step env (Model_Replies k answer) tk =
     (case jm_get (tk_suspended tk) k of
        Some (Awaiting_Model turn decision n) \<Rightarrow> after_model env turn decision n (Some answer) (resume k tk)
      | _ \<Rightarrow> (tk, []))"
| "talker_step env (Model_Throws k) tk =
     (case jm_get (tk_suspended tk) k of
        Some (Awaiting_Model turn decision n) \<Rightarrow> after_model env turn decision n None (resume k tk)
      | _ \<Rightarrow> (tk, []))"
| "talker_step env (Delivery_Settles k d) tk =
     (case jm_get (tk_suspended tk) k of
        Some (Awaiting_Delivery turn confirming taken) \<Rightarrow> after_delivery turn confirming taken d (resume k tk)
      | _ \<Rightarrow> (tk, []))"
| "talker_step env (Delivery_Throws k) tk =
     (case jm_get (tk_suspended tk) k of
        Some (Awaiting_Delivery turn confirming taken) \<Rightarrow> (resume k tk, [Turn_Rejected])
      | _ \<Rightarrow> (tk, []))"

fun talker_run :: "text_env \<Rightarrow> talker_event list \<Rightarrow> talker \<Rightarrow> talker \<times> talker_effect list" where
  "talker_run env [] tk = (tk, [])"
| "talker_run env (e # es) tk =
     (let s1 = talker_step env e tk; rest = talker_run env es (fst s1) in (fst rest, snd s1 @ snd rest))"

fun delivered_ids :: "talker_effect list \<Rightarrow> nat list" where
  "delivered_ids [] = []"
| "delivered_ids (Deliver _ ids _ # es) = ids @ delivered_ids es"
| "delivered_ids (_ # es) = delivered_ids es"

subsection \<open>Only a confirmation sends\<close>

definition delivers :: "talker_effect \<Rightarrow> bool" where
  "delivers e = (case e of Deliver _ _ _ \<Rightarrow> True | _ \<Rightarrow> False)"

lemma conversational_silent: "e \<in> set (snd (conversational_turn decision turn n tk)) \<Longrightarrow> \<not> delivers e"
  by (simp add: conversational_turn_def suspend_def delivers_def)

lemma mechanical_silent: "e \<in> set (snd (mechanical_turn decision reply turn tk)) \<Longrightarrow> \<not> delivers e"
  by (simp add: mechanical_turn_def delivers_def Let_def)

lemma resumed_silent:
  "e \<in> set (snd (after_snapshot turn decision n tk)) \<Longrightarrow> \<not> delivers e"
  "e \<in> set (snd (after_model env turn decision n answer tk)) \<Longrightarrow> \<not> delivers e"
  "e \<in> set (snd (after_delivery turn confirming taken d tk)) \<Longrightarrow> \<not> delivers e"
  by (auto simp: after_snapshot_def suspend_def after_model_def after_delivery_def delivers_def Let_def
      split: sum.splits)

lemma execute_delivers:
  assumes "Deliver k ids words \<in> set (snd (execute_decision env decision turn n tk))"
  shows "\<exists>selection variant taken. dc_kind decision = Release selection variant
     \<and> fst (take_for_release turn selection variant (tk_proposals tk)) = Some taken
     \<and> ids = tr_utteranceIds taken \<and> words = tr_text taken"
proof (cases "dc_kind decision")
  case (Release selection variant)
  then show ?thesis
    using assms by (auto simp: execute_decision_def release_turn_def suspend_def conversational_turn_def Let_def
        split: option.splits)
next
  case (Cancel_Turn plan)
  then show ?thesis
    using assms conversational_silent
    by (fastforce simp: execute_decision_def cancel_turn_def delivers_def Let_def split: option.splits prod.splits bool.splits)
next
  case (Conversational plan)
  then show ?thesis
    using assms conversational_silent by (fastforce simp: execute_decision_def spoken_turn_def delivers_def Let_def)
qed (use assms mechanical_silent in \<open>fastforce simp: execute_decision_def delivers_def\<close>)+

lemma tick_keeps_utterances [simp]: "draft_utterances (tick_turn turn s) = draft_utterances s"
  by (auto simp: draft_utterances_def held_draft_def tick_turn_def split: option.splits)

text \<open>C1: Only the operator's own confirmation sends: whatever turns are open, a step calls the delivery adapter only
  when it starts a turn whose utterance is classified as a confirmation, the held draft is fresh and
  an echoed card is current, and what it sends is exactly the text of the selected parts of that
  draft; no reply of the model and no other event sends anything.\<close>
theorem only_confirmation_delivers:
  assumes "Deliver k ids words \<in> set (snd (talker_step env event tk))"
  shows "\<exists>input us selection variant.
     event = Operator_Says input \<and> turn_class env (in_utterance input) = Confirm
     \<and> draft_utterances (tk_proposals tk) = Some us
     \<and> \<not> is_lapsed (tk_turnCount tk + 1) (tick_turn (tk_turnCount tk + 1) (tk_proposals tk))
     \<and> (case in_proposalRef input of None \<Rightarrow> True
        | Some echo \<Rightarrow> identity_matches env echo (tick_turn (tk_turnCount tk + 1) (tk_proposals tk)))
     \<and> (variant = Tidied \<or> pd_cleaned (describe_proposal env us))
     \<and> ids = map de_id (selected_parts selection us)
     \<and> words = tr_text (taken_of variant (selected_parts selection us))"
proof (cases event)
  case (Operator_Says input)
  let ?turn = "tk_turnCount tk + 1"
  let ?ticked = "tick_turn ?turn (tk_proposals tk)"
  let ?decision = "decide_operator_turn env ?turn ?ticked input"
  obtain tk1 n where "Deliver k ids words \<in> set (snd (execute_decision env ?decision ?turn n tk1))"
    and p: "tk_proposals tk1 = ?ticked"
    using assms Operator_Says by (auto simp: handle_operator_turn_def Let_def split: if_splits)
  then obtain selection variant taken where r: "dc_kind ?decision = Release selection variant"
    and t: "fst (take_for_release ?turn selection variant ?ticked) = Some taken"
    and out: "ids = tr_utteranceIds taken" "words = tr_text taken"
    using execute_delivers p by metis
  obtain us where us: "draft_utterances ?ticked = Some us" "\<not> is_lapsed ?turn ?ticked"
      "turn_class env (in_utterance input) = Confirm"
      "case in_proposalRef input of None \<Rightarrow> True | Some echo \<Rightarrow> identity_matches env echo ?ticked"
      "variant = Tidied \<or> pd_cleaned (describe_proposal env us)"
      "fst (take_for_release ?turn selection variant ?ticked) = Some (taken_of variant (selected_parts selection us))"
    using release_live [OF r] by blast
  then have "taken = taken_of variant (selected_parts selection us)" using t by simp
  with us out Operator_Says show ?thesis by (auto simp: taken_of_def)
qed (use assms resumed_silent in \<open>fastforce simp: delivers_def split: option.splits suspended.splits\<close>)+

subsection \<open>Nothing is delivered twice\<close>

definition can_append :: "policy_decision \<Rightarrow> bool" where
  "can_append decision =
     (case spoken_plan (dc_kind decision) of
        None \<Rightarrow> False
      | Some p \<Rightarrow> cp_draftCandidate p \<noteq> None \<or> cp_offerCandidate p \<noteq> None)"

definition owed_id :: "suspended \<Rightarrow> nat option" where
  "owed_id w = (case w of
      Awaiting_Delivery _ _ _ \<Rightarrow> None
    | Awaiting_Snapshot _ decision n \<Rightarrow> if can_append decision then Some n else None
    | Awaiting_Model _ decision n \<Rightarrow> if can_append decision then Some n else None)"

definition held_ids :: "pending_store \<Rightarrow> nat list" where
  "held_ids s = (case draft_utterances s of None \<Rightarrow> [] | Some us \<Rightarrow> map de_id us)"

text \<open>Every utterance id is in one place: delivered, held in the draft, or owed to a suspended turn.\<close>

definition ids_ok :: "nat list \<Rightarrow> talker \<Rightarrow> bool" where
  "ids_ok sent tk \<longleftrightarrow>
     distinct (sent @ held_ids (tk_proposals tk)) \<and>
     (\<forall>n \<in> set (sent @ held_ids (tk_proposals tk)). n < ul_nextId (tk_log tk)) \<and>
     (\<forall>k w n. jm_get (tk_suspended tk) k = Some w \<and> owed_id w = Some n \<longrightarrow>
        n < ul_nextId (tk_log tk) \<and> n \<notin> set (sent @ held_ids (tk_proposals tk)) \<and>
        (\<forall>k' w'. jm_get (tk_suspended tk) k' = Some w' \<and> owed_id w' = Some n \<longrightarrow> k' = k))"

lemma post_plan_append: "pm_append (post_plan plan r) \<noteq> None \<Longrightarrow> cp_draftCandidate plan \<noteq> None \<or> cp_offerCandidate plan \<noteq> None"
  by (auto simp: post_plan_def Let_def split: if_splits)

lemma held_ids_append:
  "held_ids (snd (append_to_draft env i t turn s)) = [i] \<or>
   held_ids (snd (append_to_draft env i t turn s)) = held_ids s @ [i]"
  by (auto simp: append_to_draft_def held_ids_def draft_utterances_def held_draft_def entry_of_def Let_def
      split: option.splits if_splits)

lemma held_ids_simps [simp]:
  "held_ids (tick_turn turn s) = held_ids s"
  "held_ids (mark_resurfaced turn s) = held_ids s"
  "held_ids (snd (cancel_draft s)) = []"
  "held_ids (record_released r s) = held_ids s"
  by (auto simp: held_ids_def draft_utterances_def held_draft_def tick_turn_def mark_resurfaced_def cancel_draft_def
      record_released_def split: option.splits)

lemma held_ids_take:
  assumes "take_for_release turn selection v s = (r, s')" and "distinct (held_ids s)"
  shows "case r of None \<Rightarrow> held_ids s' = held_ids s
    | Some t \<Rightarrow> distinct (tr_utteranceIds t @ held_ids s') \<and> set (tr_utteranceIds t @ held_ids s') = set (held_ids s)"
proof (cases r)
  case None
  then show ?thesis
    using take_for_release_none assms(1) by (auto simp: held_ids_def)
next
  case (Some t)
  obtain d where d: "held_draft s = Some d"
    and sel: "case selection of
          None \<Rightarrow> t = taken_of v (od_utterances d) \<and> s' = s \<lparr> ps_draft := None \<rparr>
        | Some position \<Rightarrow> \<exists>i. resolve_ordinal_index position (length (od_utterances d)) = Some i
            \<and> t = taken_of v [od_utterances d ! i]
            \<and> s' = (if splice_out i (od_utterances d) = [] then s \<lparr> ps_draft := None \<rparr>
                 else s \<lparr> ps_draft := Some (d \<lparr> od_utterances := splice_out i (od_utterances d),
                            od_version := ps_nextVersion s + 1 \<rparr>), ps_nextVersion := ps_nextVersion s + 1 \<rparr>)"
    using take_for_release_some assms(1) unfolding Some by blast
  have dist: "distinct (map de_id (od_utterances d))"
    using assms(2) d by (simp add: held_ids_def draft_utterances_def)
  show ?thesis
  proof (cases selection)
    case None
    with sel d dist Some show ?thesis
      by (simp add: taken_of_def held_ids_def draft_utterances_def held_draft_def)
  next
    case (Some position)
    then obtain i where "resolve_ordinal_index position (length (od_utterances d)) = Some i"
      and t: "t = taken_of v [od_utterances d ! i]"
      and s': "s' = (if splice_out i (od_utterances d) = [] then s \<lparr> ps_draft := None \<rparr>
                 else s \<lparr> ps_draft := Some (d \<lparr> od_utterances := splice_out i (od_utterances d),
                            od_version := ps_nextVersion s + 1 \<rparr>), ps_nextVersion := ps_nextVersion s + 1 \<rparr>)"
      using sel by auto
    then have lt: "i < length (od_utterances d)" using resolve_ordinal_lt by blast
    have h: "held_ids s' = map de_id (splice_out i (od_utterances d))"
      by (simp add: s' held_ids_def draft_utterances_def held_draft_def)
    have "set (map de_id (od_utterances d)) =
        insert (de_id (od_utterances d ! i)) (de_id ` set (splice_out i (od_utterances d)))"
      by (subst splice_out_split [OF lt]) (auto simp: splice_out_def)
    moreover have "set (held_ids s) = set (map de_id (od_utterances d))"
      by (simp add: held_ids_def draft_utterances_def d)
    ultimately show ?thesis
      using splice_out_notin [OF dist lt] distinct_map_splice_out [OF dist, of i] \<open>r = Some t\<close>
      by (simp add: t h taken_of_def)
  qed
qed

text \<open>Steps that add nothing: the draft keeps or loses ids, a suspended turn goes away.\<close>

lemma ids_ok_weaken:
  assumes "ids_ok sent tk"
    and "distinct (held_ids (tk_proposals tk'))" "set (held_ids (tk_proposals tk')) \<subseteq> set (held_ids (tk_proposals tk))"
    and "ul_nextId (tk_log tk) \<le> ul_nextId (tk_log tk')"
    and "\<And>k w. jm_get (tk_suspended tk') k = Some w \<Longrightarrow> owed_id w \<noteq> None \<Longrightarrow> jm_get (tk_suspended tk) k = Some w"
  shows "ids_ok sent tk'"
proof -
  have d: "distinct (sent @ held_ids (tk_proposals tk'))" using assms(1-3) by (auto simp: ids_ok_def)
  have sub: "set (sent @ held_ids (tk_proposals tk')) \<subseteq> set (sent @ held_ids (tk_proposals tk))" using assms(3) by auto
  have lt: "\<forall>n \<in> set (sent @ held_ids (tk_proposals tk')). n < ul_nextId (tk_log tk')"
    using assms(1,4) sub unfolding ids_ok_def by (meson order_less_le_trans subsetD)
  have "n < ul_nextId (tk_log tk') \<and> n \<notin> set (sent @ held_ids (tk_proposals tk')) \<and>
        (\<forall>k' w'. jm_get (tk_suspended tk') k' = Some w' \<and> owed_id w' = Some n \<longrightarrow> k' = k)"
    if "jm_get (tk_suspended tk') k = Some w" "owed_id w = Some n" for k w n
  proof -
    have "jm_get (tk_suspended tk) k = Some w" using assms(5) that by simp
    then have "n < ul_nextId (tk_log tk)" "n \<notin> set (sent @ held_ids (tk_proposals tk))"
      "\<forall>k' w'. jm_get (tk_suspended tk) k' = Some w' \<and> owed_id w' = Some n \<longrightarrow> k' = k"
      using assms(1) that(2) unfolding ids_ok_def by blast+
    then show ?thesis using assms(4,5) sub by fastforce
  qed
  with d lt show ?thesis unfolding ids_ok_def by blast
qed

text \<open>A step that suspends a turn, which may owe an id not used anywhere yet.\<close>

lemma ids_ok_suspend:
  assumes "ids_ok sent tk"
    and "\<And>n. owed_id w = Some n \<Longrightarrow> n < ul_nextId (tk_log tk) \<and> n \<notin> set (sent @ held_ids (tk_proposals tk))
          \<and> (\<forall>k' w'. jm_get (tk_suspended tk) k' = Some w' \<and> owed_id w' = Some n \<longrightarrow> k' = tk_nextCall tk)"
  shows "ids_ok sent (fst (suspend w call tk))"
  using assms unfolding ids_ok_def suspend_def by (auto split: if_splits)

definition unused_id :: "nat \<Rightarrow> nat list \<Rightarrow> talker \<Rightarrow> bool" where
  "unused_id n sent tk \<longleftrightarrow> n < ul_nextId (tk_log tk) \<and> n \<notin> set (sent @ held_ids (tk_proposals tk)) \<and>
     (\<forall>k w. jm_get (tk_suspended tk) k = Some w \<longrightarrow> owed_id w \<noteq> Some n)"

lemma ids_ok_suspend_unused:
  "ids_ok sent tk \<Longrightarrow> owed_id w = None \<or> (\<exists>n. owed_id w = Some n \<and> unused_id n sent tk)
   \<Longrightarrow> ids_ok sent (fst (suspend w call tk))"
  by (rule ids_ok_suspend) (auto simp: unused_id_def)

lemma ids_ok_append:
  assumes "ids_ok sent tk" and "unused_id n sent tk"
  shows "ids_ok sent (tk \<lparr> tk_proposals := snd (append_to_draft env n t turn (tk_proposals tk)) \<rparr>)"
  using held_ids_append [of env n t turn "tk_proposals tk"] assms
  by (auto simp: ids_ok_def unused_id_def)

lemma ids_ok_record:
  assumes "ids_ok sent tk" and "tk_log tk' = snd (log_record words turn (tk_log tk))"
    and "held_ids (tk_proposals tk') = held_ids (tk_proposals tk)" and "tk_suspended tk' = tk_suspended tk"
  shows "ids_ok sent tk' \<and> unused_id (vu_id (fst (log_record words turn (tk_log tk)))) sent tk'"
proof
  have "ul_nextId (tk_log tk') = ul_nextId (tk_log tk) + 1" and i: "vu_id (fst (log_record words turn (tk_log tk))) = ul_nextId (tk_log tk)"
    using assms(2) by (simp_all add: log_record_def Let_def)
  then have lt: "n < ul_nextId (tk_log tk')" if "n < ul_nextId (tk_log tk)" for n using that by simp
  show "ids_ok sent tk'"
    by (rule ids_ok_weaken [OF assms(1)]) (use assms in \<open>auto simp: ids_ok_def log_record_def Let_def\<close>)
  show "unused_id (vu_id (fst (log_record words turn (tk_log tk)))) sent tk'"
  proof -
    have "\<forall>k w. jm_get (tk_suspended tk) k = Some w \<longrightarrow> owed_id w \<noteq> Some (ul_nextId (tk_log tk))"
      using assms(1) less_irrefl unfolding ids_ok_def by blast
    moreover have "ul_nextId (tk_log tk) \<notin> set (sent @ held_ids (tk_proposals tk))"
      using assms(1) less_irrefl unfolding ids_ok_def by blast
    moreover have "ul_nextId (tk_log tk) < ul_nextId (tk_log tk')"
      using assms(2) by (simp add: log_record_def Let_def)
    ultimately show ?thesis unfolding unused_id_def i assms(3,4) by blast
  qed
qed

lemma ids_ok_cong:
  assumes "ids_ok sent tk" and "distinct (sent' @ held_ids (tk_proposals tk'))"
    and "set (sent' @ held_ids (tk_proposals tk')) = set (sent @ held_ids (tk_proposals tk))"
    and "tk_log tk' = tk_log tk" and "tk_suspended tk' = tk_suspended tk"
  shows "ids_ok sent' tk'"
  using assms by (simp only: ids_ok_def) blast

lemma ids_ok_take:
  assumes "ids_ok sent tk" and "take_for_release turn selection v (tk_proposals tk) = (Some t, s')"
  shows "ids_ok (sent @ tr_utteranceIds t) (tk \<lparr> tk_proposals := s' \<rparr>)"
proof -
  have h: "distinct (tr_utteranceIds t @ held_ids s')"
    "set (tr_utteranceIds t @ held_ids s') = set (held_ids (tk_proposals tk))"
    using held_ids_take [OF assms(2)] assms(1) by (auto simp: ids_ok_def)
  have same: "set ((sent @ tr_utteranceIds t) @ held_ids s') = set (sent @ held_ids (tk_proposals tk))"
    using h(2) by auto
  have "distinct ((sent @ tr_utteranceIds t) @ held_ids s')"
    using h assms(1) unfolding ids_ok_def by auto
  then show ?thesis by (intro ids_ok_cong [OF assms(1)]) (use same in simp_all)
qed

lemma ids_ok_take_none:
  assumes "ids_ok sent tk" and "take_for_release turn selection v (tk_proposals tk) = (None, s')"
  shows "ids_ok sent (tk \<lparr> tk_proposals := s' \<rparr>)"
  using held_ids_take [OF assms(2)] assms(1) by (intro ids_ok_weaken [OF assms(1)]) (auto simp: ids_ok_def)

lemma owed_conversational:
  "owed_id (Awaiting_Snapshot turn decision n) = None \<or> owed_id (Awaiting_Snapshot turn decision n) = Some n"
  by (simp add: owed_id_def)

lemma ids_ok_conversational:
  assumes "ids_ok sent tk" and "\<not> can_append decision \<or> unused_id n sent tk"
  shows "ids_ok sent (fst (conversational_turn decision turn n tk))"
  unfolding conversational_turn_def
  by (rule ids_ok_suspend_unused [OF assms(1)]) (use assms(2) in \<open>auto simp: owed_id_def\<close>)

lemma ids_ok_release:
  assumes "ids_ok sent tk"
  shows "ids_ok (sent @ delivered_ids (snd (release_turn confirming turn selection v tk)))
           (fst (release_turn confirming turn selection v tk))"
proof (cases "take_for_release turn selection v (tk_proposals tk)")
  case (Pair r s')
  show ?thesis
  proof (cases r)
    case None
    have "\<not> can_append (plain_conversational_decision confirming Confirm turn)"
      by (simp add: can_append_def plain_conversational_decision_def spoken_plan_def plain_plan_def)
    then have "ids_ok sent (fst (conversational_turn (plain_conversational_decision confirming Confirm turn) turn 0
        (tk \<lparr> tk_proposals := s' \<rparr>)))"
      using ids_ok_take_none [OF assms] Pair None by (intro ids_ok_conversational) auto
    then show ?thesis
      by (simp add: release_turn_def Pair None Let_def) (simp add: conversational_turn_def suspend_def)
  next
    case (Some t)
    have "ids_ok (sent @ tr_utteranceIds t) (fst (suspend (Awaiting_Delivery turn confirming t)
            (\<lambda>k. Deliver k (tr_utteranceIds t) (tr_text t)) (tk \<lparr> tk_proposals := s' \<rparr>)))"
      by (rule ids_ok_suspend_unused) (use ids_ok_take [OF assms] Pair Some in \<open>auto simp: owed_id_def\<close>)
    then show ?thesis by (simp add: release_turn_def Pair Some Let_def) (simp add: suspend_def)
  qed
qed

lemma ids_ok_mechanical:
  assumes "ids_ok sent tk"
  shows "ids_ok sent (fst (mechanical_turn decision reply turn tk))"
    and "delivered_ids (snd (mechanical_turn decision reply turn tk)) = []"
  using assms
  by (auto intro!: ids_ok_weaken [OF assms]
      simp: mechanical_turn_def say_def trim_history_def Let_def ids_ok_def split: decision_kind.splits)

lemma worker_directed_owes_nothing:
  assumes "dc_kind (decide_operator_turn env turn s input) = Conversational plan" and "cp_path plan = Worker_Directed"
  shows "cp_draftCandidate plan = None \<and> cp_offerCandidate plan = None"
  using assms
  by (auto simp: decide_operator_turn_def decide_from_state_def decide_confirm_def decide_cancel_def
      decide_question_def decide_statement_def Let_def split: utterance_class.splits option.splits if_splits)

lemma ids_ok_execute:
  assumes ok: "ids_ok sent tk" and n: "unused_id n sent tk"
    and d: "decision = decide_operator_turn env turn s input"
  shows "ids_ok (sent @ delivered_ids (snd (execute_decision env decision turn n tk)))
           (fst (execute_decision env decision turn n tk))"
proof (cases "dc_kind decision")
  case (Release selection v)
  with ids_ok_release [OF ok] show ?thesis by (simp add: execute_decision_def)
next
  case (Cancel_Turn plan)
  let ?tk1 = "tk \<lparr> tk_proposals := snd (cancel_draft (tk_proposals tk)) \<rparr>"
  have ok1: "ids_ok sent ?tk1" by (rule ids_ok_weaken [OF ok]) auto
  have n1: "unused_id n sent ?tk1" using n by (simp add: unused_id_def)
  have silent: "delivered_ids (snd (conversational_turn decision turn m t)) = []" for m t
    by (simp add: conversational_turn_def suspend_def)
  have plain: "ids_ok sent (fst (conversational_turn decision turn n ?tk1))"
    by (rule ids_ok_conversational [OF ok1]) (use n1 in simp)
  have residue: "ids_ok sent (fst (conversational_turn decision turn (vu_id (fst (log_record r turn (tk_log ?tk1))))
           (?tk1 \<lparr> tk_log := snd (log_record r turn (tk_log ?tk1)) \<rparr>)))" for r
    using ids_ok_record [OF ok1, of "?tk1 \<lparr> tk_log := snd (log_record r turn (tk_log ?tk1)) \<rparr>" r turn]
    by (intro ids_ok_conversational) auto
  show ?thesis
    using plain residue silent Cancel_Turn
    by (auto simp: execute_decision_def cancel_turn_def Let_def split: option.split prod.split bool.split)
next
  case (Conversational plan)
  have silent: "delivered_ids (snd (conversational_turn decision turn m t)) = []" for m t
    by (simp add: conversational_turn_def suspend_def)
  show ?thesis
  proof (cases "cp_path plan = Worker_Directed")
    case True
    have "\<not> can_append decision"
      using worker_directed_owes_nothing [of env turn s input plan] Conversational True d
      by (simp add: can_append_def spoken_plan_def)
    moreover note ids_ok_append [OF ok n]
    ultimately show ?thesis
      using Conversational True silent
      by (simp add: execute_decision_def spoken_turn_def Let_def ids_ok_conversational)
  next
    case False
    with Conversational silent ids_ok_conversational [OF ok] n show ?thesis
      by (simp add: execute_decision_def spoken_turn_def Let_def)
  qed
qed (use ids_ok_mechanical [OF ok] in \<open>simp_all add: execute_decision_def\<close>)

lemma ids_ok_operator:
  assumes "ids_ok sent tk"
  shows "ids_ok (sent @ delivered_ids (snd (handle_operator_turn env input tk))) (fst (handle_operator_turn env input tk))"
proof (cases "js_trim (in_utterance input) = []")
  case True
  with assms show ?thesis by (simp add: handle_operator_turn_def)
next
  case False
  let ?turn = "tk_turnCount tk + 1"
  let ?rec = "log_record (in_utterance input) ?turn (tk_log tk)"
  let ?tk1 = "tk \<lparr> tk_turnCount := ?turn, tk_proposals := tick_turn ?turn (tk_proposals tk), tk_log := snd ?rec \<rparr>"
  have "ids_ok sent ?tk1 \<and> unused_id (vu_id (fst ?rec)) sent ?tk1"
    by (rule ids_ok_record [OF assms]) simp_all
  then have "ids_ok (sent @ delivered_ids (snd (execute_decision env
        (decide_operator_turn env ?turn (tick_turn ?turn (tk_proposals tk)) input) ?turn (vu_id (fst ?rec)) ?tk1)))
      (fst (execute_decision env
        (decide_operator_turn env ?turn (tick_turn ?turn (tk_proposals tk)) input) ?turn (vu_id (fst ?rec)) ?tk1))"
    by (intro ids_ok_execute) auto
  with False show ?thesis by (simp add: handle_operator_turn_def Let_def)
qed

lemma resume_ok:
  assumes "ids_ok sent tk"
  shows "ids_ok sent (resume k tk)"
  by (rule ids_ok_weaken [OF assms]) (use assms in \<open>auto simp: resume_def ids_ok_def split: if_splits\<close>)

lemma resume_unused:
  assumes "ids_ok sent tk" and "jm_get (tk_suspended tk) k = Some w" and "owed_id w = Some n"
  shows "unused_id n sent (resume k tk)"
  using assms unfolding ids_ok_def unused_id_def resume_def by (auto split: if_splits)

lemma ids_ok_say [simp]: "ids_ok sent (say role c kind turn tk) = ids_ok sent tk"
  "unused_id n sent (say role c kind turn tk) = unused_id n sent tk"
  by (simp_all add: ids_ok_def unused_id_def say_def)

lemma ids_ok_trim [simp]: "ids_ok sent (trim_history tk) = ids_ok sent tk"
  by (simp add: ids_ok_def trim_history_def)

lemma receipt_next [simp]: "ul_nextId (snd (receipt_due b l)) = ul_nextId l"
  by (simp add: receipt_due_def take_receipt_def Let_def)

lemma ids_ok_receipt: "ids_ok sent t \<Longrightarrow> ids_ok sent (t \<lparr> tk_log := snd (receipt_due b (tk_log t)) \<rparr>)"
  by (rule ids_ok_weaken [of sent t]) (auto simp: ids_ok_def)

lemma ids_ok_after_model:
  assumes "ids_ok sent tk" and "can_append decision \<longrightarrow> unused_id n sent tk"
  shows "ids_ok sent (fst (after_model env turn decision n answer tk))"
    and "delivered_ids (snd (after_model env turn decision n answer tk)) = []"
proof -
  show "delivered_ids (snd (after_model env turn decision n answer tk)) = []"
    by (simp add: after_model_def Let_def split: sum.split)
  let ?reply = "case answer of Some t \<Rightarrow> t | None \<Rightarrow> model_failure_reply"
  show "ids_ok sent (fst (after_model env turn decision n answer tk))"
  proof (cases "decide_after_model_reply decision ?reply")
    case (Inl e)
    with assms show ?thesis by (simp add: after_model_def)
  next
    case (Inr post)
    let ?tk1 = "case pm_append post of
        Some (t, _) \<Rightarrow> tk \<lparr> tk_proposals := snd (append_to_draft env n t turn (tk_proposals tk)) \<rparr> | None \<Rightarrow> tk"
    have "ids_ok sent ?tk1"
    proof (cases "pm_append post")
      case (Some a)
      obtain plan where "spoken_plan (dc_kind decision) = Some plan" "post = post_plan plan ?reply"
        using Inr by (auto simp: decide_after_model_reply_def split: option.splits)
      then have "can_append decision"
        using post_plan_append [of plan ?reply] Some by (simp add: can_append_def)
      with assms Some ids_ok_append show ?thesis by (simp add: split_beta)
    qed (use assms in simp)
    then have "ids_ok sent (trim_history (say Assistant_Role (pm_reply post) Talker_Entry turn ?tk1))" by simp
    then have "ids_ok sent (trim_history (say Assistant_Role (pm_reply post) Talker_Entry turn ?tk1)
        \<lparr> tk_log := snd (receipt_due (pm_opensBatch post)
            (tk_log (trim_history (say Assistant_Role (pm_reply post) Talker_Entry turn ?tk1)))) \<rparr>)"
      by (rule ids_ok_receipt)
    with Inr show ?thesis by (simp add: after_model_def Let_def)
  qed
qed

lemma ids_ok_step:
  assumes "ids_ok sent tk"
  shows "ids_ok (sent @ delivered_ids (snd (talker_step env event tk))) (fst (talker_step env event tk))"
proof (cases event)
  case (Operator_Says input)
  with ids_ok_operator [OF assms] show ?thesis by simp
next
  case (Snapshot_Arrives k)
  show ?thesis
  proof (cases "\<exists>turn decision n. jm_get (tk_suspended tk) k = Some (Awaiting_Snapshot turn decision n)")
    case True
    then obtain turn decision n where w: "jm_get (tk_suspended tk) k = Some (Awaiting_Snapshot turn decision n)" by blast
    have "unused_id n sent (resume k tk)" if "can_append decision"
      using resume_unused [OF assms w] that by (simp add: owed_id_def)
    then have "ids_ok sent (fst (after_snapshot turn decision n (resume k tk)))"
      unfolding after_snapshot_def
      by (intro ids_ok_suspend_unused) (use resume_ok [OF assms] in \<open>auto simp: owed_id_def\<close>)
    then show ?thesis using Snapshot_Arrives w by (simp add: after_snapshot_def suspend_def)
  next
    case False
    with assms Snapshot_Arrives show ?thesis by (auto split: option.splits suspended.splits)
  qed
next
  case (Model_Replies k answer)
  show ?thesis
  proof (cases "\<exists>turn decision n. jm_get (tk_suspended tk) k = Some (Awaiting_Model turn decision n)")
    case True
    then obtain turn decision n where w: "jm_get (tk_suspended tk) k = Some (Awaiting_Model turn decision n)" by blast
    have "can_append decision \<longrightarrow> unused_id n sent (resume k tk)"
      using resume_unused [OF assms w] by (simp add: owed_id_def)
    note answered = ids_ok_after_model [OF resume_ok [OF assms] this]
    show ?thesis unfolding Model_Replies using w by (simp add: answered)
  next
    case False
    with assms Model_Replies show ?thesis by (auto split: option.splits suspended.splits)
  qed
next
  case (Model_Throws k)
  show ?thesis
  proof (cases "\<exists>turn decision n. jm_get (tk_suspended tk) k = Some (Awaiting_Model turn decision n)")
    case True
    then obtain turn decision n where w: "jm_get (tk_suspended tk) k = Some (Awaiting_Model turn decision n)" by blast
    have "can_append decision \<longrightarrow> unused_id n sent (resume k tk)"
      using resume_unused [OF assms w] by (simp add: owed_id_def)
    note answered = ids_ok_after_model [OF resume_ok [OF assms] this]
    show ?thesis unfolding Model_Throws using w by (simp add: answered)
  next
    case False
    with assms Model_Throws show ?thesis by (auto split: option.splits suspended.splits)
  qed
next
  case (Delivery_Settles k d)
  have "ids_ok sent (resume k tk \<lparr> tk_proposals := record_released r (tk_proposals (resume k tk)) \<rparr>)" for r
    using resume_ok [OF assms] by (simp add: ids_ok_def)
  with assms Delivery_Settles show ?thesis
    by (auto simp: after_delivery_def Let_def split: option.splits suspended.splits)
qed (use assms resume_ok [OF assms] in \<open>auto split: option.splits suspended.splits\<close>)

lemma ids_ok_run:
  "ids_ok sent tk \<Longrightarrow> ids_ok (sent @ delivered_ids (snd (talker_run env events tk))) (fst (talker_run env events tk))"
proof (induction events arbitrary: sent tk)
  case (Cons e events)
  have d: "delivered_ids (xs @ ys) = delivered_ids xs @ delivered_ids ys" for xs ys
    by (induction xs rule: delivered_ids.induct) simp_all
  from Cons.IH [OF ids_ok_step [OF Cons.prems, of env e]] show ?case by (simp add: Let_def d)
qed simp

text \<open>C2: Nothing the operator said is sent twice: over any number of turns, however they interleave and whatever the
  worker, the model and the delivery adapter answer, each recorded utterance is delivered at most once.\<close>
theorem utterance_delivered_at_most_once:
  "distinct (delivered_ids (snd (talker_run env events (talker_init maxPendingAgeTurns history))))"
proof -
  have "ids_ok [] (talker_init maxPendingAgeTurns history)"
    by (simp add: ids_ok_def talker_init_def held_ids_def draft_utterances_def held_draft_def pending_store_init_def)
  from ids_ok_run [OF this, of env events] show ?thesis by (simp add: ids_ok_def)
qed

subsection \<open>A confirmed turn\<close>

definition um_go_talker :: talker where
  "um_go_talker = (talker_init None talker_history_init) \<lparr> tk_proposals := um_go_draft, tk_turnCount := 1 \<rparr>"

lemma um_go_ticked:
  obtains d where "held_draft (tick_turn 2 um_go_draft) = Some d" and "map de_text (od_utterances d) = [[103, 111]]"
    and "map de_id (od_utterances d) = [1]" and "\<not> is_lapsed 2 (tick_turn 2 um_go_draft)"
proof -
  have "ps_maxPendingAgeTurns um_go_draft = 6"
    by (simp add: um_go_draft_def draft_run_def append_to_draft_def pending_store_init_def Let_def)
  moreover have "ps_draft um_go_draft = held_draft um_go_draft" by (rule um_go_fresh)
  ultimately show ?thesis
    by (intro that)
      ((simp_all add: tick_turn_def held_draft_def [of "_ \<lparr> ps_draft := _ \<rparr>"] um_go_held is_lapsed_def draft_age_def)+)
qed

lemma only_confirmation_delivers_witness:
  "turn_class spoken_env (in_utterance yes_input) = Confirm
   \<and> draft_utterances um_go_draft \<noteq> None
   \<and> Deliver 0 [1] [103, 111] \<in> set (snd (talker_step spoken_env (Operator_Says yes_input) um_go_talker))"
proof -
  obtain d where d: "held_draft (tick_turn 2 um_go_draft) = Some d" "map de_text (od_utterances d) = [[103, 111]]"
    "map de_id (od_utterances d) = [1]" and fresh: "\<not> is_lapsed 2 (tick_turn 2 um_go_draft)"
    by (rule um_go_ticked)
  have "dc_kind (decide_operator_turn spoken_env 2 (tick_turn 2 um_go_draft) yes_input) = Release None Tidied"
    using d(1) fresh by (intro yes_releases_fresh) (simp_all add: spoken_env_def relay_env_def)
  moreover have "dc_utterance (decide_operator_turn spoken_env 2 (tick_turn 2 um_go_draft) yes_input) = in_utterance yes_input"
    by (simp add: decide_operator_turn_def decide_from_state_def Let_def)
  moreover have "fst (take_for_release 2 None Tidied (tick_turn 2 um_go_draft)) = Some (taken_of Tidied (od_utterances d))"
    using store_draft.take_fresh [of "tick_turn 2 um_go_draft" _ 2 None Tidied] d(1) fresh
    by (simp add: snapshot_draft_def selected_parts_def)
  moreover have "js_trim (in_utterance yes_input) \<noteq> []"
    by (simp add: yes_input_def js_trim_def is_js_space_def)
  ultimately have "Deliver 0 [1] [103, 111] \<in> set (snd (talker_step spoken_env (Operator_Says yes_input) um_go_talker))"
    using d(2,3)
    by (simp add: handle_operator_turn_def um_go_talker_def talker_init_def execute_decision_def release_turn_def
        suspend_def taken_of_def join_draft_text_def Let_def)
  then show ?thesis
    using only_confirmation_delivers [of 0 "[1]" "[103, 111]" spoken_env "Operator_Says yes_input" um_go_talker]
    by (auto simp: um_go_talker_def)
qed

end
