(* ===== verification/Host_Kernel.thy ===== *)
theory Host_Kernel
  imports Policy_Core
begin

text \<open>
  The host authority kernel of \<open>talker/policy-core.ts\<close> and the objects it owns beside the proposals:
  \<open>talker/thread-store.ts\<close>, \<open>talker/parking-lot.ts\<close>, \<open>talker/release-store.ts\<close> and the read-only operations
  of \<open>talker/kernel-operations.ts\<close>.

  The kernel is synchronous: every method is one step. \<open>kernel_op\<close> lists the calls of a host: the kernel's own
  methods, what a host appends to the thread, the parking lot and the offers, and the presentation and
  cancellation of a card, and a run is a list of calls. The kernel exposes its stores as read-only properties, so a
  host could also call \<open>proposals.create\<close>, \<open>proposals.takeForConfirmation\<close> or \<open>releases.record\<close> past the kernel;
  the hosts of this repository do not, and such calls are not among the steps. The history and file readers
  and the clock are arguments. A value that a method returns is a copy; the model returns the record.
\<close>

subsection \<open>The thread\<close>

datatype thread_role = Operator_Role | Talker_Role

record thread_turn =
  tn_id :: nat
  tn_laneId :: jsstr
  tn_role :: thread_role
  tn_text :: jsstr
  tn_turn :: int
  tn_sourceUtteranceId :: "nat option"
  tn_createdAt :: int

record thread_store =
  ts_turns :: "thread_turn list"
  ts_nextId :: nat
  ts_limit :: nat

definition thread_store_init :: "nat option \<Rightarrow> thread_store" where
  "thread_store_init limit = \<lparr> ts_turns = [], ts_nextId = 1, ts_limit = (case limit of Some n \<Rightarrow> n | None \<Rightarrow> 200) \<rparr>"

definition thread_append ::
  "int \<Rightarrow> jsstr \<Rightarrow> thread_role \<Rightarrow> jsstr \<Rightarrow> int \<Rightarrow> nat option \<Rightarrow> int option \<Rightarrow> thread_store \<Rightarrow> thread_turn \<times> thread_store"
where
  "thread_append now lane role words turn source createdAt s =
     (let t = \<lparr> tn_id = ts_nextId s, tn_laneId = lane, tn_role = role, tn_text = words, tn_turn = turn,
                tn_sourceUtteranceId = source, tn_createdAt = (case createdAt of Some c \<Rightarrow> c | None \<Rightarrow> now) \<rparr>;
          turns = ts_turns s @ [t] in
      (t, s \<lparr> ts_nextId := ts_nextId s + 1,
              ts_turns := (if length turns > ts_limit s then drop (length turns - ts_limit s) turns else turns) \<rparr>))"

text \<open>\<open>howMany\<close> (\<open>count\<close>) is a JavaScript number: \<open>None\<close> is one that is not finite.\<close>

definition thread_recent :: "jsstr \<Rightarrow> rat option \<Rightarrow> thread_store \<Rightarrow> thread_turn list" where
  "thread_recent lane howMany s =
     (case howMany of
        None \<Rightarrow> []
      | Some n \<Rightarrow> if n \<le> 0 then [] else slice_last (nat \<lfloor>n\<rfloor>) (filter (\<lambda>t. tn_laneId t = lane) (ts_turns s)))"

definition thread_get :: "nat \<Rightarrow> thread_store \<Rightarrow> thread_turn option" where
  "thread_get i s = find (\<lambda>t. tn_id t = i) (ts_turns s)"

definition thread_size :: "jsstr option \<Rightarrow> thread_store \<Rightarrow> nat" where
  "thread_size lane s =
     (case lane of None \<Rightarrow> length (ts_turns s) | Some l \<Rightarrow> length (filter (\<lambda>t. tn_laneId t = l) (ts_turns s)))"

subsection \<open>The parking lot\<close>

datatype kernel_error =
    Proposal_Failed proposal_error
  | Parked_Item_Not_Found
  | Batch_Promotion_Denied nat
  | Offer_Not_Found
  | Offer_Was_Declined
  | Offer_Was_Accepted
  | Duplicate_Release
  | Release_Not_Found
  | Reconciliation_State

record parked_item =
  pk_id :: jsstr
  pk_text :: jsstr
  pk_createdAt :: int
  pk_sourceUtteranceId :: nat
  pk_original :: "jsstr option"

record parking_lot =
  pl_items :: "parked_item list"
  pl_promoted :: "parked_item list"
  pl_nextId :: nat

definition parking_lot_init :: parking_lot where
  "parking_lot_init = \<lparr> pl_items = [], pl_promoted = [], pl_nextId = 1 \<rparr>"

definition park_add :: "int \<Rightarrow> jsstr \<Rightarrow> nat \<Rightarrow> jsstr option \<Rightarrow> int option \<Rightarrow> parking_lot \<Rightarrow> parked_item \<times> parking_lot" where
  "park_add now words source original createdAt l =
     (let item = \<lparr> pk_id = js ''park-'' @ nat_text (pl_nextId l), pk_text = words,
                   pk_createdAt = (case createdAt of Some c \<Rightarrow> c | None \<Rightarrow> now),
                   pk_sourceUtteranceId = source, pk_original = original \<rparr> in
      (item, l \<lparr> pl_nextId := pl_nextId l + 1, pl_items := pl_items l @ [item] \<rparr>))"

fun index_where :: "('a \<Rightarrow> bool) \<Rightarrow> 'a list \<Rightarrow> nat option" where
  "index_where P [] = None"
| "index_where P (x # xs) = (if P x then Some 0 else map_option Suc (index_where P xs))"

definition park_promote :: "jsstr \<Rightarrow> parking_lot \<Rightarrow> (kernel_error + parked_item) \<times> parking_lot" where
  "park_promote itemId l =
     (case index_where (\<lambda>i. pk_id i = itemId) (pl_items l) of
        None \<Rightarrow> (Inl Parked_Item_Not_Found, l)
      | Some n \<Rightarrow>
          let item = pl_items l ! n in
          (Inr item, l \<lparr> pl_items := take n (pl_items l) @ drop (n + 1) (pl_items l),
                         pl_promoted := pl_promoted l @ [item] \<rparr>))"

definition park_promote_batch :: "jsstr list \<Rightarrow> parking_lot \<Rightarrow> (kernel_error + parked_item list) \<times> parking_lot" where
  "park_promote_batch itemIds l = (Inl (Batch_Promotion_Denied (length itemIds)), l)"

subsection \<open>Offers to ask the worker\<close>

datatype offer_status = Offer_Open | Offer_Accepted | Offer_Declined

record kernel_offer =
  ko_id :: jsstr
  ko_question :: jsstr
  ko_reason :: jsstr
  ko_sourceUtteranceId :: nat
  ko_topic :: "jsstr option"
  ko_status :: offer_status
  ko_createdAt :: int

record offers =
  of_offers :: "kernel_offer list"
  of_nextId :: nat

definition offers_init :: offers where
  "offers_init = \<lparr> of_offers = [], of_nextId = 1 \<rparr>"

datatype offer_result = Offered kernel_offer | Duplicate_Offer_Refused kernel_offer

definition make_offer ::
  "int \<Rightarrow> jsstr \<Rightarrow> jsstr \<Rightarrow> nat \<Rightarrow> jsstr option \<Rightarrow> int option \<Rightarrow> offers \<Rightarrow> offer_result \<times> offers" where
  "make_offer now question reason source topic createdAt s =
     (case (case topic of None \<Rightarrow> None | Some t \<Rightarrow> find (\<lambda>o'. ko_topic o' = Some t) (of_offers s)) of
        Some existing \<Rightarrow> (Duplicate_Offer_Refused existing, s)
      | None \<Rightarrow>
          let offer = \<lparr> ko_id = js ''offer-'' @ nat_text (of_nextId s), ko_question = question, ko_reason = reason,
                        ko_sourceUtteranceId = source, ko_topic = topic, ko_status = Offer_Open,
                        ko_createdAt = (case createdAt of Some c \<Rightarrow> c | None \<Rightarrow> now) \<rparr> in
          (Offered offer, s \<lparr> of_nextId := of_nextId s + 1, of_offers := of_offers s @ [offer] \<rparr>))"

definition get_offer :: "jsstr \<Rightarrow> offers \<Rightarrow> kernel_offer option" where
  "get_offer offerId s = find (\<lambda>o'. ko_id o' = offerId) (of_offers s)"

definition mark_offer :: "nat \<Rightarrow> offer_status \<Rightarrow> offers \<Rightarrow> kernel_offer \<times> offers" where
  "mark_offer n st s =
     (let offer = (of_offers s ! n) \<lparr> ko_status := st \<rparr> in (offer, s \<lparr> of_offers := (of_offers s)[n := offer] \<rparr>))"

definition accept_offer :: "jsstr \<Rightarrow> offers \<Rightarrow> (kernel_error + kernel_offer) \<times> offers" where
  "accept_offer offerId s =
     (case index_where (\<lambda>o'. ko_id o' = offerId) (of_offers s) of
        None \<Rightarrow> (Inl Offer_Not_Found, s)
      | Some n \<Rightarrow>
          (case ko_status (of_offers s ! n) of
             Offer_Declined \<Rightarrow> (Inl Offer_Was_Declined, s)
           | Offer_Accepted \<Rightarrow> (Inl Offer_Was_Accepted, s)
           | Offer_Open \<Rightarrow> map_prod Inr id (mark_offer n Offer_Accepted s)))"

definition decline_offer :: "jsstr \<Rightarrow> offers \<Rightarrow> (kernel_error + kernel_offer) \<times> offers" where
  "decline_offer offerId s =
     (case index_where (\<lambda>o'. ko_id o' = offerId) (of_offers s) of
        None \<Rightarrow> (Inl Offer_Not_Found, s)
      | Some n \<Rightarrow> map_prod Inr id (mark_offer n Offer_Declined s))"

subsection \<open>Read-only retrieval\<close>

definition drive_prefix :: re where
  "drive_prefix = seqs [Start, Chr (\<lambda>c. 65 \<le> c \<and> c \<le> 90 \<or> 97 \<le> c \<and> c \<le> 122), one_of [58], one_of [92, 47]]"

definition is_slash :: "nat \<Rightarrow> bool" where
  "is_slash c \<longleftrightarrow> c = 47 \<or> c = 92"

text \<open>\<open>path.split(/[\\/]+/)\<close> without its empty pieces, none of which is \<open>..\<close>.\<close>

definition path_segments :: "jsstr \<Rightarrow> jsstr list" where
  "path_segments p = split_words is_slash [] p"

definition is_safe_relative_path :: "jsstr \<Rightarrow> bool" where
  "is_safe_relative_path p \<longleftrightarrow>
     p \<noteq> [] \<and> js_trim p \<noteq> [] \<and> 0 \<notin> set p
   \<and> hd p \<noteq> 47 \<and> hd p \<noteq> 92 \<and> hd p \<noteq> 126
   \<and> \<not> test drive_prefix p
   \<and> js ''..'' \<notin> set (path_segments p)"

record 'h history_reader =
  hr_recent :: "nat \<Rightarrow> 'h list"
  hr_total :: nat

definition session_history_max_turns_back :: int where
  "session_history_max_turns_back = 200"

text \<open>\<open>Math.trunc\<close>.\<close>

definition js_trunc :: "rat \<Rightarrow> int" where
  "js_trunc n = (if n < 0 then \<lceil>n\<rceil> else \<lfloor>n\<rfloor>)"

definition retrieve_session_history :: "'h history_reader \<Rightarrow> rat option \<Rightarrow> 'h list \<times> nat \<times> bool" where
  "retrieve_session_history h turnsBack =
     (let requested = (case turnsBack of Some n \<Rightarrow> js_trunc n | None \<Rightarrow> 1);
          back = max 1 (min session_history_max_turns_back requested);
          turns = hr_recent h (nat back) in
      (turns, hr_total h, length turns < hr_total h))"

datatype file_context = File_Read jsstr jsstr | File_Invalid_Path jsstr | File_Not_Found jsstr

definition retrieve_file_context :: "(jsstr \<Rightarrow> jsstr option) \<Rightarrow> jsstr \<Rightarrow> file_context" where
  "retrieve_file_context reader p =
     (if \<not> is_safe_relative_path p then File_Invalid_Path p
      else case reader p of None \<Rightarrow> File_Not_Found p | Some t \<Rightarrow> File_Read p t)"

subsection \<open>The release log\<close>

text \<open>A reconciliation takes an outcome that is not unknown: \<open>settled\<close> is that type.\<close>

datatype settled =
    Was_Delivered "jsstr option" "jsstr option"
  | Was_Queued jsstr
  | Was_Refused jsstr

datatype release_outcome = Settled settled | Still_Unknown jsstr

record release_record =
  rl_proposalId :: jsstr
  rl_sha256 :: jsstr
  rl_idempotencyKey :: jsstr
  rl_targetLane :: jsstr
  rl_outcome :: release_outcome
  rl_receiptTimestamp :: int
  rl_reconciledFrom :: "int option"

type_synonym release_log = "release_record list"

definition has_release_for :: "jsstr \<Rightarrow> release_log \<Rightarrow> bool" where
  "has_release_for pid rls \<longleftrightarrow> list_ex (\<lambda>r. rl_proposalId r = pid) rls"

definition has_idempotency_key :: "jsstr \<Rightarrow> release_log \<Rightarrow> bool" where
  "has_idempotency_key key rls \<longleftrightarrow> list_ex (\<lambda>r. rl_idempotencyKey r = key) rls"

definition record_release :: "release_record \<Rightarrow> release_log \<Rightarrow> (kernel_error + release_record) \<times> release_log" where
  "record_release r rls =
     (if has_release_for (rl_proposalId r) rls \<or> has_idempotency_key (rl_idempotencyKey r) rls
      then (Inl Duplicate_Release, rls)
      else (Inr r, rls @ [r]))"

definition latest_release :: "jsstr \<Rightarrow> release_log \<Rightarrow> release_record option" where
  "latest_release key rls = find (\<lambda>r. rl_idempotencyKey r = key) (rev rls)"

definition find_by_proposal :: "jsstr \<Rightarrow> release_log \<Rightarrow> release_record option" where
  "find_by_proposal pid rls = find (\<lambda>r. rl_proposalId r = pid) (rev rls)"

definition is_unknown :: "release_record \<Rightarrow> bool" where
  "is_unknown r = (case rl_outcome r of Still_Unknown _ \<Rightarrow> True | Settled _ \<Rightarrow> False)"

definition latest_by_key :: "release_log \<Rightarrow> (jsstr, release_record) jsmap" where
  "latest_by_key rls = foldl (\<lambda>m r. jm_set (rl_idempotencyKey r) r m) [] rls"

definition needs_reconciliation :: "release_log \<Rightarrow> release_record list" where
  "needs_reconciliation rls = filter is_unknown (jm_values (latest_by_key rls))"

definition reconcile_release ::
  "jsstr \<Rightarrow> settled \<Rightarrow> int \<Rightarrow> release_log \<Rightarrow> (kernel_error + release_record) \<times> release_log" where
  "reconcile_release key outcome receipt rls =
     (case latest_release key rls of
        None \<Rightarrow> (Inl Release_Not_Found, rls)
      | Some l \<Rightarrow>
          if \<not> is_unknown l then (Inl Reconciliation_State, rls)
          else
            let r = \<lparr> rl_proposalId = rl_proposalId l, rl_sha256 = rl_sha256 l, rl_idempotencyKey = rl_idempotencyKey l,
                      rl_targetLane = rl_targetLane l, rl_outcome = Settled outcome, rl_receiptTimestamp = receipt,
                      rl_reconciledFrom = Some (rl_receiptTimestamp l) \<rparr> in
            (Inr r, rls @ [r]))"

subsection \<open>The kernel\<close>

record kernel =
  hk_threads :: thread_store
  hk_lot :: parking_lot
  hk_proposals :: proposal_store
  hk_releases :: release_log
  hk_offers :: offers
  hk_reserved :: "(jsstr, jsstr) jsmap"

definition kernel_init :: kernel where
  "kernel_init = \<lparr> hk_threads = thread_store_init None, hk_lot = parking_lot_init, hk_proposals = proposal_store_init,
     hk_releases = [], hk_offers = offers_init, hk_reserved = [] \<rparr>"

text \<open>The three promotion routes; anything else a caller smuggles in is \<open>Promote_Other\<close>.\<close>

datatype promotion =
    Promote_Direct jsstr jsstr "jsstr option" nat int
  | Promote_Offer jsstr jsstr nat int
  | Promote_Parked jsstr jsstr nat int
  | Promote_Other

definition create_from ::
  "text_env \<Rightarrow> int \<Rightarrow> jsstr \<Rightarrow> promotion_route \<Rightarrow> nat \<Rightarrow> jsstr \<Rightarrow> jsstr option \<Rightarrow> int \<Rightarrow> kernel \<Rightarrow> (kernel_error + proposal) \<times> kernel"
where
  "create_from env now lane route source tidied original turn k =
     (let res = create_proposal env now \<lparr> pi_laneId = lane, pi_route = Some route, pi_sourceUtteranceId = source,
                  pi_tidied = tidied, pi_original = original, pi_createdTurn = turn, pi_createdAt = None \<rparr> (hk_proposals k) in
      (map_sum Proposal_Failed id (fst res), k \<lparr> hk_proposals := snd res \<rparr>))"

definition promote_proposal :: "text_env \<Rightarrow> int \<Rightarrow> promotion \<Rightarrow> kernel \<Rightarrow> (kernel_error + proposal) \<times> kernel" where
  "promote_proposal env now input k =
     (case input of
        Promote_Direct lane tidied original source turn \<Rightarrow>
          create_from env now lane Direct_Address source tidied original turn k
      | Promote_Offer lane offerId source turn \<Rightarrow>
          (case accept_offer offerId (hk_offers k) of
             (Inl e, os) \<Rightarrow> (Inl e, k \<lparr> hk_offers := os \<rparr>)
           | (Inr offer, os) \<Rightarrow>
               create_from env now lane Accepted_Offer source (ko_question offer) None turn (k \<lparr> hk_offers := os \<rparr>))
      | Promote_Parked lane itemId source turn \<Rightarrow>
          (case park_promote itemId (hk_lot k) of
             (Inl e, lot) \<Rightarrow> (Inl e, k \<lparr> hk_lot := lot \<rparr>)
           | (Inr item, lot) \<Rightarrow>
               create_from env now lane Parked_Item_Promotion source (pk_text item) (pk_original item) turn (k \<lparr> hk_lot := lot \<rparr>))
      | Promote_Other \<Rightarrow> (Inl (Proposal_Failed Unknown_Promotion_Route), k))"

datatype confirm_refusal = Proposal_Missing | Proposal_Not_Live proposal | Proposal_Stale proposal | Proposal_No_Original proposal

datatype confirmation =
    Authorised proposal jsstr jsstr
  | Duplicate_Refusal jsstr jsstr "release_record option"
  | Confirmation_Refused confirm_refusal

definition confirm_proposal ::
  "jsstr \<Rightarrow> nat \<times> jsstr \<Rightarrow> jsstr \<Rightarrow> release_variant option \<Rightarrow> kernel \<Rightarrow> confirmation \<times> kernel" where
  "confirm_proposal pid identity key variant k =
     (let found = get_proposal pid (hk_proposals k);
          prior = find_by_proposal pid (hk_releases k) in
      if prior \<noteq> None \<or> (case found of Some p \<Rightarrow> pr_status p = Released | None \<Rightarrow> False)
      then (Duplicate_Refusal pid key prior, k)
      else if found = None then (Confirmation_Refused Proposal_Missing, k)
      else if has_idempotency_key key (hk_releases k) \<or> jm_has (hk_reserved k) key
      then (Duplicate_Refusal pid key (latest_release key (hk_releases k)), k)
      else
        let k1 = k \<lparr> hk_reserved := jm_set key pid (hk_reserved k) \<rparr>;
            take_res = take_for_confirmation pid variant identity (hk_proposals k1);
            k2 = k1 \<lparr> hk_proposals := snd take_res \<rparr>;
            k3 = k2 \<lparr> hk_reserved := jm_del key (hk_reserved k2) \<rparr> in
        (case fst take_res of
           Taken p \<Rightarrow> (Authorised p key (pr_laneId p), k2)
         | Take_Not_Found \<Rightarrow> (Confirmation_Refused Proposal_Missing, k3)
         | Not_Live p \<Rightarrow> (Confirmation_Refused (Proposal_Not_Live p), k3)
         | Stale p \<Rightarrow> (Confirmation_Refused (Proposal_Stale p), k3)
         | Original_Not_Offered p \<Rightarrow> (Confirmation_Refused (Proposal_No_Original p), k3)))"

definition record_delivery ::
  "int \<Rightarrow> jsstr \<Rightarrow> jsstr \<Rightarrow> release_outcome \<Rightarrow> int option \<Rightarrow> kernel \<Rightarrow> (kernel_error + release_record) \<times> kernel" where
  "record_delivery now pid key outcome receipt k =
     (case get_proposal pid (hk_proposals k) of
        None \<Rightarrow> (Inl (Proposal_Failed Proposal_Not_Found), k)
      | Some p \<Rightarrow>
          let res = record_release \<lparr> rl_proposalId = pr_id p, rl_sha256 = pr_sha256 p, rl_idempotencyKey = key,
                      rl_targetLane = pr_laneId p, rl_outcome = outcome,
                      rl_receiptTimestamp = (case receipt of Some t \<Rightarrow> t | None \<Rightarrow> now), rl_reconciledFrom = None \<rparr>
                      (hk_releases k) in
          (fst res, k \<lparr> hk_releases := snd res \<rparr>))"

definition reconcile_delivery ::
  "int \<Rightarrow> jsstr \<Rightarrow> settled \<Rightarrow> int option \<Rightarrow> kernel \<Rightarrow> (kernel_error + release_record) \<times> kernel" where
  "reconcile_delivery now key outcome receipt k =
     (let res = reconcile_release key outcome (case receipt of Some t \<Rightarrow> t | None \<Rightarrow> now) (hk_releases k) in
      (fst res, k \<lparr> hk_releases := snd res \<rparr>))"

definition pending_reconciliations :: "kernel \<Rightarrow> release_record list" where
  "pending_reconciliations k = needs_reconciliation (hk_releases k)"

subsection \<open>Calls in sequence\<close>

datatype kernel_op =
    Thread_Says int jsstr thread_role jsstr int "nat option"
  | Park_Item int jsstr nat "jsstr option"
  | Offer_Ask_Worker int jsstr jsstr nat "jsstr option"
  | Promote int promotion
  | Present_Card jsstr release_variant
  | Cancel_Card jsstr
  | Confirm_Card jsstr "nat \<times> jsstr" jsstr "release_variant option"
  | Record_Delivery int jsstr jsstr release_outcome "int option"
  | Reconcile_Delivery int jsstr settled "int option"

fun kernel_step :: "text_env \<Rightarrow> kernel_op \<Rightarrow> kernel \<Rightarrow> kernel" where
  "kernel_step env (Thread_Says now lane role words turn source) k =
     k \<lparr> hk_threads := snd (thread_append now lane role words turn source None (hk_threads k)) \<rparr>"
| "kernel_step env (Park_Item now words source original) k =
     k \<lparr> hk_lot := snd (park_add now words source original None (hk_lot k)) \<rparr>"
| "kernel_step env (Offer_Ask_Worker now question reason source topic) k =
     k \<lparr> hk_offers := snd (make_offer now question reason source topic None (hk_offers k)) \<rparr>"
| "kernel_step env (Promote now input) k = snd (promote_proposal env now input k)"
| "kernel_step env (Present_Card pid v) k = k \<lparr> hk_proposals := snd (present_proposal pid v (hk_proposals k)) \<rparr>"
| "kernel_step env (Cancel_Card pid) k = k \<lparr> hk_proposals := snd (cancel_proposal pid (hk_proposals k)) \<rparr>"
| "kernel_step env (Confirm_Card pid identity key variant) k = snd (confirm_proposal pid identity key variant k)"
| "kernel_step env (Record_Delivery now pid key outcome receipt) k = snd (record_delivery now pid key outcome receipt k)"
| "kernel_step env (Reconcile_Delivery now key outcome receipt) k = snd (reconcile_delivery now key outcome receipt k)"

definition kernel_run :: "text_env \<Rightarrow> kernel_op list \<Rightarrow> kernel \<Rightarrow> kernel" where
  "kernel_run env ops k = foldl (\<lambda>k op. kernel_step env op k) k ops"

text \<open>The authorisations a run hands out: the proposal that may be delivered and the key it is delivered under.\<close>

definition authorisation :: "kernel_op \<Rightarrow> kernel \<Rightarrow> (jsstr \<times> jsstr) list" where
  "authorisation op k =
     (case op of
        Confirm_Card pid identity key variant \<Rightarrow>
          (case fst (confirm_proposal pid identity key variant k) of Authorised p key' _ \<Rightarrow> [(pr_id p, key')] | _ \<Rightarrow> [])
      | _ \<Rightarrow> [])"

fun authorised :: "text_env \<Rightarrow> kernel_op list \<Rightarrow> kernel \<Rightarrow> (jsstr \<times> jsstr) list" where
  "authorised env [] k = []"
| "authorised env (op # ops) k = authorisation op k @ authorised env ops (kernel_step env op k)"

subsection \<open>One confirmation, and what the proposals keep\<close>

lemma jm_del_set: "\<not> jm_has m key \<Longrightarrow> jm_del key (jm_set key v m) = m"
  by (induction m) (auto simp: jm_del_def jm_has_def filter_id_conv)

lemma confirm_cases:
  obtains (taken) p v where "jm_get (pt_byId (hk_proposals k)) pid = Some p" "is_live p"
      "pr_version p = fst identity" "pr_sha256 p = snd identity" "\<not> jm_has (hk_reserved k) key"
      "\<not> has_idempotency_key key (hk_releases k)"
      "take_for_confirmation pid variant identity (hk_proposals k) =
         (Taken (p \<lparr> pr_status := Released, pr_presentedVariant := Some v \<rparr>),
          hk_proposals k \<lparr> pt_byId := jm_set pid (p \<lparr> pr_status := Released, pr_presentedVariant := Some v \<rparr>)
                                               (pt_byId (hk_proposals k)) \<rparr>)"
      "confirm_proposal pid identity key variant k =
         (Authorised (p \<lparr> pr_status := Released, pr_presentedVariant := Some v \<rparr>) key (pr_laneId p),
          k \<lparr> hk_reserved := jm_set key pid (hk_reserved k),
              hk_proposals := snd (take_for_confirmation pid variant identity (hk_proposals k)) \<rparr>)"
  | (refused) r where "confirm_proposal pid identity key variant k = (r, k)" "\<And>p q l. r \<noteq> Authorised p q l"
proof -
  define spent where "spent \<longleftrightarrow> find_by_proposal pid (hk_releases k) \<noteq> None
     \<or> (case get_proposal pid (hk_proposals k) of Some p \<Rightarrow> pr_status p = Released | None \<Rightarrow> False)
     \<or> get_proposal pid (hk_proposals k) = None
     \<or> has_idempotency_key key (hk_releases k) \<or> jm_has (hk_reserved k) key"
  show thesis
  proof (cases spent)
    case True
    then show thesis
      unfolding spent_def by (intro refused [of "fst (confirm_proposal pid identity key variant k)"])
        (auto simp: confirm_proposal_def Let_def split: if_splits)
  next
    case False
    then have fresh: "\<not> jm_has (hk_reserved k) key" by (simp add: spent_def)
    show thesis
    proof (cases rule: take_cases [of "hk_proposals k" pid identity variant])
      case (taken p v)
      then show thesis
        using False by (intro that(1) [of p v]) (auto simp: spent_def confirm_proposal_def Let_def)
    next
      case (refused r)
      then show thesis
        using False fresh by (intro that(2) [of "fst (confirm_proposal pid identity key variant k)"])
          (auto simp: spent_def confirm_proposal_def Let_def jm_del_set split: take_result.splits)
    qed
  qed
qed

text \<open>Whatever a host calls, the proposals move by at most one operation of their store.\<close>

lemma kernel_proposals:
  obtains (same) "hk_proposals (kernel_step env op k) = hk_proposals k"
  | (step) o' where "hk_proposals (kernel_step env op k) = proposal_step env o' (hk_proposals k)"
proof -
  have create: "\<exists>o'. hk_proposals (snd (create_from env now lane route source tidied original turn k')) =
      proposal_step env o' (hk_proposals k')" for now lane route source tidied original turn k'
    unfolding create_from_def Let_def by (simp, metis proposal_step.simps(1))
  have "hk_proposals (kernel_step env op k) = hk_proposals k
    \<or> (\<exists>o'. hk_proposals (kernel_step env op k) = proposal_step env o' (hk_proposals k))"
  proof (cases op)
    case (Promote now input)
    show ?thesis
      unfolding Promote using create [of _ _ _ _ _ _ _ k] create [of _ _ _ _ _ _ _ "k \<lparr> hk_offers := os \<rparr>" for os]
        create [of _ _ _ _ _ _ _ "k \<lparr> hk_lot := lot \<rparr>" for lot]
      by (cases input) (auto simp: promote_proposal_def split: prod.splits sum.splits)
  next
    case (Present_Card pid v)
    then show ?thesis using proposal_step.simps(2) [of env pid v "hk_proposals k"] by (simp, metis)
  next
    case (Cancel_Card pid)
    then show ?thesis using proposal_step.simps(4) [of env pid "hk_proposals k"] by (simp, metis)
  next
    case (Confirm_Card pid identity key variant)
    show ?thesis
    proof (cases rule: confirm_cases [of k pid identity key variant])
      case (taken p v)
      then show ?thesis using Confirm_Card proposal_step.simps(3) [of env pid variant identity "hk_proposals k"]
        by (simp, metis snd_conv)
    qed (simp add: Confirm_Card)
  qed (auto simp: record_delivery_def reconcile_delivery_def Let_def split: option.splits)
  then show thesis using that by blast
qed

lemma kernel_proposals_ok: "proposals_ok (hk_proposals k) \<Longrightarrow> proposals_ok (hk_proposals (kernel_step env op k))"
  by (rule kernel_proposals [of env op k]) (simp_all add: proposals_ok_step)

lemma kernel_dead:
  "proposals_ok (hk_proposals k) \<Longrightarrow> dead pid (hk_proposals k) \<Longrightarrow> dead pid (hk_proposals (kernel_step env op k))"
  by (rule kernel_proposals [of env op k]) (simp_all add: dead_step)

lemma kernel_reserved:
  assumes "jm_has (hk_reserved k) key"
  shows "jm_has (hk_reserved (kernel_step env op k)) key"
proof (cases op)
  case (Confirm_Card pid identity q variant)
  show ?thesis
    by (cases rule: confirm_cases [of k pid identity q variant]) (use assms Confirm_Card in auto)
next
  case (Promote now input)
  have "hk_reserved (snd (promote_proposal env now input k)) = hk_reserved k"
    by (cases input) (auto simp: promote_proposal_def create_from_def Let_def split: prod.splits sum.splits)
  with assms Promote show ?thesis by simp
qed (use assms in \<open>auto simp: record_delivery_def reconcile_delivery_def Let_def split: option.splits\<close>)

subsection \<open>One authorisation per proposal and per key\<close>

lemma authorisation_cases:
  assumes ok: "proposals_ok (hk_proposals k)" and a: "(pid, key) \<in> set (authorisation op k)"
  shows "\<not> dead pid (hk_proposals k)" and "\<not> jm_has (hk_reserved k) key"
    and "authorisation op k = [(pid, key)]"
    and "dead pid (hk_proposals (kernel_step env op k))" and "jm_has (hk_reserved (kernel_step env op k)) key"
proof -
  obtain pid' identity key' variant where op: "op = Confirm_Card pid' identity key' variant"
    using a by (cases op) (auto simp: authorisation_def)
  have "\<not> dead pid (hk_proposals k) \<and> \<not> jm_has (hk_reserved k) key \<and> authorisation op k = [(pid, key)]
    \<and> dead pid (hk_proposals (kernel_step env op k)) \<and> jm_has (hk_reserved (kernel_step env op k)) key"
  proof (cases rule: confirm_cases [of k pid' identity key' variant])
    case (taken p v)
    have "pr_id p = pid'" using ok keys_okD(1) [OF _ taken(1)] by (simp add: proposals_ok_def)
    with taken a show ?thesis by (auto simp: op authorisation_def dead_def is_live_def)
  next
    case (refused r)
    then show ?thesis using a by (auto simp: op authorisation_def split: confirmation.splits)
  qed
  then show "\<not> dead pid (hk_proposals k)" and "\<not> jm_has (hk_reserved k) key"
    and "authorisation op k = [(pid, key)]"
    and "dead pid (hk_proposals (kernel_step env op k))" and "jm_has (hk_reserved (kernel_step env op k)) key"
    by simp_all
qed

lemma authorised_fresh:
  assumes "proposals_ok (hk_proposals k)" and "(pid, key) \<in> set (authorised env ops k)"
  shows "\<not> dead pid (hk_proposals k) \<and> \<not> jm_has (hk_reserved k) key"
  using assms
proof (induction ops arbitrary: k)
  case (Cons op ops)
  note ok = Cons.prems(1)
  show ?case
  proof (cases "(pid, key) \<in> set (authorisation op k)")
    case True
    then show ?thesis using authorisation_cases(1,2) [OF ok] by blast
  next
    case False
    then have "\<not> dead pid (hk_proposals (kernel_step env op k)) \<and> \<not> jm_has (hk_reserved (kernel_step env op k)) key"
      using Cons.IH [OF kernel_proposals_ok [OF ok]] Cons.prems(2) by simp
    then show ?thesis using kernel_dead [OF ok] kernel_reserved by blast
  qed
qed simp

lemma authorised_distinct:
  "proposals_ok (hk_proposals k) \<Longrightarrow>
     distinct (map fst (authorised env ops k)) \<and> distinct (map snd (authorised env ops k))"
proof (induction ops arbitrary: k)
  case (Cons op ops)
  note ok = Cons.prems and ok' = kernel_proposals_ok [OF Cons.prems]
  show ?case
  proof (cases "authorisation op k")
    case Nil
    then show ?thesis using Cons.IH [OF ok'] by simp
  next
    case (Cons a as)
    obtain pid key where a: "a = (pid, key)" by force
    have "(pid, key) \<in> set (authorisation op k)" using Cons a by simp
    note spent = authorisation_cases [OF ok this]
    then have "pid \<notin> fst ` set (authorised env ops (kernel_step env op k))"
      "key \<notin> snd ` set (authorised env ops (kernel_step env op k))"
      using authorised_fresh [OF ok'] by fastforce+
    then show ?thesis using Cons.IH [OF ok'] spent(3) by simp
  qed
qed simp

text \<open>C3: The kernel authorises each proposal at most once and each idempotency key at most once: whatever
  calls a host makes in whatever order, no two authorisations share a proposal and no two share a
  key.\<close>
theorem kernel_authorises_once:
  "distinct (map fst (authorised env ops kernel_init)) \<and> distinct (map snd (authorised env ops kernel_init))"
  by (rule authorised_distinct) (simp add: kernel_init_def proposals_ok_init)

subsection \<open>The release log is well formed\<close>

text \<open>A later record with the key of an earlier one is the one that settles it, and records share a key exactly when
  they share a proposal.\<close>

definition settles :: "release_record \<Rightarrow> release_record \<Rightarrow> bool" where
  "settles r r' \<longleftrightarrow> is_unknown r \<and> \<not> is_unknown r' \<and> rl_reconciledFrom r' = Some (rl_receiptTimestamp r)
     \<and> rl_sha256 r' = rl_sha256 r \<and> rl_targetLane r' = rl_targetLane r"

definition in_order :: "release_record \<Rightarrow> release_record \<Rightarrow> bool" where
  "in_order r r' \<longleftrightarrow>
     (if rl_idempotencyKey r = rl_idempotencyKey r' then rl_proposalId r = rl_proposalId r' \<and> settles r r'
      else rl_proposalId r \<noteq> rl_proposalId r')"

text \<open>A record names a proposal that exists, carries its hash and its lane, and claims to settle a receipt only
  when that receipt is in the log and unknown.\<close>

definition names_card :: "proposal_store \<Rightarrow> release_record \<Rightarrow> bool" where
  "names_card s r = (case get_proposal (rl_proposalId r) s of
     Some p \<Rightarrow> rl_sha256 r = pr_sha256 p \<and> rl_targetLane r = pr_laneId p | None \<Rightarrow> False)"

definition has_origin :: "release_log \<Rightarrow> release_record \<Rightarrow> bool" where
  "has_origin rls r \<longleftrightarrow> rl_reconciledFrom r = None
     \<or> list_ex (\<lambda>u. rl_idempotencyKey u = rl_idempotencyKey r \<and> settles u r) rls"

definition log_ok :: "proposal_store \<Rightarrow> release_log \<Rightarrow> bool" where
  "log_ok s rls \<longleftrightarrow> sorted_wrt in_order rls \<and> list_all (names_card s) rls \<and> list_all (has_origin rls) rls"

lemma card_kept:
  assumes ok: "proposals_ok s" and p: "jm_get (pt_byId s) pid = Some p"
  shows "\<exists>p'. jm_get (pt_byId (proposal_step env op s)) pid = Some p' \<and> pr_sha256 p' = pr_sha256 p
     \<and> pr_laneId p' = pr_laneId p"
proof -
  have fresh: "pid \<noteq> proposal_id (pt_nextId s)" using ok keys_okD(2) [OF _ p] by (auto simp: proposals_ok_def)
  show ?thesis
  proof (cases op)
    case (Create now input)
    define s1 where "s1 = (case live_proposal (pi_laneId input) s of None \<Rightarrow> s | Some l \<Rightarrow> set_status (pr_id l) Superseded s)"
    have "\<exists>p'. jm_get (pt_byId s1) pid = Some p' \<and> pr_sha256 p' = pr_sha256 p \<and> pr_laneId p' = pr_laneId p"
      and "pt_nextId s1 = pt_nextId s"
      using p by (auto simp: s1_def set_status_get split: option.split)
    then show ?thesis using Create fresh p
      by (cases "pi_route input") (simp_all add: create_proposal_def Let_def new_proposal_def s1_def [symmetric])
  next
    case (Present q v)
    then show ?thesis using p by (cases "q = pid"; cases "jm_get (pt_byId s) q")
        (auto simp: present_proposal_def Let_def)
  next
    case (Take q v i)
    show ?thesis by (cases rule: take_cases [of s q i v]) (use Take p in auto)
  next
    case (CancelProposal q)
    then show ?thesis using p by (cases "q = pid"; cases "jm_get (pt_byId s) q")
        (auto simp: cancel_proposal_def set_status_get)
  qed
qed

lemma names_card_kept:
  assumes "proposals_ok (hk_proposals k)" and "names_card (hk_proposals k) r"
  shows "names_card (hk_proposals (kernel_step env op k)) r"
proof -
  obtain p where p: "jm_get (pt_byId (hk_proposals k)) (rl_proposalId r) = Some p"
    using assms(2) by (auto simp: names_card_def get_proposal_def split: option.splits)
  show ?thesis
  proof (cases rule: kernel_proposals [of env op k])
    case (step o')
    then show ?thesis using card_kept [OF assms(1) p, of env o'] assms(2) p
      by (auto simp: names_card_def get_proposal_def)
  qed (simp add: assms(2))
qed

text \<open>Appending: a fresh receipt, and the settlement of an unknown one.\<close>

lemma log_ok_record:
  assumes "log_ok s rls" and "names_card s r" and "rl_reconciledFrom r = None"
  shows "log_ok s (snd (record_release r rls))"
proof -
  have mono: "has_origin (rls @ [r]) x" if "has_origin rls x" for x using that by (auto simp: has_origin_def)
  have "sorted_wrt in_order (rls @ [r])"
    if "\<not> has_release_for (rl_proposalId r) rls" "\<not> has_idempotency_key (rl_idempotencyKey r) rls"
    using that assms(1)
    by (auto simp: sorted_wrt_append log_ok_def in_order_def has_release_for_def has_idempotency_key_def list_ex_iff)
  with assms mono show ?thesis
    by (auto simp: record_release_def log_ok_def list_all_iff has_origin_def)
qed

lemma find_split:
  "find P xs = Some x \<Longrightarrow> \<exists>us vs. xs = us @ x # vs \<and> P x \<and> (\<forall>u \<in> set us. \<not> P u)"
proof (induction xs)
  case (Cons a xs)
  show ?case
  proof (cases "P a")
    case True
    then show ?thesis using Cons.prems by (intro exI [of _ "[]"] exI [of _ xs]) simp
  next
    case False
    then obtain us vs where "xs = us @ x # vs" "P x" "\<forall>u \<in> set us. \<not> P u" using Cons by auto
    with False show ?thesis by (intro exI [of _ "a # us"] exI [of _ vs]) simp
  qed
qed simp

lemma latest_is_last:
  assumes "latest_release key rls = Some l"
  obtains before after where "rls = before @ l # after" "rl_idempotencyKey l = key"
    "\<forall>r \<in> set after. rl_idempotencyKey r \<noteq> key"
proof -
  obtain us vs where u: "rev rls = us @ l # vs" "rl_idempotencyKey l = key" "\<forall>u \<in> set us. rl_idempotencyKey u \<noteq> key"
    using find_split [OF assms [unfolded latest_release_def]] by blast
  have "rls = rev vs @ l # rev us" using arg_cong [OF u(1), of rev] by simp
  then show thesis by (rule that [OF _ u(2)]) (simp add: u(3))
qed

lemma log_ok_settle:
  assumes ok: "log_ok s rls" and l: "latest_release key rls = Some l" and u: "is_unknown l"
    and r: "settles l r" "rl_idempotencyKey r = key" "rl_proposalId r = rl_proposalId l"
  shows "log_ok s (rls @ [r])"
proof -
  obtain before after where cut: "rls = before @ l # after" "rl_idempotencyKey l = key"
    "\<forall>x \<in> set after. rl_idempotencyKey x \<noteq> key" using l by (rule latest_is_last)
  have so: "sorted_wrt in_order (before @ l # after)" using ok cut(1) by (simp add: log_ok_def)
  have "in_order x r" if "x \<in> set before" for x
  proof -
    have "in_order x l" using so that by (simp add: sorted_wrt_append)
    then show ?thesis using u r cut(2) by (auto simp: in_order_def settles_def split: if_splits)
  qed
  moreover have "in_order x r" if "x \<in> set after" for x
  proof -
    have "in_order l x" using so that by (simp add: sorted_wrt_append)
    moreover have k: "rl_idempotencyKey x \<noteq> key" using cut(3) that by blast
    ultimately have "rl_proposalId l \<noteq> rl_proposalId x" using cut(2) by (simp add: in_order_def)
    with k r(2,3) show ?thesis by (simp add: in_order_def)
  qed
  moreover have "in_order l r" using r cut(2) by (simp add: in_order_def)
  ultimately have "sorted_wrt in_order (rls @ [r])" using so cut(1) by (auto simp: sorted_wrt_append)
  moreover have "names_card s r"
    using ok cut(1) r by (auto simp: log_ok_def names_card_def settles_def split: option.splits)
  moreover have "has_origin (rls @ [r]) r" using r cut by (auto simp: has_origin_def)
  moreover have "has_origin (rls @ [r]) x" if "has_origin rls x" for x using that by (auto simp: has_origin_def)
  ultimately show ?thesis using ok by (auto simp: log_ok_def list_all_iff)
qed

lemma latest_key: "latest_release key rls = Some l \<Longrightarrow> rl_idempotencyKey l = key"
  by (erule latest_is_last)

lemma log_ok_reconcile: "log_ok s rls \<Longrightarrow> log_ok s (snd (reconcile_release key outcome receipt rls))"
  by (cases "latest_release key rls")
    (auto simp: reconcile_release_def Let_def settles_def is_unknown_def latest_key intro!: log_ok_settle [of s rls key])

lemma log_ok_step:
  assumes ok: "proposals_ok (hk_proposals k)" and l: "log_ok (hk_proposals k) (hk_releases k)"
  shows "log_ok (hk_proposals (kernel_step env op k)) (hk_releases (kernel_step env op k))"
proof -
  have same: ?thesis if "hk_releases (kernel_step env op k) = hk_releases k"
    using that l names_card_kept [OF ok] by (auto simp: log_ok_def list_all_iff)
  show ?thesis
  proof (cases op)
    case (Promote now input)
    show ?thesis
      by (rule same) (cases input; auto simp: Promote promote_proposal_def create_from_def Let_def split: prod.splits sum.splits)
  next
    case (Confirm_Card pid identity key variant)
    show ?thesis
      by (rule same) (cases rule: confirm_cases [of k pid identity key variant]; simp add: Confirm_Card)
  next
    case (Record_Delivery now pid key outcome receipt)
    show ?thesis
    proof (cases "get_proposal pid (hk_proposals k)")
      case (Some p)
      then have "pr_id p = pid" using ok keys_okD(1) by (auto simp: get_proposal_def proposals_ok_def)
      then show ?thesis using Some l
        by (auto simp: Record_Delivery record_delivery_def Let_def names_card_def intro!: log_ok_record)
    qed (simp add: Record_Delivery record_delivery_def l)
  next
    case (Reconcile_Delivery now key outcome receipt)
    then show ?thesis by (simp add: reconcile_delivery_def Let_def log_ok_reconcile l)
  qed (rule same, simp)+
qed

lemma kernel_log_ok:
  "log_ok (hk_proposals (kernel_run env ops kernel_init)) (hk_releases (kernel_run env ops kernel_init))"
proof -
  have "log_ok (hk_proposals (kernel_run env ops k)) (hk_releases (kernel_run env ops k))"
    if "proposals_ok (hk_proposals k)" "log_ok (hk_proposals k) (hk_releases k)" for k
    using that unfolding kernel_run_def
    by (induction ops arbitrary: k) (simp, metis foldl_Cons kernel_proposals_ok log_ok_step)
  then show ?thesis by (simp add: kernel_init_def proposals_ok_init log_ok_def)
qed

text \<open>C23: The release log is well typed in every state the kernel can reach: a record names an existing proposal
  and carries its hash and lane, two records share a key exactly when they share a proposal, at most
  one record follows another of the same key and then it settles an unknown outcome, and a record
  that claims to settle a receipt settles one that is in the log.\<close>
theorem kernel_log_well_typed:
  "sorted_wrt in_order (hk_releases (kernel_run env ops kernel_init))
   \<and> list_all (names_card (hk_proposals (kernel_run env ops kernel_init))) (hk_releases (kernel_run env ops kernel_init))
   \<and> list_all (has_origin (hk_releases (kernel_run env ops kernel_init))) (hk_releases (kernel_run env ops kernel_init))"
  using kernel_log_ok [of env ops] by (simp add: log_ok_def)

subsection \<open>Reconciliation obligations\<close>

lemma latest_by_key_get: "jm_get (latest_by_key rls) key = latest_release key rls"
  by (induction rls rule: rev_induct) (auto simp: latest_by_key_def latest_release_def)

lemma latest_by_key_ok: "jm_ok (latest_by_key rls)"
  unfolding latest_by_key_def by (induction rls rule: rev_induct) (simp add: jm_ok_def, simp)

text \<open>In a log the kernel can reach, what still needs reconciliation is exactly every receipt with an unknown outcome
  that no other receipt of its key settles.\<close>

lemma obligations_exact:
  assumes "log_ok s rls"
  shows "r \<in> set (needs_reconciliation rls) \<longleftrightarrow>
     r \<in> set rls \<and> is_unknown r \<and> \<not> list_ex (\<lambda>r'. rl_idempotencyKey r' = rl_idempotencyKey r \<and> settles r r') rls"
proof -
  have key: "r \<in> set (needs_reconciliation rls) \<longleftrightarrow> is_unknown r \<and> latest_release (rl_idempotencyKey r) rls = Some r"
  proof -
    have "r \<in> set (jm_values (latest_by_key rls)) \<longleftrightarrow> (\<exists>key. latest_release key rls = Some r)"
      using jm_get_mem [OF latest_by_key_ok, of rls] by (force simp: latest_by_key_get image_iff)
    then show ?thesis using latest_key by (auto simp: needs_reconciliation_def)
  qed
  have so: "sorted_wrt in_order rls" using assms by (simp add: log_ok_def)
  show ?thesis
  proof (cases "latest_release (rl_idempotencyKey r) rls")
    case None
    then have "r \<notin> set rls" by (auto simp: latest_release_def find_None_iff)
    with None show ?thesis by (simp add: key)
  next
    case (Some l)
    obtain before after where cut: "rls = before @ l # after" "rl_idempotencyKey l = rl_idempotencyKey r"
      "\<forall>x \<in> set after. rl_idempotencyKey x \<noteq> rl_idempotencyKey r" using Some by (rule latest_is_last)
    have b: "settles x l" if "x \<in> set before" "rl_idempotencyKey x = rl_idempotencyKey r" for x
      using so that cut(1,2) by (auto simp: sorted_wrt_append in_order_def)
    show ?thesis
    proof (cases "r = l")
      case True
      have "\<not> settles l x" if "x \<in> set rls" "rl_idempotencyKey x = rl_idempotencyKey r" "is_unknown l" for x
      proof -
        have "x \<in> set before \<or> x = l" using that(1,2) cut(1,3) by auto
        then show ?thesis using b that(2,3) by (auto simp: settles_def)
      qed
      moreover have "l \<in> set rls" using cut(1) by simp
      ultimately show ?thesis using Some [unfolded True] key [unfolded True] unfolding list_ex_iff True by metis
    next
      case False
      have "settles r l" if "r \<in> set rls"
      proof -
        have "r \<in> set before" using that cut(1,3) False by auto
        then show ?thesis by (rule b) simp
      qed
      moreover have "l \<in> set rls" using cut(1) by simp
      moreover have "latest_release (rl_idempotencyKey r) rls \<noteq> Some r" using Some False by simp
      ultimately show ?thesis using cut(2) unfolding key list_ex_iff by blast
    qed
  qed
qed

text \<open>The kernel forgets no obligation and invents none: in every state it can reach, what it reports as
  pending reconciliation is exactly the set of receipts with an unknown outcome that no receipt of the
  same key has settled.\<close>
theorem kernel_obligations_exact:
  "set (pending_reconciliations (kernel_run env ops kernel_init)) =
     {r \<in> set (hk_releases (kernel_run env ops kernel_init)). is_unknown r
        \<and> \<not> list_ex (\<lambda>r'. rl_idempotencyKey r' = rl_idempotencyKey r \<and> settles r r')
              (hk_releases (kernel_run env ops kernel_init))}"
  using obligations_exact [OF kernel_log_ok, of _ env ops] by (auto simp: pending_reconciliations_def)

subsection \<open>Two edges of the interface\<close>

text \<open>\<open>recordDelivery\<close> does not ask whether the release was authorised: a receipt for a card that was never confirmed is
  accepted, and from then on its confirmation is answered as a duplicate.\<close>

lemma unauthorised_receipt_blocks:
  assumes "get_proposal pid (hk_proposals k) = Some p" and "pr_id p = pid" and "is_live p"
    and "\<not> has_release_for pid (hk_releases k)" and "\<not> has_idempotency_key key (hk_releases k)"
  shows "\<exists>prior. fst (confirm_proposal pid identity other variant (snd (record_delivery now pid key outcome receipt k)))
     = Duplicate_Refusal pid other (Some prior)"
  using assms by (simp add: record_delivery_def record_release_def confirm_proposal_def find_by_proposal_def Let_def)

text \<open>A path that passes the guard never leaves the directory it is read from, on any prefix of its segments.\<close>

definition walk :: "jsstr list \<Rightarrow> jsstr list \<Rightarrow> jsstr list" where
  "walk = foldl (\<lambda>here seg. if seg = js ''..'' then butlast here else if seg = [] \<or> seg = js ''.'' then here else here @ [seg])"

lemma walk_stays: "js ''..'' \<notin> set segs \<Longrightarrow> prefix base (walk base segs)"
proof (induction segs rule: rev_induct)
  case (snoc seg segs)
  then show ?case by (auto simp: walk_def intro: prefix_prefix)
qed (simp add: walk_def)

lemma safe_path_stays_inside:
  assumes "is_safe_relative_path p" and "prefix segs (path_segments p)"
  shows "prefix base (walk base segs)"
  using assms by (intro walk_stays) (auto simp: is_safe_relative_path_def dest: set_mono_prefix)

end
