(* ===== verification/Watch_Conditions.thy ===== *)
theory Watch_Conditions
  imports Run_Receipts Js_Regex
begin

text \<open>
  The conditions of a watch: \<open>internal-api/watch/condition-evaluator.ts\<close>.

  A condition is validated and resolved at registration and matched against every event of the watched session.
  Text conditions search the assistant text of the turn, which arrives in deltas, so the engine keeps what was said.

  \<^item> A user-supplied pattern is an argument of the model: \<open>rx_valid\<close> says whether \<open>new RegExp\<close> accepts a
    source with its flags, \<open>rx_all\<close> lists index and length of the matches that \<open>matchAll\<close> finds with them.
  \<^item> \<open>resolve_condition\<close> is the registration, \<open>ingest\<close> the engine's step on one event.
\<close>

subsection \<open>Conditions\<close>

datatype condition_kind = Event_Type | Tool_Use | Said_Text | Deadline

text \<open>The declared fields of a specification; those whose type the code itself tests are JSON values.\<close>

record condition_spec =
  cs_id :: "jsstr option"
  cs_type :: json
  cs_eventType :: json
  cs_dataMatch :: "js_object option"
  cs_toolName :: "jsstr option"
  cs_phase :: "jsstr option"
  cs_argIncludes :: "jsstr option"
  cs_contains :: "jsstr option"
  cs_pattern :: "jsstr option"
  cs_patternFlags :: "jsstr option"
  cs_source :: "jsstr option"
  cs_afterSeconds :: json
  cs_once :: json

record regex_env =
  rx_valid :: "jsstr \<Rightarrow> jsstr \<Rightarrow> bool"
  rx_all :: "jsstr \<Rightarrow> jsstr \<Rightarrow> jsstr \<Rightarrow> (nat \<times> nat) list"

record resolved_condition =
  rc_id :: jsstr
  rc_kind :: condition_kind
  rc_spec :: condition_spec
  rc_once :: bool
  rc_regex :: "(jsstr \<times> jsstr) option"

record condition_match =
  cm_conditionId :: jsstr
  cm_eventType :: json
  cm_evidence :: jsstr

definition evidence_max :: nat where "evidence_max = 200"
definition deadline_min_seconds :: int where "deadline_min_seconds = 1"
definition deadline_max_seconds :: int where "deadline_max_seconds = 86400"

definition known_condition_types :: "(string \<times> condition_kind) list" where
  "known_condition_types = [(''event_type'', Event_Type), (''tool'', Tool_Use), (''text'', Said_Text), (''deadline'', Deadline)]"

definition kind_of :: "json \<Rightarrow> condition_kind option" where
  "kind_of v = map_of (map (\<lambda>(s, k). (JStr (js s), k)) known_condition_types) v"

subsection \<open>Registration\<close>

definition validate_condition_spec :: "condition_spec \<Rightarrow> string + condition_kind" where
  "validate_condition_spec spec =
     (case kind_of (cs_type spec) of
        None \<Rightarrow> Inl ''unknown condition type''
      | Some k \<Rightarrow>
          if k = Event_Type \<and> \<not> str_meets (\<lambda>s. js_trim s \<noteq> []) (cs_eventType spec)
          then Inl ''event_type conditions require a non-empty string eventType''
          else if k = Said_Text \<and> cs_contains spec = None \<and> cs_pattern spec = None
          then Inl ''text conditions require contains or pattern''
          else Inr k)"

definition integer_json :: "json \<Rightarrow> int option" where
  "integer_json v = (case v of JNum t \<Rightarrow> integer_of_text t | _ \<Rightarrow> None)"

definition validate_deadline_spec :: "condition_spec \<Rightarrow> string option" where
  "validate_deadline_spec spec =
     (if \<not> (case integer_json (cs_afterSeconds spec) of
              Some n \<Rightarrow> deadline_min_seconds \<le> n \<and> n \<le> deadline_max_seconds | None \<Rightarrow> False)
      then Some ''deadline.afterSeconds must be an integer between 1 and 86400''
      else if cs_once spec = JBool False then Some ''deadline conditions fire exactly once''
      else None)"

text \<open>\<open>spec.id && spec.id.trim()\<close>, else the position.\<close>

definition condition_id :: "condition_spec \<Rightarrow> nat \<Rightarrow> jsstr" where
  "condition_id spec index =
     (case cs_id spec of
        Some s \<Rightarrow> if js_trim s \<noteq> [] then js_trim s else js ''c'' @ nat_text index
      | None \<Rightarrow> js ''c'' @ nat_text index)"

definition condition_regex :: "condition_spec \<Rightarrow> (jsstr \<times> jsstr) option" where
  "condition_regex spec =
     (case cs_pattern spec of
        Some p \<Rightarrow> if p = [] then None
                  else Some (p, case cs_patternFlags spec of Some f \<Rightarrow> f | None \<Rightarrow> js ''i'')
      | None \<Rightarrow> None)"

definition resolve_condition :: "regex_env \<Rightarrow> nat \<Rightarrow> condition_spec \<Rightarrow> string + resolved_condition" where
  "resolve_condition env index spec =
     (case validate_condition_spec spec of
        Inl e \<Rightarrow> Inl e
      | Inr k \<Rightarrow>
          (case (if k = Deadline then validate_deadline_spec spec else None) of
             Some e \<Rightarrow> Inl e
           | None \<Rightarrow>
               let rx = (if k = Said_Text then condition_regex spec else None) in
               if (case rx of Some (p, f) \<Rightarrow> \<not> rx_valid env p f | None \<Rightarrow> False)
               then Inl ''Invalid regular expression''
               else Inr \<lparr> rc_id = condition_id spec index, rc_kind = k,
                          rc_spec = spec \<lparr> cs_id := Some (condition_id spec index) \<rparr>,
                          rc_once = (cs_once spec \<noteq> JBool False), rc_regex = rx \<rparr>))"

fun resolve_from :: "regex_env \<Rightarrow> nat \<Rightarrow> condition_spec list \<Rightarrow> string + resolved_condition list" where
  "resolve_from env i [] = Inr []"
| "resolve_from env i (spec # specs) =
     (case resolve_condition env i spec of
        Inl e \<Rightarrow> Inl e
      | Inr c \<Rightarrow> (case resolve_from env (Suc i) specs of Inl e \<Rightarrow> Inl e | Inr cs \<Rightarrow> Inr (c # cs)))"

definition resolve_conditions :: "regex_env \<Rightarrow> condition_spec list \<Rightarrow> string + resolved_condition list" where
  "resolve_conditions env = resolve_from env 0"

subsection \<open>What an event says\<close>

text \<open>\<open>replace(/\s+/g, ' ')\<close>.\<close>

fun squeeze :: "bool \<Rightarrow> jsstr \<Rightarrow> jsstr" where
  "squeeze b [] = []"
| "squeeze b (c # cs) =
     (if is_js_space c then (if b then squeeze True cs else 32 # squeeze True cs) else c # squeeze False cs)"

definition truncate_evidence :: "jsstr \<Rightarrow> jsstr" where
  "truncate_evidence words =
     (let clean = js_trim (squeeze False words) in
      if length clean > evidence_max then take (evidence_max - 1) clean @ [0x2026] else clean)"

definition event_body :: "js_object \<Rightarrow> json" where
  "event_body event = nullish (getp event ''data'') (JObj [])"

definition content_text :: "json list \<Rightarrow> jsstr" where
  "content_text blocks =
     concat (map (\<lambda>b. js_string (prp b ''text''))
       (filter (\<lambda>b. is_text ''text'' (prp b ''type'') \<and> truthy (prp b ''text'')) blocks))"

definition assistant_delta :: "js_object \<Rightarrow> jsstr" where
  "assistant_delta event =
     (if \<not> is_text ''message_update'' (getp event ''type'') \<and> \<not> is_text ''message_start'' (getp event ''type'') then []
      else
        let data = event_body event; ame = prp data ''assistantMessageEvent'' in
        (case prp data ''text'' of
           JStr t \<Rightarrow> t
         | _ \<Rightarrow>
             if is_text ''text_delta'' (prp ame ''type'') \<and> is_str (prp ame ''delta'') then js_string (prp ame ''delta'')
             else (case prp ame ''content'' of JArr blocks \<Rightarrow> content_text blocks | _ \<Rightarrow> [])))"

definition first_text :: "json \<Rightarrow> string list \<Rightarrow> jsstr" where
  "first_text data ks =
     (case filter (\<lambda>k. is_str (prp data k)) ks of k # _ \<Rightarrow> js_string (prp data k) | [] \<Rightarrow> [])"

definition any_text :: "js_object \<Rightarrow> jsstr" where
  "any_text event =
     (if assistant_delta event \<noteq> [] then assistant_delta event
      else first_text (event_body event) [''text'', ''result'', ''message'', ''summary'', ''content''])"

definition by_user :: "js_object \<Rightarrow> bool" where
  "by_user event =
     (let data = event_body event in
      is_text ''user'' (if is_str (prp data ''role'') then prp data ''role'' else prp (prp data ''message'') ''role''))"

subsection \<open>Matching\<close>

definition occurs_at :: "jsstr \<Rightarrow> jsstr \<Rightarrow> nat \<Rightarrow> bool" where
  "occurs_at needle hay i \<longleftrightarrow> take (length needle) (drop i hay) = needle \<and> i + length needle \<le> length hay"

text \<open>\<open>haystack.indexOf(needle, start)\<close>.\<close>

definition index_of :: "jsstr \<Rightarrow> jsstr \<Rightarrow> nat \<Rightarrow> nat option" where
  "index_of needle hay start =
     (case filter (occurs_at needle hay) [min start (length hay)..<Suc (length hay)] of [] \<Rightarrow> None | i # _ \<Rightarrow> Some i)"

definition with_global :: "jsstr \<Rightarrow> jsstr" where
  "with_global flags = (if 103 \<in> set flags then flags else flags @ js ''g'')"

definition match_regex :: "regex_env \<Rightarrow> resolved_condition \<Rightarrow> jsstr \<Rightarrow> nat \<Rightarrow> jsstr option" where
  "match_regex env c hay newFrom =
     (case rc_regex c of
        None \<Rightarrow> None
      | Some (p, f) \<Rightarrow>
          map_option (\<lambda>(i, n). truncate_evidence (if n \<noteq> 0 then slice i (i + n) hay else p))
            (find (\<lambda>(i, n). newFrom < i + n) (rx_all env p (with_global f) hay)))"

definition match_text :: "regex_env \<Rightarrow> resolved_condition \<Rightarrow> jsstr \<Rightarrow> nat \<Rightarrow> jsstr option" where
  "match_text env c hay newFrom =
     (case cs_contains (rc_spec c) of
        Some needle \<Rightarrow>
          if needle = [] then match_regex env c hay newFrom
          else if index_of needle hay (newFrom + 1 - length needle) = None then None
          else Some (truncate_evidence ([0x2026] @ needle @ [0x2026]))
      | None \<Rightarrow> match_regex env c hay newFrom)"

definition shallow_data_match :: "js_object \<Rightarrow> js_object \<Rightarrow> bool" where
  "shallow_data_match event m \<longleftrightarrow> list_all (\<lambda>(k, v). strict_eq (prop_json (event_body event) k) v) m"

definition or_else :: "json \<Rightarrow> string \<Rightarrow> jsstr" where
  "or_else v d = js_string (nullish v (text_json d))"

definition event_evidence :: "js_object \<Rightarrow> jsstr" where
  "event_evidence event =
     (let data = event_body event; type = js_string (getp event ''type''); interruption = prp data ''interruption'' in
      if prp data ''interruptedByRestart'' = JBool True
      then js ''event '' @ type @ js '' (interrupted by restart: run '' @ or_else (prp data ''runId'') ''unknown''
           @ js '', '' @ or_else (prp data ''interruptionReason'') ''server_restart'' @ js '')''
      else if prp data ''runNeverStarted'' = JBool True
      then js ''event '' @ type @ js '' (run never started: run '' @ or_else (prp data ''runId'') ''unknown''
           @ js '', start window '' @ or_else (prp data ''startWindowMs'') ''unknown'' @ js ''ms)''
      else if is_text ''goal_state'' (getp event ''type'') \<and> prp data ''autoContinued'' = JBool True
      then js ''event goal_state (autoContinued: true, cause: '' @ or_else (prp interruption ''cause'') ''unknown''
           @ js '', continueCount: '' @ or_else (prp interruption ''continueCount'') ''unknown'' @ js '')''
      else if is_text ''goal_state'' (getp event ''type'') \<and> is_text ''interrupted'' (prp data ''pausedReason'')
      then js ''event goal_state (interrupted: cause '' @ or_else (prp interruption ''cause'') ''unknown''
           @ js '', continueCount: '' @ js_string (nullish (prp interruption ''continueCount'') (JNum (js ''0''))) @ js '')''
      else js ''event '' @ type)"

definition tool_evidence :: "condition_spec \<Rightarrow> js_object \<Rightarrow> jsstr option" where
  "tool_evidence spec event =
     (let data = event_body event;
          phase = (case cs_phase spec of Some p \<Rightarrow> p | None \<Rightarrow> js ''start'');
          ending = (phase = js ''end'');
          payload = prp data (if ending then ''result'' else ''args'');
          said = (case payload of JStr s \<Rightarrow> s | _ \<Rightarrow> stringify (nullish payload (JStr []))) in
      if \<not> is_text (if ending then ''tool_execution_end'' else ''tool_execution_start'') (getp event ''type'') then None
      else if (case cs_toolName spec of Some n \<Rightarrow> n \<noteq> [] \<and> prp data ''toolName'' \<noteq> JStr n | None \<Rightarrow> False) then None
      else if (case cs_argIncludes spec of Some n \<Rightarrow> n \<noteq> [] \<and> index_of n said 0 = None | None \<Rightarrow> False) then None
      else Some ((case prp data ''toolName'' of JStr n \<Rightarrow> n | _ \<Rightarrow> js ''tool'') @ js '' ('' @ phase @ js '')''))"

record condition_engine =
  en_conditions :: "resolved_condition list"
  en_buffer :: jsstr
  en_previous :: nat
  en_userMessage :: bool

definition condition_engine_init :: "resolved_condition list \<Rightarrow> condition_engine" where
  "condition_engine_init cs = \<lparr> en_conditions = cs, en_buffer = [], en_previous = 0, en_userMessage = False \<rparr>"

definition match_one :: "regex_env \<Rightarrow> condition_engine \<Rightarrow> js_object \<Rightarrow> jsstr \<Rightarrow> resolved_condition \<Rightarrow> jsstr option" where
  "match_one env en event delta c =
     (let spec = rc_spec c in
      case rc_kind c of
        Event_Type \<Rightarrow>
          if getp event ''type'' \<noteq> cs_eventType spec then None
          else if (case cs_dataMatch spec of Some m \<Rightarrow> \<not> shallow_data_match event m | None \<Rightarrow> False) then None
          else Some (truncate_evidence (event_evidence event))
      | Tool_Use \<Rightarrow> map_option truncate_evidence (tool_evidence spec event)
      | Said_Text \<Rightarrow>
          if cs_source spec = Some (js ''any'')
          then (let hay = (if any_text event \<noteq> [] then any_text event else delta) in
                if hay = [] then None else match_text env c hay 0)
          else if delta = [] then None
          else match_text env c (en_buffer en) (en_previous en)
      | Deadline \<Rightarrow> None)"

text \<open>The text of an event, and the engine after it.\<close>

definition message_role :: "js_object \<Rightarrow> condition_engine \<Rightarrow> condition_engine" where
  "message_role event en =
     (let type = getp event ''type'';
          en1 = (if is_text ''agent_start'' type then en \<lparr> en_buffer := [], en_userMessage := False \<rparr> else en) in
      if is_text ''message_start'' type then en1 \<lparr> en_userMessage := by_user event \<rparr> else en1)"

definition hear :: "js_object \<Rightarrow> condition_engine \<Rightarrow> jsstr \<times> condition_engine" where
  "hear event en0 =
     (let en1 = message_role event en0;
          delta = (if en_userMessage en1 \<or> by_user event then [] else assistant_delta event);
          en2 = (if is_text ''message_end'' (getp event ''type'') then en1 \<lparr> en_userMessage := False \<rparr> else en1) in
      (delta, en2 \<lparr> en_previous := length (en_buffer en2), en_buffer := en_buffer en2 @ delta \<rparr>))"

definition ingest :: "regex_env \<Rightarrow> js_object \<Rightarrow> condition_engine \<Rightarrow> condition_match list \<times> condition_engine" where
  "ingest env event en0 =
     (case hear event en0 of
        (delta, en) \<Rightarrow>
          (List.map_filter (\<lambda>c. map_option
               (\<lambda>e. \<lparr> cm_conditionId = rc_id c, cm_eventType = getp event ''type'', cm_evidence = e \<rparr>)
               (match_one env en event delta c)) (en_conditions en), en))"

subsection \<open>Evidence is bounded\<close>

lemma length_truncate: "length (truncate_evidence s) \<le> 200"
  by (simp add: truncate_evidence_def Let_def evidence_max_def)

lemma match_text_bounded: "match_text env c hay n = Some e \<Longrightarrow> length e \<le> 200"
  by (auto simp: match_text_def match_regex_def length_truncate split: option.splits if_splits)

lemma match_one_bounded: "match_one env en event delta c = Some e \<Longrightarrow> length e \<le> 200"
  by (cases "rc_kind c")
     (auto simp: match_one_def Let_def length_truncate dest: match_text_bounded split: option.splits if_splits)

lemma ingest_evidence: "m \<in> set (fst (ingest env event en)) \<Longrightarrow> length (cm_evidence m) \<le> 200"
  by (auto simp: ingest_def List.map_filter_def match_one_bounded split: prod.splits)

subsection \<open>Text that comes in pieces\<close>

lemma index_of_iff: "index_of needle hay start \<noteq> None \<longleftrightarrow> (\<exists>i. start \<le> i \<and> occurs_at needle hay i)"
  if "needle \<noteq> []"
proof -
  have len: "0 < length needle" using that by simp
  have "index_of needle hay start \<noteq> None
      \<longleftrightarrow> (\<exists>i\<in>set [min start (length hay)..<Suc (length hay)]. occurs_at needle hay i)"
    unfolding index_of_def
    by (metis (no_types, lifting) filter_empty_conv list.exhaust list.simps(4,5) option.distinct(1))
  also have "\<dots> \<longleftrightarrow> (\<exists>i. start \<le> i \<and> occurs_at needle hay i)"
  proof
    assume "\<exists>i. start \<le> i \<and> occurs_at needle hay i"
    then obtain i where i: "start \<le> i" "occurs_at needle hay i" by blast
    then have "i < length hay" using len by (auto simp: occurs_at_def simp del: length_greater_0_conv)
    then show "\<exists>i\<in>set [min start (length hay)..<Suc (length hay)]. occurs_at needle hay i"
      using i by (intro bexI [of _ i]) simp_all
  next
    assume "\<exists>i\<in>set [min start (length hay)..<Suc (length hay)]. occurs_at needle hay i"
    then obtain i where i: "min start (length hay) \<le> i" "occurs_at needle hay i"
      unfolding set_upt by (meson atLeastLessThan_iff)
    then have "i < length hay" using len by (auto simp: occurs_at_def simp del: length_greater_0_conv)
    then show "\<exists>i. start \<le> i \<and> occurs_at needle hay i" using i by (intro exI [of _ i]) simp
  qed
  finally show ?thesis .
qed

lemma occurs_at_prefix: "i + length needle \<le> length b \<Longrightarrow> occurs_at needle (b @ d) i \<longleftrightarrow> occurs_at needle b i"
  by (auto simp: occurs_at_def)

lemma occurs_sublist: "(\<exists>i. occurs_at needle hay i) \<longleftrightarrow> sublist needle hay"
proof
  assume "\<exists>i. occurs_at needle hay i"
  then obtain i where "take (length needle) (drop i hay) = needle" by (auto simp: occurs_at_def)
  then have "hay = take i hay @ needle @ drop (length needle) (drop i hay)"
    by (metis append_take_drop_id)
  then show "sublist needle hay" unfolding sublist_def by blast
next
  assume "sublist needle hay"
  then obtain ps ss where "hay = ps @ needle @ ss" by (auto simp: sublist_def)
  then have "occurs_at needle hay (length ps)" by (simp add: occurs_at_def)
  then show "\<exists>i. occurs_at needle hay i" by blast
qed

lemma match_contains_iff:
  assumes "cs_contains (rc_spec c) = Some needle" and "needle \<noteq> []"
  shows "match_text env c hay n \<noteq> None \<longleftrightarrow> (\<exists>i. occurs_at needle hay i \<and> n < i + length needle)"
  using index_of_iff [OF assms(2), of hay "n + 1 - length needle"] assms
  by (simp add: match_text_def) (auto simp: le_diff_conv less_Suc_eq_le)

lemma message_role_keeps [simp]:
  "en_conditions (message_role event en) = en_conditions en"
  "\<not> is_text ''agent_start'' (getp event ''type'') \<Longrightarrow> en_buffer (message_role event en) = en_buffer en"
  by (simp_all add: message_role_def Let_def)

lemma hear_engine:
  assumes "hear event en = (delta, en')"
  shows "en_conditions en' = en_conditions en"
    and "\<not> is_text ''agent_start'' (getp event ''type'') \<Longrightarrow> en_buffer en' = en_buffer en @ delta \<and> en_previous en' = length (en_buffer en)"
proof -
  define en1 where "en1 = message_role event en"
  obtain b where e: "en' = en1 \<lparr> en_userMessage := b, en_previous := length (en_buffer en1), en_buffer := en_buffer en1 @ delta \<rparr>"
  proof (cases "is_text ''message_end'' (getp event ''type'')")
    case True
    then show thesis using assms that [of False] unfolding hear_def Let_def en1_def [symmetric] by (simp only: if_True) auto
  next
    case False
    then show thesis using assms that [of "en_userMessage en1"] unfolding hear_def Let_def en1_def [symmetric] by (simp only: if_False) auto
  qed
  show "en_conditions en' = en_conditions en" by (simp add: e en1_def)
  show "en_buffer en' = en_buffer en @ delta \<and> en_previous en' = length (en_buffer en)"
    if "\<not> is_text ''agent_start'' (getp event ''type'')"
    using that by (simp add: e en1_def)
qed

text \<open>The runs of an engine: what every event matched, and the engine at the end.\<close>

fun ingest_run :: "regex_env \<Rightarrow> js_object list \<Rightarrow> condition_engine \<Rightarrow> condition_match list \<times> condition_engine" where
  "ingest_run env [] en = ([], en)"
| "ingest_run env (e # es) en =
     (case ingest env e en of (ms, en1) \<Rightarrow> (case ingest_run env es en1 of (ms', en2) \<Rightarrow> (ms @ ms', en2)))"

definition same_turn :: "js_object list \<Rightarrow> bool" where
  "same_turn events \<longleftrightarrow> list_all (\<lambda>e. \<not> is_text ''agent_start'' (getp e ''type'')) events"

lemma ingest_matches:
  assumes "hear event en = (delta, en')" and "c \<in> set (en_conditions en)" and "inj_on rc_id (set (en_conditions en))"
  shows "rc_id c \<in> cm_conditionId ` set (fst (ingest env event en)) \<longleftrightarrow> match_one env en' event delta c \<noteq> None"
    and "snd (ingest env event en) = en'"
proof -
  have "en_conditions en' = en_conditions en" by (rule hear_engine(1) [OF assms(1)])
  then show "rc_id c \<in> cm_conditionId ` set (fst (ingest env event en)) \<longleftrightarrow> match_one env en' event delta c \<noteq> None"
    using assms(2) inj_onD [OF assms(3)]
    by (force simp: ingest_def assms(1) List.map_filter_def image_iff)
  show "snd (ingest env event en) = en'" by (simp add: ingest_def assms(1))
qed

definition assistant_text_condition :: "resolved_condition \<Rightarrow> jsstr \<Rightarrow> bool" where
  "assistant_text_condition c needle \<longleftrightarrow> rc_kind c = Said_Text \<and> cs_source (rc_spec c) \<noteq> Some (js ''any'')
     \<and> cs_contains (rc_spec c) = Some needle \<and> needle \<noteq> []"

lemma match_one_said:
  assumes "assistant_text_condition c needle" and "hear event en = (delta, en')" and "\<not> is_text ''agent_start'' (getp event ''type'')"
  shows "match_one env en' event delta c \<noteq> None
    \<longleftrightarrow> (\<exists>i. occurs_at needle (en_buffer en') i) \<and> delta \<noteq> []
       \<and> (\<exists>i. occurs_at needle (en_buffer en') i \<and> length (en_buffer en) < i + length needle)"
  using assms hear_engine [OF assms(2)] match_contains_iff [of c needle env "en_buffer en'" "en_previous en'"]
  by (auto simp: match_one_def assistant_text_condition_def)

lemma streamed_text:
  assumes "assistant_text_condition c needle" and "same_turn events" and "c \<in> set (en_conditions en)"
    and "inj_on rc_id (set (en_conditions en))" and "ingest_run env events en = (ms, en')"
  shows "sublist needle (en_buffer en') \<longleftrightarrow> sublist needle (en_buffer en) \<or> rc_id c \<in> cm_conditionId ` set ms"
  using assms(2-5)
proof (induction events arbitrary: en ms)
  case (Cons e es)
  obtain delta en1 where h: "hear e en = (delta, en1)" by (cases "hear e en")
  obtain m1 where i: "ingest env e en = (m1, en1)" using ingest_matches(2) [OF h Cons.prems(2,3)] by (metis prod.collapse)
  obtain m2 where r: "ingest_run env es en1 = (m2, en')" "ms = m1 @ m2" using Cons.prems(4) i by (auto split: prod.splits)
  have q: "\<not> is_text ''agent_start'' (getp e ''type'')" "same_turn es" using Cons.prems(1) by (simp_all add: same_turn_def)
  note b = hear_engine [OF h]
  have len: "0 < length needle" using assms(1) by (auto simp: assistant_text_condition_def)
  have "sublist needle (en_buffer en1) \<longleftrightarrow> sublist needle (en_buffer en) \<or> rc_id c \<in> cm_conditionId ` set m1"
  proof -
    have "rc_id c \<in> cm_conditionId ` set m1
      \<longleftrightarrow> delta \<noteq> [] \<and> (\<exists>i. occurs_at needle (en_buffer en1) i \<and> length (en_buffer en) < i + length needle)"
      using ingest_matches(1) [OF h Cons.prems(2,3), of env] match_one_said [OF assms(1) h q(1), of env] i by auto
    moreover have "(\<exists>i. occurs_at needle (en_buffer en1) i) \<longleftrightarrow> (\<exists>i. occurs_at needle (en_buffer en) i)
      \<or> delta \<noteq> [] \<and> (\<exists>i. occurs_at needle (en_buffer en1) i \<and> length (en_buffer en) < i + length needle)"
    proof -
      have buf: "en_buffer en1 = en_buffer en @ delta" using b q(1) by simp
      have "occurs_at needle (en_buffer en) i" if "occurs_at needle (en_buffer en1) i" "i + length needle \<le> length (en_buffer en)" for i
        using that occurs_at_prefix [of i needle "en_buffer en" delta] by (simp add: buf)
      moreover have "occurs_at needle (en_buffer en1) i" if "occurs_at needle (en_buffer en) i" for i
        using that occurs_at_prefix [of i needle "en_buffer en" delta] by (simp add: buf occurs_at_def)
      moreover have "delta \<noteq> []" if "occurs_at needle (en_buffer en1) i" "length (en_buffer en) < i + length needle" for i
        using that by (auto simp: buf occurs_at_def)
      ultimately show ?thesis by (metis not_le)
    qed
    ultimately show ?thesis by (simp add: occurs_sublist)
  qed
  moreover have "sublist needle (en_buffer en') \<longleftrightarrow> sublist needle (en_buffer en1) \<or> rc_id c \<in> cm_conditionId ` set m2"
    using Cons.IH [OF q(2) _ _ r(1)] Cons.prems(2,3) b by simp
  ultimately show ?case by (auto simp: r(2) image_Un)
qed simp

text \<open>C29: A phrase is found however it is cut into deltas: over the events of one turn, an assistant-text condition matches
  at some event exactly when the phrase occurs in the whole text that the assistant has said in the turn.\<close>

theorem streamed_text_is_found:
  assumes "assistant_text_condition c needle" and "same_turn events" and "c \<in> set cs" and "distinct (map rc_id cs)"
    and "ingest_run env events (condition_engine_init cs) = (ms, en)"
  shows "rc_id c \<in> cm_conditionId ` set ms \<longleftrightarrow> sublist needle (en_buffer en)"
proof -
  have "inj_on rc_id (set cs)" using assms(4) by (simp add: distinct_map)
  moreover have "needle \<noteq> []" using assms(1) by (simp add: assistant_text_condition_def)
  ultimately show ?thesis
    using streamed_text [OF assms(1,2) _ _ assms(5)] assms(3) by (simp add: condition_engine_init_def)
qed

text \<open>An empty phrase passes the check that a text condition can match, and then never does.\<close>

lemma empty_phrase_accepted_never_matches:
  assumes "cs_type spec = text_json ''text''" and "cs_contains spec = Some []" and "cs_pattern spec = None"
  shows "\<exists>c. resolve_condition env i spec = Inr c \<and> (\<forall>en event delta. match_one env en event delta c = None)"
  using assms by (simp add: resolve_condition_def validate_condition_spec_def kind_of_def known_condition_types_def text_json_def
      condition_regex_def match_one_def match_text_def match_regex_def Let_def)

end
