(* ===== verification/Watch_Ledger.thy ===== *)
theory Watch_Ledger
  imports Watch_Conditions
begin

text \<open>
  One live watch: \<open>internal-api/watch/watch-manager.ts\<close>, from the event to the ledger and the wake-up.

  A watch observes one session and keeps a ledger: its conditions with their fire counts, the firings, the wake attempts
  and a snapshot of the session's activity. A firing may wake another session through \<open>onFire\<close>.

  \<^item> \<open>watch_record\<close> is the durable ledger (\<open>PersistedWatch\<close>), \<open>live_watch\<close> the \<open>ActiveWatch\<close> around it, and
    \<open>watch_run\<close> adds what all watches share: the steer targets in flight, fresh identities and the effects so far.
  \<^item> A wake attempt is mutated in place once its dispatch answers. \<open>wa_key\<close> stands for the identity of the object, by
    which the answer finds it if it is still in the ledger.
  \<^item> The wake chain is the list of its jobs, run one at a time. Timers are part of the state; a timer that fires, a
    dispatch that answers and a save that fails are inputs, so an event may come in between. One step reads one clock.
\<close>

subsection \<open>The ledger\<close>

datatype wake_mode = Wake_Prompt | Wake_Follow_Up | Wake_Steer
datatype wake_status = Wake_Pending | Wake_Dispatched | Wake_Failed | Wake_Suppressed
datatype delivery_kind = Delivered_Turn | Delivered_Steer | Deferred_Follow_Up
datatype watch_status = Watch_Active | Watch_Detached | Watch_Done | Watch_Closed

record on_fire_action =
  of_target :: jsstr
  of_message :: jsstr
  of_mode :: wake_mode
  of_maxWakeups :: nat
  of_cooldownSeconds :: nat
  of_pinTarget :: bool
  of_includeEvidence :: bool

record watch_condition =
  wc_id :: jsstr
  wc_kind :: condition_kind
  wc_spec :: condition_spec
  wc_fired :: bool
  wc_fireCount :: nat
  wc_firstFiredAt :: "int option"
  wc_lastFiredAt :: "int option"
  wc_dueAt :: "int option"

record watch_firing =
  wf_conditionId :: jsstr
  wf_firedAt :: int
  wf_eventType :: json
  wf_evidence :: jsstr
  wf_reconciled :: bool

record wake_attempt =
  wa_key :: nat
  wa_attemptedAt :: int
  wa_target :: jsstr
  wa_status :: wake_status
  wa_conditionId :: jsstr
  wa_runId :: "jsstr option"
  wa_deliveryKind :: "delivery_kind option"
  wa_errorCode :: "jsstr option"
  wa_reason :: "string option"

record activity_snapshot =
  as_running :: bool
  as_eventCount :: nat
  as_toolCallCount :: nat
  as_sawAgentEnd :: bool
  as_lastEventType :: "json option"
  as_lastEventAt :: "int option"

record watch_record =
  w_watchId :: jsstr
  w_generation :: "jsstr option"
  w_sessionId :: jsstr
  w_sessionPath :: jsstr
  w_runtime :: jsstr
  w_label :: "jsstr option"
  w_sourceSessionId :: "jsstr option"
  w_sourceBrokerKey :: "jsstr option"
  w_status :: watch_status
  w_pinned :: bool
  w_targetPinned :: bool
  w_createdAt :: int
  w_updatedAt :: int
  w_conditions :: "watch_condition list"
  w_onFire :: "on_fire_action option"
  w_wakeAttempts :: "wake_attempt list"
  w_firings :: "watch_firing list"
  w_snapshot :: activity_snapshot

definition default_max_per_condition :: nat where "default_max_per_condition = 50"
definition default_max_total :: nat where "default_max_total = 500"
definition max_wake_attempts_recorded :: nat where "max_wake_attempts_recorded = 50"

definition transient_wake_errors :: "jsstr list" where
  "transient_wake_errors = map js [''SESSION_BUSY'', ''ADMISSION_CAPACITY_EXHAUSTED'', ''PROFILE_CAPACITY_EXHAUSTED'',
     ''WAKE_DISPATCH_UNAVAILABLE'', ''WAKE_DISPATCH_ERROR'', ''SESSION_NOT_STREAMING'']"

definition consumes_wake_budget :: "wake_attempt \<Rightarrow> bool" where
  "consumes_wake_budget a \<longleftrightarrow> wa_status a = Wake_Dispatched
     \<or> (wa_status a = Wake_Failed
        \<and> (case wa_errorCode a of Some e \<Rightarrow> e | None \<Rightarrow> []) \<notin> set transient_wake_errors)
     \<or> wa_status a = Wake_Pending"

definition fires_once :: "condition_spec \<Rightarrow> bool" where
  "fires_once spec \<longleftrightarrow> cs_once spec \<noteq> JBool False"

definition all_one_shot_conditions_fired :: "watch_record \<Rightarrow> bool" where
  "all_one_shot_conditions_fired w \<longleftrightarrow> w_conditions w \<noteq> []
     \<and> list_all (\<lambda>c. fires_once (wc_spec c) \<and> wc_fired c) (w_conditions w)"

subsection \<open>The wake action\<close>

text \<open>The result is the action with its defaults, or the reason of the refusal.\<close>

definition validate_on_fire_action :: "jsstr \<Rightarrow> json \<Rightarrow> string + on_fire_action" where
  "validate_on_fire_action sessionId raw =
     (let str = (\<lambda>k. case prp raw k of JStr s \<Rightarrow> s | _ \<Rightarrow> []);
          target = js_trim (str ''targetSessionId'');
          mode = prp raw ''mode'';
          wakeups = integer_json (nullish (prp raw ''maxWakeups'') (JNum (js ''1'')));
          cooldown = integer_json (nullish (prp raw ''cooldownSeconds'') (JNum (js ''60''))) in
      if \<not> (case raw of JObj _ \<Rightarrow> True | JArr _ \<Rightarrow> True | _ \<Rightarrow> False) then Inl ''onFire must be an object''
      else if \<not> is_text ''prompt'' (prp raw ''type'') then Inl ''onFire.type must be prompt''
      else if target = [] then Inl ''onFire.targetSessionId is required''
      else if target = sessionId then Inl ''onFire.targetSessionId cannot target its own session''
      else if js_trim (str ''message'') = [] then Inl ''onFire.message is required and must be non-empty''
      else if 4000 < length (str ''message'') then Inl ''onFire.message must be at most 4000 characters''
      else if mode \<noteq> JUndef \<and> \<not> Receipt_Schema.one_of [''prompt'', ''follow_up'', ''steer''] mode then Inl ''onFire.mode''
      else if \<not> (case wakeups of Some n \<Rightarrow> 1 \<le> n \<and> n \<le> 10 | None \<Rightarrow> False) then Inl ''onFire.maxWakeups''
      else if \<not> (case cooldown of Some n \<Rightarrow> 0 \<le> n \<and> n \<le> 3600 | None \<Rightarrow> False) then Inl ''onFire.cooldownSeconds''
      else Inr \<lparr> of_target = target, of_message = str ''message'',
             of_mode = (if is_text ''prompt'' mode then Wake_Prompt else if is_text ''steer'' mode then Wake_Steer else Wake_Follow_Up),
             of_maxWakeups = nat (the wakeups), of_cooldownSeconds = nat (the cooldown),
             of_pinTarget = (prp raw ''pinTarget'' \<noteq> JBool False),
             of_includeEvidence = (prp raw ''includeEvidence'' = JBool True) \<rparr>)"

text \<open>
  \<open>replaceAll\<close> with a string replacement reads \<open>$$\<close>, \<open>$&\<close>, \<open>$`\<close> and \<open>$'\<close> in the replacement as a dollar sign, the match,
  what precedes it and what follows it.
\<close>

fun expand_replacement :: "jsstr \<Rightarrow> jsstr \<Rightarrow> jsstr \<Rightarrow> jsstr \<Rightarrow> jsstr" where
  "expand_replacement before found after (d # c # cs) =
     (if d \<noteq> 36 then d # expand_replacement before found after (c # cs)
      else if c = 36 then 36 # expand_replacement before found after cs
      else if c = 38 then found @ expand_replacement before found after cs
      else if c = 96 then before @ expand_replacement before found after cs
      else if c = 39 then after @ expand_replacement before found after cs
      else d # expand_replacement before found after (c # cs))"
| "expand_replacement before found after cs = cs"

text \<open>\<open>skip\<close> counts the characters of the last match still to pass over.\<close>

fun replace_from :: "jsstr \<Rightarrow> jsstr \<Rightarrow> jsstr \<Rightarrow> nat \<Rightarrow> jsstr \<Rightarrow> jsstr" where
  "replace_from pat new before skip [] = []"
| "replace_from pat new before (Suc skip) (c # cs) = replace_from pat new (before @ [c]) skip cs"
| "replace_from pat new before 0 (c # cs) =
     (if prefix pat (c # cs)
      then expand_replacement before pat (drop (length pat) (c # cs)) new
           @ replace_from pat new (before @ [c]) (length pat - 1) cs
      else c # replace_from pat new (before @ [c]) 0 cs)"

definition substitute_text :: "string \<Rightarrow> jsstr \<Rightarrow> jsstr \<Rightarrow> jsstr" where
  "substitute_text pat new hay = replace_from (js pat) new [] 0 hay"

record wake_context =
  wx_conditionId :: jsstr
  wx_eventType :: json
  wx_evidence :: jsstr
  wx_firedAt :: int
  wx_interruption :: "(jsstr \<times> jsstr) option"

definition compose_wake_message :: "(int \<Rightarrow> jsstr) \<Rightarrow> on_fire_action \<Rightarrow> jsstr \<Rightarrow> wake_context \<Rightarrow> jsstr" where
  "compose_wake_message isoOf action sessionId cx =
     (let composed =
        substitute_text ''{{evidence}}'' (if of_includeEvidence action then wx_evidence cx else js ''[evidence excluded]'')
          (substitute_text ''{{firedAt}}'' (isoOf (wx_firedAt cx))
            (substitute_text ''{{sessionId}}'' sessionId
              (substitute_text ''{{eventType}}'' (js_string (wx_eventType cx))
                (substitute_text ''{{conditionId}}'' (wx_conditionId cx) (of_message action))))) in
      case wx_interruption cx of
        None \<Rightarrow> composed
      | Some (run, why) \<Rightarrow> composed @ [10] @ js ''(interrupted by restart: run '' @ run @ js '', '' @ why @ js '')'')"

definition interruption_of :: "js_object \<Rightarrow> (jsstr \<times> jsstr) option" where
  "interruption_of event =
     (let data = event_body event in
      if prp data ''interruptedByRestart'' \<noteq> JBool True then None
      else Some (case prp data ''runId'' of JStr s \<Rightarrow> s | _ \<Rightarrow> js ''unknown'',
                 case prp data ''interruptionReason'' of JStr s \<Rightarrow> s | _ \<Rightarrow> js ''server_restart''))"

subsection \<open>A live watch\<close>

record watch_env =
  we_regex :: regex_env
  we_maxPerCondition :: nat
  we_maxTotal :: nat
  we_dispatches :: bool
  we_surfaces :: bool
  we_iso :: "int \<Rightarrow> jsstr"
  we_uuid :: "nat \<Rightarrow> jsstr"

record wake_input =
  wi_watchId :: jsstr
  wi_target :: jsstr
  wi_message :: jsstr
  wi_mode :: wake_mode
  wi_idempotencyKey :: jsstr

record wake_job =
  wj_key :: nat
  wj_context :: wake_context
  wj_input :: wake_input
  wj_retry :: bool
  wj_started :: bool

record live_watch =
  lw_record :: watch_record
  lw_engine :: condition_engine
  lw_keys :: "jsstr list"
  lw_seen :: "nat list"
  lw_dirty :: bool
  lw_flush :: "string option"
  lw_chain :: "wake_job list"
  lw_retries :: "wake_context list"
  lw_deadlines :: "(jsstr \<times> int \<times> bool) list"

datatype wake_result = Wake_Accepted "jsstr option" "delivery_kind option" | Wake_Refused jsstr

datatype watch_effect =
    Saved string watch_record
  | Sent wake_input
  | Announced_Registration
  | Announced_Firing jsstr int "delivery_kind option"
  | Release_Claims
  | Pinned jsstr jsstr bool
  | Unpinned jsstr jsstr

record watch_run = live_watch +
  wr_steer :: "jsstr jsset"
  wr_fresh :: nat
  wr_out :: "watch_effect list"

definition with_record :: "(watch_record \<Rightarrow> watch_record) \<Rightarrow> watch_run \<Rightarrow> watch_run" where
  "with_record f s = s \<lparr> lw_record := f (lw_record s) \<rparr>"

definition emit :: "watch_effect \<Rightarrow> watch_run \<Rightarrow> watch_run" where
  "emit e s = s \<lparr> wr_out := wr_out s @ [e] \<rparr>"

text \<open>\<open>clearTimeout(flushTimer)\<close>, \<open>snapshotDirty = false\<close> and \<open>persistLive\<close>.\<close>

definition persist_live :: "string \<Rightarrow> watch_run \<Rightarrow> watch_run" where
  "persist_live why s = emit (Saved why (lw_record s)) (s \<lparr> lw_flush := None, lw_dirty := False \<rparr>)"

definition schedule_persist :: "string \<Rightarrow> watch_run \<Rightarrow> watch_run" where
  "schedule_persist why s = (if lw_flush s \<noteq> None then s else s \<lparr> lw_flush := Some why \<rparr>)"

definition flush_fires :: "watch_run \<Rightarrow> watch_run" where
  "flush_fires s =
     (case lw_flush s of
        None \<Rightarrow> s
      | Some why \<Rightarrow> if lw_dirty s then persist_live why s else s \<lparr> lw_flush := None \<rparr>)"

definition save_failed :: "watch_run \<Rightarrow> watch_run" where
  "save_failed s = schedule_persist ''retry'' (s \<lparr> lw_dirty := True \<rparr>)"

subsection \<open>Completion and the wake policy\<close>

definition complete_watch :: "int \<Rightarrow> watch_run \<Rightarrow> watch_run" where
  "complete_watch now s =
     (let w = lw_record s in
      if w_status w = Watch_Done \<or> \<not> all_one_shot_conditions_fired w
         \<or> list_ex (\<lambda>a. wa_status a = Wake_Pending) (w_wakeAttempts w) \<or> lw_retries s \<noteq> [] then s
      else emit Release_Claims
        (with_record (\<lambda>w. w \<lparr> w_status := Watch_Done, w_updatedAt := now \<rparr>) s \<lparr> lw_keys := [], lw_retries := [], lw_deadlines := [] \<rparr>))"

definition complete_if_all_fired :: "int \<Rightarrow> watch_run \<Rightarrow> watch_run" where
  "complete_if_all_fired now s = (if all_one_shot_conditions_fired (lw_record s) then complete_watch now s else s)"

definition record_attempt :: "int \<Rightarrow> wake_attempt \<Rightarrow> watch_run \<Rightarrow> watch_run" where
  "record_attempt now a s =
     with_record (\<lambda>w. w \<lparr> w_wakeAttempts := keep_last max_wake_attempts_recorded (w_wakeAttempts w @ [a]), w_updatedAt := now \<rparr>)
       s \<lparr> wr_fresh := Suc (wr_fresh s) \<rparr>"

definition new_attempt :: "int \<Rightarrow> on_fire_action \<Rightarrow> jsstr \<Rightarrow> watch_run \<Rightarrow> wake_attempt" where
  "new_attempt now action cid s = \<lparr> wa_key = wr_fresh s, wa_attemptedAt = now, wa_target = of_target action,
     wa_status = Wake_Pending, wa_conditionId = cid, wa_runId = None, wa_deliveryKind = None, wa_errorCode = None, wa_reason = None \<rparr>"

definition suppress_wake :: "int \<Rightarrow> on_fire_action \<Rightarrow> jsstr \<Rightarrow> string \<Rightarrow> watch_run \<Rightarrow> watch_run" where
  "suppress_wake now action cid why s =
     persist_live ''wake-attempt''
       (record_attempt now ((new_attempt now action cid s) \<lparr> wa_status := Wake_Suppressed, wa_reason := Some why \<rparr>) s)"

definition wake_budget_used :: "wake_attempt list \<Rightarrow> nat" where
  "wake_budget_used as = length (filter consumes_wake_budget as)"

definition last_dispatched_at :: "wake_attempt list \<Rightarrow> int" where
  "last_dispatched_at as = foldl max 0 (map wa_attemptedAt (filter (\<lambda>a. wa_status a \<noteq> Wake_Suppressed) as))"

definition wake_refusal :: "int \<Rightarrow> on_fire_action \<Rightarrow> watch_run \<Rightarrow> string option" where
  "wake_refusal now action s =
     (let as = w_wakeAttempts (lw_record s) in
      if of_maxWakeups action \<le> wake_budget_used as then Some ''max_wakeups_reached''
      else if 0 < last_dispatched_at as \<and> now - last_dispatched_at as < int (of_cooldownSeconds action) * 1000
      then Some ''cooldown''
      else if of_mode action = Wake_Steer \<and> of_target action \<in> set (wr_steer s) then Some ''steer_pending''
      else None)"

definition queue_wake :: "watch_env \<Rightarrow> int \<Rightarrow> on_fire_action \<Rightarrow> wake_context \<Rightarrow> bool \<Rightarrow> watch_run \<Rightarrow> watch_run" where
  "queue_wake env now action cx retry s =
     (let w = lw_record s;
          input = \<lparr> wi_watchId = w_watchId w, wi_target = of_target action,
            wi_message = compose_wake_message (we_iso env) action (w_sessionId w) cx, wi_mode = of_mode action,
            wi_idempotencyKey = js ''wake:'' @ w_watchId w @ js '':'' @ we_uuid env (wr_fresh s) \<rparr>;
          s1 = record_attempt now (new_attempt now action (wx_conditionId cx) s) s in
      s1 \<lparr> wr_steer := (if of_mode action = Wake_Steer then js_add (of_target action) (wr_steer s) else wr_steer s),
           lw_chain := lw_chain s @ [\<lparr> wj_key = wr_fresh s, wj_context = cx, wj_input = input, wj_retry = retry, wj_started = False \<rparr>] \<rparr>)"

definition dispatch_wake_for_firing :: "watch_env \<Rightarrow> int \<Rightarrow> wake_context \<Rightarrow> bool \<Rightarrow> watch_run \<Rightarrow> watch_run" where
  "dispatch_wake_for_firing env now cx retry s =
     (case w_onFire (lw_record s) of
        None \<Rightarrow> s
      | Some action \<Rightarrow>
          (case wake_refusal now action s of
             Some why \<Rightarrow> complete_if_all_fired now (suppress_wake now action (wx_conditionId cx) why s)
           | None \<Rightarrow> queue_wake env now action cx retry s))"

text \<open>The dispatch of the job at the head of the chain: its start, and its answer.\<close>

definition answered_attempt :: "int \<Rightarrow> wake_result \<Rightarrow> wake_attempt \<Rightarrow> wake_attempt" where
  "answered_attempt now result a =
     (case result of
        Wake_Accepted run kind \<Rightarrow> a \<lparr> wa_attemptedAt := now, wa_status := Wake_Dispatched, wa_runId := run, wa_deliveryKind := kind \<rparr>
      | Wake_Refused code \<Rightarrow> a \<lparr> wa_attemptedAt := now, wa_status := Wake_Failed, wa_errorCode := Some code \<rparr>)"

definition announce :: "watch_env \<Rightarrow> watch_effect \<Rightarrow> watch_run \<Rightarrow> watch_run" where
  "announce env e s = (if we_surfaces env \<and> w_sourceSessionId (lw_record s) \<noteq> None then emit e s else s)"

definition answer_attempt :: "watch_env \<Rightarrow> int \<Rightarrow> wake_result \<Rightarrow> wake_job \<Rightarrow> watch_run \<Rightarrow> watch_run" where
  "answer_attempt env now result job s =
     (let s1 = with_record (\<lambda>w. w \<lparr> w_wakeAttempts :=
                   map (\<lambda>a. if wa_key a = wj_key job then answered_attempt now result a else a) (w_wakeAttempts w), w_updatedAt := now \<rparr>) s in
      persist_live ''wake-attempt''
        (case result of
           Wake_Accepted run kind \<Rightarrow>
             announce env (Announced_Firing (wx_conditionId (wj_context job)) (wx_firedAt (wj_context job)) kind) s1
         | Wake_Refused code \<Rightarrow> s1))"

definition retries_wake :: "wake_result \<Rightarrow> wake_job \<Rightarrow> bool" where
  "retries_wake result job \<longleftrightarrow>
     (case result of Wake_Refused code \<Rightarrow> code \<in> set transient_wake_errors | _ \<Rightarrow> False) \<and> \<not> wj_retry job"

definition settle_wake :: "watch_env \<Rightarrow> int \<Rightarrow> wake_result \<Rightarrow> wake_job \<Rightarrow> watch_run \<Rightarrow> watch_run" where
  "settle_wake env now result job s0 =
     (let s1 = answer_attempt env now result job s0;
          s2 = (if retries_wake result job then s1 \<lparr> lw_retries := lw_retries s1 @ [wj_context job] \<rparr>
                else complete_if_all_fired now s1) in
      if wi_mode (wj_input job) = Wake_Steer then s2 \<lparr> wr_steer := js_remove (wi_target (wj_input job)) (wr_steer s2) \<rparr> else s2)"

definition wake_starts :: "watch_env \<Rightarrow> int \<Rightarrow> watch_run \<Rightarrow> watch_run" where
  "wake_starts env now s =
     (case lw_chain s of
        [] \<Rightarrow> s
      | job # jobs \<Rightarrow>
          if wj_started job then s
          else if we_dispatches env
          then emit (Sent (wj_input job)) (s \<lparr> lw_chain := job \<lparr> wj_started := True \<rparr> # jobs \<rparr>)
          else settle_wake env now (Wake_Refused (js ''WAKE_DISPATCH_UNAVAILABLE'')) job (s \<lparr> lw_chain := jobs \<rparr>))"

definition wake_answers :: "watch_env \<Rightarrow> int \<Rightarrow> wake_result \<Rightarrow> watch_run \<Rightarrow> watch_run" where
  "wake_answers env now result s =
     (case lw_chain s of
        [] \<Rightarrow> s
      | job # jobs \<Rightarrow> if wj_started job then settle_wake env now result job (s \<lparr> lw_chain := jobs \<rparr>) else s)"

definition retry_fires :: "watch_env \<Rightarrow> int \<Rightarrow> nat \<Rightarrow> watch_run \<Rightarrow> watch_run" where
  "retry_fires env now i s =
     (if i < length (lw_retries s)
      then dispatch_wake_for_firing env now (lw_retries s ! i) True (s \<lparr> lw_retries := splice_out i (lw_retries s) \<rparr>)
      else s)"

subsection \<open>Firings\<close>

record firing_input =
  fi_eventType :: json
  fi_evidence :: jsstr
  fi_firedAt :: int
  fi_reconciled :: bool
  fi_interruption :: "(jsstr \<times> jsstr) option"

definition fired_condition :: "int \<Rightarrow> watch_condition \<Rightarrow> watch_condition" where
  "fired_condition t c = c \<lparr> wc_fireCount := Suc (wc_fireCount c), wc_lastFiredAt := Some t,
     wc_firstFiredAt := (if wc_fired c then wc_firstFiredAt c else Some t), wc_fired := True \<rparr>"

definition may_fire :: "watch_env \<Rightarrow> watch_record \<Rightarrow> watch_condition \<Rightarrow> bool" where
  "may_fire env w c \<longleftrightarrow> \<not> (fires_once (wc_spec c) \<and> wc_fired c) \<and> wc_fireCount c < we_maxPerCondition env
     \<and> length (w_firings w) < we_maxTotal env"

definition append_firing :: "nat \<Rightarrow> firing_input \<Rightarrow> watch_record \<Rightarrow> watch_record" where
  "append_firing i f w = w \<lparr> w_firings := w_firings w @ [\<lparr> wf_conditionId = wc_id (w_conditions w ! i), wf_firedAt = fi_firedAt f,
       wf_eventType = fi_eventType f, wf_evidence = fi_evidence f, wf_reconciled = fi_reconciled f \<rparr>],
     w_conditions := (w_conditions w)[i := fired_condition (fi_firedAt f) (w_conditions w ! i)] \<rparr>"

text \<open>
  \<open>recordFiring\<close> on the condition at position \<open>i\<close>. The budget is the \<open>WakeBudget\<close> of a restart reconciliation; the result
  says whether a firing was recorded.
\<close>

definition record_firing :: "watch_env \<Rightarrow> int \<Rightarrow> nat \<Rightarrow> firing_input \<Rightarrow> nat option \<times> watch_run \<Rightarrow> bool \<times> nat option \<times> watch_run" where
  "record_firing env now i f st =
     (case st of (budget, s) \<Rightarrow>
        let w = lw_record s; c = w_conditions w ! i;
            cx = \<lparr> wx_conditionId = wc_id c, wx_eventType = fi_eventType f, wx_evidence = fi_evidence f,
                   wx_firedAt = fi_firedAt f, wx_interruption = fi_interruption f \<rparr>;
            s1 = with_record (append_firing i f) s in
        if \<not> may_fire env w c then (False, budget, s)
        else (True,
          case w_onFire w of
            None \<Rightarrow> (budget, announce env (Announced_Firing (wc_id c) (fi_firedAt f) None) s1)
          | Some action \<Rightarrow>
              (case budget of
                 Some 0 \<Rightarrow> (budget, suppress_wake now action (wc_id c) ''coalesced_restart_reconciliation'' s1)
               | _ \<Rightarrow> (map_option (\<lambda>n. n - 1) budget, dispatch_wake_for_firing env now cx False s1))))"

text \<open>\<open>event.timestamp ?? Date.now()\<close>.\<close>

definition event_time :: "int \<Rightarrow> js_object \<Rightarrow> int" where
  "event_time now event = (case integer_json (getp event ''timestamp'') of Some t \<Rightarrow> t | None \<Rightarrow> now)"

definition observe_activity :: "int \<Rightarrow> js_object \<Rightarrow> activity_snapshot \<Rightarrow> activity_snapshot" where
  "observe_activity now event sn0 =
     (let type = getp event ''type'';
          sn1 = sn0 \<lparr> as_eventCount := Suc (as_eventCount sn0), as_lastEventType := Some type,
                      as_lastEventAt := Some (event_time now event) \<rparr>;
          sn2 = (if is_text ''tool_execution_start'' type then sn1 \<lparr> as_toolCallCount := Suc (as_toolCallCount sn1) \<rparr> else sn1);
          sn3 = (if is_text ''agent_start'' type then sn2 \<lparr> as_running := True \<rparr> else sn2) in
      if is_text ''agent_end'' type then sn3 \<lparr> as_running := False, as_sawAgentEnd := True \<rparr> else sn3)"

fun record_matches :: "watch_env \<Rightarrow> int \<Rightarrow> js_object \<Rightarrow> condition_match list \<Rightarrow> nat option \<times> watch_run \<Rightarrow> bool \<times> nat option \<times> watch_run" where
  "record_matches env now event [] st = (False, st)"
| "record_matches env now event (m # ms) st =
     (let w = lw_record (snd st) in
      case find_index (\<lambda>c. wc_id c = cm_conditionId m) (w_conditions w) of
        None \<Rightarrow> record_matches env now event ms st
      | Some i \<Rightarrow>
          if we_maxTotal env \<le> length (w_firings w) then (False, st)
          else
            (case record_firing env now i \<lparr> fi_eventType = cm_eventType m, fi_evidence = cm_evidence m,
                fi_firedAt = event_time now event, fi_reconciled = False, fi_interruption = interruption_of event \<rparr> st of
               (fired, st1) \<Rightarrow>
                 (case record_matches env now event ms st1 of (fired', st2) \<Rightarrow> (fired \<or> fired', st2))))"

text \<open>What a recorded firing leaves to its caller: completion of a watch that wakes nobody, and persistence.\<close>

definition complete_observer :: "int \<Rightarrow> watch_run \<Rightarrow> watch_run" where
  "complete_observer now s = (if w_onFire (lw_record s) = None then complete_if_all_fired now s else s)"

definition handle_event :: "watch_env \<Rightarrow> int \<Rightarrow> js_object \<Rightarrow> nat option \<times> watch_run \<Rightarrow> nat option \<times> watch_run" where
  "handle_event env now event st =
     (case st of (budget, s) \<Rightarrow>
        if w_status (lw_record s) \<noteq> Watch_Active then st
        else
          let s1 = with_record (\<lambda>w. w \<lparr> w_snapshot := observe_activity now event (w_snapshot w) \<rparr>) s;
              heard = (if length (w_firings (lw_record s)) < we_maxTotal env
                       then case ingest (we_regex env) event (lw_engine s) of
                              (ms, en) \<Rightarrow> record_matches env now event ms (budget, s1 \<lparr> lw_engine := en \<rparr>)
                       else (False, budget, s1)) in
          case heard of (fired, budget2, s2) \<Rightarrow>
            let s3 = with_record (\<lambda>w. w \<lparr> w_updatedAt := now \<rparr>) s2 in
            (budget2,
             if fired then persist_live ''firing'' (complete_observer now s3)
             else schedule_persist ''snapshot'' (s3 \<lparr> lw_dirty := True \<rparr>)))"

text \<open>The broker's callback: the same event object may arrive under both keys of the session.\<close>

definition hear_broker :: "watch_env \<Rightarrow> int \<Rightarrow> nat \<Rightarrow> js_object \<Rightarrow> watch_run \<Rightarrow> watch_run" where
  "hear_broker env now uid event s =
     (if uid \<in> set (lw_seen s) \<or> lw_keys s = [] then s
      else snd (handle_event env now event (None, s \<lparr> lw_seen := lw_seen s @ [uid] \<rparr>)))"

subsection \<open>Deadlines\<close>

definition arm_deadlines :: "int \<Rightarrow> bool \<Rightarrow> watch_condition list \<Rightarrow> (jsstr \<times> int \<times> bool) list" where
  "arm_deadlines now rehydrating cs =
     List.map_filter (\<lambda>c. case wc_dueAt c of
         Some due \<Rightarrow> if wc_kind c = Deadline \<and> \<not> wc_fired c then Some (wc_id c, due, rehydrating \<and> due \<le> now) else None
       | None \<Rightarrow> None) cs"

definition fire_deadline :: "watch_env \<Rightarrow> int \<Rightarrow> jsstr \<Rightarrow> bool \<Rightarrow> watch_run \<Rightarrow> watch_run" where
  "fire_deadline env now cid reconciled s =
     (let w = lw_record s in
      if w_status w \<noteq> Watch_Active then s
      else case find_index (\<lambda>c. wc_id c = cid) (w_conditions w) of
        None \<Rightarrow> s
      | Some i \<Rightarrow>
          let c = w_conditions w ! i in
          (case wc_dueAt c of
             None \<Rightarrow> s
           | Some due \<Rightarrow>
               if wc_fired c then s
               else if now < due then s \<lparr> lw_deadlines := lw_deadlines s @ [(cid, due, reconciled)] \<rparr>
               else
                 (case record_firing env now i \<lparr> fi_eventType = text_json ''deadline'',
                    fi_evidence = js ''deadline '' @ js_string (cs_afterSeconds (wc_spec c)) @ js ''s elapsed (due '' @ we_iso env due @ js '')'',
                    fi_firedAt = now, fi_reconciled = reconciled, fi_interruption = None \<rparr> (None, s) of
                    (recorded, _, s1) \<Rightarrow>
                      if \<not> recorded then s1
                      else persist_live ''firing'' (complete_observer now (with_record (\<lambda>w. w \<lparr> w_updatedAt := now \<rparr>) s1)))))"

definition deadline_fires :: "watch_env \<Rightarrow> int \<Rightarrow> nat \<Rightarrow> watch_run \<Rightarrow> watch_run" where
  "deadline_fires env now i s =
     (if i < length (lw_deadlines s)
      then case lw_deadlines s ! i of
             (cid, _, reconciled) \<Rightarrow> fire_deadline env now cid reconciled (s \<lparr> lw_deadlines := splice_out i (lw_deadlines s) \<rparr>)
      else s)"

subsection \<open>Settled at registration\<close>

record subject_settlement =
  ss_settled :: bool
  ss_reason :: "jsstr option"
  ss_lastRunId :: "jsstr option"
  ss_lastRunStatus :: "jsstr option"

record settled_result =
  sr_settled :: bool
  sr_firedConditionIds :: "jsstr list"
  sr_skippedConditionIds :: "jsstr list"

definition completion_condition :: "watch_condition \<Rightarrow> bool" where
  "completion_condition c \<longleftrightarrow> wc_kind c = Event_Type \<and> Receipt_Schema.one_of [''agent_end'', ''goal_end''] (cs_eventType (wc_spec c))"

definition settlement_note :: "subject_settlement \<Rightarrow> jsstr" where
  "settlement_note st =
     (case ss_lastRunId st of
        Some r \<Rightarrow> if r = [] then []
          else js '' (last run '' @ r @ (case ss_lastRunStatus st of Some x \<Rightarrow> if x = [] then [] else js '' '' @ x | None \<Rightarrow> []) @ js '')''
      | None \<Rightarrow> [])"

fun settle_conditions :: "watch_env \<Rightarrow> int \<Rightarrow> subject_settlement \<Rightarrow> nat list \<Rightarrow> settled_result \<times> watch_run \<Rightarrow> settled_result \<times> watch_run" where
  "settle_conditions env now st [] (r, s) = (r, s)"
| "settle_conditions env now st (i # is) (r, s) =
     (let c = w_conditions (lw_record s) ! i in
      if \<not> completion_condition c then settle_conditions env now st is (r, s)
      else if (case cs_dataMatch (wc_spec c) of Some m \<Rightarrow> m \<noteq> [] | None \<Rightarrow> False)
      then settle_conditions env now st is (r \<lparr> sr_skippedConditionIds := sr_skippedConditionIds r @ [wc_id c] \<rparr>, s)
      else if fires_once (wc_spec c) \<and> wc_fired c then settle_conditions env now st is (r, s)
      else
        (case record_firing env now i \<lparr> fi_eventType = cs_eventType (wc_spec c),
            fi_evidence = js ''settled at registration'' @ settlement_note st, fi_firedAt = now, fi_reconciled = True,
            fi_interruption = None \<rparr> (None, s) of
           (recorded, _, s1) \<Rightarrow>
             settle_conditions env now st is
               (if recorded then r \<lparr> sr_firedConditionIds := sr_firedConditionIds r @ [wc_id c] \<rparr> else r, s1)))"

definition apply_fire_if_settled :: "watch_env \<Rightarrow> int \<Rightarrow> subject_settlement \<Rightarrow> watch_run \<Rightarrow> settled_result \<times> watch_run" where
  "apply_fire_if_settled env now st s =
     (let r0 = \<lparr> sr_settled = ss_settled st, sr_firedConditionIds = [], sr_skippedConditionIds = [] \<rparr> in
      if \<not> ss_settled st \<or> w_status (lw_record s) \<noteq> Watch_Active then (r0, s)
      else
        (case settle_conditions env now st [0..<length (w_conditions (lw_record s))] (r0, s) of
           (r, s1) \<Rightarrow>
             (r, if sr_firedConditionIds r = [] then s1
                 else persist_live ''firing'' (complete_observer now (with_record (\<lambda>w. w \<lparr> w_updatedAt := now \<rparr>) s1)))))"

subsection \<open>A new watch\<close>

record watch_params =
  wp_sessionId :: jsstr
  wp_sessionPath :: jsstr
  wp_runtime :: jsstr
  wp_sourceSessionId :: "jsstr option"
  wp_sourceBrokerKey :: "jsstr option"
  wp_label :: "jsstr option"
  wp_conditions :: "condition_spec list"
  wp_onFire :: json
  wp_pin :: bool
  wp_expectedGeneration :: json
  wp_fireIfSettled :: json

definition condition_states :: "int \<Rightarrow> resolved_condition list \<Rightarrow> watch_condition list" where
  "condition_states now = map (\<lambda>c. \<lparr> wc_id = rc_id c, wc_kind = rc_kind c, wc_spec = rc_spec c, wc_fired = False,
     wc_fireCount = 0, wc_firstFiredAt = None, wc_lastFiredAt = None,
     wc_dueAt = (if rc_kind c = Deadline
                 then map_option (\<lambda>n. now + n * 1000) (integer_json (cs_afterSeconds (rc_spec c))) else None) \<rparr>)"

definition new_watch_record ::
    "int \<Rightarrow> jsstr \<Rightarrow> watch_params \<Rightarrow> on_fire_action option \<Rightarrow> bool \<Rightarrow> bool \<Rightarrow> resolved_condition list \<Rightarrow> watch_record" where
  "new_watch_record now generation ps action pinned targetPinned resolved =
     \<lparr> w_watchId = js ''watch-'' @ wp_sessionId ps, w_generation = Some generation, w_sessionId = wp_sessionId ps,
       w_sessionPath = wp_sessionPath ps, w_runtime = wp_runtime ps, w_label = wp_label ps,
       w_sourceSessionId = wp_sourceSessionId ps, w_sourceBrokerKey = wp_sourceBrokerKey ps, w_status = Watch_Active,
       w_pinned = pinned, w_targetPinned = targetPinned, w_createdAt = now, w_updatedAt = now,
       w_conditions = condition_states now resolved, w_onFire = action, w_wakeAttempts = [], w_firings = [],
       w_snapshot = \<lparr> as_running = False, as_eventCount = 0, as_toolCallCount = 0, as_sawAgentEnd = False,
                      as_lastEventType = None, as_lastEventAt = None \<rparr> \<rparr>"

definition activate_watch :: "int \<Rightarrow> bool \<Rightarrow> watch_record \<Rightarrow> resolved_condition list \<Rightarrow> live_watch" where
  "activate_watch now rehydrating w resolved =
     \<lparr> lw_record = w, lw_engine = condition_engine_init resolved,
       lw_keys = w_sessionId w # (if w_sessionPath w \<noteq> [] \<and> w_sessionPath w \<noteq> w_sessionId w then [w_sessionPath w] else []),
       lw_seen = [], lw_dirty = False, lw_flush = None, lw_chain = [], lw_retries = [],
       lw_deadlines = arm_deadlines now rehydrating (w_conditions w) \<rparr>"

definition run_of :: "live_watch \<Rightarrow> jsstr jsset \<Rightarrow> nat \<Rightarrow> watch_run" where
  "run_of v steer fresh = live_watch.extend v \<lparr> wr_steer = steer, wr_fresh = fresh, wr_out = [] \<rparr>"

end
