(* ===== verification/Watch_Runs.thy ===== *)
theory Watch_Runs
  imports Watch_Ledger
begin

text \<open>
  What holds of every run of a live watch.

  A run is any sequence of the inputs of \<open>Watch_Ledger\<close>, each at any time. \<open>watch_invariant\<close> is the interface of an
  invariant of the durable ledger: what it must survive is the few changes that the operations are made of.
\<close>

subsection \<open>Steps and runs\<close>

datatype watch_input =
    Hears_Event nat js_object
  | Hears_Reconciliation "nat option" js_object
  | Wake_Starts
  | Wake_Answers wake_result
  | Retry_Fires nat
  | Deadline_Fires nat
  | Flush_Fires
  | Save_Fails
  | Settles subject_settlement

fun watch_step :: "watch_env \<Rightarrow> int \<Rightarrow> watch_input \<Rightarrow> watch_run \<Rightarrow> watch_run" where
  "watch_step env now (Hears_Event uid event) s = hear_broker env now uid event s"
| "watch_step env now (Hears_Reconciliation budget event) s = snd (handle_event env now event (budget, s))"
| "watch_step env now Wake_Starts s = wake_starts env now s"
| "watch_step env now (Wake_Answers result) s = wake_answers env now result s"
| "watch_step env now (Retry_Fires i) s = retry_fires env now i s"
| "watch_step env now (Deadline_Fires i) s = deadline_fires env now i s"
| "watch_step env now Flush_Fires s = flush_fires s"
| "watch_step env now Save_Fails s = save_failed s"
| "watch_step env now (Settles st) s = snd (apply_fire_if_settled env now st s)"

inductive watch_reaches :: "watch_env \<Rightarrow> watch_run \<Rightarrow> watch_run \<Rightarrow> bool" for env s0 where
  here: "watch_reaches env s0 s0"
| there: "watch_reaches env s0 s \<Longrightarrow> watch_reaches env s0 (watch_step env now input s)"

subsection \<open>What the bookkeeping leaves alone\<close>

lemma bookkeeping_record [simp]:
  "lw_record (emit e s) = lw_record s"
  "lw_record (persist_live why s) = lw_record s"
  "lw_record (schedule_persist why s) = lw_record s"
  "lw_record (flush_fires s) = lw_record s"
  "lw_record (save_failed s) = lw_record s"
  "lw_record (announce env e s) = lw_record s"
  "lw_record (with_record f s) = f (lw_record s)"
  by (simp_all add: emit_def persist_live_def schedule_persist_def flush_fires_def save_failed_def announce_def with_record_def
      split: option.split)

lemma bookkeeping_rest [simp]:
  "lw_chain (emit e s) = lw_chain s" "lw_retries (emit e s) = lw_retries s" "lw_deadlines (emit e s) = lw_deadlines s" "lw_engine (emit e s) = lw_engine s" "wr_fresh (emit e s) = wr_fresh s"
  "lw_chain (persist_live why s) = lw_chain s" "lw_retries (persist_live why s) = lw_retries s" "lw_deadlines (persist_live why s) = lw_deadlines s" "lw_engine (persist_live why s) = lw_engine s" "wr_fresh (persist_live why s) = wr_fresh s"
  "lw_chain (schedule_persist why s) = lw_chain s" "lw_retries (schedule_persist why s) = lw_retries s" "lw_deadlines (schedule_persist why s) = lw_deadlines s" "lw_engine (schedule_persist why s) = lw_engine s" "wr_fresh (schedule_persist why s) = wr_fresh s"
  "lw_chain (flush_fires s) = lw_chain s" "lw_retries (flush_fires s) = lw_retries s" "lw_deadlines (flush_fires s) = lw_deadlines s" "lw_engine (flush_fires s) = lw_engine s" "wr_fresh (flush_fires s) = wr_fresh s"
  "lw_chain (save_failed s) = lw_chain s" "lw_retries (save_failed s) = lw_retries s" "lw_deadlines (save_failed s) = lw_deadlines s" "lw_engine (save_failed s) = lw_engine s" "wr_fresh (save_failed s) = wr_fresh s"
  "lw_chain (announce env e s) = lw_chain s" "lw_retries (announce env e s) = lw_retries s" "lw_deadlines (announce env e s) = lw_deadlines s" "lw_engine (announce env e s) = lw_engine s" "wr_fresh (announce env e s) = wr_fresh s"
  "lw_chain (with_record f s) = lw_chain s" "lw_retries (with_record f s) = lw_retries s" "lw_deadlines (with_record f s) = lw_deadlines s" "lw_engine (with_record f s) = lw_engine s" "wr_fresh (with_record f s) = wr_fresh s"
  by (simp_all add: emit_def persist_live_def schedule_persist_def flush_fires_def save_failed_def announce_def with_record_def
      split: option.split)

lemma answer_attempt_keeps [simp]:
  "lw_record (answer_attempt env now result job s) = (lw_record s) \<lparr> w_wakeAttempts :=
     map (\<lambda>a. if wa_key a = wj_key job then answered_attempt now result a else a) (w_wakeAttempts (lw_record s)), w_updatedAt := now \<rparr>"
  "lw_chain (answer_attempt env now result job s) = lw_chain s" "lw_retries (answer_attempt env now result job s) = lw_retries s"
  "lw_deadlines (answer_attempt env now result job s) = lw_deadlines s" "lw_engine (answer_attempt env now result job s) = lw_engine s"
  "wr_fresh (answer_attempt env now result job s) = wr_fresh s"
  by (simp_all add: answer_attempt_def Let_def split: wake_result.split)

lemma wake_refusal_None:
  "wake_refusal now action s = None \<Longrightarrow> wake_budget_used (w_wakeAttempts (lw_record s)) < of_maxWakeups action"
  by (auto simp: wake_refusal_def Let_def split: if_splits)

subsection \<open>Invariants of the ledger and the wake chain\<close>

text \<open>A predicate on the ledger, the attempts whose jobs are in the chain, the next identity, and the timers of deadlines and retries.\<close>

type_synonym watch_timers = "(jsstr \<times> int \<times> bool) list \<times> wake_context list"

definition at_run :: "(watch_record \<Rightarrow> nat list \<Rightarrow> nat \<Rightarrow> watch_timers \<Rightarrow> bool) \<Rightarrow> watch_run \<Rightarrow> bool" where
  "at_run P s = P (lw_record s) (map wj_key (lw_chain s)) (wr_fresh s) (lw_deadlines s, lw_retries s)"

locale watch_invariant =
  fixes env :: watch_env and P :: "watch_record \<Rightarrow> nat list \<Rightarrow> nat \<Rightarrow> watch_timers \<Rightarrow> bool"
  assumes touched: "P w ks n ds \<Longrightarrow> P (w \<lparr> w_updatedAt := t \<rparr>) ks n ds"
    and observed: "P w ks n ds \<Longrightarrow> P (w \<lparr> w_snapshot := sn \<rparr>) ks n ds"
    and completed: "P w ks n ds \<Longrightarrow> P (w \<lparr> w_status := Watch_Done, w_updatedAt := t \<rparr>) ks n ([], [])"
    and suppressed: "P w ks n ds \<Longrightarrow> w_onFire w = Some action \<Longrightarrow> wa_status a = Wake_Suppressed \<Longrightarrow> wa_key a = n
      \<Longrightarrow> P (w \<lparr> w_wakeAttempts := keep_last max_wake_attempts_recorded (w_wakeAttempts w @ [a]), w_updatedAt := t \<rparr>) ks (Suc n) ds"
    and attempted: "P w ks n ds \<Longrightarrow> w_onFire w = Some action \<Longrightarrow> wake_budget_used (w_wakeAttempts w) < of_maxWakeups action
      \<Longrightarrow> wa_status a = Wake_Pending \<Longrightarrow> wa_key a = n
      \<Longrightarrow> P (w \<lparr> w_wakeAttempts := keep_last max_wake_attempts_recorded (w_wakeAttempts w @ [a]), w_updatedAt := t \<rparr>) (ks @ [n]) (Suc n) ds"
    and answered: "P w (k # ks) n (dl, rs) \<Longrightarrow> P (w \<lparr> w_wakeAttempts :=
      map (\<lambda>a. if wa_key a = k then answered_attempt now result a else a) (w_wakeAttempts w), w_updatedAt := t \<rparr>) ks n (dl, rs @ rs')"
    and retried: "P w ks n (dl, rs) \<Longrightarrow> P w ks n (dl, splice_out i rs)"
    and fired: "P w ks n ds \<Longrightarrow> i < length (w_conditions w) \<Longrightarrow> may_fire env w (w_conditions w ! i) \<Longrightarrow> P (append_firing i f w) ks n ds"
begin

lemma complete: "at_run P s \<Longrightarrow> at_run P (complete_watch now s)"
  by (simp add: complete_watch_def Let_def completed at_run_def)

lemma complete_all: "at_run P s \<Longrightarrow> at_run P (complete_if_all_fired now s)"
  by (simp add: complete_if_all_fired_def complete)

lemma suppress: "at_run P s \<Longrightarrow> w_onFire (lw_record s) = Some action \<Longrightarrow> at_run P (suppress_wake now action cid why s)"
  by (simp add: suppress_wake_def record_attempt_def suppressed new_attempt_def at_run_def)

lemma dispatch: "at_run P s \<Longrightarrow> at_run P (dispatch_wake_for_firing env now cx retry s)"
proof -
  assume p: "at_run P s"
  show "at_run P (dispatch_wake_for_firing env now cx retry s)"
  proof (cases "w_onFire (lw_record s)")
    case (Some action)
    show ?thesis
    proof (cases "wake_refusal now action s")
      case None
      then show ?thesis
        using p attempted [OF _ Some wake_refusal_None [OF None]]
        by (simp add: dispatch_wake_for_firing_def Some queue_wake_def record_attempt_def new_attempt_def Let_def at_run_def)
    qed (simp add: dispatch_wake_for_firing_def Some complete_all suppress p)
  qed (simp add: dispatch_wake_for_firing_def p)
qed

lemma settle:
  assumes "P (lw_record s) (wj_key job # map wj_key (lw_chain s)) (wr_fresh s) (lw_deadlines s, lw_retries s)"
  shows "at_run P (settle_wake env now result job s)"
proof -
  let ?s = "answer_attempt env now result job s"
  have "at_run P (?s \<lparr> lw_retries := lw_retries s @ rs \<rparr>)" for rs using answered [OF assms] by (simp add: at_run_def)
  moreover have "at_run P ?s" using answered [OF assms, of _ _ _ "[]"] by (simp add: at_run_def)
  then have "at_run P (complete_if_all_fired now ?s)" by (rule complete_all)
  ultimately show ?thesis by (simp add: settle_wake_def Let_def) (simp add: at_run_def)
qed

lemma wakes:
  assumes "at_run P s"
  shows "at_run P (wake_starts env now s)" and "at_run P (wake_answers env now result s)"
    and "at_run P (retry_fires env now i s)"
proof -
  have "at_run P (settle_wake env now r job (s \<lparr> lw_chain := jobs \<rparr>))" if "lw_chain s = job # jobs" for r job jobs
    using assms by (intro settle) (simp add: at_run_def that)
  then show "at_run P (wake_starts env now s)" "at_run P (wake_answers env now result s)"
    using assms by (auto simp: wake_starts_def wake_answers_def at_run_def split: list.split)
  have "at_run P (s \<lparr> lw_retries := splice_out i (lw_retries s) \<rparr>)" using assms by (simp add: at_run_def retried)
  then show "at_run P (retry_fires env now i s)" using assms by (simp add: retry_fires_def dispatch)
qed

lemma record_fired:
  assumes "may_fire env (lw_record s) (w_conditions (lw_record s) ! i)" and "at_run P (with_record (append_firing i f) s)"
  shows "at_run P (snd (snd (Watch_Ledger.record_firing env now i f (budget, s))))"
proof -
  have "at_run P (announce env e t)" if "at_run P t" for e t using that by (simp add: at_run_def)
  then show ?thesis
    using assms dispatch suppress
    by (auto simp: record_firing_def Let_def append_firing_def split: option.split nat.split)
qed

lemma record_firing:
  assumes "at_run P (snd st)" and "i < length (w_conditions (lw_record (snd st)))"
  shows "at_run P (snd (snd (Watch_Ledger.record_firing env now i f st)))"
proof (cases st)
  case (Pair budget s)
  show ?thesis
  proof (cases "may_fire env (lw_record s) (w_conditions (lw_record s) ! i)")
    case True
    then have "at_run P (with_record (append_firing i f) s)" using assms fired by (simp add: Pair at_run_def)
    then show ?thesis using record_fired [OF True] by (simp add: Pair)
  qed (use assms in \<open>simp add: Pair record_firing_def Let_def\<close>)
qed

lemma matches: "at_run P (snd st) \<Longrightarrow> at_run P (snd (snd (record_matches env now event ms st)))"
proof (induction ms arbitrary: st)
  case (Cons m ms)
  show ?case
  proof (cases "find_index (\<lambda>c. wc_id c = cm_conditionId m) (w_conditions (lw_record (snd st)))")
    case (Some i)
    then show ?thesis
      using Cons record_firing [OF Cons.prems, of i] find_index_SomeD [OF Some]
      by (auto simp: Let_def split: prod.split) (metis snd_conv)+
  qed (use Cons in \<open>simp add: Let_def\<close>)
qed simp

lemma observer: "at_run P s \<Longrightarrow> at_run P (complete_observer now s)"
  by (simp add: complete_observer_def complete_all)

lemma after_firing: "at_run P s \<Longrightarrow> at_run P (persist_live why (complete_observer now (with_record (\<lambda>w. w \<lparr> w_updatedAt := now \<rparr>) s)))"
  using observer [of "with_record (\<lambda>w. w \<lparr> w_updatedAt := now \<rparr>) s" now] by (simp add: at_run_def touched)

lemma event:
  assumes "at_run P (snd st)"
  shows "at_run P (snd (handle_event env now e st))"
proof -
  obtain budget s where st: "st = (budget, s)" by (cases st)
  define s1 where "s1 = with_record (\<lambda>w. w \<lparr> w_snapshot := observe_activity now e (w_snapshot w) \<rparr>) s"
  have p1: "at_run P s1" "at_run P (s1 \<lparr> lw_engine := en \<rparr>)" for en using assms by (simp_all add: s1_def st observed at_run_def)
  obtain fired b s2 where h: "(if length (w_firings (lw_record s)) < we_maxTotal env
       then case ingest (we_regex env) e (lw_engine s) of (ms, en) \<Rightarrow> record_matches env now e ms (budget, s1 \<lparr> lw_engine := en \<rparr>)
       else (False, budget, s1)) = (fired, b, s2)" by (metis prod_cases3)
  have "at_run P s2"
    using h p1 matches [of "(budget, s1 \<lparr> lw_engine := snd (ingest (we_regex env) e (lw_engine s)) \<rparr>)" now e "fst (ingest (we_regex env) e (lw_engine s))"]
    by (auto split: if_splits prod.splits)
  then show ?thesis
    using assms h after_firing by (simp add: handle_event_def st Let_def s1_def [symmetric]) (simp add: at_run_def touched)
qed

end

lemma append_firing_conditions [simp]: "length (w_conditions (append_firing i f w)) = length (w_conditions w)"
  by (simp add: append_firing_def)

interpretation condition_number: watch_invariant env "\<lambda>w _ _ _. length (w_conditions w) = n"
  by unfold_locales simp_all

context watch_invariant begin

lemma settled:
  "at_run P s \<Longrightarrow> set is \<subseteq> {..<length (w_conditions (lw_record s))}
   \<Longrightarrow> at_run P (snd (settle_conditions env now st is (r, s)))"
proof (induction "is" arbitrary: r s)
  case (Cons i "is")
  have i: "i < length (w_conditions (lw_record s))" using Cons.prems by simp
  show ?case
  proof (cases "Watch_Ledger.record_firing env now i \<lparr> fi_eventType = cs_eventType (wc_spec (w_conditions (lw_record s) ! i)),
            fi_evidence = js ''settled at registration'' @ settlement_note st, fi_firedAt = now, fi_reconciled = True,
            fi_interruption = None \<rparr> (None, s)")
    case (fields recorded b s1)
    have "at_run P s1" using record_firing [of "(None, s)" i now] i Cons.prems(1) fields by (metis snd_conv)
    moreover have "length (w_conditions (lw_record s1)) = length (w_conditions (lw_record s))"
      using condition_number.record_firing [of "length (w_conditions (lw_record s))" "(None, s)" i env now] i fields
      by (simp add: at_run_def) (metis snd_conv)
    ultimately show ?thesis using Cons.IH Cons.prems by (simp add: fields Let_def)
  qed
qed simp

lemma settlement:
  assumes "at_run P s"
  shows "at_run P (snd (apply_fire_if_settled env now st s))"
proof -
  obtain r s1 where l: "settle_conditions env now st [0..<length (w_conditions (lw_record s))]
      (\<lparr> sr_settled = True, sr_firedConditionIds = [], sr_skippedConditionIds = [] \<rparr>, s) = (r, s1)"
    by (metis surj_pair)
  have "at_run P s1"
    using settled [OF assms, of "[0..<length (w_conditions (lw_record s))]" now st] l by (metis atLeast_upt lessThan_subset_iff order_refl snd_conv)
  then show ?thesis using assms l after_firing by (simp add: apply_fire_if_settled_def Let_def split: prod.split)
qed

text \<open>The deadline timers apart, every input keeps the invariant.\<close>

lemma step: "at_run P s \<Longrightarrow> (\<forall>i. input \<noteq> Deadline_Fires i) \<Longrightarrow> at_run P (watch_step env now input s)"
proof (cases input)
  case (Hears_Event uid e)
  assume p: "at_run P s"
  then have "at_run P (s \<lparr> lw_seen := seen \<rparr>)" for seen by (simp add: at_run_def)
  then show ?thesis using p by (simp add: Hears_Event hear_broker_def event)
qed (simp_all add: event wakes settlement, simp_all add: at_run_def)

end

text \<open>An invariant that does not look at the timers holds throughout.\<close>

locale ledger_invariant = watch_invariant +
  assumes timers: "P w ks n (dl, rs) \<Longrightarrow> P w ks n (dl', rs)"
begin

lemma timers_run: "at_run P s \<Longrightarrow> at_run P (s \<lparr> lw_deadlines := ds \<rparr>)"
  by (simp add: at_run_def timers)

lemma deadline:
  assumes "at_run P s"
  shows "at_run P (fire_deadline env now cid r s)"
proof (cases "find_index (\<lambda>c. wc_id c = cid) (w_conditions (lw_record s))")
  case (Some i)
  have "at_run P (snd (snd (Watch_Ledger.record_firing env now i f (None, s))))" for f
    using record_firing [of "(None, s)" i] find_index_SomeD [OF Some] assms by simp
  moreover have "at_run P (s \<lparr> lw_deadlines := ds \<rparr>)" for ds using assms by (rule timers_run)
  ultimately show ?thesis
    using assms by (simp add: fire_deadline_def Let_def Some split: option.split prod.split) (metis after_firing snd_conv)
qed (simp add: fire_deadline_def Let_def assms)

lemma steps: "at_run P s \<Longrightarrow> at_run P (watch_step env now input s)"
  using step [of s input now] by (cases input) (simp_all add: deadline_fires_def deadline timers_run split: prod.split)

lemma reaches: "watch_reaches env s0 s \<Longrightarrow> at_run P s0 \<Longrightarrow> at_run P s"
  by (induction rule: watch_reaches.induct) (simp_all add: steps)

end

text \<open>What never changes: the identity of the watch, its action, its conditions apart from their firing; and a status that
  is active or done.\<close>

definition condition_identity :: "watch_condition \<Rightarrow> jsstr \<times> condition_kind \<times> condition_spec \<times> int option" where
  "condition_identity c = (wc_id c, wc_kind c, wc_spec c, wc_dueAt c)"

definition same_watch :: "watch_record \<Rightarrow> watch_record \<Rightarrow> bool" where
  "same_watch v w \<longleftrightarrow> w_watchId w = w_watchId v \<and> w_generation w = w_generation v \<and> w_sessionId w = w_sessionId v
     \<and> w_onFire w = w_onFire v \<and> w_pinned w = w_pinned v \<and> w_targetPinned w = w_targetPinned v
     \<and> map condition_identity (w_conditions w) = map condition_identity (w_conditions v)
     \<and> w_status w \<in> {Watch_Active, Watch_Done}"

text \<open>A watch that wakes nobody has no dispatch in its chain and no retry due.\<close>

interpretation observer: ledger_invariant env "\<lambda>w ks _ ts. w_onFire w = None \<longrightarrow> ks = [] \<and> snd ts = []"
  by unfold_locales (auto simp: append_firing_def splice_out_def)

lemma condition_identity_fired [simp]: "condition_identity (fired_condition t c) = condition_identity c"
  by (simp add: condition_identity_def fired_condition_def)

interpretation same: ledger_invariant env "\<lambda>w _ _ _. same_watch v w"
proof unfold_locales
  fix w i f
  assume "same_watch v w"
  moreover have "map condition_identity ((w_conditions w)[i := fired_condition t (w_conditions w ! i)]) = map condition_identity (w_conditions w)" for t
    by (simp add: map_update) (metis list_update_id map_update)
  ultimately show "same_watch v (append_firing i f w)" by (simp add: same_watch_def append_firing_def)
qed (simp_all add: same_watch_def)

interpretation action_kept: ledger_invariant env "\<lambda>w _ _ _. w_onFire w = action"
  by unfold_locales (simp_all add: append_firing_def)

subsection \<open>The ledger is bounded and exact\<close>

definition firings_of :: "watch_condition \<Rightarrow> watch_firing list \<Rightarrow> watch_firing list" where
  "firings_of c = filter (\<lambda>f. wf_conditionId f = wc_id c)"

definition condition_ok :: "watch_env \<Rightarrow> watch_firing list \<Rightarrow> watch_condition \<Rightarrow> bool" where
  "condition_ok env fs c \<longleftrightarrow> wc_fireCount c = length (firings_of c fs) \<and> wc_fireCount c \<le> we_maxPerCondition env
     \<and> (fires_once (wc_spec c) \<longrightarrow> wc_fireCount c \<le> 1) \<and> (wc_fired c \<longleftrightarrow> 0 < wc_fireCount c)"

definition ledger_ok :: "watch_env \<Rightarrow> watch_record \<Rightarrow> bool" where
  "ledger_ok env w \<longleftrightarrow> length (w_firings w) \<le> we_maxTotal env \<and> length (w_wakeAttempts w) \<le> 50
     \<and> distinct (map wc_id (w_conditions w)) \<and> list_all (condition_ok env (w_firings w)) (w_conditions w)"

lemma ledger_ok_firing:
  assumes "ledger_ok env w" and "i < length (w_conditions w)" and "may_fire env w (w_conditions w ! i)"
  shows "ledger_ok env (append_firing i f w)"
proof -
  define c where "c = w_conditions w ! i"
  define v where "v = append_firing i f w"
  have d: "distinct (map wc_id (w_conditions w))" and ok: "\<And>j. j < length (w_conditions w) \<Longrightarrow> condition_ok env (w_firings w) (w_conditions w ! j)"
    using assms(1) by (auto simp: ledger_ok_def list_all_length)
  have fir: "w_firings v = w_firings w @ [\<lparr> wf_conditionId = wc_id c, wf_firedAt = fi_firedAt f,
       wf_eventType = fi_eventType f, wf_evidence = fi_evidence f, wf_reconciled = fi_reconciled f \<rparr>]"
    and con: "w_conditions v = (w_conditions w)[i := fired_condition (fi_firedAt f) c]"
    and att: "w_wakeAttempts v = w_wakeAttempts w"
    by (simp_all add: v_def append_firing_def c_def)
  have "condition_ok env (w_firings v) (w_conditions v ! j)" if j: "j < length (w_conditions w)" for j
  proof (cases "j = i")
    case True
    then show ?thesis
      using ok [OF assms(2)] assms(2,3)
      by (auto simp: con condition_ok_def firings_of_def fir fired_condition_def may_fire_def c_def [symmetric])
  next
    case False
    then have "wc_id (w_conditions w ! j) \<noteq> wc_id c"
      using d j assms(2) by (metis c_def length_map nth_eq_iff_index_eq nth_map)
    then show ?thesis using ok [OF j] False by (auto simp: con condition_ok_def firings_of_def fir)
  qed
  moreover have "map wc_id (w_conditions v) = map wc_id (w_conditions w)"
    using assms(2) by (simp add: con map_update fired_condition_def c_def) (metis list_update_id nth_map)
  ultimately show ?thesis
    using assms d by (simp add: v_def [symmetric] ledger_ok_def list_all_length con fir att may_fire_def)
qed

interpretation ledger: ledger_invariant env "\<lambda>w _ _ _. ledger_ok env w"
proof unfold_locales
  show "ledger_ok env (append_firing i f w)"
    if "ledger_ok env w" "i < length (w_conditions w)" "may_fire env w (w_conditions w ! i)" for w i f
    using that by (rule ledger_ok_firing)
qed (simp_all add: ledger_ok_def max_wake_attempts_recorded_def)

subsection \<open>Wake attempts\<close>

definition wakes_ok :: "watch_record \<Rightarrow> nat list \<Rightarrow> nat \<Rightarrow> bool" where
  "wakes_ok w ks n \<longleftrightarrow>
     list_all (\<lambda>a. wa_key a < n \<and> (wa_status a = Wake_Pending \<longleftrightarrow> wa_key a \<in> set ks)) (w_wakeAttempts w)
     \<and> distinct ks \<and> list_all (\<lambda>k. k < n) ks
     \<and> (case w_onFire w of None \<Rightarrow> w_wakeAttempts w = [] | Some action \<Rightarrow> wake_budget_used (w_wakeAttempts w) \<le> of_maxWakeups action)"

lemma used_keep_last: "wake_budget_used (keep_last n as) \<le> wake_budget_used as"
proof -
  have "wake_budget_used (drop k as) \<le> wake_budget_used as" for k
    by (metis append_take_drop_id filter_append le_add2 length_append wake_budget_used_def)
  then show ?thesis by (simp add: keep_last_def)
qed

lemma used_append [simp]: "wake_budget_used (as @ [a]) = wake_budget_used as + (if consumes_wake_budget a then 1 else 0)"
  by (simp add: wake_budget_used_def)

lemma used_map: "\<forall>a\<in>set as. consumes_wake_budget (f a) \<longrightarrow> consumes_wake_budget a \<Longrightarrow> wake_budget_used (map f as) \<le> wake_budget_used as"
  by (induction as) (auto simp: wake_budget_used_def)

lemma list_all_keep_last: "list_all p xs \<Longrightarrow> list_all p (keep_last n xs)"
  using set_keep_last by (fastforce simp: list_all_iff)

lemma answered_not_pending [simp]: "wa_status (answered_attempt now result a) \<noteq> Wake_Pending" "wa_key (answered_attempt now result a) = wa_key a"
  by (simp_all add: answered_attempt_def split: wake_result.split)

interpretation wakes: ledger_invariant env "\<lambda>w ks n _. wakes_ok w ks n"
proof unfold_locales
  fix w :: watch_record and ks :: "nat list" and n :: nat and a :: wake_attempt and action :: on_fire_action and t :: int
  let ?as = "w_wakeAttempts w"
  let ?w = "w \<lparr> w_wakeAttempts := keep_last max_wake_attempts_recorded (?as @ [a]), w_updatedAt := t \<rparr>"
  assume ok: "wakes_ok w ks n" and act: "w_onFire w = Some action"
  note bound = used_keep_last [of max_wake_attempts_recorded "?as @ [a]"]
  have okD: "\<forall>x\<in>set ?as. wa_key x < n \<and> (wa_status x = Wake_Pending \<longleftrightarrow> wa_key x \<in> set ks)" "distinct ks"
    "\<forall>k\<in>set ks. k < n" "wake_budget_used ?as \<le> of_maxWakeups action"
    using ok act by (auto simp: wakes_ok_def list_all_iff)
  have ok': "wakes_ok ?w ks' (Suc n)"
    if "list_all (\<lambda>a. wa_key a < Suc n \<and> (wa_status a = Wake_Pending \<longleftrightarrow> wa_key a \<in> set ks')) (?as @ [a])"
      and "distinct ks'" "list_all (\<lambda>k. k < Suc n) ks'" "wake_budget_used (?as @ [a]) \<le> of_maxWakeups action" for ks'
    using list_all_keep_last [OF that(1), of max_wake_attempts_recorded] that(2-4) bound act
    by (simp add: wakes_ok_def del: used_append)
  show "wakes_ok ?w ks (Suc n)" if "wa_status a = Wake_Suppressed" "wa_key a = n"
    by (rule ok') (use okD that in \<open>auto simp: list_all_iff less_Suc_eq consumes_wake_budget_def\<close>)
  show "wakes_ok ?w (ks @ [n]) (Suc n)"
    if "wake_budget_used ?as < of_maxWakeups action" "wa_status a = Wake_Pending" "wa_key a = n"
    by (rule ok') (use okD that in \<open>auto simp: list_all_iff less_Suc_eq\<close>)
next
  fix w k ks n now result t
  assume ok: "wakes_ok w (k # ks) n"
  let ?f = "\<lambda>a. if wa_key a = k then answered_attempt now result a else a"
  have "\<forall>a\<in>set (w_wakeAttempts w). consumes_wake_budget (?f a) \<longrightarrow> consumes_wake_budget a"
    using ok by (auto simp: wakes_ok_def list_all_iff consumes_wake_budget_def)
  then have "wake_budget_used (map ?f (w_wakeAttempts w)) \<le> wake_budget_used (w_wakeAttempts w)" by (rule used_map)
  then show "wakes_ok (w \<lparr> w_wakeAttempts := map ?f (w_wakeAttempts w), w_updatedAt := t \<rparr>) ks n"
    using ok by (auto simp: wakes_ok_def list_all_iff split: option.splits)
qed (auto simp: wakes_ok_def append_firing_def split: option.splits)

subsection \<open>From registration\<close>

text \<open>The state that a registration hands to the event path.\<close>

definition registered_run ::
    "int \<Rightarrow> jsstr \<Rightarrow> watch_params \<Rightarrow> on_fire_action option \<Rightarrow> bool \<Rightarrow> bool \<Rightarrow> resolved_condition list \<Rightarrow> jsstr jsset \<Rightarrow> nat \<Rightarrow> watch_run" where
  "registered_run now generation ps action pinned targetPinned resolved steer fresh =
     run_of (activate_watch now False (new_watch_record now generation ps action pinned targetPinned resolved) resolved) steer fresh"

lemma run_of_fields [simp]:
  "lw_record (run_of v steer fresh) = lw_record v" "lw_chain (run_of v steer fresh) = lw_chain v" "lw_retries (run_of v steer fresh) = lw_retries v"
  "lw_deadlines (run_of v steer fresh) = lw_deadlines v" "lw_engine (run_of v steer fresh) = lw_engine v" "wr_fresh (run_of v steer fresh) = fresh"
  by (simp_all add: run_of_def live_watch.defs)

lemma registered_fields [simp]:
  "lw_record (registered_run now g ps action p tp resolved steer fresh) = new_watch_record now g ps action p tp resolved"
  "lw_chain (registered_run now g ps action p tp resolved steer fresh) = []"
  "lw_retries (registered_run now g ps action p tp resolved steer fresh) = []"
  "lw_engine (registered_run now g ps action p tp resolved steer fresh) = condition_engine_init resolved"
  "lw_deadlines (registered_run now g ps action p tp resolved steer fresh) = arm_deadlines now False (condition_states now resolved)"
  by (simp_all add: registered_run_def activate_watch_def new_watch_record_def)

lemma new_record_fields [simp]:
  "w_firings (new_watch_record now g ps action p tp resolved) = []" "w_wakeAttempts (new_watch_record now g ps action p tp resolved) = []"
  "w_conditions (new_watch_record now g ps action p tp resolved) = condition_states now resolved"
  "w_onFire (new_watch_record now g ps action p tp resolved) = action" "w_status (new_watch_record now g ps action p tp resolved) = Watch_Active"
  by (simp_all add: new_watch_record_def)

lemma registered_ok:
  "distinct (map rc_id resolved) \<Longrightarrow> at_run (\<lambda>w _ _ _. ledger_ok env w) (registered_run now g ps action p tp resolved steer fresh)"
  "at_run (\<lambda>w ks n _. wakes_ok w ks n) (registered_run now g ps action p tp resolved steer fresh)"
  "at_run (\<lambda>w _ _ _. same_watch (new_watch_record now g ps action p tp resolved) w) (registered_run now g ps action p tp resolved steer fresh)"
  by (simp_all add: at_run_def ledger_ok_def wakes_ok_def same_watch_def condition_states_def list_all_iff condition_ok_def
      firings_of_def comp_def wake_budget_used_def split: option.split)

text \<open>C13: The ledger is exact and bounded in every run of a registered watch: a condition's fire count is the number of its
  firings in the ledger, a one-shot condition fires at most once, and firings and attempts stay within their caps.\<close>

theorem ledger_exact_and_bounded:
  assumes "distinct (map rc_id resolved)" and "watch_reaches env (registered_run now g ps action p tp resolved steer fresh) s"
    and "c \<in> set (w_conditions (lw_record s))"
  shows "wc_fireCount c = length (filter (\<lambda>f. wf_conditionId f = wc_id c) (w_firings (lw_record s)))
    \<and> (wc_fired c \<longleftrightarrow> 0 < wc_fireCount c) \<and> wc_fireCount c \<le> we_maxPerCondition env
    \<and> (fires_once (wc_spec c) \<longrightarrow> wc_fireCount c \<le> 1)
    \<and> length (w_firings (lw_record s)) \<le> we_maxTotal env \<and> length (w_wakeAttempts (lw_record s)) \<le> 50"
proof -
  have "ledger_ok env (lw_record s)"
    using ledger.reaches [OF assms(2) registered_ok(1) [OF assms(1)]] by (simp add: at_run_def)
  then show ?thesis using assms(3) by (auto simp: ledger_ok_def list_all_iff condition_ok_def firings_of_def)
qed

text \<open>C12: The wake budget holds in every run: the attempts in the ledger that consume it never number more than
  \<open>maxWakeups\<close>, an attempt is pending exactly while its dispatch is in the chain, and a pure observer attempts nothing.\<close>

theorem wake_budget_kept:
  assumes "watch_reaches env (registered_run now g ps action p tp resolved steer fresh) s"
  shows "case action of
      None \<Rightarrow> w_wakeAttempts (lw_record s) = []
    | Some a \<Rightarrow> length (filter consumes_wake_budget (w_wakeAttempts (lw_record s))) \<le> of_maxWakeups a
        \<and> list_all (\<lambda>x. wa_status x = Wake_Pending \<longleftrightarrow> wa_key x \<in> wj_key ` set (lw_chain s)) (w_wakeAttempts (lw_record s))"
proof -
  have "wakes_ok (lw_record s) (map wj_key (lw_chain s)) (wr_fresh s)"
    using wakes.reaches [OF assms registered_ok(2)] by (simp add: at_run_def)
  moreover have "w_onFire (lw_record s) = action"
    using same.reaches [OF assms registered_ok(3)] by (simp add: at_run_def same_watch_def)
  ultimately show ?thesis
    by (auto simp: wakes_ok_def wake_budget_used_def list_all_iff split: option.splits)
qed

text \<open>The ledger of attempts is cut to its last 50: an attempt that consumed the budget is forgotten after 50 that were
  suppressed, and the budget is free again.\<close>

lemma suppressed_attempts_free_budget:
  "length as = 50 \<Longrightarrow> list_all (\<lambda>x. wa_status x = Wake_Suppressed) as \<Longrightarrow> wake_budget_used (keep_last max_wake_attempts_recorded (a # as)) = 0"
  by (auto simp: keep_last_def max_wake_attempts_recorded_def wake_budget_used_def filter_empty_conv list_all_iff consumes_wake_budget_def)

end
