(* ===== verification/Watch_Liveness.thy ===== *)
theory Watch_Liveness
  imports Watch_Runs
begin

text \<open>
  Watches end and deadlines stay armed.

  A watch whose one-shot conditions have all fired is done, or owes a wake-up: an attempt is pending or a retry is due. The
  dispatcher may answer what it likes: \<open>drain_wakes\<close> answers what is owed in turn, and the watch is done. The restart
  reconciliation is left out where it coalesces two wakes into one, because it then skips the check for completion.
\<close>

subsection \<open>Owing a wake-up\<close>

definition owes_wake :: "watch_run \<Rightarrow> bool" where
  "owes_wake s \<longleftrightarrow> list_ex (\<lambda>a. wa_status a = Wake_Pending) (w_wakeAttempts (lw_record s)) \<or> lw_retries s \<noteq> []"

definition settled_up :: "watch_run \<Rightarrow> bool" where
  "settled_up s \<longleftrightarrow> (w_status (lw_record s) = Watch_Active \<and> all_one_shot_conditions_fired (lw_record s) \<longrightarrow> owes_wake s)"

lemma settled_up_cong:
  "settled_up s \<Longrightarrow> w_status (lw_record t) = w_status (lw_record s) \<Longrightarrow> w_conditions (lw_record t) = w_conditions (lw_record s)
   \<Longrightarrow> w_wakeAttempts (lw_record t) = w_wakeAttempts (lw_record s) \<Longrightarrow> lw_retries t = lw_retries s \<Longrightarrow> settled_up t"
  by (simp add: settled_up_def owes_wake_def all_one_shot_conditions_fired_def)

lemma settled_up_updates [simp]:
  "settled_up (s \<lparr> wr_steer := x \<rparr>) = settled_up s" "settled_up (s \<lparr> lw_engine := en \<rparr>) = settled_up s"
  "settled_up (s \<lparr> lw_chain := c \<rparr>) = settled_up s" "settled_up (s \<lparr> lw_seen := u \<rparr>) = settled_up s"
  "settled_up (s \<lparr> lw_deadlines := d \<rparr>) = settled_up s" "settled_up (s \<lparr> lw_dirty := b \<rparr>) = settled_up s"
  "settled_up (emit e s) = settled_up s" "settled_up (schedule_persist why s) = settled_up s" "settled_up (persist_live why s) = settled_up s"
  "settled_up (with_record (\<lambda>w. w \<lparr> w_updatedAt := t \<rparr>) s) = settled_up s"
  "settled_up (with_record (\<lambda>w. w \<lparr> w_snapshot := sn \<rparr>) s) = settled_up s"
  by (simp_all add: settled_up_def owes_wake_def all_one_shot_conditions_fired_def)

lemma complete_settled: "settled_up (complete_if_all_fired now s)"
  by (auto simp: complete_if_all_fired_def complete_watch_def settled_up_def owes_wake_def Let_def all_one_shot_conditions_fired_def)

lemma last_recorded: "a \<in> set (keep_last max_wake_attempts_recorded (as @ [a]))"
proof -
  have "last (keep_last max_wake_attempts_recorded (as @ [a])) = a"
    using last_keep_last [of "as @ [a]" max_wake_attempts_recorded] by (simp add: max_wake_attempts_recorded_def)
  moreover have "keep_last max_wake_attempts_recorded (as @ [a]) \<noteq> []"
    using length_keep_last [of max_wake_attempts_recorded "as @ [a]"] by (auto simp: max_wake_attempts_recorded_def simp del: length_keep_last)
  ultimately show ?thesis by (metis last_in_set)
qed

lemma queue_owes: "owes_wake (queue_wake env now action cx retry s)"
proof -
  have "new_attempt now action (wx_conditionId cx) s \<in> set (w_wakeAttempts (lw_record (queue_wake env now action cx retry s)))"
    by (simp add: queue_wake_def record_attempt_def Let_def last_recorded)
  moreover have "wa_status (new_attempt now action (wx_conditionId cx) s) = Wake_Pending" by (simp add: new_attempt_def)
  ultimately show ?thesis unfolding owes_wake_def list_ex_iff by blast
qed

lemma dispatch_settled:
  "w_onFire (lw_record s) = Some action \<Longrightarrow> settled_up (dispatch_wake_for_firing env now cx retry s)"
  by (auto simp: dispatch_wake_for_firing_def complete_settled queue_owes settled_up_def [of "queue_wake _ _ _ _ _ _"] split: option.split)

lemma settle_settled: "settled_up (settle_wake env now result job s)"
proof -
  have "settled_up (if retries_wake result job then s1 \<lparr> lw_retries := lw_retries s1 @ [wj_context job] \<rparr> else complete_if_all_fired now s1)" for s1
    by (simp add: complete_settled) (simp add: settled_up_def owes_wake_def)
  then show ?thesis by (simp add: settle_wake_def Let_def)
qed

lemma wakes_settled:
  assumes "settled_up s" and "w_onFire (lw_record s) \<noteq> None \<or> lw_retries s = []"
  shows "settled_up (wake_starts env now s)" and "settled_up (wake_answers env now result s)" and "settled_up (retry_fires env now i s)"
proof -
  show "settled_up (wake_starts env now s)" "settled_up (wake_answers env now result s)"
    using assms(1) by (auto simp: wake_starts_def wake_answers_def settle_settled split: list.split)
  show "settled_up (retry_fires env now i s)"
    using assms by (auto simp: retry_fires_def intro: dispatch_settled)
qed

subsection \<open>Firings settle up\<close>

lemma record_firing_unfired: "record_firing env now i f st = (False, st') \<Longrightarrow> st' = st"
  by (auto simp: record_firing_def Let_def split: prod.splits if_splits)

lemma record_firing_settled:
  assumes "record_firing env now i f (None, s) = (fired, b, t)" and "w_onFire (lw_record s) = Some action" and "settled_up s"
  shows "b = None" and "settled_up t"
proof -
  have "w_onFire (lw_record (with_record (append_firing i f) s)) = Some action" using assms(2) by (simp add: append_firing_def)
  then show "b = None" "settled_up t"
    using assms by (auto simp: record_firing_def Let_def dispatch_settled split: if_splits)
qed

lemma record_firing_action:
  "record_firing env now i f (b, s) = (fired, b', t) \<Longrightarrow> i < length (w_conditions (lw_record s)) \<Longrightarrow> w_onFire (lw_record t) = w_onFire (lw_record s)"
  using action_kept.record_firing [of "w_onFire (lw_record s)" "(b, s)" i env now f] by (simp add: at_run_def)

lemma matches_settled:
  "record_matches env now e ms (None, s) = (fired, b, t) \<Longrightarrow> w_onFire (lw_record s) = Some action \<Longrightarrow> settled_up s
   \<Longrightarrow> settled_up t"
proof (induction ms arbitrary: s fired b t)
  case (Cons m ms)
  show ?case
  proof (cases "find_index (\<lambda>c. wc_id c = cm_conditionId m) (w_conditions (lw_record s))")
    case (Some i)
    let ?f = "\<lparr> fi_eventType = cm_eventType m, fi_evidence = cm_evidence m, fi_firedAt = event_time now e, fi_reconciled = False,
               fi_interruption = interruption_of e \<rparr>"
    obtain r b1 s1 where r: "record_firing env now i ?f (None, s) = (r, b1, s1)" by (metis prod_cases3)
    note r' = record_firing_settled [OF r Cons.prems(2,3)] record_firing_action [OF r]
    obtain r2 b2 s2 where m: "record_matches env now e ms (None, s1) = (r2, b2, s2)" by (metis prod_cases3)
    show ?thesis
      using Cons.prems Cons.IH [OF m] r r' m find_index_SomeD [OF Some] by (auto simp: Some Let_def split: if_splits)
  qed (use Cons in \<open>simp add: Let_def\<close>)
qed simp

lemma matches_unfired: "record_matches env now e ms st = (False, st') \<Longrightarrow> st' = st"
  by (induction ms arbitrary: st st')
     (auto simp: Let_def split: option.splits if_splits prod.splits dest: record_firing_unfired)

text \<open>What every firing path ends with.\<close>

lemma after_firing_settled:
  assumes "w_onFire (lw_record s) \<noteq> None \<Longrightarrow> settled_up s"
  shows "settled_up (complete_observer now (with_record (\<lambda>w. w \<lparr> w_updatedAt := now \<rparr>) s))"
  using assms complete_settled [of now "with_record (\<lambda>w. w \<lparr> w_updatedAt := now \<rparr>) s"]
  by (simp add: complete_observer_def)

lemma event_settled:
  assumes "settled_up s"
  shows "settled_up (snd (handle_event env now e (None, s)))"
proof (cases "w_status (lw_record s) = Watch_Active")
  case True
  obtain ms en where i: "ingest (we_regex env) e (lw_engine s) = (ms, en)" by (cases "ingest (we_regex env) e (lw_engine s)")
  define s1 where "s1 = with_record (\<lambda>w. w \<lparr> w_snapshot := observe_activity now e (w_snapshot w) \<rparr>) s"
  have p1: "settled_up s1" "w_onFire (lw_record s1) = w_onFire (lw_record s)"
    using assms by (auto simp: s1_def elim!: settled_up_cong)
  obtain fired b s2 where r: "record_matches env now e ms (None, s1 \<lparr> lw_engine := en \<rparr>) = (fired, b, s2)" by (metis prod_cases3)
  have "w_onFire (lw_record s2) = w_onFire (lw_record s)"
    using action_kept.matches [of "w_onFire (lw_record s)" "(None, s1 \<lparr> lw_engine := en \<rparr>)" env now e ms] p1(2) r by (simp add: at_run_def)
  then have p2: "settled_up s2" if "w_onFire (lw_record s2) \<noteq> None"
    using matches_settled [OF r] p1 that by auto
  have p3: "settled_up s2" if "\<not> fired" using matches_unfired [of env now e ms "(None, s1 \<lparr> lw_engine := en \<rparr>)"] r that p1(1) by auto
  show ?thesis
    using True p1(1) p2 p3 after_firing_settled [of s2 now] by (simp add: handle_event_def Let_def s1_def [symmetric] i r)
qed (use assms in \<open>simp add: handle_event_def\<close>)

lemma deadline_settled:
  assumes "settled_up s"
  shows "settled_up (fire_deadline env now cid rc s)"
proof (cases "find_index (\<lambda>c. wc_id c = cid) (w_conditions (lw_record s))")
  case (Some i)
  have "settled_up (if \<not> fired then s1 else persist_live ''firing'' (complete_observer now (with_record (\<lambda>w. w \<lparr> w_updatedAt := now \<rparr>) s1)))"
    if "record_firing env now i f (None, s) = (fired, b, s1)" for f fired b s1
    using that assms record_firing_unfired [of env now i f "(None, s)"] record_firing_settled(2) [OF that] record_firing_action [OF that]
      find_index_SomeD [OF Some] after_firing_settled [of s1 now]
    by (cases "w_onFire (lw_record s)") auto
  then show ?thesis using assms by (auto simp: fire_deadline_def Let_def Some split: option.split prod.split)
qed (simp add: fire_deadline_def Let_def assms)

definition settled_note :: "settled_result \<Rightarrow> nat" where
  "settled_note r = length (sr_firedConditionIds r)"

lemma settle_conditions_settled:
  "settle_conditions env now st is (r, s) = (r', s') \<Longrightarrow> set is \<subseteq> {..<length (w_conditions (lw_record s))}
   \<Longrightarrow> (w_onFire (lw_record s) \<noteq> None \<longrightarrow> settled_up s)
   \<Longrightarrow> settled_note r \<le> settled_note r' \<and> w_onFire (lw_record s') = w_onFire (lw_record s)
     \<and> (w_onFire (lw_record s) \<noteq> None \<longrightarrow> settled_up s') \<and> (settled_note r' = settled_note r \<longrightarrow> s' = s)"
proof (induction "is" arbitrary: r s)
  case (Cons i "is")
  let ?c = "w_conditions (lw_record s) ! i"
  let ?f = "\<lparr> fi_eventType = cs_eventType (wc_spec ?c), fi_evidence = js ''settled at registration'' @ settlement_note st,
      fi_firedAt = now, fi_reconciled = True, fi_interruption = None \<rparr>"
  have i: "i < length (w_conditions (lw_record s))" and rest: "set is \<subseteq> {..<length (w_conditions (lw_record s))}" using Cons.prems(2) by simp_all
  obtain fired b s1 where f: "record_firing env now i ?f (None, s) = (fired, b, s1)" by (metis prod_cases3)
  have same: "settled_note (r \<lparr> sr_skippedConditionIds := x \<rparr>) = settled_note r" for x by (simp add: settled_note_def)
  show ?case
  proof (cases "\<not> completion_condition ?c \<or> (case cs_dataMatch (wc_spec ?c) of Some m \<Rightarrow> m \<noteq> [] | None \<Rightarrow> False) \<or> fires_once (wc_spec ?c) \<and> wc_fired ?c \<or> \<not> fired")
    case True
    then obtain x where "settle_conditions env now st is (r \<lparr> sr_skippedConditionIds := x \<rparr>, s) = (r', s')"
      using Cons.prems(1) f record_firing_unfired [of env now i ?f "(None, s)" "(b, s1)"] that [of "sr_skippedConditionIds r"]
      by (auto simp: Let_def split: if_splits)
    from Cons.IH [OF this rest Cons.prems(3)] show ?thesis by (simp add: same)
  next
    case False
    let ?r = "r \<lparr> sr_firedConditionIds := sr_firedConditionIds r @ [wc_id ?c] \<rparr>"
    have "settle_conditions env now st is (?r, s1) = (r', s')" using Cons.prems(1) f False by (auto simp: Let_def split: if_splits)
    moreover have "length (w_conditions (lw_record s1)) = length (w_conditions (lw_record s))"
      using condition_number.record_firing [of "length (w_conditions (lw_record s))" "(None, s)" i env now ?f] i f by (simp add: at_run_def)
    moreover have "w_onFire (lw_record s1) = w_onFire (lw_record s)" by (rule record_firing_action [OF f i])
    moreover have "settled_note ?r = Suc (settled_note r)" by (simp add: settled_note_def)
    ultimately show ?thesis
      using Cons.IH [of ?r s1] rest record_firing_settled(2) [OF f] Cons.prems(3) by (cases "w_onFire (lw_record s)") auto
  qed
qed simp

lemma settlement_settled:
  assumes "settled_up s"
  shows "settled_up (snd (apply_fire_if_settled env now st s))"
proof -
  let ?r0 = "\<lparr> sr_settled = True, sr_firedConditionIds = [], sr_skippedConditionIds = [] \<rparr>"
  obtain r s1 where l: "settle_conditions env now st [0..<length (w_conditions (lw_record s))] (?r0, s) = (r, s1)" by (metis surj_pair)
  have "set [0..<length (w_conditions (lw_record s))] \<subseteq> {..<length (w_conditions (lw_record s))}" by auto
  from settle_conditions_settled [OF l this] assms
  have "w_onFire (lw_record s1) \<noteq> None \<longrightarrow> settled_up s1" "sr_firedConditionIds r = [] \<longrightarrow> s1 = s"
    by (auto simp: settled_note_def)
  then show ?thesis
    using assms l after_firing_settled [of s1 now] by (simp add: apply_fire_if_settled_def Let_def)
qed

subsection \<open>Every run settles up\<close>

text \<open>Every input but a reconciliation that carries a wake budget, whether or not the budget would coalesce a wake.\<close>

definition unbudgeted :: "watch_input \<Rightarrow> bool" where
  "unbudgeted input = (case input of Hears_Reconciliation budget _ \<Rightarrow> budget = None | _ \<Rightarrow> True)"

definition watch_runs :: "watch_env \<Rightarrow> (int \<times> watch_input) list \<Rightarrow> watch_run \<Rightarrow> watch_run" where
  "watch_runs env ins s = foldl (\<lambda>s (now, input). watch_step env now input s) s ins"

lemma watch_runs_reach: "watch_reaches env s (watch_runs env ins s)"
  by (induction ins rule: rev_induct) (auto simp: watch_runs_def intro: watch_reaches.intros split: prod.split)

lemma step_settled:
  assumes "settled_up s" and "unbudgeted input" and "w_onFire (lw_record s) = None \<longrightarrow> lw_retries s = []"
  shows "settled_up (watch_step env now input s)"
proof -
  have "settled_up (save_failed s)" "settled_up (flush_fires s)"
    using assms(1) by (auto simp: save_failed_def flush_fires_def split: option.split elim: settled_up_cong)
  then show ?thesis
    using assms wakes_settled [of s]
    by (cases input) (auto simp: unbudgeted_def hear_broker_def event_settled deadline_fires_def deadline_settled settlement_settled split: prod.split)
qed

lemma runs_settled:
  assumes "settled_up s0" and "at_run (\<lambda>w ks _ ts. w_onFire w = None \<longrightarrow> ks = [] \<and> snd ts = []) s0" and "list_all (unbudgeted \<circ> snd) ins"
  shows "settled_up (watch_runs env ins s0)"
  using assms(3)
proof (induction ins rule: rev_induct)
  case (snoc x ins)
  have "w_onFire (lw_record (watch_runs env ins s0)) = None \<longrightarrow> lw_retries (watch_runs env ins s0) = []"
    using observer.reaches [OF watch_runs_reach assms(2), of env ins] by (simp add: at_run_def)
  then show ?case using snoc step_settled by (cases x) (simp add: watch_runs_def)
qed (simp add: watch_runs_def assms(1))

subsection \<open>Every watch that has fired ends\<close>

text \<open>Work through what is owed, with the times and answers that the oracle gives.\<close>

fun drain_wakes :: "watch_env \<Rightarrow> (nat \<Rightarrow> int \<times> wake_result) \<Rightarrow> nat \<Rightarrow> watch_run \<Rightarrow> watch_run" where
  "drain_wakes env oracle 0 s = s"
| "drain_wakes env oracle (Suc n) s =
     (case oracle n of
        (now, result) \<Rightarrow>
          drain_wakes env oracle n
            (if lw_chain s \<noteq> [] then wake_answers env now result (wake_starts env now s) else retry_fires env now 0 s))"

definition wake_work :: "watch_run \<Rightarrow> nat" where
  "wake_work s = sum_list (map (\<lambda>j. if wj_retry j then 1 else 3) (lw_chain s)) + 2 * length (lw_retries s)"

lemma wake_work_zero: "wake_work s = 0 \<longleftrightarrow> lw_chain s = [] \<and> lw_retries s = []"
  by (cases "lw_chain s") (simp_all add: wake_work_def)

lemma complete_work: "lw_chain (complete_if_all_fired now s) = lw_chain s" "length (lw_retries (complete_if_all_fired now s)) \<le> length (lw_retries s)"
  by (simp_all add: complete_if_all_fired_def complete_watch_def Let_def)

lemma settle_work:
  "wake_work (settle_wake env now result job s) < wake_work (s \<lparr> lw_chain := job # lw_chain s \<rparr>)"
proof -
  have "wake_work (complete_if_all_fired now (answer_attempt env now result job s)) \<le> wake_work s"
    using complete_work [of now "answer_attempt env now result job s"] by (simp add: wake_work_def)
  moreover have "wake_work (t \<lparr> wr_steer := x \<rparr>) = wake_work t" for t x by (simp add: wake_work_def)
  ultimately show ?thesis
    by (auto simp: settle_wake_def Let_def retries_wake_def wake_work_def [of "_ \<lparr> lw_retries := _ \<rparr>"] wake_work_def [of "_ \<lparr> lw_chain := _ \<rparr>"])
       (auto simp: wake_work_def)
qed

lemma settle_started [simp]: "settle_wake env now result (job \<lparr> wj_started := b \<rparr>) s = settle_wake env now result job s"
  by (cases result) (simp_all add: settle_wake_def answer_attempt_def retries_wake_def Let_def)

lemma drain_step_work:
  assumes "0 < wake_work s"
  shows "wake_work (if lw_chain s \<noteq> [] then wake_answers env now result (wake_starts env now s) else retry_fires env now 0 s) < wake_work s"
proof (cases "lw_chain s")
  case Nil
  then have r: "lw_retries s \<noteq> []" using assms by (auto simp: wake_work_def)
  let ?s = "s \<lparr> lw_retries := splice_out 0 (lw_retries s) \<rparr>"
  have "wake_work (dispatch_wake_for_firing env now cx True ?s) \<le> wake_work ?s + 1" for cx
  proof (cases "w_onFire (lw_record s)")
    case (Some action)
    have "wake_work (complete_if_all_fired now (suppress_wake now action cid why ?s)) \<le> wake_work ?s" for cid why
      using complete_work [of now "suppress_wake now action cid why ?s"]
      by (simp add: wake_work_def suppress_wake_def record_attempt_def)
    then show ?thesis
      by (auto simp: dispatch_wake_for_firing_def Some queue_wake_def record_attempt_def Let_def wake_work_def le_SucI split: option.split)
  qed (simp add: dispatch_wake_for_firing_def)
  then have le: "wake_work (dispatch_wake_for_firing env now (lw_retries s ! 0) True ?s) \<le> wake_work ?s + 1" .
  have "wake_work ?s + 2 \<le> wake_work s" using r by (cases "lw_retries s") (simp_all add: wake_work_def splice_out_def)
  with le have "wake_work (dispatch_wake_for_firing env now (lw_retries s ! 0) True ?s) < wake_work s" by linarith
  then show ?thesis using r by (simp add: Nil retry_fires_def)
next
  case (Cons job jobs)
  have p: "wake_work (settle_wake env now x job' (s \<lparr> lw_chain := jobs \<rparr>)) < wake_work s" if "wj_retry job' = wj_retry job" for x job'
    using settle_work [of env now x job' "s \<lparr> lw_chain := jobs \<rparr>"] that by (simp add: wake_work_def Cons)
  have q: "wake_work (wake_answers env now result t) \<le> wake_work t" for t
  proof (cases "lw_chain t")
    case (Cons x xs)
    have "t \<lparr> lw_chain := x # xs \<rparr> = t" by (simp flip: Cons)
    then show ?thesis
      using settle_work [of env now result x "t \<lparr> lw_chain := xs \<rparr>"] \<open>t \<lparr> lw_chain := x # xs \<rparr> = t\<close> by (simp add: wake_answers_def Cons)
  qed (simp add: wake_answers_def)
  show ?thesis
  proof (cases "wj_started job \<or> we_dispatches env")
    case True
    have "wake_answers env now result (wake_starts env now s) = settle_wake env now result job t"
      if "t = (wake_starts env now s) \<lparr> lw_chain := jobs \<rparr>" for t
      using True that by (auto simp: wake_answers_def wake_starts_def Cons)
    moreover have "wake_work (settle_wake env now result job ((wake_starts env now s) \<lparr> lw_chain := jobs \<rparr>)) < wake_work s"
      using True settle_work [of env now result job "(wake_starts env now s) \<lparr> lw_chain := jobs \<rparr>"]
      by (auto simp: wake_work_def wake_starts_def Cons)
    ultimately show ?thesis by (simp add: Cons)
  next
    case False
    then have "wake_starts env now s = settle_wake env now (Wake_Refused (js ''WAKE_DISPATCH_UNAVAILABLE'')) job (s \<lparr> lw_chain := jobs \<rparr>)"
      by (simp add: wake_starts_def Cons)
    then show ?thesis using p [of job "Wake_Refused (js ''WAKE_DISPATCH_UNAVAILABLE'')"] q [of "wake_starts env now s"] by (simp add: Cons)
  qed
qed

text \<open>A state whose conditions have all fired, and the invariants that carry it to its end.\<close>

definition ending :: "watch_record \<Rightarrow> watch_run \<Rightarrow> bool" where
  "ending v s \<longleftrightarrow> settled_up s \<and> at_run (\<lambda>w ks _ ts. w_onFire w = None \<longrightarrow> ks = [] \<and> snd ts = []) s
     \<and> at_run (\<lambda>w ks n _. wakes_ok w ks n) s \<and> at_run (\<lambda>w _ _ _. same_watch v w) s
     \<and> all_one_shot_conditions_fired (lw_record s)"

interpretation conditions_fired: ledger_invariant env "\<lambda>w _ _ _. all_one_shot_conditions_fired w"
  by unfold_locales
     (auto simp: all_one_shot_conditions_fired_def append_firing_def list_all_length nth_list_update fired_condition_def)

lemma ending_step: "ending v s \<Longrightarrow> unbudgeted input \<Longrightarrow> ending v (watch_step env now input s)"
  using step_settled [of s input] observer.steps [of s] wakes.steps [of s] same.steps [of v s] conditions_fired.steps [of s]
  by (simp add: ending_def) (simp add: at_run_def)

lemma ending_drained:
  assumes "ending v s" and "wake_work s = 0"
  shows "w_status (lw_record s) = Watch_Done"
proof -
  have "lw_chain s = []" "lw_retries s = []" using assms(2) by (simp_all add: wake_work_zero)
  moreover from this have "\<not> list_ex (\<lambda>a. wa_status a = Wake_Pending) (w_wakeAttempts (lw_record s))"
    using assms(1) by (auto simp: ending_def at_run_def wakes_ok_def list_ex_iff list_all_iff)
  ultimately show ?thesis
    using assms(1) by (auto simp: ending_def settled_up_def owes_wake_def at_run_def same_watch_def)
qed

lemma drain_ends: "ending v s \<Longrightarrow> wake_work s \<le> n \<Longrightarrow> w_status (lw_record (drain_wakes env oracle n s)) = Watch_Done"
proof (induction n arbitrary: s)
  case (Suc n)
  obtain now result where o: "oracle n = (now, result)" by (cases "oracle n")
  let ?t = "if lw_chain s \<noteq> [] then wake_answers env now result (wake_starts env now s) else retry_fires env now 0 s"
  have e: "ending v (watch_step env now input s')" if "ending v s'" "input \<in> {Wake_Starts, Wake_Answers result, Retry_Fires 0}" for s' input
    using that by (auto intro!: ending_step simp: unbudgeted_def)
  have t: "ending v ?t"
    using e [OF Suc.prems(1), of "Retry_Fires 0"] e [OF e [OF Suc.prems(1), of Wake_Starts], of "Wake_Answers result"] by simp
  have "wake_work ?t \<le> n"
  proof (cases "wake_work s = 0")
    case True
    then have "?t = s" by (simp add: wake_work_zero retry_fires_def)
    then show ?thesis using True by simp
  qed (use drain_step_work [of s env now result] Suc.prems(2) in linarith)
  from Suc.IH [OF t this] show ?case by (simp add: o)
qed (simp add: ending_drained)

text \<open>C10: A registered watch whose one-shot conditions have all fired ends, whatever the dispatcher answers and
  when: after any run from its registration that hears no budgeted reconciliation (of a restart or of a run that never
  started, whose budget may coalesce a wake), working through the dispatches and retries that are owed leaves it done.\<close>

theorem fired_watch_ends:
  assumes "list_all (unbudgeted \<circ> snd) ins" and "resolved \<noteq> []"
    and "s = watch_runs env ins (registered_run now g ps action p tp resolved steer fresh)"
    and "all_one_shot_conditions_fired (lw_record s)" and "wake_work s \<le> n"
  shows "w_status (lw_record (drain_wakes env oracle n s)) = Watch_Done"
proof -
  let ?s0 = "registered_run now g ps action p tp resolved steer fresh"
  have reach: "watch_reaches env ?s0 s" unfolding assms(3) by (rule watch_runs_reach)
  have o: "at_run (\<lambda>w ks _ ts. w_onFire w = None \<longrightarrow> ks = [] \<and> snd ts = []) ?s0" by (simp add: at_run_def)
  have "settled_up ?s0"
    using assms(2) by (cases resolved) (simp_all add: settled_up_def all_one_shot_conditions_fired_def condition_states_def)
  then have "settled_up s" using runs_settled [OF _ o assms(1)] by (simp add: assms(3))
  then have "ending (new_watch_record now g ps action p tp resolved) s"
    using observer.reaches [OF reach o] wakes.reaches [OF reach registered_ok(2)] same.reaches [OF reach registered_ok(3)] assms(4)
    by (simp add: ending_def)
  then show ?thesis using assms(5) by (rule drain_ends)
qed

subsection \<open>Deadlines stay armed\<close>

definition timer_keys :: "(jsstr \<times> int \<times> bool) list \<Rightarrow> (jsstr \<times> int) set" where
  "timer_keys ds = (\<lambda>(i, d, _). (i, d)) ` set ds"

definition armed :: "watch_env \<Rightarrow> watch_record \<Rightarrow> (jsstr \<times> int \<times> bool) list \<Rightarrow> bool" where
  "armed env w ds \<longleftrightarrow> (w_status w = Watch_Active \<and> length (w_firings w) < we_maxTotal env \<longrightarrow>
     list_all (\<lambda>c. case wc_dueAt c of
         Some due \<Rightarrow> wc_kind c = Deadline \<and> \<not> wc_fired c \<longrightarrow> (wc_id c, due) \<in> timer_keys ds
       | None \<Rightarrow> True) (w_conditions w))"

lemma armed_iff:
  "armed env w ds \<longleftrightarrow> (w_status w = Watch_Active \<longrightarrow> length (w_firings w) < we_maxTotal env \<longrightarrow>
     (\<forall>c \<in> set (w_conditions w). \<forall>due. wc_kind c = Deadline \<longrightarrow> \<not> wc_fired c \<longrightarrow> wc_dueAt c = Some due \<longrightarrow> (wc_id c, due) \<in> timer_keys ds))"
  by (auto simp: armed_def list_all_iff split: option.splits)

lemma timer_keys_simps [simp]:
  "timer_keys ((i, d, r) # ds) = insert (i, d) (timer_keys ds)" "timer_keys (ds @ ds') = timer_keys ds \<union> timer_keys ds'"
  "timer_keys [] = {}"
  by (simp_all add: timer_keys_def image_Un)

definition grown :: "watch_record \<Rightarrow> watch_record \<Rightarrow> bool" where
  "grown v w \<longleftrightarrow> list_all2 (\<lambda>c d. condition_identity c = condition_identity d \<and> (wc_fired c \<longrightarrow> wc_fired d)) (w_conditions v) (w_conditions w)
     \<and> length (w_firings v) \<le> length (w_firings w) \<and> (w_status w = Watch_Active \<longrightarrow> w_status v = Watch_Active)"

lemma grown_refl: "grown w w"
  by (simp add: grown_def list_all2_refl)

lemma append_firing_nth:
  "j < length (w_conditions w) \<Longrightarrow> condition_identity (w_conditions (append_firing i f w) ! j) = condition_identity (w_conditions w ! j)"
  "j < length (w_conditions w) \<Longrightarrow> wc_fired (w_conditions w ! j) \<Longrightarrow> wc_fired (w_conditions (append_firing i f w) ! j)"
  by (cases "i = j"; simp add: append_firing_def; simp add: fired_condition_def)+

lemma grown_append: "grown v w \<Longrightarrow> grown v (append_firing i f w)"
  using append_firing_nth [of _ w i f]
  by (simp add: grown_def list_all2_conv_all_nth) (simp add: append_firing_def)

lemma armed_grown: "armed env v ds \<Longrightarrow> grown v w \<Longrightarrow> armed env w ds"
  by (fastforce simp: armed_def grown_def list_all2_conv_all_nth list_all_length condition_identity_def split: option.splits)

interpretation growth: watch_invariant env "\<lambda>w _ _ ts. grown v w \<and> (w_status w \<noteq> Watch_Active \<or> fst ts = ds)"
proof unfold_locales
  show "grown v (append_firing i f w) \<and> (w_status (append_firing i f w) \<noteq> Watch_Active \<or> fst ts = ds)"
    if "grown v w \<and> (w_status w \<noteq> Watch_Active \<or> fst ts = ds)" for w i f ts
    using that by (simp add: grown_append) (simp add: append_firing_def)
qed (auto simp: grown_def)

interpretation growing: ledger_invariant env "\<lambda>w _ _ _. grown v w"
proof unfold_locales
  show "grown v (append_firing i f w)" if "grown v w" for w i f using that by (rule grown_append)
qed (auto simp: grown_def)

lemma armed_done: "w_status w \<noteq> Watch_Active \<Longrightarrow> armed env w ds"
  by (simp add: armed_def)

lemma armed_growth:
  "armed env v ds \<Longrightarrow> at_run (\<lambda>w _ _ ts. grown v w \<and> (w_status w \<noteq> Watch_Active \<or> fst ts = ds)) t \<Longrightarrow> armed env (lw_record t) (lw_deadlines t)"
  by (auto simp: at_run_def dest: armed_grown armed_done)

text \<open>The three ways a timer's condition can be when the timer fires.\<close>

lemma fire_deadline_at:
  assumes ok: "ledger_ok env (lw_record s)" and j: "find_index (\<lambda>c. wc_id c = cid) (w_conditions (lw_record s)) = Some j"
    and active: "w_status (lw_record s) = Watch_Active" and room: "length (w_firings (lw_record s)) < we_maxTotal env" "0 < we_maxPerCondition env"
    and c: "c = w_conditions (lw_record s) ! j" "\<not> wc_fired c" "wc_dueAt c = Some due"
  shows "now < due \<Longrightarrow> fire_deadline env now cid rc s = s \<lparr> lw_deadlines := lw_deadlines s @ [(cid, due, rc)] \<rparr>"
    and "due \<le> now \<Longrightarrow> \<exists>f. at_run (\<lambda>w _ _ ts. grown (append_firing j f (lw_record s)) w \<and> (w_status w \<noteq> Watch_Active \<or> fst ts = lw_deadlines s))
           (fire_deadline env now cid rc s)"
proof -
  show "fire_deadline env now cid rc s = s \<lparr> lw_deadlines := lw_deadlines s @ [(cid, due, rc)] \<rparr>" if "now < due"
    using that j active c by (simp add: fire_deadline_def Let_def)
  define f where "f = \<lparr> fi_eventType = text_json ''deadline'',
    fi_evidence = js ''deadline '' @ js_string (cs_afterSeconds (wc_spec c)) @ js ''s elapsed (due '' @ we_iso env due @ js '')'',
    fi_firedAt = now, fi_reconciled = rc, fi_interruption = None \<rparr>"
  let ?P = "\<lambda>w _ _ ts. grown (append_firing j f (lw_record s)) w \<and> (w_status w \<noteq> Watch_Active \<or> fst ts = lw_deadlines s)"
  have "condition_ok env (w_firings (lw_record s)) c"
    using ok find_index_SomeD [OF j] by (simp add: ledger_ok_def list_all_length c(1))
  then have may: "may_fire env (lw_record s) c" using c(2) room by (auto simp: may_fire_def condition_ok_def)
  obtain b s1 where r: "record_firing env now j f (None, s) = (True, b, s1)"
  proof -
    obtain q b s1 where "record_firing env now j f (None, s) = (q, b, s1)" by (metis prod_cases3)
    moreover from this have q using may by (simp add: record_firing_def Let_def c(1))
    ultimately show thesis using that by simp
  qed
  have "at_run ?P (with_record (append_firing j f) s)" by (simp add: at_run_def grown_refl)
  then have "at_run ?P s1"
    using growth.record_fired [of env s j "append_firing j f (lw_record s)" "lw_deadlines s" f now None] may r by (simp add: c(1))
  from growth.after_firing [OF this, of "''firing''" now]
  show "\<exists>f. at_run (\<lambda>w _ _ ts. grown (append_firing j f (lw_record s)) w \<and> (w_status w \<noteq> Watch_Active \<or> fst ts = lw_deadlines s))
      (fire_deadline env now cid rc s)" if "due \<le> now"
    using that r j active c(2,3) by (intro exI [of _ f]) (simp add: fire_deadline_def Let_def c(1) [symmetric] f_def [symmetric])
qed

lemma distinct_ids:
  "ledger_ok env w \<Longrightarrow> c \<in> set (w_conditions w) \<Longrightarrow> d \<in> set (w_conditions w) \<Longrightarrow> wc_id c = wc_id d \<Longrightarrow> c = d"
  by (simp add: ledger_ok_def distinct_map inj_on_def)

lemma armed_other:
  assumes "armed env w ((cid, due', r) # ds)"
    and "\<And>c due. c \<in> set (w_conditions w) \<Longrightarrow> wc_id c = cid \<Longrightarrow> wc_dueAt c = Some due \<Longrightarrow> \<not> wc_fired c \<Longrightarrow> (cid, due) \<in> timer_keys ds"
  shows "armed env w ds"
  using assms by (fastforce simp: armed_iff)

lemma fire_deadline_armed:
  assumes ok: "ledger_ok env (lw_record s)" and per: "0 < we_maxPerCondition env" and arm: "armed env (lw_record s) ((cid, due', r) # lw_deadlines s)"
  shows "armed env (lw_record (fire_deadline env now cid rc s)) (lw_deadlines (fire_deadline env now cid rc s))"
proof (cases "w_status (lw_record s) = Watch_Active \<and> length (w_firings (lw_record s)) < we_maxTotal env")
  case True
  then have active: "w_status (lw_record s) = Watch_Active" and room: "length (w_firings (lw_record s)) < we_maxTotal env" by simp_all
  show ?thesis
  proof (cases "find_index (\<lambda>c. wc_id c = cid) (w_conditions (lw_record s))")
    case None
    then have "armed env (lw_record s) (lw_deadlines s)" using armed_other [OF arm] by (auto simp: find_index_None)
    then show ?thesis by (simp add: fire_deadline_def Let_def None)
  next
    case (Some j)
    define c where "c = w_conditions (lw_record s) ! j"
    have j: "j < length (w_conditions (lw_record s))" "wc_id c = cid" "c \<in> set (w_conditions (lw_record s))"
      using find_index_SomeD [OF Some] by (simp_all add: c_def)
    have only: "d = c" if "d \<in> set (w_conditions (lw_record s))" "wc_id d = cid" for d using distinct_ids [OF ok that(1) j(3)] that(2) j(2) by simp
    show ?thesis
    proof (cases "wc_fired c \<or> wc_dueAt c = None")
      case True
      then have "armed env (lw_record s) (lw_deadlines s)" using armed_other [OF arm] only by (metis option.distinct(1))
      then show ?thesis using True by (auto simp: fire_deadline_def Let_def Some c_def [symmetric] split: option.split)
    next
      case False
      then obtain due where due: "wc_dueAt c = Some due" "\<not> wc_fired c" by auto
      note at = fire_deadline_at [OF ok Some active room per c_def due(2,1)]
      show ?thesis
      proof (cases "now < due")
        case True
        have "armed env (lw_record s) (lw_deadlines s @ [(cid, due, rc)])"
          by (rule armed_other [of _ _ cid due' r]) (use arm only due in \<open>auto simp: armed_iff\<close>)
        then show ?thesis by (simp add: at(1) [OF True])
      next
        case False
        then obtain f where g: "at_run (\<lambda>w _ _ ts. grown (append_firing j f (lw_record s)) w \<and> (w_status w \<noteq> Watch_Active \<or> fst ts = lw_deadlines s))
           (fire_deadline env now cid rc s)" using at(2) by (meson not_less)
        have con: "w_conditions (append_firing j f (lw_record s)) = (w_conditions (lw_record s))[j := fired_condition (fi_firedAt f) c]"
          by (simp add: append_firing_def c_def)
        have a: "armed env (append_firing j f (lw_record s)) ((cid, due', r) # lw_deadlines s)"
          using armed_grown [OF arm grown_append [OF grown_refl]] .
        have fd: "wc_fired d" if d: "d \<in> set (w_conditions (append_firing j f (lw_record s)))" "wc_id d = cid" for d
        proof -
          obtain i where i: "i < length (w_conditions (lw_record s))" "d = w_conditions (append_firing j f (lw_record s)) ! i"
            using d(1) unfolding in_set_conv_nth append_firing_conditions by blast
          have "wc_id (w_conditions (lw_record s) ! i) = cid"
            using append_firing_nth(1) [OF i(1), of j f] i(2) d(2) by (simp add: condition_identity_def)
          then have "map wc_id (w_conditions (lw_record s)) ! i = map wc_id (w_conditions (lw_record s)) ! j"
            using i(1) j(1,2) by (simp add: c_def)
          then have "i = j" using ok i(1) j(1) by (metis ledger_ok_def length_map nth_eq_iff_index_eq)
          then show ?thesis using i by (simp add: append_firing_def fired_condition_def)
        qed
        have "armed env (append_firing j f (lw_record s)) (lw_deadlines s)" by (rule armed_other [OF a]) (simp add: fd)
        from armed_growth [OF this g] show ?thesis .
      qed
    qed
  qed
next
  case False
  then have "armed env (lw_record s) ds" for ds by (auto simp: armed_def)
  moreover have "at_run (\<lambda>w _ _ _. grown (lw_record s) w) (fire_deadline env now cid rc s)"
    by (rule growing.deadline) (simp add: at_run_def grown_refl)
  ultimately show ?thesis by (auto simp: at_run_def intro: armed_grown)
qed

lemma splice_out_set: "i < length xs \<Longrightarrow> set xs = insert (xs ! i) (set (splice_out i xs))"
  by (metis id_take_nth_drop list.set(2) set_append splice_out_def Un_insert_right)

lemma armed_step:
  assumes "ledger_ok env (lw_record s)" and "0 < we_maxPerCondition env" and arm: "armed env (lw_record s) (lw_deadlines s)"
  shows "armed env (lw_record (watch_step env now input s)) (lw_deadlines (watch_step env now input s))"
proof (cases "\<exists>i. input = Deadline_Fires i")
  case True
  then obtain i where input: "input = Deadline_Fires i" ..
  show ?thesis
  proof (cases "i < length (lw_deadlines s)")
    case True
    obtain cid due r where x: "lw_deadlines s ! i = (cid, due, r)" by (metis prod_cases3)
    let ?s = "s \<lparr> lw_deadlines := splice_out i (lw_deadlines s) \<rparr>"
    have "armed env (lw_record ?s) ((cid, due, r) # lw_deadlines ?s)"
      using arm splice_out_set [OF True] by (simp add: armed_iff x timer_keys_def)
    with fire_deadline_armed [of env ?s cid due r now r] assms(1,2) show ?thesis
      by (simp add: input deadline_fires_def True x)
  qed (use arm in \<open>simp add: input deadline_fires_def\<close>)
next
  case False
  have "at_run (\<lambda>w _ _ ts. grown (lw_record s) w \<and> (w_status w \<noteq> Watch_Active \<or> fst ts = lw_deadlines s)) s"
    by (simp add: at_run_def grown_refl)
  from armed_growth [OF arm growth.step [OF this]] False show ?thesis by blast
qed

lemma armed_registered: "armed env (new_watch_record now g ps action p tp resolved) (arm_deadlines now False (condition_states now resolved))"
  by (force simp: armed_iff timer_keys_def arm_deadlines_def List.map_filter_def image_image)

lemma armed_reaches:
  assumes "watch_reaches env (registered_run now g ps action p tp resolved steer fresh) s"
    and "distinct (map rc_id resolved)" and "0 < we_maxPerCondition env"
  shows "armed env (lw_record s) (lw_deadlines s)"
  using assms(1)
proof (induction rule: watch_reaches.induct)
  case here
  then show ?case by (simp add: armed_registered)
next
  case (there s t input)
  have "ledger_ok env (lw_record s)"
    using ledger.reaches [OF there.hyps registered_ok(1) [OF assms(2)]] by (simp add: at_run_def)
  then show ?case using armed_step assms(3) there.IH by blast
qed

text \<open>C20: In every run, while the watch is active and its ledger has room, each deadline that has not fired has a timer;
  when that timer wakes at or after the due instant the condition fires, and when it wakes early the ledger is untouched.\<close>

theorem deadline_fires_when_due:
  assumes "watch_reaches env (registered_run now g ps action p tp resolved steer fresh) s"
    and "distinct (map rc_id resolved)" and "0 < we_maxPerCondition env"
    and "w_status (lw_record s) = Watch_Active" and "length (w_firings (lw_record s)) < we_maxTotal env"
    and "c \<in> set (w_conditions (lw_record s))" and "wc_kind c = Deadline" and "wc_dueAt c = Some due" and "\<not> wc_fired c"
  shows "\<exists>i < length (lw_deadlines s). \<forall>t.
    (if t < due then lw_record (watch_step env t (Deadline_Fires i) s) = lw_record s
     else \<exists>d \<in> set (w_conditions (lw_record (watch_step env t (Deadline_Fires i) s))). wc_id d = wc_id c \<and> wc_fired d)"
proof -
  have ok: "ledger_ok env (lw_record s)"
    using ledger.reaches [OF assms(1) registered_ok(1) [OF assms(2)]] by (simp add: at_run_def)
  have "(wc_id c, due) \<in> timer_keys (lw_deadlines s)"
    using armed_reaches [OF assms(1-3)] assms(4-9) by (simp add: armed_iff)
  then obtain i r where i: "i < length (lw_deadlines s)" "lw_deadlines s ! i = (wc_id c, due, r)"
    by (auto simp: timer_keys_def in_set_conv_nth)
  obtain j where j: "find_index (\<lambda>d. wc_id d = wc_id c) (w_conditions (lw_record s)) = Some j"
    using assms(6) by (cases "find_index (\<lambda>d. wc_id d = wc_id c) (w_conditions (lw_record s))") (auto simp: find_index_None)
  have jn: "j < length (w_conditions (lw_record s))" and cj: "c = w_conditions (lw_record s) ! j"
    using find_index_SomeD [OF j] distinct_ids [OF ok assms(6)] by auto
  let ?s = "s \<lparr> lw_deadlines := splice_out i (lw_deadlines s) \<rparr>"
  have at: "t < due \<Longrightarrow> lw_record (fire_deadline env t (wc_id c) r ?s) = lw_record s"
    "due \<le> t \<Longrightarrow> \<exists>f. grown (append_firing j f (lw_record s)) (lw_record (fire_deadline env t (wc_id c) r ?s))" for t
    using fire_deadline_at [of env ?s "wc_id c" j c due t r] ok j assms(3-5,8,9) cj by (auto simp: at_run_def)
  have "\<exists>d \<in> set (w_conditions w). wc_id d = wc_id c \<and> wc_fired d" if "grown (append_firing j f (lw_record s)) w" for f w
    using that jn cj
    by (intro bexI [of _ "w_conditions w ! j"])
       (auto simp: grown_def list_all2_conv_all_nth append_firing_def condition_identity_def fired_condition_def dest!: spec [of _ j])
  with at i show ?thesis
    by (intro exI [of _ i]) (force simp: deadline_fires_def not_less)
qed

end
