(* ===== verification/Watch_Manager.thy ===== *)
theory Watch_Manager
  imports Watch_Liveness Phase7_Shadow
begin

text \<open>
  The manager of all watches: \<open>internal-api/watch/watch-manager.ts\<close>, registration, deletion, restart and reconciliation.

  \<^item> \<open>watch_manager\<close> holds the live watches, the visible store, the runtime claims (pins) that it has taken, and the steer
    targets in flight. A destructive operation runs in the mutation chain of its session, one after the other, and is one
    step here: the events that arrive while it awaits go to the watch that is live.
  \<^item> \<open>watch_services\<close> are the answers of the outside world: whether a pin is granted or released, whether a save and an
    unlink succeed.
  \<^item> \<open>wm_store\<close> is what \<open>WatchStore.get\<close> answers where no watch is live: the last record of the session that reached the disk
    (\<open>durable_after\<close>). A live watch answers with its own record, which may be ahead of the disk.
\<close>

subsection \<open>State\<close>

record watch_services =
  sv_pins :: "jsstr \<Rightarrow> jsstr \<Rightarrow> bool"
  sv_unpins :: "jsstr \<Rightarrow> jsstr \<Rightarrow> bool"
  sv_hasUnpin :: bool
  sv_saves :: "watch_record \<Rightarrow> bool"
  sv_unlinks :: "jsstr \<Rightarrow> bool"

record watch_manager =
  wm_active :: "(jsstr, live_watch) jsmap"
  wm_store :: "(jsstr, watch_record) jsmap"
  wm_claims :: "(jsstr \<times> jsstr) jsset"
  wm_steer :: "jsstr jsset"
  wm_fresh :: nat
  wm_orphans :: "wake_job list"
  wm_out :: "watch_effect list"

datatype watch_error =
    Watch_Invalid string
  | Generation_Mismatch "jsstr option"
  | Generation_Missing
  | Watch_Save_Failed
  | Watch_Unlink_Failed

definition subject_claim :: "jsstr \<Rightarrow> jsstr" where "subject_claim watchId = js ''watch:'' @ watchId"
definition target_claim :: "jsstr \<Rightarrow> jsstr" where "target_claim watchId = js ''watch-target:'' @ watchId"

text \<open>\<open>pinSession\<close> and \<open>unpinSession\<close>; a rejection counts as false.\<close>

definition pin_session :: "watch_services \<Rightarrow> jsstr \<Rightarrow> jsstr \<Rightarrow> watch_manager \<Rightarrow> bool \<times> watch_manager" where
  "pin_session sv sid claim m =
     (if sv_pins sv sid claim then (True, m \<lparr> wm_claims := js_add (sid, claim) (wm_claims m) \<rparr>) else (False, m))"

definition unpin_session :: "watch_services \<Rightarrow> jsstr \<Rightarrow> jsstr \<Rightarrow> watch_manager \<Rightarrow> bool \<times> watch_manager" where
  "unpin_session sv sid claim m =
     (if sv_hasUnpin sv \<and> sv_unpins sv sid claim then (True, m \<lparr> wm_claims := js_remove (sid, claim) (wm_claims m) \<rparr>) else (False, m))"

definition pin_if :: "bool \<Rightarrow> watch_services \<Rightarrow> jsstr \<Rightarrow> jsstr \<Rightarrow> watch_manager \<Rightarrow> bool \<times> watch_manager" where
  "pin_if b sv sid claim m = (if b then pin_session sv sid claim m else (False, m))"

definition unpin_if :: "bool \<Rightarrow> watch_services \<Rightarrow> jsstr \<Rightarrow> jsstr \<Rightarrow> watch_manager \<Rightarrow> watch_manager" where
  "unpin_if b sv sid claim m = (if b then snd (unpin_session sv sid claim m) else m)"

definition watch_of :: "jsstr \<Rightarrow> watch_manager \<Rightarrow> watch_record option" where
  "watch_of sid m =
     (case jm_get (wm_active m) sid of Some v \<Rightarrow> Some (lw_record v) | None \<Rightarrow> jm_get (wm_store m) sid)"

text \<open>The saves of an operation, in order: one that fails leaves the last record that reached the disk, and one whose
  generation is no longer the durable one is dropped.\<close>

definition save_live :: "watch_services \<Rightarrow> watch_record \<Rightarrow> (jsstr, watch_record) jsmap \<Rightarrow> (jsstr, watch_record) jsmap" where
  "save_live sv w store =
     (if w_generation w \<noteq> None \<and> Option.bind (jm_get store (w_sessionId w)) w_generation = w_generation w \<and> sv_saves sv w
      then jm_set (w_sessionId w) w store else store)"

definition durable_after :: "watch_services \<Rightarrow> watch_effect list \<Rightarrow> (jsstr, watch_record) jsmap \<Rightarrow> (jsstr, watch_record) jsmap" where
  "durable_after sv effects store = fold (\<lambda>e st. case e of Saved why w \<Rightarrow> save_live sv w st | _ \<Rightarrow> st) effects store"

text \<open>An operation on the live watch of a session, if there is one.\<close>

definition live_run :: "live_watch \<Rightarrow> watch_manager \<Rightarrow> watch_run" where
  "live_run v m = run_of v (wm_steer m) (wm_fresh m)"

definition put_run :: "watch_services \<Rightarrow> jsstr \<Rightarrow> watch_run \<Rightarrow> watch_manager \<Rightarrow> watch_manager" where
  "put_run sv sid s m = m \<lparr> wm_active := jm_set sid (live_watch.truncate s) (wm_active m), wm_steer := wr_steer s,
     wm_fresh := wr_fresh s, wm_out := wm_out m @ wr_out s, wm_store := durable_after sv (wr_out s) (wm_store m) \<rparr>"

definition on_live :: "watch_services \<Rightarrow> jsstr \<Rightarrow> (watch_run \<Rightarrow> watch_run) \<Rightarrow> watch_manager \<Rightarrow> watch_manager" where
  "on_live sv sid f m = (case jm_get (wm_active m) sid of None \<Rightarrow> m | Some v \<Rightarrow> put_run sv sid (f (live_run v m)) m)"

text \<open>A job of a watch that was torn down does nothing but give its steer target back.\<close>

definition teardown :: "jsstr \<Rightarrow> watch_manager \<Rightarrow> watch_manager" where
  "teardown sid m =
     (case jm_get (wm_active m) sid of
        None \<Rightarrow> m
      | Some v \<Rightarrow> m \<lparr> wm_active := jm_del sid (wm_active m), wm_orphans := wm_orphans m @ lw_chain v \<rparr>)"

definition orphan_ends :: "nat \<Rightarrow> watch_manager \<Rightarrow> watch_manager" where
  "orphan_ends i m =
     (if i < length (wm_orphans m)
      then let input = wj_input (wm_orphans m ! i) in
           m \<lparr> wm_orphans := splice_out i (wm_orphans m),
               wm_steer := (if wi_mode input = Wake_Steer then js_remove (wi_target input) (wm_steer m) else wm_steer m) \<rparr>
      else m)"

definition close_watches :: "watch_manager \<Rightarrow> watch_manager" where
  "close_watches m = fold teardown (jm_keys (wm_active m)) m"

subsection \<open>Registration\<close>

definition generation_matches :: "json \<Rightarrow> watch_record option \<Rightarrow> bool" where
  "generation_matches expected previous \<longleftrightarrow>
     (case expected of
        JUndef \<Rightarrow> True
      | JNull \<Rightarrow> previous = None
      | JStr g \<Rightarrow> previous \<noteq> None \<and> w_generation (the previous) = Some g
      | _ \<Rightarrow> False)"

text \<open>The checks of a request, in the order of the code: its resolved conditions and its action.\<close>

definition validate_registration :: "watch_env \<Rightarrow> watch_params \<Rightarrow> string + (resolved_condition list \<times> on_fire_action option)" where
  "validate_registration env ps =
     (if wp_conditions ps = [] then Inl ''At least one condition is required''
      else case resolve_conditions (we_regex env) (wp_conditions ps) of
        Inl e \<Rightarrow> Inl e
      | Inr resolved \<Rightarrow>
          if wp_fireIfSettled ps \<noteq> JUndef \<and> \<not> is_bool (wp_fireIfSettled ps) then Inl ''fireIfSettled must be a boolean''
          else if wp_onFire ps = JUndef then Inr (resolved, None)
          else (case validate_on_fire_action (wp_sessionId ps) (wp_onFire ps) of
                  Inl e \<Rightarrow> Inl e
                | Inr action \<Rightarrow> Inr (resolved, Some action)))"

record claim_plan =
  cp_reuseSubject :: bool
  cp_newSubject :: bool
  cp_desiredTarget :: "jsstr option"
  cp_previousTarget :: "jsstr option"
  cp_newTarget :: bool

definition cp_reuseTarget :: "claim_plan \<Rightarrow> bool" where
  "cp_reuseTarget plan \<longleftrightarrow> cp_desiredTarget plan \<noteq> None \<and> cp_desiredTarget plan = cp_previousTarget plan"

text \<open>Take the claims that the previous generation does not own.\<close>

definition prepare_claims :: "watch_services \<Rightarrow> watch_params \<Rightarrow> on_fire_action option \<Rightarrow> watch_record option \<Rightarrow> watch_manager \<Rightarrow> claim_plan \<times> watch_manager" where
  "prepare_claims sv ps action previous m0 =
     (let sid = wp_sessionId ps; watchId = js ''watch-'' @ sid;
          reuse = (wp_pin ps \<and> previous \<noteq> None \<and> w_pinned (the previous));
          prevTarget = (case previous of
              Some w \<Rightarrow> if w_targetPinned w then map_option of_target (w_onFire w) else None | None \<Rightarrow> None);
          desired = (case action of Some a \<Rightarrow> if of_pinTarget a then Some (of_target a) else None | None \<Rightarrow> None) in
      case pin_if (wp_pin ps \<and> \<not> reuse) sv sid (subject_claim watchId) m0 of
        (newSubject, m1) \<Rightarrow>
          (case (case desired of
                   Some t \<Rightarrow> pin_if (desired \<noteq> prevTarget) sv t (target_claim watchId) m1
                 | None \<Rightarrow> (False, m1)) of
             (newTarget, m2) \<Rightarrow>
               (\<lparr> cp_reuseSubject = reuse, cp_newSubject = newSubject, cp_desiredTarget = desired,
                  cp_previousTarget = prevTarget, cp_newTarget = newTarget \<rparr>, m2)))"

definition release_new_claims :: "watch_services \<Rightarrow> watch_params \<Rightarrow> claim_plan \<Rightarrow> watch_manager \<Rightarrow> watch_manager" where
  "release_new_claims sv ps plan m =
     (let sid = wp_sessionId ps; watchId = js ''watch-'' @ sid;
          m1 = unpin_if (cp_newSubject plan) sv sid (subject_claim watchId) m in
      case cp_desiredTarget plan of
        Some t \<Rightarrow> unpin_if (cp_newTarget plan) sv t (target_claim watchId) m1
      | None \<Rightarrow> m1)"

text \<open>After the save: the old generation gives its claims back, and a claim that is kept is taken again.\<close>

definition retake_claim ::
    "bool \<Rightarrow> watch_services \<Rightarrow> jsstr \<Rightarrow> jsstr \<Rightarrow> jsstr \<Rightarrow> (bool \<Rightarrow> watch_record \<Rightarrow> watch_record) \<Rightarrow> watch_manager \<Rightarrow> watch_manager" where
  "retake_claim b sv t claim sid note m =
     (if b then case pin_session sv t claim m of (granted, m1) \<Rightarrow> on_live sv sid (with_record (note granted)) m1 else m)"

definition rotate_claims :: "watch_services \<Rightarrow> watch_params \<Rightarrow> claim_plan \<Rightarrow> watch_record option \<Rightarrow> watch_manager \<Rightarrow> watch_manager" where
  "rotate_claims sv ps plan previous m0 =
     (case previous of
        None \<Rightarrow> m0
      | Some w \<Rightarrow>
          let sid = wp_sessionId ps; watchId = js ''watch-'' @ sid;
              m1 = unpin_if (w_pinned w) sv sid (subject_claim (w_watchId w)) m0;
              m2 = retake_claim (w_pinned w \<and> sv_hasUnpin sv \<and> cp_reuseSubject plan) sv sid (subject_claim watchId) sid
                     (\<lambda>b r. r \<lparr> w_pinned := b \<rparr>) m1 in
          (case cp_previousTarget plan of
             None \<Rightarrow> m2
           | Some t \<Rightarrow>
               retake_claim (sv_hasUnpin sv \<and> cp_reuseTarget plan) sv t (target_claim watchId) sid
                 (\<lambda>b r. r \<lparr> w_targetPinned := b \<rparr>) (unpin_if True sv t (target_claim (w_watchId w)) m2)))"

definition register_watch ::
    "watch_env \<Rightarrow> watch_services \<Rightarrow> int \<Rightarrow> subject_settlement \<Rightarrow> watch_params \<Rightarrow> watch_manager
     \<Rightarrow> (watch_error + watch_record \<times> settled_result option) \<times> watch_manager" where
  "register_watch env sv now st ps m0 =
     (let sid = wp_sessionId ps; previous = watch_of sid m0 in
      case validate_registration env ps of
        Inl e \<Rightarrow> (Inl (Watch_Invalid e), m0)
      | Inr (resolved, action) \<Rightarrow>
          if \<not> generation_matches (wp_expectedGeneration ps) previous
          then (Inl (Generation_Mismatch (Option.bind previous w_generation)), m0)
          else
            (case prepare_claims sv ps action previous m0 of
               (plan, m1) \<Rightarrow>
                 let w = new_watch_record now (we_uuid env (wm_fresh m1)) ps action
                           (cp_reuseSubject plan \<or> cp_newSubject plan) (cp_reuseTarget plan \<or> cp_newTarget plan) resolved in
                 if \<not> sv_saves sv w then (Inl Watch_Save_Failed, release_new_claims sv ps plan m1)
                 else
                   let m2 = teardown sid (m1 \<lparr> wm_store := jm_set sid w (wm_store m1), wm_fresh := Suc (wm_fresh m1),
                                               wm_out := wm_out m1 @ [Saved ''register'' w] \<rparr>);
                       m3 = m2 \<lparr> wm_active := jm_set sid (activate_watch now False w resolved) (wm_active m2) \<rparr>;
                       m4 = rotate_claims sv ps plan previous m3;
                       m5 = on_live sv sid (announce env Announced_Registration) m4;
                       v = the (jm_get (wm_active m5) sid) in
                   if wp_fireIfSettled ps = JBool True
                   then case apply_fire_if_settled env now st (live_run v m5) of
                          (r, s) \<Rightarrow> (Inr (lw_record s, Some r), put_run sv sid s m5)
                   else (Inr (lw_record v, None), m5)))"

subsection \<open>Reading and deleting\<close>

record watch_response =
  rw_record :: watch_record
  rw_firingCount :: nat
  rw_pendingConditionIds :: "jsstr list"
  rw_allFired :: bool

definition to_response :: "watch_record \<Rightarrow> watch_response option" where
  "to_response w =
     (if w_generation w = None then None
      else let pending = map wc_id (filter (\<lambda>c. \<not> wc_fired c) (w_conditions w)) in
        Some \<lparr> rw_record = w, rw_firingCount = length (w_firings w), rw_pendingConditionIds = pending, rw_allFired = (pending = []) \<rparr>)"

definition get_watch :: "jsstr \<Rightarrow> watch_manager \<Rightarrow> watch_response option" where
  "get_watch sid m = Option.bind (watch_of sid m) to_response"

definition delete_watch ::
    "watch_services \<Rightarrow> jsstr \<Rightarrow> jsstr option \<Rightarrow> watch_manager \<Rightarrow> (watch_error + (jsstr \<times> jsstr) option) \<times> watch_manager" where
  "delete_watch sv sid expected m =
     (let previous = watch_of sid m in
      if expected \<noteq> None \<and> Option.bind previous w_generation \<noteq> expected
      then (Inl (Generation_Mismatch (Option.bind previous w_generation)), m)
      else case previous of
        None \<Rightarrow> (Inr None, m)
      | Some w \<Rightarrow>
          (case w_generation w of
             None \<Rightarrow> (Inl Generation_Missing, m)
           | Some g \<Rightarrow>
               let m1 = unpin_if (w_pinned w) sv sid (subject_claim (w_watchId w)) (teardown sid m);
                   m2 = (case w_onFire w of
                           Some a \<Rightarrow> unpin_if (w_targetPinned w) sv (of_target a) (target_claim (w_watchId w)) m1
                         | None \<Rightarrow> m1) in
               if sv_unlinks sv sid then (Inr (Some (g, w_watchId w)), m2 \<lparr> wm_store := jm_del sid (wm_store m2) \<rparr>)
               else (Inl Watch_Unlink_Failed, m2)))"

text \<open>What a completed watch does in the mutation chain of its session.\<close>

definition release_claims :: "watch_services \<Rightarrow> jsstr \<Rightarrow> watch_manager \<Rightarrow> watch_manager" where
  "release_claims sv sid m0 =
     (case jm_get (wm_active m0) sid of
        None \<Rightarrow> m0
      | Some v \<Rightarrow>
          let w = lw_record v;
              m2 = (if w_pinned w
                    then case unpin_session sv sid (subject_claim (w_watchId w)) m0 of
                           (b, m1) \<Rightarrow> if b then on_live sv sid (with_record (\<lambda>r. r \<lparr> w_pinned := False \<rparr>)) m1 else m1
                    else m0);
              m4 = (case w_onFire w of
                      Some a \<Rightarrow>
                        if w_targetPinned w
                        then case unpin_session sv (of_target a) (target_claim (w_watchId w)) m2 of
                               (b, m3) \<Rightarrow> if b then on_live sv sid (with_record (\<lambda>r. r \<lparr> w_targetPinned := False \<rparr>)) m3 else m3
                        else m2
                    | None \<Rightarrow> m2) in
          on_live sv sid (\<lambda>s. emit (Saved ''wake-attempt'' (lw_record s)) s) m4)"

subsection \<open>Restart\<close>

text \<open>The migration of one stored ledger: the record, whether it changed, and the conditions it comes back with.\<close>

definition migrate_record :: "watch_env \<Rightarrow> nat \<Rightarrow> watch_record \<Rightarrow> watch_record \<times> bool \<times> resolved_condition list option" where
  "migrate_record env n w0 =
     (let w = (case w_generation w0 of None \<Rightarrow> w0 \<lparr> w_generation := Some (we_uuid env n) \<rparr> | Some _ \<Rightarrow> w0);
          resolved = (case resolve_conditions (we_regex env) (map wc_spec (w_conditions w)) of Inr r \<Rightarrow> r | Inl _ \<Rightarrow> []) in
      if w_status w \<noteq> Watch_Active then (w, w_generation w0 = None, None)
      else if resolved \<noteq> [] then (w, w_generation w0 = None, Some resolved)
      else (w \<lparr> w_status := Watch_Detached \<rparr>, True, None))"

text \<open>All migrations are saved before any watch is activated; a save that fails ends the initialisation.\<close>

fun migrate_all :: "watch_env \<Rightarrow> watch_services \<Rightarrow> watch_record list \<Rightarrow> watch_manager \<Rightarrow> bool \<times> (watch_record \<times> resolved_condition list) list \<times> watch_manager" where
  "migrate_all env sv [] m = (True, [], m)"
| "migrate_all env sv (w0 # rest) m =
     (case migrate_record env (wm_fresh m) w0 of
        (w, changed, resolved) \<Rightarrow>
          if changed \<and> \<not> sv_saves sv w then (False, [], m)
          else
            (case migrate_all env sv rest (m \<lparr> wm_fresh := Suc (wm_fresh m),
                    wm_store := (if changed then jm_set (w_sessionId w) w (wm_store m) else wm_store m) \<rparr>) of
               (ok, lives, m1) \<Rightarrow> (ok, (case resolved of Some r \<Rightarrow> (w, r) # lives | None \<Rightarrow> lives), m1)))"

definition rehydrate_watch :: "watch_env \<Rightarrow> watch_services \<Rightarrow> int \<Rightarrow> watch_record \<times> resolved_condition list \<Rightarrow> watch_manager \<Rightarrow> watch_manager" where
  "rehydrate_watch env sv now wr m0 =
     (case wr of (w0, resolved) \<Rightarrow>
        case pin_if (w_pinned w0) sv (w_sessionId w0) (subject_claim (w_watchId w0)) m0 of
          (b, m1) \<Rightarrow>
            let w = w0 \<lparr> w_pinned := b \<rparr>; sid = w_sessionId w;
                m2 = (case w_onFire w of
                        Some a \<Rightarrow> snd (pin_if (w_targetPinned w) sv (of_target a) (target_claim (w_watchId w)) m1)
                      | None \<Rightarrow> m1);
                m3 = m2 \<lparr> wm_active := jm_set sid (activate_watch now True w resolved) (wm_active m2) \<rparr> in
            on_live sv sid (complete_observer now) m3)"

definition watch_manager_init :: "(jsstr, watch_record) jsmap \<Rightarrow> watch_manager" where
  "watch_manager_init disk = \<lparr> wm_active = [], wm_store = disk, wm_claims = [], wm_steer = [], wm_fresh = 0, wm_orphans = [], wm_out = [] \<rparr>"

definition init_watches :: "watch_env \<Rightarrow> watch_services \<Rightarrow> int \<Rightarrow> watch_manager \<Rightarrow> bool \<times> watch_manager" where
  "init_watches env sv now m =
     (case migrate_all env sv (jm_values (wm_store m)) m of
        (ok, lives, m1) \<Rightarrow> if ok then (True, fold (rehydrate_watch env sv now) lives m1) else (False, m1))"

subsection \<open>Reconciliation\<close>

definition reconciled_event :: "string \<Rightarrow> int \<Rightarrow> js_object \<Rightarrow> js_object" where
  "reconciled_event type t data = [(js ''type'', text_json type), (js ''timestamp'', int_json t), (js ''data'', JObj data)]"

definition waits_on :: "string \<Rightarrow> watch_record \<Rightarrow> bool" where
  "waits_on type w \<longleftrightarrow> list_ex (\<lambda>c. \<not> wc_fired c \<and> is_text type (cs_eventType (wc_spec c))) (w_conditions w)"

definition reconcile_downtime :: "watch_env \<Rightarrow> int \<Rightarrow> int option \<Rightarrow> watch_run \<Rightarrow> watch_run" where
  "reconcile_downtime env now lastActivity s =
     (let w = lw_record s in
      case lastActivity of
        None \<Rightarrow> s
      | Some t \<Rightarrow>
          if \<not> waits_on ''agent_end'' w \<or> w_status w \<noteq> Watch_Active
             \<or> t \<le> (case as_lastEventAt (w_snapshot w) of Some u \<Rightarrow> u | None \<Rightarrow> w_updatedAt w) then s
          else snd (handle_event env now (reconciled_event ''agent_end'' t
                 [(js ''sessionId'', JStr (w_sessionId w)), (js ''reconciledDowntime'', JBool True)]) (None, s)))"

record interrupted_run =
  ir_runId :: jsstr
  ir_terminalAt :: "int option"
  ir_errorCode :: jsstr
  ir_interruptionReason :: jsstr

text \<open>\<open>reduce\<close> to the latest; a time that does not parse is never later.\<close>

definition latest_run :: "interrupted_run list \<Rightarrow> interrupted_run" where
  "latest_run rs = foldl (\<lambda>a b. case (ir_terminalAt a, ir_terminalAt b) of (Some x, Some y) \<Rightarrow> if x < y then b else a | _ \<Rightarrow> a) (hd rs) (tl rs)"

definition interruption_data :: "jsstr \<Rightarrow> interrupted_run list \<Rightarrow> js_object" where
  "interruption_data sid rs =
     (let r = latest_run rs in
      [(js ''sessionId'', JStr sid), (js ''interruptedByRestart'', JBool True), (js ''status'', text_json ''interrupted''),
       (js ''runId'', JStr (ir_runId r)), (js ''runIds'', JArr (map (\<lambda>x. JStr (ir_runId x)) rs)),
       (js ''errorCode'', JStr (ir_errorCode r)), (js ''interruptionReason'', JStr (ir_interruptionReason r))])"

definition busy_data :: "jsstr \<Rightarrow> interrupted_run \<Rightarrow> js_object" where
  "busy_data sid r =
     [(js ''sessionId'', JStr sid), (js ''interruptedByRestart'', JBool True), (js ''status'', text_json ''interrupted''),
      (js ''runId'', JStr (ir_runId r)), (js ''busySession'', JBool True),
      (js ''errorCode'', JStr (ir_errorCode r)), (js ''interruptionReason'', JStr (ir_interruptionReason r))]"

text \<open>One session: \<open>autoContinued\<close> is what the probe answers, and \<open>between\<close> what reaches the watch while it is awaited.\<close>

definition reconcile_session ::
    "watch_env \<Rightarrow> int \<Rightarrow> int \<Rightarrow> js_object \<Rightarrow> bool \<Rightarrow> (watch_run \<Rightarrow> watch_run) \<Rightarrow> watch_run \<Rightarrow> watch_run" where
  "reconcile_session env now t data autoContinued between s =
     (if w_status (lw_record s) \<noteq> Watch_Active then s
      else
        (case handle_event env now (reconciled_event ''agent_end'' t data) (Some 1, s) of
           (budget, s1) \<Rightarrow>
             if waits_on ''goal_end'' (lw_record s) \<and> w_status (lw_record s1) = Watch_Active
             then let s2 = between s1 in
                  if autoContinued then s2
                  else snd (handle_event env now (reconciled_event ''goal_end'' t data) (budget, s2))
             else s1))"

text \<open>The sessions with recovered runs, then the busy ones that have none.\<close>

definition interrupted_sessions :: "(jsstr \<times> interrupted_run) list \<Rightarrow> (jsstr \<times> interrupted_run) list \<Rightarrow> int \<Rightarrow> (jsstr \<times> int \<times> js_object) list" where
  "interrupted_sessions runs busy now =
     map (\<lambda>sid. let rs = map snd (filter (\<lambda>x. fst x = sid) runs) in
                 (sid, (case ir_terminalAt (latest_run rs) of Some t \<Rightarrow> t | None \<Rightarrow> now), interruption_data sid rs))
         (fold js_add (map fst runs) [])
     @ map (\<lambda>sid. (sid, now, busy_data sid (the (map_of busy sid))))
         (filter (\<lambda>sid. sid \<notin> fst ` set runs) (fold js_add (map fst busy) []))"

definition notify_run_never_started :: "watch_env \<Rightarrow> int \<Rightarrow> jsstr \<Rightarrow> jsstr \<Rightarrow> jsstr \<Rightarrow> int \<Rightarrow> watch_run \<Rightarrow> watch_run" where
  "notify_run_never_started env now runId errorCode acceptedAt startWindowMs s =
     (if w_status (lw_record s) \<noteq> Watch_Active then s
      else snd (handle_event env now (reconciled_event ''agent_end'' now
        [(js ''sessionId'', JStr (w_sessionId (lw_record s))), (js ''runNeverStarted'', JBool True), (js ''status'', text_json ''failed''),
         (js ''runId'', JStr runId), (js ''errorCode'', JStr errorCode), (js ''acceptedAt'', JStr acceptedAt),
         (js ''startWindowMs'', int_json startWindowMs)]) (Some 1, s)))"

subsection \<open>A rejected registration changes nothing\<close>

lemma claim_steps [simp]:
  "wm_active (snd (pin_if b sv sid c m)) = wm_active m" "wm_store (snd (pin_if b sv sid c m)) = wm_store m"
  "wm_fresh (snd (pin_if b sv sid c m)) = wm_fresh m" "wm_steer (snd (pin_if b sv sid c m)) = wm_steer m"
  "wm_active (unpin_if b sv sid c m) = wm_active m" "wm_store (unpin_if b sv sid c m) = wm_store m"
  "wm_fresh (unpin_if b sv sid c m) = wm_fresh m" "wm_steer (unpin_if b sv sid c m) = wm_steer m"
  by (simp_all add: pin_if_def pin_session_def unpin_if_def unpin_session_def)

text \<open>The claims that a watch of a session can hold, and those that its ledger owns.\<close>

definition claim_of_watch :: "jsstr \<Rightarrow> jsstr \<times> jsstr \<Rightarrow> bool" where
  "claim_of_watch sid x \<longleftrightarrow> x = (sid, subject_claim (js ''watch-'' @ sid)) \<or> snd x = target_claim (js ''watch-'' @ sid)"

definition owns_claim :: "jsstr \<Rightarrow> watch_record option \<Rightarrow> jsstr \<times> jsstr \<Rightarrow> bool" where
  "owns_claim sid previous x \<longleftrightarrow>
     (case previous of
        None \<Rightarrow> False
      | Some w \<Rightarrow> w_pinned w \<and> x = (sid, subject_claim (js ''watch-'' @ sid))
          \<or> w_targetPinned w \<and> (\<exists>a. w_onFire w = Some a \<and> x = (of_target a, target_claim (js ''watch-'' @ sid))))"

definition can_unpin :: "watch_services \<Rightarrow> jsstr \<times> jsstr \<Rightarrow> bool" where
  "can_unpin sv x \<longleftrightarrow> sv_hasUnpin sv \<and> sv_unpins sv (fst x) (snd x)"

lemma claims_differ [simp]: "subject_claim w \<noteq> target_claim v" "target_claim v \<noteq> subject_claim w"
  by (simp_all add: subject_claim_def target_claim_def js_def)

lemma claim_effects:
  "pin_if b sv sid c m = (g, m') \<Longrightarrow> m' = m \<lparr> wm_claims := wm_claims m' \<rparr>
     \<and> set (wm_claims m') = (if g then insert (sid, c) (set (wm_claims m)) else set (wm_claims m)) \<and> (g \<longrightarrow> b)"
  "unpin_if b sv sid c m = m \<lparr> wm_claims := wm_claims (unpin_if b sv sid c m) \<rparr>
     \<and> set (wm_claims (unpin_if b sv sid c m)) = (if b \<and> can_unpin sv (sid, c) then set (wm_claims m) - {(sid, c)} else set (wm_claims m))"
  by (auto simp: pin_if_def pin_session_def unpin_if_def unpin_session_def can_unpin_def split: if_splits)

lemma only_claims:
  fixes x y z :: watch_manager
  shows "x = y \<lparr> wm_claims := wm_claims x \<rparr> \<Longrightarrow> y = z \<lparr> wm_claims := wm_claims y \<rparr> \<Longrightarrow> x = z \<lparr> wm_claims := wm_claims x \<rparr>"
  by (cases x; cases y; cases z) simp

text \<open>Taking the claims of a candidate and giving them back touches nothing else, and only claims of this watch that the
  previous generation does not own.\<close>

lemma prepare_release:
  assumes prep: "prepare_claims sv ps action previous m = (plan, m1)"
  shows "release_new_claims sv ps plan m1 = m \<lparr> wm_claims := wm_claims (release_new_claims sv ps plan m1) \<rparr>"
    and "(x \<in> set (wm_claims (release_new_claims sv ps plan m1))) \<noteq> (x \<in> set (wm_claims m)) \<Longrightarrow>
      claim_of_watch (wp_sessionId ps) x \<and> \<not> owns_claim (wp_sessionId ps) previous x
      \<and> (x \<in> set (wm_claims (release_new_claims sv ps plan m1)) \<longrightarrow> \<not> can_unpin sv x)"
proof -
  let ?sid = "wp_sessionId ps" and ?w = "js ''watch-'' @ wp_sessionId ps"
  let ?m' = "release_new_claims sv ps plan m1"
  define reuse where "reuse = (wp_pin ps \<and> previous \<noteq> None \<and> w_pinned (the previous))"
  define prevTarget where "prevTarget = (case previous of Some w \<Rightarrow> if w_targetPinned w then map_option of_target (w_onFire w) else None | None \<Rightarrow> None)"
  define desired where "desired = (case action of Some a \<Rightarrow> if of_pinTarget a then Some (of_target a) else None | None \<Rightarrow> None)"
  have subj: "\<not> owns_claim ?sid previous (?sid, subject_claim ?w)" if "wp_pin ps" "\<not> reuse"
    using that by (auto simp: owns_claim_def reuse_def split: option.splits)
  have tgt: "\<not> owns_claim ?sid previous (t, target_claim ?w)" if "Some t \<noteq> prevTarget" for t
    using that by (auto simp: owns_claim_def prevTarget_def split: option.splits)
  obtain p1 q1 where p1: "pin_if (wp_pin ps \<and> \<not> reuse) sv ?sid (subject_claim ?w) m = (p1, q1)" by fastforce
  note e1 = claim_effects(1) [OF p1]
  define r1 where "r1 q = unpin_if p1 sv ?sid (subject_claim ?w) q" for q
  have r1: "r1 q = q \<lparr> wm_claims := wm_claims (r1 q) \<rparr>"
    "set (wm_claims (r1 q)) = (if p1 \<and> can_unpin sv (?sid, subject_claim ?w) then set (wm_claims q) - {(?sid, subject_claim ?w)} else set (wm_claims q))" for q
    unfolding r1_def using claim_effects(2) [of p1 sv ?sid "subject_claim ?w" q] by simp_all
  have "?m' = m \<lparr> wm_claims := wm_claims ?m' \<rparr> \<and> ((x \<in> set (wm_claims ?m')) \<noteq> (x \<in> set (wm_claims m)) \<longrightarrow>
      claim_of_watch ?sid x \<and> \<not> owns_claim ?sid previous x \<and> (x \<in> set (wm_claims ?m') \<longrightarrow> \<not> can_unpin sv x))"
  proof (cases desired)
    case None
    then have "plan = \<lparr> cp_reuseSubject = reuse, cp_newSubject = p1, cp_desiredTarget = None, cp_previousTarget = prevTarget, cp_newTarget = False \<rparr>" "m1 = q1"
      using prep p1 unfolding prepare_claims_def Let_def reuse_def [symmetric] prevTarget_def [symmetric] desired_def [symmetric] by simp_all
    then have m': "?m' = r1 q1" by (simp add: release_new_claims_def Let_def r1_def)
    have same: "r1 q1 = m \<lparr> wm_claims := wm_claims (r1 q1) \<rparr>" by (rule only_claims [OF r1(1)]) (use e1 in blast)
    show ?thesis unfolding m'
      by (rule conjI [OF same])
        (use r1(2) [of q1] conjunct2 [OF e1] subj in \<open>auto simp: claim_of_watch_def split: if_splits\<close>)
  next
    case (Some t)
    obtain p2 q2 where p2: "pin_if (desired \<noteq> prevTarget) sv t (target_claim ?w) q1 = (p2, q2)" by fastforce
    note e2 = claim_effects(1) [OF p2]
    have "plan = \<lparr> cp_reuseSubject = reuse, cp_newSubject = p1, cp_desiredTarget = Some t, cp_previousTarget = prevTarget, cp_newTarget = p2 \<rparr>" "m1 = q2"
      using prep p1 p2 Some unfolding prepare_claims_def Let_def reuse_def [symmetric] prevTarget_def [symmetric] desired_def [symmetric] by simp_all
    then have m': "?m' = unpin_if p2 sv t (target_claim ?w) (r1 q2)" by (simp add: release_new_claims_def Let_def r1_def)
    note e3 = claim_effects(2) [of p2 sv t "target_claim ?w" "r1 q2"]
    have same: "?m' = m \<lparr> wm_claims := wm_claims ?m' \<rparr>"
      unfolding m' by (rule only_claims [OF conjunct1 [OF e3] only_claims [OF r1(1) only_claims [OF conjunct1 [OF e2] conjunct1 [OF e1]]]])
    have rest: "set (wm_claims ?m') = (if p2 \<and> can_unpin sv (t, target_claim ?w) then set (wm_claims (r1 q2)) - {(t, target_claim ?w)} else set (wm_claims (r1 q2)))"
      unfolding m' by (rule conjunct2 [OF e3])
    define S where "S = (?sid, subject_claim ?w)"
    define T where "T = (t, target_claim ?w)"
    have ne: "S \<noteq> T" by (simp add: S_def T_def)
    have own: "p1 \<Longrightarrow> \<not> owns_claim ?sid previous S" "p2 \<Longrightarrow> \<not> owns_claim ?sid previous T"
      using conjunct2 [OF e1] conjunct2 [OF e2] subj tgt [of t] Some unfolding S_def T_def by metis+
    have of: "claim_of_watch ?sid S" "claim_of_watch ?sid T" by (simp_all add: claim_of_watch_def S_def T_def)
    have sets: "set (wm_claims q2) = set (wm_claims m) \<union> (if p1 then {S} else {}) \<union> (if p2 then {T} else {})"
      using conjunct2 [OF e1] conjunct2 [OF e2] unfolding S_def T_def by simp
    have "set (wm_claims ?m') = set (wm_claims q2) - (if p1 \<and> can_unpin sv S then {S} else {}) - (if p2 \<and> can_unpin sv T then {T} else {})"
      using rest r1(2) [of q2] unfolding S_def [symmetric] T_def [symmetric] by simp
    then show ?thesis
      using sets own of ne by (intro conjI [OF same]) (simp split: if_splits; blast)
  qed
  then show "?m' = m \<lparr> wm_claims := wm_claims ?m' \<rparr>"
    "(x \<in> set (wm_claims ?m')) \<noteq> (x \<in> set (wm_claims m)) \<Longrightarrow>
      claim_of_watch ?sid x \<and> \<not> owns_claim ?sid previous x \<and> (x \<in> set (wm_claims ?m') \<longrightarrow> \<not> can_unpin sv x)"
    by blast+
qed

text \<open>C18: A rejected registration, whatever the pin services answer, leaves the live watches, the stored ledgers, the steer
  targets, the wakes in flight and the output of the manager as they were. It can change the claims on runtimes only where a
  claim of this watch is concerned that the previous generation does not own: one that is left behind is one whose release
  was refused (or the manager has no release hook), and one that is gone was held without an owner.\<close>

theorem rejected_registration_changes_nothing:
  assumes "register_watch env sv now st ps m = (Inl e, m')"
  shows "m' = m \<lparr> wm_claims := wm_claims m' \<rparr>
    \<and> (\<forall>x. (x \<in> set (wm_claims m')) \<noteq> (x \<in> set (wm_claims m)) \<longrightarrow>
        claim_of_watch (wp_sessionId ps) x \<and> \<not> owns_claim (wp_sessionId ps) (watch_of (wp_sessionId ps) m) x
        \<and> (x \<in> set (wm_claims m') \<longrightarrow> \<not> can_unpin sv x))"
proof (cases "validate_registration env ps")
  case (Inr x)
  obtain resolved action where x: "x = (resolved, action)" by (cases x)
  obtain plan m1 where p: "prepare_claims sv ps action (watch_of (wp_sessionId ps) m) m = (plan, m1)" by fastforce
  have "m' = m \<or> m' = release_new_claims sv ps plan m1"
    using assms by (auto simp: register_watch_def Let_def Inr x p split: if_splits prod.splits)
  then show ?thesis using prepare_release [OF p] by auto
qed (use assms in \<open>simp add: register_watch_def Let_def\<close>)

subsection \<open>Generations\<close>

lemma truncate_fields [simp]:
  "lw_record (live_watch.truncate s) = lw_record s" "lw_chain (live_watch.truncate s) = lw_chain s"
  "lw_deadlines (live_watch.truncate s) = lw_deadlines s" "lw_retries (live_watch.truncate s) = lw_retries s"
  by (simp_all add: live_watch.defs)

lemma live_run_fields [simp]: "lw_record (live_run v m) = lw_record v" "lw_deadlines (live_run v m) = lw_deadlines v"
  by (simp_all add: live_run_def)

lemma on_live_other [simp]: "k \<noteq> sid \<Longrightarrow> jm_get (wm_active (on_live sv sid f m)) k = jm_get (wm_active m) k"
  by (simp add: on_live_def put_run_def split: option.split)

lemma on_live_get [simp]:
  "jm_get (wm_active (on_live sv sid f m)) sid = map_option (\<lambda>v. live_watch.truncate (f (live_run v m))) (jm_get (wm_active m) sid)"
  by (simp add: on_live_def put_run_def split: option.split)

definition live_generation :: "jsstr \<Rightarrow> watch_manager \<Rightarrow> jsstr option" where
  "live_generation sid m = (case jm_get (wm_active m) sid of Some v \<Rightarrow> w_generation (lw_record v) | None \<Rightarrow> None)"

lemma live_generation_cong: "wm_active m = wm_active m' \<Longrightarrow> live_generation sid m = live_generation sid m'"
  by (simp add: live_generation_def)

lemma retake_keeps:
  "(\<And>b r. w_generation (note b r) = w_generation r) \<Longrightarrow> live_generation sid (retake_claim b sv t c sid note m) = live_generation sid m"
  "k \<noteq> sid \<Longrightarrow> jm_get (wm_active (retake_claim b sv t c sid note m)) k = jm_get (wm_active m) k"
  by (simp_all add: retake_claim_def pin_session_def live_generation_def split: option.split)

lemma rotate_keeps:
  "live_generation (wp_sessionId ps) (rotate_claims sv ps plan previous m) = live_generation (wp_sessionId ps) m"
  "k \<noteq> wp_sessionId ps \<Longrightarrow> jm_get (wm_active (rotate_claims sv ps plan previous m)) k = jm_get (wm_active m) k"
  by (simp_all add: rotate_claims_def Let_def retake_keeps live_generation_cong [OF claim_steps(5)] split: option.split)

interpretation generation_kept: ledger_invariant env "\<lambda>w _ _ _. w_generation w = g"
  by unfold_locales (simp_all add: append_firing_def)

text \<open>C27: An accepted registration satisfied its generation precondition, and afterwards the session answers with the
  registered ledger under a fresh generation; the live watches of other sessions are untouched.\<close>

theorem accepted_registration_replaces:
  assumes "register_watch env sv now st ps m = (Inr (w, r), m')"
  shows "generation_matches (wp_expectedGeneration ps) (watch_of (wp_sessionId ps) m)
    \<and> watch_of (wp_sessionId ps) m' = Some w \<and> w_generation w = Some (we_uuid env (wm_fresh m))
    \<and> (\<forall>k. k \<noteq> wp_sessionId ps \<longrightarrow> jm_get (wm_active m') k = jm_get (wm_active m) k)"
proof (cases "validate_registration env ps")
  case (Inr x)
  let ?sid = "wp_sessionId ps"
  obtain resolved action where x: "x = (resolved, action)" by (cases x)
  obtain plan m1 where p: "prepare_claims sv ps action (watch_of ?sid m) m = (plan, m1)" by fastforce
  have m1: "wm_active m1 = wm_active m" "wm_fresh m1 = wm_fresh m"
    using p by (auto simp: prepare_claims_def Let_def pin_if_def pin_session_def split: option.splits prod.splits if_splits)
  define w0 where "w0 = new_watch_record now (we_uuid env (wm_fresh m1)) ps action
     (cp_reuseSubject plan \<or> cp_newSubject plan) (cp_reuseTarget plan \<or> cp_newTarget plan) resolved"
  define m2 where "m2 = teardown ?sid (m1 \<lparr> wm_store := jm_set ?sid w0 (wm_store m1), wm_fresh := Suc (wm_fresh m1),
     wm_out := wm_out m1 @ [Saved ''register'' w0] \<rparr>)"
  define m3 where "m3 = m2 \<lparr> wm_active := jm_set ?sid (activate_watch now False w0 resolved) (wm_active m2) \<rparr>"
  define m4 where "m4 = rotate_claims sv ps plan (watch_of ?sid m) m3"
  define m5 where "m5 = on_live sv ?sid (announce env Announced_Registration) m4"
  have gm: "generation_matches (wp_expectedGeneration ps) (watch_of ?sid m)" and saved: "sv_saves sv w0"
    using assms by (auto simp: register_watch_def Let_def Inr x p w0_def split: if_splits)
  have a2: "jm_get (wm_active m2) k = jm_get (wm_active m) k" if "k \<noteq> ?sid" for k
    using that by (simp add: m2_def teardown_def m1 split: option.split)
  have g3: "live_generation ?sid m3 = Some (we_uuid env (wm_fresh m))"
    by (simp add: live_generation_def m3_def activate_watch_def w0_def new_watch_record_def m1)
  have g5: "live_generation ?sid m5 = Some (we_uuid env (wm_fresh m))"
    using g3 rotate_keeps(1) [of ps sv plan "watch_of ?sid m" m3] by (simp add: m5_def live_generation_def m4_def split: option.splits)
  then obtain v where v: "jm_get (wm_active m5) ?sid = Some v" "w_generation (lw_record v) = Some (we_uuid env (wm_fresh m))"
    by (auto simp: live_generation_def split: option.splits)
  have o5: "jm_get (wm_active m5) k = jm_get (wm_active m) k" if "k \<noteq> ?sid" for k
    using that rotate_keeps(2) [OF that] a2 by (simp add: m5_def m4_def m3_def)
  have res: "(if wp_fireIfSettled ps = JBool True
      then case apply_fire_if_settled env now st (live_run v m5) of (r, s) \<Rightarrow> (Inr (lw_record s, Some r), put_run sv ?sid s m5)
      else (Inr (lw_record v, None), m5)) = (Inr (w, r) :: watch_error + watch_record \<times> settled_result option, m')"
    using assms gm saved v(1)
    unfolding register_watch_def Let_def Inr x p sum.case prod.case w0_def [symmetric] m2_def [symmetric]
      m3_def [symmetric] m4_def [symmetric] m5_def [symmetric]
    by (cases "wp_fireIfSettled ps = JBool True") simp_all
  have gs: "w_generation (lw_record (snd (apply_fire_if_settled env now st (live_run v m5)))) = Some (we_uuid env (wm_fresh m))"
    using generation_kept.settlement [of "Some (we_uuid env (wm_fresh m))" "live_run v m5" env now st] v(2) by (simp add: at_run_def)
  show ?thesis
    using res gm v gs o5 by (auto simp: watch_of_def put_run_def split: if_splits prod.splits)
qed (use assms in \<open>simp add: register_watch_def Let_def\<close>)


subsection \<open>A restart wakes once\<close>

text \<open>What is left of a budget and the dispatches that were queued for it are together at most the budget; the dispatches are
  appended to the chain.\<close>

definition within_budget :: "nat \<Rightarrow> watch_run \<Rightarrow> nat option \<times> watch_run \<Rightarrow> bool" where
  "within_budget b s st \<longleftrightarrow> (\<exists>n js. fst st = Some n \<and> lw_chain (snd st) = lw_chain s @ js \<and> length js + n \<le> b)"

lemma within_budget_refl: "lw_chain t = lw_chain s \<Longrightarrow> within_budget b s (Some b, t)"
  by (simp add: within_budget_def)

lemma within_budget_trans:
  assumes "within_budget b s (Some n, t)" and "within_budget n t st"
  shows "within_budget b s st"
proof -
  obtain js where js: "lw_chain t = lw_chain s @ js" "length js + n \<le> b" using assms(1) by (auto simp: within_budget_def)
  obtain k ks where "fst st = Some k" "lw_chain (snd st) = lw_chain t @ ks" "length ks + k \<le> n"
    using assms(2) by (auto simp: within_budget_def)
  then have "fst st = Some k" "lw_chain (snd st) = lw_chain s @ (js @ ks)" "length (js @ ks) + k \<le> b" using js by simp_all
  then show ?thesis unfolding within_budget_def by blast
qed

lemma chain_steps [simp]:
  "lw_chain (complete_if_all_fired now s) = lw_chain s" "lw_chain (complete_observer now s) = lw_chain s"
  "lw_chain (suppress_wake now action cid why s) = lw_chain s"
  by (simp_all add: complete_work complete_observer_def suppress_wake_def record_attempt_def)

lemma dispatch_chain: "\<exists>js. lw_chain (dispatch_wake_for_firing env now cx retry s) = lw_chain s @ js \<and> length js \<le> 1"
  by (simp add: dispatch_wake_for_firing_def queue_wake_def Let_def split: option.split)

lemma record_firing_budget: "within_budget b s (snd (record_firing env now i f (Some b, s)))"
proof (cases "may_fire env (lw_record s) (w_conditions (lw_record s) ! i)")
  case True
  have d: "\<exists>js. lw_chain (dispatch_wake_for_firing env now cx False (with_record g s)) = lw_chain s @ js \<and> length js \<le> 1" for cx g
    using dispatch_chain [of env now cx False "with_record g s"] by simp
  show ?thesis
    using True d by (cases b) (force simp: record_firing_def Let_def within_budget_def split: option.split)+
qed (simp add: record_firing_def Let_def within_budget_def)

lemma matches_budget: "within_budget b s (snd (record_matches env now e ms (Some b, s)))"
proof (induction ms arbitrary: b s)
  case (Cons m ms)
  show ?case
  proof (cases "find_index (\<lambda>c. wc_id c = cm_conditionId m) (w_conditions (lw_record s))")
    case (Some i)
    let ?f = "\<lparr> fi_eventType = cm_eventType m, fi_evidence = cm_evidence m, fi_firedAt = event_time now e, fi_reconciled = False,
               fi_interruption = interruption_of e \<rparr>"
    obtain q b1 s1 where r: "record_firing env now i ?f (Some b, s) = (q, b1, s1)" by (metis prod_cases3)
    then obtain n where n: "b1 = Some n" "within_budget b s (Some n, s1)"
      using record_firing_budget [of b s env now i ?f] by (auto simp: within_budget_def)
    have "within_budget b s (snd (record_matches env now e ms (Some n, s1)))"
      by (rule within_budget_trans [OF n(2) Cons.IH])
    then show ?thesis using r n(1) by (auto simp: Some Let_def within_budget_refl split: prod.splits)
  qed (use Cons in \<open>simp add: Let_def\<close>)
qed (simp add: within_budget_def)

lemma event_budget: "within_budget b s (handle_event env now e (Some b, s))"
proof (cases "w_status (lw_record s) = Watch_Active")
  case True
  obtain ms en where i: "ingest (we_regex env) e (lw_engine s) = (ms, en)" by (cases "ingest (we_regex env) e (lw_engine s)")
  define s1 where "s1 = with_record (\<lambda>w. w \<lparr> w_snapshot := observe_activity now e (w_snapshot w) \<rparr>) s"
  have c: "lw_chain s1 = lw_chain s" "lw_chain (s1 \<lparr> lw_engine := en \<rparr>) = lw_chain s" by (simp_all add: s1_def)
  show ?thesis
    using True c matches_budget [of b "s1 \<lparr> lw_engine := en \<rparr>" env now e ms]
    by (auto simp: handle_event_def Let_def i s1_def [symmetric] within_budget_def split: prod.splits)
qed (simp add: handle_event_def within_budget_refl)

text \<open>C11: The reconciliation of a restart queues at most one wake-up for an active watch, although it may report both the end
  of the run and the end of the goal: the jobs that the first event appends to the wake chain and those that the second
  appends to the chain it finds are together at most one, whatever the watch hears (and queues) while the probe between
  them is awaited. A watch that is not active is left alone.\<close>

theorem restart_wakes_once:
  "let first = snd (handle_event env now (reconciled_event ''agent_end'' t data) (Some 1, s));
       result = reconcile_session env now t data autoContinued between s
   in if w_status (lw_record s) \<noteq> Watch_Active then result = s
      else \<exists>heard js1 js2. heard \<in> {first, between first} \<and> lw_chain first = lw_chain s @ js1
        \<and> lw_chain result = lw_chain heard @ js2 \<and> length js1 + length js2 \<le> 1"
proof -
  let ?e = "reconciled_event ''agent_end'' t data" and ?g = "reconciled_event ''goal_end'' t data"
  obtain b s1 where h: "handle_event env now ?e (Some 1, s) = (b, s1)" by fastforce
  then obtain n js1 where n: "b = Some n" "lw_chain s1 = lw_chain s @ js1" "length js1 + n \<le> 1"
    using event_budget [of 1 s env now ?e] by (auto simp: within_budget_def)
  obtain js2 where "lw_chain (snd (handle_event env now ?g (b, between s1))) = lw_chain (between s1) @ js2" "length js2 \<le> n"
    using event_budget [of n "between s1" env now ?g] n(1) by (auto simp: within_budget_def)
  then show ?thesis using h n by (auto simp: reconcile_session_def Let_def)
qed

subsection \<open>A restart keeps the watches\<close>

definition comes_back :: "watch_env \<Rightarrow> watch_record \<Rightarrow> resolved_condition list option" where
  "comes_back env w =
     (if w_status w \<noteq> Watch_Active then None
      else case resolve_conditions (we_regex env) (map wc_spec (w_conditions w)) of
        Inr r \<Rightarrow> if r = [] then None else Some r | Inl _ \<Rightarrow> None)"

lemma migrate_record_result:
  "migrate_record env n w0 = (w, changed, resolved) \<Longrightarrow> resolved = comes_back env w0 \<and> w_sessionId w = w_sessionId w0
     \<and> w_conditions w = w_conditions w0 \<and> w_firings w = w_firings w0 \<and> w_wakeAttempts w = w_wakeAttempts w0 \<and> w_onFire w = w_onFire w0
     \<and> (resolved \<noteq> None \<longrightarrow> w_status w = Watch_Active)"
  by (auto simp: migrate_record_def Let_def comes_back_def split: if_splits option.splits sum.splits)

definition same_ledger :: "watch_record \<Rightarrow> watch_record \<Rightarrow> bool" where
  "same_ledger v w \<longleftrightarrow> w_sessionId w = w_sessionId v \<and> w_conditions w = w_conditions v \<and> w_firings w = w_firings v
     \<and> w_wakeAttempts w = w_wakeAttempts v \<and> w_onFire w = w_onFire v"

lemma migrate_all_result:
  "migrate_all env sv records m = (ok, lives, m') \<Longrightarrow> wm_active m' = wm_active m
    \<and> (ok \<longrightarrow> list_all2 (\<lambda>v (w, r). comes_back env v = Some r \<and> same_ledger v w \<and> w_status w = Watch_Active)
         (filter (\<lambda>v. comes_back env v \<noteq> None) records) lives)"
proof (induction records arbitrary: m lives)
  case (Cons w0 rest)
  obtain w changed resolved where r: "migrate_record env (wm_fresh m) w0 = (w, changed, resolved)" by (metis prod_cases3)
  note res = migrate_record_result [OF r]
  show ?case
  proof (cases "changed \<and> \<not> sv_saves sv w")
    case False
    let ?m = "m \<lparr> wm_fresh := Suc (wm_fresh m), wm_store := (if changed then jm_set (w_sessionId w) w (wm_store m) else wm_store m) \<rparr>"
    obtain lives1 m1 where q: "migrate_all env sv rest ?m = (ok, lives1, m1)" and l: "lives = (case resolved of Some x \<Rightarrow> (w, x) # lives1 | None \<Rightarrow> lives1)" "m' = m1"
      using Cons.prems r False by (auto split: prod.splits)
    show ?thesis using Cons.IH [OF q [folded l(2)]] res l by (auto simp: same_ledger_def split: option.splits)
  qed (use Cons.prems r in auto)
qed auto

definition rehydrated :: "watch_env \<Rightarrow> watch_record \<Rightarrow> live_watch \<Rightarrow> bool" where
  "rehydrated env w v \<longleftrightarrow> same_ledger w (lw_record v) \<and> armed env (lw_record v) (lw_deadlines v)
     \<and> (w_status (lw_record v) = Watch_Active \<and> lw_keys v \<noteq> []
        \<or> w_status (lw_record v) = Watch_Done \<and> all_one_shot_conditions_fired w \<and> w_onFire w = None)"

lemma armed_activated: "armed env w (arm_deadlines now b (w_conditions w))"
  by (force simp: armed_iff timer_keys_def arm_deadlines_def List.map_filter_def image_image)

lemma rehydrate_one:
  assumes "w_status w = Watch_Active"
  shows "\<exists>v. rehydrated env w v
    \<and> jm_get (wm_active (rehydrate_watch env sv now (w, r) m)) = (jm_get (wm_active m))(w_sessionId w \<mapsto> v)"
proof -
  obtain b m1 where p: "pin_if (w_pinned w) sv (w_sessionId w) (subject_claim (w_watchId w)) m = (b, m1)" by fastforce
  let ?w = "w \<lparr> w_pinned := b \<rparr>"
  define m2 where "m2 = (case w_onFire w of
      Some a \<Rightarrow> snd (pin_if (w_targetPinned w) sv (of_target a) (target_claim (w_watchId w)) m1) | None \<Rightarrow> m1)"
  define m3 where "m3 = m2 \<lparr> wm_active := jm_set (w_sessionId w) (activate_watch now True ?w r) (wm_active m2) \<rparr>"
  define s where "s = complete_observer now (live_run (activate_watch now True ?w r) m3)"
  have act: "wm_active m2 = wm_active m"
    using p claim_steps(1) [of "w_pinned w" sv "w_sessionId w" "subject_claim (w_watchId w)" m] by (simp add: m2_def split: option.split)
  have re: "rehydrate_watch env sv now (w, r) m = on_live sv (w_sessionId w) (complete_observer now) m3"
    using p by (simp add: rehydrate_watch_def Let_def m2_def m3_def split: option.split)
  have get: "jm_get (wm_active m3) (w_sessionId w) = Some (activate_watch now True ?w r)" by (simp add: m3_def)
  have "wm_active (rehydrate_watch env sv now (w, r) m) = jm_set (w_sessionId w) (live_watch.truncate s) (wm_active m3)"
    by (simp add: re on_live_def get put_run_def s_def)
  then have "jm_get (wm_active (rehydrate_watch env sv now (w, r) m)) = (jm_get (wm_active m))(w_sessionId w \<mapsto> live_watch.truncate s)"
    by (simp add: m3_def act)
  moreover have "rehydrated env w (live_watch.truncate s)"
    using assms armed_activated [of env ?w now True]
    by (auto simp: s_def rehydrated_def complete_observer_def complete_if_all_fired_def complete_watch_def Let_def activate_watch_def
        live_run_def same_ledger_def all_one_shot_conditions_fired_def armed_done live_watch.defs run_of_def emit_def with_record_def)
  ultimately show ?thesis by blast
qed

lemma rehydrated_ledger: "same_ledger v w \<Longrightarrow> rehydrated env w l \<Longrightarrow> rehydrated env v l"
  by (auto simp: rehydrated_def same_ledger_def all_one_shot_conditions_fired_def)

lemma rehydrate_fold:
  "list_all2 (\<lambda>v (w, r). comes_back env v = Some r \<and> same_ledger v w \<and> w_status w = Watch_Active) vs lives
   \<Longrightarrow> distinct (map w_sessionId vs)
   \<Longrightarrow> (\<forall>v\<in>set vs. \<exists>l. jm_get (wm_active (fold (rehydrate_watch env sv now) lives m)) (w_sessionId v) = Some l \<and> rehydrated env v l)
     \<and> (\<forall>k. k \<notin> w_sessionId ` set vs \<longrightarrow> jm_get (wm_active (fold (rehydrate_watch env sv now) lives m)) k = jm_get (wm_active m) k)"
proof (induction vs arbitrary: lives m)
  case (Cons v vs)
  obtain w r rest where l: "lives = (w, r) # rest" "same_ledger v w" "w_status w = Watch_Active"
    and rest: "list_all2 (\<lambda>v (w, r). comes_back env v = Some r \<and> same_ledger v w \<and> w_status w = Watch_Active) vs rest"
    using Cons.prems(1) by (auto simp: list_all2_Cons1)
  obtain x where x: "rehydrated env w x"
    "jm_get (wm_active (rehydrate_watch env sv now (w, r) m)) = (jm_get (wm_active m))(w_sessionId w \<mapsto> x)"
    using rehydrate_one [OF l(3)] by blast
  have id: "w_sessionId w = w_sessionId v" using l(2) by (simp add: same_ledger_def)
  note ih = Cons.IH [OF rest, of "rehydrate_watch env sv now (w, r) m"]
  have "w_sessionId v \<notin> w_sessionId ` set vs" and d: "distinct (map w_sessionId vs)" using Cons.prems(2) by auto
  then have "jm_get (wm_active (fold (rehydrate_watch env sv now) lives m)) (w_sessionId v) = Some x" using ih x(2) by (simp add: l(1) id)
  moreover have "rehydrated env v x" by (rule rehydrated_ledger [OF l(2) x(1)])
  ultimately show ?case using ih d x(2) by (auto simp: l(1) id)
qed simp

text \<open>C19: A restart keeps the watches: every stored ledger that is active and still resolves comes back live with its
  conditions, firings and attempts, subscribed and with all its deadlines armed, or done where all had fired; nothing else
  becomes live, and nothing at all if a migration cannot be saved.\<close>

theorem restart_keeps_watches:
  assumes "jm_ok disk" and "list_all (\<lambda>(k, w). w_sessionId w = k) disk"
    and "init_watches env sv now (watch_manager_init disk) = (ok, m)"
  shows "if ok
    then \<forall>k. (case jm_get disk k of
                 None \<Rightarrow> jm_get (wm_active m) k = None
               | Some w \<Rightarrow> if comes_back env w = None then jm_get (wm_active m) k = None
                           else \<exists>v. jm_get (wm_active m) k = Some v \<and> rehydrated env w v)
    else wm_active m = []"
proof -
  let ?m0 = "watch_manager_init disk"
  obtain lives m1 where q: "migrate_all env sv (jm_values disk) ?m0 = (ok, lives, m1)"
    and m: "m = (if ok then fold (rehydrate_watch env sv now) lives m1 else m1)"
    using assms(3) by (auto simp: init_watches_def watch_manager_init_def split: prod.splits if_splits)
  note res = migrate_all_result [OF q]
  have a: "wm_active m1 = []" using res by (simp add: watch_manager_init_def)
  let ?vs = "filter (\<lambda>v. comes_back env v \<noteq> None) (jm_values disk)"
  have ids: "map w_sessionId (jm_values disk) = jm_keys disk"
    using assms(2) by (auto simp: list_all_iff)
  have "distinct (map w_sessionId (jm_values disk))" unfolding ids using assms(1) by (simp add: jm_ok_def)
  then have d: "distinct (map w_sessionId ?vs)" by (rule distinct_map_filter)
  show ?thesis
  proof (cases ok)
    case True
    have f: "(\<forall>v\<in>set ?vs. \<exists>l. jm_get (wm_active m) (w_sessionId v) = Some l \<and> rehydrated env v l)
      \<and> (\<forall>k. k \<notin> w_sessionId ` set ?vs \<longrightarrow> jm_get (wm_active m) k = None)"
      using rehydrate_fold [of env ?vs lives sv now m1] res True d a m by simp
    have mem: "jm_get disk k = Some w \<Longrightarrow> w \<in> set (jm_values disk) \<and> w_sessionId w = k" for k w
      using assms(2) by (force simp: list_all_iff dest: map_of_SomeD)
    have stored: "v \<in> set (jm_values disk) \<Longrightarrow> jm_get disk (w_sessionId v) = Some v" for v
      using assms(1,2) by (force simp: list_all_iff jm_ok_def)
    have "case jm_get disk k of
                 None \<Rightarrow> jm_get (wm_active m) k = None
               | Some w \<Rightarrow> if comes_back env w = None then jm_get (wm_active m) k = None
                           else \<exists>v. jm_get (wm_active m) k = Some v \<and> rehydrated env w v" for k
    proof (cases "jm_get disk k")
      case None
      then have "k \<notin> w_sessionId ` set ?vs" using stored by fastforce
      then show ?thesis using f by (simp add: None)
    next
      case (Some w)
      then have w: "w \<in> set (jm_values disk)" "w_sessionId w = k" using mem by blast+
      show ?thesis
      proof (cases "comes_back env w = None")
        case True
        have "k \<notin> w_sessionId ` set ?vs"
        proof
          assume "k \<in> w_sessionId ` set ?vs"
          then obtain v where v: "k = w_sessionId v" "v \<in> set (jm_values disk)" "comes_back env v \<noteq> None" by fastforce
          then have "v = w" using stored [OF v(2)] Some by simp
          then show False using v(3) True by simp
        qed
        then show ?thesis using f True by (simp add: Some)
      next
        case False
        then have "w \<in> set ?vs" using w by simp
        then show ?thesis using f w(2) by (auto simp: Some False)
      qed
    qed
    then show ?thesis using True by simp
  qed (use m a in simp)
qed

end
