(* ===== verification/Watch_Examples.thy ===== *)
theory Watch_Examples
  imports Watch_Manager
begin

text \<open>
  Concrete watches to which the theorems on watches apply.
\<close>

definition plain_spec :: condition_spec where
  "plain_spec = \<lparr> cs_id = None, cs_type = text_json ''event_type'', cs_eventType = text_json ''agent_end'', cs_dataMatch = None,
     cs_toolName = None, cs_phase = None, cs_argIncludes = None, cs_contains = None, cs_pattern = None, cs_patternFlags = None,
     cs_source = None, cs_afterSeconds = JUndef, cs_once = JUndef \<rparr>"

definition text_spec :: condition_spec where
  "text_spec = plain_spec \<lparr> cs_type := text_json ''text'', cs_eventType := JUndef, cs_contains := Some (js ''tests pass'') \<rparr>"

definition deadline_spec :: condition_spec where
  "deadline_spec = plain_spec \<lparr> cs_type := text_json ''deadline'', cs_eventType := JUndef, cs_afterSeconds := JNum (js ''60'') \<rparr>"

definition example_regex :: regex_env where
  "example_regex = \<lparr> rx_valid = (\<lambda>_ _. True), rx_all = (\<lambda>_ _ _. []) \<rparr>"

definition example_env :: watch_env where
  "example_env = \<lparr> we_regex = example_regex, we_maxPerCondition = default_max_per_condition, we_maxTotal = default_max_total,
     we_dispatches = True, we_surfaces = True, we_iso = int_text, we_uuid = nat_text \<rparr>"

definition resolved_of :: "condition_spec \<Rightarrow> condition_kind \<Rightarrow> resolved_condition" where
  "resolved_of spec k = \<lparr> rc_id = js ''c0'', rc_kind = k, rc_spec = spec \<lparr> cs_id := Some (js ''c0'') \<rparr>, rc_once = True, rc_regex = None \<rparr>"

definition said :: "string \<Rightarrow> js_object" where
  "said words = [(js ''type'', text_json ''message_update''), (js ''data'', JObj [(js ''text'', text_json words)])]"

lemmas reading_events = is_text_def text_json_def getp_def prp_def event_body_def by_user_def nullish_def

lemma ingest_engine: "snd (ingest env e en) = snd (hear e en)"
  by (simp add: ingest_def split: prod.split)

lemma hear_said: "\<not> en_userMessage en \<Longrightarrow> snd (hear (said words) en) = en \<lparr> en_previous := length (en_buffer en), en_buffer := en_buffer en @ js words \<rparr>"
  by (simp add: hear_def message_role_def Let_def assistant_delta_def said_def reading_events)

text \<open>The sentence arrives in three deltas.\<close>

theorem streamed_text_is_found_witness:
  "js ''c0'' \<in> cm_conditionId ` set (fst (ingest_run example_regex [said ''all te'', said ''sts p'', said ''ass now'']
     (condition_engine_init [resolved_of text_spec Said_Text])))"
proof -
  let ?es = "[said ''all te'', said ''sts p'', said ''ass now'']" and ?c = "resolved_of text_spec Said_Text"
  let ?r = "ingest_run example_regex ?es (condition_engine_init [?c])"
  have "snd (ingest_run example_regex (e # es) en) = snd (ingest_run example_regex es (snd (hear e en)))" for e es en
    by (simp add: ingest_engine [symmetric, of _ _ example_regex] split: prod.split)
  then have "en_buffer (snd ?r) = js ''all '' @ js ''tests pass'' @ js '' now''"
    by (simp add: hear_said condition_engine_init_def del: ingest_run.simps(2)) (simp add: js_def)
  then have "sublist (js ''tests pass'') (en_buffer (snd ?r))" by simp
  moreover have "assistant_text_condition ?c (js ''tests pass'')"
    by (simp add: assistant_text_condition_def resolved_of_def text_spec_def plain_spec_def) (simp add: js_def)
  moreover have "same_turn ?es" by (simp add: same_turn_def said_def reading_events)
  ultimately show ?thesis
    using streamed_text_is_found [of ?c "js ''tests pass''" ?es "[?c]" example_regex "fst ?r" "snd ?r"]
    by (simp add: resolved_of_def)
qed

definition example_params :: watch_params where
  "example_params = \<lparr> wp_sessionId = js ''child'', wp_sessionPath = js ''/s/child'', wp_runtime = js ''pi'', wp_sourceSessionId = None,
     wp_sourceBrokerKey = None, wp_label = None, wp_conditions = [plain_spec], wp_onFire = JUndef, wp_pin = True,
     wp_expectedGeneration = JUndef, wp_fireIfSettled = JUndef \<rparr>"

definition example_action :: on_fire_action where
  "example_action = \<lparr> of_target = js ''parent'', of_message = js ''done'', of_mode = Wake_Follow_Up, of_maxWakeups = 1,
     of_cooldownSeconds = 60, of_pinTarget = True, of_includeEvidence = False \<rparr>"

definition agent_ended :: js_object where
  "agent_ended = [(js ''type'', text_json ''agent_end''), (js ''timestamp'', JNum (js ''7''))]"

abbreviation example_run :: "condition_spec \<Rightarrow> condition_kind \<Rightarrow> watch_run" where
  "example_run spec k \<equiv> registered_run 5 (js ''g'') example_params (Some example_action) True True [resolved_of spec k] [] 0"

definition ended_run :: watch_run where
  "ended_run = watch_runs example_env [(9, Hears_Event 0 agent_ended)] (example_run plain_spec Event_Type)"

lemma example_env_simps [simp]:
  "we_regex example_env = example_regex" "we_maxPerCondition example_env = 50" "we_maxTotal example_env = 500" "we_dispatches example_env"
  by (simp_all add: example_env_def default_max_per_condition_def default_max_total_def)

lemma example_simps [simp]:
  "of_maxWakeups example_action = 1" "of_mode example_action = Wake_Follow_Up" "fires_once (plain_spec \<lparr> cs_id := x \<rparr>)"
  by (simp_all add: example_action_def fires_once_def plain_spec_def)

lemma example_states: "condition_states 5 [resolved_of plain_spec Event_Type] =
   [\<lparr> wc_id = js ''c0'', wc_kind = Event_Type, wc_spec = plain_spec \<lparr> cs_id := Some (js ''c0'') \<rparr>, wc_fired = False, wc_fireCount = 0,
      wc_firstFiredAt = None, wc_lastFiredAt = None, wc_dueAt = None \<rparr>]"
  by (simp add: condition_states_def resolved_of_def)

lemma agent_ended_type: "getp agent_ended ''type'' = text_json ''agent_end''" "event_body agent_ended = JObj []"
  by (simp_all add: agent_ended_def reading_events)

lemma ingest_ended: "fst (ingest example_regex agent_ended (condition_engine_init [resolved_of plain_spec Event_Type])) =
   [\<lparr> cm_conditionId = js ''c0'', cm_eventType = text_json ''agent_end'', cm_evidence = truncate_evidence (event_evidence agent_ended) \<rparr>]"
  by (simp add: ingest_def hear_def message_role_def Let_def agent_ended_type condition_engine_init_def List.map_filter_def match_one_def
      resolved_of_def plain_spec_def is_text_def text_json_def)

text \<open>What the event leaves in the ledger.\<close>

lemma ended_facts:
  "length (w_firings (lw_record ended_run)) = 1"
  "map wc_fireCount (w_conditions (lw_record ended_run)) = [1]" "map wc_id (w_conditions (lw_record ended_run)) = [js ''c0'']"
  "map wf_conditionId (w_firings (lw_record ended_run)) = [js ''c0'']"
  "map wa_status (w_wakeAttempts (lw_record ended_run)) = [Wake_Pending]" "w_status (lw_record ended_run) = Watch_Active"
  "all_one_shot_conditions_fired (lw_record ended_run)" "map wj_retry (lw_chain ended_run) = [False]" "lw_retries ended_run = []"
proof -
  let ?s0 = "example_run plain_spec Event_Type"
  obtain en where i: "ingest example_regex agent_ended (condition_engine_init [resolved_of plain_spec Event_Type]) =
   ([\<lparr> cm_conditionId = js ''c0'', cm_eventType = text_json ''agent_end'', cm_evidence = truncate_evidence (event_evidence agent_ended) \<rparr>], en)"
    using ingest_ended by (metis prod.collapse)
  have k: "lw_keys ?s0 \<noteq> []" "lw_seen ?s0 = []" by (simp_all add: registered_run_def activate_watch_def run_of_def live_watch.defs)
  have e: "ended_run = snd (handle_event example_env 9 agent_ended (None, ?s0 \<lparr> lw_seen := [0] \<rparr>))"
    using k by (simp add: ended_run_def watch_runs_def hear_broker_def)
  note run = handle_event_def record_firing_def may_fire_def append_firing_def dispatch_wake_for_firing_def wake_refusal_def queue_wake_def
    record_attempt_def new_attempt_def complete_observer_def wake_budget_used_def last_dispatched_at_def fired_condition_def
    example_states i all_one_shot_conditions_fired_def keep_last_def max_wake_attempts_recorded_def
  show "length (w_firings (lw_record ended_run)) = 1"
  "map wc_fireCount (w_conditions (lw_record ended_run)) = [1]" "map wc_id (w_conditions (lw_record ended_run)) = [js ''c0'']"
  "map wf_conditionId (w_firings (lw_record ended_run)) = [js ''c0'']"
  "map wa_status (w_wakeAttempts (lw_record ended_run)) = [Wake_Pending]" "w_status (lw_record ended_run) = Watch_Active"
  "all_one_shot_conditions_fired (lw_record ended_run)" "map wj_retry (lw_chain ended_run) = [False]" "lw_retries ended_run = []"
    unfolding e
    by (simp_all add: run Let_def)
qed

lemma ended_reached: "watch_reaches example_env (example_run plain_spec Event_Type) ended_run"
  unfolding ended_run_def by (rule watch_runs_reach)

theorem ledger_exact_and_bounded_witness:
  "\<exists>c \<in> set (w_conditions (lw_record ended_run)). wc_fireCount c = 1 \<and> wc_fired c
     \<and> length (filter (\<lambda>f. wf_conditionId f = wc_id c) (w_firings (lw_record ended_run))) = 1"
proof -
  obtain c where c: "w_conditions (lw_record ended_run) = [c]" "wc_fireCount c = 1"
    using ended_facts(2) by (auto simp: map_eq_Cons_conv)
  then have m: "c \<in> set (w_conditions (lw_record ended_run))" by simp
  show ?thesis using ledger_exact_and_bounded [OF _ ended_reached m] c(2) m by auto
qed

theorem wake_budget_kept_witness:
  "map wa_status (w_wakeAttempts (lw_record ended_run)) = [Wake_Pending]
   \<and> length (filter consumes_wake_budget (w_wakeAttempts (lw_record ended_run))) \<le> 1"
  using wake_budget_kept [OF ended_reached] ended_facts(5) by simp

text \<open>The first dispatch finds the parent busy, the retry is accepted.\<close>

definition busy_then_free :: "nat \<Rightarrow> int \<times> wake_result" where
  "busy_then_free n = (if n = 2 then (10, Wake_Refused (js ''SESSION_BUSY'')) else (100000, Wake_Accepted None (Some Delivered_Turn)))"

theorem fired_watch_ends_witness:
  "w_status (lw_record ended_run) = Watch_Active \<and> w_status (lw_record (drain_wakes example_env busy_then_free 3 ended_run)) = Watch_Done"
proof -
  have "wake_work ended_run \<le> 3"
    using ended_facts(8,9) by (auto simp: wake_work_def map_eq_Cons_conv)
  moreover have "list_all (unbudgeted \<circ> snd) [(9::int, Hears_Event 0 agent_ended)]" by (simp add: unbudgeted_def)
  ultimately show ?thesis
    using fired_watch_ends [OF _ _ ended_run_def ended_facts(7)] ended_facts(6) by simp
qed

definition deadline_condition :: watch_condition where
  "deadline_condition = \<lparr> wc_id = js ''c0'', wc_kind = Deadline, wc_spec = deadline_spec \<lparr> cs_id := Some (js ''c0'') \<rparr>, wc_fired = False,
     wc_fireCount = 0, wc_firstFiredAt = None, wc_lastFiredAt = None, wc_dueAt = Some 60005 \<rparr>"

lemma deadline_states: "condition_states 5 [resolved_of deadline_spec Deadline] = [deadline_condition]"
proof -
  have "integer_json (JNum (js ''60'')) = Some 60" by code_simp
  then show ?thesis by (simp add: condition_states_def resolved_of_def deadline_condition_def) (simp add: deadline_spec_def)
qed

theorem deadline_fires_when_due_witness:
  "\<exists>i < length (lw_deadlines (example_run deadline_spec Deadline)).
     \<exists>d \<in> set (w_conditions (lw_record (watch_step example_env 60005 (Deadline_Fires i) (example_run deadline_spec Deadline)))).
       wc_id d = js ''c0'' \<and> wc_fired d"
proof -
  have "deadline_condition \<in> set (w_conditions (lw_record (example_run deadline_spec Deadline)))" by (simp add: deadline_states)
  from deadline_fires_when_due [OF watch_reaches.here _ _ _ _ this, of example_env 60005]
  obtain i where i: "i < length (lw_deadlines (example_run deadline_spec Deadline))"
    and t: "\<forall>t. if t < 60005 then lw_record (watch_step example_env t (Deadline_Fires i) (example_run deadline_spec Deadline))
          = lw_record (example_run deadline_spec Deadline)
      else \<exists>d \<in> set (w_conditions (lw_record (watch_step example_env t (Deadline_Fires i) (example_run deadline_spec Deadline)))).
        wc_id d = wc_id deadline_condition \<and> wc_fired d"
    by (auto simp: deadline_condition_def)
  from i t [rule_format, of 60005] show ?thesis by (auto simp: deadline_condition_def intro!: exI [of _ i])
qed

definition example_services :: "bool \<Rightarrow> watch_services" where
  "example_services ok = \<lparr> sv_pins = (\<lambda>_ _. True), sv_unpins = (\<lambda>_ _. True), sv_hasUnpin = True, sv_saves = (\<lambda>_. ok), sv_unlinks = (\<lambda>_. True) \<rparr>"

definition unsettled :: subject_settlement where
  "unsettled = \<lparr> ss_settled = False, ss_reason = None, ss_lastRunId = None, ss_lastRunStatus = None \<rparr>"

lemma example_kind:
  "kind_of (text_json ''event_type'') = Some Event_Type" "str_meets (\<lambda>s. js_trim s \<noteq> []) (text_json ''agent_end'')"
  "js_trim (js ''c0'') = js ''c0''" "js ''c0'' \<noteq> []" "js ''c'' @ nat_text 0 = js ''c0''"
proof -
  show "kind_of (text_json ''event_type'') = Some Event_Type" by (simp add: kind_of_def known_condition_types_def text_json_def)
  show "str_meets (\<lambda>s. js_trim s \<noteq> []) (text_json ''agent_end'')" "js_trim (js ''c0'') = js ''c0''" "js ''c0'' \<noteq> []"
    "js ''c'' @ nat_text 0 = js ''c0''"
    by (simp_all add: text_json_def js_def js_trim_def is_js_space_def)
qed

lemma example_valid: "validate_registration example_env example_params = Inr ([resolved_of plain_spec Event_Type], None)"
proof -
  have "resolve_conditions example_regex [plain_spec] = Inr [resolved_of plain_spec Event_Type]"
    using example_kind by (simp add: resolve_conditions_def resolve_condition_def validate_condition_spec_def plain_spec_def resolved_of_def
        condition_id_def Let_def)
  then show ?thesis by (simp add: validate_registration_def example_params_def)
qed

theorem rejected_registration_changes_nothing_witness:
  "register_watch example_env (example_services False) 5 unsettled example_params (watch_manager_init [])
     = (Inl Watch_Save_Failed, watch_manager_init [])"
proof -
  let ?r = "register_watch example_env (example_services False) 5 unsettled example_params (watch_manager_init [])"
  have e: "?r = (Inl Watch_Save_Failed, snd ?r)"
    by (simp add: register_watch_def example_valid Let_def example_services_def generation_matches_def split: prod.split)
       (simp add: example_params_def)
  have "can_unpin (example_services False) x" for x by (simp add: can_unpin_def example_services_def)
  then have "snd ?r = watch_manager_init [] \<lparr> wm_claims := wm_claims (snd ?r) \<rparr>" "set (wm_claims (snd ?r)) \<subseteq> {}"
    using rejected_registration_changes_nothing [OF e] by (auto simp: watch_manager_init_def)
  then have "snd ?r = watch_manager_init []" by (simp add: watch_manager_init_def)
  then show ?thesis using e by simp
qed

theorem accepted_registration_replaces_witness:
  "\<exists>w r m. register_watch example_env (example_services True) 5 unsettled example_params (watch_manager_init []) = (Inr (w, r), m)
     \<and> w_generation w = Some (nat_text 0)"
proof -
  let ?r = "register_watch example_env (example_services True) 5 unsettled example_params (watch_manager_init [])"
  have "\<exists>w r m. ?r = (Inr (w, r), m)"
    by (simp add: register_watch_def example_valid Let_def example_services_def generation_matches_def split: prod.split)
       (simp add: example_params_def)
  then obtain w r m where e: "?r = (Inr (w, r), m)" by blast
  show ?thesis using accepted_registration_replaces [OF e] e
    by (auto simp: example_env_def watch_manager_init_def)
qed

theorem restart_keeps_watches_witness:
  "\<exists>v. jm_get (wm_active (snd (init_watches example_env (example_services True) 20
        (watch_manager_init [(js ''child'', lw_record (example_run plain_spec Event_Type))])))) (js ''child'') = Some v
     \<and> rehydrated example_env (lw_record (example_run plain_spec Event_Type)) v"
proof -
  let ?w = "lw_record (example_run plain_spec Event_Type)"
  let ?i = "init_watches example_env (example_services True) 20 (watch_manager_init [(js ''child'', ?w)])"
  have saves: "sv_saves (example_services True) w" for w by (simp add: example_services_def)
  have i: "?i = (True, snd ?i)"
    by (simp add: init_watches_def watch_manager_init_def saves split: prod.split)
  have "resolve_conditions example_regex [plain_spec \<lparr> cs_id := Some (js ''c0'') \<rparr>] = Inr [resolved_of plain_spec Event_Type]"
    using example_kind by (simp add: resolve_conditions_def resolve_condition_def validate_condition_spec_def plain_spec_def resolved_of_def
        condition_id_def Let_def)
  then have c: "comes_back example_env ?w \<noteq> None" by (simp add: comes_back_def example_states)
  have "w_sessionId ?w = js ''child''" by (simp add: new_watch_record_def example_params_def)
  then show ?thesis
    using restart_keeps_watches [OF _ _ i] c by (auto simp: jm_ok_def split: if_splits dest!: spec [of _ "js ''child''"])
qed

end
