(* ===== verification/Loop_Shed.thy ===== *)
theory Loop_Shed
  imports Event_Broker "HOL-Library.Multiset"
begin

text \<open>
  The event-loop shed monitor: \<open>internal-api/event-loop-shed.ts\<close>.

  A timer measures how late it fires. A lag above one second turns shedding on; only ten seconds in which every lag was
  below a quarter of a second turn it off. The last 120 samples are kept in a ring for telemetry.

  The clock is \<open>Date.now\<close>, so times and lags are integers and \<open>Math.round\<close> changes nothing.
\<close>

subsection \<open>The monitor\<close>

definition lag_window_ms :: int where "lag_window_ms = 60000"
definition lag_window_samples :: nat where "lag_window_samples = 120"

record shed_sample =
  ls_at :: int
  ls_value :: int

record lag_window =
  lx_windowMs :: int
  lx_sampleCount :: nat
  lx_p50Ms :: int
  lx_p99Ms :: int
  lx_maxMs :: int

text \<open>\<open>sm_expectedAt\<close> is set while the timer runs.\<close>

record shed_monitor =
  sm_lagShedding :: bool
  sm_memoryShed :: bool
  sm_intervalMs :: int
  sm_recoverSince :: "int option"
  sm_expectedAt :: "int option"
  sm_lagSamples :: "shed_sample option list"
  sm_lagCursor :: nat

definition shed_monitor_init :: "int option \<Rightarrow> shed_monitor" where
  "shed_monitor_init intervalMs =
     \<lparr> sm_lagShedding = False, sm_memoryShed = False,
       sm_intervalMs = (case intervalMs of Some n \<Rightarrow> n | None \<Rightarrow> 500), sm_recoverSince = None,
       sm_expectedAt = None, sm_lagSamples = replicate lag_window_samples None, sm_lagCursor = 0 \<rparr>"

definition is_shedding :: "shed_monitor \<Rightarrow> bool" where
  "is_shedding m \<longleftrightarrow> sm_lagShedding m \<or> sm_memoryShed m"

definition observe_memory_pressure :: "bool \<Rightarrow> shed_monitor \<Rightarrow> shed_monitor" where
  "observe_memory_pressure pressure m =
     (if pressure \<and> \<not> sm_memoryShed m then m \<lparr> sm_memoryShed := True \<rparr>
      else if \<not> pressure \<and> sm_memoryShed m then m \<lparr> sm_memoryShed := False \<rparr>
      else m)"

definition record_lag :: "int \<Rightarrow> int \<Rightarrow> shed_monitor \<Rightarrow> shed_monitor" where
  "record_lag lagMs now m =
     m \<lparr> sm_lagSamples := (sm_lagSamples m)[sm_lagCursor m := Some \<lparr> ls_at = now, ls_value = max 0 lagMs \<rparr>],
         sm_lagCursor := (sm_lagCursor m + 1) mod lag_window_samples \<rparr>"

definition observe_lag :: "int \<Rightarrow> int \<Rightarrow> shed_monitor \<Rightarrow> shed_monitor" where
  "observe_lag lagMs now m0 =
     (let m = record_lag lagMs now m0 in
      if \<not> sm_lagShedding m \<and> lagMs > 1000 then m \<lparr> sm_lagShedding := True, sm_recoverSince := None \<rparr>
      else if \<not> sm_lagShedding m then m
      else if lagMs \<ge> 250 then m \<lparr> sm_recoverSince := None \<rparr>
      else
        let since = (case sm_recoverSince m of Some t \<Rightarrow> t | None \<Rightarrow> now) in
        if now - since \<ge> 10000 then m \<lparr> sm_lagShedding := False, sm_recoverSince := None \<rparr>
        else m \<lparr> sm_recoverSince := Some since \<rparr>)"

definition start_monitor :: "int \<Rightarrow> shed_monitor \<Rightarrow> shed_monitor" where
  "start_monitor now m =
     (if sm_expectedAt m \<noteq> None then m else m \<lparr> sm_expectedAt := Some (now + sm_intervalMs m) \<rparr>)"

definition monitor_tick :: "int \<Rightarrow> shed_monitor \<Rightarrow> shed_monitor" where
  "monitor_tick now m =
     (case sm_expectedAt m of
        None \<Rightarrow> m
      | Some expectedAt \<Rightarrow> (observe_lag (max 0 (now - expectedAt)) now m) \<lparr> sm_expectedAt := Some (now + sm_intervalMs m) \<rparr>)"

definition close_monitor :: "shed_monitor \<Rightarrow> shed_monitor" where
  "close_monitor m = m \<lparr> sm_expectedAt := None \<rparr>"

subsection \<open>Telemetry\<close>

definition nearest_rank :: "int list \<Rightarrow> rat \<Rightarrow> int" where
  "nearest_rank vals p =
     (if vals = [] then 0
      else sort vals ! nat (min (int (length vals) - 1) (max 0 (\<lceil>p * of_nat (length vals)\<rceil> - 1))))"

definition recent_values :: "int \<Rightarrow> shed_sample option list \<Rightarrow> int list" where
  "recent_values now samples =
     List.map_filter (\<lambda>x. case x of
        Some s \<Rightarrow> if ls_at s \<le> now - lag_window_ms then None else Some (ls_value s) | None \<Rightarrow> None) samples"

definition window_of :: "int list \<Rightarrow> lag_window" where
  "window_of vals =
     \<lparr> lx_windowMs = lag_window_ms, lx_sampleCount = length vals, lx_p50Ms = nearest_rank vals (1 / 2),
       lx_p99Ms = nearest_rank vals (99 / 100), lx_maxMs = (if vals = [] then 0 else Max (set vals)) \<rparr>"

definition read_lag_window :: "int \<Rightarrow> shed_monitor \<Rightarrow> lag_window" where
  "read_lag_window now m = window_of (recent_values now (sm_lagSamples m))"

text \<open>The process-wide monitor: reading it never starts it.\<close>

definition get_event_loop_shed_monitor :: "int \<Rightarrow> shed_monitor option \<Rightarrow> shed_monitor" where
  "get_event_loop_shed_monitor now g = start_monitor now (case g of Some m \<Rightarrow> m | None \<Rightarrow> shed_monitor_init None)"

definition read_event_loop_lag_window :: "int \<Rightarrow> shed_monitor option \<Rightarrow> lag_window option" where
  "read_event_loop_lag_window now = map_option (read_lag_window now)"

subsection \<open>The ring is the recent history\<close>

type_synonym lag_history = "(int \<times> int) list"

definition observe_lags :: "lag_history \<Rightarrow> shed_monitor \<Rightarrow> shed_monitor" where
  "observe_lags h m = foldl (\<lambda>m x. case x of (lag, now) \<Rightarrow> observe_lag lag now m) m h"

lemma observe_lags_simps [simp]:
  "observe_lags [] m = m" "observe_lags (h @ [(lag, t)]) m = observe_lag lag t (observe_lags h m)"
  by (simp_all add: observe_lags_def)

definition sample_of :: "int \<times> int \<Rightarrow> shed_sample" where
  "sample_of x = \<lparr> ls_at = snd x, ls_value = max 0 (fst x) \<rparr>"

lemma observe_lag_ring [simp]:
  "sm_lagSamples (observe_lag lag t m) = (sm_lagSamples m)[sm_lagCursor m := Some (sample_of (lag, t))]"
  "sm_lagCursor (observe_lag lag t m) = (sm_lagCursor m + 1) mod lag_window_samples"
  by (simp_all add: observe_lag_def record_lag_def Let_def sample_of_def)

text \<open>The ring from its cursor on is the padded history.\<close>

lemma rotate_update:
  assumes "length xs = n" and "c < n"
  shows "rotate (Suc c) (xs[c := x]) = tl (rotate c xs) @ [x]"
proof -
  have n: "xs \<noteq> []" "xs[c := x] \<noteq> []" using assms by auto
  have r: "rotate c xs = drop c xs @ take c xs" "rotate c (xs[c := x]) = drop c (xs[c := x]) @ take c (xs[c := x])"
    using assms by (simp_all add: rotate_drop_take)
  have d: "drop c xs = xs ! c # drop (Suc c) xs" using assms by (simp add: Cons_nth_drop_Suc)
  have d': "drop c (xs[c := x]) = x # drop (Suc c) xs"
    using assms by (subst Cons_nth_drop_Suc [symmetric]) simp_all
  show ?thesis by (simp add: r d d' rotate1_hd_tl)
qed

definition padded :: "nat \<Rightarrow> 'a list \<Rightarrow> 'a option list" where
  "padded n xs = replicate (n - length xs) None @ map Some (keep_last n xs)"

lemma length_padded [simp]: "length (padded n xs) = n"
  by (simp add: padded_def)

lemma padded_snoc: "0 < n \<Longrightarrow> padded n (xs @ [x]) = tl (padded n xs) @ [Some x]"
proof (cases "length xs < n")
  case True
  then obtain k where "n - length xs = Suc k" by (metis Suc_diff_Suc)
  then show ?thesis using True by (simp add: padded_def keep_last_def diff_Suc_1 flip: diff_diff_left)
next
  case False
  assume "0 < n"
  then obtain k where "n = Suc k" "length xs - k = Suc (length xs - n)" using False by (cases n) auto
  then show ?thesis using False by (simp add: padded_def keep_last_def drop_Suc tl_drop flip: map_tl)
qed

lemma ring_is_history:
  "length (sm_lagSamples (observe_lags h (shed_monitor_init i))) = lag_window_samples
   \<and> sm_lagCursor (observe_lags h (shed_monitor_init i)) = length h mod lag_window_samples
   \<and> rotate (length h mod lag_window_samples) (sm_lagSamples (observe_lags h (shed_monitor_init i)))
     = padded lag_window_samples (map sample_of h)"
proof (induction h rule: rev_induct)
  case Nil
  then show ?case by (simp add: shed_monitor_init_def padded_def lag_window_samples_def keep_last_def)
next
  case (snoc x h)
  obtain lag t where x: "x = (lag, t)" by (cases x)
  let ?m = "observe_lags h (shed_monitor_init i)" and ?n = lag_window_samples
  have n: "0 < ?n" by (simp add: lag_window_samples_def)
  have c: "length h mod ?n < ?n" by (simp add: n)
  have "rotate (Suc (length h) mod ?n) ((sm_lagSamples ?m)[length h mod ?n := Some (sample_of x)])
      = rotate (Suc (length h mod ?n)) ((sm_lagSamples ?m)[length h mod ?n := Some (sample_of x)])"
    using snoc.IH by (metis length_list_update mod_Suc_eq rotate_conv_mod)
  also have "\<dots> = tl (rotate (length h mod ?n) (sm_lagSamples ?m)) @ [Some (sample_of x)]"
    using snoc.IH c by (intro rotate_update) simp_all
  also have "\<dots> = padded ?n (map sample_of (h @ [x]))" using snoc.IH by (simp add: padded_snoc n)
  finally show ?case using snoc.IH by (simp add: x mod_Suc_eq)
qed

lemma recent_values_append [simp]: "recent_values now (xs @ ys) = recent_values now xs @ recent_values now ys"
  by (simp add: recent_values_def map_filter_def)

lemma recent_values_None [simp]: "recent_values now (replicate k None) = []"
  by (induction k) (simp_all add: recent_values_def map_filter_def)

lemma recent_values_mset: "mset xs = mset ys \<Longrightarrow> mset (recent_values now xs) = mset (recent_values now ys)"
  by (simp add: recent_values_def map_filter_def)

lemma mset_rotate: "mset (rotate k xs) = mset xs"
proof (induction k)
  case (Suc k)
  then show ?case by (cases "rotate k xs") simp_all
qed simp

lemma window_of_mset: assumes "mset xs = mset ys" shows "window_of xs = window_of ys"
proof -
  have "sort xs = sort ys" using assms properties_for_sort [of "sort xs" ys] by simp
  moreover have "length xs = length ys" "set xs = set ys" "xs = [] \<longleftrightarrow> ys = []"
    using assms mset_eq_length mset_eq_setD by (blast, blast, metis mset_zero_iff)
  ultimately show ?thesis by (simp add: window_of_def nearest_rank_def)
qed

text \<open>The telemetry reads the recent history: whatever lags were observed, the window that \<open>readLagWindow\<close> computes
  from the ring is the one computed from the last 120 samples in order.\<close>

theorem lag_window_is_recent_history:
  "read_lag_window now (observe_lags h (shed_monitor_init i))
   = window_of (recent_values now (map (\<lambda>x. Some (sample_of x)) (keep_last 120 h)))"
proof -
  let ?r = "sm_lagSamples (observe_lags h (shed_monitor_init i))"
  have "mset ?r = mset (rotate (length h mod lag_window_samples) ?r)" by (simp add: mset_rotate)
  also have "\<dots> = mset (padded lag_window_samples (map sample_of h))" using ring_is_history [of h i] by simp
  finally have "window_of (recent_values now ?r) = window_of (recent_values now (padded lag_window_samples (map sample_of h)))"
    by (intro window_of_mset recent_values_mset)
  then show ?thesis
    by (simp add: read_lag_window_def padded_def keep_last_def lag_window_samples_def drop_map comp_def)
qed

lemma nearest_rank_mono:
  assumes "p \<le> q" shows "nearest_rank vals p \<le> nearest_rank vals q"
proof (cases "vals = []")
  case False
  let ?n = "int (length vals)"
  let ?i = "\<lambda>p. nat (min (?n - 1) (max 0 (\<lceil>p * of_nat (length vals)\<rceil> - 1)))"
  have "p * of_nat (length vals) \<le> q * of_nat (length vals)" using assms by (intro mult_right_mono) auto
  then have "?i p \<le> ?i q" by (intro nat_mono min.mono max.mono diff_mono ceiling_mono) auto
  moreover have "?i q < length (sort vals)" using False by (cases vals) auto
  ultimately show ?thesis using False by (simp add: nearest_rank_def sorted_nth_mono)
qed (simp add: nearest_rank_def)

lemma nearest_rank_mem:
  assumes "vals \<noteq> []" shows "nearest_rank vals p \<in> set vals"
proof -
  have "nat (min (int (length vals) - 1) (max 0 (\<lceil>p * of_nat (length vals)\<rceil> - 1))) < length (sort vals)"
    using assms by (cases vals) auto
  from nth_mem [OF this] show ?thesis using assms by (simp add: nearest_rank_def)
qed

lemma window_ordered:
  "lx_p50Ms (window_of vals) \<le> lx_p99Ms (window_of vals)" "lx_p99Ms (window_of vals) \<le> lx_maxMs (window_of vals)"
  using nearest_rank_mono [of "1 / 2" "99 / 100" "vals"] nearest_rank_mem [of "vals" "99 / 100"]
  by (auto simp: window_of_def nearest_rank_def)

subsection \<open>Hysteresis\<close>

definition calm :: "int \<times> int \<Rightarrow> bool" where "calm x \<longleftrightarrow> fst x < 250"

text \<open>The calm stretch at the end of a history.\<close>

definition calm_tail :: "lag_history \<Rightarrow> lag_history" where
  "calm_tail h = rev (takeWhile calm (rev h))"

lemma calm_tail_snoc [simp]: "calm_tail [] = []" "calm_tail (h @ [x]) = (if calm x then calm_tail h @ [x] else [])"
  by (simp_all add: calm_tail_def)

definition long_calm :: "lag_history \<Rightarrow> bool" where
  "long_calm b \<longleftrightarrow> b \<noteq> [] \<and> list_all calm b \<and> snd (last b) - snd (hd b) \<ge> 10000"

text \<open>Shedding is on when some lag above a second was not followed by ten calm seconds.\<close>

definition should_shed :: "lag_history \<Rightarrow> bool" where
  "should_shed h \<longleftrightarrow> (\<exists>before x after. h = before @ x # after \<and> fst x > 1000 \<and> \<not> (\<exists>b. sublist b after \<and> long_calm b))"

lemma calm_tail_append: "\<not> calm x \<Longrightarrow> calm_tail (before @ x # after) = calm_tail after"
  by (induction after rule: rev_induct) (simp_all flip: append_Cons append_assoc)

lemma long_calm_in_tail: "suffix b h \<Longrightarrow> list_all calm b \<Longrightarrow> suffix b (calm_tail h)"
proof (induction b arbitrary: h rule: rev_induct)
  case (snoc x b)
  then obtain h' where "h = h' @ [x]" "suffix b h'" by (auto simp: suffix_def)
  then show ?case using snoc by (auto simp: suffix_def)
qed simp

text \<open>What the monitor knows: since when the lags have been calm, and that this is not long enough.\<close>

definition monitor_knows :: "lag_history \<Rightarrow> shed_monitor \<Rightarrow> bool" where
  "monitor_knows h m \<longleftrightarrow> (sm_lagShedding m \<longleftrightarrow> should_shed h)
     \<and> sm_recoverSince m = (if sm_lagShedding m \<and> calm_tail h \<noteq> [] then Some (snd (hd (calm_tail h))) else None)
     \<and> (sm_lagShedding m \<longrightarrow> \<not> long_calm (calm_tail h))"

lemma calm_tail_calm: "list_all calm (calm_tail h)" "suffix (calm_tail h) h"
  by (auto simp: calm_tail_def list_all_iff suffix_to_prefix takeWhile_is_prefix dest: set_takeWhileD)

text \<open>With times that do not run backwards, the whole calm tail is the longest calm stretch at the end.\<close>

lemma long_calm_suffix:
  assumes "sorted (map snd (before @ y # after))" and "\<not> calm y"
  shows "(\<exists>b. suffix b after \<and> long_calm b) \<longleftrightarrow> long_calm (calm_tail (before @ y # after))"
proof
  assume "\<exists>b. suffix b after \<and> long_calm b"
  then obtain b where b: "suffix b after" "long_calm b" by blast
  then have "suffix b (calm_tail after)" by (simp add: long_calm_in_tail long_calm_def)
  then obtain a where a: "calm_tail after = a @ b" by (auto simp: suffix_def)
  obtain c where c: "after = c @ calm_tail after" using calm_tail_calm(2) by (auto simp: suffix_def)
  have "sorted (map snd (a @ b))" using assms(1) c unfolding a by (metis map_append sorted_wrt_append sorted_wrt.simps(2) list.simps(9))
  moreover have "b \<noteq> []" using b(2) by (simp add: long_calm_def)
  ultimately have "snd (hd (a @ b)) \<le> snd (hd b)" by (cases a; cases b) auto
  then show "long_calm (calm_tail (before @ y # after))"
    using b(2) calm_tail_calm(1) [of after] by (simp add: calm_tail_append assms(2) a long_calm_def)
next
  assume "long_calm (calm_tail (before @ y # after))"
  then show "\<exists>b. suffix b after \<and> long_calm b" by (metis calm_tail_append assms(2) calm_tail_calm(2))
qed

lemma should_shed_snoc:
  assumes "sorted (map snd (h @ [x]))"
  shows "should_shed (h @ [x]) \<longleftrightarrow> fst x > 1000 \<or> (should_shed h \<and> \<not> long_calm (calm_tail (h @ [x])))"
proof -
  have split: "h @ [x] = before @ y # after \<longleftrightarrow> after = [] \<and> before = h \<and> y = x \<or> (\<exists>z. after = z @ [x] \<and> h = before @ y # z)"
    for before y after by (cases after rule: rev_cases) auto
  have cases': "(\<exists>before y after. (after = [] \<and> before = h \<and> y = x \<or> (\<exists>z. after = z @ [x] \<and> h = before @ y # z)) \<and> P y \<and> Q after)
      \<longleftrightarrow> P x \<and> Q [] \<or> (\<exists>before y z. h = before @ y # z \<and> P y \<and> Q (z @ [x]))" for P Q
    by blast
  define E where "E z \<longleftrightarrow> (\<exists>b. sublist b z \<and> long_calm b)" for z
  have step: "E (z @ [x]) \<longleftrightarrow> E z \<or> long_calm (calm_tail (h @ [x]))"
    if "h = before @ y # z" "fst y > 1000" for before y z
    using long_calm_suffix [of before y "z @ [x]"] assms that by (auto simp: sublist_snoc calm_def E_def)
  have "\<not> E []" by (simp add: long_calm_def E_def)
  then have "should_shed (h @ [x]) \<longleftrightarrow> fst x > 1000
      \<or> (\<exists>before y z. h = before @ y # z \<and> fst y > 1000 \<and> \<not> E (z @ [x]))"
    unfolding should_shed_def split E_def [symmetric] cases' by simp
  also have "(\<exists>before y z. h = before @ y # z \<and> fst y > 1000 \<and> \<not> E (z @ [x]))
      \<longleftrightarrow> should_shed h \<and> \<not> long_calm (calm_tail (h @ [x]))"
    unfolding should_shed_def E_def [symmetric] using step by metis
  finally show ?thesis .
qed

lemma observe_knows:
  assumes "sorted (map snd (h @ [(lag, t)]))" and "monitor_knows h m"
  shows "monitor_knows (h @ [(lag, t)]) (observe_lag lag t m)"
proof -
  have "snd (hd (calm_tail h @ [(lag, t)])) = (case calm_tail h of [] \<Rightarrow> t | y # _ \<Rightarrow> snd y)" by (simp split: list.split)
  then show ?thesis
    using assms(2) should_shed_snoc [OF assms(1)] calm_tail_calm(1) [of h]
    by (auto simp: monitor_knows_def observe_lag_def record_lag_def Let_def calm_def long_calm_def split: list.splits if_splits)
qed

text \<open>Shedding has hysteresis: whatever lags were observed, it is on exactly when some lag above one second was not
  followed by a stretch of at least ten seconds in which every lag was below a quarter of a second.\<close>

theorem shedding_hysteresis:
  assumes "sorted (map snd h)"
  shows "sm_lagShedding (observe_lags h (shed_monitor_init i))
    \<longleftrightarrow> (\<exists>before x after. h = before @ x # after \<and> fst x > 1000
          \<and> \<not> (\<exists>b. sublist b after \<and> b \<noteq> [] \<and> list_all calm b \<and> snd (last b) - snd (hd b) \<ge> 10000))"
proof -
  have "monitor_knows h (observe_lags h (shed_monitor_init i))" using assms
  proof (induction h rule: rev_induct)
    case Nil
    show ?case by (simp add: monitor_knows_def should_shed_def shed_monitor_init_def)
  next
    case (snoc x h)
    then show ?case using observe_knows [of h "fst x" "snd x"] by (cases x) (simp add: sorted_append)
  qed
  then show ?thesis by (simp add: monitor_knows_def should_shed_def long_calm_def)
qed

theorem shedding_hysteresis_witness:
  "sm_lagShedding (observe_lags [(1500, 0), (100, 500), (100, 9000)] (shed_monitor_init None))
   \<and> \<not> sm_lagShedding (observe_lags [(1500, 0), (100, 500), (100, 10500)] (shed_monitor_init None))"
proof -
  have "\<not> (\<exists>b. sublist b [(100, 500), (100, 9000)] \<and> b \<noteq> [] \<and> list_all calm b \<and> snd (last b) - snd (hd b) \<ge> (10000::int))"
    by (auto simp: sublist_Cons_right prefix_Cons)
  then have "sm_lagShedding (observe_lags [(1500, 0), (100, 500), (100, 9000)] (shed_monitor_init None))"
    by (subst shedding_hysteresis) (auto intro!: exI [of _ "[]"])
  moreover have "\<not> sm_lagShedding (observe_lags [(1500, 0), (100, 500), (100, 10500)] (shed_monitor_init None))"
    by (subst shedding_hysteresis)
      (auto simp: Cons_eq_append_conv append_eq_Cons_conv calm_def intro!: exI [of _ "[(100, 500), (100, 10500)]"])
  ultimately show ?thesis by simp
qed

end
