(* ===== verification/Outbound.thy ===== *)
theory Outbound
  imports Loop_Shed
begin

text \<open>
  What the server sends to browsers: \<open>websocket/outbound-governor.ts\<close>, and the way \<open>websocket/connection.ts\<close> uses it.

  Every frame for a browser passes the governor. While a socket is backed up, replaceable streaming updates wait in a
  queue per socket; a socket that is too far behind is closed. The shed monitor decides whether an update is cut to its
  identifier before it is sent.

  A socket is a number (the code's \<open>WeakMap\<close> is keyed by the object). What an operation reads of a socket is an argument:
  whether it is open, its \<open>bufferedAmount\<close>, and which of the operation's calls of \<open>ws.send\<close> throws, if one does.
  \<open>gv_wire\<close> is what was handed to \<open>ws.send\<close>, in order. Callbacks for metrics are left out.
\<close>

subsection \<open>The governor\<close>

record outbound_options =
  oo_softCapBytes :: "int option"
  oo_hardCapBytes :: "int option"
  oo_pendingMaxBytes :: "int option"
  oo_lowWaterBytes :: "int option"

record outbound_config =
  oc_softCap :: int
  oc_hardCap :: int
  oc_pendingMax :: int
  oc_lowWater :: int

definition outbound_config_of :: "outbound_options \<Rightarrow> outbound_config" where
  "outbound_config_of opts =
     \<lparr> oc_softCap = max 0 (opt_or (oo_softCapBytes opts) (4 * 1024 * 1024)),
       oc_hardCap = max 1 (opt_or (oo_hardCapBytes opts) (16 * 1024 * 1024)),
       oc_pendingMax = max 1 (opt_or (oo_pendingMaxBytes opts) (8 * 1024 * 1024)),
       oc_lowWater = max 0 (opt_or (oo_lowWaterBytes opts) (256 * 1024)) \<rparr>"

record pending_state =
  ps_queue :: "jsstr list"
  ps_queuedBytes :: nat
  ps_closed :: bool

record socket_reading =
  sk_open :: bool
  sk_buffered :: int
  sk_throws :: "nat option"

record governor =
  gv_states :: "(nat, pending_state) jsmap"
  gv_wire :: "(nat \<times> jsstr) list"
  gv_closes :: "(nat \<times> jsstr) list"

datatype send_result = Frame_Sent | Frame_Queued | Client_Closed | Send_Threw

definition governor_init :: governor where
  "governor_init = \<lparr> gv_states = [], gv_wire = [], gv_closes = [] \<rparr>"

definition fresh_state :: pending_state where
  "fresh_state = \<lparr> ps_queue = [], ps_queuedBytes = 0, ps_closed = False \<rparr>"

definition state_for :: "nat \<Rightarrow> governor \<Rightarrow> pending_state" where
  "state_for ws g = (case jm_get (gv_states g) ws of Some st \<Rightarrow> st | None \<Rightarrow> fresh_state)"

definition pending_frames :: "nat \<Rightarrow> governor \<Rightarrow> nat" where
  "pending_frames ws g = length (ps_queue (state_for ws g))"

definition pending_bytes :: "nat \<Rightarrow> governor \<Rightarrow> nat" where
  "pending_bytes ws g = ps_queuedBytes (state_for ws g)"

definition put_state :: "nat \<Rightarrow> pending_state \<Rightarrow> governor \<Rightarrow> governor" where
  "put_state ws st g = g \<lparr> gv_states := jm_set ws st (gv_states g) \<rparr>"

text \<open>\<open>ws.send\<close> for each frame, up to the call that throws.\<close>

definition sent_before :: "nat option \<Rightarrow> jsstr list \<Rightarrow> jsstr list" where
  "sent_before throws frames = (case throws of Some k \<Rightarrow> take k frames | None \<Rightarrow> frames)"

definition write_frames :: "nat \<Rightarrow> nat option \<Rightarrow> jsstr list \<Rightarrow> governor \<Rightarrow> bool \<times> governor" where
  "write_frames ws throws frames g =
     (length (sent_before throws frames) = length frames,
      g \<lparr> gv_wire := gv_wire g @ map (Pair ws) (sent_before throws frames) \<rparr>)"

text \<open>A throw leaves the queue as it was.\<close>

definition drain_queue :: "nat \<Rightarrow> nat option \<Rightarrow> governor \<Rightarrow> bool \<times> governor" where
  "drain_queue ws throws g =
     (let st = state_for ws g in
      case write_frames ws throws (ps_queue st) g of
        (ok, g1) \<Rightarrow> (ok, if ok then put_state ws (st \<lparr> ps_queue := [], ps_queuedBytes := 0 \<rparr>) g1 else g1))"

definition close_slow :: "nat \<Rightarrow> jsstr \<Rightarrow> governor \<Rightarrow> governor" where
  "close_slow ws why g =
     put_state ws ((state_for ws g) \<lparr> ps_closed := True, ps_queue := [], ps_queuedBytes := 0 \<rparr>)
       g \<lparr> gv_closes := gv_closes g @ [(ws, take 120 why)] \<rparr>"

definition hard_cap_reason :: "int \<Rightarrow> int \<Rightarrow> jsstr" where
  "hard_cap_reason buffered cap = js ''slow consumer closed: bufferedAmount='' @ int_text buffered @ js '' exceeds hard cap '' @ int_text cap"

definition pending_reason :: "nat \<Rightarrow> int \<Rightarrow> jsstr" where
  "pending_reason bytes cap = js ''slow consumer closed: pending queue '' @ nat_text bytes @ js '' exceeds cap '' @ int_text cap"

definition flush_pending_frames :: "outbound_config \<Rightarrow> nat \<Rightarrow> socket_reading \<Rightarrow> governor \<Rightarrow> governor" where
  "flush_pending_frames cfg ws r g =
     (let st = state_for ws g in
      if ps_closed st \<or> ps_queue st = [] then g
      else if \<not> sk_open r \<or> sk_buffered r > oc_lowWater cfg then g
      else snd (drain_queue ws (sk_throws r) g))"

definition send_frame ::
    "outbound_config \<Rightarrow> nat \<Rightarrow> socket_reading \<Rightarrow> jsstr \<Rightarrow> bool \<Rightarrow> governor \<Rightarrow> send_result \<times> governor" where
  "send_frame cfg ws r serialized coalescable g0 =
     (let st = state_for ws g0; g = put_state ws st g0; buffered = sk_buffered r in
      if ps_closed st \<or> \<not> sk_open r then (Client_Closed, g)
      else if buffered > oc_hardCap cfg
      then (Client_Closed, close_slow ws (hard_cap_reason buffered (oc_hardCap cfg)) g)
      else if coalescable \<and> buffered > oc_softCap cfg
      then
        let bytes = ps_queuedBytes st + byte_length serialized;
            g1 = put_state ws (st \<lparr> ps_queue := ps_queue st @ [serialized], ps_queuedBytes := bytes \<rparr>) g in
        if int bytes > oc_pendingMax cfg
        then (Client_Closed, close_slow ws (pending_reason bytes (oc_pendingMax cfg)) g1)
        else (Frame_Queued, g1)
      else
        (case drain_queue ws (sk_throws r) g of
           (False, g1) \<Rightarrow> (Send_Threw, g1)
         | (True, g1) \<Rightarrow>
             (case write_frames ws (map_option (\<lambda>k. k - length (ps_queue st)) (sk_throws r)) [serialized] g1 of
                (ok, g2) \<Rightarrow> (if ok then Frame_Sent else Send_Threw, g2))))"

subsection \<open>The connection's use of it\<close>

definition is_coalescable_session_event :: "json \<Rightarrow> bool" where
  "is_coalescable_session_event message \<longleftrightarrow>
     member_of message (js ''type'') = JStr (js ''session_event'')
     \<and> (case member_of message (js ''event'') of
          JObj event \<Rightarrow> prop_of event (js ''type'') = JStr (js ''message_update'') | _ \<Rightarrow> False)"

definition shed_browser_message_update :: "js_object \<Rightarrow> js_object" where
  "shed_browser_message_update envelope =
     (let ident = member_of (member_of (prop_of envelope (js ''event'')) (js ''message'')) (js ''id'') in
      jm_set (js ''event'')
        (JObj [(js ''type'', JStr (js ''message_update'')),
               (js ''message'', JObj (if ident = JUndef then [] else [(js ''id'', ident)])),
               (js ''payloadShed'', JBool True)]) envelope)"

text \<open>\<open>sendMessage\<close> to a connected client, and \<open>broadcast\<close> to all of them.\<close>

definition browser_frame :: "shed_monitor \<Rightarrow> js_object \<Rightarrow> js_object" where
  "browser_frame monitor message =
     (if is_coalescable_session_event (JObj message) \<and> is_shedding monitor
      then shed_browser_message_update message else message)"

definition send_message ::
    "outbound_config \<Rightarrow> shed_monitor \<Rightarrow> nat \<Rightarrow> socket_reading \<Rightarrow> js_object \<Rightarrow> governor \<Rightarrow> governor" where
  "send_message cfg monitor ws r message g =
     (if sk_open r
      then snd (send_frame cfg ws r (stringify (JObj (browser_frame monitor message)))
                  (is_coalescable_session_event (JObj message)) g)
      else g)"

definition broadcast_message :: "outbound_config \<Rightarrow> (nat \<times> socket_reading) list \<Rightarrow> js_object \<Rightarrow> governor \<Rightarrow> governor" where
  "broadcast_message cfg clients message g =
     foldl (\<lambda>g (ws, r). if sk_open r then snd (send_frame cfg ws r (stringify (JObj message)) False g) else g) g clients"

definition sweep_pending :: "outbound_config \<Rightarrow> (nat \<times> socket_reading) list \<Rightarrow> governor \<Rightarrow> governor" where
  "sweep_pending cfg clients g = foldl (\<lambda>g (ws, r). flush_pending_frames cfg ws r g) g clients"

subsection \<open>Frames keep their order\<close>

datatype outbound_op = Send_Frame nat socket_reading jsstr bool | Flush_Frames nat socket_reading

text \<open>A run keeps the frames that \<open>send\<close> accepted.\<close>

fun outbound_step :: "outbound_config \<Rightarrow> (nat \<times> jsstr) list \<times> governor \<Rightarrow> outbound_op \<Rightarrow> (nat \<times> jsstr) list \<times> governor" where
  "outbound_step cfg (acc, g) (Send_Frame ws r frame c) =
     (case send_frame cfg ws r frame c g of
        (res, g1) \<Rightarrow> (if res = Frame_Sent \<or> res = Frame_Queued then acc @ [(ws, frame)] else acc, g1))"
| "outbound_step cfg (acc, g) (Flush_Frames ws r) = (acc, flush_pending_frames cfg ws r g)"

definition outbound_run :: "outbound_config \<Rightarrow> outbound_op list \<Rightarrow> (nat \<times> jsstr) list \<times> governor" where
  "outbound_run cfg ops = foldl (outbound_step cfg) ([], governor_init) ops"

fun no_throw :: "outbound_op \<Rightarrow> bool" where
  "no_throw (Send_Frame _ r _ _) \<longleftrightarrow> sk_throws r = None"
| "no_throw (Flush_Frames _ r) \<longleftrightarrow> sk_throws r = None"

definition frames_for :: "nat \<Rightarrow> (nat \<times> jsstr) list \<Rightarrow> jsstr list" where
  "frames_for ws xs = map snd (filter (\<lambda>x. fst x = ws) xs)"

lemma frames_for_simps [simp]:
  "frames_for ws [] = []" "frames_for ws (xs @ ys) = frames_for ws xs @ frames_for ws ys"
  "frames_for ws ((k, f) # xs) = (if k = ws then f # frames_for ws xs else frames_for ws xs)"
  "frames_for ws (map (Pair k) fs) = (if k = ws then fs else [])"
  by (simp_all add: frames_for_def filter_map comp_def)

definition queue_bytes :: "jsstr list \<Rightarrow> nat" where
  "queue_bytes q = sum_list (map byte_length q)"

text \<open>The wire and the queue of a socket, against the frames accepted for it.\<close>

definition socket_ok :: "outbound_config \<Rightarrow> jsstr list \<Rightarrow> jsstr list \<Rightarrow> pending_state \<Rightarrow> bool" where
  "socket_ok cfg accepted wire st \<longleftrightarrow>
     ps_queuedBytes st = queue_bytes (ps_queue st) \<and> int (ps_queuedBytes st) \<le> oc_pendingMax cfg
     \<and> (if ps_closed st then ps_queue st = [] \<and> prefix wire accepted else accepted = wire @ ps_queue st)"

lemma state_for_simps [simp]:
  "state_for k (put_state ws st g) = (if k = ws then st else state_for k g)"
  "state_for k (g \<lparr> gv_wire := w \<rparr>) = state_for k g" "state_for k (g \<lparr> gv_closes := c \<rparr>) = state_for k g"
  "gv_wire (put_state ws st g) = gv_wire g"
  by (simp_all add: state_for_def put_state_def)

lemma send_frame_outcome:
  assumes "sk_throws r = None" and "send_frame cfg ws r frame c g = (res, g1)"
  obtains (refused) "res = Client_Closed" "state_for ws g1 = state_for ws g" "gv_wire g1 = gv_wire g"
      "ps_closed (state_for ws g) \<or> \<not> sk_open r"
  | (slow) "res = Client_Closed" "gv_wire g1 = gv_wire g"
      "state_for ws g1 = (state_for ws g) \<lparr> ps_closed := True, ps_queue := [], ps_queuedBytes := 0 \<rparr>"
      "\<not> ps_closed (state_for ws g)"
  | (waits) "res = Frame_Queued" "gv_wire g1 = gv_wire g" "\<not> ps_closed (state_for ws g)"
      "state_for ws g1 = (state_for ws g) \<lparr> ps_queue := ps_queue (state_for ws g) @ [frame],
         ps_queuedBytes := ps_queuedBytes (state_for ws g) + byte_length frame \<rparr>"
      "int (ps_queuedBytes (state_for ws g) + byte_length frame) \<le> oc_pendingMax cfg" "sk_buffered r \<le> oc_hardCap cfg" c
  | (sent) "res = Frame_Sent" "gv_wire g1 = gv_wire g @ map (Pair ws) (ps_queue (state_for ws g) @ [frame])"
      "state_for ws g1 = (state_for ws g) \<lparr> ps_queue := [], ps_queuedBytes := 0 \<rparr>"
      "\<not> ps_closed (state_for ws g)" "sk_buffered r \<le> oc_hardCap cfg"
  using assms
  by (auto simp: send_frame_def Let_def drain_queue_def write_frames_def sent_before_def close_slow_def split: if_splits)

lemma drain_other:
  assumes "k \<noteq> ws"
  shows "state_for k (snd (drain_queue ws t g)) = state_for k g"
    and "frames_for k (gv_wire (snd (drain_queue ws t g))) = frames_for k (gv_wire g)"
  using assms by (simp_all add: drain_queue_def write_frames_def Let_def)

lemma send_frame_other:
  assumes "k \<noteq> ws" and "send_frame cfg ws r frame c g = (res, g')"
  shows "state_for k g' = state_for k g" and "frames_for k (gv_wire g') = frames_for k (gv_wire g)"
proof -
  obtain ok g1 where d: "drain_queue ws (sk_throws r) (put_state ws (state_for ws g) g) = (ok, g1)" by fastforce
  note g1 = drain_other [OF assms(1), of "sk_throws r" "put_state ws (state_for ws g) g", unfolded d snd_conv]
  show "state_for k g' = state_for k g" "frames_for k (gv_wire g') = frames_for k (gv_wire g)"
    using assms g1 by (cases ok; simp add: send_frame_def Let_def d close_slow_def write_frames_def split: if_splits; fastforce)+
qed

lemma flush_other:
  assumes "k \<noteq> ws"
  shows "state_for k (flush_pending_frames cfg ws r g) = state_for k g"
    and "frames_for k (gv_wire (flush_pending_frames cfg ws r g)) = frames_for k (gv_wire g)"
  using drain_other [OF assms] by (simp_all add: flush_pending_frames_def Let_def)

definition sockets_ok :: "outbound_config \<Rightarrow> (nat \<times> jsstr) list \<times> governor \<Rightarrow> bool" where
  "sockets_ok cfg s \<longleftrightarrow> (\<forall>ws. socket_ok cfg (frames_for ws (fst s)) (frames_for ws (gv_wire (snd s))) (state_for ws (snd s)))"

lemma outbound_step_ok:
  assumes "sockets_ok cfg s" and "no_throw x" and "0 \<le> oc_pendingMax cfg"
  shows "sockets_ok cfg (outbound_step cfg s x)"
proof (cases x)
  case (Send_Frame ws r frame c)
  obtain acc g where s: "s = (acc, g)" by (cases s)
  obtain res g1 where e: "send_frame cfg ws r frame c g = (res, g1)" by fastforce
  have ok: "socket_ok cfg (frames_for k acc) (frames_for k (gv_wire g)) (state_for k g)" for k
    using assms(1) by (simp add: sockets_ok_def s)
  have t: "sk_throws r = None" using assms(2) Send_Frame by simp
  have "socket_ok cfg (frames_for k (if res = Frame_Sent \<or> res = Frame_Queued then acc @ [(ws, frame)] else acc))
      (frames_for k (gv_wire g1)) (state_for k g1)" for k
  proof (cases "k = ws")
    case True
    show ?thesis using t e
    proof (cases rule: send_frame_outcome)
      case waits
      then show ?thesis using ok [of ws] True by (simp add: socket_ok_def queue_bytes_def)
    qed (use ok [of ws] True assms(3) in \<open>simp_all add: socket_ok_def queue_bytes_def\<close>)
  next
    case False
    then show ?thesis using ok [of k] send_frame_other [OF _ e] by simp
  qed
  then show ?thesis by (simp add: sockets_ok_def Send_Frame s e)
next
  case (Flush_Frames ws r)
  obtain acc g where s: "s = (acc, g)" by (cases s)
  have ok: "socket_ok cfg (frames_for k acc) (frames_for k (gv_wire g)) (state_for k g)" for k
    using assms(1) by (simp add: sockets_ok_def s)
  have "socket_ok cfg (frames_for k acc) (frames_for k (gv_wire (flush_pending_frames cfg ws r g))) (state_for k (flush_pending_frames cfg ws r g))" for k
    using ok [of k] assms(2,3) flush_other [of k ws cfg r g] Flush_Frames
    by (cases "k = ws") (auto simp: socket_ok_def flush_pending_frames_def Let_def drain_queue_def write_frames_def sent_before_def queue_bytes_def)
  then show ?thesis by (simp add: sockets_ok_def Flush_Frames s)
qed

lemma outbound_run_ok:
  assumes "list_all no_throw ops" and "0 \<le> oc_pendingMax cfg"
  shows "sockets_ok cfg (outbound_run cfg ops)"
  using assms(1)
proof (induction ops rule: rev_induct)
  case Nil
  show ?case
    using assms(2) by (simp add: outbound_run_def sockets_ok_def socket_ok_def governor_init_def state_for_def fresh_state_def queue_bytes_def)
next
  case (snoc x ops)
  then show ?case using outbound_step_ok [OF _ _ assms(2)] by (simp add: outbound_run_def)
qed

text \<open>The governor is lossless until it closes a socket: over any sends and flushes, to any sockets, what reached a socket
  followed by what waits for it is exactly what was accepted for it, in order; after a close what reached it is a prefix.
  The queue is within its bound and counted exactly.\<close>

theorem outbound_lossless_in_order:
  assumes "list_all no_throw ops" and "outbound_run (outbound_config_of opts) ops = (accepted, g)"
  shows "let st = state_for ws g; reached = frames_for ws (gv_wire g) in
    (if ps_closed st then prefix reached (frames_for ws accepted) \<and> ps_queue st = []
     else reached @ ps_queue st = frames_for ws accepted)
    \<and> ps_queuedBytes st = queue_bytes (ps_queue st) \<and> int (ps_queuedBytes st) \<le> oc_pendingMax (outbound_config_of opts)"
proof -
  have "0 \<le> oc_pendingMax (outbound_config_of opts)" by (simp add: outbound_config_of_def)
  from outbound_run_ok [OF assms(1) this]
  have "socket_ok (outbound_config_of opts) (frames_for ws accepted) (frames_for ws (gv_wire g)) (state_for ws g)"
    by (simp add: sockets_ok_def assms(2))
  then show ?thesis by (simp add: socket_ok_def Let_def split: if_splits)
qed

theorem outbound_lossless_in_order_witness:
  "frames_for 0 (gv_wire (snd (outbound_run (outbound_config_of \<lparr> oo_softCapBytes = Some 4, oo_hardCapBytes = None,
      oo_pendingMaxBytes = None, oo_lowWaterBytes = None \<rparr>)
     [Send_Frame 0 \<lparr> sk_open = True, sk_buffered = 9, sk_throws = None \<rparr> [97] True,
      Send_Frame 0 \<lparr> sk_open = True, sk_buffered = 9, sk_throws = None \<rparr> [98] False]))) = [[97], [98]]"
proof -
  let ?opts = "\<lparr> oo_softCapBytes = Some 4, oo_hardCapBytes = None, oo_pendingMaxBytes = None, oo_lowWaterBytes = None \<rparr>"
  let ?ops = "[Send_Frame 0 \<lparr> sk_open = True, sk_buffered = 9, sk_throws = None \<rparr> [97] True,
      Send_Frame 0 \<lparr> sk_open = True, sk_buffered = 9, sk_throws = None \<rparr> [98] False]"
  obtain acc g where r: "outbound_run (outbound_config_of ?opts) ?ops = (acc, g)" by fastforce
  have "frames_for 0 acc = [[97], [98]] \<and> ps_queue (state_for 0 g) = [] \<and> \<not> ps_closed (state_for 0 g)"
    using r by (auto simp: outbound_run_def send_frame_def outbound_config_of_def Let_def opt_or_def drain_queue_def write_frames_def
        sent_before_def governor_init_def state_for_def fresh_state_def put_state_def)
  then show ?thesis using outbound_lossless_in_order [OF _ r, of 0] r by (simp add: Let_def)
qed

text \<open>Memory for one client is bounded: after a send that does not close the socket, what the socket had buffered, what
  the send wrote and what still waits are together within the hard cap, the bound of the queue and the frame.\<close>

theorem outbound_memory_bounded:
  assumes "list_all no_throw ops" and "cfg = outbound_config_of opts" and "outbound_run cfg ops = (accepted, g)"
    and "sk_throws r = None" and "send_frame cfg ws r frame c g = (res, g')" and "res \<noteq> Client_Closed"
  shows "sk_buffered r + int (queue_bytes (drop (length (frames_for ws (gv_wire g))) (frames_for ws (gv_wire g'))))
      + int (ps_queuedBytes (state_for ws g'))
    \<le> oc_hardCap cfg + oc_pendingMax cfg + int (byte_length frame)"
proof -
  have "0 \<le> oc_pendingMax cfg" by (simp add: outbound_config_of_def assms(2))
  from outbound_run_ok [OF assms(1) this]
  have "socket_ok cfg (frames_for ws accepted) (frames_for ws (gv_wire g)) (state_for ws g)"
    using assms(2,3) by (simp add: sockets_ok_def)
  then have ok: "ps_queuedBytes (state_for ws g) = queue_bytes (ps_queue (state_for ws g))" "int (ps_queuedBytes (state_for ws g)) \<le> oc_pendingMax cfg"
    unfolding socket_ok_def by blast+
  show ?thesis using assms(4,5)
  proof (cases rule: send_frame_outcome)
    case waits
    then show ?thesis by (simp add: queue_bytes_def)
  next
    case sent
    then show ?thesis using ok by (simp add: queue_bytes_def)
  qed (use assms(6) in simp_all)
qed

theorem outbound_memory_bounded_witness:
  "\<exists>g'. send_frame (outbound_config_of \<lparr> oo_softCapBytes = None, oo_hardCapBytes = Some 20, oo_pendingMaxBytes = Some 10, oo_lowWaterBytes = None \<rparr>)
        0 \<lparr> sk_open = True, sk_buffered = 9, sk_throws = None \<rparr> [97] False governor_init = (Frame_Sent, g')
     \<and> 9 + int (queue_bytes (frames_for 0 (gv_wire g'))) + int (ps_queuedBytes (state_for 0 g')) \<le> 31"
proof -
  let ?opts = "\<lparr> oo_softCapBytes = None, oo_hardCapBytes = Some 20, oo_pendingMaxBytes = Some 10, oo_lowWaterBytes = None \<rparr>"
  let ?r = "\<lparr> sk_open = True, sk_buffered = 9, sk_throws = None \<rparr>"
  have s: "send_frame (outbound_config_of ?opts) 0 ?r [97] False governor_init = (Frame_Sent, snd (send_frame (outbound_config_of ?opts) 0 ?r [97] False governor_init))"
    by (simp add: send_frame_def outbound_config_of_def Let_def opt_or_def drain_queue_def write_frames_def
        sent_before_def governor_init_def state_for_def fresh_state_def put_state_def)
  have "outbound_run (outbound_config_of ?opts) [] = ([], governor_init)" by (simp add: outbound_run_def)
  from outbound_memory_bounded [OF _ refl this _ s] s show ?thesis
    by (intro exI [of _ "snd (send_frame (outbound_config_of ?opts) 0 ?r [97] False governor_init)"])
      (simp add: governor_init_def outbound_config_of_def opt_or_def)
qed

text \<open>A \<open>ws.send\<close> that throws in the middle of a drain leaves the queue in place: the frames already written are written
  again by the next drain.\<close>

lemma interrupted_drain_repeats:
  assumes "ps_queue (state_for ws g) = q" and "n < length q"
  shows "frames_for ws (gv_wire (snd (drain_queue ws None (snd (drain_queue ws (Some n) g)))))
    = frames_for ws (gv_wire g) @ take n q @ q"
  using assms by (simp add: drain_queue_def write_frames_def sent_before_def Let_def)

text \<open>Whatever the shed monitor says, a control frame is sent as it is and never waits.\<close>

lemma control_frame_unshed:
  assumes "\<not> is_coalescable_session_event (JObj message)"
  shows "browser_frame monitor message = message"
    and "fst (send_frame cfg ws r (stringify (JObj (browser_frame monitor message))) (is_coalescable_session_event (JObj message)) g) \<noteq> Frame_Queued"
  using assms by (simp_all add: browser_frame_def send_frame_def Let_def split: prod.split bool.split)

end
