(* ===== verification/Control_Lane.thy ===== *)
theory Control_Lane
  imports Web_Prelude
begin

text \<open>
  The bounded lane of control operations: \<open>internal-api/control-lane.ts\<close>.

  Control requests bypass admission; the lane caps how many run at once and queues the others up to a time-out.

  A request is the number of its call of \<open>acquire\<close>. \<open>release\<close> takes the first waiter out of the queue and resolves its
  promise, but the waiter goes on, and counts itself, only in a later microtask: until then it is in \<open>cl_woken\<close>. That a
  woken waiter goes on and that a waiting time runs out are events.
\<close>

subsection \<open>The lane\<close>

record lane_config =
  lc_maxConcurrent :: nat
  lc_maxQueued :: nat

definition lane_config_of :: "int \<Rightarrow> int \<Rightarrow> string + lane_config" where
  "lane_config_of maxConcurrent maxQueued =
     (if maxConcurrent < 1 then Inl ''BoundedControlLane maxConcurrent must be >= 1''
      else if maxQueued < 0 then Inl ''BoundedControlLane maxQueued must be >= 0''
      else Inr \<lparr> lc_maxConcurrent = nat maxConcurrent, lc_maxQueued = nat maxQueued \<rparr>)"

datatype lane_answer = Lane_Granted | Lane_Full | Lane_Timed_Out

record control_lane =
  cl_active :: nat
  cl_waiters :: "nat list"
  cl_woken :: "nat list"
  cl_held :: "nat list"
  cl_next :: nat
  cl_answers :: "(nat \<times> lane_answer) list"

definition lane_init :: control_lane where
  "lane_init = \<lparr> cl_active = 0, cl_waiters = [], cl_woken = [], cl_held = [], cl_next = 0, cl_answers = [] \<rparr>"

definition answer_request :: "nat \<Rightarrow> lane_answer \<Rightarrow> control_lane \<Rightarrow> control_lane" where
  "answer_request n a l = l \<lparr> cl_answers := cl_answers l @ [(n, a)] \<rparr>"

definition in_flight :: "control_lane \<Rightarrow> nat" where "in_flight l = cl_active l"
definition lane_queued :: "control_lane \<Rightarrow> nat" where "lane_queued l = length (cl_waiters l)"

text \<open>\<open>active += 1\<close> and the lease with its own \<open>released\<close> flag.\<close>

definition lane_grant :: "nat \<Rightarrow> control_lane \<Rightarrow> control_lane" where
  "lane_grant n l = answer_request n Lane_Granted (l \<lparr> cl_active := cl_active l + 1, cl_held := cl_held l @ [n] \<rparr>)"

definition lane_acquire :: "lane_config \<Rightarrow> control_lane \<Rightarrow> control_lane" where
  "lane_acquire cfg l0 =
     (let n = cl_next l0; l = l0 \<lparr> cl_next := Suc n \<rparr> in
      if cl_active l \<ge> lc_maxConcurrent cfg
      then if length (cl_waiters l) \<ge> lc_maxQueued cfg then answer_request n Lane_Full l
           else l \<lparr> cl_waiters := cl_waiters l @ [n] \<rparr>
      else lane_grant n l)"

definition lane_resume :: "nat \<Rightarrow> control_lane \<Rightarrow> control_lane" where
  "lane_resume n l = (if n \<in> set (cl_woken l) then lane_grant n (l \<lparr> cl_woken := remove1 n (cl_woken l) \<rparr>) else l)"

definition lane_timeout :: "nat \<Rightarrow> control_lane \<Rightarrow> control_lane" where
  "lane_timeout n l =
     (if n \<in> set (cl_waiters l) then answer_request n Lane_Timed_Out (l \<lparr> cl_waiters := remove1 n (cl_waiters l) \<rparr>) else l)"

definition lane_release :: "nat \<Rightarrow> control_lane \<Rightarrow> control_lane" where
  "lane_release n l =
     (if n \<notin> set (cl_held l) then l
      else
        let l1 = l \<lparr> cl_held := remove1 n (cl_held l), cl_active := cl_active l - 1 \<rparr> in
        (case cl_waiters l1 of
           [] \<Rightarrow> l1
         | w # ws \<Rightarrow> l1 \<lparr> cl_waiters := ws, cl_woken := cl_woken l1 @ [w] \<rparr>))"

subsection \<open>Runs\<close>

datatype lane_event = Lane_Acquire | Lane_Resume nat | Lane_Timeout nat | Lane_Release nat

fun lane_step :: "lane_config \<Rightarrow> control_lane \<Rightarrow> lane_event \<Rightarrow> control_lane" where
  "lane_step cfg l Lane_Acquire = lane_acquire cfg l"
| "lane_step cfg l (Lane_Resume n) = lane_resume n l"
| "lane_step cfg l (Lane_Timeout n) = lane_timeout n l"
| "lane_step cfg l (Lane_Release n) = lane_release n l"

definition lane_run :: "lane_config \<Rightarrow> lane_event list \<Rightarrow> control_lane" where
  "lane_run cfg evs = foldl (lane_step cfg) lane_init evs"

text \<open>A request overtakes when it is granted a slot that was given up for a woken waiter.\<close>

definition overtakes :: "lane_config \<Rightarrow> control_lane \<Rightarrow> lane_event \<Rightarrow> bool" where
  "overtakes cfg l e \<longleftrightarrow> e = Lane_Acquire \<and> cl_active l < lc_maxConcurrent cfg \<and> cl_woken l \<noteq> []"

fun overtakings :: "lane_config \<Rightarrow> control_lane \<Rightarrow> lane_event list \<Rightarrow> nat" where
  "overtakings cfg l [] = 0"
| "overtakings cfg l (e # es) = (if overtakes cfg l e then 1 else 0) + overtakings cfg (lane_step cfg l e) es"

lemma overtakings_snoc:
  "overtakings cfg l (es @ [e]) = overtakings cfg l es + (if overtakes cfg (foldl (lane_step cfg) l es) e then 1 else 0)"
  by (induction es arbitrary: l) simp_all

text \<open>Every request is in one place: granted, woken, waiting or answered for good.\<close>

definition lane_ok :: "lane_config \<Rightarrow> nat \<Rightarrow> control_lane \<Rightarrow> bool" where
  "lane_ok cfg k l \<longleftrightarrow>
     cl_active l = length (cl_held l)
     \<and> distinct (cl_held l @ cl_woken l @ cl_waiters l) \<and> (\<forall>n \<in> set (cl_held l @ cl_woken l @ cl_waiters l). n < cl_next l)
     \<and> length (cl_waiters l) \<le> lc_maxQueued cfg
     \<and> (cl_waiters l \<noteq> [] \<longrightarrow> lc_maxConcurrent cfg \<le> cl_active l + length (cl_woken l))
     \<and> cl_active l + length (cl_woken l) \<le> lc_maxConcurrent cfg + k"

lemma lane_step_ok:
  assumes "lane_ok cfg k l"
  shows "lane_ok cfg (k + (if overtakes cfg l e then 1 else 0)) (lane_step cfg l e)"
proof (cases e)
  case Lane_Acquire
  have fresh: "cl_next l \<notin> set (cl_held l @ cl_woken l @ cl_waiters l)" using assms by (auto simp: lane_ok_def)
  have less: "\<forall>n \<in> set (cl_held l @ cl_woken l @ cl_waiters l). n < Suc (cl_next l)"
    using assms by (auto simp: lane_ok_def less_Suc_eq)
  show ?thesis
  proof (cases "lc_maxConcurrent cfg \<le> cl_active l")
    case True
    then show ?thesis
      using assms fresh less unfolding lane_ok_def
      by (simp add: Lane_Acquire lane_acquire_def answer_request_def overtakes_def Let_def) (meson IntI)?
  next
    case False
    then have "cl_waiters l = [] \<or> cl_woken l \<noteq> []" using assms by (auto simp: lane_ok_def)
    then show ?thesis
      using assms False fresh less unfolding lane_ok_def
      by (auto simp: Lane_Acquire lane_acquire_def lane_grant_def answer_request_def overtakes_def Let_def)
  qed
next
  case (Lane_Resume n)
  show ?thesis
  proof (cases "n \<in> set (cl_woken l)")
    case True
    then obtain m where "length (remove1 n (cl_woken l)) = m" "length (cl_woken l) = Suc m"
      by (cases "length (cl_woken l)") (auto simp: length_remove1)
    then show ?thesis
      using assms True unfolding lane_ok_def
      by (simp add: Lane_Resume lane_resume_def lane_grant_def answer_request_def overtakes_def set_remove1_eq) (elim conjE, intro conjI; ((simp; fail) | blast))
  qed (use assms in \<open>simp add: Lane_Resume lane_resume_def overtakes_def\<close>)
next
  case (Lane_Timeout n)
  show ?thesis
  proof (cases "n \<in> set (cl_waiters l)")
    case True
    then obtain m where "length (remove1 n (cl_waiters l)) = m" "length (cl_waiters l) = Suc m"
      by (cases "length (cl_waiters l)") (auto simp: length_remove1)
    moreover have "cl_waiters l \<noteq> []" using True by auto
    ultimately show ?thesis
      using assms True unfolding lane_ok_def
      by (simp add: Lane_Timeout lane_timeout_def answer_request_def overtakes_def set_remove1_eq) (elim conjE, intro conjI; ((simp; fail) | blast))
  qed (use assms in \<open>simp add: Lane_Timeout lane_timeout_def overtakes_def\<close>)
next
  case (Lane_Release n)
  show ?thesis
  proof (cases "n \<in> set (cl_held l)")
    case True
    then obtain m where h: "length (remove1 n (cl_held l)) = m" "length (cl_held l) = Suc m"
      by (cases "length (cl_held l)") (auto simp: length_remove1)
    show ?thesis
    proof (cases "cl_waiters l")
      case Nil
      then show ?thesis
        using assms True h unfolding lane_ok_def
        by (simp add: Lane_Release lane_release_def overtakes_def set_remove1_eq Let_def) (elim conjE, intro conjI; ((simp; fail) | blast))
    next
      case (Cons w ws)
      then show ?thesis
        using assms True h unfolding lane_ok_def
        by (simp add: Lane_Release lane_release_def overtakes_def set_remove1_eq Let_def) (elim conjE, intro conjI; ((simp; fail) | blast))
    qed
  qed (use assms in \<open>simp add: Lane_Release lane_release_def overtakes_def\<close>)
qed

lemma lane_run_ok: "lane_ok cfg (overtakings cfg lane_init evs) (lane_run cfg evs)"
proof (induction evs rule: rev_induct)
  case Nil
  show ?case by (simp add: lane_run_def lane_ok_def lane_init_def)
next
  case (snoc e evs)
  then show ?case using lane_step_ok [OF snoc.IH, of e] by (simp add: lane_run_def overtakings_snoc)
qed

text \<open>The lane is bounded and nobody waits for nothing: over any requests, releases and time-outs, the operations
  running number at most the cap plus the requests that overtook a woken waiter, no lease is counted twice, the queue is
  within its bound, and somebody waits only while every slot is taken or promised.\<close>

theorem control_lane_bounded:
  "let l = lane_run cfg evs in
    cl_active l = length (cl_held l) \<and> distinct (cl_held l)
    \<and> cl_active l + length (cl_woken l) \<le> lc_maxConcurrent cfg + overtakings cfg lane_init evs
    \<and> length (cl_waiters l) \<le> lc_maxQueued cfg
    \<and> (cl_waiters l = [] \<or> lc_maxConcurrent cfg \<le> cl_active l + length (cl_woken l))"
  using lane_run_ok [of cfg evs] by (auto simp: lane_ok_def Let_def)

text \<open>The cap is not hard: a request that arrives between a release and the waiter it woke is granted the slot that was
  promised, and then the waiter takes one as well.\<close>

lemma control_lane_overrun:
  "cl_active (lane_run \<lparr> lc_maxConcurrent = 1, lc_maxQueued = 1 \<rparr>
     [Lane_Acquire, Lane_Acquire, Lane_Release 0, Lane_Acquire, Lane_Resume 1]) = 2"
  by (simp add: lane_run_def lane_init_def lane_acquire_def lane_grant_def answer_request_def lane_release_def lane_resume_def Let_def)

end
