(* ===== verification/Session_End.thy ===== *)
theory Session_End
  imports Web_Prelude
begin

text \<open>
  What happens when a session is deleted: \<open>internal-api/session-disposal.ts\<close>, \<open>run-receipts/deletion-cessation.ts\<close>,
  \<open>runtime-quiescence.ts\<close> and the quiescence predicate of \<open>internal-api/server.ts\<close>.

  The disposal registry runs the handles that other parts registered for the session. The cessation tracker says when a
  deleted session's runtime counts as stopped, and the predicate combines it with what the runtimes say: its positive
  answer releases the admission slot of a draining run (\<open>drain_answer\<close> of the run receipt manager).

  A handle is a number; its callback may unregister handles, which is all that it can do to the registry while it is
  being disposed. The answers of the services are arguments; a lookup that throws is \<open>None\<close>.
\<close>

subsection \<open>Disposal\<close>

record disposal_registry =
  dp_owners :: "(string, (nat \<times> string) list) jsmap"
  dp_tombstones :: "string jsset"
  dp_next :: nat
  dp_disposed :: "nat list"

definition disposal_init :: disposal_registry where
  "disposal_init = \<lparr> dp_owners = [], dp_tombstones = [], dp_next = 0, dp_disposed = [] \<rparr>"

definition handles_of :: "disposal_registry \<Rightarrow> string \<Rightarrow> (nat \<times> string) list" where
  "handles_of d sid = (case jm_get (dp_owners d) sid of Some hs \<Rightarrow> hs | None \<Rightarrow> [])"

definition unregister_handle :: "string \<Rightarrow> nat \<Rightarrow> disposal_registry \<Rightarrow> disposal_registry" where
  "unregister_handle sid h d =
     (case jm_get (dp_owners d) sid of
        None \<Rightarrow> d
      | Some hs \<Rightarrow>
          (case find_index (\<lambda>x. fst x = h) hs of
             None \<Rightarrow> d
           | Some i \<Rightarrow> d \<lparr> dp_owners := jm_set sid (splice_out i hs) (dp_owners d) \<rparr>))"

text \<open>The callback of a handle, with the handles that it unregisters.\<close>

definition run_handle :: "(nat \<Rightarrow> (string \<times> nat) list) \<Rightarrow> nat \<Rightarrow> disposal_registry \<Rightarrow> disposal_registry" where
  "run_handle unregisters h d =
     fold (\<lambda>(sid, k). unregister_handle sid k) (unregisters h) (d \<lparr> dp_disposed := dp_disposed d @ [h] \<rparr>)"

text \<open>A handle for a session that is already disposed is run at once.\<close>

definition register_handle ::
  "(nat \<Rightarrow> (string \<times> nat) list) \<Rightarrow> string \<Rightarrow> string \<Rightarrow> disposal_registry \<Rightarrow> nat \<times> disposal_registry" where
  "register_handle unregisters sid ownerType d =
     (let h = dp_next d; d1 = d \<lparr> dp_next := Suc h \<rparr> in
      (h, if sid \<in> set (dp_tombstones d) then run_handle unregisters h d1
          else d1 \<lparr> dp_owners := jm_set sid (handles_of d sid @ [(h, ownerType)]) (dp_owners d1) \<rparr>))"

definition dispose_session :: "(nat \<Rightarrow> (string \<times> nat) list) \<Rightarrow> string \<Rightarrow> disposal_registry \<Rightarrow> disposal_registry" where
  "dispose_session unregisters sid d =
     (if sid \<in> set (dp_tombstones d) then d
      else
        let d1 = d \<lparr> dp_tombstones := js_add sid (dp_tombstones d), dp_owners := jm_del sid (dp_owners d) \<rparr> in
        fold (\<lambda>h. run_handle unregisters (fst h)) (handles_of d sid) d1)"

definition dispose_all :: "(nat \<Rightarrow> (string \<times> nat) list) \<Rightarrow> disposal_registry \<Rightarrow> disposal_registry" where
  "dispose_all unregisters d = fold (dispose_session unregisters) (jm_keys (dp_owners d)) d"

definition is_disposed :: "string \<Rightarrow> disposal_registry \<Rightarrow> bool" where
  "is_disposed sid d \<longleftrightarrow> sid \<in> set (dp_tombstones d)"

definition owner_counts :: "disposal_registry \<Rightarrow> (string \<times> nat) list" where
  "owner_counts d = map (\<lambda>(sid, hs). (sid, length hs)) (dp_owners d)"

subsection \<open>Cessation after a deletion\<close>

definition deletion_cessation_grace_ms :: int where "deletion_cessation_grace_ms = 15 * 60 * 1000"

record deleted_record =
  dc_runtime :: string
  dc_deletedAtMs :: int
  dc_terminationAcked :: bool
  dc_graceReleaseLogged :: bool

record cessation =
  ce_records :: "(string, deleted_record) jsmap"
  ce_graceReleased :: "string list"

definition cessation_init :: cessation where
  "cessation_init = \<lparr> ce_records = [], ce_graceReleased = [] \<rparr>"

definition prune_unconsulted :: "(string \<Rightarrow> bool) \<Rightarrow> cessation \<Rightarrow> cessation" where
  "prune_unconsulted consulted c = c \<lparr> ce_records := filter (\<lambda>x. consulted (fst x)) (ce_records c) \<rparr>"

definition record_deletion :: "(string \<Rightarrow> bool) \<Rightarrow> int \<Rightarrow> string \<Rightarrow> string \<Rightarrow> bool \<Rightarrow> cessation \<Rightarrow> cessation" where
  "record_deletion consulted now sid runtime acked c0 =
     (let c = prune_unconsulted consulted c0 in
      if \<not> consulted sid then c \<lparr> ce_records := jm_del sid (ce_records c) \<rparr>
      else c \<lparr> ce_records := jm_set sid \<lparr> dc_runtime = runtime, dc_deletedAtMs = now, dc_terminationAcked = acked,
                                         dc_graceReleaseLogged = False \<rparr> (ce_records c) \<rparr>)"

definition has_deletion :: "string \<Rightarrow> cessation \<Rightarrow> bool" where
  "has_deletion sid c \<longleftrightarrow> jm_has (ce_records c) sid"

definition retained_count :: "cessation \<Rightarrow> nat" where
  "retained_count c = length (ce_records c)"

definition retire_if :: "bool \<Rightarrow> string \<Rightarrow> cessation \<Rightarrow> cessation" where
  "retire_if b sid c = (if b then c \<lparr> ce_records := jm_del sid (ce_records c) \<rparr> else c)"

definition deletion_quiescent :: "int \<Rightarrow> (string \<Rightarrow> bool) \<Rightarrow> int \<Rightarrow> string \<Rightarrow> cessation \<Rightarrow> bool \<times> cessation" where
  "deletion_quiescent graceMs consulted now sid c =
     (case jm_get (ce_records c) sid of
        None \<Rightarrow> (False, c)
      | Some r \<Rightarrow>
          if dc_terminationAcked r then (True, retire_if (\<not> consulted sid) sid c)
          else if now - dc_deletedAtMs r < graceMs then (False, c)
          else
            let c1 = (if dc_graceReleaseLogged r then c
                      else c \<lparr> ce_records := jm_set sid (r \<lparr> dc_graceReleaseLogged := True \<rparr>) (ce_records c),
                               ce_graceReleased := ce_graceReleased c @ [sid] \<rparr>) in
            (True, retire_if (\<not> consulted sid) sid c1))"

subsection \<open>What the runtimes say\<close>

record pi_status_info =
  pi_status :: "string option"
  pi_sdkStreaming :: bool
  pi_compacting :: bool

definition is_pi_runtime_quiescent :: "string option \<Rightarrow> bool" where
  "is_pi_runtime_quiescent status \<longleftrightarrow> status \<noteq> Some ''busy'' \<and> status \<noteq> Some ''streaming''"

definition is_pi_session_quiescent :: "pi_status_info option \<Rightarrow> bool" where
  "is_pi_session_quiescent info =
     (case info of
        None \<Rightarrow> True
      | Some i \<Rightarrow> \<not> (pi_status i = Some ''busy'' \<or> pi_status i = Some ''streaming'' \<or> pi_sdkStreaming i \<or> pi_compacting i))"

definition read_pi_runtime_quiescence :: "pi_status_info option option \<Rightarrow> bool" where
  "read_pi_runtime_quiescence reading = (case reading of Some info \<Rightarrow> is_pi_session_quiescent info | None \<Rightarrow> False)"

text \<open>
  The readings of one poll. \<open>rt_running\<close> is \<open>isRunning\<close> of a service at the moment it is asked; \<open>rt_commandCodeEntry\<close> and
  \<open>rt_entry\<close> are awaited.
\<close>

record runtime_readings =
  rt_commandCode :: bool
  rt_commandCodeEntry :: "bool option"
  rt_entry :: "string option option"
  rt_running :: "string \<Rightarrow> bool option"
  rt_piStatus :: "pi_status_info option option"

definition not_running :: "runtime_readings \<Rightarrow> string \<Rightarrow> bool" where
  "not_running r service = (case rt_running r service of Some b \<Rightarrow> \<not> b | None \<Rightarrow> False)"

text \<open>The tracker is asked at the start of the poll (\<open>c0\<close>) and, if there is no entry, after its awaits (\<open>c1\<close>, at \<open>now1\<close>).\<close>

definition runtime_quiescence ::
    "int \<Rightarrow> (string \<Rightarrow> bool) \<Rightarrow> string \<Rightarrow> int \<Rightarrow> cessation \<Rightarrow> runtime_readings \<Rightarrow> int \<Rightarrow> cessation \<Rightarrow> bool" where
  "runtime_quiescence graceMs consulted sid now0 c0 r now1 c1 =
     (if has_deletion sid c0 then fst (deletion_quiescent graceMs consulted now0 sid c0)
      else if rt_commandCode r \<and> rt_commandCodeEntry r = None then False
      else if rt_commandCode r \<and> rt_commandCodeEntry r = Some True then not_running r ''commandcode''
      else
        (case rt_entry r of
           None \<Rightarrow> False
         | Some None \<Rightarrow> fst (deletion_quiescent graceMs consulted now1 sid c1)
         | Some (Some sdkType) \<Rightarrow>
             if sdkType = ''commandcode'' then (if rt_commandCode r then not_running r ''commandcode'' else True)
             else if sdkType \<in> {''claude'', ''opencode'', ''antigravity''} then not_running r sdkType
             else read_pi_runtime_quiescence (rt_piStatus r)))"

subsection \<open>Every handle is run once\<close>

datatype disposal_op = Register_Handle string string | Unregister_Handle string nat | Dispose_Session string | Dispose_All

fun disposal_step :: "(nat \<Rightarrow> (string \<times> nat) list) \<Rightarrow> disposal_registry \<Rightarrow> disposal_op \<Rightarrow> disposal_registry" where
  "disposal_step un d (Register_Handle sid owner) = snd (register_handle un sid owner d)"
| "disposal_step un d (Unregister_Handle sid h) = unregister_handle sid h d"
| "disposal_step un d (Dispose_Session sid) = dispose_session un sid d"
| "disposal_step un d Dispose_All = dispose_all un d"

definition disposal_run :: "(nat \<Rightarrow> (string \<times> nat) list) \<Rightarrow> disposal_op list \<Rightarrow> disposal_registry" where
  "disposal_run un ops = foldl (disposal_step un) disposal_init ops"

definition handle_ids :: "disposal_registry \<Rightarrow> string \<Rightarrow> nat set" where
  "handle_ids d sid = fst ` set (handles_of d sid)"

text \<open>The handles of the sessions are apart from each other and from those already run; \<open>rest\<close> are to be run.\<close>

definition disposal_ok :: "nat list \<Rightarrow> disposal_registry \<Rightarrow> bool" where
  "disposal_ok rest d \<longleftrightarrow> distinct (rest @ dp_disposed d) \<and> set (rest @ dp_disposed d) \<subseteq> {..<dp_next d}
     \<and> (\<forall>s. distinct (map fst (handles_of d s)) \<and> handle_ids d s \<subseteq> {..<dp_next d} - set (rest @ dp_disposed d)
           \<and> (s \<in> set (dp_tombstones d) \<longrightarrow> handles_of d s = []))
     \<and> (\<forall>s t. s \<noteq> t \<longrightarrow> handle_ids d s \<inter> handle_ids d t = {})"

lemma unregister_fields [simp]:
  "dp_next (unregister_handle s h d) = dp_next d" "dp_disposed (unregister_handle s h d) = dp_disposed d"
  "dp_tombstones (unregister_handle s h d) = dp_tombstones d"
  by (simp_all add: unregister_handle_def split: option.split)

lemma unregister_handles:
  "handles_of (unregister_handle s h d) t = handles_of d t
   \<or> (\<exists>i < length (handles_of d t). handles_of (unregister_handle s h d) t = splice_out i (handles_of d t))"
proof (cases "jm_get (dp_owners d) s")
  case (Some hs)
  then show ?thesis
    using find_index_SomeD [of "\<lambda>x. fst x = h" hs]
    by (cases "find_index (\<lambda>x. fst x = h) hs") (auto simp: unregister_handle_def handles_of_def)
qed (simp add: unregister_handle_def)

lemma unregister_ok:
  assumes "disposal_ok rest d" shows "disposal_ok rest (unregister_handle s h d)"
proof -
  have sub: "handle_ids (unregister_handle s h d) t \<subseteq> handle_ids d t" for t
    using unregister_handles [of s h d t] set_splice_out by (fastforce simp: handle_ids_def)
  have "distinct (map fst (handles_of (unregister_handle s h d) t))" for t
  proof -
    have "distinct (map fst (handles_of d t))" using assms by (simp add: disposal_ok_def)
    then show ?thesis using unregister_handles [of s h d t] distinct_map_splice_out [of fst "handles_of d t"] by auto
  qed
  moreover have "handles_of (unregister_handle s h d) t = []" if "t \<in> set (dp_tombstones d)" for t
    using unregister_handles [of s h d t] assms that by (auto simp: disposal_ok_def splice_out_def)
  ultimately show ?thesis
    using assms sub unfolding disposal_ok_def by (simp add: subset_iff disjoint_iff) blast
qed

lemma run_handle_ok:
  assumes "disposal_ok (h # rest) d"
  shows "disposal_ok rest (run_handle un h d)" "dp_tombstones (run_handle un h d) = dp_tombstones d"
    "dp_disposed (run_handle un h d) = dp_disposed d @ [h]" "handle_ids (run_handle un h d) s \<subseteq> handle_ids d s"
proof -
  let ?d = "d \<lparr> dp_disposed := dp_disposed d @ [h] \<rparr>"
  have ok: "disposal_ok rest ?d" using assms by (auto simp: disposal_ok_def handles_of_def handle_ids_def)
  have "disposal_ok rest (fold (\<lambda>(sid, k). unregister_handle sid k) xs ?d) \<and> dp_tombstones (fold (\<lambda>(sid, k). unregister_handle sid k) xs ?d) = dp_tombstones d
      \<and> dp_disposed (fold (\<lambda>(sid, k). unregister_handle sid k) xs ?d) = dp_disposed d @ [h]
      \<and> handle_ids (fold (\<lambda>(sid, k). unregister_handle sid k) xs ?d) s \<subseteq> handle_ids d s" for xs
  proof (induction xs rule: rev_induct)
    case Nil
    then show ?case using ok by (simp add: handle_ids_def handles_of_def)
  next
    case (snoc x xs)
    let ?e = "fold (\<lambda>(sid, k). unregister_handle sid k) xs ?d"
    have "handle_ids (unregister_handle (fst x) (snd x) ?e) s \<subseteq> handle_ids ?e s"
      using unregister_handles [of "fst x" "snd x" ?e s] set_splice_out by (fastforce simp: handle_ids_def)
    then show ?case using snoc unregister_ok by (cases x) auto
  qed
  then show "disposal_ok rest (run_handle un h d)" "dp_tombstones (run_handle un h d) = dp_tombstones d"
    "dp_disposed (run_handle un h d) = dp_disposed d @ [h]" "handle_ids (run_handle un h d) s \<subseteq> handle_ids d s"
    by (simp_all add: run_handle_def)
qed

lemma run_handles_ok:
  "disposal_ok (map fst hs) d \<Longrightarrow>
     disposal_ok [] (fold (\<lambda>h. run_handle un (fst h)) hs d) \<and> dp_disposed (fold (\<lambda>h. run_handle un (fst h)) hs d) = dp_disposed d @ map fst hs
     \<and> dp_tombstones (fold (\<lambda>h. run_handle un (fst h)) hs d) = dp_tombstones d"
proof (induction hs arbitrary: d)
  case (Cons h hs)
  then have "disposal_ok (map fst hs) (run_handle un (fst h) d)" by (simp add: run_handle_ok(1))
  from Cons.IH [OF this] show ?case using Cons.prems by (simp add: run_handle_ok(2,3))
qed simp

lemma dispose_ok:
  assumes "disposal_ok [] d"
  shows "disposal_ok [] (dispose_session un sid d)"
    and "handle_ids d sid \<subseteq> set (dp_disposed (dispose_session un sid d))"
    and "sid \<in> set (dp_tombstones (dispose_session un sid d))"
proof -
  let ?d = "d \<lparr> dp_tombstones := js_add sid (dp_tombstones d), dp_owners := jm_del sid (dp_owners d) \<rparr>"
  have h: "handles_of ?d s = (if s = sid then [] else handles_of d s)" for s by (simp add: handles_of_def)
  have "disposal_ok (map fst (handles_of d sid)) ?d"
  proof -
    have i: "handle_ids ?d s = (if s = sid then {} else handle_ids d s)" for s by (simp add: handle_ids_def h)
    have "set (map fst (handles_of d sid)) = handle_ids d sid" by (simp add: handle_ids_def)
    then show ?thesis
      using assms unfolding disposal_ok_def i h by (simp add: subset_iff disjoint_iff)
  qed
  note r = run_handles_ok [OF this, of un]
  show "disposal_ok [] (dispose_session un sid d)" using r assms by (simp add: dispose_session_def Let_def)
  show "sid \<in> set (dp_tombstones (dispose_session un sid d))" using r by (simp add: dispose_session_def Let_def)
  show "handle_ids d sid \<subseteq> set (dp_disposed (dispose_session un sid d))"
    using r assms by (auto simp: dispose_session_def Let_def handle_ids_def disposal_ok_def)
qed

lemma register_ok:
  assumes "disposal_ok [] d" shows "disposal_ok [] (snd (register_handle un sid owner d))"
proof -
  let ?n = "dp_next d"
  have b: "handle_ids d s \<subseteq> {..<?n} - set (dp_disposed d)" "distinct (map fst (handles_of d s))" for s
    using assms by (simp_all add: disposal_ok_def)
  have disjoint: "handle_ids d s \<inter> handle_ids d t = {}" if "s \<noteq> t" for s t using assms that by (simp add: disposal_ok_def)
  have n: "?n \<notin> handle_ids d s" for s using b(1) [of s] by auto
  have gone: "handles_of d s = []" if "s \<in> set (dp_tombstones d)" for s using assms that by (simp add: disposal_ok_def)
  have dd: "distinct (dp_disposed d)" "set (dp_disposed d) \<subseteq> {..<?n}" "?n \<notin> set (dp_disposed d)"
    using assms by (auto simp: disposal_ok_def)
  show ?thesis
  proof (cases "sid \<in> set (dp_tombstones d)")
    case True
    have h: "handles_of (d \<lparr> dp_next := m \<rparr>) s = handles_of d s" for s m by (simp add: handles_of_def)
    have i: "handle_ids (d \<lparr> dp_next := m \<rparr>) s = handle_ids d s" for s m by (simp add: handle_ids_def h)
    have "handle_ids d s \<subseteq> {..<Suc ?n} - set (?n # dp_disposed d)" for s using b(1) [of s] n [of s] by auto
    moreover have "set (?n # dp_disposed d) \<subseteq> {..<Suc ?n}" using dd by auto
    ultimately have "disposal_ok [?n] (d \<lparr> dp_next := Suc ?n \<rparr>)"
      using b(2) disjoint gone dd by (simp add: disposal_ok_def h i)
    then show ?thesis using True run_handle_ok(1) by (simp add: register_handle_def Let_def)
  next
    case False
    let ?hs = "handles_of d sid @ [(?n, owner)]"
    have h: "handles_of (d \<lparr> dp_next := m, dp_owners := jm_set sid ?hs (dp_owners d) \<rparr>) s = (if s = sid then ?hs else handles_of d s)" for s m
      by (simp add: handles_of_def)
    have i: "handle_ids (d \<lparr> dp_next := m, dp_owners := jm_set sid ?hs (dp_owners d) \<rparr>) s
        = (if s = sid then insert ?n (handle_ids d sid) else handle_ids d s)" for s m
      by (simp add: handle_ids_def h)
    have "(if s = sid then insert ?n (handle_ids d sid) else handle_ids d s) \<subseteq> {..<Suc ?n} - set (dp_disposed d)" for s
      using b(1) [of s] dd by auto
    moreover have "distinct (map fst (if s = sid then ?hs else handles_of d s))" for s
      using b(2) [of s] b(2) [of sid] n [of sid] by (simp add: handle_ids_def)
    moreover have "(if s = sid then insert ?n (handle_ids d sid) else handle_ids d s)
        \<inter> (if t = sid then insert ?n (handle_ids d sid) else handle_ids d t) = {}" if "s \<noteq> t" for s t
      using disjoint [OF that] n [of s] n [of t] that by auto
    moreover have "set (dp_disposed d) \<subseteq> {..<Suc ?n}" using dd by auto
    ultimately show ?thesis
      using False gone dd(1) by (simp add: register_handle_def Let_def disposal_ok_def h i)
  qed
qed

lemma disposal_run_ok: "disposal_ok [] (disposal_run un ops)"
proof (induction ops rule: rev_induct)
  case Nil
  show ?case by (simp add: disposal_run_def disposal_ok_def disposal_init_def handles_of_def handle_ids_def)
next
  case (snoc x ops)
  have all: "disposal_ok [] (fold (dispose_session un) ks d)" if "disposal_ok [] d" for ks d
    using that by (induction ks arbitrary: d) (simp_all add: dispose_ok(1))
  show ?case
    using snoc by (cases x) (simp_all add: disposal_run_def register_ok unregister_ok dispose_ok(1) dispose_all_def all)
qed

text \<open>Every resource of a session is torn down exactly once: whatever is registered, unregistered and disposed, and
  whatever the callbacks unregister, no handle is ever run twice, disposing of a session runs every handle it still has, and
  afterwards it has none.\<close>

theorem session_disposed_exactly_once:
  "let d = disposal_run un ops; d' = dispose_session un sid d in
    distinct (dp_disposed d') \<and> fst ` set (handles_of d sid) \<subseteq> set (dp_disposed d')
    \<and> set (dp_disposed d) \<inter> fst ` set (handles_of d sid) = {} \<and> handles_of d' sid = [] \<and> is_disposed sid d'"
proof -
  note ok = disposal_run_ok [of un ops]
  note ok' = dispose_ok [OF ok, where un = un and sid = sid]
  have "set (dp_disposed (disposal_run un ops)) \<inter> handle_ids (disposal_run un ops) sid = {}"
    using ok by (fastforce simp: disposal_ok_def)
  then show ?thesis using ok' by (simp add: Let_def disposal_ok_def handle_ids_def is_disposed_def)
qed

subsection \<open>Cessation needs evidence\<close>

datatype cessation_op = Deletion "string \<Rightarrow> bool" int string string bool | Consult "string \<Rightarrow> bool" int string

fun cessation_step :: "int \<Rightarrow> cessation \<Rightarrow> cessation_op \<Rightarrow> cessation" where
  "cessation_step grace c (Deletion consulted now sid runtime acked) = record_deletion consulted now sid runtime acked c"
| "cessation_step grace c (Consult consulted now sid) = snd (deletion_quiescent grace consulted now sid c)"

definition cessation_run :: "int \<Rightarrow> cessation_op list \<Rightarrow> cessation" where
  "cessation_run grace ops = foldl (cessation_step grace) cessation_init ops"

text \<open>The last deletion of a session in a history: when, and whether the runtime acknowledged it.\<close>

fun last_deletion :: "string \<Rightarrow> cessation_op list \<Rightarrow> (int \<times> bool) option" where
  "last_deletion sid [] = None"
| "last_deletion sid (Deletion consulted now k runtime acked # ops) =
     (case last_deletion sid ops of Some x \<Rightarrow> Some x | None \<Rightarrow> if k = sid then Some (now, acked) else None)"
| "last_deletion sid (Consult consulted now k # ops) = last_deletion sid ops"

text \<open>A receipt of the session could consult the record at every operation.\<close>

fun consulted_at :: "string \<Rightarrow> cessation_op \<Rightarrow> bool" where
  "consulted_at sid (Deletion consulted _ _ _ _) = consulted sid"
| "consulted_at sid (Consult consulted _ _) = consulted sid"

lemma last_deletion_snoc [simp]:
  "last_deletion sid (ops @ [Deletion consulted now k runtime acked]) = (if k = sid then Some (now, acked) else last_deletion sid ops)"
  "last_deletion sid (ops @ [Consult consulted now k]) = last_deletion sid ops"
  by (induction sid ops rule: last_deletion.induct) (simp_all split: option.split)

definition remembers :: "string \<Rightarrow> cessation_op list \<Rightarrow> cessation \<Rightarrow> bool" where
  "remembers sid ops c \<longleftrightarrow>
     (case jm_get (ce_records c) sid of
        None \<Rightarrow> last_deletion sid ops = None \<or> \<not> list_all (consulted_at sid) ops
      | Some r \<Rightarrow> last_deletion sid ops = Some (dc_deletedAtMs r, dc_terminationAcked r))"

lemma get_filter_keys: "jm_get (filter (\<lambda>x. P (fst x)) m) k = (if P k then jm_get m k else None)"
  by (induction m) auto

lemma consult_keeps:
  "jm_get (ce_records (snd (deletion_quiescent grace consulted now sid c))) k
   = (case jm_get (ce_records c) k of
        None \<Rightarrow> None
      | Some r \<Rightarrow>
          if k = sid \<and> fst (deletion_quiescent grace consulted now sid c) \<and> \<not> consulted sid then None
          else Some (r \<lparr> dc_graceReleaseLogged := dc_graceReleaseLogged r \<or> k = sid \<and> fst (deletion_quiescent grace consulted now sid c) \<and> \<not> dc_terminationAcked r \<rparr>))"
  by (cases "k = sid") (auto simp: deletion_quiescent_def retire_if_def Let_def split: option.splits if_splits)

lemma cessation_run_remembers: "remembers sid ops (cessation_run grace ops)"
proof (induction ops rule: rev_induct)
  case Nil
  show ?case by (simp add: remembers_def cessation_run_def cessation_init_def)
next
  case (snoc x ops)
  show ?case
  proof (cases x)
    case (Deletion consulted now k runtime acked)
    then show ?thesis
      using snoc by (auto simp: remembers_def cessation_run_def record_deletion_def prune_unconsulted_def Let_def get_filter_keys split: option.splits)
  next
    case (Consult consulted now k)
    then show ?thesis
      using snoc by (auto simp: remembers_def cessation_run_def consult_keeps split: option.splits if_splits)
  qed
qed

definition cessation_evidence :: "int \<Rightarrow> string \<Rightarrow> cessation_op list \<Rightarrow> int \<Rightarrow> bool" where
  "cessation_evidence grace sid ops now \<longleftrightarrow>
     (case last_deletion sid ops of Some (t, acked) \<Rightarrow> acked \<or> now - t \<ge> grace | None \<Rightarrow> False)"

text \<open>A deleted session's runtime counts as stopped only on evidence, and then it does: the tracker answers yes only when
  the last deletion of the session was acknowledged by its runtime or lies the whole grace back, and while a receipt can
  still ask, it does answer yes then; a session whose deletion was never seen is never released.\<close>

theorem cessation_needs_evidence:
  "(fst (deletion_quiescent grace consulted now sid (cessation_run grace ops)) \<longrightarrow> cessation_evidence grace sid ops now)
   \<and> (list_all (consulted_at sid) ops \<longrightarrow> cessation_evidence grace sid ops now
      \<longrightarrow> fst (deletion_quiescent grace consulted now sid (cessation_run grace ops)))"
  using cessation_run_remembers [of sid ops grace]
  by (auto simp: cessation_evidence_def remembers_def deletion_quiescent_def split: option.splits if_splits)

theorem cessation_needs_evidence_witness:
  "let ops = [Deletion (\<lambda>_. True) 100 ''s'' ''claude'' False] in
    fst (deletion_quiescent 50 (\<lambda>_. True) 150 ''s'' (cessation_run 50 ops))
    \<and> \<not> fst (deletion_quiescent 50 (\<lambda>_. True) 149 ''s'' (cessation_run 50 ops))"
  using cessation_needs_evidence [of 50 "\<lambda>_. True" 150 "''s''" "[Deletion (\<lambda>_. True) 100 ''s'' ''claude'' False]"]
    cessation_needs_evidence [of 50 "\<lambda>_. True" 149 "''s''" "[Deletion (\<lambda>_. True) 100 ''s'' ''claude'' False]"]
  by (auto simp: cessation_evidence_def Let_def)

text \<open>What the server's predicate answers for a recorded deletion is what the tracker answers.\<close>

lemma recorded_deletion_decides:
  "has_deletion sid c0 \<Longrightarrow>
     runtime_quiescence grace consulted sid now0 c0 r now1 c1 = fst (deletion_quiescent grace consulted now0 sid c0)"
  by (simp add: runtime_quiescence_def)

text \<open>The check of the tracker comes before the awaits of the poll: a deletion recorded in between, whose abort makes the
  service say that nothing runs, is not seen, and the poll answers yes without evidence.\<close>

lemma deletion_races_poll:
  assumes "\<not> has_deletion sid c0" and "c1 = record_deletion consulted now1 sid ''opencode'' False c0"
    and "consulted sid" and "0 < grace"
  shows "runtime_quiescence grace consulted sid now0 c0
      \<lparr> rt_commandCode = False, rt_commandCodeEntry = None, rt_entry = Some (Some ''opencode''),
        rt_running = (\<lambda>_. Some False), rt_piStatus = None \<rparr> now1 c1"
    and "\<not> fst (deletion_quiescent grace consulted now1 sid c1)"
  using assms by (simp_all add: runtime_quiescence_def not_running_def record_deletion_def deletion_quiescent_def Let_def)

end
