(* ===== verification/Spec2Isabelle.thy ===== *)
theory Spec2Isabelle
  imports Web_Prelude Json_Model Payload_Budget Event_Broker Admission Drain
    Receipt_Schema Run_Receipts Receipt_Durability Final_Text Completion_Parser
    Phase7_Shadow Completion_Schema Run_Manager Run_Leases Run_Ends Run_Begin Js_Regex Relay_Normalise Proposals
    Utterance_Classifier Policy_Core Talker_Session Host_Kernel
    Watch_Conditions Watch_Ledger Watch_Runs Watch_Liveness Watch_Manager Watch_Examples
    Loop_Shed Outbound Control_Lane Session_End
begin

text \<open>
  A verification development for the core logic of \<open>pi-web-ui\<close>, a web server that runs coding agents for
  remote clients. It models code of \<open>src/server/src\<close>: the internal API's event delivery, admission,
  drain, run receipts and watches (\<open>internal-api/\<close>), the outbound path to browsers (\<open>websocket/\<close>) and the voice talker that relays an operator's spoken
  instructions to a worker (\<open>talker/\<close>).

  \<^bold>\<open>How the parts work together.\<close> A client asks the internal API to run a turn. The admission controller decides
  whether the process can take it and leases a slot; the run receipt manager accepts the run, keeps the
  slot until the run has ended and its runtime has stopped, and the run receipt store writes down
  durably what becomes of the run; the events of the run go through the payload budget, which bounds each event's
  size, and the event broker, which bounds what is retained and how fast a subscriber is updated.
  When the process is replaced, the drain controller closes the admission gate, waits for running work
  and leaves a record that the next process consumes; the receipt store of the next process recovers
  what was interrupted. A watch observes the events of one session in the broker's stream, keeps a durable ledger of
  what its conditions saw, and wakes another session when they fire; after a restart the watch manager
  brings the stored watches back and reports the runs that the receipt store found interrupted. On the voice side the talker session takes the operator's utterances: the
  classifier reads them, the policy core decides, the relay normaliser tidies what joins the draft, and
  the proposal stores hold it until the operator's own confirmation releases it. The host authority
  kernel is the second, card-based path to the same worker. What browsers see leaves through the outbound governor,
  which the event-loop shed monitor tells when to cut updates short; control requests of the API pass a bounded lane; and
  when a session is deleted, the disposal registry tears its resources down and the cessation tracker says when its
  runtime counts as stopped, which is what a draining run's slot waits for.

  \<^bold>\<open>Theories and the code they model.\<close>
  \<^item> \<open>Web_Prelude\<close>: JavaScript values and collections shared by all (insertion-ordered maps with a locale for
    their laws, \<open>slice\<close>, \<open>Math.max\<close>, UTF-16 strings, decimal text), generic lemmas. \<open>Json_Model\<close>: JSON
    values and \<open>JSON.stringify\<close>.
  \<^item> \<open>Payload_Budget\<close>: \<open>event-payload-budget.ts\<close>. The byte counter against the UTF-8 length of the serialised
    text, the slimming ladder and its bound.
  \<^item> \<open>Event_Broker\<close>: \<open>event-broker.ts\<close>. The broker state, every operation, and runs of operations: the byte
    accounting invariant, global bounds, order of delivery, coalescing and the token bucket.
  \<^item> \<open>Admission\<close>: \<open>admission-controller.ts\<close>. Option resolution, pressure gates with hysteresis, leases; the
    counters as sums over unreleased leases, the reserve for control turns.
  \<^item> \<open>Drain\<close>: \<open>drain-controller.ts\<close>. The controller composed with the admission gate, its timers and its
    awaited refresh as events; the durable record and the composition at boot.
  \<^item> \<open>Receipt_Schema\<close>, \<open>Run_Receipts\<close>, \<open>Receipt_Durability\<close>: \<open>run-receipts/run-receipt-store.ts\<close>. The validators
    over parsed JSON; the operations over cache and directory; the status machine over all runs, what
    a restart recovers, pruning and the idempotency index.
  \<^item> \<open>Final_Text\<close>: \<open>run-receipts/final-text.ts\<close>. The bounded tracker is the tail of the unbounded segment.
  \<^item> \<open>Completion_Parser\<close>: \<open>completion/completion-parser.ts\<close>. The line scanner and the selection loop, against a
    direct reading of the blocks. \<open>Completion_Schema\<close>: \<open>completion/completion-schema.ts\<close>, and which accepted
    blocks the receipt store takes.
  \<^item> \<open>Phase7_Shadow\<close>: \<open>phase7-pi-shadow.ts\<close>. The shadow evidence of Pi runs from acceptance to the end.
  \<^item> \<open>Run_Manager\<close>: \<open>run-receipts/run-receipt-manager.ts\<close>, every operation. \<open>Run_Leases\<close>: where the admission leases
    are over all runs of its operations. \<open>Run_Ends\<close>: \<open>finish\<close> and the watchdog end every run whose evidence
    can be stored, and it is refused for exactly the others. \<open>Run_Begin\<close>: from \<open>beginRun\<close> to the end of the run.
  \<^item> \<open>Js_Regex\<close>: the regular expressions and string methods the talker uses, as a backtracking matcher with
    JavaScript's priorities (standard library, so it has no source lines of its own).
  \<^item> \<open>Relay_Normalise\<close>: \<open>relay-normalise.ts\<close>, with every pattern. Removal only: what is relayed plus what is
    recorded as removed is what was said.
  \<^item> \<open>Proposals\<close>: \<open>proposal-store.ts\<close>. The utterance log, the draft store and the proposal store.
  \<^item> \<open>Utterance_Classifier\<close>: \<open>utterance-classifier.ts\<close>, with every pattern. The closed confirmation vocabulary and
    the cancel loop.
  \<^item> \<open>Policy_Core\<close>: \<open>policy-core.ts\<close>, \<open>ack.ts\<close>, \<open>ask-worker.ts\<close>. The decision of a turn, the read-only adapter
    and its interface.
  \<^item> \<open>Talker_Session\<close>: \<open>talker.ts\<close>, \<open>history.ts\<close>. An operator turn as steps between awaits, all interleavings.
  \<^item> \<open>Host_Kernel\<close>: the kernel of \<open>policy-core.ts\<close> with \<open>thread-store.ts\<close>, \<open>parking-lot.ts\<close>, \<open>release-store.ts\<close>
    and \<open>kernel-operations.ts\<close>.
  \<^item> \<open>Watch_Conditions\<close>: \<open>watch/condition-evaluator.ts\<close>. Validation, resolution and matching of conditions; text that
    arrives in deltas is searched as if it came whole.
  \<^item> \<open>Watch_Ledger\<close>: \<open>watch/watch-manager.ts\<close>, everything that happens to one live watch: firings, the wake policy and
    its dispatch, deadlines, completion. \<open>Watch_Runs\<close>: its step relation, the ledger and wake-budget invariants.
    \<open>Watch_Liveness\<close>: a watch whose conditions have fired ends, and deadlines fire. \<open>Watch_Manager\<close>: registration,
    deletion, restart and reconciliation. \<open>Watch_Examples\<close>: the theorems on concrete watches.
  \<^item> \<open>Loop_Shed\<close>: \<open>event-loop-shed.ts\<close>. The ring of samples is the recent history, and shedding has hysteresis.
    \<open>Outbound\<close>: \<open>websocket/outbound-governor.ts\<close> and its use in \<open>websocket/connection.ts\<close>. No accepted frame is lost or
    reordered while the socket is open, and what is held for a socket is bounded.
  \<^item> \<open>Control_Lane\<close>: \<open>control-lane.ts\<close>. The lane is bounded up to the requests that overtake a woken waiter.
  \<^item> \<open>Session_End\<close>: \<open>session-disposal.ts\<close>, \<open>run-receipts/deletion-cessation.ts\<close>, \<open>runtime-quiescence.ts\<close> and the quiescence
    predicate of \<open>server.ts\<close>. Every handle is run once, and a deleted runtime counts as stopped only on evidence.

  \<^bold>\<open>Conventions.\<close> A class is a record and a method a function that returns its result and the new state. Thrown
  errors are the left of a sum; an absent optional field is \<open>None\<close>. A \<open>Map\<close> is an association list that
  keeps insertion order (\<open>jsmap\<close>). Strings are lists of UTF-16 code units. JavaScript integers are \<open>int\<close>
  or \<open>nat\<close> and fractions \<open>rat\<close>: the code's counters stay far below \<open>2 ^ 53\<close>, and where it rounds or
  divides by zero the model writes it out. A method that awaits is cut at its awaits, and a run is a
  list of events, so every order of answers is covered. The clock is an argument.

  \<^bold>\<open>Interfaces.\<close> \<open>ordered_map\<close> (\<open>Web_Prelude\<close>) is what the stores rely on of a \<open>Map\<close>, interpreted on \<open>jsmap\<close>;
  \<open>draft_source\<close> (\<open>Policy_Core\<close>) is what the policy core relies on of the draft store, interpreted on
  \<open>PendingProposalStore\<close>; \<open>lease_contract\<close> (\<open>Run_Leases\<close>) is what the operations of the receipt manager have in
  common, interpreted on two relations between its states. \<open>watch_invariant\<close> and its extension \<open>ledger_invariant\<close>
  (\<open>Watch_Runs\<close>) are what a property of a watch must satisfy so that every step keeps it; each invariant of a
  watch is an interpretation.

  \<^bold>\<open>Bounds and fuel.\<close> The loops of the broker and the receipt store recurse on the lists they consume. The
  broker's eviction loops carry the code's own guard of 10000 iterations. The leading loop of the
  relay normaliser has the code's 16 passes and the trailing loop its 4. In the regular-expression
  matcher a repetition carries as fuel the characters left, and since an iteration must consume one,
  as ECMAScript prescribes, more fuel changes nothing (\<open>iterate_fuel\<close>). The cancel loop of the classifier
  is an endless \<open>for\<close> in the code and a \<open>partial_function\<close> here: that it returns on every utterance is
  proved. \<open>drain_wakes\<close> works off what a watch owes; \<open>wake_work\<close> steps, three for a
  dispatch that may be retried, one for a retry and two for a retry still to come, are enough, as \<open>fired_watch_ends\<close> shows. The scan for a confirmation is a function with the words left as its measure.

  \<^bold>\<open>Parameters.\<close> Date parsing and ISO printing (receipts), \<open>sha256\<close>, the Unicode letter class and lower-casing
  outside ASCII (proposals), the history and file readers, the model, the snapshot provider and the
  delivery adapter (talker) are arguments or events: their code is outside this repository or is an
  adapter over a service. The texts of the \<open>zod\<close> issues and \<open>JSON.parse\<close> are arguments of the completion parser;
  the combinators of \<open>zod\<close> that the schema uses are written out from their documentation. The receipt manager's
  locks make the section they guard one step; its timers and the answers of the runtime are events.
  The regular expressions of watch conditions are the user's: whether one compiles and what it matches are
  arguments (\<open>regex_env\<close>), as are ISO printing and fresh identities (\<open>watch_env\<close>) and the answers of pins, saves and
  unlinks (\<open>watch_services\<close>).

  \<^bold>\<open>What the groups of lemmas show.\<close> Nothing is sent without the operator's confirmation of exactly that text, and
  nothing is sent twice (\<open>Talker_Session\<close>, \<open>Host_Kernel\<close>, \<open>Proposals\<close>, \<open>Policy_Core\<close>). The tidied text never
  contains a word the operator did not say, and the card accounts for every word (\<open>Relay_Normalise\<close>,
  \<open>Proposals\<close>). Memory and rates are bounded and no event is lost or reordered by that (\<open>Event_Broker\<close>,
  \<open>Payload_Budget\<close>). Admission accounts for every lease and keeps its reserve; a drain closes the gate and
  its verdict is true of what is left (\<open>Admission\<close>, \<open>Drain\<close>). A run's status moves only forward, survives
  a restart and is not pruned while it matters (\<open>Receipt_Durability\<close>). No admission slot is lost or released
  twice, a slot whose runtime may still run is kept, and an accepted request can be ended with its slot
  let go exactly when its evidence can be stored: the captured completion block within the store's bounds, and a run
  with shadow evidence at most seven days old (\<open>Run_Leases\<close>, \<open>Run_Begin\<close>, \<open>Run_Ends\<close>). A watch misses no phrase, counts
  every firing once, wakes within its budget, ends when nothing is owed and survives a restart; registrations
  and deletions respect its generation (\<open>Watch_Conditions\<close> to \<open>Watch_Manager\<close>). Frames for browsers are neither lost nor
  reordered and what waits for a slow one is bounded, control requests are bounded, and a deleted session is torn down
  once (\<open>Loop_Shed\<close> to \<open>Session_End\<close>). Some lemmas pin down what the
  code does where its documentation says otherwise: a failed busy listing settles a drain, a failed
  recovery is never retried, a shorter restatement discards held words, \<open>please do it\<close> is no
  confirmation, a completion block with a long commit subject makes its run impossible to finish, a run
  that was never dispatched never expires, a watch's suppressed wakes push the dispatched one out of the
  budget, and a receipt is accepted for a release nobody authorised.

  \<^bold>\<open>Not modelled.\<close> HTTP and websocket plumbing, the runtime adapters (Claude, Pi, OpenCode, Antigravity, Command
  Code), worker processes and placement, voice audio, notifications, terminal and git wrappers, the
  React client, scripts and tests: input and output around services that are not in this repository.
  Within the modelled files: metrics, log lines, the text of the model projection, latency figures and
  observability hooks; callbacks that re-enter the broker; the validation-only pressure file and the
  cgroup readers of admission, and a memory or PID reader that throws (its error leaves \<open>acquire\<close>, and makes a
  drain count no active turn); calls that go past the host kernel to the stores it exposes; waiting for pending
  writes at shutdown of the receipt store; the lock
  queues, poll intervals and listener registration of the receipt manager; the queueing of the watch manager's
  mutation chain and the write queue of its store.

  \<^bold>\<open>What is left.\<close> The receipt invariant over all runs of the manager and its composition with the admission
  controller's leases; the broker's replay as the source of a watch's events; the quiescence predicate as the answer that
  the receipt manager's drain polls; schedules, pin expiry and session lineage of the internal API.
\<close>

end
